(* ===== verification/Waffle_Prelude.thy ===== *)
theory Waffle_Prelude
  imports Main "HOL-Library.AList" "HOL-Library.Word" "HOL-Library.Char_ord"
    "HOL-Library.List_Lexorder" "HOL-Library.Multiset"
begin

text \<open>
  Shared vocabulary of the development.

  \<^item> \<open>cpp_error\<close> and \<open>'a res\<close>: what a C++ function of the source can do instead of returning
    (throw, abort, call \<open>exit\<close>, run into undefined behaviour, not return), and the result type
    that carries it; \<open>bindR\<close> sequences two steps and stops at the first error.
  \<^item> \<open>('k, 'v) umap\<close>: \<open>std::unordered_map\<close> and \<open>std::map\<close> as association lists with the
    operations the source calls.  The iteration order of an unordered map is never fixed by these
    definitions: a function that iterates takes the order as an argument.
  \<^item> signed 32-bit arithmetic, and list lemmas that several components share.
\<close>

subsection \<open>Outcomes of C++ code\<close>

datatype cpp_error =
    Invalid_argument
  | Out_of_range
  | Runtime_error string
  | Future_already_satisfied
  | Undefined_behaviour
  | Assertion_failed
  | Exit int
  | Aborted
  | Blocked
  | Out_of_fuel
  | Protocol_error int
  | Application_error int string
  | End_of_file

type_synonym 'a res = "cpp_error + 'a"

definition bindR :: "'a res \<Rightarrow> ('a \<Rightarrow> 'b res) \<Rightarrow> 'b res" where
  "bindR m f = (case m of Inl e \<Rightarrow> Inl e | Inr x \<Rightarrow> f x)"

fun is_ok :: "'a res \<Rightarrow> bool" where
  "is_ok (Inl _) = False"
| "is_ok (Inr _) = True"

text \<open>Which outcomes a \<open>catch (const std::exception &)\<close> clause sees: the thrown ones.\<close>

fun is_std_exception :: "cpp_error \<Rightarrow> bool" where
  "is_std_exception Invalid_argument = True"
| "is_std_exception Out_of_range = True"
| "is_std_exception (Runtime_error _) = True"
| "is_std_exception Future_already_satisfied = True"
| "is_std_exception (Protocol_error _) = True"
| "is_std_exception (Application_error _ _) = True"
| "is_std_exception End_of_file = True"
| "is_std_exception _ = False"

text \<open>A loop that runs a fallible body once per list element, left to right.\<close>

fun foldR :: "('a \<Rightarrow> 's \<Rightarrow> 's res) \<Rightarrow> 'a list \<Rightarrow> 's \<Rightarrow> 's res" where
  "foldR f [] s = Inr s"
| "foldR f (x # xs) s = bindR (f x s) (foldR f xs)"

text \<open>Laws that carry the component proofs: results are decided branch by branch.\<close>

named_theorems res_simps

lemma bindR_Inr [simp, res_simps]: "bindR (Inr x) f = f x"
  by (simp add: bindR_def)

lemma bindR_Inl [simp, res_simps]: "bindR (Inl e) f = Inl e"
  by (simp add: bindR_def)

lemma bindR_eq_Inr [res_simps]: "bindR m f = Inr y \<longleftrightarrow> (\<exists>x. m = Inr x \<and> f x = Inr y)"
  by (cases m) auto

lemma case_res_eq_Inr [res_simps]:
  "(case r of Inl z \<Rightarrow> Inl (g z) | Inr x \<Rightarrow> f x) = Inr y \<longleftrightarrow> (\<exists>x. r = Inr x \<and> f x = Inr y)"
  by (cases r) auto

lemma bindR_cong [fundef_cong]:
  "m = m' \<Longrightarrow> (\<And>x. m' = Inr x \<Longrightarrow> f x = f' x) \<Longrightarrow> bindR m f = bindR m' f'"
  by (cases m') auto

lemma is_ok_iff: "is_ok r \<longleftrightarrow> (\<exists>x. r = Inr x)"
  by (cases r) auto

lemma bindR_assoc: "bindR (bindR m f) h = bindR m (\<lambda>x. bindR (f x) h)"
  by (cases m) simp_all

lemma foldR_map: "foldR f (map h xs) s = foldR (\<lambda>x. f (h x)) xs s"
  by (induction xs arbitrary: s) (simp_all add: bindR_def split: sum.splits)

lemma foldR_append: "foldR f (xs @ ys) s = bindR (foldR f xs s) (foldR f ys)"
proof (induction xs arbitrary: s)
  case (Cons x xs)
  then show ?case by (cases "f x s") auto
qed simp

lemma foldR_cong:
  assumes "\<And>x s. x \<in> set xs \<Longrightarrow> f x s = g x s"
  shows "foldR f xs s = foldR g xs s"
  using assms
proof (induction xs arbitrary: s)
  case (Cons x xs)
  have "f x s = g x s" using Cons.prems by simp
  then show ?case using Cons by (cases "g x s") auto
qed simp

text \<open>An invariant kept by the body of a \<open>foldR\<close> loop is kept by the loop.\<close>

lemma foldR_invariant:
  assumes "foldR f xs s = Inr s'" and "P s"
    and "\<And>x s s'. x \<in> set xs \<Longrightarrow> P s \<Longrightarrow> f x s = Inr s' \<Longrightarrow> P s'"
  shows "P s'"
  using assms
proof (induction xs arbitrary: s)
  case (Cons x xs)
  then obtain s1 where "f x s = Inr s1" "foldR f xs s1 = Inr s'"
    by (auto simp: bindR_eq_Inr)
  with Cons show ?case by (metis list.set_intros(1,2))
qed simp

text \<open>A loop whose body never fails on states satisfying \<open>P\<close>, and keeps \<open>P\<close>, does not fail.\<close>

lemma foldR_total:
  assumes "P s"
    and "\<And>x s. x \<in> set xs \<Longrightarrow> P s \<Longrightarrow> \<exists>s'. f x s = Inr s' \<and> P s'"
  shows "\<exists>s'. foldR f xs s = Inr s' \<and> P s'"
  using assms
proof (induction xs arbitrary: s)
  case (Cons x xs)
  then obtain s1 where "f x s = Inr s1" "P s1" by (meson list.set_intros(1))
  with Cons show ?case by simp
qed simp

subsection \<open>Hash maps as association lists\<close>

type_synonym ('k, 'v) umap = "('k \<times> 'v) list"

definition um_find :: "('k, 'v) umap \<Rightarrow> 'k \<Rightarrow> 'v option" where
  "um_find m k = map_of m k"

definition um_set :: "'k \<Rightarrow> 'v \<Rightarrow> ('k, 'v) umap \<Rightarrow> ('k, 'v) umap" where
  "um_set k v m = AList.update k v m"

definition um_erase :: "'k \<Rightarrow> ('k, 'v) umap \<Rightarrow> ('k, 'v) umap" where
  "um_erase k m = AList.delete k m"

text \<open>\<open>m[k]\<close>: a missing key is inserted with the default value \<open>d\<close> first.\<close>

definition um_touch :: "'v \<Rightarrow> 'k \<Rightarrow> ('k, 'v) umap \<Rightarrow> ('k, 'v) umap" where
  "um_touch d k m = (case um_find m k of None \<Rightarrow> um_set k d m | Some _ \<Rightarrow> m)"

definition um_at :: "'v \<Rightarrow> ('k, 'v) umap \<Rightarrow> 'k \<Rightarrow> 'v" where
  "um_at d m k = (case um_find m k of None \<Rightarrow> d | Some v \<Rightarrow> v)"

definition um_has :: "('k, 'v) umap \<Rightarrow> 'k \<Rightarrow> bool" where
  "um_has m k = (um_find m k \<noteq> None)"

abbreviation um_keys :: "('k, 'v) umap \<Rightarrow> 'k list" where
  "um_keys m \<equiv> map fst m"

definition um_ok :: "('k, 'v) umap \<Rightarrow> bool" where
  "um_ok m \<longleftrightarrow> distinct (um_keys m)"

named_theorems um_simps

lemma um_find_empty [simp, um_simps]: "um_find [] k = None"
  by (simp add: um_find_def)

lemma um_find_set [simp, um_simps]: "um_find (um_set k v m) k' = (if k' = k then Some v else um_find m k')"
  by (simp add: um_find_def um_set_def update_conv')

lemma um_set_empty [simp, um_simps]: "um_set k v [] = [(k, v)]"
  by (simp add: um_set_def)

lemma um_find_erase [simp, um_simps]: "um_find (um_erase k m) k' = (if k' = k then None else um_find m k')"
  by (simp add: um_find_def um_erase_def delete_conv')

lemma um_find_touch [simp, um_simps]:
  "um_find (um_touch d k m) k' = (if k' = k then Some (um_at d m k) else um_find m k')"
  by (auto simp: um_touch_def um_at_def split: option.splits)

lemma um_at_conv: "um_find m k = Some v \<Longrightarrow> um_at d m k = v"
  by (simp add: um_at_def)

lemma um_touch_present [simp]: "um_has m k \<Longrightarrow> um_touch d k m = m"
  by (auto simp: um_touch_def um_has_def)

lemma um_has_set [simp, um_simps]: "um_has (um_set k v m) k' \<longleftrightarrow> k' = k \<or> um_has m k'"
  by (simp add: um_has_def)

lemma um_has_erase [simp, um_simps]: "um_has (um_erase k m) k' \<longleftrightarrow> k' \<noteq> k \<and> um_has m k'"
  by (simp add: um_has_def)

lemma um_has_touch [simp, um_simps]: "um_has (um_touch d k m) k' \<longleftrightarrow> k' = k \<or> um_has m k'"
  by (simp add: um_has_def)

lemma um_has_keys: "um_has m k \<longleftrightarrow> k \<in> set (um_keys m)"
  by (simp add: um_has_def um_find_def map_of_eq_None_iff)

lemma um_has_empty [simp]: "\<not> um_has [] k"
  by (simp add: um_has_def)

lemma um_has_conv: "um_has m k \<longleftrightarrow> (\<exists>v. um_find m k = Some v)"
  by (auto simp: um_has_def)

lemma um_ok_empty [simp]: "um_ok []"
  by (simp add: um_ok_def)

lemma um_ok_set [simp, intro]: "um_ok m \<Longrightarrow> um_ok (um_set k v m)"
  by (simp add: um_ok_def um_set_def distinct_update)

lemma um_ok_erase [simp, intro]: "um_ok m \<Longrightarrow> um_ok (um_erase k m)"
  by (simp add: um_ok_def um_erase_def distinct_delete)

lemma um_ok_touch [simp, intro]: "um_ok m \<Longrightarrow> um_ok (um_touch d k m)"
  by (auto simp: um_touch_def split: option.splits)

lemma um_find_in: "um_ok m \<Longrightarrow> um_find m k = Some v \<longleftrightarrow> (k, v) \<in> set m"
  by (simp add: um_ok_def um_find_def)

lemma um_at_set: "um_at d (um_set k v m) k' = (if k' = k then v else um_at d m k')"
  by (simp add: um_at_def)

lemma um_at_touch: "um_at d (um_touch d k m) k' = um_at d m k'"
  by (simp add: um_at_def)

lemma um_at_erase: "um_at d (um_erase k m) k' = (if k' = k then d else um_at d m k')"
  by (simp add: um_at_def)

lemma um_at_has: "um_at d m k \<noteq> d \<Longrightarrow> um_has m k"
  by (cases "um_find m k") (simp_all add: um_at_def um_has_def)

lemmas um_at_simps = um_at_set um_at_touch um_at_erase

lemma in_um_at_has: "x \<in> set (um_at [] m k) \<Longrightarrow> um_has m k"
  by (rule um_at_has [of "[]"]) auto

text \<open>A map without keys is empty, so emptiness can be read off the lookups.\<close>

lemma um_empty_iff: "m = [] \<longleftrightarrow> (\<forall>k. um_find m k = None)"
proof
  assume a: "\<forall>k. um_find m k = None"
  show "m = []"
  proof (rule ccontr)
    assume "m \<noteq> []"
    then obtain k v m' where "m = (k, v) # m'" by (metis list.exhaust surj_pair)
    with a show False by (auto simp: um_find_def dest: spec [of _ k])
  qed
qed simp

subsection \<open>Signed 32-bit values\<close>

definition int_min :: int where "int_min = - (2 ^ 31)"
definition int_max :: int where "int_max = 2 ^ 31 - 1"

definition fits32 :: "int \<Rightarrow> bool" where
  "fits32 x \<longleftrightarrow> int_min \<le> x \<and> x \<le> int_max"

definition fits64 :: "int \<Rightarrow> bool" where
  "fits64 x \<longleftrightarrow> - (2 ^ 63) \<le> x \<and> x \<le> 2 ^ 63 - 1"

text \<open>\<open>std::atomic<int>::fetch_add\<close> wraps; \<open>+=\<close> on a plain \<open>int\<close> must not overflow.\<close>

definition wrap32 :: "int \<Rightarrow> int" where
  "wrap32 x = (x + 2 ^ 31) mod 2 ^ 32 - 2 ^ 31"

definition add32 :: "int \<Rightarrow> int \<Rightarrow> int res" where
  "add32 x y = (if fits32 (x + y) then Inr (x + y) else Inl Undefined_behaviour)"

lemma wrap32_id [simp]: "fits32 x \<Longrightarrow> wrap32 x = x"
  by (simp add: fits32_def wrap32_def int_min_def int_max_def)

lemma wrap32_fits: "fits32 (wrap32 x)"
proof -
  have "0 \<le> (x + 2 ^ 31) mod 2 ^ 32" and "(x + 2 ^ 31) mod 2 ^ 32 < 2 ^ 32"
    by (rule pos_mod_sign, simp) (rule pos_mod_bound, simp)
  then show ?thesis by (simp add: fits32_def wrap32_def int_min_def int_max_def)
qed

subsection \<open>Lists\<close>

lemma distinct_map_snd_filter: "distinct (map f xs) \<Longrightarrow> distinct (map f (filter P xs))"
  by (induction xs) auto

lemma map_of_filter_neq: "map_of (filter (\<lambda>p. fst p \<noteq> k) xs) k' = (if k' = k then None else map_of xs k')"
  by (induction xs) auto

lemma filter_neq_notin: "x \<notin> set (map f xs) \<Longrightarrow> filter (\<lambda>p. f p \<noteq> x) xs = xs"
  by (induction xs) auto

lemma length_filter_neq_distinct:
  "distinct (map f xs) \<Longrightarrow> x \<in> f ` set xs \<Longrightarrow> Suc (length (filter (\<lambda>p. f p \<noteq> x) xs)) = length xs"
proof (induction xs)
  case (Cons y ys)
  show ?case
  proof (cases "f y = x")
    case True
    with Cons.prems have "x \<notin> set (map f ys)" by auto
    with True show ?thesis by (simp add: filter_neq_notin)
  next
    case False
    with Cons show ?thesis by auto
  qed
qed simp

end
