(* ===== verification/Cpp_Strings.thy ===== *)
theory Cpp_Strings
  imports Waffle_Prelude
begin

text \<open>
  The part of the C++ string library the sources use: \<open>find\<close>, \<open>rfind\<close>, \<open>substr\<close>,
  \<open>std::getline\<close> with a delimiter, \<open>std::to_string\<close> and \<open>std::stol\<close>, with the laws the
  components rely on: decimal text is read back as the number it was written from, contains
  digits only, and is injective.
\<close>

subsection \<open>Searching and cutting\<close>

fun index_from :: "char \<Rightarrow> string \<Rightarrow> nat \<Rightarrow> nat option" where
  "index_from c [] i = None"
| "index_from c (x # xs) i = (if x = c then Some i else index_from c xs (Suc i))"

text \<open>\<open>s.find(c, pos)\<close>; \<open>None\<close> is \<open>npos\<close>.\<close>

definition str_find :: "string \<Rightarrow> char \<Rightarrow> nat \<Rightarrow> nat option" where
  "str_find s c pos = index_from c (drop pos s) pos"

text \<open>\<open>s.rfind(c)\<close>.\<close>

definition str_rfind :: "string \<Rightarrow> char \<Rightarrow> nat option" where
  "str_rfind s c = map_option (\<lambda>i. length s - 1 - i) (index_from c (rev s) 0)"

text \<open>\<open>s.substr(pos, n)\<close> throws when \<open>pos\<close> is past the end; \<open>n\<close> is clipped.\<close>

definition substr :: "string \<Rightarrow> nat \<Rightarrow> nat \<Rightarrow> string res" where
  "substr s pos n = (if length s < pos then Inl Out_of_range else Inr (take n (drop pos s)))"

definition substr_from :: "string \<Rightarrow> nat \<Rightarrow> string res" where
  "substr_from s pos = (if length s < pos then Inl Out_of_range else Inr (drop pos s))"

text \<open>The loop \<open>while (std::getline(ss, part, d)) parts.push_back(part)\<close>.\<close>

function getlines :: "char \<Rightarrow> string \<Rightarrow> string list" where
  "getlines d s =
     (if s = [] then []
      else takeWhile (\<lambda>c. c \<noteq> d) s # getlines d (drop (Suc (length (takeWhile (\<lambda>c. c \<noteq> d) s))) s))"
  by pat_completeness auto
termination
  by (relation "measure (\<lambda>(d, s). length s)") auto

declare getlines.simps [simp del]

subsection \<open>Decimal text\<close>

definition digit :: "nat \<Rightarrow> char" where
  "digit n = char_of (48 + n)"

definition is_digit :: "char \<Rightarrow> bool" where
  "is_digit c \<longleftrightarrow> 48 \<le> (of_char c :: nat) \<and> (of_char c :: nat) \<le> 57"

definition digit_val :: "char \<Rightarrow> nat" where
  "digit_val c = of_char c - 48"

definition is_space :: "char \<Rightarrow> bool" where
  "is_space c \<longleftrightarrow> (of_char c :: nat) = 32 \<or> 9 \<le> (of_char c :: nat) \<and> (of_char c :: nat) \<le> 13"

fun nat_str :: "nat \<Rightarrow> string" where
  "nat_str n = (if n < 10 then [digit n] else nat_str (n div 10) @ [digit (n mod 10)])"

declare nat_str.simps [simp del]

text \<open>\<open>std::to_string\<close> on \<open>int\<close> and \<open>long\<close>.\<close>

definition to_string :: "int \<Rightarrow> string" where
  "to_string i = (if i < 0 then CHR ''-'' # nat_str (nat (- i)) else nat_str (nat i))"

definition digits_val :: "string \<Rightarrow> nat" where
  "digits_val ds = foldl (\<lambda>a c. 10 * a + digit_val c) 0 ds"

definition signed_val :: "string \<Rightarrow> int res" where
  "signed_val u =
     (let neg = (case u of c # _ \<Rightarrow> c = CHR ''-'' | [] \<Rightarrow> False);
          t = (case u of c # r \<Rightarrow> if c = CHR ''-'' \<or> c = CHR ''+'' then r else u | [] \<Rightarrow> u);
          ds = takeWhile is_digit t;
          v = (if neg then - int (digits_val ds) else int (digits_val ds))
      in if ds = [] then Inl Invalid_argument
         else if fits64 v then Inr v else Inl Out_of_range)"

text \<open>\<open>std::stol\<close>: leading white space, a sign, the longest run of digits; the rest is ignored.\<close>

definition stol :: "string \<Rightarrow> int res" where
  "stol s = signed_val (dropWhile is_space s)"

subsection \<open>Laws\<close>

lemma index_from_None: "index_from c s i = None \<longleftrightarrow> c \<notin> set s"
  by (induction s arbitrary: i) auto

lemma index_from_first: "c \<notin> set p \<Longrightarrow> index_from c (p @ c # r) i = Some (i + length p)"
  by (induction p arbitrary: i) auto

lemma index_from_bounds: "index_from c s i = Some j \<Longrightarrow> i \<le> j \<and> j < i + length s"
  by (induction s arbitrary: i) (fastforce split: if_splits)+

lemma index_from_char: "index_from c s i = Some j \<Longrightarrow> s ! (j - i) = c \<and> c \<notin> set (take (j - i) s)"
proof (induction s arbitrary: i)
  case (Cons x xs)
  show ?case
  proof (cases "x = c")
    case False
    with Cons.prems have j: "index_from c xs (Suc i) = Some j" by simp
    then have "Suc i \<le> j" using index_from_bounds by blast
    then obtain n where n: "j - i = Suc n" "j - Suc i = n" by (metis Suc_diff_le diff_Suc_Suc)
    with Cons.IH [OF j] False show ?thesis by simp
  qed (use Cons.prems in simp)
qed simp

lemma str_find_first: "c \<notin> set p \<Longrightarrow> str_find (p @ c # r) c 0 = Some (length p)"
  by (simp add: str_find_def index_from_first)

lemma str_find_none: "str_find s c 0 = None \<longleftrightarrow> c \<notin> set s"
  by (simp add: str_find_def index_from_None)

lemma str_rfind_last: "c \<notin> set r \<Longrightarrow> str_rfind (p @ c # r) c = Some (length p)"
proof -
  assume "c \<notin> set r"
  then have "index_from c (rev (p @ c # r)) 0 = Some (length r)"
    using index_from_first [of c "rev r" "rev p" 0] by simp
  then show ?thesis by (simp add: str_rfind_def)
qed

lemma str_rfind_none: "str_rfind s c = None \<longleftrightarrow> c \<notin> set s"
  by (simp add: str_rfind_def index_from_None)

lemma getlines_Nil [simp]: "getlines d [] = []"
  by (simp add: getlines.simps)

lemma getlines_last: "d \<notin> set p \<Longrightarrow> p \<noteq> [] \<Longrightarrow> getlines d p = [p]"
proof -
  assume p: "d \<notin> set p" "p \<noteq> []"
  have t: "takeWhile (\<lambda>c. c \<noteq> d) p = p" using p(1) by (auto simp: takeWhile_eq_all_conv)
  show ?thesis using p(2) by (simp add: getlines.simps [of d p] t)
qed

lemma getlines_step:
  assumes "d \<notin> set p"
  shows "getlines d (p @ d # r) = p # getlines d r"
proof -
  have "takeWhile (\<lambda>c. c \<noteq> d) (p @ d # r) = p"
    using assms by (subst takeWhile_append2) auto
  then show ?thesis by (subst getlines.simps) simp
qed

lemma of_char_digit: "n < 10 \<Longrightarrow> (of_char (digit n) :: nat) = 48 + n"
  by (simp add: digit_def)

lemma digit_is_digit [simp]: "n < 10 \<Longrightarrow> is_digit (digit n)"
  by (simp add: is_digit_def of_char_digit)

lemma digit_val_digit [simp]: "n < 10 \<Longrightarrow> digit_val (digit n) = n"
  by (simp add: digit_val_def of_char_digit)

lemma digits_val_snoc [simp]: "digits_val (ds @ [c]) = 10 * digits_val ds + digit_val c"
  by (simp add: digits_val_def)

lemma nat_str_nonempty [simp]: "nat_str n \<noteq> []"
  by (subst nat_str.simps) simp

lemma nat_str_digits: "c \<in> set (nat_str n) \<Longrightarrow> is_digit c"
proof (induction n rule: nat_str.induct)
  case (1 n)
  then show ?case by (subst (asm) (2) nat_str.simps) (auto split: if_splits)
qed

lemma digits_val_nat_str [simp]: "digits_val (nat_str n) = n"
proof (induction n rule: nat_str.induct)
  case (1 n)
  show ?case
  proof (cases "n < 10")
    case True
    then show ?thesis by (subst nat_str.simps) (simp add: digits_val_def)
  next
    case False
    with 1 show ?thesis by (subst nat_str.simps) simp
  qed
qed

lemma nat_str_inj [simp]: "nat_str m = nat_str n \<longleftrightarrow> m = n"
  by (metis digits_val_nat_str)

text \<open>The characters the key syntax gives a meaning to are not digits.\<close>

lemma not_digit_chars [simp]:
  "\<not> is_digit CHR ''@''" "\<not> is_digit CHR ''#''" "\<not> is_digit CHR ''&''" "\<not> is_digit CHR ''-''"
  "\<not> is_digit CHR ''+''" "\<not> is_digit CHR ''_''"
  by (simp_all add: is_digit_def)

lemma digit_not_space: "is_digit c \<Longrightarrow> \<not> is_space c"
  by (auto simp: is_digit_def is_space_def)

lemma to_string_nonempty [simp]: "to_string i \<noteq> []"
  by (simp add: to_string_def)

lemma to_string_chars: "c \<in> set (to_string i) \<Longrightarrow> is_digit c \<or> c = CHR ''-''"
  by (auto simp: to_string_def dest: nat_str_digits split: if_splits)

lemma to_string_no_special [simp]:
  "CHR ''@'' \<notin> set (to_string i)" "CHR ''#'' \<notin> set (to_string i)" "CHR ''&'' \<notin> set (to_string i)"
  by (auto dest: to_string_chars)

lemma nat_str_hd_not_sign: "nat_str n \<noteq> CHR ''-'' # r"
  by (metis list.set_intros(1) nat_str_digits not_digit_chars(4))

lemma to_string_inj [simp]: "to_string i = to_string j \<longleftrightarrow> i = j"
proof
  assume "to_string i = to_string j"
  then show "i = j"
    by (auto simp: to_string_def nat_str_hd_not_sign nat_str_hd_not_sign [symmetric] split: if_splits)
qed simp

lemma stol_to_string_append:
  assumes "fits64 i" and "case r of [] \<Rightarrow> True | c # _ \<Rightarrow> \<not> is_digit c"
  shows "stol (to_string i @ r) = Inr i"
proof -
  have tw: "takeWhile is_digit (nat_str n @ r) = nat_str n" for n
    using assms(2) by (subst takeWhile_append2) (auto dest: nat_str_digits split: list.splits)
  show ?thesis
  proof (cases "i < 0")
    case True
    then have "dropWhile is_space (to_string i @ r) = to_string i @ r"
      by (simp add: to_string_def is_space_def)
    with True assms(1) show ?thesis
      by (simp add: stol_def signed_val_def to_string_def tw)
  next
    case False
    obtain c u where cu: "nat_str (nat i) = c # u" by (cases "nat_str (nat i)") auto
    then have c: "is_digit c" by (metis list.set_intros(1) nat_str_digits)
    have s: "to_string i @ r = c # (u @ r)" using False cu by (simp add: to_string_def)
    have "takeWhile is_digit (c # (u @ r)) = c # u" using tw [of "nat i"] cu by simp
    moreover have "c \<noteq> CHR ''-''" "c \<noteq> CHR ''+''" using c by auto
    moreover have "digits_val (c # u) = nat i" using cu by (metis digits_val_nat_str)
    ultimately show ?thesis
      using False assms(1) c s by (simp add: stol_def signed_val_def digit_not_space)
  qed
qed

lemma stol_to_string [simp]: "fits64 i \<Longrightarrow> stol (to_string i) = Inr i"
  using stol_to_string_append [of i "[]"] by simp

end
