(* ===== verification/Kv_Interface.thy ===== *)
theory Kv_Interface
  imports Cpp_Strings
begin

text \<open>
  The contract the proxy relies on for its in-memory tables (the LRU cache and the table of
  evicted items): a lookup after an insertion or a removal, and that a well-formed table never
  reaches an undefined operation.  What follows for a loop of insertions or removals is proved
  here once, for every provider.
\<close>

locale kv_table =
  fixes inv :: "'s \<Rightarrow> bool"
    and find :: "'s \<Rightarrow> string \<Rightarrow> string option"
    and ins :: "string \<Rightarrow> string \<Rightarrow> 's \<Rightarrow> 's res"
    and del :: "string \<Rightarrow> 's \<Rightarrow> 's res"
  assumes ins_ok: "inv s \<Longrightarrow> \<exists>s'. ins k v s = Inr s' \<and> inv s' \<and> find s' = (find s)(k \<mapsto> v)"
    and del_ok: "inv s \<Longrightarrow> \<exists>s'. del k s = Inr s' \<and> inv s' \<and> find s' = (find s)(k := None)"
begin

lemma insD:
  assumes "inv s" and "ins k v s = Inr s'"
  shows "inv s'" and "find s' = (find s)(k \<mapsto> v)"
  using ins_ok [OF assms(1), of k v] assms(2) by auto

lemma delD:
  assumes "inv s" and "del k s = Inr s'"
  shows "inv s'" and "find s' = (find s)(k := None)"
  using del_ok [OF assms(1), of k] assms(2) by auto

text \<open>A loop of insertions never fails, and the last value written for a key wins.\<close>

lemma ins_all:
  assumes "inv s"
  shows "\<exists>s'. foldR (\<lambda>kv. ins (fst kv) (snd kv)) kvs s = Inr s' \<and> inv s' \<and>
    find s' = find s ++ map_of (rev kvs)"
  using assms
proof (induction kvs arbitrary: s)
  case (Cons kv kvs)
  obtain s1 where s1: "ins (fst kv) (snd kv) s = Inr s1" "inv s1" "find s1 = (find s)(fst kv \<mapsto> snd kv)"
    using ins_ok [OF Cons.prems] by blast
  from Cons.IH [OF s1(2)] obtain s' where
    s': "foldR (\<lambda>kv. ins (fst kv) (snd kv)) kvs s1 = Inr s'" "inv s'"
    and f: "find s' = find s1 ++ map_of (rev kvs)" by blast
  have "find s' = find s ++ map_of (rev (kv # kvs))"
    by (cases kv) (simp add: f s1(3) map_add_upds map_add_def fun_eq_iff split: option.splits)
  with s1(1) s' show ?case by simp
qed simp

text \<open>A loop of removals never fails and forgets exactly the listed keys.\<close>

lemma del_all:
  assumes "inv s"
  shows "\<exists>s'. foldR del ks s = Inr s' \<and> inv s' \<and> find s' = find s |` (- set ks)"
  using assms
proof (induction ks arbitrary: s)
  case (Cons k ks)
  obtain s1 where s1: "del k s = Inr s1" "inv s1" "find s1 = (find s)(k := None)"
    using del_ok [OF Cons.prems] by blast
  from Cons.IH [OF s1(2)] obtain s' where
    "foldR del ks s1 = Inr s'" "inv s'" "find s' = find s1 |` (- set ks)" by blast
  moreover from this(3) have "find s' = find s |` (- set (k # ks))"
    by (auto simp: s1(3) restrict_map_def fun_eq_iff)
  ultimately show ?case using s1(1) by auto
qed (simp add: restrict_map_def)

end

end
