(* ===== verification/Lru_Cache.thy ===== *)
theory Lru_Cache
  imports Kv_Interface
begin

text \<open>
  The proxy cache (\<open>proxy/src/Cache.cpp\<close>, \<open>Cache.hpp\<close>).  The class keeps a doubly linked list of
  key/value pairs in recency order and a hash map from keys to list iterators.  Here a list node
  has an identifier, an iterator is a node identifier, and following an iterator to a node that is
  not in the list is undefined behaviour, as it is in C++.  The invariant \<open>cache_inv\<close> says that the
  two structures agree; under it every operation is defined and acts on the plain recency list
  \<open>lru\<close> as an LRU list should.  The mutex is held for the whole of each operation, so an operation
  is one atomic step here.
\<close>

subsection \<open>State and operations\<close>

record cache =
  cacheMap :: "(string, nat) umap"
  accessList :: "(nat \<times> string \<times> string) list"
  m_capacity :: int
  next_node :: nat

definition Cache_default :: cache where
  "Cache_default = \<lparr>cacheMap = [], accessList = [], m_capacity = 0, next_node = 0\<rparr>"

text \<open>Dereferencing and erasing through an iterator; \<open>None\<close> is a default-constructed iterator.\<close>

definition cache_deref :: "nat option \<Rightarrow> cache \<Rightarrow> (string \<times> string) res" where
  "cache_deref it c =
     (case it of None \<Rightarrow> Inl Undefined_behaviour
      | Some n \<Rightarrow> (case map_of (accessList c) n of None \<Rightarrow> Inl Undefined_behaviour | Some kv \<Rightarrow> Inr kv))"

definition list_erase :: "nat option \<Rightarrow> cache \<Rightarrow> cache res" where
  "list_erase it c =
     bindR (cache_deref it c) (\<lambda>_. Inr (c\<lparr>accessList := filter (\<lambda>p. Some (fst p) \<noteq> it) (accessList c)\<rparr>))"

definition push_front :: "string \<Rightarrow> string \<Rightarrow> cache \<Rightarrow> cache" where
  "push_front k v c =
     c\<lparr>accessList := (next_node c, k, v) # accessList c, next_node := Suc (next_node c)\<rparr>"

text \<open>\<open>cacheMap[key] = accessList.begin()\<close>.\<close>

definition map_to_front :: "string \<Rightarrow> cache \<Rightarrow> cache" where
  "map_to_front k c =
     (case accessList c of [] \<Rightarrow> c | p # _ \<Rightarrow> c\<lparr>cacheMap := um_set k (fst p) (cacheMap c)\<rparr>)"

definition Cache_checkIfKeyExists :: "cache \<Rightarrow> string \<Rightarrow> bool" where
  "Cache_checkIfKeyExists c k = um_has (cacheMap c) k"

definition Cache_getValue :: "cache \<Rightarrow> string \<Rightarrow> (string \<times> cache) res" where
  "Cache_getValue c k =
     (if um_has (cacheMap c) k then Inr ('''', c)
      else bindR (cache_deref (um_find (cacheMap c) k) c) (\<lambda>kv.
           bindR (list_erase (um_find (cacheMap c) k) c) (\<lambda>c1.
           Inr (snd kv, map_to_front k (push_front k (snd kv) c1)))))"

definition getValueWithoutPositionChange :: "cache \<Rightarrow> string \<Rightarrow> string res" where
  "getValueWithoutPositionChange c k =
     (if \<not> um_has (cacheMap c) k then Inr ''''
      else bindR (cache_deref (um_find (cacheMap c) k) c) (\<lambda>kv. Inr (snd kv)))"

definition insertIntoCache :: "string \<Rightarrow> string \<Rightarrow> cache \<Rightarrow> cache res" where
  "insertIntoCache k v c =
     bindR (if \<not> um_has (cacheMap c) k then Inr c else list_erase (um_find (cacheMap c) k) c)
       (\<lambda>c1. Inr (map_to_front k (push_front k v c1)))"

definition evictLRElementFromCache :: "cache \<Rightarrow> (string \<times> string) \<times> cache" where
  "evictLRElementFromCache c =
     (if accessList c = [] then (('''', ''''), c)
      else let kv = snd (last (accessList c)) in
        (kv, c\<lparr>accessList := butlast (accessList c), cacheMap := um_erase (fst kv) (cacheMap c)\<rparr>))"

definition Cache_removeKey :: "string \<Rightarrow> cache \<Rightarrow> (bool \<times> cache) res" where
  "Cache_removeKey k c =
     (if \<not> um_has (cacheMap c) k then Inr (False, c)
      else bindR (list_erase (um_find (cacheMap c) k) c) (\<lambda>c1.
           Inr (True, c1\<lparr>cacheMap := um_erase k (cacheMap c1)\<rparr>)))"

definition Cache_size :: "cache \<Rightarrow> nat" where
  "Cache_size c = length (cacheMap c)"

text \<open>The value and the output parameter \<open>isPresent\<close>.\<close>

definition getValueWithoutPositionChangeNew :: "cache \<Rightarrow> string \<Rightarrow> (string \<times> bool) res" where
  "getValueWithoutPositionChangeNew c k =
     (if \<not> um_has (cacheMap c) k then Inr ('''', False)
      else bindR (cache_deref (um_find (cacheMap c) k) c) (\<lambda>kv. Inr (snd kv, True)))"

text \<open>The constructor fills the cache only when the two vectors have the same length.\<close>

definition Cache_init :: "string list \<Rightarrow> string list \<Rightarrow> int \<Rightarrow> cache res" where
  "Cache_init keys values cacheCapacity =
     (let c = Cache_default\<lparr>m_capacity := cacheCapacity\<rparr> in
      if length keys = length values
      then foldR (\<lambda>kv. insertIntoCache (fst kv) (snd kv)) (zip keys values) c
      else Inr c)"

subsection \<open>Well-formedness and the recency list it represents\<close>

definition cache_inv :: "cache \<Rightarrow> bool" where
  "cache_inv c \<longleftrightarrow> um_ok (cacheMap c) \<and> distinct (map fst (accessList c)) \<and>
     distinct (map (fst \<circ> snd) (accessList c)) \<and>
     (\<forall>n \<in> fst ` set (accessList c). n < next_node c) \<and>
     (\<forall>k n. um_find (cacheMap c) k = Some n \<longleftrightarrow> (\<exists>v. (n, k, v) \<in> set (accessList c)))"

definition lru :: "cache \<Rightarrow> (string \<times> string) list" where
  "lru c = map snd (accessList c)"

definition cache_find :: "cache \<Rightarrow> string \<Rightarrow> string option" where
  "cache_find c k = map_of (lru c) k"

subsection \<open>Laws\<close>

lemma cache_invD:
  assumes "cache_inv c"
  shows "um_ok (cacheMap c)" "distinct (map fst (accessList c))" "distinct (map fst (lru c))"
    "n \<in> fst ` set (accessList c) \<Longrightarrow> n < next_node c"
    "um_find (cacheMap c) k = Some n \<longleftrightarrow> (\<exists>v. (n, k, v) \<in> set (accessList c))"
  using assms by (auto simp: cache_inv_def lru_def)

lemma cache_inv_default [simp]: "cache_inv (Cache_default\<lparr>m_capacity := x\<rparr>)" "cache_inv Cache_default"
  by (simp_all add: cache_inv_def Cache_default_def)

lemma lru_default [simp]: "lru (Cache_default\<lparr>m_capacity := x\<rparr>) = []" "lru Cache_default = []"
  by (simp_all add: lru_def Cache_default_def)

text \<open>The map and the list hold the same keys.\<close>

lemma um_has_cacheMap:
  assumes "cache_inv c"
  shows "um_has (cacheMap c) k \<longleftrightarrow> k \<in> fst ` set (lru c)"
  using cache_invD(5) [OF assms, of k] by (force simp: um_has_conv lru_def)

lemma cache_find_Some_iff:
  assumes "cache_inv c"
  shows "cache_find c k = Some v \<longleftrightarrow> (k, v) \<in> set (lru c)"
  using cache_invD(3) [OF assms] by (simp add: cache_find_def)

lemma Cache_checkIfKeyExists_iff:
  assumes "cache_inv c"
  shows "Cache_checkIfKeyExists c k \<longleftrightarrow> cache_find c k \<noteq> None"
  using um_has_cacheMap [OF assms] by (simp add: Cache_checkIfKeyExists_def cache_find_def map_of_eq_None_iff)

lemma Cache_size_lru:
  assumes "cache_inv c"
  shows "Cache_size c = length (lru c)"
proof -
  have "set (um_keys (cacheMap c)) = set (map fst (lru c))"
    using um_has_cacheMap [OF assms] by (auto simp: um_has_keys)
  then show ?thesis
    using cache_invD(1,3) [OF assms] by (metis Cache_size_def distinct_card length_map um_ok_def)
qed

text \<open>An iterator stored in the map leads to the node of its key.\<close>

lemma cache_deref_mapped:
  assumes "cache_inv c" and "(n, k, v) \<in> set (accessList c)"
  shows "um_find (cacheMap c) k = Some n" "cache_deref (Some n) c = Inr (k, v)" "cache_find c k = Some v"
proof -
  show "um_find (cacheMap c) k = Some n" using assms cache_invD(5) by blast
  show "cache_deref (Some n) c = Inr (k, v)"
    using assms cache_invD(2) by (simp add: cache_deref_def)
  show "cache_find c k = Some v"
    using assms by (auto simp: cache_find_Some_iff lru_def image_iff intro: bexI [of _ "(n, k, v)"])
qed

lemma cache_mapped:
  assumes "cache_inv c" and "um_has (cacheMap c) k"
  obtains n v where "(n, k, v) \<in> set (accessList c)" "um_find (cacheMap c) k = Some n"
  using assms cache_invD(5) [OF assms(1), of k] by (auto simp: um_has_conv)

lemma getValueWithoutPositionChangeNew_eq:
  assumes "cache_inv c"
  shows "getValueWithoutPositionChangeNew c k =
    Inr (case cache_find c k of None \<Rightarrow> ('''', False) | Some v \<Rightarrow> (v, True))"
proof (cases "um_has (cacheMap c) k")
  case True
  then obtain n v where "(n, k, v) \<in> set (accessList c)" using cache_mapped assms by blast
  with True assms show ?thesis
    by (simp add: getValueWithoutPositionChangeNew_def cache_deref_mapped)
next
  case False
  with assms have "cache_find c k = None" by (metis Cache_checkIfKeyExists_def Cache_checkIfKeyExists_iff)
  with False show ?thesis by (simp add: getValueWithoutPositionChangeNew_def)
qed

lemma getValueWithoutPositionChange_eq:
  assumes "cache_inv c"
  shows "getValueWithoutPositionChange c k = Inr (case cache_find c k of None \<Rightarrow> '''' | Some v \<Rightarrow> v)"
proof (cases "um_has (cacheMap c) k")
  case True
  then obtain n v where "(n, k, v) \<in> set (accessList c)" using cache_mapped assms by blast
  with True assms show ?thesis
    by (simp add: getValueWithoutPositionChange_def cache_deref_mapped)
next
  case False
  with assms have "cache_find c k = None" by (metis Cache_checkIfKeyExists_def Cache_checkIfKeyExists_iff)
  with False show ?thesis by (simp add: getValueWithoutPositionChange_def)
qed

text \<open>Removing the node of \<open>k\<close> by identity is removing it by key.\<close>

lemma filter_node_eq_filter_key:
  assumes "cache_inv c" and "(n, k, v) \<in> set (accessList c)"
  shows "filter (\<lambda>p. Some (fst p) \<noteq> Some n) (accessList c) = filter (\<lambda>p. fst (snd p) \<noteq> k) (accessList c)"
proof (rule filter_cong)
  fix p assume "p \<in> set (accessList c)"
  then obtain n' k' v' where p: "p = (n', k', v')" "(n', k', v') \<in> set (accessList c)"
    by (metis prod_cases3)
  have "k' = k" if "n' = n"
    using eq_key_imp_eq_value [OF cache_invD(2) [OF assms(1)]] assms(2) p(2) that by blast
  moreover have "n' = n" if "k' = k"
    using cache_deref_mapped(1) [OF assms] cache_deref_mapped(1) [OF assms(1) p(2)] that by simp
  ultimately show "(Some (fst p) \<noteq> Some n) = (fst (snd p) \<noteq> k)" using p(1) by auto
qed simp

lemma list_erase_key:
  assumes "cache_inv c" and "um_has (cacheMap c) k"
  shows "list_erase (um_find (cacheMap c) k) c =
    Inr (c\<lparr>accessList := filter (\<lambda>p. fst (snd p) \<noteq> k) (accessList c)\<rparr>)"
proof -
  obtain n v where n: "(n, k, v) \<in> set (accessList c)" "um_find (cacheMap c) k = Some n"
    using cache_mapped assms by blast
  show ?thesis
    using cache_deref_mapped(2) [OF assms(1) n(1)] filter_node_eq_filter_key [OF assms(1) n(1)]
    by (simp add: n(2) list_erase_def)
qed

lemma insertIntoCache_eq:
  assumes "cache_inv c"
  shows "insertIntoCache k v c = Inr (c\<lparr>
    accessList := (next_node c, k, v) # filter (\<lambda>p. fst (snd p) \<noteq> k) (accessList c),
    next_node := Suc (next_node c), cacheMap := um_set k (next_node c) (cacheMap c)\<rparr>)"
proof (cases "um_has (cacheMap c) k")
  case True
  with assms show ?thesis
    by (simp add: insertIntoCache_def list_erase_key push_front_def map_to_front_def)
next
  case False
  then have "k \<notin> set (map (fst \<circ> snd) (accessList c))"
    using um_has_cacheMap [OF assms] by (auto simp: lru_def)
  then have "filter (\<lambda>p. fst (snd p) \<noteq> k) (accessList c) = accessList c"
    using filter_neq_notin [of k "fst \<circ> snd"] by simp
  with False show ?thesis by (simp add: insertIntoCache_def push_front_def map_to_front_def)
qed

lemma insertIntoCache_inv:
  assumes "cache_inv c" and "insertIntoCache k v c = Inr c'"
  shows "cache_inv c'"
proof -
  let ?l = "filter (\<lambda>p. fst (snd p) \<noteq> k) (accessList c)"
  have c': "accessList c' = (next_node c, k, v) # ?l" "next_node c' = Suc (next_node c)"
      "cacheMap c' = um_set k (next_node c) (cacheMap c)"
    using insertIntoCache_eq [OF assms(1), of k v] assms(2) by auto
  have n: "\<forall>p \<in> set (accessList c). fst p < next_node c"
    using assms(1) by (simp add: cache_inv_def)
  show ?thesis unfolding cache_inv_def c'
  proof (intro conjI allI)
    show "um_ok (um_set k (next_node c) (cacheMap c))" using cache_invD(1) [OF assms(1)] by simp
    show "distinct (map fst ((next_node c, k, v) # ?l))"
      using n cache_invD(2) [OF assms(1)] by (auto simp: distinct_map_snd_filter)
    show "distinct (map (fst \<circ> snd) ((next_node c, k, v) # ?l))"
      using assms(1) by (auto simp: cache_inv_def distinct_map_snd_filter)
    show "\<forall>m \<in> fst ` set ((next_node c, k, v) # ?l). m < Suc (next_node c)"
      using n by (auto simp: less_Suc_eq)
    show "um_find (um_set k (next_node c) (cacheMap c)) k' = Some m \<longleftrightarrow>
        (\<exists>v'. (m, k', v') \<in> set ((next_node c, k, v) # ?l))" for k' m
      using cache_invD(5) [OF assms(1), of k' m] by auto
  qed
qed

lemma insertIntoCache_lru:
  assumes "cache_inv c" and "insertIntoCache k v c = Inr c'"
  shows "lru c' = (k, v) # filter (\<lambda>p. fst p \<noteq> k) (lru c)"
  using insertIntoCache_eq [OF assms(1), of k v] assms(2) by (auto simp: lru_def filter_map o_def)

lemma Cache_removeKey_eq:
  assumes "cache_inv c"
  shows "Cache_removeKey k c = Inr (cache_find c k \<noteq> None,
    c\<lparr>accessList := filter (\<lambda>p. fst (snd p) \<noteq> k) (accessList c), cacheMap := um_erase k (cacheMap c)\<rparr>)"
proof (cases "um_has (cacheMap c) k")
  case True
  with assms Cache_checkIfKeyExists_iff [OF assms, of k] show ?thesis
    by (simp add: Cache_removeKey_def list_erase_key Cache_checkIfKeyExists_def)
next
  case False
  then have "k \<notin> set (map (fst \<circ> snd) (accessList c))"
    using um_has_cacheMap [OF assms] by (auto simp: lru_def)
  then have "filter (\<lambda>p. fst (snd p) \<noteq> k) (accessList c) = accessList c"
    using filter_neq_notin [of k "fst \<circ> snd"] by simp
  moreover have "um_erase k (cacheMap c) = cacheMap c"
    using False by (simp add: um_has_keys um_erase_def)
  ultimately show ?thesis
    using False Cache_checkIfKeyExists_iff [OF assms, of k] by (simp add: Cache_removeKey_def Cache_checkIfKeyExists_def)
qed

lemma remove_node_inv:
  assumes "cache_inv c"
  shows "cache_inv (c\<lparr>accessList := filter (\<lambda>p. fst (snd p) \<noteq> k) (accessList c),
    cacheMap := um_erase k (cacheMap c)\<rparr>)"
  using assms by (auto simp: cache_inv_def distinct_map_snd_filter)

lemma Cache_removeKey_inv:
  assumes "cache_inv c" and "Cache_removeKey k c = Inr (b, c')"
  shows "cache_inv c'" and "lru c' = filter (\<lambda>p. fst p \<noteq> k) (lru c)"
  using Cache_removeKey_eq [OF assms(1), of k] assms(2) remove_node_inv [OF assms(1)]
  by (auto simp: lru_def filter_map o_def)

text \<open>Evicting removes the last node, which is removing the key of the oldest entry.\<close>

lemma butlast_filter_last:
  assumes "distinct (map f xs)" and "xs \<noteq> []"
  shows "butlast xs = filter (\<lambda>p. f p \<noteq> f (last xs)) xs"
  using assms
proof (induction xs rule: rev_induct)
  case (snoc x xs)
  then show ?case using filter_neq_notin [of "f x" f xs] by auto
qed simp

lemma evict_eq:
  assumes "cache_inv c" and "evictLRElementFromCache c = (kv, c')"
  shows "cache_inv c'"
    and "lru c \<noteq> [] \<Longrightarrow> lru c = lru c' @ [kv]"
    and "lru c = [] \<Longrightarrow> kv = ('''', '''') \<and> c' = c"
proof -
  have ne: "accessList c \<noteq> [] \<Longrightarrow> kv = snd (last (accessList c)) \<and>
      c' = c\<lparr>accessList := butlast (accessList c), cacheMap := um_erase (fst kv) (cacheMap c)\<rparr>"
    using assms(2) by (auto simp: evictLRElementFromCache_def Let_def)
  have bl: "accessList c \<noteq> [] \<Longrightarrow>
      butlast (accessList c) = filter (\<lambda>p. fst (snd p) \<noteq> fst (snd (last (accessList c)))) (accessList c)"
    using assms(1) butlast_filter_last [of "fst \<circ> snd" "accessList c"] by (simp add: cache_inv_def)
  show "cache_inv c'"
  proof (cases "accessList c = []")
    case False
    then show ?thesis using ne bl remove_node_inv [OF assms(1), of "fst kv"] by simp
  qed (use assms in \<open>auto simp: evictLRElementFromCache_def\<close>)
  show "lru c \<noteq> [] \<Longrightarrow> lru c = lru c' @ [kv]"
  proof -
    assume "lru c \<noteq> []"
    then have l: "accessList c \<noteq> []" by (simp add: lru_def)
    then have "map snd (accessList c) = map snd (butlast (accessList c)) @ [snd (last (accessList c))]"
      by (metis append_butlast_last_id list.simps(8,9) map_append)
    with ne [OF l] show ?thesis by (simp add: lru_def)
  qed
  show "lru c = [] \<Longrightarrow> kv = ('''', '''') \<and> c' = c"
    using assms(2) by (auto simp: lru_def evictLRElementFromCache_def)
qed

lemma cache_find_insert:
  assumes "cache_inv c" and "insertIntoCache k v c = Inr c'"
  shows "cache_find c' = (cache_find c)(k \<mapsto> v)"
  using insertIntoCache_lru [OF assms]
  by (auto simp: cache_find_def fun_eq_iff map_of_filter_neq)

lemma cache_find_remove:
  assumes "cache_inv c" and "Cache_removeKey k c = Inr (b, c')"
  shows "cache_find c' = (cache_find c)(k := None)"
  using Cache_removeKey_inv(2) [OF assms] by (auto simp: cache_find_def fun_eq_iff map_of_filter_neq)

lemma cache_find_evict:
  assumes "cache_inv c" and "evictLRElementFromCache c = (kv, c')" and "lru c \<noteq> []"
  shows "cache_find c (fst kv) = Some (snd kv)" "cache_find c' = (cache_find c)(fst kv := None)"
    "Suc (length (lru c')) = length (lru c)"
proof -
  have l: "lru c = lru c' @ [kv]" using evict_eq(2) [OF assms(1,2,3)] .
  have d: "distinct (map fst (lru c' @ [kv]))" using cache_invD(3) [OF assms(1)] by (simp add: l)
  show "cache_find c (fst kv) = Some (snd kv)" using cache_find_Some_iff [OF assms(1)] l by simp
  show "cache_find c' = (cache_find c)(fst kv := None)"
    using d by (cases kv) (auto simp: cache_find_def l fun_eq_iff map_add_def map_of_eq_None_iff split: option.splits)
  show "Suc (length (lru c')) = length (lru c)" by (simp add: l)
qed

lemma length_lru_insert_fresh:
  assumes "cache_inv c" and "insertIntoCache k v c = Inr c'" and "cache_find c k = None"
  shows "length (lru c') = Suc (length (lru c))"
proof -
  have "k \<notin> set (map fst (lru c))" using assms(3) by (simp add: cache_find_def map_of_eq_None_iff)
  then have "filter (\<lambda>p. fst p \<noteq> k) (lru c) = lru c" by (rule filter_neq_notin)
  then show ?thesis using insertIntoCache_lru [OF assms(1,2)] by simp
qed

lemma length_lru_remove:
  assumes "cache_inv c" and "Cache_removeKey k c = Inr (b, c')" and "cache_find c k \<noteq> None"
  shows "Suc (length (lru c')) = length (lru c)"
proof -
  have "k \<in> fst ` set (lru c)" using assms(3) by (simp add: cache_find_def map_of_eq_None_iff)
  then show ?thesis
    using length_filter_neq_distinct [OF cache_invD(3) [OF assms(1)]] Cache_removeKey_inv(2) [OF assms(1,2)] by simp
qed

text \<open>The cache provides the key/value contract.\<close>

definition cache_del :: "string \<Rightarrow> cache \<Rightarrow> cache res" where
  "cache_del k c = bindR (Cache_removeKey k c) (\<lambda>r. Inr (snd r))"

interpretation cache_kv: kv_table cache_inv cache_find insertIntoCache cache_del
proof
  fix s :: cache and k v :: string
  assume s: "cache_inv s"
  obtain s1 where s1: "insertIntoCache k v s = Inr s1" using insertIntoCache_eq [OF s] by blast
  then show "\<exists>s'. insertIntoCache k v s = Inr s' \<and> cache_inv s' \<and> cache_find s' = (cache_find s)(k \<mapsto> v)"
    using s insertIntoCache_inv cache_find_insert by blast
  obtain b s2 where s2: "Cache_removeKey k s = Inr (b, s2)" using Cache_removeKey_eq [OF s] by blast
  then show "\<exists>s'. cache_del k s = Inr s' \<and> cache_inv s' \<and> cache_find s' = (cache_find s)(k := None)"
    using s Cache_removeKey_inv(1) cache_find_remove by (auto simp: cache_del_def)
qed

end
