(* ===== verification/Evicted_Items.thy ===== *)
theory Evicted_Items
  imports Kv_Interface
begin

text \<open>
  The table of items evicted from the cache and not yet written back
  (\<open>proxy/src/evictedItems.cpp\<close>): a hash map from keys to values.  A missing key reads as the
  empty string, which is how the proxy tells "not evicted" from "evicted".
\<close>

record evictedItems =
  ev_cacheMap :: "(string, string) umap"
  ev_capacity :: int

definition evictedItems_default :: evictedItems where
  "evictedItems_default = \<lparr>ev_cacheMap = [], ev_capacity = 0\<rparr>"

definition evictedItems_with :: "int \<Rightarrow> evictedItems" where
  "evictedItems_with cacheCapacity = evictedItems_default\<lparr>ev_capacity := cacheCapacity\<rparr>"

definition ev_getValue :: "evictedItems \<Rightarrow> string \<Rightarrow> string" where
  "ev_getValue e k = (if \<not> um_has (ev_cacheMap e) k then '''' else um_at '''' (ev_cacheMap e) k)"

definition ev_insert :: "string \<Rightarrow> string \<Rightarrow> evictedItems \<Rightarrow> evictedItems" where
  "ev_insert k v e = e\<lparr>ev_cacheMap := um_set k v (ev_cacheMap e)\<rparr>"

definition ev_erase :: "string \<Rightarrow> evictedItems \<Rightarrow> evictedItems" where
  "ev_erase k e = e\<lparr>ev_cacheMap := um_erase k (ev_cacheMap e)\<rparr>"

definition ev_size :: "evictedItems \<Rightarrow> nat" where
  "ev_size e = length (ev_cacheMap e)"

definition ev_checkIfKeyExists :: "evictedItems \<Rightarrow> string \<Rightarrow> bool" where
  "ev_checkIfKeyExists e k = um_has (ev_cacheMap e) k"

definition ev_find :: "evictedItems \<Rightarrow> string \<Rightarrow> string option" where
  "ev_find e k = um_find (ev_cacheMap e) k"

definition ev_inv :: "evictedItems \<Rightarrow> bool" where
  "ev_inv e \<longleftrightarrow> um_ok (ev_cacheMap e)"

lemma ev_find_simps [simp]:
  "ev_find (ev_insert k v e) = (ev_find e)(k \<mapsto> v)"
  "ev_find (ev_erase k e) = (ev_find e)(k := None)"
  "ev_find evictedItems_default = (\<lambda>_. None)"
  by (auto simp: ev_find_def ev_insert_def ev_erase_def evictedItems_default_def)

lemma ev_inv_simps [simp]:
  "ev_inv e \<Longrightarrow> ev_inv (ev_insert k v e)" "ev_inv e \<Longrightarrow> ev_inv (ev_erase k e)" "ev_inv evictedItems_default"
  by (auto simp: ev_inv_def ev_insert_def ev_erase_def evictedItems_default_def)

lemma ev_getValue_eq: "ev_getValue e k = (case ev_find e k of None \<Rightarrow> '''' | Some v \<Rightarrow> v)"
  by (auto simp: ev_getValue_def ev_find_def um_has_def um_at_def split: option.splits)

lemma ev_checkIfKeyExists_eq: "ev_checkIfKeyExists e k \<longleftrightarrow> ev_find e k \<noteq> None"
  by (simp add: ev_checkIfKeyExists_def ev_find_def um_has_def)

interpretation ev_kv: kv_table ev_inv ev_find "\<lambda>k v e. Inr (ev_insert k v e)" "\<lambda>k e. Inr (ev_erase k e)"
  by unfold_locales auto

end
