(* ===== verification/Index_Interface.thy ===== *)
theory Index_Interface
  imports Cpp_Strings
begin

text \<open>
  The contract the batch builder relies on for the frequency index: setting the frequency of a
  known key changes that frequency and nothing else, and the key offered first has the least
  frequency.  From this alone follows what the loop over the fake keys does: asking \<open>n\<close> times for
  the least recently used key, and stamping it with the current batch number each time, visits
  \<open>n\<close> different keys, none of which was used later than a key left out.
\<close>

text \<open>The loop, for any index: \<open>ts\<close> is the current batch number.\<close>

fun pick_min :: "('s \<Rightarrow> string res) \<Rightarrow> (string \<Rightarrow> int \<Rightarrow> 's \<Rightarrow> 's) \<Rightarrow> int \<Rightarrow> nat \<Rightarrow> 's \<Rightarrow> (string list \<times> 's) res" where
  "pick_min mn st ts 0 s = Inr ([], s)"
| "pick_min mn st ts (Suc n) s =
     bindR (mn s) (\<lambda>k. bindR (pick_min mn st ts n (st k ts s)) (\<lambda>(ks, s'). Inr (k # ks, s')))"

locale access_index =
  fixes inv :: "'s \<Rightarrow> bool"
    and freq :: "'s \<Rightarrow> string \<Rightarrow> int option"
    and set_freq :: "string \<Rightarrow> int \<Rightarrow> 's \<Rightarrow> 's"
    and min_key :: "'s \<Rightarrow> string res"
  assumes set_inv: "inv s \<Longrightarrow> inv (set_freq k v s)"
    and set_lookup: "inv s \<Longrightarrow> freq (set_freq k v s) = (freq s)(k \<mapsto> v)"
    and min_least: "inv s \<Longrightarrow> freq s k' = Some f' \<Longrightarrow>
      \<exists>k f. min_key s = Inr k \<and> freq s k = Some f \<and> f \<le> f'"
    and finite_keys: "inv s \<Longrightarrow> finite (dom (freq s))"
begin

text \<open>A loop of updates: only the listed keys change.\<close>

lemma set_all:
  assumes "inv s"
  shows "inv (fold (\<lambda>k. set_freq k v) ks s) \<and>
    freq (fold (\<lambda>k. set_freq k v) ks s) = (\<lambda>k. if k \<in> set ks then Some v else freq s k)"
  using assms
proof (induction ks arbitrary: s)
  case (Cons k ks)
  show ?case using Cons.IH [OF set_inv [OF Cons.prems, of k v]] set_lookup [OF Cons.prems, of k v] by auto
qed simp

lemma min_key_least:
  assumes "inv s" and "min_key s = Inr k" and "freq s k' = Some f'"
  shows "\<exists>f. freq s k = Some f \<and> f \<le> f'"
  using min_least [OF assms(1,3)] assms(2) by auto

text \<open>The keys used before the current batch.\<close>

lemma old_after_set:
  assumes "inv s" and "freq s k = Some f" and "f < ts"
  shows "{k'. \<exists>f. freq (set_freq k ts s) k' = Some f \<and> f < ts} = {k'. \<exists>f. freq s k' = Some f \<and> f < ts} - {k}"
  using assms set_lookup [OF assms(1), of k ts] by auto

lemma finite_old: "inv s \<Longrightarrow> finite {k. \<exists>f. freq s k = Some f \<and> f < (ts :: int)}"
  by (rule finite_subset [OF _ finite_keys]) auto

lemma pick_min_step:
  assumes "inv s" and "Suc n \<le> card {k. \<exists>f. freq s k = Some f \<and> f < ts}"
  obtains k f where "min_key s = Inr k" "freq s k = Some f" "f < ts"
    "n \<le> card {k'. \<exists>f. freq (set_freq k ts s) k' = Some f \<and> f < ts}"
proof -
  have "{k. \<exists>f. freq s k = Some f \<and> f < ts} \<noteq> {}" using assms(2) by (metis card.empty not_less_eq_eq zero_le)
  then obtain k0 f0 where k0: "freq s k0 = Some f0" "f0 < ts" by blast
  obtain k f where k: "min_key s = Inr k" "freq s k = Some f" "f \<le> f0" using min_least [OF assms(1) k0(1)] by blast
  then have f: "f < ts" using k0(2) by simp
  have "card ({k'. \<exists>f. freq s k' = Some f \<and> f < ts} - {k}) = card {k'. \<exists>f. freq s k' = Some f \<and> f < ts} - 1"
    by (rule card_Diff_singleton) (use k f in auto)
  then show ?thesis using that [OF k(1,2) f] assms(2) old_after_set [OF assms(1) k(2) f] by simp
qed

text \<open>
  With at least \<open>n\<close> keys last used before the current batch, the loop picks \<open>n\<close> different keys, all
  used before this batch and none later than a key it leaves out, and stamps exactly these.
\<close>

lemma pick_min_ok:
  assumes "inv s" and "n \<le> card {k. \<exists>f. freq s k = Some f \<and> f < ts}"
  shows "\<exists>ks s'. pick_min min_key set_freq ts n s = Inr (ks, s') \<and> inv s' \<and> length ks = n \<and> distinct ks \<and>
    s' = fold (\<lambda>k. set_freq k ts) ks s \<and>
    (\<forall>k \<in> set ks. \<exists>f < ts. freq s k = Some f) \<and>
    (\<forall>k \<in> set ks. \<forall>k' f f'. k' \<notin> set ks \<longrightarrow> freq s k = Some f \<longrightarrow> freq s k' = Some f' \<longrightarrow> f \<le> f')"
  using assms
proof (induction n arbitrary: s)
  case (Suc n)
  obtain k f where k: "min_key s = Inr k" "freq s k = Some f" "f < ts"
    "n \<le> card {k'. \<exists>f. freq (set_freq k ts s) k' = Some f \<and> f < ts}"
    using pick_min_step [OF Suc.prems] .
  let ?s = "set_freq k ts s"
  have lk: "freq ?s = (freq s)(k \<mapsto> ts)" using set_lookup [OF Suc.prems(1)] .
  obtain ks s' where ks: "pick_min min_key set_freq ts n ?s = Inr (ks, s')" "inv s'" "length ks = n" "distinct ks"
    "s' = fold (\<lambda>k. set_freq k ts) ks ?s"
    and old: "\<forall>k \<in> set ks. \<exists>f < ts. freq ?s k = Some f"
    and least: "\<forall>k \<in> set ks. \<forall>k' f f'. k' \<notin> set ks \<longrightarrow> freq ?s k = Some f \<longrightarrow> freq ?s k' = Some f' \<longrightarrow> f \<le> f'"
    using Suc.IH [OF set_inv [OF Suc.prems(1)] k(4)] by blast
  have nk: "k \<notin> set ks" using old lk by auto
  have "\<forall>j \<in> set (k # ks). \<exists>f < ts. freq s j = Some f"
    using old lk nk k(2,3) by (auto dest!: bspec split: if_splits)
  moreover have "g \<le> g'" if "j \<in> set (k # ks)" "j' \<notin> set (k # ks)" "freq s j = Some g" "freq s j' = Some g'" for j j' g g'
  proof (cases "j = k")
    case True
    then show ?thesis using min_key_least [OF Suc.prems(1) k(1) that(4)] that(3) by auto
  next
    case False
    then have "j \<in> set ks" "j' \<notin> set ks" "freq ?s j = Some g" "freq ?s j' = Some g'" using that lk by auto
    then show ?thesis using least by blast
  qed
  ultimately show ?case using ks k(1) nk by fastforce
qed simp

end

end
