(* ===== verification/Frequency_Smoother.thy ===== *)
theory Frequency_Smoother
  imports Kv_Interface Index_Interface
begin

text \<open>
  The frequency index (\<open>proxy/src/FrequencySmoother.cpp\<close>): for every key the batch number of its
  last access, an ordered set of (key, frequency) pairs sorted by frequency, and, for the real keys,
  the set of time stamps held for each item.  Keys of the time-series store have the form
  \<open>item@timestamp\<close>.  The standalone scans of \<open>utils/TS_get_oldest_key.h\<close> and
  \<open>utils/TS_search_master.h\<close> over the same index are here too.
\<close>

subsection \<open>State\<close>

record freq =
  accessFreqs :: "(string, int) umap"
  accessTree :: "(string \<times> int) list"
  uniqueItemWithTimeStamp :: "(string, int list) umap"
  needTimeStamp :: bool

definition freqCmp :: "string \<times> int \<Rightarrow> string \<times> int \<Rightarrow> bool" where
  "freqCmp a b = (if snd a = snd b then fst a < fst b else snd a < snd b)"

definition FrequencySmoother :: "bool \<Rightarrow> freq" where
  "FrequencySmoother nts =
     \<lparr>accessFreqs = [], accessTree = [], uniqueItemWithTimeStamp = [], needTimeStamp = nts\<rparr>"

text \<open>The move assignment carries the two frequency structures and nothing else.\<close>

definition fs_move_assign :: "freq \<Rightarrow> freq \<Rightarrow> freq" where
  "fs_move_assign this other =
     this\<lparr>accessTree := accessTree other, accessFreqs := accessFreqs other\<rparr>"

text \<open>\<open>std::set\<close> ordered by \<open>freqCmp\<close>: its iteration order is the order of the list.\<close>

fun tree_insert :: "string \<times> int \<Rightarrow> (string \<times> int) list \<Rightarrow> (string \<times> int) list" where
  "tree_insert x [] = [x]"
| "tree_insert x (y # ys) =
     (if freqCmp x y then x # y # ys else if freqCmp y x then y # tree_insert x ys else y # ys)"

definition tree_erase :: "string \<times> int \<Rightarrow> (string \<times> int) list \<Rightarrow> (string \<times> int) list" where
  "tree_erase x t = filter (\<lambda>y. freqCmp x y \<or> freqCmp y x) t"

subsection \<open>Operations\<close>

definition get_key_timestamp_split :: "string \<Rightarrow> (string \<times> int) res" where
  "get_key_timestamp_split key =
     (case str_find key CHR ''@'' 0 of None \<Rightarrow> Inl Invalid_argument
      | Some at_pos \<Rightarrow>
          if at_pos = 0 \<or> at_pos = length key - 1 then Inl Invalid_argument
          else bindR (substr key 0 at_pos) (\<lambda>key_part.
               bindR (substr_from key (at_pos + 1)) (\<lambda>timestamp_part.
               case stol timestamp_part of Inl _ \<Rightarrow> Inl Invalid_argument
               | Inr timestamp \<Rightarrow> Inr (key_part, timestamp))))"

definition fs_insert :: "string \<Rightarrow> freq \<Rightarrow> freq res" where
  "fs_insert key s =
     (let s1 = s\<lparr>accessFreqs := um_set key 0 (accessFreqs s),
                 accessTree := tree_insert (key, 0) (accessTree s)\<rparr> in
      if needTimeStamp s
      then bindR (get_key_timestamp_split key) (\<lambda>kt.
           let u = um_touch [] (fst kt) (uniqueItemWithTimeStamp s1) in
           Inr (s1\<lparr>uniqueItemWithTimeStamp :=
                    um_set (fst kt) (insort_insert (snd kt) (um_at [] u (fst kt))) u\<rparr>))
      else Inr s1)"

definition fs_getMinFrequency :: "freq \<Rightarrow> int res" where
  "fs_getMinFrequency s =
     (case accessTree s of [] \<Rightarrow> Inl Undefined_behaviour | kf # _ \<Rightarrow> Inr (snd kf))"

definition fs_getRUKey :: "freq \<Rightarrow> string res" where
  "fs_getRUKey s =
     (case rev (accessTree s) of [] \<Rightarrow> Inl Undefined_behaviour | kf # _ \<Rightarrow> Inr (fst kf))"

definition fs_getKeyWithMinFrequency :: "freq \<Rightarrow> string res" where
  "fs_getKeyWithMinFrequency s =
     (case accessTree s of [] \<Rightarrow> Inl Undefined_behaviour | kf # _ \<Rightarrow> Inr (fst kf))"

definition fs_getKeyWithMinFrequencyRecordingAlpha :: "freq \<Rightarrow> int res" where
  "fs_getKeyWithMinFrequencyRecordingAlpha s =
     (case accessTree s of [] \<Rightarrow> Inl Undefined_behaviour | kf # _ \<Rightarrow> Inr (snd kf))"

text \<open>Reading \<open>accessFreqs[key]\<close> inserts a missing key with frequency 0.\<close>

definition fs_touch :: "string \<Rightarrow> freq \<Rightarrow> freq" where
  "fs_touch key s = s\<lparr>accessFreqs := um_touch 0 key (accessFreqs s)\<rparr>"

definition fs_freq :: "freq \<Rightarrow> string \<Rightarrow> int" where
  "fs_freq s key = um_at 0 (accessFreqs s) key"

definition fs_incrementFrequency :: "string \<Rightarrow> freq \<Rightarrow> freq res" where
  "fs_incrementFrequency key s =
     bindR (add32 (fs_freq s key) 1) (\<lambda>f.
     Inr (s\<lparr>accessFreqs := um_set key f (accessFreqs s),
            accessTree := tree_insert (key, f) (tree_erase (key, fs_freq s key) (accessTree s))\<rparr>))"

definition fs_setFrequency :: "string \<Rightarrow> int \<Rightarrow> freq \<Rightarrow> freq" where
  "fs_setFrequency key v s =
     s\<lparr>accessFreqs := um_set key v (accessFreqs s),
       accessTree := tree_insert (key, v) (tree_erase (key, fs_freq s key) (accessTree s))\<rparr>"

definition fs_drop_freq :: "string \<Rightarrow> freq \<Rightarrow> freq" where
  "fs_drop_freq key s =
     s\<lparr>accessTree := tree_erase (key, fs_freq s key) (accessTree s),
       accessFreqs := um_erase key (accessFreqs s)\<rparr>"

definition fs_drop_timestamp :: "string \<Rightarrow> freq \<Rightarrow> freq res" where
  "fs_drop_timestamp key s =
     bindR (get_key_timestamp_split key) (\<lambda>kt.
       if um_has (uniqueItemWithTimeStamp s) (fst kt)
       then let ts = remove1 (snd kt) (um_at [] (uniqueItemWithTimeStamp s) (fst kt)) in
         Inr (s\<lparr>uniqueItemWithTimeStamp :=
                 (if ts = [] then um_erase (fst kt) (uniqueItemWithTimeStamp s)
                  else um_set (fst kt) ts (uniqueItemWithTimeStamp s))\<rparr>)
       else Inr s)"

definition fs_removeKey :: "string \<Rightarrow> freq \<Rightarrow> freq res" where
  "fs_removeKey key s =
     (let s1 = fs_drop_freq key s in if needTimeStamp s then fs_drop_timestamp key s1 else Inr s1)"

definition fs_removeKey_without_mutex :: "string \<Rightarrow> freq \<Rightarrow> freq res" where
  "fs_removeKey_without_mutex key s =
     (let s1 = fs_drop_freq key s in if needTimeStamp s then fs_drop_timestamp key s1 else Inr s1)"

definition fs_addKey :: "string \<Rightarrow> freq \<Rightarrow> freq" where
  "fs_addKey key s =
     (fs_touch key s)\<lparr>accessTree := tree_insert (key, fs_freq s key) (accessTree s)\<rparr>"

definition fs_getFrequency :: "string \<Rightarrow> freq \<Rightarrow> int \<times> freq" where
  "fs_getFrequency key s = (fs_freq s key, fs_touch key s)"

definition fs_size :: "freq \<Rightarrow> nat" where
  "fs_size s = length (accessFreqs s)"

text \<open>\<open>ord\<close> is the iteration order of the unordered map.\<close>

definition fs_fetchUniqueItemIDs :: "(string list \<Rightarrow> string list) \<Rightarrow> freq \<Rightarrow> string list \<Rightarrow> string list" where
  "fs_fetchUniqueItemIDs ord s results = results @ ord (um_keys (uniqueItemWithTimeStamp s))"

definition fs_search :: "(string list \<Rightarrow> string list) \<Rightarrow> string \<Rightarrow> freq \<Rightarrow> string list \<Rightarrow> string list" where
  "fs_search ord pattern s results =
     (if pattern = [] then fs_fetchUniqueItemIDs ord s results
      else case um_find (uniqueItemWithTimeStamp s) pattern of
             Some ts \<Rightarrow> results @ map (\<lambda>t. pattern @ ''@'' @ to_string t) ts
           | None \<Rightarrow> results @ [''SEARCH FAILURE''])"

definition fs_checkIfUniqueItemWithTimeStampExists :: "freq \<Rightarrow> string \<Rightarrow> bool" where
  "fs_checkIfUniqueItemWithTimeStampExists s key = um_has (accessFreqs s) key"

text \<open>The list of keys to be deleted is a parameter the body does not read.\<close>

definition fs_getOldestKey :: "string list \<Rightarrow> string \<Rightarrow> freq \<Rightarrow> (string \<times> freq) res" where
  "fs_getOldestKey keys_to_be_deleted currentKey s =
     bindR (get_key_timestamp_split currentKey) (\<lambda>kt.
       let u = um_touch [] (fst kt) (uniqueItemWithTimeStamp s) in
       case um_at [] u (fst kt) of
         [] \<Rightarrow> Inl Undefined_behaviour
       | oldest # _ \<Rightarrow> Inr (fst kt @ ''@'' @ to_string oldest, s\<lparr>uniqueItemWithTimeStamp := u\<rparr>))"

definition fs_get_timestamp_for_key :: "string \<Rightarrow> freq \<Rightarrow> int list \<times> freq" where
  "fs_get_timestamp_for_key key s =
     (um_at [] (uniqueItemWithTimeStamp s) key,
      s\<lparr>uniqueItemWithTimeStamp := um_touch [] key (uniqueItemWithTimeStamp s)\<rparr>)"

subsection \<open>Scans of \<open>TS_get_oldest_key\<close> and \<open>TS_search_master\<close>\<close>

definition get_timestamp :: "string \<Rightarrow> int res" where
  "get_timestamp key =
     (case str_rfind key CHR ''@'' of
        None \<Rightarrow> bindR (substr_from key 0) stol
      | Some pos \<Rightarrow> bindR (substr_from key (pos + 1)) stol)"

fun oldest_scan :: "string list \<Rightarrow> (string \<times> int) list \<Rightarrow> string \<times> int \<Rightarrow> (string \<times> int) res" where
  "oldest_scan del [] best = Inr best"
| "oldest_scan del (kf # t) best =
     (if fst kf \<in> set del then oldest_scan del t best
      else bindR (get_timestamp (fst kf)) (\<lambda>ts.
           oldest_scan del t (if ts < snd best then (fst kf, ts) else best)))"

text \<open>The time stamp is returned through an \<open>int\<close>, so it is cut to 32 bits.\<close>

definition get_oldest_key :: "freq \<Rightarrow> string list \<Rightarrow> (string \<times> int) res" where
  "get_oldest_key s keys_to_be_deleted =
     bindR (oldest_scan keys_to_be_deleted (accessTree s) ([], 2 ^ 63 - 1))
       (\<lambda>best. Inr (fst best, wrap32 (snd best)))"

definition prefix_search :: "(string list \<Rightarrow> string list) \<Rightarrow> string \<Rightarrow> (string, int) umap \<Rightarrow> string list" where
  "prefix_search ord key freqs = filter (\<lambda>x. take (length key) x = key) (ord (um_keys freqs))"

text \<open>The loop builds its result vector; control then leaves the function without a \<open>return\<close>.\<close>

definition filter_by_time_range :: "string list \<Rightarrow> int \<Rightarrow> int \<Rightarrow> string list res" where
  "filter_by_time_range keys start end =
     bindR (foldR (\<lambda>key acc. bindR (get_timestamp key) (\<lambda>ts.
              Inr (if start \<le> ts \<and> ts \<le> end then acc @ [key] else acc))) keys [])
       (\<lambda>_. Inl Undefined_behaviour)"

subsection \<open>Well-formedness\<close>

text \<open>The key of an item's bucket, and the keys that are spelled the way the store spells them.\<close>

definition ts_key :: "string \<Rightarrow> int \<Rightarrow> string" where
  "ts_key item t = item @ ''@'' @ to_string t"

definition wf_item :: "string \<Rightarrow> bool" where
  "wf_item i \<longleftrightarrow> i \<noteq> [] \<and> CHR ''@'' \<notin> set i"

definition canon :: "string \<Rightarrow> bool" where
  "canon k = (case get_key_timestamp_split k of Inl _ \<Rightarrow> False | Inr it \<Rightarrow> ts_key (fst it) (snd it) = k)"

text \<open>The tree lists exactly the (key, frequency) pairs of the map, in order.\<close>

definition fs_inv :: "freq \<Rightarrow> bool" where
  "fs_inv s \<longleftrightarrow> um_ok (accessFreqs s) \<and> sorted_wrt freqCmp (accessTree s) \<and>
     (\<forall>k f. (k, f) \<in> set (accessTree s) \<longleftrightarrow> um_find (accessFreqs s) k = Some f)"

text \<open>The time-stamp index lists, per item, exactly the buckets the frequency map knows.\<close>

definition ts_inv :: "freq \<Rightarrow> bool" where
  "ts_inv s \<longleftrightarrow> um_ok (uniqueItemWithTimeStamp s) \<and>
     (\<forall>i ts. um_find (uniqueItemWithTimeStamp s) i = Some ts \<longrightarrow> sorted ts \<and> distinct ts) \<and>
     (\<forall>k. um_has (accessFreqs s) k \<longrightarrow> canon k) \<and>
     (\<forall>i t. t \<in> set (um_at [] (uniqueItemWithTimeStamp s) i) \<longleftrightarrow> um_has (accessFreqs s) (ts_key i t))"

subsection \<open>Laws of the ordered tree\<close>

lemma freqCmp_trans: "freqCmp a b \<Longrightarrow> freqCmp b c \<Longrightarrow> freqCmp a c"
  by (auto simp: freqCmp_def split: if_splits)

lemma freqCmp_irrefl [simp]: "\<not> freqCmp a a"
  by (simp add: freqCmp_def)

lemma freqCmp_total: "a \<noteq> b \<longleftrightarrow> freqCmp a b \<or> freqCmp b a"
  by (cases a; cases b) (auto simp: freqCmp_def)

lemma tree_erase_eq: "tree_erase x t = filter (\<lambda>y. y \<noteq> x) t"
  unfolding tree_erase_def by (rule filter_cong) (use freqCmp_total in auto)

lemma set_tree_erase [simp]: "set (tree_erase x t) = set t - {x}"
  by (auto simp: tree_erase_eq)

lemma sorted_tree_erase [simp]: "sorted_wrt freqCmp t \<Longrightarrow> sorted_wrt freqCmp (tree_erase x t)"
  by (simp add: tree_erase_def sorted_wrt_filter)

lemma set_tree_insert [simp]: "set (tree_insert x t) = insert x (set t)"
proof (induction t)
  case (Cons y ys)
  then show ?case using freqCmp_total [of x y] by auto
qed simp

lemma sorted_tree_insert [simp]: "sorted_wrt freqCmp t \<Longrightarrow> sorted_wrt freqCmp (tree_insert x t)"
proof (induction t)
  case (Cons y ys)
  then show ?case using freqCmp_trans [of x y] by auto
qed simp

lemma sorted_tree_distinct: "sorted_wrt freqCmp t \<Longrightarrow> distinct t"
  by (induction t) auto

lemma freqCmp_freq_le: "freqCmp a b \<Longrightarrow> snd a \<le> snd b"
  by (auto simp: freqCmp_def split: if_splits)

subsection \<open>Laws of the key syntax\<close>

lemma ts_key_inj [simp]: "ts_key i t = ts_key i' t' \<longleftrightarrow> i = i' \<and> t = t'"
proof
  assume eq: "ts_key i t = ts_key i' t'"
  have "str_rfind (ts_key j u) CHR ''@'' = Some (length j)" for j u
    unfolding ts_key_def using str_rfind_last [of "CHR ''@''" "to_string u" j] by simp
  with eq have "length i = length i'" by (metis option.inject)
  with eq show "i = i' \<and> t = t'" by (simp add: ts_key_def)
qed simp

lemma get_key_timestamp_split_ts_key:
  assumes "wf_item i" and "fits64 t"
  shows "get_key_timestamp_split (ts_key i t) = Inr (i, t)"
proof -
  have f: "str_find (ts_key i t) CHR ''@'' 0 = Some (length i)"
    using assms(1) str_find_first [of "CHR ''@''" i "to_string t"] by (simp add: ts_key_def wf_item_def)
  have l: "length i \<noteq> length (ts_key i t) - 1"
    by (simp add: ts_key_def)
  show ?thesis
    using assms f l
    by (simp add: get_key_timestamp_split_def substr_def substr_from_def wf_item_def) (simp add: ts_key_def)
qed

lemma stol_fits: "stol s = Inr t \<Longrightarrow> fits64 t"
  by (auto simp: stol_def signed_val_def Let_def split: if_splits)

lemma get_key_timestamp_split_ok:
  assumes "get_key_timestamp_split k = Inr (i, t)"
  shows "wf_item i" "fits64 t"
proof -
  have "\<exists>p. str_find k CHR ''@'' 0 = Some p \<and> p \<noteq> 0 \<and> substr k 0 p = Inr i \<and> (\<exists>u. stol u = Inr t)"
    using assms
    by (auto simp: get_key_timestamp_split_def res_simps split: option.splits if_splits)
  then obtain p where p: "str_find k CHR ''@'' 0 = Some p" "p \<noteq> 0" "substr k 0 p = Inr i"
    and s: "\<exists>u. stol u = Inr t" by blast
  have "p < length k" using p(1) index_from_bounds by (fastforce simp: str_find_def)
  moreover have "CHR ''@'' \<notin> set (take p k)" using p(1) index_from_char by (fastforce simp: str_find_def)
  ultimately show "wf_item i" using p(2,3) by (auto simp: wf_item_def substr_def)
  show "fits64 t" using s stol_fits by blast
qed

lemma canon_ts_key [simp]: "canon (ts_key i t) \<longleftrightarrow> wf_item i \<and> fits64 t"
proof
  assume "canon (ts_key i t)"
  then obtain i' t' where "get_key_timestamp_split (ts_key i t) = Inr (i', t')" "ts_key i' t' = ts_key i t"
    by (auto simp: canon_def split: sum.splits)
  then show "wf_item i \<and> fits64 t" using get_key_timestamp_split_ok by auto
next
  assume "wf_item i \<and> fits64 t"
  then show "canon (ts_key i t)" by (simp add: canon_def get_key_timestamp_split_ts_key)
qed

lemma canonE:
  assumes "canon k"
  obtains i t where "k = ts_key i t" "wf_item i" "fits64 t" "get_key_timestamp_split k = Inr (i, t)"
proof -
  from assms obtain i t where it: "get_key_timestamp_split k = Inr (i, t)" "ts_key i t = k"
    by (auto simp: canon_def split: sum.splits)
  with get_key_timestamp_split_ok [OF it(1)] that show ?thesis by metis
qed

subsection \<open>Every operation keeps the tree and the map in step\<close>

lemma fs_invD:
  assumes "fs_inv s"
  shows "um_ok (accessFreqs s)" "sorted_wrt freqCmp (accessTree s)"
    "(k, f) \<in> set (accessTree s) \<longleftrightarrow> um_find (accessFreqs s) k = Some f"
  using assms by (auto simp: fs_inv_def)

lemma fs_inv_new [simp]: "fs_inv (FrequencySmoother b)"
  by (simp add: fs_inv_def FrequencySmoother_def)

lemma fs_freq_find: "um_find (accessFreqs s) k = Some f \<Longrightarrow> fs_freq s k = f"
  by (simp add: fs_freq_def um_at_def)

lemma fs_setFrequency_inv:
  assumes "fs_inv s"
  shows "fs_inv (fs_setFrequency k v s)"
  using assms unfolding fs_inv_def fs_setFrequency_def
  by (auto simp: fs_freq_find)

lemma fs_drop_freq_inv:
  assumes "fs_inv s"
  shows "fs_inv (fs_drop_freq k s)"
  using assms unfolding fs_inv_def fs_drop_freq_def by (auto simp: fs_freq_find)

lemma fs_setFrequency_simps [simp]:
  "um_find (accessFreqs (fs_setFrequency k v s)) k' = (if k' = k then Some v else um_find (accessFreqs s) k')"
  "um_has (accessFreqs (fs_setFrequency k v s)) k' \<longleftrightarrow> k' = k \<or> um_has (accessFreqs s) k'"
  "uniqueItemWithTimeStamp (fs_setFrequency k v s) = uniqueItemWithTimeStamp s"
  "needTimeStamp (fs_setFrequency k v s) = needTimeStamp s"
  "fs_freq (fs_setFrequency k v s) k' = (if k' = k then v else fs_freq s k')"
  by (simp_all add: fs_setFrequency_def fs_freq_def um_at_def)

lemma fs_touch_present [simp]: "um_has (accessFreqs s) k \<Longrightarrow> fs_touch k s = s"
  by (simp add: fs_touch_def)

lemma fs_getFrequency_present [simp]:
  "um_has (accessFreqs s) k \<Longrightarrow> fs_getFrequency k s = (fs_freq s k, s)"
  by (simp add: fs_getFrequency_def)

lemma fs_insert_fresh_inv:
  assumes "fs_inv s" and "\<not> um_has (accessFreqs s) k" and "fs_insert k s = Inr s'"
  shows "fs_inv s'"
proof -
  have "accessFreqs s' = um_set k 0 (accessFreqs s)" "accessTree s' = tree_insert (k, 0) (accessTree s)"
    using assms(3) by (auto simp: fs_insert_def Let_def res_simps split: if_splits)
  with assms(1,2) show ?thesis by (auto simp: fs_inv_def um_has_def)
qed

text \<open>The key the tree offers first has the least frequency of all keys.\<close>

lemma fs_min_is_least:
  assumes "fs_inv s" and "fs_getKeyWithMinFrequency s = Inr k" and "um_find (accessFreqs s) k' = Some f'"
  shows "\<exists>f. um_find (accessFreqs s) k = Some f \<and> f \<le> f'"
proof -
  obtain f t where t: "accessTree s = (k, f) # t"
    using assms(2) by (auto simp: fs_getKeyWithMinFrequency_def split: list.splits)
  have k: "um_find (accessFreqs s) k = Some f" using assms(1) t by (auto simp: fs_inv_def)
  have "(k', f') \<in> set (accessTree s)" using assms(1,3) by (simp add: fs_inv_def)
  then have "(k', f') = (k, f) \<or> freqCmp (k, f) (k', f')"
    using assms(1) t by (auto simp: fs_inv_def)
  with k show ?thesis using freqCmp_freq_le by fastforce
qed

subsection \<open>The time-stamp index\<close>

lemma ts_invD:
  assumes "ts_inv s"
  shows "um_ok (uniqueItemWithTimeStamp s)"
    "sorted (um_at [] (uniqueItemWithTimeStamp s) i)" "distinct (um_at [] (uniqueItemWithTimeStamp s) i)"
    "um_has (accessFreqs s) k \<Longrightarrow> canon k"
    "t \<in> set (um_at [] (uniqueItemWithTimeStamp s) i) \<longleftrightarrow> um_has (accessFreqs s) (ts_key i t)"
  using assms by (auto simp: ts_inv_def um_at_def split: option.splits)

lemma ts_invI:
  assumes "um_ok (uniqueItemWithTimeStamp s)"
    "\<And>i. sorted (um_at [] (uniqueItemWithTimeStamp s) i) \<and> distinct (um_at [] (uniqueItemWithTimeStamp s) i)"
    "\<And>k. um_has (accessFreqs s) k \<Longrightarrow> canon k"
    "\<And>i t. t \<in> set (um_at [] (uniqueItemWithTimeStamp s) i) \<longleftrightarrow> um_has (accessFreqs s) (ts_key i t)"
  shows "ts_inv s"
  using assms unfolding ts_inv_def by (metis um_at_conv)

lemma ts_inv_new [simp]: "ts_inv (FrequencySmoother b)"
  by (simp add: ts_inv_def FrequencySmoother_def um_at_def)

lemma fs_setFrequency_ts_inv: "ts_inv s \<Longrightarrow> um_has (accessFreqs s) k \<Longrightarrow> ts_inv (fs_setFrequency k v s)"
  by (auto simp: ts_inv_def)

lemma fs_insert_canon:
  assumes "needTimeStamp s" and "wf_item i" and "fits64 t"
  shows "fs_insert (ts_key i t) s = Inr (s\<lparr>
    accessFreqs := um_set (ts_key i t) 0 (accessFreqs s),
    accessTree := tree_insert (ts_key i t, 0) (accessTree s),
    uniqueItemWithTimeStamp := um_set i (insort_insert t (um_at [] (uniqueItemWithTimeStamp s) i))
      (um_touch [] i (uniqueItemWithTimeStamp s))\<rparr>)"
  using assms by (simp add: fs_insert_def get_key_timestamp_split_ts_key Let_def um_at_touch)

lemma fs_insert_ts_inv:
  assumes "ts_inv s" and "needTimeStamp s" and "canon k" and "fs_insert k s = Inr s'"
  shows "ts_inv s'"
proof -
  obtain i t where k: "k = ts_key i t" "wf_item i" "fits64 t" using assms(3) by (rule canonE)
  note s' = fs_insert_canon [OF assms(2) k(2,3)]
  show ?thesis
  proof (rule ts_invI)
    show "um_ok (uniqueItemWithTimeStamp s')" using assms(1,4) s' k(1) by (auto simp: ts_inv_def)
    show "sorted (um_at [] (uniqueItemWithTimeStamp s') j) \<and> distinct (um_at [] (uniqueItemWithTimeStamp s') j)" for j
      using assms(1,4) s' k(1) ts_invD(2,3)
      by (auto simp: um_at_simps sorted_insort_insert distinct_insort_insert)
    show "canon l" if "um_has (accessFreqs s') l" for l
      using assms(1,4) s' k that by (auto simp: ts_inv_def)
    show "u \<in> set (um_at [] (uniqueItemWithTimeStamp s') j) \<longleftrightarrow> um_has (accessFreqs s') (ts_key j u)" for j u
      using assms(4) s' k(1) ts_invD(5) [OF assms(1), of u j]
      by (auto simp: um_at_simps set_insort_insert split: if_splits)
  qed
qed

lemma fs_removeKey_canon:
  assumes "needTimeStamp s" and "wf_item i" and "fits64 t"
  shows "fs_removeKey (ts_key i t) s = Inr (let u = uniqueItemWithTimeStamp s; ts = remove1 t (um_at [] u i) in
    (fs_drop_freq (ts_key i t) s)\<lparr>uniqueItemWithTimeStamp :=
       (if \<not> um_has u i then u else if ts = [] then um_erase i u else um_set i ts u)\<rparr>)"
  using assms
  by (simp add: fs_removeKey_def fs_drop_timestamp_def get_key_timestamp_split_ts_key fs_drop_freq_def Let_def)

lemma fs_removeKey_unique:
  assumes "needTimeStamp s" and "wf_item i" and "fits64 t" and "fs_removeKey (ts_key i t) s = Inr s'"
  shows "um_at [] (uniqueItemWithTimeStamp s') j =
    (if j = i then remove1 t (um_at [] (uniqueItemWithTimeStamp s) i) else um_at [] (uniqueItemWithTimeStamp s) j)"
  using fs_removeKey_canon [OF assms(1-3)] assms(4)
  by (auto simp: Let_def um_at_simps um_has_def um_at_def)

lemma fs_removeKey_inv:
  assumes "fs_inv s" and "ts_inv s" and "needTimeStamp s" and "canon k"
  obtains s' where "fs_removeKey k s = Inr s'" "fs_inv s'" "ts_inv s'" "needTimeStamp s'"
    "accessFreqs s' = um_erase k (accessFreqs s)"
proof -
  obtain i t where k: "k = ts_key i t" "wf_item i" "fits64 t" using assms(4) by (rule canonE)
  obtain s' where s': "fs_removeKey k s = Inr s'" using fs_removeKey_canon [OF assms(3) k(2,3)] k(1) by blast
  have fr: "accessFreqs s' = um_erase k (accessFreqs s)" "accessTree s' = accessTree (fs_drop_freq k s)"
    "needTimeStamp s' = needTimeStamp s"
    using fs_removeKey_canon [OF assms(3) k(2,3)] s' k(1) by (auto simp: Let_def fs_drop_freq_def)
  have inv: "fs_inv s'"
    using fs_drop_freq_inv [OF assms(1), of k] fr by (simp add: fs_inv_def fs_drop_freq_def)
  have "ts_inv s'"
  proof (rule ts_invI)
    show "um_ok (uniqueItemWithTimeStamp s')"
      using fs_removeKey_canon [OF assms(3) k(2,3)] s' k(1) ts_invD(1) [OF assms(2)] by (auto simp: Let_def)
    show "sorted (um_at [] (uniqueItemWithTimeStamp s') j) \<and> distinct (um_at [] (uniqueItemWithTimeStamp s') j)" for j
      using fs_removeKey_unique [OF assms(3) k(2,3), of s' j] s' k(1) ts_invD(2,3) [OF assms(2)]
      by (simp add: sorted_remove1)
    show "canon l" if "um_has (accessFreqs s') l" for l
      using that fr(1) ts_invD(4) [OF assms(2)] by simp
    show "u \<in> set (um_at [] (uniqueItemWithTimeStamp s') j) \<longleftrightarrow> um_has (accessFreqs s') (ts_key j u)" for j u
      using fs_removeKey_unique [OF assms(3) k(2,3), of s' j] s' k(1) fr(1) ts_invD(3,5) [OF assms(2)] by auto
  qed
  with s' inv fr assms(3) that show ?thesis by blast
qed

text \<open>For an item with buckets, the oldest key is the bucket with the least time stamp.\<close>

lemma fs_getOldestKey_spec:
  assumes "ts_inv s" and "canon cur" and "fs_getOldestKey del cur s = Inr (old, s')"
  obtains i t0 where "old = ts_key i t0" "s' = s" "um_has (accessFreqs s) old"
    "\<exists>t. cur = ts_key i t" "\<And>t. um_has (accessFreqs s) (ts_key i t) \<Longrightarrow> t0 \<le> t"
proof -
  obtain i t where k: "cur = ts_key i t" "wf_item i" "fits64 t" "get_key_timestamp_split cur = Inr (i, t)"
    using assms(2) by (rule canonE)
  obtain t0 ts where ts: "um_at [] (uniqueItemWithTimeStamp s) i = t0 # ts"
    and old: "old = ts_key i t0" and s': "s' = s\<lparr>uniqueItemWithTimeStamp := um_touch [] i (uniqueItemWithTimeStamp s)\<rparr>"
    using assms(3) k(4) by (auto simp: fs_getOldestKey_def Let_def um_at_touch ts_key_def split: list.splits)
  have "um_has (uniqueItemWithTimeStamp s) i" by (rule um_at_has [of "[]"]) (simp add: ts)
  with s' have "s' = s" by simp
  moreover have "t0 \<le> u" if "um_has (accessFreqs s) (ts_key i u)" for u
    using that ts ts_invD(2,5) [OF assms(1)] by (metis set_ConsD list.set_intros(1) sorted_simps(2) order_refl)
  moreover have "um_has (accessFreqs s) old"
    using old ts ts_invD(5) [OF assms(1), of t0 i] by simp
  ultimately show ?thesis using that old k(1) by blast
qed

text \<open>It is defined exactly when the item of the current key has a bucket.\<close>

lemma fs_getOldestKey_defined:
  assumes "ts_inv s" and "canon (ts_key i t)" and "um_has (accessFreqs s) (ts_key i t')"
  shows "\<exists>old. fs_getOldestKey del (ts_key i t) s = Inr (old, s)"
proof -
  have g: "get_key_timestamp_split (ts_key i t) = Inr (i, t)"
    using assms(2) by (simp add: get_key_timestamp_split_ts_key)
  have "t' \<in> set (um_at [] (uniqueItemWithTimeStamp s) i)" using assms(1,3) ts_invD(5) by blast
  then obtain t0 ts where "um_at [] (uniqueItemWithTimeStamp s) i = t0 # ts"
    by (cases "um_at [] (uniqueItemWithTimeStamp s) i") auto
  moreover from this have "um_has (uniqueItemWithTimeStamp s) i" by (intro um_at_has [of "[]"]) simp
  ultimately show ?thesis by (simp add: fs_getOldestKey_def g Let_def um_at_touch)
qed

text \<open>The index provides the contract of the batch builder.\<close>

interpretation fs_index: access_index fs_inv "\<lambda>s. um_find (accessFreqs s)" fs_setFrequency fs_getKeyWithMinFrequency
proof
  fix s k v k' f'
  assume s: "fs_inv s"
  show "fs_inv (fs_setFrequency k v s)" using fs_setFrequency_inv [OF s] .
  show "um_find (accessFreqs (fs_setFrequency k v s)) = (um_find (accessFreqs s))(k \<mapsto> v)"
    by (simp add: fun_eq_iff)
  show "finite (dom (um_find (accessFreqs s)))" using finite_dom_map_of [of "accessFreqs s"] by (simp add: dom_def um_find_def)
  assume k': "um_find (accessFreqs s) k' = Some f'"
  then have "(k', f') \<in> set (accessTree s)" using fs_invD(3) [OF s] by blast
  then obtain k f t where "accessTree s = (k, f) # t" by (cases "accessTree s") auto
  then have "fs_getKeyWithMinFrequency s = Inr k" by (simp add: fs_getKeyWithMinFrequency_def)
  then show "\<exists>k f. fs_getKeyWithMinFrequency s = Inr k \<and> um_find (accessFreqs s) k = Some f \<and> f \<le> f'"
    using fs_min_is_least [OF s _ k'] by blast
qed

end
