(* ===== verification/Ts_Values.thy ===== *)
theory Ts_Values
  imports Cpp_Strings
begin

text \<open>
  Values and names of the time-series store: the data type encoded in a key (\<open>utils/utils.h\<close>,
  \<open>utils/utils.cpp\<close>), the binary form of a bucket of data points (\<open>BinarySerializer\<close> in
  \<open>utils/TS_value_master.h\<close>), the generator of buckets and queries (\<open>TimeSeriesDataGenerator\<close>,
  \<open>TimeSeriesDataMap\<close> there), and the composed keys of \<open>utils/TS_key_master.h\<close>.
  A cell of four bytes is a 32-bit word; an \<open>int\<close> is its signed reading, a \<open>float\<close> its bit pattern.
  The platform is little endian.  Random draws are arguments.
\<close>

subsection \<open>Data types in keys\<close>

definition type2size :: "(string, nat) umap" where
  "type2size = [(''int'', 4), (''float'', 4), (''bool'', 1)]"

definition get_data_type :: "string \<Rightarrow> string" where
  "get_data_type key =
     (case str_find key CHR ''&'' 0 of None \<Rightarrow> ''string''
      | Some a \<Rightarrow> (case str_find key CHR ''&'' (a + 1) of None \<Rightarrow> ''string''
          | Some b \<Rightarrow> take (b - a - 1) (drop (a + 1) key)))"

definition get_data_type_size :: "string \<Rightarrow> nat res" where
  "get_data_type_size key =
     (case um_find type2size (get_data_type key) of None \<Rightarrow> Inl Invalid_argument | Some n \<Rightarrow> Inr n)"

subsection \<open>BinarySerializer\<close>

definition le_bytes :: "32 word \<Rightarrow> string" where
  "le_bytes w = map (\<lambda>i. char_of (unat w div 256 ^ i)) [0, 1, 2, 3]"

definition serialize :: "32 word list \<Rightarrow> string" where
  "serialize data = concat (map le_bytes data)"

fun cells :: "string \<Rightarrow> 32 word list" where
  "cells (a # b # c # d # r) =
     of_nat (of_char a + 256 * (of_char b + 256 * (of_char c + 256 * of_char d))) # cells r"
| "cells _ = []"

text \<open>
  \<open>deserialize<T>\<close>: a zeroed vector of \<open>size / 4 + 1\<close> cells receives the bytes, and its last cell
  is cut off.
\<close>

definition deserialize :: "string \<Rightarrow> 32 word list" where
  "deserialize s =
     butlast (cells (s @ replicate (4 * (length s div 4 + 1) - length s) (CHR 0x00)))"

definition serialize_bool :: "bool list \<Rightarrow> string" where
  "serialize_bool data = map (\<lambda>b. if b then CHR 0x01 else CHR 0x00) data"

definition deserialize_bool :: "string \<Rightarrow> bool list" where
  "deserialize_bool s = map (\<lambda>c. c \<noteq> CHR 0x00) s"

subsection \<open>TimeSeriesDataGenerator and TimeSeriesDataMap\<close>

definition generateData :: "nat \<Rightarrow> (nat \<Rightarrow> 'a) \<Rightarrow> nat \<Rightarrow> 'a list res" where
  "generateData sizeof_T dist object_size =
     (let num_elements = object_size div sizeof_T in
      if object_size mod sizeof_T \<noteq> 0 then Inl Invalid_argument
      else Inr (map dist [0..<num_elements]))"

text \<open>\<open>dist\<close> and \<open>distb\<close> stand for the successive draws of the cell and of the boolean distribution.\<close>

definition generateDataForKey :: "(nat \<Rightarrow> 32 word) \<Rightarrow> (nat \<Rightarrow> bool) \<Rightarrow> nat \<Rightarrow> string \<Rightarrow> string res" where
  "generateDataForKey dist distb object_size key =
     (let dataType = get_data_type key in
      if dataType = ''float'' then bindR (generateData 4 dist object_size) (\<lambda>d. Inr (serialize d))
      else if dataType = ''int'' then bindR (generateData 4 dist object_size) (\<lambda>d. Inr (serialize d))
      else if dataType = ''bool'' then bindR (generateData 1 distb object_size) (\<lambda>d. Inr (serialize_bool d))
      else Inl Invalid_argument)"

definition generate_TS_tracefile_put_query ::
  "(nat \<Rightarrow> 32 word) \<Rightarrow> (nat \<Rightarrow> bool) \<Rightarrow> nat \<Rightarrow> string \<Rightarrow> int \<Rightarrow> (string \<times> string) res" where
  "generate_TS_tracefile_put_query dist distb object_size key start_timestamp =
     bindR (generateDataForKey dist distb object_size key)
       (\<lambda>value. Inr (key @ ''@'' @ to_string start_timestamp, value))"

text \<open>
  The two exponential samples, already scaled to time stamps, are \<open>sample1\<close> and \<open>sample2\<close>; the code
  clips each at the latest time stamp and puts them in ascending order.
\<close>

definition generate_TS_tracefile_get_query :: "string \<Rightarrow> int \<Rightarrow> int \<Rightarrow> int \<Rightarrow> string \<times> string" where
  "generate_TS_tracefile_get_query key latest_timestamp sample1 sample2 =
     (let first_int = min sample1 latest_timestamp; second_int = min sample2 latest_timestamp;
          lo = (if first_int > second_int then second_int else first_int);
          hi = (if first_int > second_int then first_int else second_int)
      in (key @ ''@'' @ to_string lo @ ''@'' @ to_string hi, ''''))"

subsection \<open>KeyGenerationDecomposition\<close>

record key_parts =
  item_id :: string
  user_id :: string
  timestamp :: string
  kg_key :: string

definition USER_ID_LENGTH :: nat where "USER_ID_LENGTH = 16"

definition set_user_id :: "string \<Rightarrow> string" where
  "set_user_id new_user_id =
     (if USER_ID_LENGTH < length new_user_id then take USER_ID_LENGTH new_user_id
      else replicate (USER_ID_LENGTH - length new_user_id) CHR ''0'' @ new_user_id)"

definition kg_compose :: "string \<Rightarrow> string \<Rightarrow> string \<Rightarrow> key_parts" where
  "kg_compose item new_user ts =
     \<lparr>item_id = item, user_id = set_user_id new_user, timestamp = ts,
      kg_key = item @ ''@'' @ set_user_id new_user @ ''@'' @ ts\<rparr>"

definition kg_compose_now :: "int \<Rightarrow> string \<Rightarrow> string \<Rightarrow> key_parts" where
  "kg_compose_now now item new_user =
     \<lparr>item_id = item, user_id = set_user_id new_user, timestamp = to_string now,
      kg_key = item @ ''@'' @ set_user_id new_user\<rparr>"

text \<open>
  The decomposing constructor.  The second argument of \<open>substr\<close> is a length: the code passes the
  position of the second separator there.  \<open>npos + 1\<close> wraps to 0.
\<close>

definition pos_after :: "nat option \<Rightarrow> nat" where
  "pos_after p = (case p of None \<Rightarrow> 0 | Some i \<Rightarrow> i + 1)"

definition substr_opt :: "string \<Rightarrow> nat \<Rightarrow> nat option \<Rightarrow> string res" where
  "substr_opt s pos n = (case n of None \<Rightarrow> substr_from s pos | Some m \<Rightarrow> substr s pos m)"

definition kg_decompose :: "string \<Rightarrow> key_parts res" where
  "kg_decompose k =
     (let at1 = str_find k CHR ''@'' 0; at2 = str_find k CHR ''@'' (pos_after at1) in
      bindR (substr_opt k 0 at1) (\<lambda>item.
      bindR (substr_opt k (pos_after at1) at2) (\<lambda>user.
      bindR (substr_from k (pos_after at2)) (\<lambda>ts.
      Inr \<lparr>item_id = item, user_id = user, timestamp = ts, kg_key = k\<rparr>))))"

subsection \<open>Laws\<close>

lemma length_le_bytes [simp]: "length (le_bytes w) = 4"
  by (simp add: le_bytes_def)

lemma length_serialize [simp]: "length (serialize data) = 4 * length data"
  by (induction data) (simp_all add: serialize_def)

lemma nat_bytes: "n < 256 ^ 4 \<Longrightarrow>
  n mod 256 + 256 * (n div 256 mod 256 + 256 * (n div 256 ^ 2 mod 256 + 256 * (n div 256 ^ 3 mod 256))) = (n::nat)"
proof -
  assume "n < 256 ^ 4"
  then have "n div 256 ^ 3 < 256" by (simp add: less_mult_imp_div_less)
  then have "n div 256 ^ 3 mod 256 = n div 256 ^ 3" by simp
  moreover have "n div 256 ^ 2 mod 256 + 256 * (n div 256 ^ 3) = n div 256 ^ 2"
    using mod_mult_div_eq [of "n div 256 ^ 2" 256] by (simp add: div_mult2_eq [symmetric])
  moreover have "n div 256 mod 256 + 256 * (n div 256 ^ 2) = n div 256"
    using mod_mult_div_eq [of "n div 256" 256] by (simp add: div_mult2_eq [symmetric])
  moreover have "n mod 256 + 256 * (n div 256) = n" by simp
  ultimately show ?thesis by presburger
qed

lemma cells_le_bytes: "cells (le_bytes w @ r) = w # cells r"
proof -
  have "unat w < 256 ^ 4" using unsigned_less [of w] by simp
  then have "of_nat (unat w mod 256 + 256 * (unat w div 256 mod 256 + 256 *
      (unat w div 256 ^ 2 mod 256 + 256 * (unat w div 256 ^ 3 mod 256)))) = w"
    by (simp only: nat_bytes) simp
  then show ?thesis by (simp add: le_bytes_def)
qed

lemma cells_serialize: "cells (serialize data @ r) = data @ cells r"
  by (induction data) (simp_all add: serialize_def cells_le_bytes)

lemma length_cells: "length (cells s) = length s div 4"
  by (induction s rule: cells.induct) auto

lemma cells_take: "length s mod 4 = 0 \<Longrightarrow> cells (s @ r) = cells s @ cells r"
  by (induction s rule: cells.induct) auto

text \<open>Only whole cells survive: deserialising reads the longest prefix of whole cells.\<close>

lemma deserialize_eq: "deserialize s = cells (take (4 * (length s div 4)) s)"
proof -
  let ?n = "4 * (length s div 4)"
  let ?z = "replicate (4 + ?n - length s) (CHR 0x00)"
  have n: "?n \<le> length s" "length s < 4 + ?n" by auto
  have "cells (s @ ?z) = cells (take ?n s @ (drop ?n s @ ?z))" by (simp flip: append_assoc)
  also have "\<dots> = cells (take ?n s) @ cells (drop ?n s @ ?z)" using n by (intro cells_take) simp
  finally have c: "cells (s @ ?z) = cells (take ?n s) @ cells (drop ?n s @ ?z)" .
  have "length (cells (drop ?n s @ ?z)) = 1" using n by (simp add: length_cells)
  then obtain w where "cells (drop ?n s @ ?z) = [w]" by (cases "cells (drop ?n s @ ?z)") auto
  with c show ?thesis by (simp add: deserialize_def)
qed

lemma deserialize_length: "length (deserialize s) = length s div 4"
  by (simp add: deserialize_eq length_cells)

lemma deserialize_serialize_cells: "deserialize (serialize data) = data"
  using cells_serialize [of data "[]"] by (simp add: deserialize_eq)

lemma serialize_bool_inverse: "deserialize_bool (serialize_bool data) = data"
  by (induction data) (auto simp: serialize_bool_def deserialize_bool_def)

lemma length_set_user_id: "length (set_user_id u) = 16"
  by (simp add: set_user_id_def USER_ID_LENGTH_def)

end
