(* ===== verification/Running_Keys.thy ===== *)
theory Running_Keys
  imports Ts_Values
begin

text \<open>
  The table of keys in flight (\<open>proxy/src/ThreadSafeUnorderedMap.h\<close>).  A user GET is split into one
  request per bucket key; the table remembers which request waits for which keys, collects the
  values that have arrived, and resolves the promise of a request with the sum of its buckets once
  all of them are there.  Each operation holds the mutex from start to end and is one step here.

  A promise is a number, and the promise store maps it to the value set, if any.  The additions of
  the \<open>float\<close> case and its decimal text are the \<open>float_ops\<close> argument.
\<close>

subsection \<open>State\<close>

record running =
  m_map :: "(string, nat option list) umap"
  get_map :: "(string, int list) umap"
  request_map :: "(int, string list \<times> nat option) umap"
  get_cache :: "(string, string) umap"

type_synonym promise_store = "(nat, string) umap"

record float_ops =
  fl_add :: "32 word \<Rightarrow> 32 word \<Rightarrow> 32 word"
  fl_to_string :: "32 word \<Rightarrow> string"

definition running_empty :: running where
  "running_empty = \<lparr>m_map = [], get_map = [], request_map = [], get_cache = []\<rparr>"

text \<open>\<open>promise->set_value(v)\<close> throws when the promise already has a value.\<close>

definition set_value :: "nat \<Rightarrow> string \<Rightarrow> promise_store \<Rightarrow> promise_store res" where
  "set_value p v ps = (if um_has ps p then Inl Future_already_satisfied else Inr (um_set p v ps))"

subsection \<open>Registering keys\<close>

definition rk_present :: "running \<Rightarrow> string \<Rightarrow> bool" where
  "rk_present r key = (um_has (m_map r) key \<or> um_has (get_map r) key)"

definition insertIfNotPresent :: "string \<Rightarrow> running \<Rightarrow> bool \<times> running" where
  "insertIfNotPresent key r =
     (rk_present r key, r\<lparr>m_map := um_set key (um_at [] (m_map r) key @ [None]) (m_map r)\<rparr>)"

definition insertIfNotPresent_get :: "string \<Rightarrow> nat option \<Rightarrow> int \<Rightarrow> running \<Rightarrow> bool \<times> running" where
  "insertIfNotPresent_get key value request_id r =
     (rk_present r key,
      r\<lparr>get_map := um_set key (insort_insert request_id (um_at [] (get_map r) key)) (get_map r),
        request_map := um_set request_id
          (fst (um_at ([], None) (request_map r) request_id) @ [key], value) (request_map r)\<rparr>)"

definition insert_cache :: "int \<Rightarrow> string \<Rightarrow> string \<Rightarrow> nat option \<Rightarrow> running \<Rightarrow> running res" where
  "insert_cache request_id key value p r =
     (if um_has (get_cache r) key \<and> um_at '''' (get_cache r) key \<noteq> value then Inl (Exit 1)
      else let rm = (if \<not> um_has (request_map r) request_id then um_set request_id ([], p) (request_map r)
                     else request_map r);
               old = um_at ([], None) rm request_id
           in Inr (r\<lparr>get_cache := um_set key value (get_cache r),
                     request_map := um_set request_id (fst old @ [key], snd old) rm\<rparr>))"

definition rk_size :: "running \<Rightarrow> nat" where
  "rk_size r = length (m_map r)"

subsection \<open>Resolving requests\<close>

text \<open>\<open>request_map[request_id]\<close> inserts an empty request when there is none.\<close>

definition isFulfilled :: "int \<Rightarrow> running \<Rightarrow> bool \<times> running" where
  "isFulfilled request_id r =
     (let rm = um_touch ([], None) request_id (request_map r) in
      (list_all (um_has (get_cache r)) (fst (um_at ([], None) rm request_id)), r\<lparr>request_map := rm\<rparr>))"

definition deserializeAndSumInt :: "string list \<Rightarrow> (string \<Rightarrow> string) \<Rightarrow> int res" where
  "deserializeAndSumInt keys val =
     foldR (\<lambda>key total. foldR (\<lambda>dp total. add32 total (sint dp)) (deserialize (val key)) total) keys 0"

definition deserializeAndSumFloat :: "float_ops \<Rightarrow> string list \<Rightarrow> (string \<Rightarrow> string) \<Rightarrow> 32 word" where
  "deserializeAndSumFloat F keys val =
     fold (\<lambda>key total. fold (\<lambda>dp total. fl_add F total dp) (deserialize (val key)) total) keys 0"

definition deserializeAndSumBool :: "string list \<Rightarrow> (string \<Rightarrow> string) \<Rightarrow> int res" where
  "deserializeAndSumBool keys val =
     foldR (\<lambda>key total. foldR (\<lambda>dp total. add32 total (if dp then 1 else 0)) (deserialize_bool (val key)) total)
       keys 0"

text \<open>What a request is answered with, given the values of its keys.\<close>

definition rk_answer :: "float_ops \<Rightarrow> string list \<Rightarrow> (string \<Rightarrow> string) \<Rightarrow> string res" where
  "rk_answer F keys val =
     (case keys of [] \<Rightarrow> Inl Undefined_behaviour
      | k # _ \<Rightarrow>
         (let data_type = get_data_type k in
          if data_type = ''int'' then bindR (deserializeAndSumInt keys val) (\<lambda>t. Inr (to_string t))
          else if data_type = ''float'' then Inr (fl_to_string F (deserializeAndSumFloat F keys val))
          else bindR (deserializeAndSumBool keys val) (\<lambda>t. Inr (to_string t))))"

definition clearPromises :: "float_ops \<Rightarrow> int \<Rightarrow> running \<times> promise_store \<Rightarrow> (running \<times> promise_store) res" where
  "clearPromises F request_id st =
     (let r = fst st; req = um_at ([], None) (request_map r) request_id;
          r1 = r\<lparr>request_map := um_touch ([], None) request_id (request_map r),
                 get_cache := fold (um_touch '''') (fst req) (get_cache r)\<rparr>
      in bindR (rk_answer F (fst req) (um_at '''' (get_cache r))) (\<lambda>total.
         case snd req of None \<Rightarrow> Inl Undefined_behaviour
         | Some p \<Rightarrow> bindR (set_value p total (snd st)) (\<lambda>ps. Inr (r1, ps))))"

fun clear_loop :: "float_ops \<Rightarrow> int list \<Rightarrow> running \<times> promise_store \<Rightarrow> (running \<times> promise_store) res" where
  "clear_loop F [] st = Inr st"
| "clear_loop F (request_id # ids) st =
     (let (ful, r1) = isFulfilled request_id (fst st) in
      if ful then
        bindR (clearPromises F request_id (r1, snd st)) (\<lambda>st2.
          let r3 = (fst st2)\<lparr>request_map := um_erase request_id (request_map (fst st2))\<rparr> in
          if request_map r3 = [] then Inr (r3\<lparr>get_map := [], get_cache := []\<rparr>, snd st2)
          else clear_loop F ids (r3, snd st2))
      else clear_loop F ids (r1, snd st))"

definition tryClearPromises ::
  "float_ops \<Rightarrow> string \<Rightarrow> string \<Rightarrow> running \<times> promise_store \<Rightarrow> (running \<times> promise_store) res" where
  "tryClearPromises F key value st =
     (let r1 = (fst st)\<lparr>m_map := um_erase key (m_map (fst st))\<rparr> in
      if um_has (get_map r1) key
      then clear_loop F (um_at [] (get_map r1) key)
             (r1\<lparr>get_cache := um_set key value (get_cache r1)\<rparr>, snd st)
      else Inr (r1, snd st))"

text \<open>\<open>ord\<close> is the iteration order over the unordered map of requests.\<close>

definition tryClearAllPromises ::
  "(int list \<Rightarrow> int list) \<Rightarrow> float_ops \<Rightarrow> running \<times> promise_store \<Rightarrow> (running \<times> promise_store) res" where
  "tryClearAllPromises ord F st =
     bindR (foldR (\<lambda>id (to_erase, st1).
              let (ful, r1) = isFulfilled id (fst st1) in
              if ful then bindR (clearPromises F id (r1, snd st1)) (\<lambda>st2. Inr (to_erase @ [id], st2))
              else Inr (to_erase, (r1, snd st1)))
            (ord (um_keys (request_map (fst st)))) ([], st))
       (\<lambda>(to_erase, st3).
          let r4 = (fst st3)\<lparr>request_map := fold um_erase to_erase (request_map (fst st3))\<rparr> in
          Inr (if request_map r4 = [] then r4\<lparr>get_map := [], get_cache := []\<rparr> else r4, snd st3))"

subsection \<open>Well-formedness\<close>

text \<open>
  Every request has a key and an open promise of its own; a key that has not arrived is registered
  for every request that needs it, and only for requests that still exist.
\<close>

definition rk_wf :: "running \<Rightarrow> promise_store \<Rightarrow> bool" where
  "rk_wf r ps \<longleftrightarrow> um_ok (request_map r) \<and> um_ok (get_map r) \<and>
     (\<forall>k. distinct (um_at [] (get_map r) k)) \<and>
     (\<forall>id ks p. um_find (request_map r) id = Some (ks, p) \<longrightarrow>
        ks \<noteq> [] \<and> (\<exists>q. p = Some q \<and> \<not> um_has ps q) \<and>
        (\<forall>k \<in> set ks. um_has (get_cache r) k \<or> id \<in> set (um_at [] (get_map r) k))) \<and>
     (\<forall>id id' ks ks' q. um_find (request_map r) id = Some (ks, Some q) \<longrightarrow>
        um_find (request_map r) id' = Some (ks', Some q) \<longrightarrow> id = id') \<and>
     (\<forall>k id. id \<in> set (um_at [] (get_map r) k) \<longrightarrow> \<not> um_has (get_cache r) k \<longrightarrow>
        (\<exists>ks p. um_find (request_map r) id = Some (ks, p) \<and> k \<in> set ks))"

text \<open>A request waits when one of its keys has not arrived.\<close>

definition waits :: "running \<Rightarrow> int \<Rightarrow> bool" where
  "waits r i = (\<not> list_all (um_has (get_cache r)) (fst (um_at ([], None) (request_map r) i)))"

definition idle :: "running \<Rightarrow> bool" where
  "idle r \<longleftrightarrow> request_map r = [] \<and> get_map r = [] \<and> get_cache r = []"

subsection \<open>Laws\<close>

lemma rk_answer_cong:
  assumes "\<And>k. k \<in> set ks \<Longrightarrow> val k = val' k"
  shows "rk_answer F ks val = rk_answer F ks val'"
proof -
  have "deserializeAndSumInt ks val = deserializeAndSumInt ks val'"
    unfolding deserializeAndSumInt_def by (rule foldR_cong) (simp add: assms)
  moreover have "deserializeAndSumBool ks val = deserializeAndSumBool ks val'"
    unfolding deserializeAndSumBool_def by (rule foldR_cong) (simp add: assms)
  moreover have "deserializeAndSumFloat F ks val = deserializeAndSumFloat F ks val'"
    unfolding deserializeAndSumFloat_def by (rule fold_cong) (simp_all add: assms)
  ultimately show ?thesis by (simp only: rk_answer_def)
qed

lemma fold_touch_present:
  "(\<And>k. k \<in> set ks \<Longrightarrow> um_has m k) \<Longrightarrow> fold (um_touch d) ks m = m"
  by (induction ks) auto

lemma isFulfilled_known:
  "um_has (request_map r) i \<Longrightarrow> isFulfilled i r = (\<not> waits r i, r)"
  by (simp add: isFulfilled_def waits_def Let_def)

text \<open>A known request all of whose keys have arrived is answered from the arrived values.\<close>

lemma clearPromises_known:
  assumes "um_find (request_map r) i = Some (ks, Some q)" and "\<not> waits r i" and "\<not> um_has ps q"
    and "\<And>k v. um_find (get_cache r) k = Some v \<Longrightarrow> v = V k" and "rk_answer F ks V = Inr a"
  shows "clearPromises F i (r, ps) = Inr (r, um_set q a ps)"
proof -
  have req: "um_at ([], None) (request_map r) i = (ks, Some q)" using assms(1) by (rule um_at_conv)
  have has: "um_has (request_map r) i" using assms(1) by (simp add: um_has_def)
  have gc: "um_has (get_cache r) k" if "k \<in> set ks" for k
    using assms(2) req that by (auto simp: waits_def list_all_iff)
  have "rk_answer F ks (um_at '''' (get_cache r)) = rk_answer F ks V"
    by (rule rk_answer_cong) (metis assms(4) gc um_at_conv um_has_conv)
  then show ?thesis
    using assms(3,5) req has gc by (simp add: clearPromises_def Let_def set_value_def fold_touch_present)
qed

text \<open>
  The loop invariant of a resolution that started from the requests \<open>rm0\<close> and the promises \<open>ps0\<close>
  and delivers the values \<open>V\<close>: \<open>rem\<close> are the requests still to be examined for the current key.
\<close>

definition clear_inv :: "float_ops \<Rightarrow> (string \<Rightarrow> string) \<Rightarrow> (int, string list \<times> nat option) umap \<Rightarrow>
    promise_store \<Rightarrow> int list \<Rightarrow> running \<Rightarrow> promise_store \<Rightarrow> bool" where
  "clear_inv F V rm0 ps0 rem r ps \<longleftrightarrow>
     rk_wf r ps \<and> distinct rem \<and> (\<forall>i \<in> set rem. um_has (request_map r) i) \<and>
     (\<forall>i. um_has (request_map r) i \<longrightarrow> i \<notin> set rem \<longrightarrow> waits r i) \<and>
     (\<forall>k v. um_find (get_cache r) k = Some v \<longrightarrow> v = V k) \<and>
     (\<forall>i x. um_find (request_map r) i = Some x \<longrightarrow> um_find rm0 i = Some x) \<and>
     (\<forall>i ks q. um_find rm0 i = Some (ks, Some q) \<longrightarrow> \<not> um_has (request_map r) i \<longrightarrow>
        (\<exists>a. rk_answer F ks V = Inr a \<and> um_find ps q = Some a)) \<and>
     (\<forall>q. (\<forall>i ks. um_find rm0 i = Some (ks, Some q) \<longrightarrow> um_has (request_map r) i) \<longrightarrow>
        um_find ps q = um_find ps0 q)"

lemma clear_invD:
  assumes "clear_inv F V rm0 ps0 rem r ps"
  shows "rk_wf r ps" "distinct rem" "i \<in> set rem \<Longrightarrow> um_has (request_map r) i"
    "um_has (request_map r) i \<Longrightarrow> i \<notin> set rem \<Longrightarrow> waits r i"
    "um_find (get_cache r) k = Some v \<Longrightarrow> v = V k"
    "um_find (request_map r) i = Some x \<Longrightarrow> um_find rm0 i = Some x"
    "um_find rm0 i = Some (ks, Some q) \<Longrightarrow> \<not> um_has (request_map r) i \<Longrightarrow>
       \<exists>a. rk_answer F ks V = Inr a \<and> um_find ps q = Some a"
    "(\<And>i ks. um_find rm0 i = Some (ks, Some q) \<Longrightarrow> um_has (request_map r) i) \<Longrightarrow> um_find ps q = um_find ps0 q"
  using assms unfolding clear_inv_def by blast+

lemma rk_wfD:
  assumes "rk_wf r ps"
  shows "um_ok (request_map r)" "distinct (um_at [] (get_map r) k)"
    "um_find (request_map r) i = Some (ks, p) \<Longrightarrow> ks \<noteq> [] \<and> (\<exists>q. p = Some q \<and> \<not> um_has ps q)"
    "um_find (request_map r) i = Some (ks, p) \<Longrightarrow> k \<in> set ks \<Longrightarrow> \<not> um_has (get_cache r) k \<Longrightarrow>
       i \<in> set (um_at [] (get_map r) k)"
    "um_find (request_map r) i = Some (ks, Some q) \<Longrightarrow> um_find (request_map r) j = Some (ks', Some q) \<Longrightarrow> i = j"
    "i \<in> set (um_at [] (get_map r) k) \<Longrightarrow> \<not> um_has (get_cache r) k \<Longrightarrow>
       \<exists>ks p. um_find (request_map r) i = Some (ks, p) \<and> k \<in> set ks"
  using assms unfolding rk_wf_def by blast+

lemma waits_iff:
  "um_find (request_map r) i = Some (ks, p) \<Longrightarrow> waits r i \<longleftrightarrow> (\<exists>k \<in> set ks. \<not> um_has (get_cache r) k)"
  by (auto simp: waits_def um_at_def list_all_iff)

lemma waits_erase: "j \<noteq> i \<Longrightarrow> waits (r\<lparr>request_map := um_erase i (request_map r)\<rparr>) j = waits r j"
  by (simp add: waits_def um_at_def)

text \<open>Dropping an answered request keeps the table well formed.\<close>

lemma rk_wf_answer:
  assumes "rk_wf r ps" and "um_find (request_map r) i = Some (ks, Some q)" and "\<not> waits r i"
  shows "rk_wf (r\<lparr>request_map := um_erase i (request_map r)\<rparr>) (um_set q a ps)"
proof -
  have d: "\<exists>ks' p. um_find (request_map r) j = Some (ks', p) \<and> k \<in> set ks' \<and> j \<noteq> i"
    if "j \<in> set (um_at [] (get_map r) k)" "\<not> um_has (get_cache r) k" for j k
    using rk_wfD(6) [OF assms(1) that] assms(2,3) that(2) by (auto simp: waits_iff)
  have u: "q' \<noteq> q" if "um_find (request_map r) j = Some (ks', Some q')" "j \<noteq> i" for j ks' q'
    using rk_wfD(5) [OF assms(1,2)] that by blast
  show ?thesis
    unfolding rk_wf_def
  proof (intro conjI allI impI)
    fix k j assume "j \<in> set (um_at [] (get_map (r\<lparr>request_map := um_erase i (request_map r)\<rparr>)) k)"
      "\<not> um_has (get_cache (r\<lparr>request_map := um_erase i (request_map r)\<rparr>)) k"
    then show "\<exists>ks p. um_find (request_map (r\<lparr>request_map := um_erase i (request_map r)\<rparr>)) j = Some (ks, p) \<and> k \<in> set ks"
      using d [of j k] by auto
  next
    fix j ks' p
    assume "um_find (request_map (r\<lparr>request_map := um_erase i (request_map r)\<rparr>)) j = Some (ks', p)"
    then have j: "j \<noteq> i" "um_find (request_map r) j = Some (ks', p)" by (auto split: if_splits)
    then show "\<exists>q'. p = Some q' \<and> \<not> um_has (um_set q a ps) q'"
      using rk_wfD(3) [OF assms(1) j(2)] u [of j ks'] by auto
  qed (use assms(1) in \<open>auto simp: rk_wf_def split: if_splits\<close>)
qed

lemma clear_inv_answer:
  assumes "clear_inv F V rm0 ps0 (i # rem) r ps"
    and "um_find (request_map r) i = Some (ks, Some q)" and "\<not> waits r i" and "rk_answer F ks V = Inr a"
  shows "clear_inv F V rm0 ps0 rem (r\<lparr>request_map := um_erase i (request_map r)\<rparr>) (um_set q a ps)"
proof -
  note D = clear_invD [OF assms(1)]
  let ?r = "r\<lparr>request_map := um_erase i (request_map r)\<rparr>"
  have wf: "rk_wf ?r (um_set q a ps)" using rk_wf_answer [OF D(1) assms(2,3)] .
  have w: "waits ?r j" if "um_has (request_map ?r) j" "j \<notin> set rem" for j
    using that D(4) [of j] by (simp add: waits_erase)
  have ans: "\<exists>b. rk_answer F ks' V = Inr b \<and> um_find (um_set q a ps) q' = Some b"
    if h: "um_find rm0 j = Some (ks', Some q')" "\<not> um_has (request_map ?r) j" for j ks' q'
  proof (cases "j = i")
    case True
    then show ?thesis using h(1) D(6) [OF assms(2)] assms(4) by simp
  next
    case False
    then obtain b where b: "rk_answer F ks' V = Inr b" "um_find ps q' = Some b"
      using h(2) D(7) [OF h(1)] by auto
    moreover have "q' \<noteq> q" using b(2) rk_wfD(3) [OF D(1) assms(2)] by (auto simp: um_has_def)
    ultimately show ?thesis by simp
  qed
  have frame: "um_find (um_set q a ps) q' = um_find ps0 q'"
    if h: "\<forall>j ks'. um_find rm0 j = Some (ks', Some q') \<longrightarrow> um_has (request_map ?r) j" for q'
  proof -
    have "q' \<noteq> q" using h D(6) [OF assms(2)] by auto
    moreover have "um_find ps q' = um_find ps0 q'" by (rule D(8)) (use h in auto)
    ultimately show ?thesis by simp
  qed
  show ?thesis
    unfolding clear_inv_def
  proof (intro conjI)
    show "\<forall>j\<in>set rem. um_has (request_map ?r) j" using D(2,3) by auto
    show "\<forall>j x. um_find (request_map ?r) j = Some x \<longrightarrow> um_find rm0 j = Some x" using D(6) by auto
  qed (use wf w ans frame D(2,5) in auto)
qed

text \<open>Every request can be answered from the values \<open>V\<close>: no sum of a request overflows.\<close>

definition answerable :: "float_ops \<Rightarrow> (string \<Rightarrow> string) \<Rightarrow> (int, string list \<times> nat option) umap \<Rightarrow> bool" where
  "answerable F V rm = list_all (\<lambda>(i, ks, p). is_ok (rk_answer F ks V)) rm"

lemma answerableD:
  assumes "answerable F V rm" and "um_find rm i = Some (ks, p)"
  obtains a where "rk_answer F ks V = Inr a"
proof -
  have "(i, ks, p) \<in> set rm" using assms(2) by (auto simp: um_find_def dest: map_of_SomeD)
  with assms(1) have "is_ok (rk_answer F ks V)" by (auto simp: answerable_def list_all_iff)
  with that show ?thesis by (auto simp: is_ok_iff)
qed

lemma clear_inv_idle:
  assumes "clear_inv F V rm0 ps0 rem r ps" and "request_map r = []"
  shows "clear_inv F V rm0 ps0 [] (r\<lparr>get_map := [], get_cache := []\<rparr>) ps"
  using assms unfolding clear_inv_def rk_wf_def by (auto simp: um_at_def)

lemma clear_inv_skip:
  assumes "clear_inv F V rm0 ps0 (i # rem) r ps" and "waits r i"
  shows "clear_inv F V rm0 ps0 rem r ps"
  using assms unfolding clear_inv_def by auto

text \<open>
  Examining the requests of one key: no error is reached, and either the two key tables are
  unchanged or every request has been answered and all tables are empty.
\<close>

lemma clear_loop_ok:
  assumes "clear_inv F V rm0 ps0 ids r ps"
    and "answerable F V rm0"
  shows "\<exists>r' ps'. clear_loop F ids (r, ps) = Inr (r', ps') \<and> clear_inv F V rm0 ps0 [] r' ps' \<and>
    m_map r' = m_map r \<and>
    (get_map r' = get_map r \<and> get_cache r' = get_cache r \<and> (request_map r' = [] \<longrightarrow> request_map r = [])
     \<or> idle r')"
  using assms(1)
proof (induction ids arbitrary: r ps)
  case Nil
  then show ?case by simp
next
  case (Cons i ids)
  note D = clear_invD [OF Cons.prems]
  have has: "um_has (request_map r) i" using D(3) by simp
  show ?case
  proof (cases "waits r i")
    case True
    with Cons.IH [OF clear_inv_skip [OF Cons.prems True]] has show ?thesis
      by (simp add: isFulfilled_known)
  next
    case False
    obtain ks q where req: "um_find (request_map r) i = Some (ks, Some q)" and q: "\<not> um_has ps q"
      using has rk_wfD(3) [OF D(1)] by (metis um_has_conv surj_pair)
    obtain a where a: "rk_answer F ks V = Inr a" using answerableD [OF assms(2) D(6) [OF req]] by blast
    let ?r = "r\<lparr>request_map := um_erase i (request_map r)\<rparr>"
    have inv: "clear_inv F V rm0 ps0 ids ?r (um_set q a ps)"
      using clear_inv_answer [OF Cons.prems req False a] .
    have cp: "clearPromises F i (r, ps) = Inr (r, um_set q a ps)"
      using clearPromises_known [OF req False q D(5) a] .
    show ?thesis
    proof (cases "request_map ?r = []")
      case True
      then show ?thesis
        using has False cp clear_inv_idle [OF inv True] by (simp add: isFulfilled_known idle_def)
    next
      case nonempty: False
      with Cons.IH [OF inv] has False cp show ?thesis by (simp add: isFulfilled_known) blast
    qed
  qed
qed

text \<open>The arrival of a key's value keeps the table well formed and wakes only requests of that key.\<close>

lemma rk_wf_arrive:
  assumes "rk_wf r ps"
  shows "rk_wf (r\<lparr>m_map := m, get_cache := um_set k v (get_cache r)\<rparr>) ps"
  using assms unfolding rk_wf_def by auto

lemma tryClearPromises_step:
  assumes "clear_inv F V rm0 ps0 [] r ps" and "um_has (get_map r) k \<Longrightarrow> \<not> um_has (get_cache r) k \<and> v = V k"
    and "answerable F V rm0"
  shows "\<exists>r' ps'. tryClearPromises F k v (r, ps) = Inr (r', ps') \<and> clear_inv F V rm0 ps0 [] r' ps' \<and>
    m_map r' = um_erase k (m_map r) \<and>
    (get_map r' = get_map r \<and> (request_map r' = [] \<longrightarrow> request_map r = []) \<and>
     (\<forall>k'. um_has (get_cache r') k' \<longleftrightarrow> um_has (get_cache r) k' \<or> k' = k \<and> um_has (get_map r) k)
     \<or> idle r')"
proof (cases "um_has (get_map r) k")
  case False
  have "clear_inv F V rm0 ps0 [] (r\<lparr>m_map := um_erase k (m_map r)\<rparr>) ps"
    using assms(1) by (simp add: clear_inv_def rk_wf_def waits_def)
  with False show ?thesis by (simp add: tryClearPromises_def Let_def)
next
  case True
  note D = clear_invD [OF assms(1)]
  let ?ids = "um_at [] (get_map r) k"
  let ?r = "r\<lparr>m_map := um_erase k (m_map r), get_cache := um_set k (V k) (get_cache r)\<rparr>"
  have k: "\<not> um_has (get_cache r) k" and v: "v = V k" using assms(2) [OF True] by auto
  have has: "um_has (request_map r) i" if "i \<in> set ?ids" for i
    using rk_wfD(6) [OF D(1) that k] by (auto simp: um_has_def)
  have w: "waits ?r i" if i: "um_has (request_map r) i" "i \<notin> set ?ids" for i
  proof -
    obtain ks p where req: "um_find (request_map r) i = Some (ks, p)" using i(1) by (auto simp: um_has_conv)
    have "k \<notin> set ks" using rk_wfD(4) [OF D(1) req _ k] i(2) by blast
    moreover have "waits r i" using D(4) i(1) by simp
    ultimately show ?thesis using req by (fastforce simp: waits_iff)
  qed
  have inv: "clear_inv F V rm0 ps0 ?ids ?r ps"
    unfolding clear_inv_def
  proof (intro conjI)
    show "rk_wf ?r ps" using rk_wf_arrive [OF D(1)] .
    show "distinct ?ids" using rk_wfD(2) [OF D(1)] .
  qed (use has w D(5,6,7,8) in auto)
  obtain r' ps' where r': "clear_loop F ?ids (?r, ps) = Inr (r', ps')" "clear_inv F V rm0 ps0 [] r' ps'"
    "m_map r' = m_map ?r"
    "get_map r' = get_map ?r \<and> get_cache r' = get_cache ?r \<and> (request_map r' = [] \<longrightarrow> request_map ?r = []) \<or> idle r'"
    using clear_loop_ok [OF inv assms(3)] by blast
  with True show ?thesis unfolding v by (auto simp: tryClearPromises_def Let_def)
qed

text \<open>When the value of every registered key has arrived, no request is left.\<close>

lemma none_waiting:
  assumes "clear_inv F V rm0 ps0 [] r ps" and "\<And>k. um_has (get_map r) k \<Longrightarrow> um_has (get_cache r) k"
  shows "request_map r = []"
proof -
  note D = clear_invD [OF assms(1)]
  have "\<not> um_has (request_map r) i" for i
  proof
    assume i: "um_has (request_map r) i"
    then obtain ks p where req: "um_find (request_map r) i = Some (ks, p)" by (auto simp: um_has_conv)
    obtain k where k: "k \<in> set ks" "\<not> um_has (get_cache r) k" using D(4) [OF i] waits_iff [OF req] by auto
    have "i \<in> set (um_at [] (get_map r) k)" using rk_wfD(4) [OF D(1) req k] .
    then have "um_has (get_map r) k" by (rule in_um_at_has)
    then show False using assms(2) k(2) by blast
  qed
  then show ?thesis by (metis um_empty_iff um_has_def)
qed

text \<open>Delivering a list of values, one key after the other.\<close>

lemma deliver_ok:
  assumes "clear_inv F V rm0 ps0 [] r ps" and "answerable F V rm0" and "distinct (map fst kvs)"
    and "\<forall>(k, v) \<in> set kvs. um_has (get_map r) k \<longrightarrow> \<not> um_has (get_cache r) k \<and> v = V k"
  shows "\<exists>r' ps'. foldR (\<lambda>kv. tryClearPromises F (fst kv) (snd kv)) kvs (r, ps) = Inr (r', ps') \<and>
    clear_inv F V rm0 ps0 [] r' ps' \<and> m_map r' = fold um_erase (map fst kvs) (m_map r) \<and>
    (get_map r' = get_map r \<and> (request_map r' = [] \<longrightarrow> request_map r = []) \<and>
     (\<forall>k. um_has (get_cache r') k \<longleftrightarrow> um_has (get_cache r) k \<or> k \<in> fst ` set kvs \<and> um_has (get_map r) k)
     \<or> idle r')"
  using assms(1,3,4)
proof (induction kvs arbitrary: r ps)
  case Nil
  then show ?case by simp
next
  case (Cons kv kvs)
  obtain k v where kv: "kv = (k, v)" by fastforce
  obtain r1 ps1 where r1: "tryClearPromises F k v (r, ps) = Inr (r1, ps1)" "clear_inv F V rm0 ps0 [] r1 ps1"
    "m_map r1 = um_erase k (m_map r)"
    and alt: "get_map r1 = get_map r \<and> (request_map r1 = [] \<longrightarrow> request_map r = []) \<and>
      (\<forall>k'. um_has (get_cache r1) k' \<longleftrightarrow> um_has (get_cache r) k' \<or> k' = k \<and> um_has (get_map r) k) \<or> idle r1"
    using tryClearPromises_step [OF Cons.prems(1) _ assms(2), of k v] Cons.prems(3) kv by auto
  have "\<forall>(k', v') \<in> set kvs. um_has (get_map r1) k' \<longrightarrow> \<not> um_has (get_cache r1) k' \<and> v' = V k'"
  proof (clarify, goal_cases)
    case (1 k' v')
    then have "k' \<noteq> k" using Cons.prems(2) kv by force
    then show ?case using 1 alt Cons.prems(3) by (auto simp: idle_def)
  qed
  from Cons.IH [OF r1(2) _ this] Cons.prems(2) kv obtain r' ps' where
    r': "foldR (\<lambda>kv. tryClearPromises F (fst kv) (snd kv)) kvs (r1, ps1) = Inr (r', ps')" "clear_inv F V rm0 ps0 [] r' ps'"
    "m_map r' = fold um_erase (map fst kvs) (m_map r1)"
    and alt': "get_map r' = get_map r1 \<and> (request_map r' = [] \<longrightarrow> request_map r1 = []) \<and>
      (\<forall>k'. um_has (get_cache r') k' \<longleftrightarrow> um_has (get_cache r1) k' \<or> k' \<in> fst ` set kvs \<and> um_has (get_map r1) k') \<or> idle r'"
    by auto
  have "get_map r' = get_map r \<and> (request_map r' = [] \<longrightarrow> request_map r = []) \<and>
      (\<forall>k'. um_has (get_cache r') k' \<longleftrightarrow> um_has (get_cache r) k' \<or> k' \<in> fst ` set ((k, v) # kvs) \<and> um_has (get_map r) k') \<or> idle r'"
  proof (cases "idle r1")
    case True
    then have "request_map r' = []"
      using alt' by (intro none_waiting [OF r'(2)]) (auto simp: idle_def)
    moreover have "get_map r' = [] \<and> get_cache r' = []"
      using alt' True by (auto simp: idle_def um_has_def um_empty_iff [of "get_cache r'"])
    ultimately show ?thesis by (simp add: idle_def)
  next
    case False
    then show ?thesis using alt alt' by auto
  qed
  then show ?case using r1 r' kv by auto
qed

text \<open>
  Once the value of every key some request waits for has been delivered, no request is left, the
  tables are empty, and every promise of the initial requests holds the answer computed from \<open>V\<close>.
\<close>

lemma deliver_all:
  assumes "clear_inv F V rm0 ps0 [] r ps" and "answerable F V rm0" and "distinct (map fst kvs)"
    and "\<forall>k. um_has (get_map r) k \<longrightarrow> k \<in> fst ` set kvs \<and> \<not> um_has (get_cache r) k"
    and "\<forall>(k, v) \<in> set kvs. um_has (get_map r) k \<longrightarrow> v = V k"
    and "request_map r = [] \<Longrightarrow> idle r"
  shows "\<exists>r' ps'. foldR (\<lambda>kv. tryClearPromises F (fst kv) (snd kv)) kvs (r, ps) = Inr (r', ps') \<and>
    idle r' \<and> m_map r' = fold um_erase (map fst kvs) (m_map r) \<and>
    (\<forall>i rks q. um_find rm0 i = Some (rks, Some q) \<longrightarrow>
       (\<exists>a. rk_answer F rks V = Inr a \<and> um_find ps' q = Some a)) \<and>
    (\<forall>q. (\<forall>i rks. um_find rm0 i \<noteq> Some (rks, Some q)) \<longrightarrow> um_find ps' q = um_find ps0 q)"
proof -
  obtain r' ps' where r': "foldR (\<lambda>kv. tryClearPromises F (fst kv) (snd kv)) kvs (r, ps) = Inr (r', ps')"
    "clear_inv F V rm0 ps0 [] r' ps'" "m_map r' = fold um_erase (map fst kvs) (m_map r)"
    and alt: "get_map r' = get_map r \<and> (request_map r' = [] \<longrightarrow> request_map r = []) \<and>
      (\<forall>k. um_has (get_cache r') k \<longleftrightarrow> um_has (get_cache r) k \<or> k \<in> fst ` set kvs \<and> um_has (get_map r) k) \<or> idle r'"
    using deliver_ok [OF assms(1-3)] assms(4,5) by blast
  note D = clear_invD [OF r'(2)]
  have "idle r'"
  proof (rule ccontr)
    assume n: "\<not> idle r'"
    with alt have a: "get_map r' = get_map r"
      "\<And>k. um_has (get_cache r') k \<longleftrightarrow> um_has (get_cache r) k \<or> um_has (get_map r) k"
      using assms(4) by blast+
    have rm: "request_map r' = []" by (rule none_waiting [OF r'(2)]) (simp add: a)
    with n alt have "request_map r = []" by blast
    with assms(6) a have "get_map r' = []" "\<And>k. \<not> um_has (get_cache r') k" by (simp_all add: idle_def)
    then show False using n rm by (metis idle_def um_empty_iff um_has_def)
  qed
  moreover from this have "\<not> um_has (request_map r') i" for i by (simp add: idle_def)
  moreover have "um_find ps' q = um_find ps0 q" if "\<forall>i rks. um_find rm0 i \<noteq> Some (rks, Some q)" for q
    by (rule D(8)) (use that in blast)
  ultimately show ?thesis using r' D(7) by blast
qed

subsection \<open>Resolving what the cache alone can answer\<close>

lemma um_has_fold_erase: "um_has (fold um_erase ks m) k \<longleftrightarrow> um_has m k \<and> k \<notin> set ks"
  by (induction ks arbitrary: m) auto

lemma um_find_fold_erase_notin: "k \<notin> set ks \<Longrightarrow> um_find (fold um_erase ks m) k = um_find m k"
  by (induction ks arbitrary: m) auto

text \<open>
  The loop of \<open>tryClearAllPromises\<close> does not touch the table; erasing the answered requests as the loop
  goes, instead of at its end, gives the invariant of \<open>clear_loop\<close>.
\<close>

lemma clear_all_loop:
  assumes "clear_inv F V rm0 ps0 rem (r\<lparr>request_map := fold um_erase er (request_map r)\<rparr>) ps" and "answerable F V rm0"
  shows "\<exists>er' ps'. foldR (\<lambda>id (to_erase, st1).
              let (ful, r1) = isFulfilled id (fst st1) in
              if ful then bindR (clearPromises F id (r1, snd st1)) (\<lambda>st2. Inr (to_erase @ [id], st2))
              else Inr (to_erase, (r1, snd st1))) rem (er, (r, ps)) = Inr (er', (r, ps')) \<and>
    clear_inv F V rm0 ps0 [] (r\<lparr>request_map := fold um_erase er' (request_map r)\<rparr>) ps' \<and>
    (\<forall>j \<in> set er'. j \<in> set er \<or> \<not> waits r j)"
  using assms(1)
proof (induction rem arbitrary: er ps)
  case (Cons i rem)
  let ?r = "r\<lparr>request_map := fold um_erase er (request_map r)\<rparr>"
  note D = clear_invD [OF Cons.prems]
  have i: "um_has (request_map r) i" "i \<notin> set er" using D(3) [of i] by (auto simp: um_has_fold_erase)
  then have same: "um_find (request_map ?r) i = um_find (request_map r) i" by (simp add: um_find_fold_erase_notin)
  then have w: "waits ?r i \<longleftrightarrow> waits r i" by (simp add: waits_def um_at_def)
  show ?case
  proof (cases "waits r i")
    case True
    then show ?thesis
      using Cons.IH [OF clear_inv_skip [OF Cons.prems]] w i(1) by (simp add: isFulfilled_known)
  next
    case False
    obtain ks q where req: "um_find (request_map ?r) i = Some (ks, Some q)" and q: "\<not> um_has ps q"
      using i(1) same rk_wfD(3) [OF D(1)] by (metis um_has_conv surj_pair)
    obtain a where a: "rk_answer F ks V = Inr a" using answerableD [OF assms(2) D(6) [OF req]] by blast
    have inv: "clear_inv F V rm0 ps0 rem (r\<lparr>request_map := fold um_erase (er @ [i]) (request_map r)\<rparr>) (um_set q a ps)"
      using clear_inv_answer [OF Cons.prems req _ a] False w by simp
    have "clearPromises F i (r, ps) = Inr (r, um_set q a ps)"
      by (rule clearPromises_known [OF _ False q _ a]) (use req same D(5) in auto)
    then show ?thesis using Cons.IH [OF inv] False i(1) by (fastforce simp: isFulfilled_known)
  qed
qed auto

text \<open>
  All requests whose keys have already arrived are answered and removed; the rest waits.  When none
  is left, all tables are empty.
\<close>

lemma tryClearAllPromises_ok:
  assumes "rk_wf r ps" and "\<forall>k v. um_find (get_cache r) k = Some v \<longrightarrow> v = V k"
    and "answerable F V (request_map r)" and "\<forall>ids. mset (ord ids) = mset ids"
  shows "\<exists>r' ps'. tryClearAllPromises ord F (r, ps) = Inr (r', ps') \<and>
    clear_inv F V (request_map r) ps [] r' ps' \<and> m_map r' = m_map r \<and> (request_map r' = [] \<longrightarrow> idle r') \<and>
    (get_map r' = get_map r \<and> get_cache r' = get_cache r \<or> idle r') \<and>
    (\<forall>i. um_has (request_map r) i \<longrightarrow> waits r i \<longrightarrow> um_has (request_map r') i)"
proof -
  let ?ids = "ord (um_keys (request_map r))"
  have ids: "set ?ids = set (um_keys (request_map r))" "distinct ?ids"
    using assms(1,4) by (metis set_mset_mset, metis mset_eq_imp_distinct_iff rk_wfD(1) um_ok_def)
  then have has: "\<forall>i \<in> set ?ids. um_has (request_map r) i" "\<forall>i. um_has (request_map r) i \<longrightarrow> i \<in> set ?ids"
    by (simp_all add: um_has_keys)
  have "clear_inv F V (request_map r) ps ?ids (r\<lparr>request_map := fold um_erase [] (request_map r)\<rparr>) ps"
    unfolding clear_inv_def using assms(1,2) ids(2) has by (auto simp: um_has_def)
  from clear_all_loop [OF this assms(3)] obtain er ps' where
    l: "foldR (\<lambda>id (to_erase, st1).
              let (ful, r1) = isFulfilled id (fst st1) in
              if ful then bindR (clearPromises F id (r1, snd st1)) (\<lambda>st2. Inr (to_erase @ [id], st2))
              else Inr (to_erase, (r1, snd st1))) ?ids ([], (r, ps)) = Inr (er, (r, ps'))"
    and inv: "clear_inv F V (request_map r) ps [] (r\<lparr>request_map := fold um_erase er (request_map r)\<rparr>) ps'"
    and er: "\<forall>j \<in> set er. \<not> waits r j"
    by auto
  let ?r = "r\<lparr>request_map := fold um_erase er (request_map r)\<rparr>"
  have wt: "\<forall>i. um_has (request_map r) i \<longrightarrow> waits r i \<longrightarrow> um_has (request_map ?r) i"
    using er by (auto simp: um_has_fold_erase)
  show ?thesis
  proof (cases "request_map ?r = []")
    case True
    have "clear_inv F V (request_map r) ps [] (?r\<lparr>get_map := [], get_cache := []\<rparr>) ps'"
      using clear_inv_idle [OF inv True] .
    then show ?thesis using l True wt by (simp add: tryClearAllPromises_def idle_def)
  next
    case False
    then show ?thesis using l inv wt by (simp add: tryClearAllPromises_def)
  qed
qed

subsection \<open>Registering a request\<close>

text \<open>Promise \<open>q\<close> is open, and the request \<open>i\<close>, if it exists, is the only one that holds it.\<close>

definition req_slot :: "running \<Rightarrow> promise_store \<Rightarrow> int \<Rightarrow> nat \<Rightarrow> bool" where
  "req_slot r ps i q \<longleftrightarrow> \<not> um_has ps q \<and> (\<forall>ks p. um_find (request_map r) i = Some (ks, p) \<longrightarrow> p = Some q) \<and>
     (\<forall>j ks. um_find (request_map r) j = Some (ks, Some q) \<longrightarrow> j = i)"

lemma req_slotD:
  assumes "req_slot r ps i q"
  shows "\<not> um_has ps q" "um_find (request_map r) i = Some (ks, p) \<Longrightarrow> p = Some q"
    "um_find (request_map r) j = Some (ks, Some q) \<Longrightarrow> j = i"
  using assms unfolding req_slot_def by blast+

lemma rk_wfI:
  assumes "um_ok (request_map r)" "um_ok (get_map r)" "\<And>k. distinct (um_at [] (get_map r) k)"
    "\<And>i ks p. um_find (request_map r) i = Some (ks, p) \<Longrightarrow> ks \<noteq> [] \<and> (\<exists>q. p = Some q \<and> \<not> um_has ps q)"
    "\<And>i ks p k. um_find (request_map r) i = Some (ks, p) \<Longrightarrow> k \<in> set ks \<Longrightarrow> \<not> um_has (get_cache r) k \<Longrightarrow>
       i \<in> set (um_at [] (get_map r) k)"
    "\<And>i j ks ks' q. um_find (request_map r) i = Some (ks, Some q) \<Longrightarrow> um_find (request_map r) j = Some (ks', Some q) \<Longrightarrow> i = j"
    "\<And>k i. i \<in> set (um_at [] (get_map r) k) \<Longrightarrow> \<not> um_has (get_cache r) k \<Longrightarrow>
       \<exists>ks p. um_find (request_map r) i = Some (ks, p) \<and> k \<in> set ks"
  shows "rk_wf r ps"
  using assms unfolding rk_wf_def by blast

lemma rk_wf_ok: "rk_wf r ps \<Longrightarrow> um_ok (get_map r)"
  by (simp add: rk_wf_def)

text \<open>The keys a request has asked for so far.\<close>

definition req_keys :: "running \<Rightarrow> int \<Rightarrow> string list" where
  "req_keys r i = fst (um_at ([], None) (request_map r) i)"

lemma req_keys_in:
  assumes "k \<in> set (req_keys r i)"
  shows "\<exists>p. um_find (request_map r) i = Some (req_keys r i, p)"
  using assms by (cases "um_find (request_map r) i") (auto simp: req_keys_def um_at_def)

lemma req_keys_find: "um_find (request_map r) i = Some (ks, p) \<Longrightarrow> req_keys r i = ks"
  by (simp add: req_keys_def um_at_def)

text \<open>A key that is missing from the cache is registered for the request.\<close>

lemma insertIfNotPresent_get_facts:
  assumes "insertIfNotPresent_get k (Some q) i r = (p, r')"
  shows "p = rk_present r k" "rk_present r' j \<longleftrightarrow> j = k \<or> rk_present r j" "get_cache r' = get_cache r" "m_map r' = m_map r"
    "um_find (request_map r') j' = (if j' = i then Some (req_keys r i @ [k], Some q) else um_find (request_map r) j')"
    "um_find (get_map r') j = (if j = k then Some (insort_insert i (um_at [] (get_map r) k)) else um_find (get_map r) j)"
  using assms by (auto simp: insertIfNotPresent_get_def rk_present_def req_keys_def)

lemma insertIfNotPresent_get_wf:
  assumes "rk_wf r ps" and "req_slot r ps i q" and "insertIfNotPresent_get k (Some q) i r = (p, r')" and "\<not> um_has (get_cache r) k"
  shows "rk_wf r' ps" "req_slot r' ps i q"
proof -
  note R = rk_wfD [OF assms(1)] and S = req_slotD [OF assms(2)] and F = insertIfNotPresent_get_facts [OF assms(3)]
  have gm: "um_at [] (get_map r') j = (if j = k then insort_insert i (um_at [] (get_map r) k) else um_at [] (get_map r) j)" for j
    by (simp add: um_at_def [of "[]" "get_map r'"] F(6)) (simp add: um_at_def)
  show "req_slot r' ps i q" using S F(5) by (auto simp: req_slot_def split: if_splits)
  show "rk_wf r' ps"
  proof (rule rk_wfI)
    show "um_ok (request_map r')" "um_ok (get_map r')"
      using R(1) rk_wf_ok [OF assms(1)] assms(3) by (auto simp: insertIfNotPresent_get_def)
    show "distinct (um_at [] (get_map r') j)" for j using gm R(2) by (simp add: distinct_insort_insert)
    show "ks \<noteq> [] \<and> (\<exists>q. p = Some q \<and> \<not> um_has ps q)" if "um_find (request_map r') j = Some (ks, p)" for j ks p
      using that F(5) R(3) S(1) by (auto split: if_splits)
    show "j \<in> set (um_at [] (get_map r') k')"
      if h: "um_find (request_map r') j = Some (ks, p)" "k' \<in> set ks" "\<not> um_has (get_cache r') k'" for j ks p k'
    proof (cases "j = i")
      case True
      then have "k' = k \<or> k' \<in> set (req_keys r i)" using h(1,2) F(5) by auto
      moreover have "i \<in> set (um_at [] (get_map r) k')" if "k' \<in> set (req_keys r i)"
        using req_keys_in [OF that] R(4) that h(3) F(3) by auto
      ultimately show ?thesis using True gm by (auto simp: set_insort_insert)
    next
      case False
      then show ?thesis using h F(3,5) R(4) gm by (auto simp: set_insort_insert)
    qed
    show "a = b" if "um_find (request_map r') a = Some (ks, Some q')" "um_find (request_map r') b = Some (ks', Some q')" for a b ks ks' q'
      using that F(5) R(5) S(3) by (auto split: if_splits)
    show "\<exists>ks p. um_find (request_map r') j = Some (ks, p) \<and> k' \<in> set ks"
      if h: "j \<in> set (um_at [] (get_map r') k')" "\<not> um_has (get_cache r') k'" for k' j
    proof -
      have "j = i \<and> k' = k \<or> j \<in> set (um_at [] (get_map r) k')" using h(1) gm by (auto simp: set_insort_insert split: if_splits)
      then show ?thesis using R(6) [of j k'] h(2) F(3,5) req_keys_find by (cases "j = i") auto
    qed
  qed
qed

text \<open>A key found in the cache arrives at once.\<close>

lemma insert_cache_facts:
  assumes "insert_cache i k v (Some q) r = Inr r'" and "req_slot r ps i q"
  shows "get_map r' = get_map r" "m_map r' = m_map r"
    "um_find (get_cache r') j = (if j = k then Some v else um_find (get_cache r) j)"
    "um_find (request_map r') j' = (if j' = i then Some (req_keys r i @ [k], Some q) else um_find (request_map r) j')"
proof -
  have "snd (um_at ([], None) (if \<not> um_has (request_map r) i then um_set i ([], Some q) (request_map r) else request_map r) i) = Some q"
    using req_slotD(2) [OF assms(2)] by (auto simp: um_at_def um_has_conv split: option.splits)
  moreover have "fst (um_at ([], None) (if \<not> um_has (request_map r) i then um_set i ([], Some q) (request_map r) else request_map r) i) = req_keys r i"
    by (cases "um_find (request_map r) i") (simp_all add: req_keys_def um_at_def um_has_def)
  ultimately show "get_map r' = get_map r" "m_map r' = m_map r"
    "um_find (get_cache r') j = (if j = k then Some v else um_find (get_cache r) j)"
    "um_find (request_map r') j' = (if j' = i then Some (req_keys r i @ [k], Some q) else um_find (request_map r) j')"
    using assms(1) by (auto simp: insert_cache_def Let_def split: if_splits)
qed

lemma insert_cache_wf:
  assumes "rk_wf r ps" and "req_slot r ps i q" and "insert_cache i k v (Some q) r = Inr r'"
  shows "rk_wf r' ps" "req_slot r' ps i q"
proof -
  note R = rk_wfD [OF assms(1)] and S = req_slotD [OF assms(2)] and F = insert_cache_facts [OF assms(3,2)]
  have gc: "um_has (get_cache r') j \<longleftrightarrow> j = k \<or> um_has (get_cache r) j" for j using F(3) by (simp add: um_has_def)
  show "req_slot r' ps i q" using S F(4) by (auto simp: req_slot_def split: if_splits)
  show "rk_wf r' ps"
  proof (rule rk_wfI)
    show "um_ok (request_map r')" "um_ok (get_map r')"
      using R(1) rk_wf_ok [OF assms(1)] assms(3) by (auto simp: insert_cache_def Let_def split: if_splits)
    show "distinct (um_at [] (get_map r') j)" for j using F(1) R(2) by simp
    show "ks \<noteq> [] \<and> (\<exists>q. p = Some q \<and> \<not> um_has ps q)" if "um_find (request_map r') j = Some (ks, p)" for j ks p
      using that F(4) R(3) S(1) by (auto split: if_splits)
    show "j \<in> set (um_at [] (get_map r') k')"
      if h: "um_find (request_map r') j = Some (ks, p)" "k' \<in> set ks" "\<not> um_has (get_cache r') k'" for j ks p k'
    proof (cases "j = i")
      case True
      then have k': "k' \<in> set (req_keys r i)" using h F(4) gc by auto
      then show ?thesis using req_keys_in [OF k'] R(4) True h(3) F(1) gc by auto
    next
      case False
      then show ?thesis using h F(1,4) R(4) gc by auto
    qed
    show "a = b" if "um_find (request_map r') a = Some (ks, Some q')" "um_find (request_map r') b = Some (ks', Some q')" for a b ks ks' q'
      using that F(4) R(5) S(3) by (auto split: if_splits)
    show "\<exists>ks p. um_find (request_map r') j = Some (ks, p) \<and> k' \<in> set ks"
      if h: "j \<in> set (um_at [] (get_map r') k')" "\<not> um_has (get_cache r') k'" for k' j
      using R(6) [of j k'] h F(1,4) gc req_keys_find by (cases "j = i") auto
  qed
qed

end
