(* ===== verification/Crypto_Engine.thy ===== *)
theory Crypto_Engine
  imports Cpp_Strings
begin

text \<open>
  The encryption engine (\<open>proxy/src/encryption_engine.cpp\<close>): AES-256-CBC through OpenSSL's EVP
  interface, a random suffix that makes equal plaintexts encrypt differently, and a keyed PRF
  (HMAC-SHA256) that names storage locations.

  OpenSSL is not part of the repository: the EVP calls are the fields of the record \<open>evp\<close>, over an
  arbitrary context type, and \<open>evp_lawful\<close> states what its documentation promises of them.
  \<open>rand()\<close> is a stream of draws with a position; a function that draws returns the new position.
\<close>

subsection \<open>Random draws\<close>

type_synonym rand_stream = "nat \<Rightarrow> nat"

definition alphanum :: string where
  "alphanum = ''0123456789ABCDEFGHIJKLMNOPQRSTUVWXYZabcdefghijklmnopqrstuvwxyz''"

definition gen_random :: "rand_stream \<Rightarrow> nat \<Rightarrow> nat \<Rightarrow> string \<times> nat" where
  "gen_random rnd pos len = (map (\<lambda>i. alphanum ! (rnd (pos + i) mod 62)) [0..<len], pos + len)"

text \<open>\<open>rand_str\<close> of \<open>util.cpp\<close>: decimal digits, each from a draw between 0 and 500.\<close>

definition rand_str :: "rand_stream \<Rightarrow> nat \<Rightarrow> nat \<Rightarrow> string \<times> nat" where
  "rand_str draw pos len = (map (\<lambda>i. ''0123456789'' ! (draw (pos + i) mod 10)) [0..<len], pos + len)"

subsection \<open>OpenSSL as a parameter\<close>

text \<open>Each call returns its integer result code, the bytes it produced, and the context.\<close>

record 'ctx evp =
  ctx_new :: "'ctx option"
  enc_init :: "string \<Rightarrow> string \<Rightarrow> 'ctx \<Rightarrow> int \<times> 'ctx"
  enc_update :: "string \<Rightarrow> 'ctx \<Rightarrow> int \<times> string \<times> 'ctx"
  enc_final :: "'ctx \<Rightarrow> int \<times> string \<times> 'ctx"
  dec_init :: "string \<Rightarrow> string \<Rightarrow> 'ctx \<Rightarrow> int \<times> 'ctx"
  dec_update :: "string \<Rightarrow> 'ctx \<Rightarrow> int \<times> string \<times> 'ctx"
  dec_final :: "'ctx \<Rightarrow> int \<times> string \<times> 'ctx"
  hmac_sha256 :: "string \<Rightarrow> string \<Rightarrow> string"

subsection \<open>The engine\<close>

record engine =
  encryption_string :: string
  iv_string :: string

definition encryption_engine_new :: "rand_stream \<Rightarrow> nat \<Rightarrow> engine \<times> nat" where
  "encryption_engine_new draw pos =
     (let (key, p1) = rand_str draw pos 32; (iv, p2) = rand_str draw p1 16
      in (\<lparr>encryption_string = key, iv_string = iv\<rparr>, p2))"

text \<open>Any return code other than 1 ends in \<open>handle_errors\<close>, which aborts.\<close>

definition encrypt_raw :: "'ctx evp \<Rightarrow> string \<Rightarrow> string \<Rightarrow> string \<Rightarrow> string res" where
  "encrypt_raw E plaintext key iv =
     (case ctx_new E of None \<Rightarrow> Inl Aborted
      | Some ctx \<Rightarrow>
         let (rc, ctx1) = enc_init E key iv ctx in
         if rc \<noteq> 1 then Inl Aborted else
         let (rc, out1, ctx2) = enc_update E plaintext ctx1 in
         if rc \<noteq> 1 then Inl Aborted else
         let (rc, out2, ctx3) = enc_final E ctx2 in
         if rc \<noteq> 1 then Inl Aborted else Inr (out1 @ out2))"

definition decrypt_raw :: "'ctx evp \<Rightarrow> string \<Rightarrow> string \<Rightarrow> string \<Rightarrow> string res" where
  "decrypt_raw E ciphertext key iv =
     (case ctx_new E of None \<Rightarrow> Inl Aborted
      | Some ctx \<Rightarrow>
         let (rc, ctx1) = dec_init E key iv ctx in
         if rc \<noteq> 1 then Inl Aborted else
         let (rc, out1, ctx2) = dec_update E ciphertext ctx1 in
         if rc \<noteq> 1 then Inl Aborted else
         let (rc, out2, ctx3) = dec_final E ctx2 in
         if rc \<noteq> 1 then Inl Aborted else Inr (out1 @ out2))"

text \<open>The output goes to a buffer of 4096 bytes on the stack; writing past it is undefined.\<close>

definition buffer_size :: nat where "buffer_size = 4096"

definition encrypt :: "'ctx evp \<Rightarrow> engine \<Rightarrow> string \<Rightarrow> string res" where
  "encrypt E eng plain_text =
     bindR (encrypt_raw E plain_text (encryption_string eng) (iv_string eng)) (\<lambda>cipher_text.
       if buffer_size < length cipher_text then Inl Undefined_behaviour
       else if length cipher_text = 0 then Inl Assertion_failed
       else Inr cipher_text)"

text \<open>The plaintext is cut at the first NUL byte.\<close>

definition decrypt :: "'ctx evp \<Rightarrow> engine \<Rightarrow> string \<Rightarrow> string res" where
  "decrypt E eng cipher_text =
     bindR (decrypt_raw E cipher_text (encryption_string eng) (iv_string eng)) (\<lambda>text.
       if buffer_size < length text then Inl Undefined_behaviour
       else if length text = 0 then Inl Assertion_failed
       else Inr (takeWhile (\<lambda>c. c \<noteq> CHR 0x00) text))"

text \<open>Everything before the last \<open>#\<close>; the empty string when there is none.\<close>

definition extractKey :: "string \<Rightarrow> string" where
  "extractKey encryptedKey =
     (case str_rfind encryptedKey CHR ''#'' of None \<Rightarrow> '''' | Some i \<Rightarrow> take i encryptedKey)"

definition encryptNonDeterministic ::
  "'ctx evp \<Rightarrow> engine \<Rightarrow> rand_stream \<Rightarrow> nat \<Rightarrow> string \<Rightarrow> (string \<times> nat) res" where
  "encryptNonDeterministic E eng rnd pos plain_text =
     (let (suffix, pos') = gen_random rnd (pos + 1) (rnd pos mod 10) in
      bindR (encrypt E eng (plain_text @ ''#'' @ suffix)) (\<lambda>c. Inr (c, pos')))"

definition decryptNonDeterministic :: "'ctx evp \<Rightarrow> engine \<Rightarrow> string \<Rightarrow> string res" where
  "decryptNonDeterministic E eng cipher_text =
     bindR (decrypt E eng cipher_text) (\<lambda>t. Inr (extractKey t))"

definition prf_encrypt :: "'ctx evp \<Rightarrow> string \<Rightarrow> string \<Rightarrow> string" where
  "prf_encrypt E key plaintext = hmac_sha256 E key plaintext"

definition eng_prf :: "'ctx evp \<Rightarrow> engine \<Rightarrow> string \<Rightarrow> string" where
  "eng_prf E eng plain_text = prf_encrypt E (encryption_string eng) plain_text"

subsection \<open>Documented behaviour of the EVP calls\<close>

text \<open>
  Every call succeeds; CBC with padding produces at least one block and at most 16 bytes more than
  the plaintext; decrypting with the same key and IV returns the plaintext.
\<close>

definition evp_lawful :: "'ctx evp \<Rightarrow> string \<Rightarrow> string \<Rightarrow> bool" where
  "evp_lawful E key iv \<longleftrightarrow>
     (\<exists>c0. ctx_new E = Some c0 \<and>
       (\<forall>pt. \<exists>c1 o1 c2 o2 c3 d1 p1 d2 p2 d3.
          enc_init E key iv c0 = (1, c1) \<and> enc_update E pt c1 = (1, o1, c2) \<and> enc_final E c2 = (1, o2, c3) \<and>
          o1 @ o2 \<noteq> [] \<and> length (o1 @ o2) \<le> length pt + 16 \<and>
          dec_init E key iv c0 = (1, d1) \<and> dec_update E (o1 @ o2) d1 = (1, p1, d2) \<and>
          dec_final E d2 = (1, p2, d3) \<and> p1 @ p2 = pt))"

text \<open>An interface that satisfies the laws: the cipher appends one padding byte.\<close>

definition pad_evp :: "unit evp" where
  "pad_evp = \<lparr>ctx_new = Some (),
     enc_init = (\<lambda>_ _ c. (1, c)), enc_update = (\<lambda>pt c. (1, pt, c)), enc_final = (\<lambda>c. (1, ''p'', c)),
     dec_init = (\<lambda>_ _ c. (1, c)), dec_update = (\<lambda>ct c. (1, butlast ct, c)), dec_final = (\<lambda>c. (1, '''', c)),
     hmac_sha256 = (\<lambda>k m. k @ m)\<rparr>"

text \<open>A value the engine can store and return: no NUL byte, and small enough for the buffer.\<close>

definition storable :: "string \<Rightarrow> bool" where
  "storable v \<longleftrightarrow> CHR 0x00 \<notin> set v \<and> length v \<le> 4070"

subsection \<open>Laws\<close>

lemma length_alphanum: "length alphanum = 62"
  by (simp add: alphanum_def)

lemma alphanum_chars: "CHR ''#'' \<notin> set alphanum" "CHR 0x00 \<notin> set alphanum"
  by (simp_all add: alphanum_def)

lemma gen_random_chars:
  assumes "gen_random rnd pos len = (s, pos')"
  shows "set s \<subseteq> set alphanum" "length s = len" "pos' = pos + len"
  using assms length_alphanum by (auto simp: gen_random_def)

lemma extractKey_suffix: "CHR ''#'' \<notin> set r \<Longrightarrow> extractKey (p @ ''#'' @ r) = p"
  using str_rfind_last [of "CHR ''#''" r p] by (simp add: extractKey_def)

lemma extractKey_none: "CHR ''#'' \<notin> set s \<Longrightarrow> extractKey s = ''''"
  by (simp add: extractKey_def str_rfind_none [THEN iffD2])

lemma pad_evp_lawful: "evp_lawful pad_evp key iv"
  by (simp add: evp_lawful_def pad_evp_def)

lemma evp_lawfulD:
  assumes "evp_lawful E key iv"
  obtains ct where "encrypt_raw E pt key iv = Inr ct" "decrypt_raw E ct key iv = Inr pt"
    "ct \<noteq> []" "length ct \<le> length pt + 16"
proof -
  obtain c0 c1 o1 c2 o2 c3 d1 p1 d2 p2 d3 where
    h: "ctx_new E = Some c0" "enc_init E key iv c0 = (1, c1)" "enc_update E pt c1 = (1, o1, c2)"
      "enc_final E c2 = (1, o2, c3)" "o1 @ o2 \<noteq> []" "length (o1 @ o2) \<le> length pt + 16"
      "dec_init E key iv c0 = (1, d1)" "dec_update E (o1 @ o2) d1 = (1, p1, d2)"
      "dec_final E d2 = (1, p2, d3)" "p1 @ p2 = pt"
    using assms unfolding evp_lawful_def by blast
  show ?thesis
    by (rule that [of "o1 @ o2"]) (use h in \<open>simp_all add: encrypt_raw_def decrypt_raw_def\<close>)
qed

text \<open>
  Encrypting a text of at most 4080 bytes succeeds, and what comes back is the text up to its first
  NUL byte.
\<close>

lemma encrypt_decrypt:
  assumes "evp_lawful E (encryption_string eng) (iv_string eng)"
    and "pt \<noteq> []" and "length pt + 16 \<le> buffer_size"
  obtains ct where "encrypt E eng pt = Inr ct"
    "decrypt E eng ct = Inr (takeWhile (\<lambda>c. c \<noteq> CHR 0x00) pt)"
proof -
  obtain ct where ct: "encrypt_raw E pt (encryption_string eng) (iv_string eng) = Inr ct"
    "decrypt_raw E ct (encryption_string eng) (iv_string eng) = Inr pt" "ct \<noteq> []" "length ct \<le> length pt + 16"
    using evp_lawfulD [OF assms(1)] by blast
  show ?thesis
    by (rule that [of ct]) (use ct assms(2,3) in \<open>simp_all add: encrypt_def decrypt_def\<close>)
qed

text \<open>The location name of a key at a frequency; different keys or frequencies differ.\<close>

definition sid :: "string \<Rightarrow> int \<Rightarrow> string" where
  "sid key f = key @ ''#'' @ to_string f"

lemma sid_inj [simp]: "sid k f = sid k' f' \<longleftrightarrow> k = k' \<and> f = f'"
proof
  assume eq: "sid k f = sid k' f'"
  have "extractKey (sid j g) = j" for j g
    unfolding sid_def by (rule extractKey_suffix) simp
  with eq have "k = k'" by metis
  with eq show "k = k' \<and> f = f'" by (simp add: sid_def)
qed simp

text \<open>What is encrypted with a random suffix is decrypted to the original, for storable values.\<close>

lemma nondeterministic_roundtrip:
  assumes "evp_lawful E (encryption_string eng) (iv_string eng)" and "storable v"
  obtains c pos' where "encryptNonDeterministic E eng rnd pos v = Inr (c, pos')"
    "decryptNonDeterministic E eng c = Inr v"
proof -
  obtain r pos' where r: "gen_random rnd (pos + 1) (rnd pos mod 10) = (r, pos')" by fastforce
  note rc = gen_random_chars [OF r]
  have n: "CHR 0x00 \<notin> set (v @ ''#'' @ r)" using assms(2) rc(1) alphanum_chars by (auto simp: storable_def)
  have "length r < 10" using rc(2) by simp
  then have len: "length (v @ ''#'' @ r) + 16 \<le> buffer_size"
    using assms(2) by (simp add: storable_def buffer_size_def)
  obtain c where c: "encrypt E eng (v @ ''#'' @ r) = Inr c"
    "decrypt E eng c = Inr (takeWhile (\<lambda>c. c \<noteq> CHR 0x00) (v @ ''#'' @ r))"
    using encrypt_decrypt [OF assms(1) _ len] by blast
  have tw: "takeWhile (\<lambda>c. c \<noteq> CHR 0x00) (v @ ''#'' @ r) = v @ ''#'' @ r"
    using n by (subst takeWhile_eq_all_conv) auto
  have "CHR ''#'' \<notin> set r" using rc(1) alphanum_chars by blast
  then have "extractKey (v @ ''#'' @ r) = v" by (rule extractKey_suffix)
  then have "decryptNonDeterministic E eng c = Inr v"
    using c(2) by (simp only: tw decryptNonDeterministic_def bindR_Inr)
  then show ?thesis
    using that [of c pos'] c(1) r by (simp add: encryptNonDeterministic_def)
qed

text \<open>A value with a NUL byte and no \<open>#\<close> before it comes back as the empty string.\<close>

lemma nul_value_lost:
  assumes "evp_lawful E (encryption_string eng) (iv_string eng)" and "length v \<le> 4070"
    and "v = a @ CHR 0x00 # b" and "CHR ''#'' \<notin> set a" and "CHR 0x00 \<notin> set a"
  obtains c pos' where "encryptNonDeterministic E eng rnd pos v = Inr (c, pos')"
    "decryptNonDeterministic E eng c = Inr ''''"
proof -
  obtain r pos' where r: "gen_random rnd (pos + 1) (rnd pos mod 10) = (r, pos')" by fastforce
  have "length r < 10" using gen_random_chars(2) [OF r] by simp
  then have len: "length (v @ ''#'' @ r) + 16 \<le> buffer_size"
    using assms(2) by (simp add: buffer_size_def)
  obtain c where c: "encrypt E eng (v @ ''#'' @ r) = Inr c"
    "decrypt E eng c = Inr (takeWhile (\<lambda>c. c \<noteq> CHR 0x00) (v @ ''#'' @ r))"
    using encrypt_decrypt [OF assms(1) _ len] by blast
  have "takeWhile (\<lambda>c. c \<noteq> CHR 0x00) (v @ ''#'' @ r) = a"
    using assms(3,5) by (simp, subst takeWhile_append2) auto
  then have "decryptNonDeterministic E eng c = Inr ''''"
    using c(2) assms(4) by (simp add: decryptNonDeterministic_def extractKey_none)
  then show ?thesis
    using that [of c pos'] c(1) r by (simp add: encryptNonDeterministic_def)
qed

end
