(* ===== verification/Redis_Storage.thy ===== *)
theory Redis_Storage
  imports Cpp_Strings
begin

text \<open>
  The storage client (\<open>libstorage/src/redis.cpp\<close>): a vector of connections to Redis servers, a key
  being served by the connection its hash selects, with batched reads, writes and deletions.

  The Redis server and the cpp_redis client are not part of the repository.  A connection is a value
  of an arbitrary type \<open>'srv\<close>; the commands the code issues on it are the fields of \<open>redis_api\<close>, and
  \<open>redis_lawful\<close> states what the Redis documentation promises of them: MGET answers one reply per
  key in order (nil for a missing one), MSET stores all pairs, DEL removes the keys.  \<open>std::hash\<close>
  and the iteration order of \<open>std::unordered_map\<close> are unspecified and are arguments as well.
\<close>

subsection \<open>Replies and commands\<close>

datatype reply = RError string | RNull | RString string | RInt int | RArray "reply list"

record 'srv redis_api =
  rd_get :: "string \<Rightarrow> 'srv \<Rightarrow> reply \<times> 'srv"
  rd_set :: "string \<Rightarrow> string \<Rightarrow> 'srv \<Rightarrow> reply \<times> 'srv"
  rd_mget :: "string list \<Rightarrow> 'srv \<Rightarrow> reply \<times> 'srv"
  rd_mset :: "(string \<times> string) list \<Rightarrow> 'srv \<Rightarrow> reply \<times> 'srv"
  rd_del :: "string list \<Rightarrow> 'srv \<Rightarrow> reply \<times> 'srv"
  rd_exists :: "string \<Rightarrow> 'srv \<Rightarrow> reply \<times> 'srv"
  rd_dbsize :: "'srv \<Rightarrow> reply \<times> 'srv"
  std_hash :: "string \<Rightarrow> nat"
  id_order :: "nat list \<Rightarrow> nat list"

fun is_error :: "reply \<Rightarrow> bool" where
  "is_error (RError _) = True"
| "is_error _ = False"

fun error_text :: "reply \<Rightarrow> string" where
  "error_text (RError e) = e"
| "error_text _ = ''''"

fun as_string :: "reply \<Rightarrow> string res" where
  "as_string (RString s) = Inr s"
| "as_string _ = Inl (Runtime_error ''Reply is not a string'')"

fun as_integer :: "reply \<Rightarrow> int res" where
  "as_integer (RInt i) = Inr i"
| "as_integer _ = Inl (Runtime_error ''Reply is not an integer'')"

fun as_array :: "reply \<Rightarrow> reply list res" where
  "as_array (RArray a) = Inr a"
| "as_array _ = Inl (Runtime_error ''Reply is not an array'')"

definition check_reply :: "reply \<Rightarrow> reply res" where
  "check_reply r = (if is_error r then Inl (Runtime_error (error_text r)) else Inr r)"

subsection \<open>Single-key operations\<close>

text \<open>\<open>hash(key) % clients.size()\<close>; a remainder by zero is undefined.\<close>

definition client_idx :: "'srv redis_api \<Rightarrow> 'srv list \<Rightarrow> string \<Rightarrow> nat res" where
  "client_idx api clients key =
     (if clients = [] then Inl Undefined_behaviour else Inr (std_hash api key mod length clients))"

definition add_server :: "'srv \<Rightarrow> 'srv list \<Rightarrow> 'srv list" where
  "add_server connection clients = clients @ [connection]"

definition redis_get :: "'srv redis_api \<Rightarrow> string \<Rightarrow> 'srv list \<Rightarrow> (string \<times> 'srv list) res" where
  "redis_get api key clients =
     bindR (client_idx api clients key) (\<lambda>idx.
       let (reply, s) = rd_get api key (clients ! idx) in
       bindR (check_reply reply) (\<lambda>r. bindR (as_string r) (\<lambda>v. Inr (v, clients[idx := s]))))"

definition redis_put :: "'srv redis_api \<Rightarrow> string \<Rightarrow> string \<Rightarrow> 'srv list \<Rightarrow> 'srv list res" where
  "redis_put api key value clients =
     bindR (client_idx api clients key) (\<lambda>idx.
       let (reply, s) = rd_set api key value (clients ! idx) in
       bindR (check_reply reply) (\<lambda>_. Inr (clients[idx := s])))"

definition get_database_size :: "'srv redis_api \<Rightarrow> 'srv list \<Rightarrow> int res" where
  "get_database_size api clients =
     (case clients of [] \<Rightarrow> Inl (Runtime_error ''No Redis clients are connected.'')
      | c # _ \<Rightarrow> bindR (check_reply (fst (rd_dbsize api c))) as_integer)"

definition key_exists :: "'srv redis_api \<Rightarrow> string \<Rightarrow> 'srv list \<Rightarrow> bool res" where
  "key_exists api key clients =
     bindR (client_idx api clients key) (\<lambda>idx.
     bindR (check_reply (fst (rd_exists api key (clients ! idx)))) (\<lambda>r.
     bindR (as_integer r) (\<lambda>n. Inr (n > 0))))"

subsection \<open>Batches\<close>

text \<open>The per-server vectors: \<open>key_vectors[id].emplace_back(x)\<close> for each element in turn.\<close>

fun gather :: "'srv redis_api \<Rightarrow> 'srv list \<Rightarrow> ('x \<Rightarrow> string) \<Rightarrow> 'x list \<Rightarrow> (nat, 'x list) umap \<Rightarrow> (nat, 'x list) umap res" where
  "gather api clients key_of [] vs = Inr vs"
| "gather api clients key_of (x # xs) vs =
     bindR (client_idx api clients (key_of x)) (\<lambda>i.
       gather api clients key_of xs (um_set i (um_at [] vs i @ [x]) vs))"

text \<open>Issue one command per server, in the iteration order of the map, collecting the replies.\<close>

fun issue :: "('c \<Rightarrow> 'srv \<Rightarrow> reply \<times> 'srv) \<Rightarrow> (nat, 'c) umap \<Rightarrow> nat list \<Rightarrow> 'c \<Rightarrow> 'srv list \<Rightarrow> reply list \<times> 'srv list" where
  "issue cmd vs [] d clients = ([], clients)"
| "issue cmd vs (i # is) d clients =
     (let (r, s) = cmd (um_at d vs i) (clients ! i);
          (rs, clients') = issue cmd vs is d (clients[i := s])
      in (r # rs, clients'))"

text \<open>
  The futures the code waits for: \<open>for (i = 0; i < futures.size(); i++) \{ front; pop; \}\<close> compares
  a growing index with a shrinking size.
\<close>

fun drained :: "nat \<Rightarrow> 'f list \<Rightarrow> 'f list" where
  "drained i [] = []"
| "drained i (f # fs) = (if i < Suc (length fs) then f # drained (Suc i) fs else [])"

definition collect_replies :: "reply list \<Rightarrow> string list res" where
  "collect_replies rs =
     foldR (\<lambda>r acc.
       bindR (check_reply r) (\<lambda>r. bindR (as_array r) (\<lambda>elems.
         foldR (\<lambda>e acc. bindR (check_reply e) (\<lambda>e. bindR (as_string e) (\<lambda>s. Inr (acc @ [s])))) elems acc))) rs []"

definition redis_get_batch :: "'srv redis_api \<Rightarrow> string list \<Rightarrow> 'srv list \<Rightarrow> (string list \<times> 'srv list) res" where
  "redis_get_batch api keys clients =
     bindR (gather api clients (\<lambda>k. k) keys []) (\<lambda>key_vectors.
       let (futures, clients') = issue (rd_mget api) key_vectors (id_order api (um_keys key_vectors)) [] clients in
       bindR (collect_replies (drained 0 futures)) (\<lambda>vals. Inr (vals, clients')))"

text \<open>\<open>values[i]\<close> past the end of the vector is undefined.\<close>

definition redis_put_batch ::
  "'srv redis_api \<Rightarrow> string list \<Rightarrow> string list \<Rightarrow> 'srv list \<Rightarrow> 'srv list res" where
  "redis_put_batch api keys values clients =
     (if length values < length keys then Inl Undefined_behaviour
      else bindR (gather api clients fst (zip keys values) []) (\<lambda>kvs.
        let (futures, clients') = issue (rd_mset api) kvs (id_order api (um_keys kvs)) [] clients in
        bindR (foldR (\<lambda>r _. bindR (check_reply r) (\<lambda>_. Inr ())) (drained 0 futures) ()) (\<lambda>_.
        Inr clients')))"

definition redis_delete_batch :: "'srv redis_api \<Rightarrow> string list \<Rightarrow> 'srv list \<Rightarrow> 'srv list res" where
  "redis_delete_batch api keys clients =
     bindR (gather api clients (\<lambda>k. k) keys []) (\<lambda>key_vectors.
       Inr (snd (issue (rd_del api) key_vectors (id_order api (um_keys key_vectors)) [] clients)))"

subsection \<open>Documented behaviour of the commands\<close>

definition nil_or :: "string option \<Rightarrow> reply" where
  "nil_or v = (case v of None \<Rightarrow> RNull | Some s \<Rightarrow> RString s)"

text \<open>\<open>db s\<close> is the key space of the server behind connection \<open>s\<close>.\<close>

definition redis_lawful :: "'srv redis_api \<Rightarrow> ('srv \<Rightarrow> string \<Rightarrow> string option) \<Rightarrow> bool" where
  "redis_lawful api db \<longleftrightarrow>
     (\<forall>ks s. fst (rd_mget api ks s) = RArray (map (\<lambda>k. nil_or (db s k)) ks) \<and>
             db (snd (rd_mget api ks s)) = db s) \<and>
     (\<forall>kvs s. fst (rd_mset api kvs s) = RString ''OK'' \<and>
             db (snd (rd_mset api kvs s)) = db s ++ map_of (rev kvs)) \<and>
     (\<forall>ks s. db (snd (rd_del api ks s)) = db s |` (- set ks)) \<and>
     (\<forall>k s. fst (rd_get api k s) = nil_or (db s k) \<and> db (snd (rd_get api k s)) = db s) \<and>
     (\<forall>k v s. fst (rd_set api k v s) = RString ''OK'' \<and> db (snd (rd_set api k v s)) = (db s)(k \<mapsto> v)) \<and>
     (\<forall>is. mset (id_order api is) = mset is)"

text \<open>A server that is its own key space; it satisfies the laws.\<close>

definition table_api :: "(string, string) umap redis_api" where
  "table_api = \<lparr>
     rd_get = (\<lambda>k s. (nil_or (um_find s k), s)),
     rd_set = (\<lambda>k v s. (RString ''OK'', um_set k v s)),
     rd_mget = (\<lambda>ks s. (RArray (map (\<lambda>k. nil_or (um_find s k)) ks), s)),
     rd_mset = (\<lambda>kvs s. (RString ''OK'', fold (\<lambda>kv. um_set (fst kv) (snd kv)) kvs s)),
     rd_del = (\<lambda>ks s. (RInt (int (length (filter (um_has s) ks))), fold um_erase ks s)),
     rd_exists = (\<lambda>k s. (RInt (if um_has s k then 1 else 0), s)),
     rd_dbsize = (\<lambda>s. (RInt (int (length s)), s)),
     std_hash = (\<lambda>k. length k),
     id_order = (\<lambda>is. is)\<rparr>"

subsection \<open>Laws\<close>

lemma redis_lawfulD:
  assumes "redis_lawful api db"
  shows "fst (rd_mget api ks s) = RArray (map (\<lambda>k. nil_or (db s k)) ks)"
    "db (snd (rd_mget api ks s)) = db s"
    "fst (rd_mset api kvs s) = RString ''OK''"
    "db (snd (rd_mset api kvs s)) = db s ++ map_of (rev kvs)"
    "db (snd (rd_del api ks s)) = db s |` (- set ks)"
    "mset (id_order api is) = mset is"
  using assms by (auto simp: redis_lawful_def)

lemma um_find_fold_set: "um_find (fold (\<lambda>kv. um_set (fst kv) (snd kv)) kvs s) = um_find s ++ map_of (rev kvs)"
proof (induction kvs arbitrary: s)
  case (Cons kv kvs)
  then show ?case by (cases kv) (simp add: fun_eq_iff map_add_def split: option.splits)
qed (simp add: fun_eq_iff)

lemma um_find_fold_erase: "um_find (fold um_erase ks s) = um_find s |` (- set ks)"
proof (induction ks arbitrary: s)
  case (Cons k ks)
  then show ?case by (simp add: fun_eq_iff restrict_map_def)
qed (simp add: restrict_map_def)

lemma table_api_lawful: "redis_lawful table_api um_find"
  by (simp add: redis_lawful_def table_api_def um_find_fold_set um_find_fold_erase fun_eq_iff)

text \<open>With one server every key goes to it, in order.\<close>

lemma gather_single:
  "gather api [s] key_of xs vs =
     Inr (if xs = [] then vs else um_set 0 (um_at [] vs 0 @ xs) vs)"
proof (induction xs arbitrary: vs)
  case (Cons x xs)
  have "um_set 0 (um_at [] vs 0 @ x # xs) (um_set 0 (um_at [] vs 0 @ [x]) vs) = um_set 0 (um_at [] vs 0 @ x # xs) vs"
    unfolding um_set_def by (induction vs) auto
  with Cons show ?case by (simp add: client_idx_def um_at_set)
qed simp

lemma id_order_single:
  assumes "redis_lawful api db"
  shows "id_order api [i] = [i]"
proof -
  have "mset (id_order api [i]) = {#i#}" using redis_lawfulD(6) [OF assms, of "[i]"] by simp
  then have "size (mset (id_order api [i])) = 1" by simp
  then obtain j where "id_order api [i] = [j]" by (metis One_nat_def length_0_conv length_Suc_conv size_mset)
  with \<open>mset (id_order api [i]) = {#i#}\<close> show ?thesis by simp
qed

lemma id_order_empty:
  assumes "redis_lawful api db"
  shows "id_order api [] = []"
  using redis_lawfulD(6) [OF assms, of "[]"] by simp

lemma collect_single:
  "foldR (\<lambda>e acc. bindR (check_reply e) (\<lambda>e. bindR (as_string e) (\<lambda>s. Inr (acc @ [s]))))
     (map (\<lambda>k. RString (f k)) ks) acc = Inr (acc @ map f ks)"
  by (induction ks arbitrary: acc) (simp_all add: check_reply_def)

lemma redis_get_batch_single:
  assumes "redis_lawful api db" and "\<And>k. k \<in> set keys \<Longrightarrow> db s k = Some (f k)"
  shows "\<exists>s'. redis_get_batch api keys [s] = Inr (map f keys, [s']) \<and> db s' = db s"
proof (cases "keys = []")
  case True
  then show ?thesis by (simp add: redis_get_batch_def gather_single id_order_empty [OF assms(1)] collect_replies_def)
next
  case False
  have m: "map (\<lambda>k. nil_or (db s k)) keys = map (\<lambda>k. RString (f k)) keys"
    using assms(2) by (simp add: nil_or_def)
  obtain r s' where rs: "rd_mget api keys s = (r, s')" by (cases "rd_mget api keys s")
  then have r: "r = RArray (map (\<lambda>k. RString (f k)) keys)" "db s' = db s"
    using redis_lawfulD(1,2) [OF assms(1), of keys s] m by auto
  show ?thesis
    using False rs r
    by (simp add: redis_get_batch_def gather_single um_at_def id_order_single [OF assms(1)] um_find_def
        collect_replies_def collect_single check_reply_def [of "RArray _"])
qed

lemma redis_put_batch_single:
  assumes "redis_lawful api db" and "length keys = length values"
  shows "\<exists>s'. redis_put_batch api keys values [s] = Inr [s'] \<and> db s' = db s ++ map_of (rev (zip keys values))"
proof (cases "keys = []")
  case True
  then show ?thesis by (simp add: redis_put_batch_def gather_single id_order_empty [OF assms(1)] assms(2))
next
  case False
  then have z: "zip keys values \<noteq> []" using assms(2) by (cases keys; cases "values") auto
  obtain r s' where rs: "rd_mset api (zip keys values) s = (r, s')" by (cases "rd_mset api (zip keys values) s")
  then have r: "r = RString ''OK''" "db s' = db s ++ map_of (rev (zip keys values))"
    using redis_lawfulD(3,4) [OF assms(1), of "zip keys values" s] by auto
  show ?thesis
    using z rs r assms(2)
    by (simp add: redis_put_batch_def gather_single um_at_def id_order_single [OF assms(1)] um_find_def check_reply_def)
qed

lemma redis_delete_batch_single:
  assumes "redis_lawful api db"
  shows "\<exists>s'. redis_delete_batch api keys [s] = Inr [s'] \<and> db s' = db s |` (- set keys)"
proof (cases "keys = []")
  case True
  then show ?thesis by (simp add: redis_delete_batch_def gather_single id_order_empty [OF assms(1)] restrict_map_def)
next
  case False
  obtain r s' where rs: "rd_del api keys s = (r, s')" by (cases "rd_del api keys s")
  then have "db s' = db s |` (- set keys)" using redis_lawfulD(5) [OF assms(1), of keys s] by auto
  then show ?thesis
    using False rs by (simp add: redis_delete_batch_def gather_single um_at_def id_order_single [OF assms(1)] um_find_def)
qed

end
