(* ===== verification/Waffle_Proxy.thy ===== *)
theory Waffle_Proxy
  imports Lru_Cache Evicted_Items Frequency_Smoother Running_Keys Crypto_Engine Redis_Storage
begin

text \<open>
  The proxy (\<open>proxy/src/waffle_proxy.cpp\<close>, \<open>waffle_proxy.h\<close>): its state, the composition of a batch
  from client operations (\<open>get_split_keys\<close>, \<open>remove_oldest_data\<close>, \<open>create_security_batch\<close>, the inner
  loop of \<open>consumer_thread\<close>), the execution of a batch against the storage server
  (\<open>execute_batch\<close>), the thread that deletes superseded storage locations (\<open>clearThread\<close>) and the
  initialisation.  The state machine of this theory has one consumer thread, as the server starts one
  (\<open>num_cores = 1\<close>); \<open>Proxy_Consumers\<close> has several.  Console output and the time stamp counter reads have
  no part in the state; the log file of \<open>execute_batch\<close> is the subject of \<open>Proxy_Log\<close>.

  An operation is the pair of its key and value; a GET has the empty value.  Local variables of
  \<open>execute_batch\<close> that live across its loops are explicit arguments and results.
\<close>

subsection \<open>Configuration, environment, state\<close>

record config =
  cfg_R :: int
  cfg_B :: int
  cfg_F :: int
  cfg_D :: int
  object_size :: nat
  cacheBatches :: nat
  redisBulkLength :: nat

record ('srv, 'ctx) env =
  e_evp :: "'ctx evp"
  e_redis :: "'srv redis_api"
  e_float :: float_ops
  e_rand :: rand_stream
  e_kv_order :: "(string \<times> string) list \<Rightarrow> (string \<times> string) list"
  e_req_order :: "int list \<Rightarrow> int list"

record 'srv proxy =
  timeStamp :: int
  realBst :: freq
  fakeBst :: freq
  pcache :: cache
  EvictedItems :: evictedItems
  runningKeys :: running
  keys_to_be_deleted :: "string list"
  promises :: promise_store
  storage :: "'srv list"
  encryption_engine :: engine
  rand_pos :: nat
  keysNotUsed :: "string list list"

type_synonym operation = "string \<times> string"

definition invalid_key_response :: string where
  "invalid_key_response = ''No record found!''"

text \<open>The copy assignment of \<open>operation\<close> (\<open>operation.h\<close>) returns the left operand unchanged.\<close>

definition operation_assign :: "operation \<Rightarrow> operation \<Rightarrow> operation" where
  "operation_assign this other = this"

definition operation_eq :: "operation \<Rightarrow> operation \<Rightarrow> bool" where
  "operation_eq a b = (if \<not> fst a = fst b then False else if \<not> snd a = snd b then False else True)"

subsection \<open>Composing a batch\<close>

text \<open>\<open>std::lower_bound\<close> and \<open>std::upper_bound\<close> on a sorted vector, as indices.\<close>

definition lower_bound_idx :: "int list \<Rightarrow> int \<Rightarrow> nat" where
  "lower_bound_idx ts x = length (takeWhile (\<lambda>t. t < x) ts)"

definition upper_bound_idx :: "int list \<Rightarrow> int \<Rightarrow> nat" where
  "upper_bound_idx ts x = length (takeWhile (\<lambda>t. t \<le> x) ts)"

definition range_timestamps :: "int list \<Rightarrow> int \<Rightarrow> int \<Rightarrow> int list" where
  "range_timestamps available start end =
     (let ts = sort available;
          lb = (let l = lower_bound_idx ts start in if l \<noteq> 0 then l - 1 else l);
          ub = upper_bound_idx ts end
      in if lb < ub then take (ub - lb) (drop lb ts) else [])"

definition get_split_keys :: "string \<Rightarrow> freq \<Rightarrow> (string list \<times> freq) res" where
  "get_split_keys get_key b =
     (let parts = getlines CHR ''@'' get_key in
      if length parts < 3 then Inl Undefined_behaviour
      else let key_name = parts ! 0 in
        bindR (stol (parts ! 1)) (\<lambda>start_timestamp.
        bindR (stol (parts ! 2)) (\<lambda>end_timestamp.
        let (available, b1) = fs_get_timestamp_for_key key_name b in
        Inr (map (\<lambda>t. key_name @ ''@'' @ to_string t) (range_timestamps available start_timestamp end_timestamp), b1))))"

definition remove_oldest_data ::
  "string \<Rightarrow> operation list \<times> 'srv proxy \<Rightarrow> (operation list \<times> 'srv proxy) res" where
  "remove_oldest_data currentKey st =
     (let (storage_batch, s) = st in
      bindR (fs_getOldestKey (keys_to_be_deleted s) currentKey (realBst s)) (\<lambda>(oldest_key, rb).
      let s0 = s\<lparr>realBst := rb\<rparr> in
      bindR (getValueWithoutPositionChangeNew (pcache s0) oldest_key) (\<lambda>(val, isPresentInCache).
      let valEvicted = ev_getValue (EvictedItems s0) oldest_key;
          state = (if isPresentInCache then 1 else 0 :: nat);
          state = (if valEvicted \<noteq> '''' then 2 else state)
      in if state = 0 then
           let (isPresentInRunningKeys, rk) = insertIfNotPresent oldest_key (runningKeys s0) in
           Inr (if isPresentInRunningKeys then storage_batch else storage_batch @ [(oldest_key, '''')],
                s0\<lparr>runningKeys := rk, keys_to_be_deleted := keys_to_be_deleted s0 @ [oldest_key]\<rparr>)
         else if state = 1 then
           bindR (Cache_removeKey oldest_key (pcache s0)) (\<lambda>(_, c).
           bindR (fs_removeKey oldest_key (realBst s0)) (\<lambda>rb.
           Inr (storage_batch, s0\<lparr>pcache := c, realBst := rb\<rparr>)))
         else
           bindR (fs_removeKey oldest_key (realBst s0)) (\<lambda>rb.
           Inr (storage_batch, s0\<lparr>EvictedItems := ev_erase oldest_key (EvictedItems s0), realBst := rb\<rparr>)))))"

text \<open>The result also counts the cache misses.\<close>

definition create_security_batch ::
  "operation \<times> nat \<Rightarrow> int \<Rightarrow> operation list \<times> int \<times> 'srv proxy \<Rightarrow> (operation list \<times> int \<times> 'srv proxy) res" where
  "create_security_batch op_prom request_id st =
     (let (opn, prom) = op_prom; (storage_batch, cacheMisses, s) = st; currentKey = fst opn in
      if snd opn = '''' then
        if \<not> fs_checkIfUniqueItemWithTimeStampExists (realBst s) currentKey then
          bindR (set_value prom invalid_key_response (promises s)) (\<lambda>ps.
          Inr (storage_batch, cacheMisses, s\<lparr>promises := ps\<rparr>))
        else bindR (getValueWithoutPositionChangeNew (pcache s) currentKey) (\<lambda>(val, isPresentInCache).
          let valEvicted = ev_getValue (EvictedItems s) currentKey in
          if isPresentInCache then
            bindR (insert_cache request_id currentKey val (Some prom) (runningKeys s)) (\<lambda>rk.
            Inr (storage_batch, cacheMisses, s\<lparr>runningKeys := rk\<rparr>))
          else if valEvicted \<noteq> '''' then
            bindR (insert_cache request_id currentKey valEvicted (Some prom) (runningKeys s)) (\<lambda>rk.
            Inr (storage_batch, cacheMisses, s\<lparr>runningKeys := rk\<rparr>))
          else
            let (isPresentInRunningKeys, rk) = insertIfNotPresent_get currentKey (Some prom) request_id (runningKeys s) in
            Inr (if isPresentInRunningKeys then storage_batch else storage_batch @ [opn],
                 cacheMisses + 1, s\<lparr>runningKeys := rk\<rparr>))
      else
        bindR (remove_oldest_data currentKey (storage_batch, s)) (\<lambda>(storage_batch, s1).
        bindR (insertIntoCache currentKey (snd opn) (pcache s1)) (\<lambda>c.
        bindR (fs_insert currentKey (realBst s1)) (\<lambda>rb.
        let s2 = s1\<lparr>pcache := c, realBst := fs_setFrequency currentKey (timeStamp s1) rb\<rparr> in
        bindR (getValueWithoutPositionChange (pcache s2) currentKey) (\<lambda>v.
        bindR (set_value prom v (promises s2)) (\<lambda>ps.
        Inr (storage_batch, cacheMisses, s2\<lparr>promises := ps\<rparr>)))))))"

text \<open>
  The inner loop of \<open>consumer_thread\<close> over the operations its queue delivers: it takes operations
  until \<open>R\<close> storage keys have been counted.  The first component of the result is what is left in
  the queue; a loop that runs out of operations keeps polling, so the count tells whether the
  batch is full.
\<close>

fun fill_batch ::
  "int \<Rightarrow> (operation \<times> nat) list \<Rightarrow> int \<Rightarrow> int \<Rightarrow> operation list \<times> int \<times> 'srv proxy \<Rightarrow>
   ((operation \<times> nat) list \<times> int \<times> int \<times> operation list \<times> int \<times> 'srv proxy) res" where
  "fill_batch R [] i request_id st = Inr ([], i, request_id, st)"
| "fill_batch R (op_prom # queue) i request_id st =
     (if \<not> i < R then Inr (op_prom # queue, i, request_id, st)
      else let ((key, value), prom) = op_prom; (batch, misses, s) = st in
        if value = '''' then
          bindR (get_split_keys key (realBst s)) (\<lambda>(db_keys, rb).
          bindR (foldR (\<lambda>k. create_security_batch ((k, ''''), prom) request_id) db_keys
                  (batch, misses, s\<lparr>realBst := rb\<rparr>)) (\<lambda>st1.
          bindR (add32 i (int (length db_keys))) (\<lambda>i1.
          bindR (add32 request_id 1) (\<lambda>id1.
          fill_batch R queue i1 id1 st1))))
        else
          bindR (create_security_batch op_prom (- 1) st) (\<lambda>st1.
          bindR (add32 i 1) (\<lambda>i1.
          fill_batch R queue i1 request_id st1)))"

subsection \<open>Executing a batch\<close>

text \<open>
  One key joins the read batch: its current location is queued for reading and its frequency
  becomes the number of this batch.  The state is the index, the vector \<open>storage_keys\<close> and the map
  \<open>readBatchMap\<close>.
\<close>

definition read_key ::
  "(string \<Rightarrow> string) \<Rightarrow> int \<Rightarrow> string \<Rightarrow> freq \<times> string list \<times> (string, string) umap \<Rightarrow>
   freq \<times> string list \<times> (string, string) umap" where
  "read_key P ts key st =
     (let (b, storage_keys, readBatchMap) = st;
          (f, b1) = fs_getFrequency key b;
          stKey = P (sid key f)
      in (fs_setFrequency key ts b1, storage_keys @ [stKey], um_set stKey key readBatchMap))"

text \<open>
  The real keys that fill the batch: the least recently accessed keys that are neither cached, nor
  evicted, nor in flight.  Reading past the last key is undefined.  \<open>w\<close> is how many are still wanted.
\<close>

fun select_real ::
  "cache \<Rightarrow> evictedItems \<Rightarrow> nat \<Rightarrow> (string \<times> int) list \<Rightarrow> running \<Rightarrow> string list \<Rightarrow> (string list \<times> running) res" where
  "select_real c ev w [] rk acc = (if w = 0 then Inr (acc, rk) else Inl Undefined_behaviour)"
| "select_real c ev w (kf # it) rk acc =
     (if w = 0 then Inr (acc, rk)
      else if \<not> Cache_checkIfKeyExists c (fst kf) \<and> \<not> ev_checkIfKeyExists ev (fst kf) then
        let (isPresentInRunningKeys, rk1) = insertIfNotPresent (fst kf) rk in
        if isPresentInRunningKeys then select_real c ev w it rk1 acc
        else select_real c ev (w - 1) it rk1 (acc @ [fst kf])
      else select_real c ev w it rk acc)"

text \<open>\<open>B-(operations.size()+F)\<close> is computed in \<open>size_t\<close>.\<close>

definition real_wanted :: "config \<Rightarrow> nat \<Rightarrow> nat" where
  "real_wanted cfg n = nat ((cfg_B cfg - (int n + cfg_F cfg)) mod 2 ^ 64)"

text \<open>
  The fake keys of the batch: the least recently used fake key again and again, skipping (and so
  asking again for) a key in flight.  \<open>n\<close> is how many are still wanted.
\<close>

fun fake_loop ::
  "(string \<Rightarrow> string) \<Rightarrow> int \<Rightarrow> nat \<Rightarrow> nat \<Rightarrow> running \<Rightarrow> freq \<times> string list \<times> (string, string) umap \<Rightarrow>
   (running \<times> freq \<times> string list \<times> (string, string) umap) res" where
  "fake_loop P ts fuel 0 rk st = Inr (rk, st)"
| "fake_loop P ts 0 (Suc n) rk st = Inl Out_of_fuel"
| "fake_loop P ts (Suc fuel) (Suc n) rk st =
     bindR (fs_getKeyWithMinFrequency (fst st)) (\<lambda>fakeMinKey.
       let (isPresentInRunningKeys, rk1) = insertIfNotPresent fakeMinKey rk in
       if isPresentInRunningKeys then fake_loop P ts fuel (Suc n) rk1 st
       else fake_loop P ts fuel n rk1 (read_key P ts fakeMinKey st))"

text \<open>The local variables the write loop builds.\<close>

record writes =
  writeBatchKeys :: "string list"
  writeBatchValues :: "string list"
  promiseSatisfy :: "(string, string) umap"
  tempEvictedItems :: "string list"

definition process_real ::
  "('srv, 'ctx) env \<Rightarrow> (string, string) umap \<Rightarrow> string \<times> string \<Rightarrow> 'srv proxy \<times> writes \<Rightarrow> ('srv proxy \<times> writes) res" where
  "process_real e readBatchMap key_resp st =
     (let (s, w) = st; (stKey, response) = key_resp;
          E = e_evp e; g = encryption_engine s;
          (kv, c1) = evictLRElementFromCache (pcache s);
          ev1 = ev_insert (fst kv) (snd kv) (EvictedItems s);
          (f, rb1) = fs_getFrequency (fst kv) (realBst s);
          writeBatchKey = eng_prf E g (sid (fst kv) f);
          keyIn = um_at '''' readBatchMap stKey
      in bindR (encryptNonDeterministic E g (e_rand e) (rand_pos s) (snd kv)) (\<lambda>(writeBatchValue, pos).
         bindR (decryptNonDeterministic E g response) (\<lambda>valueIn.
         let w1 = w\<lparr>tempEvictedItems := List.insert (fst kv) (tempEvictedItems w),
                    writeBatchKeys := writeBatchKeys w @ [writeBatchKey],
                    writeBatchValues := writeBatchValues w @ [writeBatchValue],
                    promiseSatisfy := um_set keyIn valueIn (promiseSatisfy w)\<rparr>;
             s1 = s\<lparr>pcache := c1, EvictedItems := ev1, realBst := rb1, rand_pos := pos\<rparr>
         in if keyIn \<in> set (keys_to_be_deleted s) then
              bindR (fs_removeKey keyIn (realBst s1)) (\<lambda>rb.
              Inr (s1\<lparr>realBst := rb, keys_to_be_deleted := filter (\<lambda>k. k \<noteq> keyIn) (keys_to_be_deleted s1)\<rparr>, w1))
            else
              bindR (if Cache_checkIfKeyExists (pcache s1) keyIn then getValueWithoutPositionChange (pcache s1) keyIn
                     else Inr valueIn) (\<lambda>v.
              bindR (insertIntoCache keyIn v (pcache s1)) (\<lambda>c. Inr (s1\<lparr>pcache := c\<rparr>, w1))))))"

definition process_fake ::
  "config \<Rightarrow> ('srv, 'ctx) env \<Rightarrow> (string, string) umap \<Rightarrow> string \<times> string \<Rightarrow> 'srv proxy \<times> writes \<Rightarrow> ('srv proxy \<times> writes) res" where
  "process_fake cfg e readBatchMap key_resp st =
     (let (s, w) = st; (stKey, response) = key_resp;
          E = e_evp e; g = encryption_engine s;
          fakeWriteKey = um_at '''' readBatchMap stKey;
          (f, fb) = fs_getFrequency fakeWriteKey (fakeBst s)
      in bindR (decryptNonDeterministic E g response) (\<lambda>v.
         let (fresh, pos) = gen_random (e_rand e) (rand_pos s) (object_size cfg) in
         bindR (encryptNonDeterministic E g (e_rand e) pos fresh) (\<lambda>(c, pos').
         Inr (s\<lparr>fakeBst := fb, rand_pos := pos'\<rparr>,
              w\<lparr>promiseSatisfy := um_set fakeWriteKey v (promiseSatisfy w),
                writeBatchKeys := writeBatchKeys w @ [eng_prf E g (sid fakeWriteKey f)],
                writeBatchValues := writeBatchValues w @ [c]\<rparr>))))"

definition no_writes :: writes where
  "no_writes = \<lparr>writeBatchKeys = [], writeBatchValues = [], promiseSatisfy = [], tempEvictedItems = []\<rparr>"

text \<open>The first half: which locations the batch reads (\<open>storage_keys\<close>), and how many are real.\<close>

definition choose_batch ::
  "nat \<Rightarrow> config \<Rightarrow> ('srv, 'ctx) env \<Rightarrow> operation list \<Rightarrow> 'srv proxy \<Rightarrow>
   (nat \<times> string list \<times> (string, string) umap \<times> 'srv proxy) res" where
  "choose_batch fuel cfg e operations s =
     (let ts = wrap32 (timeStamp s + 1);
          P = eng_prf (e_evp e) (encryption_engine s);
          (rb1, sk1, rm1) = fold (\<lambda>opn. read_key P ts (fst opn)) operations (realBst s, [], [])
      in bindR (select_real (pcache s) (EvictedItems s) (real_wanted cfg (length operations)) (accessTree rb1)
                  (runningKeys s) []) (\<lambda>(realKeysNotInCache, rk1).
         let (rb2, sk2, rm2) = fold (read_key P ts) realKeysNotInCache (rb1, sk1, rm1) in
         bindR (fake_loop P ts fuel (nat (cfg_F cfg)) rk1 (fakeBst s, sk2, rm2)) (\<lambda>(rk2, fb, sk3, rm3).
         Inr (length operations + length realKeysNotInCache, sk3, rm3,
              s\<lparr>timeStamp := ts, realBst := rb2, fakeBst := fb, runningKeys := rk2\<rparr>))))"

text \<open>The second half: write back, answer the waiting requests, hand the read locations to the cleaner.\<close>

definition finish_batch ::
  "('srv, 'ctx) env \<Rightarrow> string list \<Rightarrow> 'srv proxy \<times> writes \<Rightarrow> 'srv proxy res" where
  "finish_batch e storage_keys st =
     (let (s, w) = st in
      bindR (redis_put_batch (e_redis e) (writeBatchKeys w) (writeBatchValues w) (storage s)) (\<lambda>srv.
      bindR (foldR (\<lambda>kv. tryClearPromises (e_float e) (fst kv) (snd kv)) (e_kv_order e (promiseSatisfy w))
               (runningKeys s, promises s)) (\<lambda>(rk, ps).
      Inr (s\<lparr>storage := srv, EvictedItems := fold ev_erase (tempEvictedItems w) (EvictedItems s),
             runningKeys := rk, promises := ps, keysNotUsed := keysNotUsed s @ [storage_keys]\<rparr>))))"

text \<open>
  What follows the choice: read, exchange the real keys, then the fake ones, and finish.  The result carries
  the local \<open>storage_keys\<close> and the write vectors beside the new state.
\<close>

definition exchange_batch ::
  "config \<Rightarrow> ('srv, 'ctx) env \<Rightarrow> nat \<times> string list \<times> (string, string) umap \<times> 'srv proxy \<Rightarrow> (string list \<times> writes \<times> 'srv proxy) res" where
  "exchange_batch cfg e chosen =
     (let (nreal, storage_keys, readBatchMap, s1) = chosen in
     bindR (redis_get_batch (e_redis e) storage_keys (storage s1)) (\<lambda>(responses, srv).
     if length responses < length storage_keys then Inl Undefined_behaviour
     else let kr = zip storage_keys responses in
       bindR (foldR (process_real e readBatchMap) (take nreal kr) (s1\<lparr>storage := srv\<rparr>, no_writes)) (\<lambda>st1.
       bindR (foldR (process_fake cfg e readBatchMap) (drop nreal kr) st1) (\<lambda>st2.
       bindR (finish_batch e storage_keys st2) (\<lambda>s3. Inr (storage_keys, snd st2, s3))))))"

definition execute_batch ::
  "nat \<Rightarrow> config \<Rightarrow> ('srv, 'ctx) env \<Rightarrow> operation list \<Rightarrow> 'srv proxy \<Rightarrow> (string list \<times> writes \<times> 'srv proxy) res" where
  "execute_batch fuel cfg e operations s =
     bindR (choose_batch fuel cfg e operations s) (exchange_batch cfg e)"

text \<open>One round of \<open>consumer_thread\<close> on a full batch.\<close>

definition consumer_round ::
  "nat \<Rightarrow> config \<Rightarrow> ('srv, 'ctx) env \<Rightarrow> operation list \<Rightarrow> 'srv proxy \<Rightarrow> (string list \<times> writes \<times> 'srv proxy) res" where
  "consumer_round fuel cfg e storage_batch s =
     bindR (tryClearAllPromises (e_req_order e) (e_float e) (runningKeys s, promises s)) (\<lambda>(rk, ps).
     execute_batch fuel cfg e storage_batch (s\<lparr>runningKeys := rk, promises := ps\<rparr>))"

text \<open>One round of \<open>clearThread\<close>; an empty queue blocks.\<close>

definition clear_round :: "('srv, 'ctx) env \<Rightarrow> 'srv proxy \<Rightarrow> 'srv proxy res" where
  "clear_round e s =
     (case keysNotUsed s of [] \<Rightarrow> Inl Blocked
      | keyVectorNotUsed # rest \<Rightarrow>
          if 0 < length keyVectorNotUsed then
            bindR (redis_delete_batch (e_redis e) keyVectorNotUsed (storage s)) (\<lambda>srv.
            Inr (s\<lparr>storage := srv, keysNotUsed := rest\<rparr>))
          else Inr (s\<lparr>keysNotUsed := rest\<rparr>))"

end
