(* ===== verification/Proxy_Choose.thy ===== *)
theory Proxy_Choose
  imports Waffle_Proxy
begin

text \<open>
  The first half of \<open>execute_batch\<close>: which storage locations a batch reads.  The three groups of the
  read batch (client keys, real keys that fill the batch, fake keys) are pairwise disjoint, every
  key is read at its current location, and its frequency becomes the number of the batch.
\<close>

subsection \<open>One group of reads\<close>

text \<open>Reading a list of known keys; \<open>L\<close> names the location each key is read from.\<close>

lemma read_keys:
  assumes "fs_inv b" and "distinct ks" and "\<forall>k \<in> set ks. um_has (accessFreqs b) k"
    and "L = (\<lambda>k. P (sid k (fs_freq b k)))"
  shows "fold (read_key P ts) ks (b, sk, rm) =
    (fold (\<lambda>k. fs_setFrequency k ts) ks b, sk @ map L ks, fold (\<lambda>k. um_set (L k) k) ks rm)"
  using assms
proof (induction ks arbitrary: b sk rm L)
  case (Cons k ks)
  let ?b = "fs_setFrequency k ts b"
  have same: "P (sid j (fs_freq ?b j)) = L j" if "j \<in> set ks" for j
    using Cons.prems(2,4) that by auto
  have "fold (read_key P ts) ks (?b, sk @ [L k], um_set (L k) k rm) =
    (fold (\<lambda>k. fs_setFrequency k ts) ks ?b, (sk @ [L k]) @ map (\<lambda>k. P (sid k (fs_freq ?b k))) ks,
     fold (\<lambda>j. um_set (P (sid j (fs_freq ?b j))) j) ks (um_set (L k) k rm))"
    by (rule Cons.IH) (use Cons.prems fs_setFrequency_inv in auto)
  moreover have "map (\<lambda>k. P (sid k (fs_freq ?b k))) ks = map L ks" using same by simp
  moreover have "fold (\<lambda>j. um_set (P (sid j (fs_freq ?b j))) j) ks m = fold (\<lambda>j. um_set (L j) j) ks m" for m
    by (rule fold_cong) (use same in \<open>auto simp del: fs_setFrequency_simps\<close>)
  moreover have "read_key P ts k (b, sk, rm) = (?b, sk @ [L k], um_set (L k) k rm)"
    using Cons.prems(3,4) by (simp add: read_key_def Let_def)
  ultimately show ?case by (simp del: fs_setFrequency_simps)
qed simp

lemma fold_setFrequency_facts:
  assumes "fs_inv b"
  shows "fs_inv (fold (\<lambda>k. fs_setFrequency k ts) ks b)"
    "um_find (accessFreqs (fold (\<lambda>k. fs_setFrequency k ts) ks b)) k =
       (if k \<in> set ks then Some ts else um_find (accessFreqs b) k)"
    "needTimeStamp (fold (\<lambda>k. fs_setFrequency k ts) ks b) = needTimeStamp b"
    "uniqueItemWithTimeStamp (fold (\<lambda>k. fs_setFrequency k ts) ks b) = uniqueItemWithTimeStamp b"
proof -
  note all = fs_index.set_all [OF assms, of ts ks]
  show "fs_inv (fold (\<lambda>k. fs_setFrequency k ts) ks b)" using all by blast
  show "um_find (accessFreqs (fold (\<lambda>k. fs_setFrequency k ts) ks b)) k =
       (if k \<in> set ks then Some ts else um_find (accessFreqs b) k)"
    using all by (simp add: fun_eq_iff)
  show "needTimeStamp (fold (\<lambda>k. fs_setFrequency k ts) ks b) = needTimeStamp b"
    by (induction ks arbitrary: b) simp_all
  show "uniqueItemWithTimeStamp (fold (\<lambda>k. fs_setFrequency k ts) ks b) = uniqueItemWithTimeStamp b"
    by (induction ks arbitrary: b) simp_all
qed

lemma fold_setFrequency_freq:
  assumes "fs_inv b"
  shows "fs_freq (fold (\<lambda>k. fs_setFrequency k ts) ks b) k = (if k \<in> set ks then ts else fs_freq b k)"
    "set ks \<subseteq> Collect (um_has (accessFreqs b)) \<Longrightarrow>
       um_has (accessFreqs (fold (\<lambda>k. fs_setFrequency k ts) ks b)) k \<longleftrightarrow> um_has (accessFreqs b) k"
  using fold_setFrequency_facts(2) [OF assms, of ts ks k] by (auto simp: fs_freq_def um_at_def um_has_def)

lemma fold_setFrequency_ts_inv:
  assumes "ts_inv b" and "set ks \<subseteq> Collect (um_has (accessFreqs b))"
  shows "ts_inv (fold (\<lambda>k. fs_setFrequency k ts) ks b)"
  using assms
proof (induction ks arbitrary: b)
  case (Cons k ks)
  have "ts_inv (fs_setFrequency k ts b)" using Cons.prems fs_setFrequency_ts_inv [of b k ts] by auto
  then show ?case using Cons.IH [of "fs_setFrequency k ts b"] Cons.prems(2) by auto
qed simp

text \<open>A location that several reads share would belong to several keys; different locations do not.\<close>

lemma read_map_other:
  "i \<notin> L ` set ks \<Longrightarrow> um_find (fold (\<lambda>k. um_set (L k) k) ks rm) i = um_find rm i"
  by (induction ks arbitrary: rm) auto

lemma read_map_find:
  assumes "inj_on L (set ks)" and "k \<in> set ks"
  shows "um_find (fold (\<lambda>k. um_set (L k) k) ks rm) (L k) = Some k"
  using assms
proof (induction ks arbitrary: rm)
  case (Cons a ks)
  show ?case
  proof (cases "k \<in> set ks")
    case True
    then show ?thesis using Cons.IH Cons.prems(1) by (auto simp: inj_on_def)
  next
    case False
    then have "k = a" "L k \<notin> L ` set ks" using Cons.prems by (auto simp: inj_on_def)
    then show ?thesis by (simp add: read_map_other)
  qed
qed simp

subsection \<open>The real keys that fill the batch\<close>

definition eligible :: "cache \<Rightarrow> evictedItems \<Rightarrow> running \<Rightarrow> string \<Rightarrow> bool" where
  "eligible c ev rk k \<longleftrightarrow> \<not> Cache_checkIfKeyExists c k \<and> \<not> ev_checkIfKeyExists ev k \<and> \<not> rk_present rk k"

text \<open>The key tables the requests wait on, and what is registered for them.\<close>

definition same_requests :: "running \<Rightarrow> running \<Rightarrow> bool" where
  "same_requests r r' \<longleftrightarrow> get_map r' = get_map r \<and> request_map r' = request_map r \<and> get_cache r' = get_cache r"

lemma same_requests_refl [simp]: "same_requests r r"
  by (simp add: same_requests_def)

lemma same_requests_trans: "same_requests a b \<Longrightarrow> same_requests b c \<Longrightarrow> same_requests a c"
  by (simp add: same_requests_def)

lemma insertIfNotPresent_facts:
  assumes "insertIfNotPresent k r = (p, r')"
  shows "p = rk_present r k" "same_requests r r'" "rk_present r' j \<longleftrightarrow> j = k \<or> rk_present r j"
  using assms by (auto simp: insertIfNotPresent_def rk_present_def same_requests_def)

lemma select_real_ok:
  assumes "distinct (map fst it)" and "w \<le> length (filter (eligible c ev rk) (map fst it))"
  shows "\<exists>rk'. select_real c ev w it rk acc = Inr (acc @ take w (filter (eligible c ev rk) (map fst it)), rk') \<and>
    same_requests rk rk' \<and>
    (\<forall>k. rk_present rk' k \<longleftrightarrow> rk_present rk k \<or> k \<in> set (take w (filter (eligible c ev rk) (map fst it))))"
  using assms
proof (induction it arbitrary: w rk acc)
  case Nil
  then show ?case by auto
next
  case (Cons kf it)
  obtain k f where kf: "kf = (k, f)" by fastforce
  show ?case
  proof (cases "w = 0 \<or> Cache_checkIfKeyExists c k \<or> ev_checkIfKeyExists ev k")
    case True
    then show ?thesis using Cons kf by (auto simp: eligible_def)
  next
    case False
    obtain p rk1 where i: "insertIfNotPresent k rk = (p, rk1)" by fastforce
    note F = insertIfNotPresent_facts [OF i]
    have el: "filter (eligible c ev rk1) (map fst it) = filter (eligible c ev rk) (map fst it)"
      by (rule filter_cong) (use Cons.prems(1) kf F(3) in \<open>auto simp: eligible_def\<close>)
    show ?thesis
    proof (cases p)
      case True
      then have ek: "\<not> eligible c ev rk k" using F(1) by (simp add: eligible_def)
      have "\<And>j. rk_present rk1 j \<longleftrightarrow> rk_present rk j" using F(1,3) True by auto
      then show ?thesis
        using Cons.IH [of w rk1 acc] Cons.prems kf el ek True False i same_requests_trans [OF F(2)]
        by (auto split: prod.splits)
    next
      case np: False
      then have ek: "eligible c ev rk k" using F(1) False by (simp add: eligible_def)
      obtain w' where w: "w = Suc w'" using False by (cases w) auto
      have len: "w' \<le> length (filter (eligible c ev rk1) (map fst it))" using Cons.prems(2) kf ek el w by simp
      from Cons.IH [OF _ len, of "acc @ [k]"] Cons.prems(1) obtain rk' where
        "select_real c ev w' it rk1 (acc @ [k]) = Inr ((acc @ [k]) @ take w' (filter (eligible c ev rk) (map fst it)), rk')"
        "same_requests rk1 rk'"
        "\<forall>j. rk_present rk' j \<longleftrightarrow> rk_present rk1 j \<or> j \<in> set (take w' (filter (eligible c ev rk) (map fst it)))"
        using el by auto
      then show ?thesis
        using kf w np False i ek F(3) same_requests_trans [OF F(2)] by auto
    qed
  qed
qed

text \<open>The filter walks the tree in the order of the frequencies, so it takes the least recent keys.\<close>

lemma take_sorted_least:
  assumes "sorted_wrt freqCmp t" and "(k, f) \<in> set t" and "(k', f') \<in> set t"
    and "k \<in> set (take w (filter Q (map fst t)))" and "k' \<notin> set (take w (filter Q (map fst t)))" and "Q k'"
    and "distinct (map fst t)"
  shows "f \<le> f'"
  using assms
proof (induction t arbitrary: w)
  case (Cons x t)
  show ?case
  proof (cases "Q (fst x)")
    case False
    then have "x \<noteq> (k, f)" "x \<noteq> (k', f')" using Cons.prems(4,6) by (auto dest: in_set_takeD)
    then show ?thesis using Cons.IH [of w] Cons.prems False by auto
  next
    case True
    then obtain w' where w: "w = Suc w'" using Cons.prems(4) by (cases w) auto
    have x': "x \<noteq> (k', f')" using Cons.prems(5) True w by auto
    show ?thesis
    proof (cases "x = (k, f)")
      case True
      then have "freqCmp (k, f) (k', f')" using Cons.prems(1,3) x' by auto
      then show ?thesis using freqCmp_freq_le by fastforce
    next
      case x: False
      then have "(k, f) \<in> set t" using Cons.prems(2) by simp
      then have "k \<in> fst ` set t" by force
      then have "fst x \<noteq> k" using Cons.prems(7) by auto
      then have "k \<in> set (take w' (filter Q (map fst t)))" using Cons.prems(4) True w by auto
      then show ?thesis using Cons.IH [of w'] Cons.prems True w x x' by auto
    qed
  qed
qed simp

lemma tree_keys:
  assumes "fs_inv b"
  shows "distinct (map fst (accessTree b))" "set (map fst (accessTree b)) = Collect (um_has (accessFreqs b))"
proof -
  have "x = y" if "x \<in> set (accessTree b)" "y \<in> set (accessTree b)" "fst x = fst y" for x y
    using that fs_invD(3) [OF assms] by (metis option.inject prod.collapse)
  then show "distinct (map fst (accessTree b))"
    using sorted_tree_distinct [OF fs_invD(2) [OF assms]] by (auto simp: distinct_map inj_on_def)
  show "set (map fst (accessTree b)) = Collect (um_has (accessFreqs b))"
    using fs_invD(3) [OF assms] by (force simp: um_has_conv)
qed

lemma length_filter_tree:
  assumes "fs_inv b"
  shows "length (filter Q (map fst (accessTree b))) = card {k. um_has (accessFreqs b) k \<and> Q k}"
proof -
  have "card (set (filter Q (map fst (accessTree b)))) = length (filter Q (map fst (accessTree b)))"
    using tree_keys(1) [OF assms] by (intro distinct_card distinct_filter)
  moreover have "set (filter Q (map fst (accessTree b))) = {k. um_has (accessFreqs b) k \<and> Q k}"
    using tree_keys(2) [OF assms] by auto
  ultimately show ?thesis by simp
qed

subsection \<open>The fake keys\<close>

text \<open>When no picked key is in flight, the loop is the generic one, and fuel \<open>n\<close> is enough for \<open>n\<close> keys.\<close>

lemma fake_loop_pick:
  assumes "pick_min fs_getKeyWithMinFrequency fs_setFrequency ts n b = Inr (ks, b')"
    and "fs_inv b" and "distinct ks" and "\<forall>k \<in> set ks. um_has (accessFreqs b) k \<and> \<not> rk_present rk k" and "n \<le> fuel"
  shows "\<exists>rk'. fake_loop P ts fuel n rk (b, sk, rm) = Inr (rk', fold (read_key P ts) ks (b, sk, rm)) \<and>
    same_requests rk rk' \<and> (\<forall>k. rk_present rk' k \<longleftrightarrow> rk_present rk k \<or> k \<in> set ks)"
  using assms
proof (induction n arbitrary: b ks rk fuel sk rm)
  case 0
  then show ?case by auto
next
  case (Suc n)
  then obtain fuel' where fuel: "fuel = Suc fuel'" "n \<le> fuel'" by (cases fuel) auto
  from Suc.prems(1) obtain k ks1 where k: "fs_getKeyWithMinFrequency b = Inr k" "ks = k # ks1"
    "pick_min fs_getKeyWithMinFrequency fs_setFrequency ts n (fs_setFrequency k ts b) = Inr (ks1, b')"
    by (auto simp: res_simps)
  obtain p rk1 where i: "insertIfNotPresent k rk = (p, rk1)" by fastforce
  note F = insertIfNotPresent_facts [OF i]
  have np: "\<not> p" using F(1) Suc.prems(4) k(2) by simp
  obtain sk1 rm1 where rd: "read_key P ts k (b, sk, rm) = (fs_setFrequency k ts b, sk1, rm1)"
    using Suc.prems(4) k(2) by (simp add: read_key_def Let_def)
  have "\<forall>j \<in> set ks1. um_has (accessFreqs (fs_setFrequency k ts b)) j \<and> \<not> rk_present rk1 j"
    using Suc.prems(3,4) k(2) F(3) by auto
  from Suc.IH [OF k(3) fs_setFrequency_inv [OF Suc.prems(2)] _ this fuel(2), of sk1 rm1] Suc.prems(3) k(2)
  obtain rk' where rk': "fake_loop P ts fuel' n rk1 (fs_setFrequency k ts b, sk1, rm1) =
      Inr (rk', fold (read_key P ts) ks1 (fs_setFrequency k ts b, sk1, rm1))"
    "same_requests rk1 rk'" "\<forall>j. rk_present rk' j \<longleftrightarrow> rk_present rk1 j \<or> j \<in> set ks1"
    by auto
  show ?case
    using rk' fuel(1) k(1,2) i np rd F(3) same_requests_trans [OF F(2) rk'(2)] by auto
qed

text \<open>When every key of the index is in flight the loop asks for the same key for ever.\<close>

lemma fake_loop_livelock:
  assumes "fs_getKeyWithMinFrequency (fst st) = Inr k" and "rk_present rk k"
  shows "fake_loop P ts fuel (Suc n) rk st = Inl Out_of_fuel"
  using assms(2)
proof (induction fuel arbitrary: rk)
  case (Suc fuel)
  obtain p rk1 where i: "insertIfNotPresent k rk = (p, rk1)" by fastforce
  note F = insertIfNotPresent_facts [OF i]
  show ?case using Suc.IH [of rk1] Suc.prems F(1,3) i assms(1) by simp
qed simp

subsection \<open>The whole read batch\<close>

text \<open>Where a key is stored, given the frequency index that knows it.\<close>

definition loc :: "('srv, 'ctx) env \<Rightarrow> engine \<Rightarrow> string \<Rightarrow> int \<Rightarrow> string" where
  "loc e g k f = eng_prf (e_evp e) g (sid k f)"

definition live :: "'srv proxy \<Rightarrow> string \<Rightarrow> bool" where
  "live s k = um_has (accessFreqs (realBst s)) k"

definition fake :: "'srv proxy \<Rightarrow> string \<Rightarrow> bool" where
  "fake s k = um_has (accessFreqs (fakeBst s)) k"

text \<open>
  What a batch needs to be built: \<open>n\<close> client keys are live, uncached and registered, nothing else is in
  flight, and there are enough other keys.
\<close>

definition batch_pre :: "nat \<Rightarrow> config \<Rightarrow> string list \<Rightarrow> 'srv proxy \<Rightarrow> bool" where
  "batch_pre fuel cfg ops s \<longleftrightarrow>
     fs_inv (realBst s) \<and> fs_inv (fakeBst s) \<and> (\<forall>k. \<not> (live s k \<and> fake s k)) \<and>
     distinct ops \<and> (\<forall>k \<in> set ops. live s k \<and> \<not> Cache_checkIfKeyExists (pcache s) k) \<and>
     (\<forall>k. rk_present (runningKeys s) k \<longleftrightarrow> k \<in> set ops) \<and> ev_cacheMap (EvictedItems s) = [] \<and>
     0 \<le> cfg_F cfg \<and> int (length ops) + cfg_F cfg \<le> cfg_B cfg \<and> fits32 (cfg_B cfg) \<and>
     cfg_B cfg - cfg_F cfg \<le> int (card {k. live s k \<and> \<not> Cache_checkIfKeyExists (pcache s) k}) \<and>
     cfg_F cfg \<le> int (fs_size (fakeBst s)) \<and> nat (cfg_F cfg) \<le> fuel \<and>
     fits32 (timeStamp s + 1) \<and> (\<forall>k. fake s k \<longrightarrow> fs_freq (fakeBst s) k \<le> timeStamp s)"

lemma batch_preD:
  assumes "batch_pre fuel cfg ops s"
  shows "fs_inv (realBst s)" "fs_inv (fakeBst s)" "live s k \<Longrightarrow> fake s k \<Longrightarrow> False"
    "distinct ops" "k \<in> set ops \<Longrightarrow> live s k" "k \<in> set ops \<Longrightarrow> \<not> Cache_checkIfKeyExists (pcache s) k"
    "rk_present (runningKeys s) k \<longleftrightarrow> k \<in> set ops" "ev_cacheMap (EvictedItems s) = []"
    "0 \<le> cfg_F cfg" "int (length ops) + cfg_F cfg \<le> cfg_B cfg" "fits32 (cfg_B cfg)"
    "cfg_B cfg - cfg_F cfg \<le> int (card {k. live s k \<and> \<not> Cache_checkIfKeyExists (pcache s) k})"
    "cfg_F cfg \<le> int (fs_size (fakeBst s))" "nat (cfg_F cfg) \<le> fuel" "fits32 (timeStamp s + 1)"
    "fake s k \<Longrightarrow> fs_freq (fakeBst s) k \<le> timeStamp s"
  using assms unfolding batch_pre_def by blast+

lemma real_wanted_eq:
  assumes "0 \<le> cfg_F cfg" and "int n + cfg_F cfg \<le> cfg_B cfg" and "fits32 (cfg_B cfg)"
  shows "real_wanted cfg n = nat (cfg_B cfg - cfg_F cfg) - n"
  using assms by (simp add: real_wanted_def fits32_def int_max_def)

lemma finite_live: "finite {k. live s k \<and> Q k}"
  by (rule finite_subset [of _ "set (um_keys (accessFreqs (realBst s)))"]) (auto simp: live_def um_has_keys)

text \<open>The real keys that fill the batch exist, and are those used longest ago.\<close>

lemma select_real_batch:
  assumes "batch_pre fuel cfg ops s" and "rb = fold (\<lambda>k. fs_setFrequency k ts) ops (realBst s)"
  obtains rs rk' where
    "select_real (pcache s) (EvictedItems s) (real_wanted cfg (length ops)) (accessTree rb) (runningKeys s) [] = Inr (rs, rk')"
    "length ops + length rs = nat (cfg_B cfg - cfg_F cfg)" "distinct (ops @ rs)"
    "\<forall>k \<in> set rs. live s k \<and> \<not> Cache_checkIfKeyExists (pcache s) k"
    "same_requests (runningKeys s) rk'" "\<forall>k. rk_present rk' k \<longleftrightarrow> k \<in> set ops \<or> k \<in> set rs"
    "\<forall>k \<in> set rs. \<forall>k'. live s k' \<longrightarrow> \<not> Cache_checkIfKeyExists (pcache s) k' \<longrightarrow> k' \<notin> set ops \<longrightarrow> k' \<notin> set rs \<longrightarrow>
       fs_freq (realBst s) k \<le> fs_freq (realBst s) k'"
proof -
  note D = batch_preD [OF assms(1)]
  let ?el = "eligible (pcache s) (EvictedItems s) (runningKeys s)"
  let ?w = "nat (cfg_B cfg - cfg_F cfg) - length ops"
  let ?U = "{k. live s k \<and> \<not> Cache_checkIfKeyExists (pcache s) k}"
  have rb: "fs_inv rb" using fold_setFrequency_facts(1) [OF D(1)] assms(2) by simp
  have sub: "set ops \<subseteq> Collect (um_has (accessFreqs (realBst s)))" using D(5) by (auto simp: live_def)
  have has: "um_has (accessFreqs rb) k \<longleftrightarrow> live s k" for k
    using fold_setFrequency_freq(2) [OF D(1) sub] assms(2) by (simp add: live_def)
  have el: "?el k \<longleftrightarrow> \<not> Cache_checkIfKeyExists (pcache s) k \<and> k \<notin> set ops" for k
    using D(7,8) by (simp add: eligible_def ev_checkIfKeyExists_def)
  have "{k. um_has (accessFreqs rb) k \<and> ?el k} = ?U - set ops" using has el by auto
  moreover have "card (?U - set ops) = card ?U - card (set ops)"
    by (rule card_Diff_subset) (use D(5,6) in auto)
  moreover have "card (set ops) = length ops" using distinct_card [OF D(4)] .
  ultimately have card: "?w \<le> length (filter ?el (map fst (accessTree rb)))"
    using D(12) unfolding length_filter_tree [OF rb] by simp
  let ?rs = "take ?w (filter ?el (map fst (accessTree rb)))"
  obtain rk' where rk': "select_real (pcache s) (EvictedItems s) ?w (accessTree rb) (runningKeys s) [] = Inr (?rs, rk')"
    "same_requests (runningKeys s) rk'" "\<And>k. rk_present rk' k \<longleftrightarrow> rk_present (runningKeys s) k \<or> k \<in> set ?rs"
    using select_real_ok [OF tree_keys(1) [OF rb] card, of "[]"] by auto
  have in_rs: "live s k \<and> ?el k" if "k \<in> set ?rs" for k
  proof -
    have "k \<in> set (filter ?el (map fst (accessTree rb)))" using that by (rule in_set_takeD)
    then show ?thesis using tree_keys(2) [OF rb] has by auto
  qed
  have fr: "(k, fs_freq (realBst s) k) \<in> set (accessTree rb)" if "live s k" "k \<notin> set ops" for k
    using that fs_invD(3) [OF rb] fold_setFrequency_facts(2) [OF D(1), of ts ops k] assms(2)
    by (auto simp: live_def um_has_conv fs_freq_find)
  show ?thesis
  proof (rule that)
    show "select_real (pcache s) (EvictedItems s) (real_wanted cfg (length ops)) (accessTree rb) (runningKeys s) [] = Inr (?rs, rk')"
      using rk'(1) real_wanted_eq [OF D(9,10,11)] by simp
    show "length ops + length ?rs = nat (cfg_B cfg - cfg_F cfg)" using card D(10) by simp
    show "distinct (ops @ ?rs)"
    proof -
      have "distinct ?rs" using tree_keys(1) [OF rb] by (intro distinct_take distinct_filter)
      moreover have "set ops \<inter> set ?rs = {}" using in_rs el by blast
      ultimately show ?thesis using D(4) by (simp only: distinct_append simp_thms)
    qed
    show "\<forall>k \<in> set ?rs. live s k \<and> \<not> Cache_checkIfKeyExists (pcache s) k" using in_rs el by blast
    show "\<forall>k. rk_present rk' k \<longleftrightarrow> k \<in> set ops \<or> k \<in> set ?rs" using rk'(3) D(7) by blast
    show "\<forall>k \<in> set ?rs. \<forall>k'. live s k' \<longrightarrow> \<not> Cache_checkIfKeyExists (pcache s) k' \<longrightarrow> k' \<notin> set ops \<longrightarrow> k' \<notin> set ?rs \<longrightarrow>
       fs_freq (realBst s) k \<le> fs_freq (realBst s) k'"
    proof (intro ballI allI impI)
      fix k k'
      assume h: "k \<in> set ?rs" "live s k'" "\<not> Cache_checkIfKeyExists (pcache s) k'" "k' \<notin> set ops" "k' \<notin> set ?rs"
      show "fs_freq (realBst s) k \<le> fs_freq (realBst s) k'"
        by (rule take_sorted_least [OF fs_invD(2) [OF rb] fr fr h(1,5) _ tree_keys(1) [OF rb]])
          (use h in_rs [OF h(1)] el in auto)
    qed
  qed (rule rk'(2))
qed

text \<open>The fake keys exist as well.\<close>

lemma pick_fakes:
  assumes "batch_pre fuel cfg ops s" and "ts = timeStamp s + 1"
  obtains fk fb where
    "pick_min fs_getKeyWithMinFrequency fs_setFrequency ts (nat (cfg_F cfg)) (fakeBst s) = Inr (fk, fb)"
    "length fk = nat (cfg_F cfg)" "distinct fk" "\<forall>k \<in> set fk. fake s k"
    "\<forall>k \<in> set fk. \<forall>k'. fake s k' \<longrightarrow> k' \<notin> set fk \<longrightarrow> fs_freq (fakeBst s) k \<le> fs_freq (fakeBst s) k'"
proof -
  note D = batch_preD [OF assms(1)]
  have "{k. \<exists>f. um_find (accessFreqs (fakeBst s)) k = Some f \<and> f < ts} = set (um_keys (accessFreqs (fakeBst s)))"
    (is "?A = ?B")
  proof -
    have "k \<in> ?A \<longleftrightarrow> um_has (accessFreqs (fakeBst s)) k" for k
      using D(16) [of k] assms(2) by (auto simp: fake_def um_has_conv fs_freq_find)
    moreover have "k \<in> ?B \<longleftrightarrow> um_has (accessFreqs (fakeBst s)) k" for k by (simp only: um_has_keys)
    ultimately show ?thesis by blast
  qed
  then have "card {k. \<exists>f. um_find (accessFreqs (fakeBst s)) k = Some f \<and> f < ts} = fs_size (fakeBst s)"
    using distinct_card [of "um_keys (accessFreqs (fakeBst s))"] fs_invD(1) [OF D(2)] by (simp add: um_ok_def fs_size_def)
  then have "nat (cfg_F cfg) \<le> card {k. \<exists>f. um_find (accessFreqs (fakeBst s)) k = Some f \<and> f < ts}"
    using D(13) by simp
  from fs_index.pick_min_ok [OF D(2) this] obtain fk fb where
    fk: "pick_min fs_getKeyWithMinFrequency fs_setFrequency ts (nat (cfg_F cfg)) (fakeBst s) = Inr (fk, fb)"
      "length fk = nat (cfg_F cfg)" "distinct fk"
      "\<forall>k \<in> set fk. \<exists>f < ts. um_find (accessFreqs (fakeBst s)) k = Some f"
      "\<forall>k \<in> set fk. \<forall>k' f f'. k' \<notin> set fk \<longrightarrow> um_find (accessFreqs (fakeBst s)) k = Some f \<longrightarrow>
         um_find (accessFreqs (fakeBst s)) k' = Some f' \<longrightarrow> f \<le> f'"
    by blast
  have in_fk: "\<forall>k \<in> set fk. fake s k" using fk(4) by (auto simp: fake_def um_has_def)
  have "fs_freq (fakeBst s) k \<le> fs_freq (fakeBst s) k'" if h: "k \<in> set fk" "fake s k'" "k' \<notin> set fk" for k k'
  proof -
    obtain f f' where "um_find (accessFreqs (fakeBst s)) k = Some f" "um_find (accessFreqs (fakeBst s)) k' = Some f'"
      using in_fk h(1,2) by (auto simp: fake_def um_has_conv)
    then show ?thesis using fk(5) h by (auto simp: fs_freq_find)
  qed
  with that [OF fk(1-3) in_fk] show ?thesis by blast
qed

text \<open>
  A batch as \<open>choose_batch\<close> leaves it: the real keys \<open>rs\<close> (client keys first), the fake keys \<open>fk\<close>, the
  locations they are read from, and the state with the new frequencies.
\<close>

definition chosen ::
  "('srv, 'ctx) env \<Rightarrow> 'srv proxy \<Rightarrow> string list \<Rightarrow> string list \<Rightarrow> running \<Rightarrow> string list \<times> (string, string) umap \<times> 'srv proxy" where
  "chosen e s rs fk rk =
     (let g = encryption_engine s; ts = timeStamp s + 1;
          LR = (\<lambda>k. loc e g k (fs_freq (realBst s) k)); LF = (\<lambda>k. loc e g k (fs_freq (fakeBst s) k))
      in (map LR rs @ map LF fk,
          fold (\<lambda>k. um_set (LF k) k) fk (fold (\<lambda>k. um_set (LR k) k) rs []),
          s\<lparr>timeStamp := ts, realBst := fold (\<lambda>k. fs_setFrequency k ts) rs (realBst s),
            fakeBst := fold (\<lambda>k. fs_setFrequency k ts) fk (fakeBst s), runningKeys := rk\<rparr>))"

lemma choose_batch_ok:
  assumes "batch_pre fuel cfg (map fst operations) s"
  obtains rs fk rk' where
    "choose_batch fuel cfg e operations s =
       Inr (length (map fst operations @ rs), chosen e s (map fst operations @ rs) fk rk')"
    "length (map fst operations @ rs) = nat (cfg_B cfg - cfg_F cfg)" "length fk = nat (cfg_F cfg)"
    "distinct (map fst operations @ rs)" "distinct fk"
    "\<forall>k \<in> set (map fst operations @ rs). live s k \<and> \<not> Cache_checkIfKeyExists (pcache s) k"
    "\<forall>k \<in> set fk. fake s k"
    "same_requests (runningKeys s) rk'"
    "\<forall>k. rk_present rk' k \<longleftrightarrow> k \<in> set (map fst operations @ rs) \<union> set fk"
    "\<forall>k \<in> set rs. \<forall>k'. live s k' \<longrightarrow> \<not> Cache_checkIfKeyExists (pcache s) k' \<longrightarrow>
       k' \<notin> set (map fst operations) \<longrightarrow> k' \<notin> set rs \<longrightarrow> fs_freq (realBst s) k \<le> fs_freq (realBst s) k'"
    "\<forall>k \<in> set fk. \<forall>k'. fake s k' \<longrightarrow> k' \<notin> set fk \<longrightarrow> fs_freq (fakeBst s) k \<le> fs_freq (fakeBst s) k'"
proof -
  note D = batch_preD [OF assms]
  let ?ops = "map fst operations" and ?ts = "timeStamp s + 1" and ?g = "encryption_engine s"
  let ?P = "eng_prf (e_evp e) ?g"
  let ?LR = "\<lambda>k. loc e ?g k (fs_freq (realBst s) k)" and ?LF = "\<lambda>k. loc e ?g k (fs_freq (fakeBst s) k)"
  let ?rb = "\<lambda>ks. fold (\<lambda>k. fs_setFrequency k ?ts) ks (realBst s)"
  let ?rm = "\<lambda>ks. fold (\<lambda>k. um_set (?LR k) k) ks []"
  obtain rs rk1 where
    sel: "select_real (pcache s) (EvictedItems s) (real_wanted cfg (length ?ops)) (accessTree (?rb ?ops)) (runningKeys s) [] = Inr (rs, rk1)"
    and rs: "length ?ops + length rs = nat (cfg_B cfg - cfg_F cfg)" "distinct (?ops @ rs)"
      "\<forall>k \<in> set rs. live s k \<and> \<not> Cache_checkIfKeyExists (pcache s) k"
    and rk1: "same_requests (runningKeys s) rk1" "\<forall>k. rk_present rk1 k \<longleftrightarrow> k \<in> set ?ops \<or> k \<in> set rs"
    and lru: "\<forall>k \<in> set rs. \<forall>k'. live s k' \<longrightarrow> \<not> Cache_checkIfKeyExists (pcache s) k' \<longrightarrow> k' \<notin> set ?ops \<longrightarrow>
       k' \<notin> set rs \<longrightarrow> fs_freq (realBst s) k \<le> fs_freq (realBst s) k'"
    by (rule select_real_batch [where ts = ?ts, OF assms refl])
  obtain fk fb where
    fk: "pick_min fs_getKeyWithMinFrequency fs_setFrequency ?ts (nat (cfg_F cfg)) (fakeBst s) = Inr (fk, fb)"
      "length fk = nat (cfg_F cfg)" "distinct fk" "\<forall>k \<in> set fk. fake s k"
      "\<forall>k \<in> set fk. \<forall>k'. fake s k' \<longrightarrow> k' \<notin> set fk \<longrightarrow> fs_freq (fakeBst s) k \<le> fs_freq (fakeBst s) k'"
    by (rule pick_fakes [OF assms refl])
  have all_live: "\<forall>k \<in> set (?ops @ rs). live s k \<and> \<not> Cache_checkIfKeyExists (pcache s) k"
    using rs(3) D(5,6) by auto
  have nfk: "\<forall>k \<in> set fk. um_has (accessFreqs (fakeBst s)) k \<and> \<not> rk_present rk1 k"
    using fk(4) rk1(2) all_live D(3) by (auto simp: fake_def)
  have rd: "fold (read_key ?P ?ts) ks (realBst s, [], []) = (?rb ks, map ?LR ks, ?rm ks)"
    if "distinct ks" "\<forall>k \<in> set ks. live s k" for ks
    using read_keys [OF D(1) that(1), of ?LR ?P ?ts "[]" "[]"] that(2) by (simp add: live_def loc_def)
  have rd1: "fold (\<lambda>opn. read_key ?P ?ts (fst opn)) operations (realBst s, [], []) = (?rb ?ops, map ?LR ?ops, ?rm ?ops)"
    using rd [of ?ops] D(4,5) by (simp add: fold_map o_def)
  have rd2: "fold (read_key ?P ?ts) rs (?rb ?ops, map ?LR ?ops, ?rm ?ops) = (?rb (?ops @ rs), map ?LR (?ops @ rs), ?rm (?ops @ rs))"
  proof -
    have "fold (read_key ?P ?ts) rs (fold (read_key ?P ?ts) ?ops (realBst s, [], [])) =
        (?rb (?ops @ rs), map ?LR (?ops @ rs), ?rm (?ops @ rs))"
    proof -
      have "\<forall>k \<in> set (?ops @ rs). live s k" using all_live by blast
      from rd [OF rs(2) this] show ?thesis by (simp only: fold_append o_apply)
    qed
    moreover have "fold (read_key ?P ?ts) ?ops (realBst s, [], []) = (?rb ?ops, map ?LR ?ops, ?rm ?ops)"
      using rd [OF D(4)] D(5) by simp
    ultimately show ?thesis by simp
  qed
  obtain rk2 where rk2: "fake_loop ?P ?ts fuel (nat (cfg_F cfg)) rk1 (fakeBst s, map ?LR (?ops @ rs), ?rm (?ops @ rs)) =
      Inr (rk2, fold (read_key ?P ?ts) fk (fakeBst s, map ?LR (?ops @ rs), ?rm (?ops @ rs)))"
    "same_requests rk1 rk2" "\<And>k. rk_present rk2 k \<longleftrightarrow> rk_present rk1 k \<or> k \<in> set fk"
    using fake_loop_pick [OF fk(1) D(2) fk(3) nfk D(14)] by blast
  have rd3: "fold (read_key ?P ?ts) fk (fakeBst s, sk, rm) =
      (fold (\<lambda>k. fs_setFrequency k ?ts) fk (fakeBst s), sk @ map ?LF fk, fold (\<lambda>k. um_set (?LF k) k) fk rm)" for sk rm
    using read_keys [OF D(2) fk(3), of ?LF ?P ?ts sk rm] fk(4) by (simp add: fake_def loc_def)
  have "choose_batch fuel cfg e operations s = Inr (length (?ops @ rs), chosen e s (?ops @ rs) fk rk2)"
    using rd1 sel rd2 rk2(1) rd3 D(15) unfolding choose_batch_def chosen_def Let_def by simp
  moreover have "\<forall>k. rk_present rk2 k \<longleftrightarrow> k \<in> set (?ops @ rs) \<union> set fk" using rk2(3) rk1(2) by simp
  ultimately show ?thesis
    using that [OF _ _ fk(2) rs(2) fk(3) all_live fk(4) same_requests_trans [OF rk1(1) rk2(2)] _ lru fk(5)] rs(1) by simp
qed

end
