(* ===== verification/Proxy_Batch.thy ===== *)
theory Proxy_Batch
  imports Proxy_Choose
begin

text \<open>
  The second half of \<open>execute_batch\<close>: every real key read is exchanged for the least recently used
  cache entry, every fake key is rewritten, and the waiting requests are answered.

  \<open>V\<close> is the content of the store: the value of every key that is or becomes live.  \<open>K\<close> is the finite
  set of keys in play and \<open>T\<close> bounds the batch numbers; the only thing assumed of the keyed hash is that
  it does not collide on the location names of these keys.
\<close>

subsection \<open>The environment and the invariant of the proxy\<close>

definition locs :: "string set \<Rightarrow> int \<Rightarrow> string set" where
  "locs K T = {sid k f | k f. k \<in> K \<and> 0 \<le> f \<and> f \<le> T}"

definition env_ok :: "('srv, 'ctx) env \<Rightarrow> engine \<Rightarrow> ('srv \<Rightarrow> string \<Rightarrow> string option) \<Rightarrow> string set \<Rightarrow> int \<Rightarrow> bool" where
  "env_ok e g db K T \<longleftrightarrow> evp_lawful (e_evp e) (encryption_string g) (iv_string g) \<and> redis_lawful (e_redis e) db \<and>
     inj_on (eng_prf (e_evp e) g) (locs K T) \<and> (\<forall>m. mset (e_kv_order e m) = mset m) \<and>
     (\<forall>ids. mset (e_req_order e ids) = mset ids)"

definition stored :: "('srv, 'ctx) env \<Rightarrow> engine \<Rightarrow> (string \<Rightarrow> string option) \<Rightarrow> string \<Rightarrow> int \<Rightarrow> string \<Rightarrow> bool" where
  "stored e g m k f v \<longleftrightarrow> (\<exists>c. m (loc e g k f) = Some c \<and> decryptNonDeterministic (e_evp e) g c = Inr v)"

text \<open>A location whose content has been superseded.\<close>

definition stale :: "string set \<Rightarrow> ('srv, 'ctx) env \<Rightarrow> 'srv proxy \<Rightarrow> string \<Rightarrow> bool" where
  "stale K e s i \<longleftrightarrow> (\<exists>k \<in> K. \<exists>f. 0 \<le> f \<and> f < timeStamp s \<and> i = loc e (encryption_engine s) k f \<and>
     (live s k \<longrightarrow> f < fs_freq (realBst s) k) \<and> (fake s k \<longrightarrow> f < fs_freq (fakeBst s) k))"

definition server :: "'srv proxy \<Rightarrow> 'srv" where
  "server s = hd (storage s)"

definition pinv ::
  "string set \<Rightarrow> (string \<Rightarrow> string) \<Rightarrow> ('srv, 'ctx) env \<Rightarrow> ('srv \<Rightarrow> string \<Rightarrow> string option) \<Rightarrow> 'srv proxy \<Rightarrow> bool" where
  "pinv K V e db s \<longleftrightarrow>
     storage s = [server s] \<and> 0 \<le> timeStamp s \<and>
     fs_inv (realBst s) \<and> ts_inv (realBst s) \<and> needTimeStamp (realBst s) \<and> fs_inv (fakeBst s) \<and>
     (\<forall>k. fake s k \<longrightarrow> \<not> canon k) \<and> cache_inv (pcache s) \<and>
     (\<forall>k v. cache_find (pcache s) k = Some v \<longrightarrow> live s k \<and> v = V k) \<and>
     (\<forall>k. live s k \<longrightarrow> k \<in> K \<and> storable (V k) \<and> 0 \<le> fs_freq (realBst s) k \<and> fs_freq (realBst s) k \<le> timeStamp s) \<and>
     (\<forall>k. live s k \<longrightarrow> cache_find (pcache s) k = None \<longrightarrow>
        stored e (encryption_engine s) (db (server s)) k (fs_freq (realBst s) k) (V k)) \<and>
     (\<forall>k. fake s k \<longrightarrow> k \<in> K \<and> 0 \<le> fs_freq (fakeBst s) k \<and> fs_freq (fakeBst s) k \<le> timeStamp s) \<and>
     (\<forall>k. fake s k \<longrightarrow> (\<exists>v. stored e (encryption_engine s) (db (server s)) k (fs_freq (fakeBst s) k) v)) \<and>
     ev_cacheMap (EvictedItems s) = [] \<and> (\<forall>ids \<in> set (keysNotUsed s). \<forall>i \<in> set ids. stale K e s i)"

lemma pinvD:
  assumes "pinv K V e db s"
  shows "storage s = [server s]" "0 \<le> timeStamp s" "fs_inv (realBst s)" "ts_inv (realBst s)"
    "needTimeStamp (realBst s)" "fs_inv (fakeBst s)" "fake s k \<Longrightarrow> \<not> canon k" "cache_inv (pcache s)"
    "cache_find (pcache s) k = Some v \<Longrightarrow> live s k \<and> v = V k"
    "live s k \<Longrightarrow> k \<in> K \<and> storable (V k) \<and> 0 \<le> fs_freq (realBst s) k \<and> fs_freq (realBst s) k \<le> timeStamp s"
    "live s k \<Longrightarrow> cache_find (pcache s) k = None \<Longrightarrow>
        stored e (encryption_engine s) (db (server s)) k (fs_freq (realBst s) k) (V k)"
    "fake s k \<Longrightarrow> k \<in> K \<and> 0 \<le> fs_freq (fakeBst s) k \<and> fs_freq (fakeBst s) k \<le> timeStamp s"
    "fake s k \<Longrightarrow> \<exists>v. stored e (encryption_engine s) (db (server s)) k (fs_freq (fakeBst s) k) v"
    "ev_cacheMap (EvictedItems s) = []" "ids \<in> set (keysNotUsed s) \<Longrightarrow> i \<in> set ids \<Longrightarrow> stale K e s i"
  using assms unfolding pinv_def by blast+

text \<open>What a client sees under a key: the cached value, or what the key's location holds.\<close>

definition pval :: "('srv, 'ctx) env \<Rightarrow> ('srv \<Rightarrow> string \<Rightarrow> string option) \<Rightarrow> 'srv proxy \<Rightarrow> string \<Rightarrow> string option" where
  "pval e db s k =
     (if \<not> live s k then None
      else case cache_find (pcache s) k of Some v \<Rightarrow> Some v
      | None \<Rightarrow> (case db (server s) (loc e (encryption_engine s) k (fs_freq (realBst s) k)) of None \<Rightarrow> None
         | Some c \<Rightarrow> (case decryptNonDeterministic (e_evp e) (encryption_engine s) c of Inl _ \<Rightarrow> None | Inr v \<Rightarrow> Some v)))"

lemma pval_pinv:
  assumes "pinv K V e db s"
  shows "pval e db s k = (if live s k then Some (V k) else None)"
  using pinvD(9) [OF assms, of k] pinvD(11) [OF assms, of k] by (auto simp: pval_def stored_def split: option.splits)

lemma env_okD:
  assumes "env_ok e g db K T"
  shows "evp_lawful (e_evp e) (encryption_string g) (iv_string g)" "redis_lawful (e_redis e) db"
    "mset (e_kv_order e m) = mset m" "mset (e_req_order e ids) = mset ids"
  using assms by (auto simp: env_ok_def)

text \<open>
  How a step may change the batch number of a key: a key that is touched gets the current number, and was
  absent or last had an older number; every other key keeps its number and does not move into the cache; a
  key that disappears was cached or older.
\<close>

definition aged :: "'srv proxy \<Rightarrow> 'srv proxy \<Rightarrow> bool" where
  "aged s s' \<longleftrightarrow> timeStamp s \<le> timeStamp s' \<and> encryption_engine s' = encryption_engine s \<and> (\<forall>k. fake s' k \<longleftrightarrow> fake s k) \<and>
     (\<forall>k. live s' k \<longrightarrow>
        fs_freq (realBst s') k = timeStamp s' \<and> (timeStamp s < timeStamp s' \<or> \<not> live s k) \<or>
        live s k \<and> fs_freq (realBst s') k = fs_freq (realBst s) k \<and>
        (cache_find (pcache s') k \<noteq> None \<longrightarrow> cache_find (pcache s) k \<noteq> None)) \<and>
     (\<forall>k. live s k \<and> \<not> live s' k \<longrightarrow> timeStamp s < timeStamp s' \<or> cache_find (pcache s) k \<noteq> None) \<and>
     (\<forall>k. fake s k \<longrightarrow> fs_freq (fakeBst s') k = timeStamp s' \<and> timeStamp s < timeStamp s' \<or>
        fs_freq (fakeBst s') k = fs_freq (fakeBst s) k)"

text \<open>Different keys or different batch numbers have different locations.\<close>

lemma loc_inj:
  assumes "env_ok e g db K T" and "k \<in> K" "0 \<le> f" "f \<le> T" and "k' \<in> K" "0 \<le> f'" "f' \<le> T"
  shows "loc e g k f = loc e g k' f' \<longleftrightarrow> k = k' \<and> f = f'"
proof -
  have "sid k f \<in> locs K T" "sid k' f' \<in> locs K T" using assms(2-7) by (auto simp: locs_def)
  moreover have "inj_on (eng_prf (e_evp e) g) (locs K T)" using assms(1) by (simp add: env_ok_def)
  ultimately show ?thesis by (auto simp: loc_def dest: inj_onD)
qed

subsection \<open>The write loop over the real keys\<close>

text \<open>
  The loop invariant.  \<open>s0\<close> is the state the loop starts from and \<open>m\<close> the storage it has read; \<open>dn\<close>
  are the keys exchanged so far, \<open>todo\<close> those to come, \<open>evs\<close> the keys evicted so far.  Every live key is
  still to come, or cached, or evicted and in the write vectors, or untouched in storage.
\<close>

definition mid_frame :: "'srv proxy \<Rightarrow> 'srv proxy \<Rightarrow> bool" where
  "mid_frame s0 s \<longleftrightarrow> timeStamp s = timeStamp s0 \<and> fakeBst s = fakeBst s0 \<and> runningKeys s = runningKeys s0 \<and>
     promises s = promises s0 \<and> storage s = storage s0 \<and> encryption_engine s = encryption_engine s0 \<and>
     keysNotUsed s = keysNotUsed s0"

definition mid_index :: "'srv proxy \<Rightarrow> string list \<Rightarrow> 'srv proxy \<Rightarrow> bool" where
  "mid_index s0 todo s \<longleftrightarrow> fs_inv (realBst s) \<and> ts_inv (realBst s) \<and> needTimeStamp (realBst s) \<and>
     (\<forall>k. live s k \<longleftrightarrow> live s0 k \<and> (k \<in> set (keys_to_be_deleted s0) \<longrightarrow> k \<in> set todo)) \<and>
     (\<forall>k. live s k \<longrightarrow> fs_freq (realBst s) k = fs_freq (realBst s0) k) \<and>
     set (keys_to_be_deleted s) = set (keys_to_be_deleted s0) \<inter> set todo"

text \<open>A key that was cached at the start of the batch, or that the batch reads.\<close>

definition warm :: "'srv proxy \<Rightarrow> string \<Rightarrow> bool" where
  "warm s0 k \<longleftrightarrow> fs_freq (realBst s0) k = timeStamp s0 \<or> cache_find (pcache s0) k \<noteq> None"

definition mid_cache :: "(string \<Rightarrow> string) \<Rightarrow> 'srv proxy \<Rightarrow> string list \<Rightarrow> string list \<Rightarrow> 'srv proxy \<Rightarrow> bool" where
  "mid_cache V s0 todo evs s \<longleftrightarrow> cache_inv (pcache s) \<and>
     (\<forall>k v. cache_find (pcache s) k = Some v \<longrightarrow> live s k \<and> k \<notin> set todo \<and> k \<notin> set evs \<and> v = V k) \<and>
     (\<forall>k. k \<in> set todo \<or> k \<in> set evs \<or> cache_find (pcache s) k \<noteq> None \<longrightarrow> warm s0 k) \<and>
     card (set (keys_to_be_deleted s)) < length (lru (pcache s)) \<and>
     length (lru (pcache s)) + card (set (keys_to_be_deleted s0)) =
       length (lru (pcache s0)) + card (set (keys_to_be_deleted s))"

definition mid_writes ::
  "(string \<Rightarrow> string) \<Rightarrow> ('srv, 'ctx) env \<Rightarrow> 'srv proxy \<Rightarrow> string list \<Rightarrow> string list \<Rightarrow> string list \<Rightarrow> 'srv proxy \<Rightarrow> writes \<Rightarrow> bool" where
  "mid_writes V e s0 dn todo evs s w \<longleftrightarrow> distinct evs \<and> (\<forall>k \<in> set evs. live s k \<and> k \<notin> set todo) \<and>
     writeBatchKeys w = map (\<lambda>k. loc e (encryption_engine s0) k (fs_freq (realBst s0) k)) evs \<and>
     list_all2 (\<lambda>k c. decryptNonDeterministic (e_evp e) (encryption_engine s0) c = Inr (V k)) evs (writeBatchValues w) \<and>
     set (tempEvictedItems w) = set evs \<and> (\<forall>k. um_has (ev_cacheMap (EvictedItems s)) k \<longrightarrow> k \<in> set evs) \<and>
     um_ok (promiseSatisfy w) \<and> (\<forall>k v. um_find (promiseSatisfy w) k = Some v \<longleftrightarrow> k \<in> set dn \<and> v = V k)"

text \<open>
  The order of the cache: what has been pushed in at the front, followed by the old content, is the present
  content followed by what has been pushed out at the back.
\<close>

definition mid_order :: "(string \<Rightarrow> string) \<Rightarrow> 'srv proxy \<Rightarrow> string list \<Rightarrow> string list \<Rightarrow> 'srv proxy \<Rightarrow> bool" where
  "mid_order V s0 dn evs s \<longleftrightarrow> lru (pcache s) @ map (\<lambda>k. (k, V k)) (rev evs) =
     map (\<lambda>k. (k, V k)) (filter (\<lambda>k. k \<notin> set (keys_to_be_deleted s0)) dn) @ lru (pcache s0)"

definition mid ::
  "(string \<Rightarrow> string) \<Rightarrow> ('srv, 'ctx) env \<Rightarrow> (string \<Rightarrow> string option) \<Rightarrow> 'srv proxy \<Rightarrow> string list \<Rightarrow> string list \<Rightarrow> string list \<Rightarrow>
   'srv proxy \<times> writes \<Rightarrow> bool" where
  "mid V e m s0 dn todo evs st \<longleftrightarrow>
     mid_frame s0 (fst st) \<and> mid_index s0 todo (fst st) \<and> mid_cache V s0 todo evs (fst st) \<and>
     mid_writes V e s0 dn todo evs (fst st) (snd st) \<and> mid_order V s0 dn evs (fst st) \<and>
     (\<forall>k. live (fst st) k \<longrightarrow> k \<notin> set todo \<longrightarrow> cache_find (pcache (fst st)) k = None \<longrightarrow>
        k \<in> set evs \<or> stored e (encryption_engine s0) m k (fs_freq (realBst s0) k) (V k))"

lemma mid_indexD:
  assumes "mid_index s0 todo s"
  shows "fs_inv (realBst s)" "ts_inv (realBst s)" "needTimeStamp (realBst s)"
    "live s j \<longleftrightarrow> live s0 j \<and> (j \<in> set (keys_to_be_deleted s0) \<longrightarrow> j \<in> set todo)"
    "live s j \<Longrightarrow> fs_freq (realBst s) j = fs_freq (realBst s0) j"
    "set (keys_to_be_deleted s) = set (keys_to_be_deleted s0) \<inter> set todo"
  using assms unfolding mid_index_def by blast+

text \<open>A key that is to be deleted leaves the index.\<close>

lemma mid_delete:
  assumes "mid_index s0 (k # todo) s" and "k \<in> set (keys_to_be_deleted s)" and "k \<notin> set todo" and "live s k"
  obtains rb where "fs_removeKey k (realBst s) = Inr rb"
    "\<forall>s1. realBst s1 = rb \<longrightarrow> keys_to_be_deleted s1 = filter (\<lambda>j. j \<noteq> k) (keys_to_be_deleted s) \<longrightarrow>
       mid_index s0 todo s1 \<and> (\<forall>j. live s1 j \<longleftrightarrow> live s j \<and> j \<noteq> k)"
proof -
  note I = mid_indexD [OF assms(1)]
  have "canon k" using assms(4) ts_invD(4) [OF I(2)] by (simp add: live_def)
  then obtain rb where rb: "fs_removeKey k (realBst s) = Inr rb" "fs_inv rb" "ts_inv rb" "needTimeStamp rb"
    "accessFreqs rb = um_erase k (accessFreqs (realBst s))"
    using fs_removeKey_inv [OF I(1-3)] by blast
  have "mid_index s0 todo s1 \<and> (\<forall>j. live s1 j \<longleftrightarrow> live s j \<and> j \<noteq> k)"
    if s1: "realBst s1 = rb" "keys_to_be_deleted s1 = filter (\<lambda>j. j \<noteq> k) (keys_to_be_deleted s)" for s1 :: "'a proxy"
  proof
    show lv: "\<forall>j. live s1 j \<longleftrightarrow> live s j \<and> j \<noteq> k" using s1(1) rb(5) by (auto simp: live_def)
    have fr: "fs_freq (realBst s1) j = fs_freq (realBst s) j" if "j \<noteq> k" for j
      using s1(1) rb(5) that by (simp add: fs_freq_def um_at_erase)
    have fr0: "fs_freq (realBst s1) j = fs_freq (realBst s0) j" if "live s1 j" for j using that lv fr I(5) by auto
    have lv0: "live s1 j \<longleftrightarrow> live s0 j \<and> (j \<in> set (keys_to_be_deleted s0) \<longrightarrow> j \<in> set todo)" for j
      using lv I(4) [of j] I(6) assms(2,3) by auto
    have kd: "set (keys_to_be_deleted s1) = set (keys_to_be_deleted s0) \<inter> set todo"
      using s1(2) I(6) assms(3) by auto
    show "mid_index s0 todo s1"
      unfolding mid_index_def using lv0 kd fr0 rb(2-4) s1(1) by blast
  qed
  with that rb(1) show ?thesis by blast
qed

text \<open>A key that stays moves from \<open>todo\<close> to the cache; the index does not change.\<close>

lemma mid_keep:
  assumes "mid_index s0 (k # todo) s" and "k \<notin> set (keys_to_be_deleted s)"
    and "realBst s1 = realBst s" and "keys_to_be_deleted s1 = keys_to_be_deleted s"
  shows "mid_index s0 todo s1" "live s1 j \<longleftrightarrow> live s j"
proof -
  note I = mid_indexD [OF assms(1)]
  show lv: "live s1 j \<longleftrightarrow> live s j" for j using assms(3) by (simp add: live_def)
  have "live s1 j \<longleftrightarrow> live s0 j \<and> (j \<in> set (keys_to_be_deleted s0) \<longrightarrow> j \<in> set todo)" for j
    using lv I(4) [of j] I(6) assms(2) by auto
  moreover have "set (keys_to_be_deleted s1) = set (keys_to_be_deleted s0) \<inter> set todo"
    using assms(2,4) I(6) by auto
  ultimately show "mid_index s0 todo s1"
    unfolding mid_index_def using lv I(1-3,5) assms(3) by auto
qed

text \<open>The first part of an exchange: the least recently used entry moves to the write vectors.\<close>

lemma mid_evict:
  assumes "mid_cache V s0 todo evs s" and "evictLRElementFromCache (pcache s) = (kv, c1)"
  shows "cache_inv c1" "cache_find c1 = (cache_find (pcache s))(fst kv := None)"
    "Suc (length (lru c1)) = length (lru (pcache s))"
    "live s (fst kv)" "fst kv \<notin> set todo" "fst kv \<notin> set evs" "snd kv = V (fst kv)" "warm s0 (fst kv)"
    "lru (pcache s) = lru c1 @ [kv]"
proof -
  have c: "cache_inv (pcache s)" "lru (pcache s) \<noteq> []"
    and in_c: "\<And>k v. cache_find (pcache s) k = Some v \<Longrightarrow> live s k \<and> k \<notin> set todo \<and> k \<notin> set evs \<and> v = V k \<and> warm s0 k"
    using assms(1) unfolding mid_cache_def by auto
  note F = cache_find_evict [OF c(1) assms(2) c(2)]
  show "cache_inv c1" using evict_eq(1) [OF c(1) assms(2)] .
  show "cache_find c1 = (cache_find (pcache s))(fst kv := None)" "Suc (length (lru c1)) = length (lru (pcache s))"
    using F by auto
  show "live s (fst kv)" "fst kv \<notin> set todo" "fst kv \<notin> set evs" "snd kv = V (fst kv)" "warm s0 (fst kv)"
    using in_c [OF F(1)] by auto
  show "lru (pcache s) = lru c1 @ [kv]" using evict_eq(2) [OF c(1) assms(2) c(2)] .
qed

lemma mid_writes_step:
  assumes "mid_writes V e s0 dn (k # todo) evs s w"
    and "live s' k1" and "k1 \<notin> set (k # todo)" and "k1 \<notin> set evs"
    and "decryptNonDeterministic (e_evp e) (encryption_engine s0) c = Inr (V k1)"
    and "\<forall>j \<in> set evs. live s' j" and "EvictedItems s' = ev_insert k1 v (EvictedItems s)"
  shows "mid_writes V e s0 (k # dn) todo (evs @ [k1]) s'
    (w\<lparr>tempEvictedItems := List.insert k1 (tempEvictedItems w),
       writeBatchKeys := writeBatchKeys w @ [loc e (encryption_engine s0) k1 (fs_freq (realBst s0) k1)],
       writeBatchValues := writeBatchValues w @ [c], promiseSatisfy := um_set k (V k) (promiseSatisfy w)\<rparr>)"
  using assms unfolding mid_writes_def by (auto simp: ev_insert_def list_all2_appendI split: if_splits)

text \<open>
  One exchange: the evicted entry goes to the write vectors, the key that was read goes to the cache or,
  when it is to be deleted, leaves the index.
\<close>

lemma process_real_step:
  assumes "mid V e m s0 dn (k # todo) evs (s, w)" and "k \<notin> set todo" and "live s0 k"
    and "evp_lawful (e_evp e) (encryption_string (encryption_engine s0)) (iv_string (encryption_engine s0))"
    and "\<forall>j. live s0 j \<longrightarrow> storable (V j)"
    and "um_find rm stKey = Some k" and "decryptNonDeterministic (e_evp e) (encryption_engine s0) response = Inr (V k)"
  shows "\<exists>st' k1. process_real e rm (stKey, response) (s, w) = Inr st' \<and> mid V e m s0 (k # dn) todo (evs @ [k1]) st'"
proof -
  have fr: "mid_frame s0 s" and ix: "mid_index s0 (k # todo) s" and ca: "mid_cache V s0 (k # todo) evs s"
    and wr: "mid_writes V e s0 dn (k # todo) evs s w" and od: "mid_order V s0 dn evs s"
    and st: "\<And>j. live s j \<Longrightarrow> j \<notin> set (k # todo) \<Longrightarrow> cache_find (pcache s) j = None \<Longrightarrow>
        j \<in> set evs \<or> stored e (encryption_engine s0) m j (fs_freq (realBst s0) j) (V j)"
    using assms(1) by (auto simp: mid_def)
  let ?g = "encryption_engine s0"
  have g: "encryption_engine s = ?g" using fr by (simp add: mid_frame_def)
  note I = mid_indexD [OF ix]
  obtain k1 v1 c1 where ev: "evictLRElementFromCache (pcache s) = ((k1, v1), c1)" by (metis surj_pair)
  note E = mid_evict [OF ca ev, simplified]
  have lk: "live s k" using I(4) assms(3) by simp
  have "cache_find (pcache s) k = None" using ca by (cases "cache_find (pcache s) k") (auto simp: mid_cache_def)
  then have c_k: "cache_find c1 k = None" using E(2) by simp
  have f1: "fs_getFrequency k1 (realBst s) = (fs_freq (realBst s0) k1, realBst s)"
    using E(4) I(5) by (simp add: live_def)
  obtain c pos where enc: "encryptNonDeterministic (e_evp e) ?g (e_rand e) (rand_pos s) (V k1) = Inr (c, pos)"
    and dec: "decryptNonDeterministic (e_evp e) ?g c = Inr (V k1)"
    using nondeterministic_roundtrip [OF assms(4)] assms(5) I(4) E(4) by blast
  let ?w = "w\<lparr>tempEvictedItems := List.insert k1 (tempEvictedItems w),
       writeBatchKeys := writeBatchKeys w @ [loc e ?g k1 (fs_freq (realBst s0) k1)],
       writeBatchValues := writeBatchValues w @ [c], promiseSatisfy := um_set k (V k) (promiseSatisfy w)\<rparr>"
  let ?s1 = "s\<lparr>pcache := c1, EvictedItems := ev_insert k1 v1 (EvictedItems s), realBst := realBst s, rand_pos := pos\<rparr>"
  have run: "process_real e rm (stKey, response) (s, w) =
      (if k \<in> set (keys_to_be_deleted s) then
         bindR (fs_removeKey k (realBst s)) (\<lambda>rb.
         Inr (?s1\<lparr>realBst := rb, keys_to_be_deleted := filter (\<lambda>j. j \<noteq> k) (keys_to_be_deleted s)\<rparr>, ?w))
       else bindR (insertIntoCache k (V k) c1) (\<lambda>c. Inr (?s1\<lparr>pcache := c\<rparr>, ?w)))"
    using ev f1 g enc assms(6,7) E(7) Cache_checkIfKeyExists_iff [OF E(1)] c_k
    by (simp add: process_real_def Let_def um_at_def loc_def)
  have wr': "mid_writes V e s0 (k # dn) todo (evs @ [k1]) s' ?w"
    if "live s' k1" "\<forall>j \<in> set evs. live s' j" "EvictedItems s' = ev_insert k1 v1 (EvictedItems s)" for s' :: "'a proxy"
    by (rule mid_writes_step [OF wr that(1) _ _ dec that(2,3)]) (use E(5,6) in auto)
  have kd: "k \<in> set (keys_to_be_deleted s) \<longleftrightarrow> k \<in> set (keys_to_be_deleted s0)" using I(6) by simp
  have od': "mid_order V s0 (k # dn) (evs @ [k1]) s'"
    if "lru (pcache s') = (if k \<in> set (keys_to_be_deleted s) then lru c1 else (k, V k) # lru c1)" for s' :: "'a proxy"
    using that od E(7,9) kd by (simp add: mid_order_def)
  show ?thesis
  proof (cases "k \<in> set (keys_to_be_deleted s)")
    case True
    obtain rb where rb: "fs_removeKey k (realBst s) = Inr rb"
      and all: "\<forall>s1. realBst s1 = rb \<longrightarrow> keys_to_be_deleted s1 = filter (\<lambda>j. j \<noteq> k) (keys_to_be_deleted s) \<longrightarrow>
       mid_index s0 todo s1 \<and> (\<forall>j. live s1 j \<longleftrightarrow> live s j \<and> j \<noteq> k)"
      by (rule mid_delete [OF ix True assms(2) lk])
    let ?s' = "?s1\<lparr>realBst := rb, keys_to_be_deleted := filter (\<lambda>j. j \<noteq> k) (keys_to_be_deleted s)\<rparr>"
    have ix': "mid_index s0 todo ?s'" and lv: "\<forall>j. live ?s' j \<longleftrightarrow> live s j \<and> j \<noteq> k" using all by simp_all
    have "card (set (keys_to_be_deleted s) - {k}) = card (set (keys_to_be_deleted s)) - 1"
      by (rule card_Diff_singleton [OF True])
    moreover have "0 < card (set (keys_to_be_deleted s))" using True by (auto simp: card_gt_0_iff)
    moreover have "set (filter (\<lambda>j. j \<noteq> k) (keys_to_be_deleted s)) = set (keys_to_be_deleted s) - {k}" by auto
    ultimately have ca': "mid_cache V s0 todo (evs @ [k1]) ?s'"
      using ca E(1-3,8) lv by (auto simp: mid_cache_def)
    have "mid_writes V e s0 (k # dn) todo (evs @ [k1]) ?s' ?w"
      by (rule wr') (use lv E(4,5) wr in \<open>auto simp: mid_writes_def\<close>)
    moreover have "j \<in> set (evs @ [k1]) \<or> stored e ?g m j (fs_freq (realBst s0) j) (V j)"
      if "live ?s' j" "j \<notin> set todo" "cache_find c1 j = None" for j
      using st [of j] that lv E(2) by (auto split: if_splits)
    moreover have "mid_frame s0 ?s'" using fr by (simp add: mid_frame_def)
    ultimately have "mid V e m s0 (k # dn) todo (evs @ [k1]) (?s', ?w)" using ix' ca' od' [of ?s'] True by (simp add: mid_def)
    moreover have "process_real e rm (stKey, response) (s, w) = Inr (?s', ?w)" using run True rb by simp
    ultimately show ?thesis by blast
  next
    case False
    obtain c2 where c2: "insertIntoCache k (V k) c1 = Inr c2" using insertIntoCache_eq [OF E(1)] by blast
    note C = insertIntoCache_inv [OF E(1) c2] cache_find_insert [OF E(1) c2] length_lru_insert_fresh [OF E(1) c2 c_k]
    let ?s' = "?s1\<lparr>pcache := c2\<rparr>"
    have ix': "mid_index s0 todo ?s'" and lv: "\<And>j. live ?s' j \<longleftrightarrow> live s j"
      using mid_keep [OF ix False, of ?s'] by simp_all
    have ca': "mid_cache V s0 todo (evs @ [k1]) ?s'"
      using ca C E(2,3,5,8) lv lk assms(2) wr by (auto simp: mid_cache_def mid_writes_def)
    have "mid_writes V e s0 (k # dn) todo (evs @ [k1]) ?s' ?w"
      by (rule wr') (use lv E(4,5) wr in \<open>auto simp: mid_writes_def\<close>)
    moreover have "j \<in> set (evs @ [k1]) \<or> stored e ?g m j (fs_freq (realBst s0) j) (V j)"
      if "live ?s' j" "j \<notin> set todo" "cache_find c2 j = None" for j
      using st [of j] that lv E(2) C(2) by (auto split: if_splits)
    moreover have "mid_frame s0 ?s'" using fr by (simp add: mid_frame_def)
    moreover have "lru c2 = (k, V k) # lru c1"
    proof -
      have "k \<notin> set (map fst (lru c1))" using c_k by (simp add: cache_find_def map_of_eq_None_iff)
      then have "filter (\<lambda>p. fst p \<noteq> k) (lru c1) = lru c1" by (rule filter_neq_notin)
      then show ?thesis using insertIntoCache_lru [OF E(1) c2] by simp
    qed
    ultimately have "mid V e m s0 (k # dn) todo (evs @ [k1]) (?s', ?w)" using ix' ca' od' [of ?s'] False by (simp add: mid_def)
    moreover have "process_real e rm (stKey, response) (s, w) = Inr (?s', ?w)" using run False c2 by simp
    ultimately show ?thesis by blast
  qed
qed

lemma process_real_loop:
  assumes "mid V e m s0 dn todo evs st" and "distinct todo" and "\<forall>k \<in> set todo. live s0 k"
    and "evp_lawful (e_evp e) (encryption_string (encryption_engine s0)) (iv_string (encryption_engine s0))"
    and "\<forall>j. live s0 j \<longrightarrow> storable (V j)"
    and "\<forall>k \<in> set todo. um_find rm (L k) = Some k \<and> decryptNonDeterministic (e_evp e) (encryption_engine s0) (C k) = Inr (V k)"
  shows "\<exists>st' evs'. foldR (process_real e rm) (map (\<lambda>k. (L k, C k)) todo) st = Inr st' \<and>
    mid V e m s0 (rev todo @ dn) [] (evs @ evs') st' \<and> length evs' = length todo"
  using assms(1,2,3,6)
proof (induction todo arbitrary: dn evs st)
  case (Cons k todo)
  obtain s w where st: "st = (s, w)" by fastforce
  have "\<exists>st' k1. process_real e rm (L k, C k) (s, w) = Inr st' \<and> mid V e m s0 (k # dn) todo (evs @ [k1]) st'"
    by (rule process_real_step [OF Cons.prems(1) [unfolded st] _ _ assms(4,5)]) (use Cons.prems in auto)
  then obtain st1 k1 where st1: "process_real e rm (L k, C k) st = Inr st1" "mid V e m s0 (k # dn) todo (evs @ [k1]) st1"
    using st by blast
  from Cons.IH [OF st1(2)] Cons.prems obtain st' evs' where
    "foldR (process_real e rm) (map (\<lambda>k. (L k, C k)) todo) st1 = Inr st'"
    "mid V e m s0 (rev todo @ k # dn) [] ((evs @ [k1]) @ evs') st'" "length evs' = length todo"
    by auto
  then show ?case using st1(1) by (auto intro!: exI [of _ "k1 # evs'"])
qed (use assms in auto)

subsection \<open>The write loop over the fake keys\<close>

lemma process_fake_loop:
  assumes "\<forall>k \<in> set fks. fake s k \<and> um_find rm (L k) = Some k"
    and "\<forall>k \<in> set fks. \<exists>v. decryptNonDeterministic (e_evp e) (encryption_engine s) (C k) = Inr v"
    and "evp_lawful (e_evp e) (encryption_string (encryption_engine s)) (iv_string (encryption_engine s))"
    and "object_size cfg \<le> 4070"
  shows "\<exists>pos cs w'. foldR (process_fake cfg e rm) (map (\<lambda>k. (L k, C k)) fks) (s, w) = Inr (s\<lparr>rand_pos := pos\<rparr>, w') \<and>
    writeBatchKeys w' = writeBatchKeys w @ map (\<lambda>k. loc e (encryption_engine s) k (fs_freq (fakeBst s) k)) fks \<and>
    writeBatchValues w' = writeBatchValues w @ cs \<and> length cs = length fks \<and>
    (\<forall>c \<in> set cs. \<exists>v. decryptNonDeterministic (e_evp e) (encryption_engine s) c = Inr v) \<and>
    tempEvictedItems w' = tempEvictedItems w \<and> (um_ok (promiseSatisfy w) \<longrightarrow> um_ok (promiseSatisfy w')) \<and>
    (\<forall>k. um_has (promiseSatisfy w') k \<longleftrightarrow> um_has (promiseSatisfy w) k \<or> k \<in> set fks) \<and>
    (\<forall>k. k \<notin> set fks \<longrightarrow> um_find (promiseSatisfy w') k = um_find (promiseSatisfy w) k)"
  using assms(1,2,3)
proof (induction fks arbitrary: s w)
  case Nil
  then show ?case by (intro exI [of _ "rand_pos s"] exI [of _ "[]"] exI [of _ w]) simp
next
  case (Cons k fks)
  let ?g = "encryption_engine s"
  obtain v where v: "decryptNonDeterministic (e_evp e) ?g (C k) = Inr v" using Cons.prems(2) by auto
  obtain r p where r: "gen_random (e_rand e) (rand_pos s) (object_size cfg) = (r, p)" by fastforce
  have "storable r"
    using gen_random_chars(1,2) [OF r] alphanum_chars(2) assms(4) by (auto simp: storable_def)
  then obtain c p' where c: "encryptNonDeterministic (e_evp e) ?g (e_rand e) p r = Inr (c, p')"
    "decryptNonDeterministic (e_evp e) ?g c = Inr r"
    using nondeterministic_roundtrip [OF Cons.prems(3)] by blast
  let ?w1 = "w\<lparr>promiseSatisfy := um_set k v (promiseSatisfy w),
     writeBatchKeys := writeBatchKeys w @ [loc e ?g k (fs_freq (fakeBst s) k)], writeBatchValues := writeBatchValues w @ [c]\<rparr>"
  let ?s1 = "s\<lparr>rand_pos := p'\<rparr>"
  have step: "process_fake cfg e rm (L k, C k) (s, w) = Inr (?s1, ?w1)"
    using Cons.prems(1) v r c(1) by (simp add: process_fake_def Let_def um_at_def fake_def loc_def)
  have "\<exists>pos cs w'. foldR (process_fake cfg e rm) (map (\<lambda>k. (L k, C k)) fks) (?s1, ?w1) = Inr (?s1\<lparr>rand_pos := pos\<rparr>, w') \<and>
    writeBatchKeys w' = writeBatchKeys ?w1 @ map (\<lambda>k. loc e (encryption_engine ?s1) k (fs_freq (fakeBst ?s1) k)) fks \<and>
    writeBatchValues w' = writeBatchValues ?w1 @ cs \<and> length cs = length fks \<and>
    (\<forall>c \<in> set cs. \<exists>v. decryptNonDeterministic (e_evp e) (encryption_engine ?s1) c = Inr v) \<and>
    tempEvictedItems w' = tempEvictedItems ?w1 \<and> (um_ok (promiseSatisfy ?w1) \<longrightarrow> um_ok (promiseSatisfy w')) \<and>
    (\<forall>k. um_has (promiseSatisfy w') k \<longleftrightarrow> um_has (promiseSatisfy ?w1) k \<or> k \<in> set fks) \<and>
    (\<forall>k. k \<notin> set fks \<longrightarrow> um_find (promiseSatisfy w') k = um_find (promiseSatisfy ?w1) k)"
    by (rule Cons.IH) (use Cons.prems in \<open>auto simp: fake_def\<close>)
  then obtain pos cs w' where
    w': "foldR (process_fake cfg e rm) (map (\<lambda>k. (L k, C k)) fks) (?s1, ?w1) = Inr (?s1\<lparr>rand_pos := pos\<rparr>, w')"
      "writeBatchKeys w' = writeBatchKeys ?w1 @ map (\<lambda>k. loc e ?g k (fs_freq (fakeBst s) k)) fks"
      "writeBatchValues w' = writeBatchValues ?w1 @ cs" "length cs = length fks"
      "\<forall>c \<in> set cs. \<exists>v. decryptNonDeterministic (e_evp e) ?g c = Inr v"
      "tempEvictedItems w' = tempEvictedItems ?w1" "um_ok (promiseSatisfy ?w1) \<longrightarrow> um_ok (promiseSatisfy w')"
      "\<forall>k. um_has (promiseSatisfy w') k \<longleftrightarrow> um_has (promiseSatisfy ?w1) k \<or> k \<in> set fks"
      "\<forall>k. k \<notin> set fks \<longrightarrow> um_find (promiseSatisfy w') k = um_find (promiseSatisfy ?w1) k"
    by auto
  show ?case
    by (rule exI [of _ pos], rule exI [of _ "c # cs"], rule exI [of _ w']) (use w' step c(2) in auto)
qed

end
