(* ===== verification/Proxy_Execute.thy ===== *)
theory Proxy_Execute
  imports Proxy_Batch
begin

text \<open>
  A whole batch: \<open>execute_batch\<close> returns, reads and writes exactly \<open>B\<close> different locations, keeps the
  invariant of the proxy, leaves every live value in place except the keys to be deleted, and answers
  every waiting request.  Around it, \<open>consumer_round\<close> and \<open>clear_round\<close>.
\<close>

subsection \<open>Locations of a batch\<close>

text \<open>The pairs of keys and batch numbers the proofs compare are all within the bounds of the environment.\<close>

lemma loc_map_inj:
  assumes "env_ok e g db K T" and "\<forall>k \<in> set ks. k \<in> K \<and> 0 \<le> f k \<and> f k \<le> T"
  shows "inj_on (\<lambda>k. loc e g k (f k)) (set ks)"
  using assms(2) by (auto simp: inj_on_def loc_inj [OF assms(1)])

lemma loc_disjoint:
  assumes "env_ok e g db K T" and "\<forall>k \<in> A. k \<in> K \<and> 0 \<le> f k \<and> f k \<le> T" and "\<forall>k \<in> B. k \<in> K \<and> 0 \<le> h k \<and> h k \<le> T"
    and "A \<inter> B = {}"
  shows "(\<lambda>k. loc e g k (f k)) ` A \<inter> (\<lambda>k. loc e g k (h k)) ` B = {}"
  using assms(2-4) by (auto simp: loc_inj [OF assms(1)])

lemma distinct_loc_map:
  assumes "env_ok e g db K T" and "\<forall>k \<in> set xs. k \<in> K \<and> 0 \<le> f k \<and> f k \<le> T" and "\<forall>k \<in> set ys. k \<in> K \<and> 0 \<le> h k \<and> h k \<le> T"
    and "distinct (xs @ ys)"
  shows "distinct (map (\<lambda>k. loc e g k (f k)) xs @ map (\<lambda>k. loc e g k (h k)) ys)"
  using assms(4) loc_map_inj [OF assms(1,2)] loc_map_inj [OF assms(1,3)] loc_disjoint [OF assms(1-3)]
  by (simp add: distinct_map)

text \<open>What MSET leaves behind, for distinct locations.\<close>

lemma put_lookup:
  assumes "distinct ks" and "length ks = length vs"
  shows "i < length ks \<Longrightarrow> (m ++ map_of (rev (zip ks vs))) (ks ! i) = Some (vs ! i)"
    and "k \<notin> set ks \<Longrightarrow> (m ++ map_of (rev (zip ks vs))) k = m k"
proof -
  assume "i < length ks"
  then have "(ks ! i, vs ! i) \<in> set (rev (zip ks vs))" using assms(2) by (auto simp: set_zip)
  moreover have "distinct (map fst (rev (zip ks vs)))" using assms by (simp add: rev_map [symmetric])
  ultimately show "(m ++ map_of (rev (zip ks vs))) (ks ! i) = Some (vs ! i)" by (simp add: map_add_def)
next
  assume "k \<notin> set ks"
  then have "map_of (rev (zip ks vs)) k = None" using assms(2) by (auto simp: map_of_eq_None_iff dest: set_zip_leftD)
  then show "(m ++ map_of (rev (zip ks vs))) k = m k" by (simp add: map_add_def)
qed

subsection \<open>The exchange\<close>

definition exchanged ::
  "(string \<Rightarrow> string) \<Rightarrow> ('srv, 'ctx) env \<Rightarrow> (string \<Rightarrow> string option) \<Rightarrow> 'srv proxy \<Rightarrow> string list \<Rightarrow> string list \<Rightarrow> string list \<Rightarrow>
   'srv proxy \<Rightarrow> writes \<Rightarrow> bool" where
  "exchanged V e m s0 rs fk evs s2 w \<longleftrightarrow> (\<exists>w1 cs. mid V e m s0 (rev rs) [] evs (s2, w1) \<and> length evs = length rs \<and>
     writeBatchKeys w = writeBatchKeys w1 @ map (\<lambda>k. loc e (encryption_engine s0) k (fs_freq (fakeBst s0) k)) fk \<and>
     writeBatchValues w = writeBatchValues w1 @ cs \<and> length cs = length fk \<and>
     (\<forall>c \<in> set cs. \<exists>v. decryptNonDeterministic (e_evp e) (encryption_engine s0) c = Inr v) \<and>
     tempEvictedItems w = tempEvictedItems w1 \<and> um_ok (promiseSatisfy w) \<and>
     (\<forall>k. um_has (promiseSatisfy w) k \<longleftrightarrow> k \<in> set rs \<union> set fk) \<and>
     (\<forall>k \<in> set rs. um_find (promiseSatisfy w) k = Some (V k)))"

text \<open>What is known of the keys of a chosen batch.\<close>

definition batch_keys :: "'srv proxy \<Rightarrow> string list \<Rightarrow> string list \<Rightarrow> bool" where
  "batch_keys s rs fk \<longleftrightarrow> distinct rs \<and> distinct fk \<and> (\<forall>k \<in> set rs. live s k \<and> cache_find (pcache s) k = None) \<and>
     (\<forall>k \<in> set fk. fake s k) \<and> set (keys_to_be_deleted s) \<subseteq> set rs \<and>
     card (set (keys_to_be_deleted s)) < length (lru (pcache s))"

lemma not_live_fake:
  assumes "pinv K V e db s" and "live s k" and "fake s k"
  shows False
  using pinvD(7) [OF assms(1,3)] ts_invD(4) [OF pinvD(4) [OF assms(1)]] assms(2) by (simp add: live_def)

lemma mid_start:
  assumes "pinv K V e db s" and "batch_keys s rs fk" and "ts = timeStamp s + 1"
    and "s0 = (snd (snd (chosen e s rs fk rk)))\<lparr>storage := srv\<rparr>"
  shows "mid V e (db (server s)) s0 [] rs [] (s0, no_writes)"
    "encryption_engine s0 = encryption_engine s" "\<forall>k. live s0 k \<longleftrightarrow> live s k" "\<forall>k. fake s0 k \<longleftrightarrow> fake s k"
    "\<forall>k. fs_freq (realBst s0) k = (if k \<in> set rs then ts else fs_freq (realBst s) k)"
    "\<forall>k. fs_freq (fakeBst s0) k = (if k \<in> set fk then ts else fs_freq (fakeBst s) k)"
    "keysNotUsed s0 = keysNotUsed s" "timeStamp s0 = ts" "runningKeys s0 = rk" "promises s0 = promises s" "fs_inv (fakeBst s0)"
    "fs_inv (realBst s0)" "keys_to_be_deleted s0 = keys_to_be_deleted s" "pcache s0 = pcache s"
proof -
  note D = pinvD [OF assms(1)]
  have B: "distinct rs" "\<And>k. k \<in> set rs \<Longrightarrow> live s k" "\<And>k. k \<in> set rs \<Longrightarrow> cache_find (pcache s) k = None"
    "\<And>k. k \<in> set fk \<Longrightarrow> fake s k" "set (keys_to_be_deleted s) \<subseteq> set rs"
    "card (set (keys_to_be_deleted s)) < length (lru (pcache s))"
    using assms(2) by (auto simp: batch_keys_def)
  have s0: "s0 = s\<lparr>timeStamp := ts, realBst := fold (\<lambda>k. fs_setFrequency k ts) rs (realBst s),
      fakeBst := fold (\<lambda>k. fs_setFrequency k ts) fk (fakeBst s), runningKeys := rk, storage := srv\<rparr>"
    using assms(3,4) by (simp add: chosen_def Let_def)
  have sub: "set rs \<subseteq> Collect (um_has (accessFreqs (realBst s)))" "set fk \<subseteq> Collect (um_has (accessFreqs (fakeBst s)))"
    using B(2,4) by (auto simp: live_def fake_def)
  show lv: "\<forall>k. live s0 k \<longleftrightarrow> live s k" "\<forall>k. fake s0 k \<longleftrightarrow> fake s k"
    using fold_setFrequency_freq(2) [OF D(3) sub(1)] fold_setFrequency_freq(2) [OF D(6) sub(2)]
    by (simp_all add: s0 live_def fake_def)
  show fr: "\<forall>k. fs_freq (realBst s0) k = (if k \<in> set rs then ts else fs_freq (realBst s) k)"
    "\<forall>k. fs_freq (fakeBst s0) k = (if k \<in> set fk then ts else fs_freq (fakeBst s) k)"
    using fold_setFrequency_freq(1) [OF D(3)] fold_setFrequency_freq(1) [OF D(6)] by (simp_all add: s0)
  show inv: "fs_inv (fakeBst s0)" "fs_inv (realBst s0)"
    using fold_setFrequency_facts(1) [OF D(6)] fold_setFrequency_facts(1) [OF D(3)] by (simp_all add: s0)
  show rest: "encryption_engine s0 = encryption_engine s" "keysNotUsed s0 = keysNotUsed s" "timeStamp s0 = ts"
    "runningKeys s0 = rk" "promises s0 = promises s" "keys_to_be_deleted s0 = keys_to_be_deleted s" "pcache s0 = pcache s"
    by (simp_all add: s0)
  have "ts_inv (realBst s0)" "needTimeStamp (realBst s0)"
    using fold_setFrequency_ts_inv [OF D(4) sub(1)] fold_setFrequency_facts(3) [OF D(3)] D(5) by (simp_all add: s0)
  then have "mid_index s0 rs s0" using inv(2) B(2,5) lv(1) rest(6) by (auto simp: mid_index_def)
  moreover have "mid_cache V s0 rs [] s0" using D(8,9) B(3,6) lv(1) rest fr(1) by (auto simp: mid_cache_def warm_def)
  moreover have "mid_writes V e s0 [] rs [] s0 no_writes" using D(14) by (simp add: mid_writes_def no_writes_def s0)
  moreover have "stored e (encryption_engine s0) (db (server s)) k (fs_freq (realBst s0) k) (V k)"
    if "live s0 k" "k \<notin> set rs" "cache_find (pcache s0) k = None" for k
    using D(11) [of k] that lv(1) fr(1) rest by simp
  moreover have "mid_frame s0 s0" by (simp add: mid_frame_def)
  ultimately show "mid V e (db (server s)) s0 [] rs [] (s0, no_writes)" by (simp add: mid_def mid_order_def)
qed
lemma mid_rand_pos: "mid V e m s0 dn todo evs (s\<lparr>rand_pos := p\<rparr>, w) = mid V e m s0 dn todo evs (s, w)"
  by (simp add: mid_def mid_frame_def mid_index_def mid_cache_def mid_writes_def mid_order_def live_def)

text \<open>Every location the batch reads exists and decrypts, and the map from locations back to keys is exact.\<close>

lemma chosen_reads:
  assumes "env_ok e (encryption_engine s) db K T" and "pinv K V e db s" and "batch_keys s rs fk" and "timeStamp s < T"
    and "chosen e s rs fk rk = (sk, rm, s1)"
    and "LR = (\<lambda>k. loc e (encryption_engine s) k (fs_freq (realBst s) k))"
    and "LF = (\<lambda>k. loc e (encryption_engine s) k (fs_freq (fakeBst s) k))"
  shows "sk = map LR rs @ map LF fk" "distinct sk"
    "\<forall>k \<in> set rs. um_find rm (LR k) = Some k" "\<forall>k \<in> set fk. um_find rm (LF k) = Some k"
    "\<forall>k \<in> set rs. \<exists>c. db (server s) (LR k) = Some c \<and> decryptNonDeterministic (e_evp e) (encryption_engine s) c = Inr (V k)"
    "\<forall>k \<in> set fk. \<exists>c v. db (server s) (LF k) = Some c \<and> decryptNonDeterministic (e_evp e) (encryption_engine s) c = Inr v"
proof -
  note D = pinvD [OF assms(2)]
  have B: "distinct rs" "distinct fk" "\<forall>k \<in> set rs. live s k \<and> cache_find (pcache s) k = None" "\<forall>k \<in> set fk. fake s k"
    using assms(3) by (auto simp: batch_keys_def)
  have bd: "\<forall>k \<in> set rs. k \<in> K \<and> 0 \<le> fs_freq (realBst s) k \<and> fs_freq (realBst s) k \<le> T"
    "\<forall>k \<in> set fk. k \<in> K \<and> 0 \<le> fs_freq (fakeBst s) k \<and> fs_freq (fakeBst s) k \<le> T"
    using D(10,12) B(3,4) assms(4) by (meson less_imp_le order_trans)+
  have disj: "set rs \<inter> set fk = {}" using not_live_fake [OF assms(2)] B(3,4) by blast
  have rm: "rm = fold (\<lambda>k. um_set (LF k) k) fk (fold (\<lambda>k. um_set (LR k) k) rs [])"
    and sk: "sk = map LR rs @ map LF fk"
    using assms(5-7) by (auto simp: chosen_def Let_def)
  show "sk = map LR rs @ map LF fk" by (rule sk)
  show "distinct sk" unfolding sk assms(6,7) by (rule distinct_loc_map [OF assms(1) bd]) (use B(1,2) disj in simp)
  have inj: "inj_on LR (set rs)" "inj_on LF (set fk)" "LR ` set rs \<inter> LF ` set fk = {}"
    unfolding assms(6,7) using loc_map_inj [OF assms(1) bd(1)] loc_map_inj [OF assms(1) bd(2)]
      loc_disjoint [OF assms(1) bd disj] by auto
  show "\<forall>k \<in> set fk. um_find rm (LF k) = Some k" unfolding rm using read_map_find [OF inj(2)] by blast
  show "\<forall>k \<in> set rs. um_find rm (LR k) = Some k"
  proof
    fix k assume k: "k \<in> set rs"
    then have "LR k \<notin> LF ` set fk" using inj(3) by blast
    then show "um_find rm (LR k) = Some k" unfolding rm using read_map_find [OF inj(1) k] by (simp add: read_map_other)
  qed
  show "\<forall>k \<in> set rs. \<exists>c. db (server s) (LR k) = Some c \<and> decryptNonDeterministic (e_evp e) (encryption_engine s) c = Inr (V k)"
    using D(11) B(3) by (auto simp: stored_def assms(6))
  show "\<forall>k \<in> set fk. \<exists>c v. db (server s) (LF k) = Some c \<and> decryptNonDeterministic (e_evp e) (encryption_engine s) c = Inr v"
    using D(13) B(4) by (fastforce simp: stored_def assms(7))
qed

lemma exchange_ok:
  assumes "env_ok e (encryption_engine s) db K T" and "pinv K V e db s" and "batch_keys s rs fk" and "timeStamp s < T"
    and "chosen e s rs fk rk = (sk, rm, s1)" and "object_size cfg \<le> 4070"
  shows "\<exists>resp srv. redis_get_batch (e_redis e) sk (storage s1) = Inr (resp, [srv]) \<and> length resp = length sk \<and>
    db srv = db (server s) \<and>
    (\<exists>st1 s2 w evs. foldR (process_real e rm) (take (length rs) (zip sk resp)) (s1\<lparr>storage := [srv]\<rparr>, no_writes) = Inr st1 \<and>
       foldR (process_fake cfg e rm) (drop (length rs) (zip sk resp)) st1 = Inr (s2, w) \<and>
       exchanged V e (db (server s)) (s1\<lparr>storage := [srv]\<rparr>) rs fk evs s2 w)"
proof -
  let ?g = "encryption_engine s" and ?m = "db (server s)"
  define LR where "LR = (\<lambda>k. loc e ?g k (fs_freq (realBst s) k))"
  define LF where "LF = (\<lambda>k. loc e ?g k (fs_freq (fakeBst s) k))"
  note R = chosen_reads [OF assms(1-5) LR_def LF_def]
  let ?f = "\<lambda>i. the (?m i)"
  have B: "distinct rs" "\<forall>k \<in> set rs. live s k" "\<forall>k \<in> set fk. fake s k" using assms(3) by (auto simp: batch_keys_def)
  have s1: "storage s1 = [server s]" using assms(5) pinvD(1) [OF assms(2)] by (auto simp: chosen_def Let_def)
  have "\<forall>i \<in> set sk. ?m i = Some (?f i)" using R(1,5,6) by auto
  then obtain srv where srv: "redis_get_batch (e_redis e) sk (storage s1) = Inr (map ?f sk, [srv])" "db srv = ?m"
    using redis_get_batch_single [OF env_okD(2) [OF assms(1)], of sk "server s" ?f] s1 by auto
  let ?s0 = "s1\<lparr>storage := [srv]\<rparr>"
  have "?s0 = (snd (snd (chosen e s rs fk rk)))\<lparr>storage := [srv]\<rparr>" by (simp add: assms(5))
  note S = mid_start [OF assms(2,3) refl this]
  have z: "zip sk (map ?f sk) = map (\<lambda>k. (LR k, ?f (LR k))) rs @ map (\<lambda>k. (LF k, ?f (LF k))) fk"
  proof -
    have "zip xs (map ?f xs) = map (\<lambda>i. (i, ?f i)) xs" for xs by (induction xs) simp_all
    from this [of sk] have "zip sk (map ?f sk) = map (\<lambda>i. (i, ?f i)) (map LR rs @ map LF fk)" by (simp only: R(1))
    then show ?thesis by (simp add: o_def)
  qed
  have evp: "evp_lawful (e_evp e) (encryption_string (encryption_engine ?s0)) (iv_string (encryption_engine ?s0))"
    using env_okD(1) [OF assms(1)] S(2) by simp
  have "\<exists>st' evs'. foldR (process_real e rm) (map (\<lambda>k. (LR k, ?f (LR k))) rs) (?s0, no_writes) = Inr st' \<and>
    mid V e ?m ?s0 (rev rs @ []) [] ([] @ evs') st' \<and> length evs' = length rs"
    by (rule process_real_loop [OF S(1) B(1) _ evp])
      (use B(2) S(2,3) R(3,5) pinvD(10) [OF assms(2)] in \<open>auto\<close>)
  then obtain s2 w1 evs where l1: "foldR (process_real e rm) (map (\<lambda>k. (LR k, ?f (LR k))) rs) (?s0, no_writes) = Inr (s2, w1)"
    "mid V e ?m ?s0 (rev rs) [] evs (s2, w1)" "length evs = length rs" by auto
  have fr: "encryption_engine s2 = encryption_engine ?s0" "fakeBst s2 = fakeBst ?s0"
    and ps: "um_ok (promiseSatisfy w1)" "\<And>k v. um_find (promiseSatisfy w1) k = Some v \<longleftrightarrow> k \<in> set rs \<and> v = V k"
    using l1(2) by (auto simp: mid_def mid_frame_def mid_writes_def)
  have "\<exists>pos cs w'. foldR (process_fake cfg e rm) (map (\<lambda>k. (LF k, ?f (LF k))) fk) (s2, w1) = Inr (s2\<lparr>rand_pos := pos\<rparr>, w') \<and>
    writeBatchKeys w' = writeBatchKeys w1 @ map (\<lambda>k. loc e (encryption_engine s2) k (fs_freq (fakeBst s2) k)) fk \<and>
    writeBatchValues w' = writeBatchValues w1 @ cs \<and> length cs = length fk \<and>
    (\<forall>c \<in> set cs. \<exists>v. decryptNonDeterministic (e_evp e) (encryption_engine s2) c = Inr v) \<and>
    tempEvictedItems w' = tempEvictedItems w1 \<and> (um_ok (promiseSatisfy w1) \<longrightarrow> um_ok (promiseSatisfy w')) \<and>
    (\<forall>k. um_has (promiseSatisfy w') k \<longleftrightarrow> um_has (promiseSatisfy w1) k \<or> k \<in> set fk) \<and>
    (\<forall>k. k \<notin> set fk \<longrightarrow> um_find (promiseSatisfy w') k = um_find (promiseSatisfy w1) k)"
    by (rule process_fake_loop [OF _ _ _ assms(6)])
      (use B(3) S(2,4) R(4,6) fr evp in \<open>fastforce simp: fake_def\<close>)+
  then obtain pos cs w where
    l2: "foldR (process_fake cfg e rm) (map (\<lambda>k. (LF k, ?f (LF k))) fk) (s2, w1) = Inr (s2\<lparr>rand_pos := pos\<rparr>, w)"
    and w: "writeBatchKeys w = writeBatchKeys w1 @ map (\<lambda>k. loc e (encryption_engine ?s0) k (fs_freq (fakeBst ?s0) k)) fk"
      "writeBatchValues w = writeBatchValues w1 @ cs" "length cs = length fk"
      "\<forall>c \<in> set cs. \<exists>v. decryptNonDeterministic (e_evp e) (encryption_engine ?s0) c = Inr v"
      "tempEvictedItems w = tempEvictedItems w1" "um_ok (promiseSatisfy w)"
      "\<forall>k. um_has (promiseSatisfy w) k \<longleftrightarrow> um_has (promiseSatisfy w1) k \<or> k \<in> set fk"
      "\<forall>k. k \<notin> set fk \<longrightarrow> um_find (promiseSatisfy w) k = um_find (promiseSatisfy w1) k"
    unfolding fr using ps(1) by blast
  have "set rs \<inter> set fk = {}" using not_live_fake [OF assms(2)] B(2,3) by blast
  then have psw: "\<forall>k. um_has (promiseSatisfy w) k \<longleftrightarrow> k \<in> set rs \<union> set fk" "\<forall>k \<in> set rs. um_find (promiseSatisfy w) k = Some (V k)"
    using w(7,8) ps(2) by (auto simp: um_has_conv)
  have "mid V e ?m ?s0 (rev rs) [] evs (s2\<lparr>rand_pos := pos\<rparr>, w1)"
    using l1(2) by (simp only: mid_rand_pos)
  then have "exchanged V e ?m ?s0 rs fk evs (s2\<lparr>rand_pos := pos\<rparr>) w"
    unfolding exchanged_def using l1(3) w(1-6) psw by blast
  moreover have "take (length rs) (zip sk (map ?f sk)) = map (\<lambda>k. (LR k, ?f (LR k))) rs"
    "drop (length rs) (zip sk (map ?f sk)) = map (\<lambda>k. (LF k, ?f (LF k))) fk" by (simp_all add: z)
  ultimately show ?thesis using srv l1(1) l2 by (intro exI [of _ "map ?f sk"] exI [of _ srv]) auto
qed

subsection \<open>After the writes\<close>

text \<open>The write vectors name different locations, one per evicted key and one per fake key.\<close>

lemma exchanged_writes:
  assumes "exchanged V e m s0 rs fk evs s2 w" and "env_ok e (encryption_engine s0) db K T"
    and "\<forall>k. live s0 k \<longrightarrow> k \<in> K \<and> 0 \<le> fs_freq (realBst s0) k \<and> fs_freq (realBst s0) k \<le> T"
    and "\<forall>k. fake s0 k \<longrightarrow> k \<in> K \<and> 0 \<le> fs_freq (fakeBst s0) k \<and> fs_freq (fakeBst s0) k \<le> T"
    and "\<forall>k. \<not> (live s0 k \<and> fake s0 k)" and "\<forall>k \<in> set fk. fake s0 k" and "distinct fk"
  shows "distinct evs" "\<forall>k \<in> set evs. live s2 k \<and> live s0 k"
    "writeBatchKeys w = map (\<lambda>k. loc e (encryption_engine s0) k (fs_freq (realBst s0) k)) evs @
       map (\<lambda>k. loc e (encryption_engine s0) k (fs_freq (fakeBst s0) k)) fk"
    "distinct (writeBatchKeys w)" "length (writeBatchKeys w) = length rs + length fk"
    "length (writeBatchValues w) = length (writeBatchKeys w)"
    "\<forall>i < length evs. decryptNonDeterministic (e_evp e) (encryption_engine s0) (writeBatchValues w ! i) = Inr (V (evs ! i))"
    "\<forall>i < length fk. \<exists>v. decryptNonDeterministic (e_evp e) (encryption_engine s0) (writeBatchValues w ! (length evs + i)) = Inr v"
proof -
  let ?g = "encryption_engine s0"
  obtain w1 cs where x: "mid V e m s0 (rev rs) [] evs (s2, w1)" "length evs = length rs"
     "writeBatchKeys w = writeBatchKeys w1 @ map (\<lambda>k. loc e ?g k (fs_freq (fakeBst s0) k)) fk"
     "writeBatchValues w = writeBatchValues w1 @ cs" "length cs = length fk"
     "\<forall>c \<in> set cs. \<exists>v. decryptNonDeterministic (e_evp e) ?g c = Inr v"
    using assms(1) unfolding exchanged_def by blast
  have y: "distinct evs" "\<forall>k \<in> set evs. live s2 k"
     "writeBatchKeys w1 = map (\<lambda>k. loc e ?g k (fs_freq (realBst s0) k)) evs"
     "list_all2 (\<lambda>k c. decryptNonDeterministic (e_evp e) ?g c = Inr (V k)) evs (writeBatchValues w1)"
    and ix: "mid_index s0 [] s2"
    using x(1) by (auto simp: mid_def mid_writes_def)
  show "distinct evs" by (rule y(1))
  show lv: "\<forall>k \<in> set evs. live s2 k \<and> live s0 k" using y(2) mid_indexD(4) [OF ix] by blast
  show wk: "writeBatchKeys w = map (\<lambda>k. loc e ?g k (fs_freq (realBst s0) k)) evs @ map (\<lambda>k. loc e ?g k (fs_freq (fakeBst s0) k)) fk"
    using x(3) y(3) by simp
  show "distinct (writeBatchKeys w)"
    unfolding wk by (rule distinct_loc_map [OF assms(2)]) (use assms(3-7) lv y(1) in auto)
  show "length (writeBatchKeys w) = length rs + length fk" using x(2) by (simp add: wk)
  have len: "length (writeBatchValues w1) = length evs" using y(4) by (simp add: list_all2_lengthD)
  then show "length (writeBatchValues w) = length (writeBatchKeys w)" using x(4,5) by (simp add: wk)
  show "\<forall>i < length evs. decryptNonDeterministic (e_evp e) ?g (writeBatchValues w ! i) = Inr (V (evs ! i))"
    using y(4) len x(4) by (auto simp: nth_append list_all2_conv_all_nth)
  show "\<forall>i < length fk. \<exists>v. decryptNonDeterministic (e_evp e) ?g (writeBatchValues w ! (length evs + i)) = Inr v"
    using x(4-6) len by (auto simp: nth_append)
qed

text \<open>An evicted entry and a fake key are found at their new locations; every other location is as before.\<close>

lemma stored_after_put:
  assumes "wk = map (\<lambda>k. loc e g k (f k)) evs @ map (\<lambda>k. loc e g k (h k)) fk" and "distinct wk" and "length wv = length wk"
    and "m' = m ++ map_of (rev (zip wk wv))"
    and "\<forall>i < length evs. decryptNonDeterministic (e_evp e) g (wv ! i) = Inr (V (evs ! i))"
    and "\<forall>i < length fk. \<exists>v. decryptNonDeterministic (e_evp e) g (wv ! (length evs + i)) = Inr v"
  shows "k \<in> set evs \<Longrightarrow> stored e g m' k (f k) (V k)" "k \<in> set fk \<Longrightarrow> \<exists>v. stored e g m' k (h k) v"
    "loc e g k j \<notin> set wk \<Longrightarrow> stored e g m' k j v \<longleftrightarrow> stored e g m k j v"
proof -
  note P = put_lookup [OF assms(2) assms(3) [symmetric], of _ m, folded assms(4)]
  show "stored e g m' k (f k) (V k)" if h: "k \<in> set evs"
  proof -
    obtain i where i: "i < length evs" "evs ! i = k" using h by (auto simp: in_set_conv_nth)
    then have "wk ! i = loc e g k (f k)" "i < length wk" by (simp_all add: assms(1) nth_append)
    then have "m' (loc e g k (f k)) = Some (wv ! i)" using P(1) [of i] by simp
    then show ?thesis using assms(5) i by (auto simp: stored_def)
  qed
  show "\<exists>v. stored e g m' k (h k) v" if h: "k \<in> set fk"
  proof -
    obtain i where i: "i < length fk" "fk ! i = k" using h by (auto simp: in_set_conv_nth)
    then have "wk ! (length evs + i) = loc e g k (h k)" "length evs + i < length wk" by (simp_all add: assms(1) nth_append)
    then have "m' (loc e g k (h k)) = Some (wv ! (length evs + i))" using P(1) [of "length evs + i"] by simp
    then show ?thesis using assms(6) i by (auto simp: stored_def)
  qed
  show "stored e g m' k j v \<longleftrightarrow> stored e g m k j v" if "loc e g k j \<notin> set wk"
    using P(2) [OF that] by (simp add: stored_def)
qed

lemma fold_ev_erase: "um_has (ev_cacheMap (fold ev_erase ks ev)) k \<longleftrightarrow> um_has (ev_cacheMap ev) k \<and> k \<notin> set ks"
  by (induction ks arbitrary: ev) (auto simp: ev_erase_def)

lemma fs_size_card:
  assumes "fs_inv b"
  shows "fs_size b = card (Collect (um_has (accessFreqs b)))"
proof -
  have "card (set (um_keys (accessFreqs b))) = length (um_keys (accessFreqs b))"
    using fs_invD(1) [OF assms] by (intro distinct_card) (simp add: um_ok_def)
  moreover have "Collect (um_has (accessFreqs b)) = set (um_keys (accessFreqs b))" by (auto simp only: um_has_keys)
  ultimately show ?thesis by (simp add: fs_size_def)
qed

text \<open>The state after the writes, before the requests are answered.\<close>

definition written ::
  "(string \<Rightarrow> string) \<Rightarrow> ('srv, 'ctx) env \<Rightarrow> ('srv \<Rightarrow> string \<Rightarrow> string option) \<Rightarrow> 'srv proxy \<Rightarrow> string list \<Rightarrow> string list \<Rightarrow> string list \<Rightarrow>
   'srv proxy \<Rightarrow> writes \<Rightarrow> 'srv proxy \<Rightarrow> bool" where
  "written V e db s rs fk sk s2 w s3 \<longleftrightarrow>
     (\<exists>rk rm s1 srv evs srv' r p. chosen e s rs fk rk = (sk, rm, s1) \<and> db srv = db (server s) \<and>
        exchanged V e (db (server s)) (s1\<lparr>storage := [srv]\<rparr>) rs fk evs s2 w \<and>
        db srv' = db srv ++ map_of (rev (zip (writeBatchKeys w) (writeBatchValues w))) \<and>
        s3 = s2\<lparr>storage := [srv'], EvictedItems := fold ev_erase (tempEvictedItems w) (EvictedItems s2),
          runningKeys := r, promises := p, keysNotUsed := keysNotUsed s2 @ [sk]\<rparr>)"

lemma written_index:
  assumes "pinv K V e db s" and "batch_keys s rs fk" and "written V e db s rs fk sk s2 w s3"
  shows "\<forall>k. live s3 k \<longleftrightarrow> live s k \<and> k \<notin> set (keys_to_be_deleted s)" "keys_to_be_deleted s3 = []"
    "\<forall>k. fake s3 k \<longleftrightarrow> fake s k" "timeStamp s3 = timeStamp s + 1" "encryption_engine s3 = encryption_engine s"
    "length (lru (pcache s3)) + card (set (keys_to_be_deleted s)) = length (lru (pcache s))"
    "fs_size (fakeBst s3) = fs_size (fakeBst s)"
    "\<forall>k. live s3 k \<longrightarrow> fs_freq (realBst s3) k = (if k \<in> set rs then timeStamp s + 1 else fs_freq (realBst s) k)"
    "\<forall>k. fs_freq (fakeBst s3) k = (if k \<in> set fk then timeStamp s + 1 else fs_freq (fakeBst s) k)"
    "fs_inv (realBst s3)" "ts_inv (realBst s3)" "needTimeStamp (realBst s3)" "fs_inv (fakeBst s3)" "cache_inv (pcache s3)"
    "\<forall>k v. cache_find (pcache s3) k = Some v \<longrightarrow> live s3 k \<and> v = V k" "keysNotUsed s3 = keysNotUsed s @ [sk]"
    "ev_cacheMap (EvictedItems s3) = []" "storage s3 = [server s3]"
    "\<forall>k. cache_find (pcache s3) k \<noteq> None \<longrightarrow> fs_freq (realBst s3) k = timeStamp s + 1 \<or> cache_find (pcache s) k \<noteq> None"
proof -
  obtain rk rm s1 srv evs srv' r p where
    c: "chosen e s rs fk rk = (sk, rm, s1)" "db srv = db (server s)"
      "exchanged V e (db (server s)) (s1\<lparr>storage := [srv]\<rparr>) rs fk evs s2 w"
    and s3: "s3 = s2\<lparr>storage := [srv'], EvictedItems := fold ev_erase (tempEvictedItems w) (EvictedItems s2),
          runningKeys := r, promises := p, keysNotUsed := keysNotUsed s2 @ [sk]\<rparr>"
    using assms(3) unfolding written_def by blast
  define s0 where "s0 = s1\<lparr>storage := [srv]\<rparr>"
  have "s0 = (snd (snd (chosen e s rs fk rk)))\<lparr>storage := [srv]\<rparr>" by (simp add: c(1) s0_def)
  note S = mid_start [OF assms(1,2) refl this]
  obtain w1 where x: "mid V e (db (server s)) s0 (rev rs) [] evs (s2, w1)" "tempEvictedItems w = tempEvictedItems w1"
    using c(3) unfolding exchanged_def s0_def by blast
  have fr: "mid_frame s0 s2" and ix: "mid_index s0 [] s2" and ca: "mid_cache V s0 [] evs s2"
    and ev: "set (tempEvictedItems w1) = set evs" "\<forall>k. um_has (ev_cacheMap (EvictedItems s2)) k \<longrightarrow> k \<in> set evs"
    using x(1) by (auto simp: mid_def mid_writes_def)
  note I = mid_indexD [OF ix]
  have lv: "live s3 k \<longleftrightarrow> live s2 k" "fake s3 k \<longleftrightarrow> fake s2 k" for k by (simp_all add: s3 live_def fake_def)
  have fb: "fakeBst s3 = fakeBst s0" using fr by (simp add: s3 mid_frame_def)
  show "\<forall>k. live s3 k \<longleftrightarrow> live s k \<and> k \<notin> set (keys_to_be_deleted s)" using lv(1) I(4) S(3,13) by simp
  show kd: "keys_to_be_deleted s3 = []" using I(6) by (simp add: s3)
  show fk: "\<forall>k. fake s3 k \<longleftrightarrow> fake s k" using fb S(4) by (simp add: fake_def)
  show "timeStamp s3 = timeStamp s + 1" "encryption_engine s3 = encryption_engine s" "keysNotUsed s3 = keysNotUsed s @ [sk]"
    using fr S(2,7,8) by (simp_all add: s3 mid_frame_def)
  show "length (lru (pcache s3)) + card (set (keys_to_be_deleted s)) = length (lru (pcache s))"
    "cache_inv (pcache s3)" and cl: "\<forall>k v. cache_find (pcache s3) k = Some v \<longrightarrow> live s3 k \<and> v = V k"
    using ca kd S(13,14) lv by (auto simp: mid_cache_def s3)
  show "\<forall>k. cache_find (pcache s3) k \<noteq> None \<longrightarrow> fs_freq (realBst s3) k = timeStamp s + 1 \<or> cache_find (pcache s) k \<noteq> None"
  proof (intro allI impI)
    fix k assume k: "cache_find (pcache s3) k \<noteq> None"
    then have "warm s0 k" using ca by (simp add: mid_cache_def s3)
    moreover have "live s2 k" using k cl lv(1) by (cases "cache_find (pcache s3) k") auto
    ultimately show "fs_freq (realBst s3) k = timeStamp s + 1 \<or> cache_find (pcache s) k \<noteq> None"
      using I(5) [of k] S(8,14) by (auto simp: warm_def s3)
  qed
  show fi: "fs_inv (fakeBst s3)" using fb S(11) by simp
  have "um_has (accessFreqs (fakeBst s3)) = um_has (accessFreqs (fakeBst s))" using fk by (auto simp: fake_def fun_eq_iff)
  then show "fs_size (fakeBst s3) = fs_size (fakeBst s)"
    using fs_size_card [OF fi] fs_size_card [OF pinvD(6) [OF assms(1)]] by simp
  show "\<forall>k. live s3 k \<longrightarrow> fs_freq (realBst s3) k = (if k \<in> set rs then timeStamp s + 1 else fs_freq (realBst s) k)"
    using I(5) S(5) lv(1) by (simp add: s3)
  show "\<forall>k. fs_freq (fakeBst s3) k = (if k \<in> set fk then timeStamp s + 1 else fs_freq (fakeBst s) k)"
    using fb S(6) by simp
  show "fs_inv (realBst s3)" "ts_inv (realBst s3)" "needTimeStamp (realBst s3)" using I(1-3) by (simp_all add: s3)
  have "\<not> um_has (ev_cacheMap (EvictedItems s3)) k" for k using ev x(2) by (auto simp: s3 fold_ev_erase)
  then show "ev_cacheMap (EvictedItems s3) = []" by (simp add: um_empty_iff um_has_def)
  show "storage s3 = [server s3]" by (simp add: s3 server_def)
qed

lemma written_storage:
  assumes "env_ok e (encryption_engine s) db K T" and "pinv K V e db s" and "batch_keys s rs fk" and "timeStamp s < T"
    and "written V e db s rs fk sk s2 w s3"
  shows "distinct (writeBatchKeys w)" "length (writeBatchKeys w) = length rs + length fk"
    "length (writeBatchValues w) = length (writeBatchKeys w)"
    "\<forall>k. live s3 k \<longrightarrow> cache_find (pcache s3) k = None \<longrightarrow>
       stored e (encryption_engine s) (db (server s3)) k (fs_freq (realBst s3) k) (V k)"
    "\<forall>k. fake s3 k \<longrightarrow> (\<exists>v. stored e (encryption_engine s) (db (server s3)) k (fs_freq (fakeBst s3) k) v)"
    "\<forall>i \<in> set (writeBatchKeys w). \<exists>k f. i = loc e (encryption_engine s) k f \<and>
       (live s3 k \<and> f = fs_freq (realBst s3) k \<and> cache_find (pcache s3) k = None \<and>
         (f = timeStamp s + 1 \<or> cache_find (pcache s) k \<noteq> None \<and> f = fs_freq (realBst s) k)
        \<or> fake s3 k \<and> f = fs_freq (fakeBst s3) k \<and> f = timeStamp s + 1)"
proof -
  obtain rk rm s1 srv evs srv' r p where
    c: "chosen e s rs fk rk = (sk, rm, s1)" "db srv = db (server s)"
      "exchanged V e (db (server s)) (s1\<lparr>storage := [srv]\<rparr>) rs fk evs s2 w"
      "db srv' = db srv ++ map_of (rev (zip (writeBatchKeys w) (writeBatchValues w)))"
    and s3: "s3 = s2\<lparr>storage := [srv'], EvictedItems := fold ev_erase (tempEvictedItems w) (EvictedItems s2),
          runningKeys := r, promises := p, keysNotUsed := keysNotUsed s2 @ [sk]\<rparr>"
    using assms(5) unfolding written_def by blast
  define s0 where "s0 = s1\<lparr>storage := [srv]\<rparr>"
  let ?g = "encryption_engine s"
  note D = pinvD [OF assms(2)]
  have "s0 = (snd (snd (chosen e s rs fk rk)))\<lparr>storage := [srv]\<rparr>" by (simp add: c(1) s0_def)
  note S = mid_start [OF assms(2,3) refl this]
  note X = written_index [OF assms(2,3,5)]
  have x: "exchanged V e (db (server s)) s0 rs fk evs s2 w" using c(3) by (simp add: s0_def)
  obtain w1 where m: "mid V e (db (server s)) s0 (rev rs) [] evs (s2, w1)" using x unfolding exchanged_def by blast
  then have fr: "mid_frame s0 s2" and ix: "mid_index s0 [] s2" and ca: "mid_cache V s0 [] evs s2" by (simp_all add: mid_def)
  note I = mid_indexD [OF ix]
  have b: "\<forall>k. live s0 k \<longrightarrow> k \<in> K \<and> 0 \<le> fs_freq (realBst s0) k \<and> fs_freq (realBst s0) k \<le> T"
    "\<forall>k. fake s0 k \<longrightarrow> k \<in> K \<and> 0 \<le> fs_freq (fakeBst s0) k \<and> fs_freq (fakeBst s0) k \<le> T"
    using S(3-6) D(2,10,12) assms(4) by (fastforce)+
  have nlf: "\<forall>k. \<not> (live s0 k \<and> fake s0 k)" using not_live_fake [OF assms(2)] S(3,4) by blast
  have fk: "\<forall>k \<in> set fk. fake s0 k" "distinct fk" using assms(3) S(4) by (auto simp: batch_keys_def)
  note W = exchanged_writes [OF x assms(1) [folded S(2)] b nlf fk, unfolded S(2)]
  show "distinct (writeBatchKeys w)" "length (writeBatchKeys w) = length rs + length fk"
    "length (writeBatchValues w) = length (writeBatchKeys w)" by (rule W)+
  have m': "db (server s3) = db (server s) ++ map_of (rev (zip (writeBatchKeys w) (writeBatchValues w)))"
    using c(2,4) by (simp add: s3 server_def)
  note A = stored_after_put [OF W(3,4,6) m' W(7,8)]
  have lv: "live s3 k \<longleftrightarrow> live s2 k" "fake s3 k \<longleftrightarrow> fake s0 k" for k using X(3) S(4) by (simp_all add: s3 live_def)
  have f2: "fs_freq (realBst s3) k = fs_freq (realBst s0) k" if "live s3 k" for k using I(5) that lv(1) by (simp add: s3)
  have f3: "fakeBst s3 = fakeBst s0" using fr by (simp add: s3 mid_frame_def)
  have live0: "live s0 k" if "live s3 k" for k using that lv(1) I(4) by blast
  have wk: "set (writeBatchKeys w) = (\<lambda>k. loc e ?g k (fs_freq (realBst s0) k)) ` set evs \<union> (\<lambda>k. loc e ?g k (fs_freq (fakeBst s0) k)) ` set fk"
    by (simp add: W(3))
  show "\<forall>k. live s3 k \<longrightarrow> cache_find (pcache s3) k = None \<longrightarrow>
       stored e (encryption_engine s) (db (server s3)) k (fs_freq (realBst s3) k) (V k)"
  proof (intro allI impI)
    fix k assume k: "live s3 k" "cache_find (pcache s3) k = None"
    show "stored e ?g (db (server s3)) k (fs_freq (realBst s3) k) (V k)"
    proof (cases "k \<in> set evs")
      case True
      then show ?thesis using A(1) [OF True] f2 [OF k(1)] by simp
    next
      case False
      have "loc e ?g k (fs_freq (realBst s0) k) \<notin> set (writeBatchKeys w)"
        unfolding wk using False b nlf fk(1) W(2) live0 [OF k(1)] by (auto simp: loc_inj [OF assms(1)])
      moreover have "stored e ?g (db (server s)) k (fs_freq (realBst s0) k) (V k)"
        using m False k lv(1) S(2) by (auto simp: mid_def s3)
      ultimately show ?thesis using A(3) f2 [OF k(1)] by simp
    qed
  qed
  show "\<forall>k. fake s3 k \<longrightarrow> (\<exists>v. stored e ?g (db (server s3)) k (fs_freq (fakeBst s3) k) v)"
  proof (intro allI impI)
    fix k assume k: "fake s3 k"
    show "\<exists>v. stored e ?g (db (server s3)) k (fs_freq (fakeBst s3) k) v"
    proof (cases "k \<in> set fk")
      case True
      then show ?thesis using A(2) [OF True] f3 by simp
    next
      case False
      have "loc e ?g k (fs_freq (fakeBst s0) k) \<notin> set (writeBatchKeys w)"
        unfolding wk using False b nlf fk(1) W(2) k lv(2) by (auto simp: loc_inj [OF assms(1)])
      moreover obtain v where "stored e ?g (db (server s)) k (fs_freq (fakeBst s0) k) v"
        using D(13) [of k] k X(3) False S(6) by auto
      ultimately show ?thesis using A(3) f3 by auto
    qed
  qed
  have evc: "cache_find (pcache s3) k = None" "warm s0 k" if "k \<in> set evs" for k
    using ca that by (cases "cache_find (pcache s3) k", auto simp: mid_cache_def s3)
  show "\<forall>i \<in> set (writeBatchKeys w). \<exists>k f. i = loc e ?g k f \<and>
       (live s3 k \<and> f = fs_freq (realBst s3) k \<and> cache_find (pcache s3) k = None \<and>
         (f = timeStamp s + 1 \<or> cache_find (pcache s) k \<noteq> None \<and> f = fs_freq (realBst s) k)
        \<or> fake s3 k \<and> f = fs_freq (fakeBst s3) k \<and> f = timeStamp s + 1)"
  proof
    fix i assume "i \<in> set (writeBatchKeys w)"
    then consider k where "k \<in> set evs" "i = loc e ?g k (fs_freq (realBst s0) k)"
      | k where "k \<in> set fk" "i = loc e ?g k (fs_freq (fakeBst s0) k)" unfolding wk by blast
    then show "\<exists>k f. i = loc e ?g k f \<and>
       (live s3 k \<and> f = fs_freq (realBst s3) k \<and> cache_find (pcache s3) k = None \<and>
         (f = timeStamp s + 1 \<or> cache_find (pcache s) k \<noteq> None \<and> f = fs_freq (realBst s) k)
        \<or> fake s3 k \<and> f = fs_freq (fakeBst s3) k \<and> f = timeStamp s + 1)"
    proof cases
      case (1 k)
      have "fs_freq (realBst s0) k = timeStamp s + 1 \<or> cache_find (pcache s) k \<noteq> None \<and> fs_freq (realBst s0) k = fs_freq (realBst s) k"
        using evc(2) [OF 1(1)] S(5,8,14) by (auto simp: warm_def)
      then show ?thesis using 1 W(2) lv(1) f2 [of k] evc(1) [OF 1(1)]
        by (intro exI [of _ k] exI [of _ "fs_freq (realBst s3) k"]) simp
    next
      case (2 k)
      then show ?thesis using fk(1) lv(2) f3 S(6) by auto
    qed
  qed
qed

text \<open>Locations read by the batch become stale, and stale locations stay stale.\<close>

lemma written_stale:
  assumes "pinv K V e db s" and "batch_keys s rs fk" and "written V e db s rs fk sk s2 w s3"
  shows "i \<in> set sk \<Longrightarrow> stale K e s3 i" "stale K e s i \<Longrightarrow> stale K e s3 i"
proof -
  note D = pinvD [OF assms(1)] and X = written_index [OF assms]
  have B: "\<forall>k \<in> set rs. live s k" "\<forall>k \<in> set fk. fake s k" using assms(2) by (auto simp: batch_keys_def)
  obtain rk rm s1 where c: "chosen e s rs fk rk = (sk, rm, s1)" using assms(3) unfolding written_def by blast
  let ?g = "encryption_engine s"
  have sk: "set sk = (\<lambda>k. loc e ?g k (fs_freq (realBst s) k)) ` set rs \<union> (\<lambda>k. loc e ?g k (fs_freq (fakeBst s) k)) ` set fk"
    using c by (auto simp: chosen_def Let_def)
  show "stale K e s3 i" if "i \<in> set sk"
    using that unfolding sk
  proof
    assume "i \<in> (\<lambda>k. loc e ?g k (fs_freq (realBst s) k)) ` set rs"
    then obtain k where k: "k \<in> set rs" "i = loc e ?g k (fs_freq (realBst s) k)" by blast
    then have "\<not> fake s k" using B(1) not_live_fake [OF assms(1)] by blast
    then show ?thesis
      using k B(1) D(10) [of k] X(3,4,5,8)
      by (auto simp: stale_def intro!: bexI [of _ k] exI [of _ "fs_freq (realBst s) k"])
  next
    assume "i \<in> (\<lambda>k. loc e ?g k (fs_freq (fakeBst s) k)) ` set fk"
    then obtain k where k: "k \<in> set fk" "i = loc e ?g k (fs_freq (fakeBst s) k)" by blast
    then have "\<not> live s k" using B(2) not_live_fake [OF assms(1)] by blast
    then show ?thesis
      using k B(2) D(12) [of k] X(1,4,5,9)
      by (auto simp: stale_def intro!: bexI [of _ k] exI [of _ "fs_freq (fakeBst s) k"])
  qed
  show "stale K e s3 i" if h: "stale K e s i"
  proof -
    obtain k f where k: "k \<in> K" "0 \<le> f" "f < timeStamp s" "i = loc e ?g k f"
      "live s k \<longrightarrow> f < fs_freq (realBst s) k" "fake s k \<longrightarrow> f < fs_freq (fakeBst s) k"
      using h unfolding stale_def by blast
    then show ?thesis using X(1,3,4,5,8,9) by (auto simp: stale_def intro!: bexI [of _ k] exI [of _ f])
  qed
qed

lemma written_aged:
  assumes "pinv K V e db s" and "batch_keys s rs fk" and "written V e db s rs fk sk s2 w s3"
  shows "aged s s3"
proof -
  note X = written_index [OF assms]
  show ?thesis unfolding aged_def using X(1,3,4,5,8,9,19) by auto
qed

lemma written_pinv:
  assumes "env_ok e (encryption_engine s) db K T" and "pinv K V e db s" and "batch_keys s rs fk" and "timeStamp s < T"
    and "written V e db s rs fk sk s2 w s3"
  shows "pinv K V e db s3"
proof -
  note D = pinvD [OF assms(2)] and X = written_index [OF assms(2,3,5)] and W = written_storage [OF assms]
    and St = written_stale [OF assms(2,3,5)]
  have "\<forall>k. live s3 k \<longrightarrow> k \<in> K \<and> storable (V k) \<and> 0 \<le> fs_freq (realBst s3) k \<and> fs_freq (realBst s3) k \<le> timeStamp s3"
    using X(1,4,8) D(2,10) by fastforce
  moreover have "\<forall>k. fake s3 k \<longrightarrow> k \<in> K \<and> 0 \<le> fs_freq (fakeBst s3) k \<and> fs_freq (fakeBst s3) k \<le> timeStamp s3"
    using X(3,4,9) D(2,12) by fastforce
  moreover have "\<forall>ids \<in> set (keysNotUsed s3). \<forall>i \<in> set ids. stale K e s3 i"
    using X(16) D(15) St by auto
  moreover have "\<forall>k. fake s3 k \<longrightarrow> \<not> canon k" using X(3) D(7) by blast
  ultimately show ?thesis
    unfolding pinv_def using X(4,5,10-15,17,18) W(4,5) D(2) by simp
qed

lemma exchanged_lengths:
  assumes "exchanged V e m s0 rs fk evs s2 w"
  shows "length (writeBatchKeys w) = length (writeBatchValues w)"
  using assms by (auto simp: exchanged_def mid_def mid_writes_def dest!: list_all2_lengthD)

subsection \<open>Answering the requests\<close>

lemma clear_inv_same:
  assumes "same_requests r r'"
  shows "clear_inv F V rm0 ps0 rem r' ps \<longleftrightarrow> clear_inv F V rm0 ps0 rem r ps"
  using assms by (simp add: clear_inv_def rk_wf_def waits_def same_requests_def)

lemma fold_erase_all:
  assumes "\<forall>k. um_has m k \<longrightarrow> k \<in> set ks"
  shows "fold um_erase ks m = []"
proof -
  have "\<not> um_has (fold um_erase ks m) k" for k using assms by (simp add: um_has_fold_erase)
  then show ?thesis by (simp add: um_empty_iff um_has_def)
qed

text \<open>
  The requests a batch has to answer: those still waiting (\<open>rm0\<close> are all requests of the round, \<open>ps0\<close>
  the promises at its start), each answerable from the values of its keys, and none of their keys arrived
  twice.
\<close>

definition awaiting ::
  "float_ops \<Rightarrow> (string \<Rightarrow> string) \<Rightarrow> (int, string list \<times> nat option) umap \<Rightarrow> promise_store \<Rightarrow> running \<Rightarrow> promise_store \<Rightarrow> bool" where
  "awaiting F V rm0 ps0 r ps \<longleftrightarrow> clear_inv F V rm0 ps0 [] r ps \<and> answerable F V rm0 \<and>
     (\<forall>k. um_has (get_map r) k \<longrightarrow> \<not> um_has (get_cache r) k) \<and> (request_map r = [] \<longrightarrow> idle r)"

definition answered ::
  "float_ops \<Rightarrow> (string \<Rightarrow> string) \<Rightarrow> (int, string list \<times> nat option) umap \<Rightarrow> promise_store \<Rightarrow> promise_store \<Rightarrow> bool" where
  "answered F V rm0 ps0 ps \<longleftrightarrow>
     (\<forall>i ks q. um_find rm0 i = Some (ks, Some q) \<longrightarrow> (\<exists>a. rk_answer F ks V = Inr a \<and> um_find ps q = Some a)) \<and>
     (\<forall>q. (\<forall>i ks. um_find rm0 i \<noteq> Some (ks, Some q)) \<longrightarrow> um_find ps q = um_find ps0 q)"

lemma deliver_batch:
  assumes "awaiting F V rm0 ps0 r ps" and "same_requests r rk" and "\<forall>k. rk_present rk k \<longleftrightarrow> k \<in> set rs \<union> set fk"
    and "\<forall>k. um_has (get_map r) k \<longrightarrow> k \<in> set rs"
    and "um_ok kvs" and "\<forall>k. um_has kvs k \<longleftrightarrow> k \<in> set rs \<union> set fk" and "\<forall>k \<in> set rs. um_find kvs k = Some (V k)"
    and "mset kvs' = mset kvs"
  shows "\<exists>r' ps'. foldR (\<lambda>kv. tryClearPromises F (fst kv) (snd kv)) kvs' (rk, ps) = Inr (r', ps') \<and>
    r' = running_empty \<and> answered F V rm0 ps0 ps'"
proof -
  have A: "clear_inv F V rm0 ps0 [] rk ps" "answerable F V rm0" "\<forall>k. um_has (get_map rk) k \<longrightarrow> \<not> um_has (get_cache rk) k"
    "request_map rk = [] \<Longrightarrow> idle rk" "\<forall>k. um_has (get_map rk) k \<longrightarrow> k \<in> set rs"
    using assms(1,2,4) clear_inv_same [OF assms(2)] by (auto simp: awaiting_def same_requests_def idle_def)
  have st: "set kvs' = set kvs" "mset (map fst kvs') = mset (map fst kvs)" using assms(8) by (metis set_mset_mset, metis mset_map)
  have d: "distinct (map fst kvs')" using assms(5) st(2) by (metis mset_eq_imp_distinct_iff um_ok_def)
  have k: "fst ` set kvs' = set rs \<union> set fk" using assms(6) st(1) by (auto simp: um_has_keys)
  have v: "\<forall>(k, v) \<in> set kvs'. um_has (get_map rk) k \<longrightarrow> v = V k"
  proof clarify
    fix k v assume "(k, v) \<in> set kvs'" "um_has (get_map rk) k"
    then have "um_find kvs k = Some v" "k \<in> set rs" using A(5) st(1) um_find_in [OF assms(5)] by auto
    then show "v = V k" using assms(7) by simp
  qed
  have "\<forall>k. um_has (get_map rk) k \<longrightarrow> k \<in> fst ` set kvs' \<and> \<not> um_has (get_cache rk) k" using A(3,5) k by blast
  from deliver_all [OF A(1,2) d this v A(4)] obtain r' ps' where
    r: "foldR (\<lambda>kv. tryClearPromises F (fst kv) (snd kv)) kvs' (rk, ps) = Inr (r', ps')" "idle r'"
      "m_map r' = fold um_erase (map fst kvs') (m_map rk)"
    and a: "\<forall>i rks q. um_find rm0 i = Some (rks, Some q) \<longrightarrow> (\<exists>a. rk_answer F rks V = Inr a \<and> um_find ps' q = Some a)"
      "\<forall>q. (\<forall>i rks. um_find rm0 i \<noteq> Some (rks, Some q)) \<longrightarrow> um_find ps' q = um_find ps0 q"
    by blast
  have "m_map r' = []"
    unfolding r(3) by (rule fold_erase_all) (use assms(3) k in \<open>auto simp: rk_present_def\<close>)
  then have "r' = running_empty" using r(2) by (simp add: idle_def running_empty_def)
  then show ?thesis using r(1) a by (auto simp: answered_def)
qed

subsection \<open>A whole batch\<close>

text \<open>What a batch promises.\<close>

definition batch_post ::
  "string set \<Rightarrow> (string \<Rightarrow> string) \<Rightarrow> config \<Rightarrow> ('srv, 'ctx) env \<Rightarrow> ('srv \<Rightarrow> string \<Rightarrow> string option) \<Rightarrow> 'srv proxy \<Rightarrow>
   string list \<Rightarrow> writes \<Rightarrow> 'srv proxy \<Rightarrow> bool" where
  "batch_post K V cfg e db s sk w s' \<longleftrightarrow>
     pinv K V e db s' \<and> runningKeys s' = running_empty \<and> keys_to_be_deleted s' = [] \<and>
     (\<forall>k. live s' k \<longleftrightarrow> live s k \<and> k \<notin> set (keys_to_be_deleted s)) \<and> (\<forall>k. fake s' k \<longleftrightarrow> fake s k) \<and>
     timeStamp s' = timeStamp s + 1 \<and> encryption_engine s' = encryption_engine s \<and>
     fs_size (fakeBst s') = fs_size (fakeBst s) \<and>
     length (lru (pcache s')) + card (set (keys_to_be_deleted s)) = length (lru (pcache s)) \<and>
     length sk = nat (cfg_B cfg) \<and> distinct sk \<and>
     length (writeBatchKeys w) = nat (cfg_B cfg) \<and> length (writeBatchValues w) = nat (cfg_B cfg) \<and> distinct (writeBatchKeys w) \<and>
     aged s s' \<and>
     (\<forall>i \<in> set sk. db (server s) i \<noteq> None \<and> stale K e s' i \<and>
       (\<exists>k. live s k \<and> i = loc e (encryption_engine s) k (fs_freq (realBst s) k) \<or>
            fake s k \<and> i = loc e (encryption_engine s) k (fs_freq (fakeBst s) k))) \<and>
     (\<forall>i \<in> set (writeBatchKeys w). \<exists>k f. i = loc e (encryption_engine s) k f \<and>
       (live s' k \<and> f = fs_freq (realBst s') k \<and> cache_find (pcache s') k = None \<and>
         (f = timeStamp s + 1 \<or> cache_find (pcache s) k \<noteq> None \<and> f = fs_freq (realBst s) k)
        \<or> fake s' k \<and> f = fs_freq (fakeBst s') k \<and> f = timeStamp s + 1))"

text \<open>
  What a batch picks: the client keys, the uncached keys used longest ago and the fake keys used longest ago,
  each at the location of its last use; their frequency becomes the number of the batch.  The real keys enter
  the cache at the front, except those to be deleted, and push out as many entries at the back.
\<close>

definition picks ::
  "config \<Rightarrow> ('srv, 'ctx) env \<Rightarrow> string list \<Rightarrow> 'srv proxy \<Rightarrow> string list \<Rightarrow> string list \<Rightarrow> string list \<Rightarrow> 'srv proxy \<Rightarrow> bool" where
  "picks cfg e ops s rs fk sk s' \<longleftrightarrow>
     sk = map (\<lambda>k. loc e (encryption_engine s) k (fs_freq (realBst s) k)) (ops @ rs) @
          map (\<lambda>k. loc e (encryption_engine s) k (fs_freq (fakeBst s) k)) fk \<and>
     length (ops @ rs) = nat (cfg_B cfg - cfg_F cfg) \<and> length fk = nat (cfg_F cfg) \<and> distinct (ops @ rs) \<and> distinct fk \<and>
     (\<forall>k \<in> set (ops @ rs). live s k \<and> cache_find (pcache s) k = None) \<and> (\<forall>k \<in> set fk. fake s k) \<and>
     (\<forall>k \<in> set rs. \<forall>k'. live s k' \<longrightarrow> cache_find (pcache s) k' = None \<longrightarrow> k' \<notin> set (ops @ rs) \<longrightarrow>
        fs_freq (realBst s) k \<le> fs_freq (realBst s) k') \<and>
     (\<forall>k \<in> set fk. \<forall>k'. fake s k' \<longrightarrow> k' \<notin> set fk \<longrightarrow> fs_freq (fakeBst s) k \<le> fs_freq (fakeBst s) k') \<and>
     (\<forall>k. live s' k \<longrightarrow> fs_freq (realBst s') k = (if k \<in> set (ops @ rs) then timeStamp s + 1 else fs_freq (realBst s) k)) \<and>
     (\<forall>k. fs_freq (fakeBst s') k = (if k \<in> set fk then timeStamp s + 1 else fs_freq (fakeBst s) k)) \<and>
     (\<exists>inn out. lru (pcache s') @ out = inn @ lru (pcache s) \<and> length out = length (ops @ rs) \<and>
        map fst inn = filter (\<lambda>k. k \<notin> set (keys_to_be_deleted s)) (rev (ops @ rs)))"

lemma picksD:
  assumes "picks cfg e ops s rs fk sk s'"
  shows "sk = map (\<lambda>k. loc e (encryption_engine s) k (fs_freq (realBst s) k)) (ops @ rs) @
          map (\<lambda>k. loc e (encryption_engine s) k (fs_freq (fakeBst s) k)) fk"
    "length (ops @ rs) = nat (cfg_B cfg - cfg_F cfg)" "length fk = nat (cfg_F cfg)" "distinct (ops @ rs)" "distinct fk"
    "k \<in> set (ops @ rs) \<Longrightarrow> live s k \<and> cache_find (pcache s) k = None" "k \<in> set fk \<Longrightarrow> fake s k"
    "k \<in> set rs \<Longrightarrow> live s k' \<Longrightarrow> cache_find (pcache s) k' = None \<Longrightarrow> k' \<notin> set (ops @ rs) \<Longrightarrow>
        fs_freq (realBst s) k \<le> fs_freq (realBst s) k'"
    "k \<in> set fk \<Longrightarrow> fake s k' \<Longrightarrow> k' \<notin> set fk \<Longrightarrow> fs_freq (fakeBst s) k \<le> fs_freq (fakeBst s) k'"
    "live s' k \<Longrightarrow> fs_freq (realBst s') k = (if k \<in> set (ops @ rs) then timeStamp s + 1 else fs_freq (realBst s) k)"
    "fs_freq (fakeBst s') k = (if k \<in> set fk then timeStamp s + 1 else fs_freq (fakeBst s) k)"
    "\<exists>inn out. lru (pcache s') @ out = inn @ lru (pcache s) \<and> length out = length (ops @ rs) \<and>
        map fst inn = filter (\<lambda>k. k \<notin> set (keys_to_be_deleted s)) (rev (ops @ rs))"
  using assms unfolding picks_def by blast+

lemma execute_batch_ok:
  assumes "env_ok e (encryption_engine s) db K T" and "pinv K V e db s" and "batch_pre fuel cfg (map fst operations) s"
    and "timeStamp s < T" and "object_size cfg \<le> 4070" and "awaiting (e_float e) V rm0 ps0 (runningKeys s) (promises s)"
    and "set (keys_to_be_deleted s) \<subseteq> set (map fst operations)"
    and "card (set (keys_to_be_deleted s)) < length (lru (pcache s))"
  shows "\<exists>sk w s'. execute_batch fuel cfg e operations s = Inr (sk, w, s') \<and> batch_post K V cfg e db s sk w s' \<and>
    answered (e_float e) V rm0 ps0 (promises s') \<and> (\<exists>rs fk. picks cfg e (map fst operations) s rs fk sk s')"
proof -
  let ?F = "e_float e"
  note P = batch_preD [OF assms(3)]
  obtain rs fk rk where ch: "choose_batch fuel cfg e operations s =
       Inr (length (map fst operations @ rs), chosen e s (map fst operations @ rs) fk rk)"
    and len: "length (map fst operations @ rs) = nat (cfg_B cfg - cfg_F cfg)" "length fk = nat (cfg_F cfg)"
    and di: "distinct (map fst operations @ rs)" "distinct fk"
    and lv: "\<forall>k \<in> set (map fst operations @ rs). live s k \<and> \<not> Cache_checkIfKeyExists (pcache s) k" "\<forall>k \<in> set fk. fake s k"
    and rk: "same_requests (runningKeys s) rk" "\<forall>k. rk_present rk k \<longleftrightarrow> k \<in> set (map fst operations @ rs) \<union> set fk"
    and lr: "\<forall>k \<in> set rs. \<forall>k'. live s k' \<longrightarrow> \<not> Cache_checkIfKeyExists (pcache s) k' \<longrightarrow>
       k' \<notin> set (map fst operations) \<longrightarrow> k' \<notin> set rs \<longrightarrow> fs_freq (realBst s) k \<le> fs_freq (realBst s) k'"
      "\<forall>k \<in> set fk. \<forall>k'. fake s k' \<longrightarrow> k' \<notin> set fk \<longrightarrow> fs_freq (fakeBst s) k \<le> fs_freq (fakeBst s) k'"
    by (rule choose_batch_ok [OF assms(3)])
  define ks where "ks = map fst operations @ rs"
  have bk: "batch_keys s ks fk"
    using di lv assms(7,8) Cache_checkIfKeyExists_iff [OF pinvD(8) [OF assms(2)]] by (auto simp: batch_keys_def ks_def)
  obtain sk rm s1 where c: "chosen e s ks fk rk = (sk, rm, s1)" by (metis prod_cases3)
  obtain resp srv st1 s2 w evs where
    g: "redis_get_batch (e_redis e) sk (storage s1) = Inr (resp, [srv])" "length resp = length sk" "db srv = db (server s)"
    and l: "foldR (process_real e rm) (take (length ks) (zip sk resp)) (s1\<lparr>storage := [srv]\<rparr>, no_writes) = Inr st1"
       "foldR (process_fake cfg e rm) (drop (length ks) (zip sk resp)) st1 = Inr (s2, w)"
    and x: "exchanged V e (db (server s)) (s1\<lparr>storage := [srv]\<rparr>) ks fk evs s2 w"
    using exchange_ok [OF assms(1,2) bk assms(4) c assms(5)] by blast
  have m: "mid_frame (s1\<lparr>storage := [srv]\<rparr>) s2" "um_ok (promiseSatisfy w)"
     "\<forall>k. um_has (promiseSatisfy w) k \<longleftrightarrow> k \<in> set ks \<union> set fk" "\<forall>k \<in> set ks. um_find (promiseSatisfy w) k = Some (V k)"
    using x unfolding exchanged_def mid_def by auto
  have s2: "storage s2 = [srv]" "runningKeys s2 = rk" "promises s2 = promises s"
    using m(1) c by (auto simp: mid_frame_def chosen_def Let_def)
  note R = chosen_reads [OF assms(1,2) bk assms(4) c refl refl]
  have "um_has (get_map (runningKeys s)) k \<longrightarrow> k \<in> set ks" for k using P(7) [of k] by (auto simp: rk_present_def ks_def)
  then obtain ps' where dl: "foldR (\<lambda>kv. tryClearPromises ?F (fst kv) (snd kv)) (e_kv_order e (promiseSatisfy w)) (rk, promises s) =
      Inr (running_empty, ps')" "answered ?F V rm0 ps0 ps'"
    using deliver_batch [OF assms(6) rk(1) rk(2) [folded ks_def] _ m(2-4) env_okD(3) [OF assms(1)]] by blast
  obtain srv' where put: "redis_put_batch (e_redis e) (writeBatchKeys w) (writeBatchValues w) [srv] = Inr [srv']"
    "db srv' = db srv ++ map_of (rev (zip (writeBatchKeys w) (writeBatchValues w)))"
    using redis_put_batch_single [OF env_okD(2) [OF assms(1)] exchanged_lengths [OF x]] by blast
  let ?s3 = "s2\<lparr>storage := [srv'], EvictedItems := fold ev_erase (tempEvictedItems w) (EvictedItems s2),
     runningKeys := running_empty, promises := ps', keysNotUsed := keysNotUsed s2 @ [sk]\<rparr>"
  have run: "execute_batch fuel cfg e operations s = Inr (sk, w, ?s3)"
    using ch c g l put(1) dl(1) s2 by (simp add: execute_batch_def exchange_batch_def finish_batch_def ks_def)
  have wr: "written V e db s ks fk sk s2 w ?s3" unfolding written_def using c g(3) x put(2) by blast
  note X = written_index [OF assms(2) bk wr] and W = written_storage [OF assms(1,2) bk assms(4) wr]
  have n: "length ks + length fk = nat (cfg_B cfg)" using len P(9,10) by (simp add: ks_def)
  have "\<forall>i \<in> set sk. db (server s) i \<noteq> None \<and> stale K e ?s3 i \<and>
       (\<exists>k. live s k \<and> i = loc e (encryption_engine s) k (fs_freq (realBst s) k) \<or>
            fake s k \<and> i = loc e (encryption_engine s) k (fs_freq (fakeBst s) k))"
    using R(1,5,6) written_stale(1) [OF assms(2) bk wr] bk unfolding batch_keys_def by auto
  moreover have "length sk = nat (cfg_B cfg)" using R(1) n by simp
  ultimately have "batch_post K V cfg e db s sk w ?s3"
    unfolding batch_post_def
    using written_pinv [OF assms(1,2) bk assms(4) wr] written_aged [OF assms(2) bk wr] X(1-7) R(2) W(1-3,6) n by simp
  moreover have "picks cfg e (map fst operations) s rs fk sk ?s3"
  proof -
    have "sk = map (\<lambda>k. loc e (encryption_engine s) k (fs_freq (realBst s) k)) ks @
          map (\<lambda>k. loc e (encryption_engine s) k (fs_freq (fakeBst s) k)) fk" using c by (simp add: chosen_def Let_def)
    moreover have "\<exists>inn out. lru (pcache ?s3) @ out = inn @ lru (pcache s) \<and> length out = length ks \<and>
        map fst inn = filter (\<lambda>k. k \<notin> set (keys_to_be_deleted s)) (rev ks)"
    proof -
      have "mid_order V s1 (rev ks) evs s2" "length evs = length ks" "pcache s1 = pcache s" "keys_to_be_deleted s1 = keys_to_be_deleted s"
        using x c unfolding exchanged_def by (auto simp: mid_def mid_order_def chosen_def Let_def)
      then show ?thesis
        by (intro exI [of _ "map (\<lambda>k. (k, V k)) (filter (\<lambda>k. k \<notin> set (keys_to_be_deleted s)) (rev ks))"]
            exI [of _ "map (\<lambda>k. (k, V k)) (rev evs)"]) (simp add: mid_order_def o_def)
    qed
    ultimately show ?thesis
      unfolding picks_def ks_def [symmetric] using len [folded ks_def] di [folded ks_def] lv [folded ks_def] lr X(8,9)
        Cache_checkIfKeyExists_iff [OF pinvD(8) [OF assms(2)]] by (simp add: ks_def)
  qed
  ultimately show ?thesis using run dl(2) by (intro exI [of _ sk] exI [of _ w] exI [of _ ?s3]) auto
qed

end
