(* ===== verification/Proxy_Query.thy ===== *)
theory Proxy_Query
  imports Waffle_Proxy
begin

text \<open>
  The range query \<open>item@start@end\<close> of a GET (\<open>get_split_keys\<close>): which buckets of the item it selects.
  A bucket holds the points from its time stamp up to the next one, so the bucket that begins last
  before \<open>start\<close> belongs to the range as well.
\<close>

subsection \<open>Binary search on a sorted vector\<close>

lemma takeWhile_sorted_idx:
  assumes "sorted ts" and "i < length ts" and "\<And>x y :: int. P y \<Longrightarrow> x \<le> y \<Longrightarrow> P x"
  shows "P (ts ! i) \<longleftrightarrow> i < length (takeWhile P ts)"
proof
  assume p: "P (ts ! i)"
  show "i < length (takeWhile P ts)"
  proof (rule ccontr)
    assume "\<not> i < length (takeWhile P ts)"
    then have l: "length (takeWhile P ts) \<le> i" by simp
    then have "\<not> P (ts ! length (takeWhile P ts))" using assms(2) nth_length_takeWhile by (metis le_less_trans)
    moreover have "ts ! length (takeWhile P ts) \<le> ts ! i" using sorted_nth_mono [OF assms(1) l assms(2)] .
    ultimately show False using assms(3) p by blast
  qed
next
  assume i: "i < length (takeWhile P ts)"
  then show "P (ts ! i)" using takeWhile_nth [OF i] nth_mem [OF i] set_takeWhileD by metis
qed

lemma lower_bound_idx:
  assumes "sorted ts" and "i < length ts"
  shows "ts ! i < x \<longleftrightarrow> i < lower_bound_idx ts x"
  unfolding lower_bound_idx_def by (rule takeWhile_sorted_idx [OF assms]) auto

lemma upper_bound_idx:
  assumes "sorted ts" and "i < length ts"
  shows "ts ! i \<le> x \<longleftrightarrow> i < upper_bound_idx ts x"
  unfolding upper_bound_idx_def by (rule takeWhile_sorted_idx [OF assms]) auto

subsection \<open>The selected buckets\<close>

definition in_range :: "int set \<Rightarrow> int \<Rightarrow> int \<Rightarrow> int \<Rightarrow> bool" where
  "in_range A start stop t \<longleftrightarrow> t \<in> A \<and> t \<le> stop \<and> (\<forall>t' \<in> A. t' < start \<longrightarrow> t' \<le> t)"

lemma range_idx:
  assumes "sorted ts" and "distinct ts" and "i < length ts"
  shows "(\<forall>t' \<in> set ts. t' < a \<longrightarrow> t' \<le> ts ! i) \<longleftrightarrow> lower_bound_idx ts a - 1 \<le> i"
proof
  assume h: "\<forall>t' \<in> set ts. t' < a \<longrightarrow> t' \<le> ts ! i"
  show "lower_bound_idx ts a - 1 \<le> i"
  proof (rule ccontr)
    assume "\<not> lower_bound_idx ts a - 1 \<le> i"
    then have i: "Suc i < lower_bound_idx ts a" by simp
    have "lower_bound_idx ts a \<le> length ts" by (simp add: lower_bound_idx_def length_takeWhile_le)
    then have l: "Suc i < length ts" using i by simp
    then have "ts ! Suc i \<le> ts ! i" using h i lower_bound_idx [OF assms(1) l] nth_mem [OF l] by blast
    moreover have "ts ! i \<le> ts ! Suc i" using assms(1) l by (simp add: sorted_nth_mono)
    ultimately have "ts ! i = ts ! Suc i" by simp
    then show False using nth_eq_iff_index_eq [OF assms(2), of i "Suc i"] l by simp
  qed
next
  assume h: "lower_bound_idx ts a - 1 \<le> i"
  show "\<forall>t' \<in> set ts. t' < a \<longrightarrow> t' \<le> ts ! i"
  proof (intro ballI impI)
    fix t' assume "t' \<in> set ts" "t' < a"
    then obtain j where j: "j < length ts" "ts ! j = t'" "j < lower_bound_idx ts a"
      using lower_bound_idx [OF assms(1)] by (metis in_set_conv_nth)
    then have "j \<le> i" using h by simp
    then show "t' \<le> ts ! i" using sorted_nth_mono [OF assms(1) _ assms(3)] j(2) by blast
  qed
qed

lemma set_range_timestamps:
  assumes "distinct available"
  shows "set (range_timestamps available a b) = Collect (in_range (set available) a b)"
    and "sorted (range_timestamps available a b)" and "distinct (range_timestamps available a b)"
proof -
  define ts where "ts = sort available"
  have ts: "sorted ts" "distinct ts" "set ts = set available" using assms by (simp_all add: ts_def)
  let ?lb = "lower_bound_idx ts a - 1" and ?ub = "upper_bound_idx ts b"
  have r: "range_timestamps available a b = drop ?lb (take ?ub ts)"
  proof (cases "?lb < ?ub")
    case True
    then show ?thesis by (simp add: range_timestamps_def ts_def Let_def drop_take)
  next
    case False
    then show ?thesis by (cases "lower_bound_idx ts a = 0") (simp_all add: range_timestamps_def ts_def Let_def)
  qed
  show "sorted (range_timestamps available a b)" "distinct (range_timestamps available a b)"
    unfolding r using ts by (simp_all add: sorted_wrt_drop sorted_wrt_take)
  have "t \<in> set (drop ?lb (take ?ub ts)) \<longleftrightarrow> in_range (set available) a b t" for t
  proof
    assume "t \<in> set (drop ?lb (take ?ub ts))"
    then obtain j where d: "j < length (drop ?lb (take ?ub ts))" "drop ?lb (take ?ub ts) ! j = t"
      by (metis in_set_conv_nth)
    then have j: "?lb + j < length ts" "?lb + j < ?ub" by simp_all
    then have l: "?lb \<le> length (take ?ub ts)" by simp
    have t: "ts ! (?lb + j) = t" using d(2) j(2) nth_drop [OF l, of j] by simp
    show "in_range (set available) a b t"
      using j t range_idx [OF ts(1,2) j(1), of a] upper_bound_idx [OF ts(1) j(1), of b] nth_mem [OF j(1)] ts(3)
      by (auto simp: in_range_def)
  next
    assume h: "in_range (set available) a b t"
    then obtain i where i: "i < length ts" "ts ! i = t" using ts(3) by (metis in_range_def in_set_conv_nth)
    have "?lb \<le> i" "i < ?ub"
      using h i range_idx [OF ts(1,2) i(1), of a] upper_bound_idx [OF ts(1) i(1), of b] ts(3) by (auto simp: in_range_def)
    then have "i - ?lb < length (drop ?lb (take ?ub ts))" and l: "?lb \<le> length (take ?ub ts)" using i by simp_all
    moreover have "drop ?lb (take ?ub ts) ! (i - ?lb) = t"
      using nth_drop [OF l, of "i - ?lb"] \<open>?lb \<le> i\<close> \<open>i < ?ub\<close> i(2) by simp
    ultimately show "t \<in> set (drop ?lb (take ?ub ts))" by (metis nth_mem)
  qed
  then show "set (range_timestamps available a b) = Collect (in_range (set available) a b)" unfolding r by blast
qed

subsection \<open>Parsing the query\<close>

definition query :: "string \<Rightarrow> int \<Rightarrow> int \<Rightarrow> string" where
  "query item start stop = item @ ''@'' @ to_string start @ ''@'' @ to_string stop"

lemma getlines_query:
  assumes "wf_item item"
  shows "getlines CHR ''@'' (query item a b) = [item, to_string a, to_string b]"
  using assms getlines_step [of "CHR ''@''" item] getlines_step [of "CHR ''@''" "to_string a"]
    getlines_last [of "CHR ''@''" "to_string b"]
  by (simp add: query_def wf_item_def to_string_no_special)

text \<open>The query selects the buckets of the item in the range, oldest first, and keeps the index sound.\<close>

lemma get_split_keys_query:
  assumes "ts_inv b" and "wf_item item" and "fits64 start" and "fits64 stop"
  obtains tsl b1 where "get_split_keys (query item start stop) b = Inr (map (ts_key item) tsl, b1)"
    "set tsl = Collect (in_range {t. um_has (accessFreqs b) (ts_key item t)} start stop)" "sorted tsl" "distinct tsl"
    "b1 = b\<lparr>uniqueItemWithTimeStamp := um_touch [] item (uniqueItemWithTimeStamp b)\<rparr>"
proof -
  let ?av = "um_at [] (uniqueItemWithTimeStamp b) item"
  let ?b1 = "b\<lparr>uniqueItemWithTimeStamp := um_touch [] item (uniqueItemWithTimeStamp b)\<rparr>"
  note T = ts_invD [OF assms(1)]
  have "get_split_keys (query item start stop) b = Inr (map (ts_key item) (range_timestamps ?av start stop), ?b1)"
    using assms(2-4) by (simp add: get_split_keys_def getlines_query fs_get_timestamp_for_key_def ts_key_def [abs_def])
  moreover have "set ?av = {t. um_has (accessFreqs b) (ts_key item t)}" using T(5) by blast
  ultimately show ?thesis using that set_range_timestamps [OF T(3)] by metis
qed

end
