(* ===== verification/Proxy_Compose.thy ===== *)
theory Proxy_Compose
  imports Proxy_Execute Proxy_Query
begin

text \<open>
  Composing a batch: what \<open>create_security_batch\<close> does to the proxy for one bucket of a GET and for a
  PUT.  The invariant \<open>cinv\<close> relates the batch under construction to the table of keys in flight, the
  cache and the list of keys to be deleted; it is what \<open>execute_batch\<close> needs of a finished batch.
\<close>

subsection \<open>The invariant of a batch under construction\<close>

definition cinv :: "nat \<Rightarrow> (string \<Rightarrow> string) \<Rightarrow> operation list \<Rightarrow> 'srv proxy \<Rightarrow> bool" where
  "cinv n V batch s \<longleftrightarrow>
     distinct (map fst batch) \<and> (\<forall>k \<in> set (map fst batch). live s k \<and> cache_find (pcache s) k = None) \<and>
     (\<forall>k. rk_present (runningKeys s) k \<longleftrightarrow> k \<in> set (map fst batch)) \<and>
     set (keys_to_be_deleted s) \<subseteq> set (map fst batch) \<and>
     card (set (keys_to_be_deleted s)) + n \<le> length (lru (pcache s)) \<and>
     rk_wf (runningKeys s) (promises s) \<and> (\<forall>k. um_find (get_map (runningKeys s)) k \<noteq> Some []) \<and>
     (\<forall>k v. um_find (get_cache (runningKeys s)) k = Some v \<longrightarrow>
        v = V k \<and> (cache_find (pcache s) k \<noteq> None \<or> \<not> live s k))"

lemma cinvD:
  assumes "cinv n V batch s"
  shows "distinct (map fst batch)" "k \<in> set (map fst batch) \<Longrightarrow> live s k" "k \<in> set (map fst batch) \<Longrightarrow> cache_find (pcache s) k = None"
    "rk_present (runningKeys s) k \<longleftrightarrow> k \<in> set (map fst batch)" "set (keys_to_be_deleted s) \<subseteq> set (map fst batch)"
    "card (set (keys_to_be_deleted s)) + n \<le> length (lru (pcache s))" "rk_wf (runningKeys s) (promises s)"
    "um_find (get_map (runningKeys s)) k \<noteq> Some []"
    "um_find (get_cache (runningKeys s)) k = Some v \<Longrightarrow> v = V k"
    "um_has (get_cache (runningKeys s)) k \<Longrightarrow> cache_find (pcache s) k \<noteq> None \<or> \<not> live s k"
    "um_find (get_cache (runningKeys s)) k = Some v \<Longrightarrow> cache_find (pcache s) k \<noteq> None \<or> \<not> live s k"
  using assms unfolding cinv_def um_has_conv by blast+

lemma pinv_frame [simp]:
  "pinv K V e db (s\<lparr>runningKeys := r\<rparr>) = pinv K V e db s" "pinv K V e db (s\<lparr>promises := p\<rparr>) = pinv K V e db s"
  "pinv K V e db (s\<lparr>keys_to_be_deleted := d\<rparr>) = pinv K V e db s"
  by (simp_all add: pinv_def live_def fake_def stale_def server_def)

lemma live_frame [simp]:
  "live (s\<lparr>runningKeys := r\<rparr>) = live s" "live (s\<lparr>promises := p\<rparr>) = live s" "live (s\<lparr>keys_to_be_deleted := d\<rparr>) = live s"
  "live (s\<lparr>pcache := c\<rparr>) = live s"
  by (simp_all add: live_def fun_eq_iff)

subsection \<open>One bucket of a GET\<close>

text \<open>
  A live bucket that is cached is answered from the cache at once; any other is registered for the
  request and, unless it is in flight already, joins the batch.
\<close>

lemma csb_get:
  assumes "pinv K V e db s" and "cinv n V batch s" and "live s k" and "req_slot (runningKeys s) (promises s) i q"
  obtains batch' misses' r' where
    "create_security_batch ((k, ''''), q) i (batch, misses, s) = Inr (batch', misses', s\<lparr>runningKeys := r'\<rparr>)"
    "cinv n V batch' (s\<lparr>runningKeys := r'\<rparr>)" "req_slot r' (promises s) i q"
    "\<forall>j. um_find (request_map r') j =
       (if j = i then Some (req_keys (runningKeys s) i @ [k], Some q) else um_find (request_map (runningKeys s)) j)"
    "length batch' \<le> length batch + 1"
proof -
  note D = pinvD [OF assms(1)] and C = cinvD [OF assms(2)]
  have ev: "ev_getValue (EvictedItems s) k = ''''" using D(14) by (simp add: ev_getValue_def)
  have cp: "getValueWithoutPositionChangeNew (pcache s) k = Inr (case cache_find (pcache s) k of None \<Rightarrow> ('''', False) | Some v \<Rightarrow> (v, True))"
    using getValueWithoutPositionChangeNew_eq [OF D(8)] .
  have lk: "um_has (accessFreqs (realBst s)) k" using assms(3) by (simp add: live_def)
  show ?thesis
  proof (cases "cache_find (pcache s) k")
    case (Some v)
    have v: "v = V k" using D(9) Some by blast
    have "\<not> (um_has (get_cache (runningKeys s)) k \<and> um_at '''' (get_cache (runningKeys s)) k \<noteq> v)"
      using C(9) v by (metis um_at_conv um_has_conv)
    then obtain r' where r': "insert_cache i k v (Some q) (runningKeys s) = Inr r'" by (auto simp: insert_cache_def Let_def)
    note F = insert_cache_facts [OF r' assms(4)] and W = insert_cache_wf [OF C(7) assms(4) r']
    have "cinv n V batch (s\<lparr>runningKeys := r'\<rparr>)"
      unfolding cinv_def using C(1-6,8-10) F W(1) v Some by (auto simp: rk_present_def um_has_conv)
    moreover have "create_security_batch ((k, ''''), q) i (batch, misses, s) = Inr (batch, misses, s\<lparr>runningKeys := r'\<rparr>)"
      using lk cp Some r' by (simp add: create_security_batch_def fs_checkIfUniqueItemWithTimeStampExists_def Let_def)
    ultimately show ?thesis using that [of batch misses r'] W(2) F(4) by simp
  next
    case None
    then have nc: "\<not> um_has (get_cache (runningKeys s)) k" using C(10) assms(3) by blast
    obtain p r' where r': "insertIfNotPresent_get k (Some q) i (runningKeys s) = (p, r')" by fastforce
    note F = insertIfNotPresent_get_facts [OF r'] and W = insertIfNotPresent_get_wf [OF C(7) assms(4) r' nc]
    let ?b = "if p then batch else batch @ [(k, '''')]"
    have p: "p \<longleftrightarrow> k \<in> set (map fst batch)" using F(1) C(4) by simp
    then have keys: "set (map fst ?b) = insert k (set (map fst batch))" and dst: "distinct (map fst ?b)" using C(1) by auto
    have ne: "\<forall>j. um_find (get_map r') j \<noteq> Some []"
      using F(6) C(8) by (auto simp: insort_insert_key_def)
    have "cinv n V ?b (s\<lparr>runningKeys := r'\<rparr>)"
      unfolding cinv_def keys using dst C(2-6,9,10) F(2,3) W(1) ne None assms(3)
      by (auto simp: um_has_conv)
    moreover have "create_security_batch ((k, ''''), q) i (batch, misses, s) = Inr (?b, misses + 1, s\<lparr>runningKeys := r'\<rparr>)"
      using lk cp None r' ev by (simp add: create_security_batch_def fs_checkIfUniqueItemWithTimeStampExists_def Let_def)
    ultimately show ?thesis using that [of ?b "misses + 1" r'] W(2) F(5) by simp
  qed
qed
text \<open>All buckets of a GET: the request ends up waiting for exactly the keys of the query.\<close>

lemma csb_get_all:
  assumes "pinv K V e db s" and "cinv n V batch s" and "\<forall>k \<in> set ks. live s k" and "req_slot (runningKeys s) (promises s) i q"
  shows "\<exists>batch' misses' r'. foldR (\<lambda>k. create_security_batch ((k, ''''), q) i) ks (batch, misses, s) =
      Inr (batch', misses', s\<lparr>runningKeys := r'\<rparr>) \<and>
    cinv n V batch' (s\<lparr>runningKeys := r'\<rparr>) \<and> req_slot r' (promises s) i q \<and> length batch' \<le> length batch + length ks \<and>
    (\<forall>j. um_find (request_map r') j =
       (if j = i \<and> ks \<noteq> [] then Some (req_keys (runningKeys s) i @ ks, Some q) else um_find (request_map (runningKeys s)) j))"
  using assms
proof (induction ks arbitrary: batch misses s)
  case Nil
  then show ?case by (intro exI [of _ batch] exI [of _ misses] exI [of _ "runningKeys s"]) simp
next
  case (Cons k ks)
  obtain b1 m1 r1 where 1: "create_security_batch ((k, ''''), q) i (batch, misses, s) = Inr (b1, m1, s\<lparr>runningKeys := r1\<rparr>)"
    "cinv n V b1 (s\<lparr>runningKeys := r1\<rparr>)" "req_slot r1 (promises s) i q"
    "\<forall>j. um_find (request_map r1) j =
       (if j = i then Some (req_keys (runningKeys s) i @ [k], Some q) else um_find (request_map (runningKeys s)) j)"
    "length b1 \<le> length batch + 1"
    by (rule csb_get [OF Cons.prems(1,2) _ Cons.prems(4), of k]) (use Cons.prems(3) in auto)
  have "req_keys r1 i = req_keys (runningKeys s) i @ [k]" using 1(4) req_keys_find by metis
  moreover have "\<exists>batch' misses' r'. foldR (\<lambda>k. create_security_batch ((k, ''''), q) i) ks (b1, m1, s\<lparr>runningKeys := r1\<rparr>) =
      Inr (batch', misses', s\<lparr>runningKeys := r1, runningKeys := r'\<rparr>) \<and>
    cinv n V batch' (s\<lparr>runningKeys := r1, runningKeys := r'\<rparr>) \<and> req_slot r' (promises (s\<lparr>runningKeys := r1\<rparr>)) i q \<and>
    length batch' \<le> length b1 + length ks \<and>
    (\<forall>j. um_find (request_map r') j =
       (if j = i \<and> ks \<noteq> [] then Some (req_keys (runningKeys (s\<lparr>runningKeys := r1\<rparr>)) i @ ks, Some q)
        else um_find (request_map (runningKeys (s\<lparr>runningKeys := r1\<rparr>))) j))"
    by (rule Cons.IH) (use Cons.prems(1,3) 1(2,3) in auto)
  ultimately show ?case using 1(1,4,5) by (fastforce)
qed

text \<open>The index entry an unknown item leaves behind changes nothing the proxy relies on.\<close>

lemma touch_item_invs:
  assumes "b1 = b\<lparr>uniqueItemWithTimeStamp := um_touch [] item (uniqueItemWithTimeStamp b)\<rparr>"
  shows "fs_inv b \<Longrightarrow> fs_inv b1" "ts_inv b \<Longrightarrow> ts_inv b1" "accessFreqs b1 = accessFreqs b"
    "needTimeStamp b1 = needTimeStamp b" "fs_freq b1 = fs_freq b"
proof -
  show "fs_inv b \<Longrightarrow> fs_inv b1" by (simp add: assms fs_inv_def)
  show "ts_inv b \<Longrightarrow> ts_inv b1"
    by (rule ts_invI) (use ts_invD [of b] in \<open>auto simp: assms um_at_touch\<close>)
qed (simp_all add: assms fs_freq_def fun_eq_iff)

lemma pinv_touch:
  assumes "pinv K V e db s" and "b1 = (realBst s)\<lparr>uniqueItemWithTimeStamp := um_touch [] item (uniqueItemWithTimeStamp (realBst s))\<rparr>"
  shows "pinv K V e db (s\<lparr>realBst := b1\<rparr>)" "live (s\<lparr>realBst := b1\<rparr>) = live s" "cinv n V batch (s\<lparr>realBst := b1\<rparr>) = cinv n V batch s"
proof -
  note T = touch_item_invs [OF assms(2)]
  show lv: "live (s\<lparr>realBst := b1\<rparr>) = live s" by (simp add: live_def T(3) fun_eq_iff)
  show "cinv n V batch (s\<lparr>realBst := b1\<rparr>) = cinv n V batch s" by (simp add: cinv_def lv)
  show "pinv K V e db (s\<lparr>realBst := b1\<rparr>)"
    using assms(1) T(1,2) by (simp add: pinv_def lv fake_def stale_def server_def T(4,5))
qed

subsection \<open>A PUT\<close>

lemma rk_wf_set_other:
  assumes "rk_wf r ps" and "\<forall>j ks. um_find (request_map r) j \<noteq> Some (ks, Some q)"
  shows "rk_wf r (um_set q v ps)"
proof (rule rk_wfI)
  note R = rk_wfD [OF assms(1)]
  show "um_ok (request_map r)" "um_ok (get_map r)" by (rule R, rule rk_wf_ok [OF assms(1)])
  show "ks \<noteq> [] \<and> (\<exists>q'. p = Some q' \<and> \<not> um_has (um_set q v ps) q')" if h: "um_find (request_map r) i = Some (ks, p)" for i ks p
  proof -
    obtain q' where q': "p = Some q'" "\<not> um_has ps q'" "ks \<noteq> []" using R(3) [OF h] by blast
    then have "q' \<noteq> q" using assms(2) h by auto
    then show ?thesis using q' by simp
  qed
qed (use rk_wfD [OF assms(1)] in blast)+

text \<open>Removing a cached key from the cache and the index.\<close>

lemma pinv_remove_cached:
  assumes "pinv K V e db s" and "Cache_removeKey k (pcache s) = Inr (b, c)" and "fs_removeKey k (realBst s) = Inr rb" and "live s k"
    and "s' = s\<lparr>pcache := c, realBst := rb\<rparr>"
  shows "pinv K V e db s'" "\<forall>j. live s' j \<longleftrightarrow> live s j \<and> j \<noteq> k" "cache_find c = (cache_find (pcache s))(k := None)"
    "j \<noteq> k \<Longrightarrow> fs_freq (realBst s') j = fs_freq (realBst s) j"
proof -
  note D = pinvD [OF assms(1)]
  have "canon k" using assms(4) ts_invD(4) [OF D(4)] by (simp add: live_def)
  then have rb: "fs_inv rb" "ts_inv rb" "needTimeStamp rb" "accessFreqs rb = um_erase k (accessFreqs (realBst s))"
    using fs_removeKey_inv [OF D(3-5)] assms(3) by (metis Inr_inject)+
  show lv: "\<forall>j. live s' j \<longleftrightarrow> live s j \<and> j \<noteq> k" using rb(4) by (auto simp: live_def assms(5))
  show fr: "fs_freq (realBst s') j = fs_freq (realBst s) j" if "j \<noteq> k" for j
    using rb(4) that by (simp add: assms(5) fs_freq_def um_at_erase)
  show cf: "cache_find c = (cache_find (pcache s))(k := None)" using cache_find_remove [OF D(8) assms(2)] .
  have ci: "cache_inv c" using Cache_removeKey_inv(1) [OF D(8) assms(2)] .
  have other: "storage s' = storage s" "timeStamp s' = timeStamp s" "fakeBst s' = fakeBst s" "fake s' = fake s"
    "encryption_engine s' = encryption_engine s" "server s' = server s" "EvictedItems s' = EvictedItems s" "keysNotUsed s' = keysNotUsed s"
    by (simp_all add: assms(5) fake_def server_def fun_eq_iff)
  have "stale K e s' i" if "stale K e s i" for i
    using that lv fr unfolding stale_def other by metis
  then show "pinv K V e db s'"
    unfolding pinv_def other using D rb ci cf lv fr by (auto simp: assms(5) split: if_splits)
qed

text \<open>Adding a fresh bucket to the cache and the index, with the current batch number.\<close>

lemma pinv_insert:
  assumes "pinv K V e db s" and "\<not> live s k" and "canon k" and "k \<in> K" and "storable (V k)"
    and "insertIntoCache k (V k) (pcache s) = Inr c" and "fs_insert k (realBst s) = Inr rb"
    and "s' = s\<lparr>pcache := c, realBst := fs_setFrequency k (timeStamp s) rb\<rparr>"
  shows "pinv K V e db s'" "\<forall>j. live s' j \<longleftrightarrow> live s j \<or> j = k" "cache_find c = (cache_find (pcache s))(k \<mapsto> V k)"
    "fs_freq (realBst s') j = (if j = k then timeStamp s else fs_freq (realBst s) j)"
proof -
  note D = pinvD [OF assms(1)]
  have nk: "\<not> um_has (accessFreqs (realBst s)) k" using assms(2) by (simp add: live_def)
  have af: "accessFreqs rb = um_set k 0 (accessFreqs (realBst s))" "needTimeStamp rb = needTimeStamp (realBst s)"
    using assms(7) by (auto simp: fs_insert_def Let_def res_simps split: if_splits)
  have rb: "fs_inv (fs_setFrequency k (timeStamp s) rb)" "ts_inv (fs_setFrequency k (timeStamp s) rb)"
    using fs_setFrequency_inv [OF fs_insert_fresh_inv [OF D(3) nk assms(7)]]
      fs_setFrequency_ts_inv [OF fs_insert_ts_inv [OF D(4,5) assms(3,7)]] af(1) by auto
  show lv: "\<forall>j. live s' j \<longleftrightarrow> live s j \<or> j = k" by (auto simp: live_def assms(8) af(1))
  show fr: "fs_freq (realBst s') j = (if j = k then timeStamp s else fs_freq (realBst s) j)" for j
    by (simp add: assms(8)) (simp add: fs_freq_def af(1) um_at_set)
  show cf: "cache_find c = (cache_find (pcache s))(k \<mapsto> V k)" using cache_find_insert [OF D(8) assms(6)] .
  have ci: "cache_inv c" using insertIntoCache_inv [OF D(8) assms(6)] .
  have other: "storage s' = storage s" "timeStamp s' = timeStamp s" "fakeBst s' = fakeBst s" "fake s' = fake s"
    "encryption_engine s' = encryption_engine s" "server s' = server s" "EvictedItems s' = EvictedItems s" "keysNotUsed s' = keysNotUsed s"
    "pcache s' = c" "realBst s' = fs_setFrequency k (timeStamp s) rb"
    by (simp_all add: assms(8) fake_def server_def fun_eq_iff)
  have st: "stale K e s' i" if h: "stale K e s i" for i
  proof -
    obtain k' f where k': "k' \<in> K" "0 \<le> f" "f < timeStamp s" "i = loc e (encryption_engine s) k' f"
      "live s k' \<longrightarrow> f < fs_freq (realBst s) k'" "fake s k' \<longrightarrow> f < fs_freq (fakeBst s) k'"
      using h unfolding stale_def by blast
    then show ?thesis
      unfolding stale_def other(2-5) using lv fr [of k'] by (intro bexI [of _ k'] exI [of _ f]) auto
  qed
  have lk: "\<forall>j. live s' j \<longrightarrow> j \<in> K \<and> storable (V j) \<and> 0 \<le> fs_freq (realBst s') j \<and> fs_freq (realBst s') j \<le> timeStamp s"
    using D(2,10) lv fr assms(4,5) by auto
  have sto: "\<forall>j. live s' j \<longrightarrow> cache_find c j = None \<longrightarrow>
     stored e (encryption_engine s) (db (server s)) j (fs_freq (realBst s') j) (V j)"
    using D(11) lv fr cf by auto
  have cv: "\<forall>j v. cache_find c j = Some v \<longrightarrow> live s' j \<and> v = V j" using D(9) lv cf by auto
  show "pinv K V e db s'"
    unfolding pinv_def other(1-9) using D(1,2,6,7,12-15) st lk sto cv rb ci af(2) D(5) by (simp add: other(10))
qed

text \<open>
  The oldest bucket of the item makes room: a cached one goes at once; any other joins the batch (unless it
  is in flight already) and is deleted when it has been read.
\<close>

lemma remove_oldest_ok:
  assumes "pinv K V e db s" and "cinv 1 V batch s" and "canon (ts_key i t)" and "live s (ts_key i t')"
  obtains old batch' s' where "remove_oldest_data (ts_key i t) (batch, s) = Inr (batch', s')"
    "pinv K V e db s'" "cinv 0 V batch' s'" "promises s' = promises s" "timeStamp s' = timeStamp s"
    "request_map (runningKeys s') = request_map (runningKeys s)" "encryption_engine s' = encryption_engine s"
    "\<exists>t0. old = ts_key i t0 \<and> live s old \<and> (\<forall>u. live s (ts_key i u) \<longrightarrow> t0 \<le> u)"
    "if cache_find (pcache s) old \<noteq> None
     then (\<forall>j. live s' j \<longleftrightarrow> live s j \<and> j \<noteq> old) \<and> keys_to_be_deleted s' = keys_to_be_deleted s \<and>
       Suc (length (lru (pcache s'))) = length (lru (pcache s))
     else (\<forall>j. live s' j \<longleftrightarrow> live s j) \<and> keys_to_be_deleted s' = keys_to_be_deleted s @ [old] \<and>
       length (lru (pcache s')) = length (lru (pcache s))"
    "length batch' \<le> length batch + 1" "fakeBst s' = fakeBst s"
    "\<forall>j. live s' j \<longrightarrow> fs_freq (realBst s') j = fs_freq (realBst s) j"
    "\<forall>j. cache_find (pcache s') j \<noteq> None \<longrightarrow> cache_find (pcache s) j \<noteq> None"
    "lru (pcache s') = filter (\<lambda>p. fst p \<noteq> old) (lru (pcache s))"
proof -
  note D = pinvD [OF assms(1)] and C = cinvD [OF assms(2)]
  obtain old where old: "fs_getOldestKey (keys_to_be_deleted s) (ts_key i t) (realBst s) = Inr (old, realBst s)"
    using fs_getOldestKey_defined [OF D(4) assms(3)] assms(4) unfolding live_def by blast
  have spec: "\<exists>t0. old = ts_key i t0 \<and> live s old \<and> (\<forall>u. live s (ts_key i u) \<longrightarrow> t0 \<le> u)"
    using fs_getOldestKey_spec [OF D(4) assms(3) old] unfolding live_def by (metis ts_key_inj)
  then have lo: "live s old" by blast
  have ev: "ev_getValue (EvictedItems s) old = ''''" using D(14) by (simp add: ev_getValue_def)
  note cp = getValueWithoutPositionChangeNew_eq [OF D(8), of old]
  show ?thesis
  proof (cases "cache_find (pcache s) old")
    case None
    obtain p r where r: "insertIfNotPresent old (runningKeys s) = (p, r)" by fastforce
    note F = insertIfNotPresent_facts [OF r]
    let ?b = "if p then batch else batch @ [(old, '''')]"
    let ?s' = "s\<lparr>runningKeys := r, keys_to_be_deleted := keys_to_be_deleted s @ [old]\<rparr>"
    have run: "remove_oldest_data (ts_key i t) (batch, s) = Inr (?b, ?s')"
      using old cp None ev r by (simp add: remove_oldest_data_def)
    have p: "p \<longleftrightarrow> old \<in> set (map fst batch)" using F(1) C(4) by simp
    then have keys: "set (map fst ?b) = insert old (set (map fst batch))" and dst: "distinct (map fst ?b)" using C(1) by auto
    have wf: "rk_wf r (promises s)" using C(7) F(2) by (simp add: rk_wf_def same_requests_def)
    have cd: "card (set (keys_to_be_deleted s @ [old])) \<le> length (lru (pcache s))"
      using C(6) card_insert_le_m1 [of "card (set (keys_to_be_deleted s)) + 1" "set (keys_to_be_deleted s)" old] by simp
    have "cinv 0 V ?b ?s'"
      unfolding cinv_def keys using dst C(2-5,8-10) F(2,3) wf cd None lo by (auto simp: same_requests_def um_has_conv)
    moreover have "pinv K V e db ?s'" using assms(1) by (simp add: pinv_def live_def fake_def stale_def server_def)
    moreover have "filter (\<lambda>p. fst p \<noteq> old) (lru (pcache s)) = lru (pcache s)"
      by (rule filter_neq_notin) (use None in \<open>simp add: cache_find_def map_of_eq_None_iff\<close>)
    ultimately show ?thesis
      using that [OF run _ _ _ _ _ _ spec] None F(2) by (simp add: same_requests_def live_def)
  next
    case (Some v)
    obtain b c where c: "Cache_removeKey old (pcache s) = Inr (b, c)" using Cache_removeKey_eq [OF D(8)] by blast
    have "canon old" using lo ts_invD(4) [OF D(4)] by (simp add: live_def)
    then obtain rb where rb: "fs_removeKey old (realBst s) = Inr rb" using fs_removeKey_inv [OF D(3-5)] by blast
    let ?s' = "s\<lparr>pcache := c, realBst := rb\<rparr>"
    note P = pinv_remove_cached [OF assms(1) c rb lo refl]
    have run: "remove_oldest_data (ts_key i t) (batch, s) = Inr (batch, ?s')"
      using old cp Some ev c rb by (simp add: remove_oldest_data_def)
    have len: "Suc (length (lru c)) = length (lru (pcache s))" using length_lru_remove [OF D(8) c] Some by simp
    have no: "old \<notin> set (map fst batch)" using C(3) [of old] Some by auto
    have gc: "cache_find c k \<noteq> None \<or> \<not> live ?s' k" if "um_find (get_cache (runningKeys s)) k = Some v" for k v
      using C(11) [OF that] P(2,3) by auto
    have "cinv 0 V batch ?s'"
      unfolding cinv_def using C(1-9) P(2,3) len no gc by auto
    then show ?thesis using that [OF run P(1) _ _ _ _ _ spec] Some P(2-4) len Cache_removeKey_inv(2) [OF D(8) c] by (simp split: if_splits)
  qed
qed

text \<open>
  A PUT of a fresh bucket: it is acknowledged with its own value, the bucket is in the cache and live, and
  the oldest bucket of the item is gone or on its way out.
\<close>

lemma csb_put:
  assumes "pinv K V e db s" and "cinv 1 V batch s" and "k = ts_key i t" and "canon k" and "\<not> live s k" and "k \<in> K"
    and "storable (V k)" and "V k \<noteq> ''''" and "live s (ts_key i t')"
    and "\<not> um_has (promises s) q" and "\<forall>j ks. um_find (request_map (runningKeys s)) j \<noteq> Some (ks, Some q)"
  obtains old batch' s' where "create_security_batch ((k, V k), q) rid (batch, misses, s) = Inr (batch', misses, s')"
    "pinv K V e db s'" "cinv 1 V batch' s'" "promises s' = um_set q (V k) (promises s)" "timeStamp s' = timeStamp s"
    "request_map (runningKeys s') = request_map (runningKeys s)" "encryption_engine s' = encryption_engine s"
    "\<exists>t0. old = ts_key i t0 \<and> live s old \<and> (\<forall>u. live s (ts_key i u) \<longrightarrow> t0 \<le> u)"
    "if cache_find (pcache s) old \<noteq> None
     then (\<forall>j. live s' j \<longleftrightarrow> j = k \<or> live s j \<and> j \<noteq> old) \<and> keys_to_be_deleted s' = keys_to_be_deleted s \<and>
       length (lru (pcache s')) = length (lru (pcache s))
     else (\<forall>j. live s' j \<longleftrightarrow> j = k \<or> live s j) \<and> keys_to_be_deleted s' = keys_to_be_deleted s @ [old] \<and>
       length (lru (pcache s')) = Suc (length (lru (pcache s)))"
    "length batch' \<le> length batch + 1" "fakeBst s' = fakeBst s" "cache_find (pcache s') k = Some (V k)"
    "aged s s'" "lru (pcache s') = (k, V k) # filter (\<lambda>p. fst p \<noteq> old) (lru (pcache s))"
proof -
  have cn: "canon (ts_key i t)" using assms(3,4) by simp
  obtain old batch' s1 where r: "remove_oldest_data (ts_key i t) (batch, s) = Inr (batch', s1)"
    and p1: "pinv K V e db s1" and c1: "cinv 0 V batch' s1"
    and eq: "promises s1 = promises s" "timeStamp s1 = timeStamp s"
    "request_map (runningKeys s1) = request_map (runningKeys s)" "encryption_engine s1 = encryption_engine s"
    and spec: "\<exists>t0. old = ts_key i t0 \<and> live s old \<and> (\<forall>u. live s (ts_key i u) \<longrightarrow> t0 \<le> u)"
    and lv1: "if cache_find (pcache s) old \<noteq> None
     then (\<forall>j. live s1 j \<longleftrightarrow> live s j \<and> j \<noteq> old) \<and> keys_to_be_deleted s1 = keys_to_be_deleted s \<and>
       Suc (length (lru (pcache s1))) = length (lru (pcache s))
     else (\<forall>j. live s1 j \<longleftrightarrow> live s j) \<and> keys_to_be_deleted s1 = keys_to_be_deleted s @ [old] \<and>
       length (lru (pcache s1)) = length (lru (pcache s))"
    and len: "length batch' \<le> length batch + 1" and fk: "fakeBst s1 = fakeBst s"
    and fr1: "\<forall>j. live s1 j \<longrightarrow> fs_freq (realBst s1) j = fs_freq (realBst s) j"
    and ca1: "\<forall>j. cache_find (pcache s1) j \<noteq> None \<longrightarrow> cache_find (pcache s) j \<noteq> None"
    and lr1: "lru (pcache s1) = filter (\<lambda>p. fst p \<noteq> old) (lru (pcache s))"
    by (rule remove_oldest_ok [OF assms(1,2) cn assms(9)])
  note D = pinvD [OF p1] and C = cinvD [OF c1]
  have nl: "\<not> live s1 k" using lv1 assms(5) by (auto split: if_splits)
  obtain c where c: "insertIntoCache k (V k) (pcache s1) = Inr c" using insertIntoCache_eq [OF D(8)] by blast
  obtain rb where rb: "fs_insert k (realBst s1) = Inr rb"
    using fs_insert_canon [OF D(5)] assms(3,4) by (metis canon_ts_key)
  let ?s2 = "s1\<lparr>pcache := c, realBst := fs_setFrequency k (timeStamp s1) rb\<rparr>"
  note P = pinv_insert [OF p1 nl assms(4,6,7) c rb refl]
  have ca: "cache_inv c" using insertIntoCache_inv [OF D(8) c] .
  have nc: "cache_find (pcache s1) k = None" using D(9) nl by (cases "cache_find (pcache s1) k") auto
  have nb: "k \<notin> set (map fst batch')" using C(2) nl by blast
  let ?ps = "um_set q (V k) (promises s1)"
  let ?s' = "?s2\<lparr>promises := ?ps\<rparr>"
  have sv: "set_value q (V k) (promises s1) = Inr ?ps" using assms(10) eq(1) by (simp add: set_value_def)
  have run: "create_security_batch ((k, V k), q) rid (batch, misses, s) = Inr (batch', misses, ?s')"
    using r c rb sv assms(3,8) getValueWithoutPositionChange_eq [OF ca, of k] P(3)
    by (simp add: create_security_batch_def Let_def)
  have wf: "rk_wf (runningKeys s1) ?ps"
    by (rule rk_wf_set_other [OF C(7)]) (use assms(11) eq(3) in simp)
  have gc: "cache_find c j \<noteq> None \<or> \<not> live ?s2 j" if "um_find (get_cache (runningKeys s1)) j = Some v" for j v
    using C(11) [OF that] P(2,3) by auto
  have ln: "length (lru c) = Suc (length (lru (pcache s1)))" using length_lru_insert_fresh [OF D(8) c nc] .
  have cf: "cache_find c j = None" if "j \<in> set (map fst batch')" for j
    using C(3) [OF that] P(3) that nb by (auto split: if_splits)
  have lb: "live ?s2 j" if "j \<in> set (map fst batch')" for j using C(2) [OF that] P(2) by blast
  have ci: "cinv 1 V batch' ?s'"
    unfolding cinv_def live_frame(2) using C(1,4-6,8,9) wf gc ln cf lb by simp
  have lv': "if cache_find (pcache s) old \<noteq> None
     then (\<forall>j. live ?s' j \<longleftrightarrow> j = k \<or> live s j \<and> j \<noteq> old) \<and> keys_to_be_deleted ?s' = keys_to_be_deleted s \<and>
       length (lru (pcache ?s')) = length (lru (pcache s))
     else (\<forall>j. live ?s' j \<longleftrightarrow> j = k \<or> live s j) \<and> keys_to_be_deleted ?s' = keys_to_be_deleted s @ [old] \<and>
       length (lru (pcache ?s')) = Suc (length (lru (pcache s)))"
    using lv1 P(2) ln unfolding live_frame(2) by (cases "cache_find (pcache s) old") auto
  have "aged s ?s'"
    unfolding aged_def live_frame(2)
    using lv1 P(2,3) P(4) fr1 ca1 eq fk assms(5) by (auto simp: fake_def split: if_splits)
  moreover have "lru c = (k, V k) # lru (pcache s1)"
  proof -
    have "filter (\<lambda>p. fst p \<noteq> k) (lru (pcache s1)) = lru (pcache s1)"
      by (rule filter_neq_notin) (use nc in \<open>simp add: cache_find_def map_of_eq_None_iff\<close>)
    then show ?thesis using insertIntoCache_lru [OF D(8) c] by simp
  qed
  ultimately show ?thesis
    using that [OF run _ ci _ _ _ _ spec lv'] P(1,3) eq len fk lr1 by simp
qed

end
