(* ===== verification/Proxy_System.thy ===== *)
theory Proxy_System
  imports Proxy_Compose
begin

text \<open>
  The proxy as a state machine: the consumer thread takes an operation from its queue, or runs a full
  batch; the cleaner deletes a vector of superseded locations.  The invariant \<open>sys_inv\<close> holds in every
  reachable state, every step is defined, and each step refines the corresponding step of a plain map.
\<close>

subsection \<open>A round of the consumer\<close>

text \<open>The sizes a round needs: room for the batch, and enough keys to fill it.\<close>

definition sized :: "nat \<Rightarrow> config \<Rightarrow> nat \<Rightarrow> 'srv proxy \<Rightarrow> bool" where
  "sized fuel cfg n s \<longleftrightarrow> 0 \<le> cfg_F cfg \<and> int n + cfg_F cfg \<le> cfg_B cfg \<and> fits32 (cfg_B cfg) \<and>
     cfg_B cfg - cfg_F cfg \<le> int (card {k. live s k \<and> cache_find (pcache s) k = None}) \<and>
     cfg_F cfg \<le> int (fs_size (fakeBst s)) \<and> nat (cfg_F cfg) \<le> fuel \<and> fits32 (timeStamp s + 1) \<and> object_size cfg \<le> 4070"

lemma fake_frame [simp]: "fake (s\<lparr>runningKeys := r\<rparr>) = fake s" "fake (s\<lparr>promises := p\<rparr>) = fake s"
  by (simp_all add: fake_def fun_eq_iff)

text \<open>
  What the cache alone can answer is answered first; the requests that remain wait for keys of the batch.
\<close>

lemma clear_all_ready:
  assumes "cinv 1 V batch s" and "answerable F V (request_map (runningKeys s))" and "\<forall>ids. mset (ord ids) = mset ids"
  shows "\<exists>r ps. tryClearAllPromises ord F (runningKeys s, promises s) = Inr (r, ps) \<and>
    awaiting F V (request_map (runningKeys s)) (promises s) r ps \<and> (\<forall>k. rk_present r k \<longleftrightarrow> k \<in> set (map fst batch))"
proof -
  note C = cinvD [OF assms(1)]
  let ?r = "runningKeys s"
  have gc: "\<forall>k v. um_find (get_cache ?r) k = Some v \<longrightarrow> v = V k" using C(9) by blast
  obtain r ps where t: "tryClearAllPromises ord F (?r, promises s) = Inr (r, ps)"
    "clear_inv F V (request_map ?r) (promises s) [] r ps" "m_map r = m_map ?r" "request_map r = [] \<longrightarrow> idle r"
    "get_map r = get_map ?r \<and> get_cache r = get_cache ?r \<or> idle r"
    "\<forall>i. um_has (request_map ?r) i \<longrightarrow> waits ?r i \<longrightarrow> um_has (request_map r) i"
    using tryClearAllPromises_ok [OF C(7) gc assms(2,3)] by blast
  have disj: "\<not> um_has (get_cache ?r) k" if "um_has (get_map ?r) k" for k
  proof -
    have "k \<in> set (map fst batch)" using C(4) [of k] that by (auto simp: rk_present_def)
    then show ?thesis using C(2,3,10) by blast
  qed
  have gm: "get_map r = get_map ?r"
  proof (cases "idle r")
    case True
    have "\<not> um_has (get_map ?r) k" for k
    proof
      assume k: "um_has (get_map ?r) k"
      then obtain ids where ids: "um_find (get_map ?r) k = Some ids" "ids \<noteq> []" using C(8) by (metis um_has_conv)
      then obtain i where i: "i \<in> set (um_at [] (get_map ?r) k)" by (metis list.set_sel(1) um_at_conv)
      obtain ks p where req: "um_find (request_map ?r) i = Some (ks, p)" "k \<in> set ks"
        using rk_wfD(6) [OF C(7) i disj [OF k]] by blast
      then have "waits ?r i" using disj [OF k] waits_iff [OF req(1)] by blast
      then have "um_has (request_map r) i" using t(6) req(1) by (simp add: um_has_def)
      then show False using True by (simp add: idle_def)
    qed
    then have "get_map ?r = []" by (simp add: um_empty_iff um_has_def)
    then show ?thesis using True by (simp add: idle_def)
  qed (use t(5) in blast)
  have "\<forall>k. um_has (get_map r) k \<longrightarrow> \<not> um_has (get_cache r) k"
    using t(5) disj gm by (auto simp: idle_def)
  then have "awaiting F V (request_map ?r) (promises s) r ps" using t(2,4) assms(2) by (simp add: awaiting_def)
  moreover have "\<forall>k. rk_present r k \<longleftrightarrow> k \<in> set (map fst batch)" using C(4) t(3) gm by (simp add: rk_present_def)
  ultimately show ?thesis using t(1) by blast
qed

lemma rk_wf_empty [simp]: "rk_wf running_empty ps"
  by (simp add: rk_wf_def running_empty_def um_at_def)

lemma aged_frame [simp]: "aged (s\<lparr>runningKeys := r\<rparr>) s' = aged s s'" "aged (s\<lparr>promises := p\<rparr>) s' = aged s s'"
  by (simp_all add: aged_def)

lemma batch_post_frame:
  "batch_post K V cfg e db (s\<lparr>runningKeys := r, promises := p\<rparr>) sk w s' = batch_post K V cfg e db s sk w s'"
  by (simp add: batch_post_def server_def)

lemma picks_frame:
  "picks cfg e ops (s\<lparr>runningKeys := r, promises := p\<rparr>) rs fk sk s' = picks cfg e ops s rs fk sk s'"
  by (simp add: picks_def live_def fake_def)

text \<open>After that, everything a batch needs is there.\<close>

lemma round_ready:
  assumes "env_ok e (encryption_engine s) db K T" and "pinv K V e db s" and "cinv 1 V batch s" and "sized fuel cfg (length batch) s"
    and "timeStamp s < T" and "answerable (e_float e) V (request_map (runningKeys s))"
  obtains r ps where "tryClearAllPromises (e_req_order e) (e_float e) (runningKeys s, promises s) = Inr (r, ps)"
    "awaiting (e_float e) V (request_map (runningKeys s)) (promises s) r ps"
    "batch_pre fuel cfg (map fst batch) (s\<lparr>runningKeys := r, promises := ps\<rparr>)"
proof -
  note C = cinvD [OF assms(3)] and D = pinvD [OF assms(2)]
  obtain r ps where t: "tryClearAllPromises (e_req_order e) (e_float e) (runningKeys s, promises s) = Inr (r, ps)"
    "awaiting (e_float e) V (request_map (runningKeys s)) (promises s) r ps" "\<forall>k. rk_present r k \<longleftrightarrow> k \<in> set (map fst batch)"
    using clear_all_ready [OF assms(3,6)] env_okD(4) [OF assms(1)] by blast
  let ?s = "s\<lparr>runningKeys := r, promises := ps\<rparr>"
  have lf: "live ?s = live s" "fake ?s = fake s" by (simp_all add: live_def fake_def fun_eq_iff)
  have bp: "batch_pre fuel cfg (map fst batch) ?s"
    unfolding batch_pre_def lf
    using assms(4) D(3,6,12,14) not_live_fake [OF assms(2)] C(1-3) t(3) Cache_checkIfKeyExists_iff [OF D(8)]
    by (auto simp: sized_def)
  then show ?thesis using that [OF t(1,2)] by blast
qed

lemma consumer_round_ok:
  assumes "env_ok e (encryption_engine s) db K T" and "pinv K V e db s" and "cinv 1 V batch s" and "sized fuel cfg (length batch) s"
    and "timeStamp s < T" and "answerable (e_float e) V (request_map (runningKeys s))"
  shows "\<exists>sk w s'. consumer_round fuel cfg e batch s = Inr (sk, w, s') \<and> batch_post K V cfg e db s sk w s' \<and>
    answered (e_float e) V (request_map (runningKeys s)) (promises s) (promises s') \<and> cinv 1 V [] s' \<and>
    (\<exists>rs fk. picks cfg e (map fst batch) s rs fk sk s')"
proof -
  note C = cinvD [OF assms(3)] and D = pinvD [OF assms(2)]
  obtain r ps where t: "tryClearAllPromises (e_req_order e) (e_float e) (runningKeys s, promises s) = Inr (r, ps)"
    "awaiting (e_float e) V (request_map (runningKeys s)) (promises s) r ps"
    and bp: "batch_pre fuel cfg (map fst batch) (s\<lparr>runningKeys := r, promises := ps\<rparr>)"
    by (rule round_ready [OF assms])
  let ?s = "s\<lparr>runningKeys := r, promises := ps\<rparr>"
  have lf: "live ?s = live s" "fake ?s = fake s" by (simp_all add: live_def fake_def fun_eq_iff)
  have pi: "pinv K V e db ?s" using assms(2) by simp
  have env: "env_ok e (encryption_engine ?s) db K T" using assms(1) by simp
  have "\<exists>sk w s'. execute_batch fuel cfg e batch ?s = Inr (sk, w, s') \<and> batch_post K V cfg e db ?s sk w s' \<and>
    answered (e_float e) V (request_map (runningKeys s)) (promises s) (promises s') \<and>
    (\<exists>rs fk. picks cfg e (map fst batch) ?s rs fk sk s')"
    by (rule execute_batch_ok [OF env pi bp]) (use assms(4,5) t(2) C(5,6) in \<open>auto simp: sized_def\<close>)
  then obtain sk w s' where x: "execute_batch fuel cfg e batch ?s = Inr (sk, w, s')" "batch_post K V cfg e db ?s sk w s'"
    "answered (e_float e) V (request_map (runningKeys s)) (promises s) (promises s')"
    "\<exists>rs fk. picks cfg e (map fst batch) s rs fk sk s'" unfolding picks_frame by blast
  have post: "batch_post K V cfg e db s sk w s'"
    using x(2) by (simp only: batch_post_frame)
  have "cinv 1 V [] s'"
  proof -
    have p: "runningKeys s' = running_empty" "keys_to_be_deleted s' = []"
      "length (lru (pcache s')) + card (set (keys_to_be_deleted s)) = length (lru (pcache s))"
      using post by (auto simp: batch_post_def)
    then have "rk_wf (runningKeys s') (promises s')" by simp
    then show ?thesis unfolding cinv_def using p C(6) by (simp add: rk_present_def running_empty_def)
  qed
  then show ?thesis using x(1,3,4) post t(1) by (simp add: consumer_round_def)
qed
subsection \<open>A round of the cleaner\<close>

text \<open>No location of a live or fake key is stale.\<close>

lemma stale_not_current:
  assumes "env_ok e (encryption_engine s) db K T" and "pinv K V e db s" and "timeStamp s \<le> T" and "stale K e s i"
  shows "live s k \<Longrightarrow> i \<noteq> loc e (encryption_engine s) k (fs_freq (realBst s) k)"
    and "fake s k \<Longrightarrow> i \<noteq> loc e (encryption_engine s) k (fs_freq (fakeBst s) k)"
proof -
  obtain k' f where k': "k' \<in> K" "0 \<le> f" "f < timeStamp s" "i = loc e (encryption_engine s) k' f"
    "live s k' \<longrightarrow> f < fs_freq (realBst s) k'" "fake s k' \<longrightarrow> f < fs_freq (fakeBst s) k'"
    using assms(4) unfolding stale_def by blast
  show "i \<noteq> loc e (encryption_engine s) k (fs_freq (realBst s) k)" if "live s k"
    using k' that pinvD(10) [OF assms(2) that] assms(3) loc_inj [OF assms(1)] by auto
  show "i \<noteq> loc e (encryption_engine s) k (fs_freq (fakeBst s) k)" if "fake s k"
    using k' that pinvD(12) [OF assms(2) that] assms(3) loc_inj [OF assms(1)] by auto
qed

lemma clear_round_ok:
  assumes "env_ok e (encryption_engine s) db K T" and "pinv K V e db s" and "timeStamp s \<le> T" and "keysNotUsed s = ids # rest"
  shows "\<exists>srv. clear_round e s = Inr (s\<lparr>storage := [srv], keysNotUsed := rest\<rparr>) \<and>
    db srv = db (server s) |` (- set ids) \<and> pinv K V e db (s\<lparr>storage := [srv], keysNotUsed := rest\<rparr>)"
proof -
  note D = pinvD [OF assms(2)]
  obtain srv where srv: "clear_round e s = Inr (s\<lparr>storage := [srv], keysNotUsed := rest\<rparr>)" "db srv = db (server s) |` (- set ids)"
  proof (cases "ids = []")
    case True
    have "s\<lparr>storage := [server s], keysNotUsed := rest\<rparr> = s\<lparr>keysNotUsed := rest\<rparr>" using D(1) by (simp flip: D(1))
    then show ?thesis using that [of "server s"] True assms(4) by (simp add: clear_round_def restrict_map_def)
  next
    case False
    then show ?thesis
      using that redis_delete_batch_single [OF env_okD(2) [OF assms(1)], of ids "server s"] assms(4) D(1)
      by (auto simp: clear_round_def)
  qed
  let ?s' = "s\<lparr>storage := [srv], keysNotUsed := rest\<rparr>" and ?g = "encryption_engine s"
  have keep: "stored e ?g (db srv) k f v" if "stored e ?g (db (server s)) k f v" "loc e ?g k f \<notin> set ids" for k f v
    using that srv(2) by (simp add: stored_def)
  have st: "stale K e s i" if "i \<in> set ids" for i using D(15) [of ids i] assms(4) that by simp
  have st': "stale K e s i" if "ids' \<in> set rest" "i \<in> set ids'" for ids' i using D(15) [of ids' i] assms(4) that by simp
  have lr: "stored e ?g (db srv) k (fs_freq (realBst s) k) (V k)" if "live s k" "cache_find (pcache s) k = None" for k
    using keep [OF D(11) [OF that]] st stale_not_current(1) [OF assms(1-3) _ that(1)] by blast
  have lf: "\<exists>v. stored e ?g (db srv) k (fs_freq (fakeBst s) k) v" if "fake s k" for k
    using keep D(13) [OF that] st stale_not_current(2) [OF assms(1-3) _ that] by blast
  have fr: "live ?s' = live s" "fake ?s' = fake s" "stale K e ?s' = stale K e s" "server ?s' = srv"
    by (simp_all add: live_def fake_def stale_def server_def fun_eq_iff)
  have "pinv K V e db ?s'"
    unfolding pinv_def fr using D(2-10,12,14) assms(4) lr lf st' by auto
  then show ?thesis using srv by blast
qed

subsection \<open>Operations the clients submit\<close>

text \<open>
  A GET asks for a range of a well-formed item, with a promise of its own; a PUT adds a fresh bucket to an
  item that has one, with the value the store is to have under that key.
\<close>

definition fresh_promise :: "'srv proxy \<Rightarrow> nat \<Rightarrow> bool" where
  "fresh_promise s q \<longleftrightarrow> \<not> um_has (promises s) q \<and> (\<forall>j ks. um_find (request_map (runningKeys s)) j \<noteq> Some (ks, Some q))"

definition get_ok :: "'srv proxy \<Rightarrow> nat \<Rightarrow> string \<Rightarrow> int \<Rightarrow> int \<Rightarrow> nat \<Rightarrow> bool" where
  "get_ok s m item start stop q \<longleftrightarrow> wf_item item \<and> fits64 start \<and> fits64 stop \<and> fresh_promise s q \<and>
     card (Collect (in_range {t. live s (ts_key item t)} start stop)) \<le> m"

definition put_ok :: "string set \<Rightarrow> (string \<Rightarrow> string) \<Rightarrow> 'srv proxy \<Rightarrow> string \<Rightarrow> int \<Rightarrow> nat \<Rightarrow> bool" where
  "put_ok K V s item t q \<longleftrightarrow> canon (ts_key item t) \<and> \<not> live s (ts_key item t) \<and> ts_key item t \<in> K \<and>
     storable (V (ts_key item t)) \<and> V (ts_key item t) \<noteq> '''' \<and> (\<exists>t'. live s (ts_key item t')) \<and> fresh_promise s q"

text \<open>The consumer's loop state: operations counted, next request number, batch, cache misses, proxy.\<close>

type_synonym 'srv loop = "int \<times> int \<times> operation list \<times> int \<times> 'srv proxy"

definition sys_inv ::
  "string set \<Rightarrow> (string \<Rightarrow> string) \<Rightarrow> ('srv, 'ctx) env \<Rightarrow> ('srv \<Rightarrow> string \<Rightarrow> string option) \<Rightarrow> int \<Rightarrow> nat \<Rightarrow> config \<Rightarrow> nat \<Rightarrow> engine \<Rightarrow> nat \<Rightarrow>
   'srv loop \<Rightarrow> bool" where
  "sys_inv K V e db T m cfg U g nf st =
     (case st of (i, rid, batch, misses, s) \<Rightarrow>
        pinv K V e db s \<and> cinv 1 V batch s \<and> encryption_engine s = g \<and> timeStamp s \<le> T \<and>
        card (Collect (live s)) = U + length (lru (pcache s)) \<and> fs_size (fakeBst s) = nf \<and>
        int (length batch) \<le> i \<and> i < cfg_R cfg + int m \<and> (\<forall>j. um_has (request_map (runningKeys s)) j \<longrightarrow> j < rid))"

text \<open>How many keys are outside the cache.\<close>

lemma uncached_card:
  assumes "pinv K V e db s"
  shows "card {k. live s k \<and> cache_find (pcache s) k = None} + length (lru (pcache s)) = card (Collect (live s))"
proof -
  note D = pinvD [OF assms]
  let ?C = "fst ` set (lru (pcache s))"
  have c: "k \<in> ?C \<longleftrightarrow> cache_find (pcache s) k \<noteq> None" for k by (simp add: cache_find_def map_of_eq_None_iff)
  have "?C \<subseteq> Collect (live s)" using D(9) c by blast
  moreover have "finite (Collect (live s))" using finite_live [of s "\<lambda>_. True"] by simp
  moreover have "{k. live s k \<and> cache_find (pcache s) k = None} = Collect (live s) - ?C" using c by blast
  moreover have "card ?C = length (lru (pcache s))"
    using distinct_card [OF cache_invD(3) [OF D(8)]] by simp
  ultimately show ?thesis
    using card_Diff_subset [of ?C "Collect (live s)"] card_mono [of "Collect (live s)" ?C] by simp
qed

subsection \<open>One operation taken from the queue\<close>

text \<open>The keys a GET selects in a state.\<close>

lemma serve_get_count:
  assumes "sys_inv K V e db T m cfg U g nf (i, rid, batch, misses, s)" and "i < cfg_R cfg" and "get_ok s m item start stop q"
    and "fits32 (rid + 1)" and "fits32 i" and "fits32 (cfg_R cfg + int m)"
  obtains tsl i' batch' misses' s' where
    "fill_batch (cfg_R cfg) [((query item start stop, ''''), q)] i rid (batch, misses, s) = Inr ([], i', rid + 1, batch', misses', s')"
    "sys_inv K V e db T m cfg U g nf (i', rid + 1, batch', misses', s')"
    "set tsl = Collect (in_range {t. live s (ts_key item t)} start stop)" "sorted tsl" "distinct tsl"
    "\<forall>j. um_find (request_map (runningKeys s')) j = (if j = rid \<and> tsl \<noteq> [] then Some (map (ts_key item) tsl, Some q)
       else um_find (request_map (runningKeys s)) j)"
    "live s' = live s" "promises s' = promises s" "keys_to_be_deleted s' = keys_to_be_deleted s" "aged s s'"
    "i' = i + int (length tsl)" "timeStamp s' = timeStamp s" "pcache s' = pcache s"
proof -
  have I: "pinv K V e db s" "cinv 1 V batch s" "encryption_engine s = g" "timeStamp s \<le> T"
    "card (Collect (live s)) = U + length (lru (pcache s))" "fs_size (fakeBst s) = nf" "int (length batch) \<le> i"
    "\<forall>j. um_has (request_map (runningKeys s)) j \<longrightarrow> j < rid"
    using assms(1) by (auto simp: sys_inv_def)
  have G: "wf_item item" "fits64 start" "fits64 stop" "fresh_promise s q"
    "card (Collect (in_range {t. live s (ts_key item t)} start stop)) \<le> m" using assms(3) by (auto simp: get_ok_def)
  obtain tsl b1 where t: "get_split_keys (query item start stop) (realBst s) = Inr (map (ts_key item) tsl, b1)"
    "set tsl = Collect (in_range {t. live s (ts_key item t)} start stop)" "sorted tsl" "distinct tsl"
    "b1 = (realBst s)\<lparr>uniqueItemWithTimeStamp := um_touch [] item (uniqueItemWithTimeStamp (realBst s))\<rparr>"
    using get_split_keys_query [OF pinvD(4) [OF I(1)] G(1-3)] unfolding live_def by blast
  let ?s1 = "s\<lparr>realBst := b1\<rparr>"
  note P = pinv_touch [OF I(1) t(5)]
  have lv: "\<forall>k \<in> set (map (ts_key item) tsl). live ?s1 k" unfolding P(2) using t(2) by (auto simp: in_range_def)
  have nr: "um_find (request_map (runningKeys s)) rid = None"
    using I(8) by (cases "um_find (request_map (runningKeys s)) rid") (auto simp: um_has_def)
  then have slot: "req_slot (runningKeys ?s1) (promises ?s1) rid q" "req_keys (runningKeys ?s1) rid = []"
    using G(4) by (auto simp: req_slot_def fresh_promise_def req_keys_def um_at_def)
  obtain batch' misses' r' where f: "foldR (\<lambda>k. create_security_batch ((k, ''''), q) rid) (map (ts_key item) tsl) (batch, misses, ?s1) =
      Inr (batch', misses', ?s1\<lparr>runningKeys := r'\<rparr>)"
    "cinv 1 V batch' (?s1\<lparr>runningKeys := r'\<rparr>)" "length batch' \<le> length batch + length (map (ts_key item) tsl)"
    "\<forall>j. um_find (request_map r') j = (if j = rid \<and> map (ts_key item) tsl \<noteq> []
       then Some (req_keys (runningKeys ?s1) rid @ map (ts_key item) tsl, Some q) else um_find (request_map (runningKeys ?s1)) j)"
    using csb_get_all [OF P(1) _ lv slot(1), of 1 batch misses] I(2) P(3) by blast
  have len: "length tsl \<le> m" using G(5) t(2,4) distinct_card by metis
  have add: "add32 i (int (length tsl)) = Inr (i + int (length tsl))" "add32 rid 1 = Inr (rid + 1)"
    using assms(2,4,5,6) len by (simp_all add: add32_def fits32_def)
  let ?s' = "?s1\<lparr>runningKeys := r'\<rparr>"
  have run: "fill_batch (cfg_R cfg) [((query item start stop, ''''), q)] i rid (batch, misses, s) =
      Inr ([], i + int (length tsl), rid + 1, batch', misses', ?s')"
    using assms(2) t(1) f(1) add by simp
  have req: "\<forall>j. um_find (request_map r') j = (if j = rid \<and> tsl \<noteq> [] then Some (map (ts_key item) tsl, Some q)
       else um_find (request_map (runningKeys s)) j)" using f(4) slot(2) by simp
  have "j < rid + 1" if h: "um_has (request_map r') j" for j
  proof (cases "j = rid")
    case False
    then have "um_has (request_map (runningKeys s)) j" using h req by (simp add: um_has_def)
    then show ?thesis using I(8) by fastforce
  qed simp
  then have "sys_inv K V e db T m cfg U g nf (i + int (length tsl), rid + 1, batch', misses', ?s')"
    unfolding sys_inv_def using I f(2,3) P(1) P(2) len assms(2) by simp
  moreover have "aged s ?s'"
    using touch_item_invs(5) [OF t(5)] P(2) by (simp add: aged_def fake_def)
  ultimately show ?thesis using that [OF run _ t(2-4)] req P(2) by simp
qed

lemma serve_get:
  assumes "sys_inv K V e db T m cfg U g nf (i, rid, batch, misses, s)" and "i < cfg_R cfg" and "get_ok s m item start stop q"
    and "fits32 (rid + 1)" and "fits32 i" and "fits32 (cfg_R cfg + int m)"
  obtains tsl i' batch' misses' s' where
    "fill_batch (cfg_R cfg) [((query item start stop, ''''), q)] i rid (batch, misses, s) = Inr ([], i', rid + 1, batch', misses', s')"
    "sys_inv K V e db T m cfg U g nf (i', rid + 1, batch', misses', s')"
    "set tsl = Collect (in_range {t. live s (ts_key item t)} start stop)" "sorted tsl" "distinct tsl"
    "\<forall>j. um_find (request_map (runningKeys s')) j = (if j = rid \<and> tsl \<noteq> [] then Some (map (ts_key item) tsl, Some q)
       else um_find (request_map (runningKeys s)) j)"
    "live s' = live s" "promises s' = promises s" "keys_to_be_deleted s' = keys_to_be_deleted s" "aged s s'"
  by (rule serve_get_count [OF assms]) (rule that; assumption)

text \<open>A PUT: the old bucket makes room for the new one.\<close>

lemma card_live_put:
  assumes "\<not> live s k" and "if c then (\<forall>j. live s' j \<longleftrightarrow> j = k \<or> live s j \<and> j \<noteq> old) \<and> A \<and> n' = n
     else (\<forall>j. live s' j \<longleftrightarrow> j = k \<or> live s j) \<and> B \<and> n' = Suc n" and "live s old" and "card (Collect (live s)) = U + n"
  shows "card (Collect (live s')) = U + n'"
proof (cases c)
  case True
  have fin: "finite (Collect (live s))" using finite_live [of s "\<lambda>_. True"] by simp
  have "Collect (live s') = insert k (Collect (live s) - {old})" using assms(2) True by auto
  moreover have "Suc (card (Collect (live s) - {old})) = card (Collect (live s))"
    using assms(3) fin by (intro card_Suc_Diff1) auto
  ultimately show ?thesis using assms(1,2,4) True fin by simp
next
  case False
  have fin: "finite (Collect (live s))" using finite_live [of s "\<lambda>_. True"] by simp
  have "Collect (live s') = insert k (Collect (live s))" using assms(2) False by auto
  then show ?thesis using assms(1,2,4) False fin by simp
qed

lemma serve_put:
  assumes "sys_inv K V e db T m cfg U g nf (i, rid, batch, misses, s)" and "i < cfg_R cfg" and "put_ok K V s item t q"
    and "fits32 i" and "fits32 (cfg_R cfg)" and "0 < m" and "k = ts_key item t"
  obtains old batch' s' where
    "fill_batch (cfg_R cfg) [((k, V k), q)] i rid (batch, misses, s) = Inr ([], i + 1, rid, batch', misses, s')"
    "sys_inv K V e db T m cfg U g nf (i + 1, rid, batch', misses, s')"
    "promises s' = um_set q (V k) (promises s)" "request_map (runningKeys s') = request_map (runningKeys s)"
    "\<exists>t0. old = ts_key item t0 \<and> live s old \<and> (\<forall>u. live s (ts_key item u) \<longrightarrow> t0 \<le> u)"
    "if cache_find (pcache s) old \<noteq> None
     then (\<forall>j. live s' j \<longleftrightarrow> j = k \<or> live s j \<and> j \<noteq> old) \<and> keys_to_be_deleted s' = keys_to_be_deleted s
     else (\<forall>j. live s' j \<longleftrightarrow> j = k \<or> live s j) \<and> keys_to_be_deleted s' = keys_to_be_deleted s @ [old]"
    "aged s s'" "lru (pcache s') = (k, V k) # filter (\<lambda>p. fst p \<noteq> old) (lru (pcache s))"
proof -
  have I: "pinv K V e db s" "cinv 1 V batch s" "encryption_engine s = g" "timeStamp s \<le> T"
    "card (Collect (live s)) = U + length (lru (pcache s))" "fs_size (fakeBst s) = nf" "int (length batch) \<le> i"
    "\<forall>j. um_has (request_map (runningKeys s)) j \<longrightarrow> j < rid"
    using assms(1) by (auto simp: sys_inv_def)
  have G: "canon k" "\<not> live s k" "k \<in> K" "storable (V k)" "V k \<noteq> ''''" "\<not> um_has (promises s) q"
    "\<forall>j ks. um_find (request_map (runningKeys s)) j \<noteq> Some (ks, Some q)"
    using assms(3,7) by (auto simp: put_ok_def fresh_promise_def)
  obtain t' where t': "live s (ts_key item t')" using assms(3) by (auto simp: put_ok_def)
  obtain old batch' s' where run: "create_security_batch ((k, V k), q) (- 1) (batch, misses, s) = Inr (batch', misses, s')"
    and inv: "pinv K V e db s'" "cinv 1 V batch' s'" and ps: "promises s' = um_set q (V k) (promises s)"
    and ts: "timeStamp s' = timeStamp s" and rq: "request_map (runningKeys s') = request_map (runningKeys s)"
    and en: "encryption_engine s' = encryption_engine s"
    and spec: "\<exists>t0. old = ts_key item t0 \<and> live s old \<and> (\<forall>u. live s (ts_key item u) \<longrightarrow> t0 \<le> u)"
    and lv: "if cache_find (pcache s) old \<noteq> None
     then (\<forall>j. live s' j \<longleftrightarrow> j = k \<or> live s j \<and> j \<noteq> old) \<and> keys_to_be_deleted s' = keys_to_be_deleted s \<and>
       length (lru (pcache s')) = length (lru (pcache s))
     else (\<forall>j. live s' j \<longleftrightarrow> j = k \<or> live s j) \<and> keys_to_be_deleted s' = keys_to_be_deleted s @ [old] \<and>
       length (lru (pcache s')) = Suc (length (lru (pcache s)))"
    and len: "length batch' \<le> length batch + 1" and fk: "fakeBst s' = fakeBst s" and ag: "aged s s'"
    and lr: "lru (pcache s') = (k, V k) # filter (\<lambda>p. fst p \<noteq> old) (lru (pcache s))"
    by (rule csb_put [OF I(1,2) assms(7) G(1-5) t' G(6,7)])
  have lo: "live s old" using spec by blast
  have "card (Collect (live s')) = U + length (lru (pcache s'))" using card_live_put [OF G(2) lv lo I(5)] .
  then have si: "sys_inv K V e db T m cfg U g nf (i + 1, rid, batch', misses, s')"
    unfolding sys_inv_def using I(3,4,6-8) inv ts rq en len fk assms(2,6) by simp
  have "add32 i 1 = Inr (i + 1)" using assms(2,4,5) by (simp add: add32_def fits32_def)
  then have fb: "fill_batch (cfg_R cfg) [((k, V k), q)] i rid (batch, misses, s) = Inr ([], i + 1, rid, batch', misses, s')"
    using assms(2) run G(5) by simp
  have "if cache_find (pcache s) old \<noteq> None
     then (\<forall>j. live s' j \<longleftrightarrow> j = k \<or> live s j \<and> j \<noteq> old) \<and> keys_to_be_deleted s' = keys_to_be_deleted s
     else (\<forall>j. live s' j \<longleftrightarrow> j = k \<or> live s j) \<and> keys_to_be_deleted s' = keys_to_be_deleted s @ [old]"
    using lv by (simp split: if_splits)
  then show ?thesis using that [OF fb si ps rq spec _ ag lr] by blast
qed

subsection \<open>The state machine\<close>

text \<open>
  The steps of the consumer thread and of the cleaner.  Guards state what the clients submit, that no sum
  of a waiting request overflows, and that the batch number has not reached its bound.
\<close>

inductive proxy_step ::
  "nat \<Rightarrow> config \<Rightarrow> ('srv, 'ctx) env \<Rightarrow> string set \<Rightarrow> (string \<Rightarrow> string) \<Rightarrow> nat \<Rightarrow> int \<Rightarrow> 'srv loop \<Rightarrow> 'srv loop \<Rightarrow> bool"
  for fuel cfg e K V m T where
  take_get: "i < cfg_R cfg \<Longrightarrow> get_ok s m item start stop q \<Longrightarrow> fits32 (rid + 1) \<Longrightarrow> fits32 i \<Longrightarrow>
    fill_batch (cfg_R cfg) [((query item start stop, ''''), q)] i rid (batch, misses, s) = Inr ([], st') \<Longrightarrow>
    proxy_step fuel cfg e K V m T (i, rid, batch, misses, s) st'"
| take_put: "i < cfg_R cfg \<Longrightarrow> put_ok K V s item t q \<Longrightarrow> fits32 i \<Longrightarrow>
    fill_batch (cfg_R cfg) [((ts_key item t, V (ts_key item t)), q)] i rid (batch, misses, s) = Inr ([], st') \<Longrightarrow>
    proxy_step fuel cfg e K V m T (i, rid, batch, misses, s) st'"
| round: "\<not> i < cfg_R cfg \<Longrightarrow> timeStamp s < T \<Longrightarrow> answerable (e_float e) V (request_map (runningKeys s)) \<Longrightarrow>
    consumer_round fuel cfg e batch s = Inr (sk, w, s') \<Longrightarrow>
    proxy_step fuel cfg e K V m T (i, rid, batch, misses, s) (0, rid, [], 0, s')"
| clean: "clear_round e s = Inr s' \<Longrightarrow>
    proxy_step fuel cfg e K V m T (i, rid, batch, misses, s) (i, rid, batch, misses, s')"

inductive_cases proxy_stepE: "proxy_step fuel cfg e K V m T st st'"

text \<open>A configuration whose batches have room for every query and keys enough to fill them.\<close>

definition cfg_ok :: "nat \<Rightarrow> config \<Rightarrow> nat \<Rightarrow> nat \<Rightarrow> nat \<Rightarrow> int \<Rightarrow> bool" where
  "cfg_ok fuel cfg m U nf T \<longleftrightarrow> 0 \<le> cfg_F cfg \<and> 0 < m \<and> 0 \<le> cfg_R cfg \<and> cfg_R cfg + int m - 1 + cfg_F cfg \<le> cfg_B cfg \<and>
     cfg_B cfg < int_max \<and> cfg_B cfg - cfg_F cfg \<le> int U \<and> cfg_F cfg \<le> int nf \<and> nat (cfg_F cfg) \<le> fuel \<and>
     object_size cfg \<le> 4070 \<and> T \<le> int_max"

lemma cfg_fits:
  assumes "cfg_ok fuel cfg m U nf T"
  shows "fits32 (cfg_R cfg + int m)" "fits32 (cfg_R cfg)" "0 < m"
  using assms by (auto simp: cfg_ok_def fits32_def int_min_def int_max_def)

lemma sys_sized:
  assumes "cfg_ok fuel cfg m U nf T" and "sys_inv K V e db T m cfg U g nf (i, rid, batch, misses, s)" and "timeStamp s < T"
  shows "sized fuel cfg (length batch) s"
proof -
  have I: "pinv K V e db s" "card (Collect (live s)) = U + length (lru (pcache s))" "fs_size (fakeBst s) = nf"
    "int (length batch) \<le> i" "i < cfg_R cfg + int m"
    using assms(2) by (auto simp: sys_inv_def)
  have "card {k. live s k \<and> cache_find (pcache s) k = None} = U" using uncached_card [OF I(1)] I(2) by simp
  then show ?thesis
    using assms(1,3) I(3-5) pinvD(2) [OF I(1)] by (auto simp: sized_def cfg_ok_def fits32_def int_min_def int_max_def)
qed

text \<open>A full batch can always be executed, and the invariant holds for the next one.\<close>

lemma sys_round:
  assumes "env_ok e g db K T" and "cfg_ok fuel cfg m U nf T" and "sys_inv K V e db T m cfg U g nf (i, rid, batch, misses, s)"
    and "timeStamp s < T" and "answerable (e_float e) V (request_map (runningKeys s))"
  shows "\<exists>sk w s'. consumer_round fuel cfg e batch s = Inr (sk, w, s') \<and> batch_post K V cfg e db s sk w s' \<and>
    answered (e_float e) V (request_map (runningKeys s)) (promises s) (promises s') \<and>
    sys_inv K V e db T m cfg U g nf (0, rid, [], 0, s') \<and> (\<exists>rs fk. picks cfg e (map fst batch) s rs fk sk s')"
proof -
  have I: "pinv K V e db s" "cinv 1 V batch s" "encryption_engine s = g"
    "card (Collect (live s)) = U + length (lru (pcache s))" "fs_size (fakeBst s) = nf"
    using assms(3) by (auto simp: sys_inv_def)
  obtain sk w s' where r: "consumer_round fuel cfg e batch s = Inr (sk, w, s')" "batch_post K V cfg e db s sk w s'"
    "answered (e_float e) V (request_map (runningKeys s)) (promises s) (promises s')" "cinv 1 V [] s'"
    "\<exists>rs fk. picks cfg e (map fst batch) s rs fk sk s'"
    using consumer_round_ok [OF _ I(1,2) sys_sized [OF assms(2-4)] assms(4,5)] assms(1) I(3) by blast
  have p: "pinv K V e db s'" "runningKeys s' = running_empty" "\<forall>k. live s' k \<longleftrightarrow> live s k \<and> k \<notin> set (keys_to_be_deleted s)"
    "timeStamp s' = timeStamp s + 1" "encryption_engine s' = encryption_engine s" "fs_size (fakeBst s') = fs_size (fakeBst s)"
    "length (lru (pcache s')) + card (set (keys_to_be_deleted s)) = length (lru (pcache s))"
    using r(2) by (auto simp: batch_post_def)
  have sub: "set (keys_to_be_deleted s) \<subseteq> Collect (live s)" using cinvD(2,5) [OF I(2)] by blast
  have "Collect (live s') = Collect (live s) - set (keys_to_be_deleted s)" using p(3) by auto
  then have "card (Collect (live s')) = card (Collect (live s)) - card (set (keys_to_be_deleted s))"
    using card_Diff_subset [OF _ sub] by simp
  then have "card (Collect (live s')) = U + length (lru (pcache s'))" using I(4) p(7) by simp
  moreover have "0 < cfg_R cfg + int m" using assms(2) by (simp add: cfg_ok_def)
  ultimately have "sys_inv K V e db T m cfg U g nf (0, rid, [], 0, s')"
    unfolding sys_inv_def using p r(4) I(3,5) assms(4) by (simp add: running_empty_def)
  then show ?thesis using r by blast
qed

lemma sys_clean:
  assumes "env_ok e g db K T" and "sys_inv K V e db T m cfg U g nf (i, rid, batch, misses, s)" and "clear_round e s = Inr s'"
  shows "sys_inv K V e db T m cfg U g nf (i, rid, batch, misses, s')" "live s' = live s" "promises s' = promises s"
    "keys_to_be_deleted s' = keys_to_be_deleted s" "runningKeys s' = runningKeys s"
proof -
  have I: "pinv K V e db s" "cinv 1 V batch s" "encryption_engine s = g" "timeStamp s \<le> T"
    using assms(2) by (auto simp: sys_inv_def)
  obtain ids rest where k: "keysNotUsed s = ids # rest"
    using assms(3) by (cases "keysNotUsed s") (simp_all add: clear_round_def)
  obtain srv where s': "s' = s\<lparr>storage := [srv], keysNotUsed := rest\<rparr>" "pinv K V e db s'"
    using clear_round_ok [OF _ I(1,4) k] assms(1,3) I(3) by auto
  show lv: "live s' = live s" by (simp add: s'(1) live_def fun_eq_iff)
  have "cinv 1 V batch s'" using I(2) unfolding cinv_def lv by (simp add: s'(1))
  then show "sys_inv K V e db T m cfg U g nf (i, rid, batch, misses, s')"
    using assms(2) s'(2) unfolding sys_inv_def by (simp add: lv) (simp add: s'(1))
qed (use assms(3) in \<open>auto simp: clear_round_def res_simps split: list.splits if_splits\<close>)

text \<open>The invariant holds in every reachable state.\<close>

lemma sys_inv_step:
  assumes "env_ok e g db K T" and "cfg_ok fuel cfg m U nf T" and "proxy_step fuel cfg e K V m T st st'"
    and "sys_inv K V e db T m cfg U g nf st"
  shows "sys_inv K V e db T m cfg U g nf st'"
  using assms(3,4)
proof cases
  case (take_get i s item start stop q rid batch misses)
  show ?thesis
    by (rule serve_get [OF assms(4) [unfolded take_get(1)] take_get(2,3,4,5) cfg_fits(1) [OF assms(2)]])
      (use take_get(6) in simp)
next
  case (take_put i s item t q rid batch misses)
  show ?thesis
    by (rule serve_put [OF assms(4) [unfolded take_put(1)] take_put(2,3,4) cfg_fits(2,3) [OF assms(2)] refl])
      (use take_put(5) in simp)
next
  case (round i s batch sk w s' rid misses)
  show ?thesis
    using sys_round [OF assms(1,2) assms(4) [unfolded round(1)] round(4,5)] round(2,6) by auto
next
  case (clean s s' i rid batch misses)
  show ?thesis using sys_clean(1) [OF assms(1) assms(4) [unfolded clean(1)] clean(3)] clean(2) by simp
qed

lemma sys_inv_reachable:
  assumes "env_ok e g db K T" and "cfg_ok fuel cfg m U nf T" and "(proxy_step fuel cfg e K V m T)\<^sup>*\<^sup>* st st'"
    and "sys_inv K V e db T m cfg U g nf st"
  shows "sys_inv K V e db T m cfg U g nf st'"
  using assms(3,4)
proof induction
  case (step y z)
  then show ?case using sys_inv_step [OF assms(1,2)] by blast
qed

end
