(* ===== verification/Proxy_Oblivious.thy ===== *)
theory Proxy_Oblivious
  imports Proxy_System
begin

text \<open>
  What the storage server sees of a run: for every executed batch the locations read and the locations
  written.  No location is ever read twice and none is ever written twice, whatever the clients ask for;
  deletions only concern locations that have been read.
\<close>

subsection \<open>The server's view\<close>

text \<open>A step shows the server a batch, or (a step that does not advance the batch number) no batch.\<close>

inductive observed ::
  "nat \<Rightarrow> config \<Rightarrow> ('srv, 'ctx) env \<Rightarrow> string set \<Rightarrow> (string \<Rightarrow> string) \<Rightarrow> nat \<Rightarrow> int \<Rightarrow>
   'srv loop \<Rightarrow> (string list \<times> string list) list \<Rightarrow> 'srv loop \<Rightarrow> bool"
  for fuel cfg e K V m T where
  quiet: "proxy_step fuel cfg e K V m T (i, rid, batch, misses, s) (i', rid', batch', misses', s') \<Longrightarrow> timeStamp s' = timeStamp s \<Longrightarrow>
    observed fuel cfg e K V m T (i, rid, batch, misses, s) [] (i', rid', batch', misses', s')"
| exchange: "\<not> i < cfg_R cfg \<Longrightarrow> timeStamp s < T \<Longrightarrow> answerable (e_float e) V (request_map (runningKeys s)) \<Longrightarrow>
    consumer_round fuel cfg e batch s = Inr (sk, w, s') \<Longrightarrow>
    observed fuel cfg e K V m T (i, rid, batch, misses, s) [(sk, writeBatchKeys w)] (0, rid, [], 0, s')"

inductive proxy_run ::
  "nat \<Rightarrow> config \<Rightarrow> ('srv, 'ctx) env \<Rightarrow> string set \<Rightarrow> (string \<Rightarrow> string) \<Rightarrow> nat \<Rightarrow> int \<Rightarrow>
   'srv loop \<Rightarrow> (string list \<times> string list) list \<Rightarrow> 'srv loop \<Rightarrow> bool"
  for fuel cfg e K V m T st where
  run_start: "proxy_run fuel cfg e K V m T st [] st"
| run_step: "proxy_run fuel cfg e K V m T st tr st' \<Longrightarrow> observed fuel cfg e K V m T st' obs st'' \<Longrightarrow>
    proxy_run fuel cfg e K V m T st (tr @ obs) st''"

lemma proxy_run_append:
  assumes "proxy_run fuel cfg e K V m T st tr st1" and "proxy_run fuel cfg e K V m T st1 tr' st2"
  shows "proxy_run fuel cfg e K V m T st (tr @ tr') st2"
  using assms(2)
proof induction
  case run_start
  then show ?case using assms(1) by simp
next
  case (run_step tr' st' ob st'')
  then show ?case using proxy_run.run_step [of fuel cfg e K V m T st "tr @ tr'" st' ob st''] by simp
qed

text \<open>A location that has been written, or that no write of the future can name.\<close>

definition used :: "string set \<Rightarrow> ('srv, 'ctx) env \<Rightarrow> 'srv proxy \<Rightarrow> string \<Rightarrow> bool" where
  "used K e s i \<longleftrightarrow> (\<exists>k \<in> K. \<exists>f. 0 \<le> f \<and> f \<le> timeStamp s \<and> i = loc e (encryption_engine s) k f \<and>
     (live s k \<longrightarrow> f \<le> fs_freq (realBst s) k \<and> (cache_find (pcache s) k \<noteq> None \<longrightarrow> f < fs_freq (realBst s) k)) \<and>
     (fake s k \<longrightarrow> f \<le> fs_freq (fakeBst s) k) \<and> (\<not> live s k \<longrightarrow> \<not> fake s k \<longrightarrow> f < timeStamp s))"

subsection \<open>Every step ages the keys\<close>

lemma aged_stale:
  assumes "aged s s'" and "stale K e s i"
  shows "stale K e s' i"
proof -
  obtain k f where k: "k \<in> K" "0 \<le> f" "f < timeStamp s" "i = loc e (encryption_engine s) k f"
    "live s k \<longrightarrow> f < fs_freq (realBst s) k" "fake s k \<longrightarrow> f < fs_freq (fakeBst s) k"
    using assms(2) unfolding stale_def by blast
  have a: "timeStamp s \<le> timeStamp s'" "encryption_engine s' = encryption_engine s" "fake s' k \<longleftrightarrow> fake s k"
    "live s' k \<Longrightarrow> fs_freq (realBst s') k = timeStamp s' \<or> live s k \<and> fs_freq (realBst s') k = fs_freq (realBst s) k"
    "fake s k \<Longrightarrow> fs_freq (fakeBst s') k = timeStamp s' \<or> fs_freq (fakeBst s') k = fs_freq (fakeBst s) k"
    using assms(1) unfolding aged_def by blast+
  have "live s' k \<longrightarrow> f < fs_freq (realBst s') k" using a(1) a(4) k(3,5) by fastforce
  moreover have "fake s' k \<longrightarrow> f < fs_freq (fakeBst s') k" using a(1,3) a(5) k(3,6) by fastforce
  moreover have "f < timeStamp s'" using a(1) k(3) by simp
  ultimately show ?thesis using k(1,2,4) unfolding stale_def a(2) by blast
qed

lemma aged_used:
  assumes "aged s s'" and "pinv K V e db s" and "pinv K V e db s'" and "used K e s i"
  shows "used K e s' i"
proof -
  obtain k f where k: "k \<in> K" "0 \<le> f" "f \<le> timeStamp s" "i = loc e (encryption_engine s) k f"
    "live s k \<Longrightarrow> f \<le> fs_freq (realBst s) k" "live s k \<Longrightarrow> cache_find (pcache s) k \<noteq> None \<Longrightarrow> f < fs_freq (realBst s) k"
    "fake s k \<Longrightarrow> f \<le> fs_freq (fakeBst s) k" "\<not> live s k \<Longrightarrow> \<not> fake s k \<Longrightarrow> f < timeStamp s"
    using assms(4) unfolding used_def by blast
  have a: "timeStamp s \<le> timeStamp s'" "encryption_engine s' = encryption_engine s" "fake s' k \<longleftrightarrow> fake s k"
    "live s' k \<Longrightarrow> fs_freq (realBst s') k = timeStamp s' \<and> (timeStamp s < timeStamp s' \<or> \<not> live s k) \<or>
        live s k \<and> fs_freq (realBst s') k = fs_freq (realBst s) k \<and> (cache_find (pcache s') k \<noteq> None \<longrightarrow> cache_find (pcache s) k \<noteq> None)"
    "live s k \<Longrightarrow> \<not> live s' k \<Longrightarrow> timeStamp s < timeStamp s' \<or> cache_find (pcache s) k \<noteq> None"
    "fake s k \<Longrightarrow> fs_freq (fakeBst s') k = timeStamp s' \<or> fs_freq (fakeBst s') k = fs_freq (fakeBst s) k"
    using assms(1) unfolding aged_def by blast+
  have lv: "f \<le> fs_freq (realBst s') k \<and> (cache_find (pcache s') k \<noteq> None \<longrightarrow> f < fs_freq (realBst s') k)" if l: "live s' k"
  proof -
    have nf: "\<not> fake s k" using not_live_fake [OF assms(3) l] a(3) by blast
    from a(4) [OF l] show ?thesis
    proof
      assume h: "fs_freq (realBst s') k = timeStamp s' \<and> (timeStamp s < timeStamp s' \<or> \<not> live s k)"
      then have "f < timeStamp s'" using k(3,8) nf a(1) by fastforce
      then show ?thesis using h by simp
    qed (use k(5,6) in auto)
  qed
  have "f \<le> fs_freq (fakeBst s') k" if "fake s' k" using a(1,3) a(6) k(3,7) that by fastforce
  moreover have "f < timeStamp s'" if h: "\<not> live s' k" "\<not> fake s' k"
  proof (cases "live s k")
    case True
    then show ?thesis using a(1,5) k(3,6) h(1) pinvD(10) [OF assms(2) True] by fastforce
  next
    case False
    then show ?thesis using a(1,3) k(8) h(2) by fastforce
  qed
  moreover have "f \<le> timeStamp s'" using a(1) k(3) by simp
  ultimately show ?thesis using lv k(1,2,4) unfolding used_def a(2) by blast
qed

lemma sys_clean_aged:
  assumes "clear_round e s = Inr s'"
  shows "aged s s'"
  using assms by (auto simp: clear_round_def aged_def live_def fake_def res_simps split: list.splits if_splits)

lemma step_aged:
  assumes "env_ok e g db K T" and "cfg_ok fuel cfg m U nf T" and "sys_inv K V e db T m cfg U g nf (i, rid, batch, misses, s)"
    and "proxy_step fuel cfg e K V m T (i, rid, batch, misses, s) (i', rid', batch', misses', s')"
  shows "aged s s'"
  using assms(4)
proof cases
  case (take_get item start stop q)
  show ?thesis
    by (rule serve_get [OF assms(3) take_get(1-4) cfg_fits(1) [OF assms(2)]]) (use take_get(5) in simp)
next
  case (take_put item t q)
  show ?thesis
    by (rule serve_put [OF assms(3) take_put(1-3) cfg_fits(2,3) [OF assms(2)] refl]) (use take_put(4) in simp)
next
  case (round sk w)
  then show ?thesis using sys_round [OF assms(1-3) round(6,7)] by (auto simp: batch_post_def)
next
  case clean
  then show ?thesis using sys_clean_aged by blast
qed

subsection \<open>A batch reads what is current and writes what is new\<close>

lemma reads_not_stale:
  assumes "env_ok e (encryption_engine s) db K T" and "pinv K V e db s" and "timeStamp s < T"
    and "batch_post K V cfg e db s sk w s'" and "i \<in> set sk"
  shows "\<not> stale K e s i" "stale K e s' i"
proof -
  show "stale K e s' i" using assms(4,5) by (auto simp: batch_post_def)
  obtain k where k: "live s k \<and> i = loc e (encryption_engine s) k (fs_freq (realBst s) k) \<or>
      fake s k \<and> i = loc e (encryption_engine s) k (fs_freq (fakeBst s) k)"
    using assms(4,5) by (fastforce simp: batch_post_def)
  then show "\<not> stale K e s i"
    using stale_not_current [OF assms(1,2) less_imp_le [OF assms(3)]] by blast
qed

lemma writes_not_used:
  assumes "env_ok e (encryption_engine s) db K T" and "pinv K V e db s" and "timeStamp s < T"
    and "batch_post K V cfg e db s sk w s'" and "i \<in> set (writeBatchKeys w)"
  shows "\<not> used K e s i" "used K e s' i"
proof -
  have b: "pinv K V e db s'" "timeStamp s' = timeStamp s + 1" "encryption_engine s' = encryption_engine s"
    using assms(4) by (simp_all add: batch_post_def)
  obtain k f where i: "i = loc e (encryption_engine s) k f"
    and c: "live s' k \<and> f = fs_freq (realBst s') k \<and> cache_find (pcache s') k = None \<and>
         (f = timeStamp s + 1 \<or> cache_find (pcache s) k \<noteq> None \<and> f = fs_freq (realBst s) k)
        \<or> fake s' k \<and> f = fs_freq (fakeBst s') k \<and> f = timeStamp s + 1"
    using assms(4,5) by (fastforce simp: batch_post_def)
  have k: "k \<in> K" "0 \<le> f" "f \<le> timeStamp s'"
    using c pinvD(10,12) [OF b(1), of k] by auto
  have "\<not> (live s' k \<and> fake s' k)" using not_live_fake [OF b(1)] by blast
  then have "(live s' k \<longrightarrow> f \<le> fs_freq (realBst s') k \<and> (cache_find (pcache s') k \<noteq> None \<longrightarrow> f < fs_freq (realBst s') k)) \<and>
     (fake s' k \<longrightarrow> f \<le> fs_freq (fakeBst s') k) \<and> (\<not> live s' k \<longrightarrow> \<not> fake s' k \<longrightarrow> f < timeStamp s')"
    using c by auto
  then show "used K e s' i" unfolding used_def b(3) using k i by blast
  show "\<not> used K e s i"
  proof
    assume "used K e s i"
    then obtain k' f' where u: "k' \<in> K" "0 \<le> f'" "f' \<le> timeStamp s" "i = loc e (encryption_engine s) k' f'"
      "live s k' \<longrightarrow> cache_find (pcache s) k' \<noteq> None \<longrightarrow> f' < fs_freq (realBst s) k'"
      unfolding used_def by blast
    then have "k' = k" "f' = f" using i k loc_inj [OF assms(1)] b(2) assms(3) by auto
    then have "cache_find (pcache s) k \<noteq> None" "f = fs_freq (realBst s) k" using c u(3) by auto
    then show False using u(5) \<open>k' = k\<close> \<open>f' = f\<close> pinvD(9) [OF assms(2), of k] by fastforce
  qed
qed

lemma observed_batch:
  assumes "env_ok e g db K T" and "cfg_ok fuel cfg m U nf T" and "sys_inv K V e db T m cfg U g nf (i, rid, batch, misses, s)"
    and "timeStamp s < T" and "answerable (e_float e) V (request_map (runningKeys s))"
    and "consumer_round fuel cfg e batch s = Inr (sk, w, s')"
  shows "batch_post K V cfg e db s sk w s'" "sys_inv K V e db T m cfg U g nf (0, rid, [], 0, s')"
  using sys_round [OF assms(1-5)] assms(6) by auto

text \<open>
  The invariant of a run: whatever has been read is stale, whatever has been written is used, nothing is
  repeated, and every batch has the configured size.
\<close>

definition seen_once ::
  "string set \<Rightarrow> ('srv, 'ctx) env \<Rightarrow> config \<Rightarrow> (string list \<times> string list) list \<Rightarrow> 'srv proxy \<Rightarrow> bool" where
  "seen_once K e cfg tr s \<longleftrightarrow>
     distinct (concat (map fst tr)) \<and> distinct (concat (map snd tr)) \<and>
     (\<forall>(rs, ws) \<in> set tr. length rs = nat (cfg_B cfg) \<and> length ws = nat (cfg_B cfg)) \<and>
     (\<forall>i \<in> set (concat (map fst tr)). stale K e s i) \<and> (\<forall>i \<in> set (concat (map snd tr)). used K e s i)"

lemma seen_once_aged:
  assumes "aged s s'" and "pinv K V e db s" and "pinv K V e db s'" and "seen_once K e cfg tr s"
  shows "seen_once K e cfg tr s'"
proof -
  have "\<forall>i \<in> set (concat (map fst tr)). stale K e s' i" "\<forall>i \<in> set (concat (map snd tr)). used K e s' i"
    using assms(4) aged_stale [OF assms(1)] aged_used [OF assms(1-3)] unfolding seen_once_def by blast+
  then show ?thesis using assms(4) unfolding seen_once_def by blast
qed

lemma seen_once_batch:
  assumes "env_ok e (encryption_engine s) db K T" and "pinv K V e db s" and "timeStamp s < T"
    and "batch_post K V cfg e db s sk w s'" and "seen_once K e cfg tr s"
  shows "seen_once K e cfg (tr @ [(sk, writeBatchKeys w)]) s'"
proof -
  have b: "pinv K V e db s'" "aged s s'" "distinct sk" "distinct (writeBatchKeys w)"
    "length sk = nat (cfg_B cfg)" "length (writeBatchKeys w) = nat (cfg_B cfg)"
    using assms(4) by (simp_all add: batch_post_def)
  note R = reads_not_stale [OF assms(1-4)] and W = writes_not_used [OF assms(1-4)]
    and A = seen_once_aged [OF b(2) assms(2) b(1) assms(5)]
  have old: "\<forall>i \<in> set (concat (map fst tr)). stale K e s i" "\<forall>i \<in> set (concat (map snd tr)). used K e s i"
    "distinct (concat (map fst tr))" "distinct (concat (map snd tr))"
    using assms(5) unfolding seen_once_def by blast+
  have d1: "distinct (concat (map fst tr) @ sk)" using old(1,3) b(3) R(1) by (auto simp del: set_concat)
  have d2: "distinct (concat (map snd tr) @ writeBatchKeys w)" using old(2,4) b(4) W(1) by (auto simp del: set_concat)
  have s1: "\<forall>i \<in> set (concat (map fst tr) @ sk). stale K e s' i"
    using A R(2) unfolding seen_once_def by (metis Un_iff set_append)
  have s2: "\<forall>i \<in> set (concat (map snd tr) @ writeBatchKeys w). used K e s' i"
    using A W(2) unfolding seen_once_def by (metis Un_iff set_append)
  have c: "concat (map fst (tr @ [(sk, writeBatchKeys w)])) = concat (map fst tr) @ sk"
    "concat (map snd (tr @ [(sk, writeBatchKeys w)])) = concat (map snd tr) @ writeBatchKeys w" by simp_all
  have "\<forall>(rs, ws) \<in> set (tr @ [(sk, writeBatchKeys w)]). length rs = nat (cfg_B cfg) \<and> length ws = nat (cfg_B cfg)"
    using A b(5,6) unfolding seen_once_def by auto
  then show ?thesis unfolding seen_once_def c using d1 d2 s1 s2 by blast
qed

lemma run_seen_once:
  assumes "env_ok e g db K T" and "cfg_ok fuel cfg m U nf T" and "proxy_run fuel cfg e K V m T st tr st'"
    and "sys_inv K V e db T m cfg U g nf st"
  shows "sys_inv K V e db T m cfg U g nf st' \<and> (\<forall>i rid batch misses s. st' = (i, rid, batch, misses, s) \<longrightarrow> seen_once K e cfg tr s)"
  using assms(3)
proof induction
  case run_start
  then show ?case using assms(4) by (simp add: seen_once_def)
next
  case (run_step tr st1 ob st2)
  then have inv: "sys_inv K V e db T m cfg U g nf st1" by blast
  from run_step.hyps(2) show ?case
  proof cases
    case (quiet i rid batch misses s i' rid' batch' misses' s')
    have inv': "sys_inv K V e db T m cfg U g nf st2" using sys_inv_step [OF assms(1,2) quiet(4) inv [unfolded quiet(1)]] quiet(3) by simp
    have "seen_once K e cfg tr s" using run_step.IH quiet(1) by blast
    moreover have "aged s s'" using step_aged [OF assms(1,2) inv [unfolded quiet(1)] quiet(4)] .
    moreover have "pinv K V e db s" "pinv K V e db s'" using inv inv' quiet(1,3) by (auto simp: sys_inv_def)
    ultimately have "seen_once K e cfg tr s'" using seen_once_aged by blast
    then show ?thesis using inv' quiet(2,3) by simp
  next
    case (exchange i s batch sk w s' rid misses)
    note B = observed_batch [OF assms(1,2) inv [unfolded exchange(1)] exchange(5-7)]
    have "pinv K V e db s" "encryption_engine s = g" using inv exchange(1) by (auto simp: sys_inv_def)
    moreover have "seen_once K e cfg tr s" using run_step.IH exchange(1) by blast
    ultimately have "seen_once K e cfg (tr @ ob) s'"
      using seen_once_batch [OF _ _ exchange(5) B(1)] assms(1) exchange(2) by simp
    then show ?thesis using B(2) exchange(3) by simp
  qed
qed

end
