(* ===== verification/Work_Queue.thy ===== *)
theory Work_Queue
  imports Waffle_Prelude
begin

text \<open>
  The blocking queue (\<open>proxy/src/queue.h\<close>) between the threads of the proxy.  Every operation runs
  under the queue's mutex, so it is one step; a \<open>pop\<close> on an empty queue waits, which is the outcome
  \<open>Blocked\<close>.  \<open>m_size\<close> (\<open>size_\<close> in the source) is an atomic \<open>int\<close> beside the container.

  \<open>fifo\<close> is what the users of a queue rely on: elements leave in the order in which they came.
\<close>

subsection \<open>The queue\<close>

record 'a wqueue =
  m_queue :: "'a list"
  m_size :: int

definition queue_new :: "'a wqueue" where
  "queue_new = \<lparr>m_queue = [], m_size = 0\<rparr>"

definition queue_push :: "'a \<Rightarrow> 'a wqueue \<Rightarrow> 'a wqueue" where
  "queue_push item q = q\<lparr>m_queue := m_queue q @ [item], m_size := wrap32 (m_size q + 1)\<rparr>"

definition queue_pop :: "'a wqueue \<Rightarrow> ('a \<times> 'a wqueue) res" where
  "queue_pop q = (case m_queue q of
     [] \<Rightarrow> Inl Blocked
   | item # rest \<Rightarrow> Inr (item, q\<lparr>m_size := wrap32 (m_size q - 1), m_queue := rest\<rparr>))"

text \<open>The overload that assigns to its argument; on an empty queue it waits as well.\<close>

definition queue_pop_into :: "'a \<Rightarrow> 'a wqueue \<Rightarrow> ('a \<times> 'a wqueue) res" where
  "queue_pop_into item q = (case m_queue q of
     [] \<Rightarrow> Inl Blocked
   | front # rest \<Rightarrow> (let item = front in Inr (item, q\<lparr>m_size := wrap32 (m_size q - 1), m_queue := rest\<rparr>)))"

definition queue_size :: "'a wqueue \<Rightarrow> int" where
  "queue_size q = m_size q"

text \<open>The counter agrees with the container modulo \<open>2 ^ 32\<close>, and exactly for fewer than \<open>2 ^ 31\<close> elements.\<close>

definition queue_ok :: "'a wqueue \<Rightarrow> bool" where
  "queue_ok q \<longleftrightarrow> m_size q = wrap32 (int (length (m_queue q)))"

lemma wrap32_add: "wrap32 (wrap32 x + y) = wrap32 (x + y)"
proof -
  have "(wrap32 x + y + 2 ^ 31) mod 2 ^ 32 = ((x + 2 ^ 31) mod 2 ^ 32 + y) mod 2 ^ 32"
    by (simp add: wrap32_def algebra_simps)
  also have "\<dots> = (x + y + 2 ^ 31) mod 2 ^ 32" unfolding mod_add_left_eq by (simp add: algebra_simps)
  finally show ?thesis by (simp add: wrap32_def)
qed

lemma wrap32_add': "wrap32 (y + wrap32 x) = wrap32 (y + x)"
  using wrap32_add [of x y] by (simp add: add.commute)

lemma queue_new_ok: "queue_ok queue_new"
  by (simp add: queue_ok_def queue_new_def wrap32_def)

lemma queue_push_ok: "queue_ok q \<Longrightarrow> queue_ok (queue_push x q)"
  by (simp add: queue_ok_def queue_push_def wrap32_add wrap32_add' add.commute)

lemma queue_pop_ok:
  assumes "queue_ok q" and "queue_pop q = Inr (x, q')" shows "queue_ok q'"
proof -
  obtain rest where r: "m_queue q = x # rest" "q' = q\<lparr>m_size := wrap32 (m_size q - 1), m_queue := rest\<rparr>"
    using assms(2) by (auto simp: queue_pop_def split: list.splits)
  have "wrap32 (wrap32 (int (length rest) + 1) + (- 1)) = wrap32 (int (length rest))"
    using wrap32_add [of "int (length rest) + 1" "- 1"] by simp
  then show ?thesis using assms(1) r by (simp add: queue_ok_def add.commute)
qed

lemma queue_size_exact:
  "queue_ok q \<Longrightarrow> length (m_queue q) < 2 ^ 31 \<Longrightarrow> queue_size q = int (length (m_queue q))"
  by (simp add: queue_ok_def queue_size_def fits32_def int_min_def int_max_def)

subsection \<open>First in, first out\<close>

locale fifo =
  fixes good :: "'q \<Rightarrow> bool" and items :: "'q \<Rightarrow> 'a list"
    and push :: "'a \<Rightarrow> 'q \<Rightarrow> 'q" and pop :: "'q \<Rightarrow> ('a \<times> 'q) res"
  assumes push_good: "good q \<Longrightarrow> good (push x q)"
    and pop_good: "good q \<Longrightarrow> pop q = Inr (x, q') \<Longrightarrow> good q'"
    and push_items: "good q \<Longrightarrow> items (push x q) = items q @ [x]"
    and pop_empty: "good q \<Longrightarrow> items q = [] \<Longrightarrow> pop q = Inl Blocked"
    and pop_front: "good q \<Longrightarrow> items q = x # xs \<Longrightarrow> \<exists>q'. pop q = Inr (x, q') \<and> items q' = xs"
begin

fun push_all :: "'a list \<Rightarrow> 'q \<Rightarrow> 'q" where
  "push_all [] q = q"
| "push_all (x # xs) q = push_all xs (push x q)"

fun pop_many :: "nat \<Rightarrow> 'q \<Rightarrow> ('a list \<times> 'q) res" where
  "pop_many 0 q = Inr ([], q)"
| "pop_many (Suc n) q = bindR (pop q) (\<lambda>(x, q1). bindR (pop_many n q1) (\<lambda>(xs, q2). Inr (x # xs, q2)))"

lemma push_all_items: "good q \<Longrightarrow> items (push_all xs q) = items q @ xs \<and> good (push_all xs q)"
  by (induction xs arbitrary: q) (simp_all add: push_items push_good)

lemma pop_many_items:
  "good q \<Longrightarrow> n \<le> length (items q)
   \<Longrightarrow> \<exists>q'. pop_many n q = Inr (take n (items q), q') \<and> items q' = drop n (items q) \<and> good q'"
proof (induction n arbitrary: q)
  case (Suc n)
  then obtain x xs where x: "items q = x # xs" by (cases "items q") auto
  obtain q1 where q1: "pop q = Inr (x, q1)" "items q1 = xs" using pop_front [OF Suc.prems(1) x] by blast
  have "good q1" using pop_good [OF Suc.prems(1) q1(1)] .
  from Suc.IH [OF this] Suc.prems(2) x q1 show ?case by auto
qed simp

text \<open>What a producer pushes into an empty queue, a consumer gets in the same order.\<close>

lemma delivered_in_order:
  assumes "good q" and "items q = []"
  shows "\<exists>q'. pop_many (length xs) (push_all xs q) = Inr (xs, q') \<and> items q' = []"
  using pop_many_items [of "push_all xs q" "length xs"] push_all_items [OF assms(1), of xs] assms(2) by auto

end

interpretation wq: fifo queue_ok m_queue queue_push queue_pop
proof
  show "queue_ok q \<Longrightarrow> queue_pop q = Inr (x, q') \<Longrightarrow> queue_ok q'" for q q' :: "'a wqueue" and x
    by (rule queue_pop_ok)
  show "queue_ok q \<Longrightarrow> queue_ok (queue_push x q)" for q :: "'a wqueue" and x by (rule queue_push_ok)
qed (auto simp: queue_push_def queue_pop_def)

end
