(* ===== verification/Thrift_Protocol.thy ===== *)
theory Thrift_Protocol
  imports Waffle_Prelude
begin

text \<open>
  The layer between the generated service code (\<open>waffle/service/src/waffle_thrift.cpp\<close>,
  \<open>proxy_types.cpp\<close>, \<open>waffle_thrift_response.cpp\<close>) and Apache Thrift, which is not part of the
  repository.

  \<^item> \<open>('s, 'a) io\<close>: C++ code that works on an object of state \<open>'s\<close>, returns an \<open>'a\<close> or throws; the
    state an exception leaves behind is kept.
  \<^item> \<open>'p tproto\<close>: the virtual functions of \<open>TProtocol\<close> and of its transport that the generated code
    calls, as a parameter over an abstract protocol state \<open>'p\<close>.
  \<^item> the shapes all generated \<open>read\<close> and \<open>write\<close> functions share: the loop over the fields with its
    \<open>switch\<close>, the list of strings, the field and the struct.
  \<^item> \<open>thrift_protocol\<close>: what the generated code relies on, as a locale.  A protocol state carries a
    sequence of items; a write appends the item, a read of the same kind takes it off the front,
    and \<open>skip\<close> drops one value of the given type.
\<close>

subsection \<open>Code that works on an object and may throw\<close>

type_synonym ('s, 'a) io = "'s \<Rightarrow> 'a res \<times> 's"

definition returnIO :: "'a \<Rightarrow> ('s, 'a) io" where
  "returnIO x = (\<lambda>s. (Inr x, s))"

definition throwIO :: "cpp_error \<Rightarrow> ('s, 'a) io" where
  "throwIO e = (\<lambda>s. (Inl e, s))"

definition bindIO :: "('s, 'a) io \<Rightarrow> ('a \<Rightarrow> ('s, 'b) io) \<Rightarrow> ('s, 'b) io" where
  "bindIO m f = (\<lambda>s. case m s of (r, s') \<Rightarrow> (case r of Inl e \<Rightarrow> (Inl e, s') | Inr x \<Rightarrow> f x s'))"

fun seqIO :: "('s, unit) io list \<Rightarrow> ('s, unit) io" where
  "seqIO [] = returnIO ()"
| "seqIO (m # ms) = bindIO m (\<lambda>_. seqIO ms)"

text \<open>Loops that collect one result per element.\<close>

fun mapIO :: "('a \<Rightarrow> ('s, 'b) io) \<Rightarrow> 'a list \<Rightarrow> ('s, 'b list) io" where
  "mapIO g [] = returnIO []"
| "mapIO g (x # xs) = bindIO (g x) (\<lambda>y. bindIO (mapIO g xs) (\<lambda>ys. returnIO (y # ys)))"

text \<open>\<open>try { m } catch (const std::exception &e) { h }\<close>.\<close>

definition catchIO :: "('s, 'a) io \<Rightarrow> (cpp_error \<Rightarrow> ('s, 'a) io) \<Rightarrow> ('s, 'a) io" where
  "catchIO m h = (\<lambda>s. case m s of (r, s') \<Rightarrow>
     (case r of Inl e \<Rightarrow> (if is_std_exception e then h e s' else (Inl e, s')) | Inr x \<Rightarrow> (Inr x, s')))"

named_theorems io_simps

lemma returnIO_app [io_simps]: "returnIO x s = (Inr x, s)"
  by (simp add: returnIO_def)

lemma throwIO_app [io_simps]: "throwIO e s = (Inl e, s)"
  by (simp add: throwIO_def)

lemma bindIO_ok [io_simps]: "m s = (Inr x, s') \<Longrightarrow> bindIO m f s = f x s'"
  by (simp add: bindIO_def)

lemma bindIO_err [io_simps]: "m s = (Inl e, s') \<Longrightarrow> bindIO m f s = (Inl e, s')"
  by (simp add: bindIO_def)

lemma catchIO_ok [io_simps]: "m s = (Inr x, s') \<Longrightarrow> catchIO m h s = (Inr x, s')"
  by (simp add: catchIO_def)

lemma catchIO_err [io_simps]:
  "m s = (Inl e, s') \<Longrightarrow> catchIO m h s = (if is_std_exception e then h e s' else (Inl e, s'))"
  by (simp add: catchIO_def)

subsection \<open>The calls on \<open>TProtocol\<close>\<close>

datatype ttype = T_STOP | T_VOID | T_BOOL | T_BYTE | T_DOUBLE | T_I16 | T_I32 | T_I64 | T_STRING
  | T_STRUCT | T_MAP | T_SET | T_LIST

datatype mtype = T_CALL | T_REPLY | T_EXCEPTION | T_ONEWAY

record 'p tproto =
  writeMessageBegin :: "string \<Rightarrow> mtype \<Rightarrow> int \<Rightarrow> ('p, unit) io"
  writeMessageEnd :: "('p, unit) io"
  writeStructBegin :: "string \<Rightarrow> ('p, unit) io"
  writeStructEnd :: "('p, unit) io"
  writeFieldBegin :: "string \<Rightarrow> ttype \<Rightarrow> int \<Rightarrow> ('p, unit) io"
  writeFieldEnd :: "('p, unit) io"
  writeFieldStop :: "('p, unit) io"
  writeListBegin :: "ttype \<Rightarrow> nat \<Rightarrow> ('p, unit) io"
  writeListEnd :: "('p, unit) io"
  writeI32 :: "int \<Rightarrow> ('p, unit) io"
  writeI64 :: "int \<Rightarrow> ('p, unit) io"
  writeString :: "string \<Rightarrow> ('p, unit) io"
  writeException :: "int \<Rightarrow> string \<Rightarrow> ('p, unit) io"
  writeEnd :: "('p, unit) io"
  flushT :: "('p, unit) io"
  readMessageBegin :: "('p, string \<times> mtype \<times> int) io"
  readMessageEnd :: "('p, unit) io"
  readStructBegin :: "('p, string) io"
  readStructEnd :: "('p, unit) io"
  readFieldBegin :: "('p, string \<times> ttype \<times> int) io"
  readFieldEnd :: "('p, unit) io"
  readListBegin :: "('p, ttype \<times> nat) io"
  readListEnd :: "('p, unit) io"
  readI32 :: "('p, int) io"
  readI64 :: "('p, int) io"
  readString :: "('p, string) io"
  readException :: "('p, int \<times> string) io"
  readEnd :: "('p, unit) io"
  skipT :: "ttype \<Rightarrow> ('p, unit) io"

text \<open>Codes of \<open>TProtocolException\<close> and \<open>TApplicationException\<close> that the generated code names.\<close>

definition INVALID_DATA :: int where "INVALID_DATA = 1"
definition UNKNOWN_EXCEPTION :: int where "UNKNOWN_EXCEPTION = 0"
definition UNKNOWN_METHOD :: int where "UNKNOWN_METHOD = 1"
definition BAD_SEQUENCE_ID :: int where "BAD_SEQUENCE_ID = 4"
definition MISSING_RESULT :: int where "MISSING_RESULT = 5"

subsection \<open>The shapes of the generated code\<close>

text \<open>
  \<open>while (true) { readFieldBegin; if (ftype == T_STOP) break; switch (fid) ...; readFieldEnd }\<close>.
  The loop ends when the peer sends a stop item; \<open>n\<close> bounds the number of its rounds.
\<close>

fun read_fields :: "'p tproto \<Rightarrow> (int \<Rightarrow> ttype \<Rightarrow> 'r \<Rightarrow> ('p, 'r) io) \<Rightarrow> nat \<Rightarrow> 'r \<Rightarrow> ('p, 'r) io" where
  "read_fields P sw 0 r = throwIO Out_of_fuel"
| "read_fields P sw (Suc n) r =
     bindIO (readFieldBegin P) (\<lambda>(fname, ftype, fid).
       if ftype = T_STOP then returnIO r
       else bindIO (sw fid ftype r) (\<lambda>r'.
              bindIO (readFieldEnd P) (\<lambda>_. read_fields P sw n r')))"

definition read_struct ::
  "'p tproto \<Rightarrow> nat \<Rightarrow> (int \<Rightarrow> ttype \<Rightarrow> 'r \<Rightarrow> ('p, 'r) io) \<Rightarrow> 'r \<Rightarrow> ('p, 'r) io" where
  "read_struct P n sw r =
     bindIO (readStructBegin P) (\<lambda>fname.
       bindIO (read_fields P sw n r) (\<lambda>r'.
         bindIO (readStructEnd P) (\<lambda>_. returnIO r')))"

text \<open>One case of the \<open>switch\<close>: the value is read when its type is the declared one, else skipped.\<close>

definition skip_field :: "'p tproto \<Rightarrow> ttype \<Rightarrow> 'r \<Rightarrow> ('p, 'r) io" where
  "skip_field P ftype r = bindIO (skipT P ftype) (\<lambda>_. returnIO r)"

definition read_case ::
  "'p tproto \<Rightarrow> ttype \<Rightarrow> ('p, 'v) io \<Rightarrow> ('v \<Rightarrow> 'r \<Rightarrow> 'r) \<Rightarrow> ttype \<Rightarrow> 'r \<Rightarrow> ('p, 'r) io" where
  "read_case P want rd upd ftype r =
     (if ftype = want then bindIO rd (\<lambda>v. returnIO (upd v r)) else skip_field P ftype r)"

text \<open>\<open>switch (fid) { case ...: ...; default: skip }\<close>.\<close>

definition field_switch ::
  "'p tproto \<Rightarrow> (int \<times> (ttype \<Rightarrow> 'r \<Rightarrow> ('p, 'r) io)) list \<Rightarrow> int \<Rightarrow> ttype \<Rightarrow> 'r \<Rightarrow> ('p, 'r) io" where
  "field_switch P cs fid ftype r =
     (case map_of cs fid of Some f \<Rightarrow> f ftype r | None \<Rightarrow> skip_field P ftype r)"

text \<open>A \<open>std::vector<std::string>\<close>: the element type the peer announces is not looked at.\<close>

fun read_strings :: "'p tproto \<Rightarrow> nat \<Rightarrow> ('p, string list) io" where
  "read_strings P 0 = returnIO []"
| "read_strings P (Suc n) =
     bindIO (readString P) (\<lambda>x. bindIO (read_strings P n) (\<lambda>xs. returnIO (x # xs)))"

definition readStringList :: "'p tproto \<Rightarrow> ('p, string list) io" where
  "readStringList P =
     bindIO (readListBegin P) (\<lambda>(etype, size).
       bindIO (read_strings P size) (\<lambda>xs. bindIO (readListEnd P) (\<lambda>_. returnIO xs)))"

definition writeStringList :: "'p tproto \<Rightarrow> string list \<Rightarrow> ('p, unit) io" where
  "writeStringList P xs =
     seqIO [writeListBegin P T_STRING (length xs mod 2 ^ 32), seqIO (map (writeString P) xs), writeListEnd P]"

definition writeField :: "'p tproto \<Rightarrow> string \<Rightarrow> ttype \<Rightarrow> int \<Rightarrow> ('p, unit) io \<Rightarrow> ('p, unit) io" where
  "writeField P name t i body = seqIO [writeFieldBegin P name t i, body, writeFieldEnd P]"

definition writeStruct :: "'p tproto \<Rightarrow> string \<Rightarrow> ('p, unit) io list \<Rightarrow> ('p, unit) io" where
  "writeStruct P name fs =
     seqIO [writeStructBegin P name, seqIO fs, writeFieldStop P, writeStructEnd P]"

subsection \<open>What a protocol carries\<close>

datatype tok =
    K_msg string mtype int
  | K_field ttype int
  | K_stop
  | K_list ttype nat
  | K_i32 int
  | K_i64 int
  | K_str string
  | K_exn int string

text \<open>The items the wire formats of Thrift can represent: 31-bit lengths, 16, 32 and 64-bit integers.\<close>

fun tok_ok :: "tok \<Rightarrow> bool" where
  "tok_ok (K_msg name m i) = (length name < 2 ^ 31 \<and> fits32 i)"
| "tok_ok (K_field t i) = (t \<noteq> T_STOP \<and> - (2 ^ 15) \<le> i \<and> i < 2 ^ 15)"
| "tok_ok K_stop = True"
| "tok_ok (K_list t n) = (n < 2 ^ 31)"
| "tok_ok (K_i32 x) = fits32 x"
| "tok_ok (K_i64 x) = fits64 x"
| "tok_ok (K_str s) = (length s < 2 ^ 31)"
| "tok_ok (K_exn t s) = (fits32 t \<and> length s < 2 ^ 31)"

text \<open>The items of one value of a type, for the types that occur in the service.\<close>

inductive tval :: "ttype \<Rightarrow> tok list \<Rightarrow> bool" and tfields :: "tok list \<Rightarrow> bool" where
  tval_i32: "tval T_I32 [K_i32 x]"
| tval_i64: "tval T_I64 [K_i64 x]"
| tval_str: "tval T_STRING [K_str s]"
| tval_list: "(\<And>v. v \<in> set vs \<Longrightarrow> tval t v) \<Longrightarrow> tval T_LIST (K_list t (length vs) # concat vs)"
| tval_struct: "tfields fs \<Longrightarrow> tval T_STRUCT fs"
| tfields_stop: "tfields [K_stop]"
| tfields_more: "tval t v \<Longrightarrow> tfields fs \<Longrightarrow> tfields (K_field t i # v @ fs)"

text \<open>The items of a struct, from the type, identifier and items of each of its fields.\<close>

definition struct_toks :: "(ttype \<times> int \<times> tok list) list \<Rightarrow> tok list" where
  "struct_toks fs = concat (map (\<lambda>(t, i, v). K_field t i # v) fs) @ [K_stop]"

definition strs_toks :: "string list \<Rightarrow> tok list" where
  "strs_toks xs = K_list T_STRING (length xs) # map K_str xs"

text \<open>Strings and vectors of strings that fit into a message.\<close>

definition str_ok :: "string \<Rightarrow> bool" where
  "str_ok s \<longleftrightarrow> length s < 2 ^ 31"

definition strs_ok :: "string list \<Rightarrow> bool" where
  "strs_ok xs \<longleftrightarrow> length xs < 2 ^ 31 \<and> list_all str_ok xs"

lemma str_ok_Nil [simp]: "str_ok []"
  by (simp add: str_ok_def)

text \<open>
  \<open>emits C m ts\<close>: \<open>m\<close> appends the items \<open>ts\<close> and returns.  \<open>reads C m ts Q\<close>: when \<open>ts\<close> is in front,
  \<open>m\<close> takes it off and returns a value that satisfies \<open>Q\<close>.
\<close>

definition emits :: "('p \<Rightarrow> tok list \<Rightarrow> bool) \<Rightarrow> ('p, unit) io \<Rightarrow> tok list \<Rightarrow> bool" where
  "emits C m ts \<longleftrightarrow> (\<forall>p q. C p q \<longrightarrow> (\<exists>p'. m p = (Inr (), p') \<and> C p' (q @ ts)))"

definition reads :: "('p \<Rightarrow> tok list \<Rightarrow> bool) \<Rightarrow> ('p, 'a) io \<Rightarrow> tok list \<Rightarrow> ('a \<Rightarrow> bool) \<Rightarrow> bool" where
  "reads C m ts Q \<longleftrightarrow> (\<forall>p q. C p (ts @ q) \<longrightarrow> (\<exists>x p'. m p = (Inr x, p') \<and> Q x \<and> C p' q))"

lemma emits_bind:
  assumes "emits C m a" and "\<And>u. emits C (f u) b" shows "emits C (bindIO m f) (a @ b)"
  unfolding emits_def
proof (intro allI impI)
  fix p q assume "C p q"
  then obtain p1 where p1: "m p = (Inr (), p1)" "C p1 (q @ a)"
    using assms(1) unfolding emits_def by blast
  then obtain p2 where "f () p1 = (Inr (), p2)" "C p2 ((q @ a) @ b)"
    using assms(2) unfolding emits_def by blast
  then show "\<exists>p'. bindIO m f p = (Inr (), p') \<and> C p' (q @ a @ b)"
    using p1 by (simp add: bindIO_def)
qed

lemma emits_return: "emits C (returnIO ()) []"
  by (simp add: emits_def io_simps)

lemma emits_seq: "list_all2 (emits C) ms tss \<Longrightarrow> emits C (seqIO ms) (concat tss)"
proof (induction rule: list_all2_induct)
  case Nil
  show ?case by (simp add: emits_return)
next
  case (Cons m ms t ts)
  then show ?case by (simp add: emits_bind)
qed

lemma reads_bind:
  assumes "reads C m a Q" and "\<And>x. Q x \<Longrightarrow> reads C (f x) b R" shows "reads C (bindIO m f) (a @ b) R"
  unfolding reads_def
proof (intro allI impI)
  fix p q assume "C p ((a @ b) @ q)"
  then obtain x p1 where p1: "m p = (Inr x, p1)" "Q x" "C p1 (b @ q)"
    using assms(1) unfolding reads_def by fastforce
  then obtain y p2 where "f x p1 = (Inr y, p2)" "R y" "C p2 q"
    using assms(2) unfolding reads_def by blast
  then show "\<exists>x p'. bindIO m f p = (Inr x, p') \<and> R x \<and> C p' q"
    using p1 by (simp add: bindIO_def)
qed

lemma reads_return: "Q x \<Longrightarrow> reads C (returnIO x) [] Q"
  by (simp add: reads_def io_simps)

lemma reads_then:
  assumes "reads C m a Q" and "\<And>x. Q x \<Longrightarrow> R (g x)" shows "reads C (bindIO m (\<lambda>x. returnIO (g x))) a R"
proof -
  have "reads C (bindIO m (\<lambda>x. returnIO (g x))) (a @ []) R"
    by (rule reads_bind [OF assms(1)]) (rule reads_return, rule assms(2))
  then show ?thesis by simp
qed

lemma reads_weaken: "reads C m a Q \<Longrightarrow> (\<And>x. Q x \<Longrightarrow> R x) \<Longrightarrow> reads C m a R"
  unfolding reads_def by meson

lemma emitsD: "emits C m ts \<Longrightarrow> C p q \<Longrightarrow> \<exists>p'. m p = (Inr (), p') \<and> C p' (q @ ts)"
  by (simp add: emits_def io_simps)

lemma readsD: "reads C m ts Q \<Longrightarrow> C p (ts @ q) \<Longrightarrow> \<exists>x p'. m p = (Inr x, p') \<and> Q x \<and> C p' q"
  by (simp add: reads_def io_simps)

text \<open>
  \<open>fields_read P C cs r fs r'\<close>: the cases \<open>cs\<close> turn the object \<open>r\<close> into \<open>r'\<close> when the fields \<open>fs\<close> arrive.
  A field that no case names is dropped.
\<close>

inductive fields_read ::
  "'p tproto \<Rightarrow> ('p \<Rightarrow> tok list \<Rightarrow> bool) \<Rightarrow> (int \<times> (ttype \<Rightarrow> 'r \<Rightarrow> ('p, 'r) io)) list
   \<Rightarrow> 'r \<Rightarrow> (ttype \<times> int \<times> tok list) list \<Rightarrow> 'r \<Rightarrow> bool"
  for P C cs where
  fr_nil: "fields_read P C cs r [] r"
| fr_case: "map_of cs i = Some f \<Longrightarrow> t \<noteq> T_STOP \<Longrightarrow> reads C (f t r) v (\<lambda>x. x = r1)
    \<Longrightarrow> fields_read P C cs r1 fs r' \<Longrightarrow> fields_read P C cs r ((t, i, v) # fs) r'"
| fr_skip: "map_of cs i = None \<Longrightarrow> t \<noteq> T_STOP \<Longrightarrow> tval t v \<Longrightarrow> list_all tok_ok v
    \<Longrightarrow> fields_read P C cs r fs r' \<Longrightarrow> fields_read P C cs r ((t, i, v) # fs) r'"
subsection \<open>What the generated code relies on\<close>

text \<open>
  The laws below are the documented contract of a Thrift protocol: what is written on one side is
  read on the other, in order; the names of structs and fields need not travel; the begin and end
  calls that carry no data of their own leave the stream as it is.
\<close>

locale thrift_protocol =
  fixes P :: "'p tproto" and C :: "'p \<Rightarrow> tok list \<Rightarrow> bool"
  assumes w_message: "tok_ok (K_msg nm m i) \<Longrightarrow> emits C (writeMessageBegin P nm m i) [K_msg nm m i]"
    and w_message_end: "emits C (writeMessageEnd P) []"
    and w_struct: "emits C (writeStructBegin P nm) []"
    and w_struct_end: "emits C (writeStructEnd P) []"
    and w_field: "tok_ok (K_field t i) \<Longrightarrow> emits C (writeFieldBegin P nm t i) [K_field t i]"
    and w_field_end: "emits C (writeFieldEnd P) []"
    and w_stop: "emits C (writeFieldStop P) [K_stop]"
    and w_list: "tok_ok (K_list t k) \<Longrightarrow> emits C (writeListBegin P t k) [K_list t k]"
    and w_list_end: "emits C (writeListEnd P) []"
    and w_i32: "tok_ok (K_i32 x) \<Longrightarrow> emits C (writeI32 P x) [K_i32 x]"
    and w_i64: "tok_ok (K_i64 x) \<Longrightarrow> emits C (writeI64 P x) [K_i64 x]"
    and w_string: "tok_ok (K_str s) \<Longrightarrow> emits C (writeString P s) [K_str s]"
    and w_exception: "tok_ok (K_exn x s) \<Longrightarrow> emits C (writeException P x s) [K_exn x s]"
    and w_end: "emits C (writeEnd P) []"
    and w_flush: "emits C (flushT P) []"
    and r_message: "reads C (readMessageBegin P) [K_msg nm m i] (\<lambda>v. v = (nm, m, i))"
    and r_message_end: "reads C (readMessageEnd P) [] (\<lambda>_. True)"
    and r_struct: "reads C (readStructBegin P) [] (\<lambda>_. True)"
    and r_struct_end: "reads C (readStructEnd P) [] (\<lambda>_. True)"
    and r_field: "reads C (readFieldBegin P) [K_field t i] (\<lambda>(nm, t', i'). t' = t \<and> i' = i)"
    and r_stop: "reads C (readFieldBegin P) [K_stop] (\<lambda>(nm, t', i'). t' = T_STOP)"
    and r_field_end: "reads C (readFieldEnd P) [] (\<lambda>_. True)"
    and r_list: "reads C (readListBegin P) [K_list t k] (\<lambda>v. v = (t, k))"
    and r_list_end: "reads C (readListEnd P) [] (\<lambda>_. True)"
    and r_i32: "reads C (readI32 P) [K_i32 x] (\<lambda>v. v = x)"
    and r_i64: "reads C (readI64 P) [K_i64 x] (\<lambda>v. v = x)"
    and r_string: "reads C (readString P) [K_str s] (\<lambda>v. v = s)"
    and r_exception: "reads C (readException P) [K_exn x s] (\<lambda>v. v = (x, s))"
    and r_end: "reads C (readEnd P) [] (\<lambda>_. True)"
    and r_skip: "tval t v \<Longrightarrow> list_all tok_ok v \<Longrightarrow> reads C (skipT P t) v (\<lambda>_. True)"
    and carried_ok: "C p ts \<Longrightarrow> list_all tok_ok ts"
begin

text \<open>A list of strings, a field and a struct as items.\<close>

lemma emits_strings:
  assumes "\<And>s. s \<in> set xs \<Longrightarrow> length s < 2 ^ 31"
  shows "emits C (seqIO (map (writeString P) xs)) (map K_str xs)"
proof -
  have "list_all2 (emits C) (map (writeString P) xs) (map (\<lambda>s. [K_str s]) xs)"
    using assms by (auto simp: list_all2_conv_all_nth intro: w_string)
  then have "emits C (seqIO (map (writeString P) xs)) (concat (map (\<lambda>s. [K_str s]) xs))"
    by (rule emits_seq)
  then show ?thesis by (simp add: concat_map_singleton)
qed

lemma emits_string_list:
  assumes "length xs < 2 ^ 31" and "\<And>s. s \<in> set xs \<Longrightarrow> length s < 2 ^ 31"
  shows "emits C (writeStringList P xs) (K_list T_STRING (length xs) # map K_str xs)"
proof -
  have "list_all2 (emits C)
      [writeListBegin P T_STRING (length xs mod 2 ^ 32), seqIO (map (writeString P) xs), writeListEnd P]
      [[K_list T_STRING (length xs)], map K_str xs, []]"
    using assms w_list [of T_STRING "length xs"] emits_strings [of xs] w_list_end by simp
  from emits_seq [OF this] show ?thesis by (simp add: writeStringList_def)
qed

lemma emits_field:
  assumes "emits C body v" and "tok_ok (K_field t i)"
  shows "emits C (writeField P nm t i body) (K_field t i # v)"
proof -
  have "list_all2 (emits C) [writeFieldBegin P nm t i, body, writeFieldEnd P] [[K_field t i], v, []]"
    using assms w_field w_field_end by simp
  from emits_seq [OF this] show ?thesis by (simp add: writeField_def)
qed

lemma emits_struct:
  assumes "list_all2 (emits C) ms tss"
  shows "emits C (writeStruct P nm ms) (concat tss @ [K_stop])"
proof -
  have "list_all2 (emits C) [writeStructBegin P nm, seqIO ms, writeFieldStop P, writeStructEnd P]
      [[], concat tss, [K_stop], []]"
    using assms w_struct w_stop w_struct_end by (simp add: emits_seq)
  from emits_seq [OF this] show ?thesis by (simp add: writeStruct_def)
qed

lemma reads_strings: "reads C (read_strings P (length xs)) (map K_str xs) (\<lambda>v. v = xs)"
proof (induction xs)
  case Nil
  show ?case by (simp add: reads_return)
next
  case (Cons x xs)
  have "reads C (bindIO (readString P) (\<lambda>x. bindIO (read_strings P (length xs)) (\<lambda>xs. returnIO (x # xs))))
      ([K_str x] @ map K_str xs) (\<lambda>v. v = x # xs)"
    by (rule reads_bind [OF r_string]) (rule reads_then [OF Cons.IH], simp)
  then show ?case by simp
qed

lemma reads_string_list:
  "reads C (readStringList P) (K_list t (length xs) # map K_str xs) (\<lambda>v. v = xs)"
proof -
  have "reads C (bindIO (readListEnd P) (\<lambda>_. returnIO xs)) [] (\<lambda>v. v = xs)"
    by (rule reads_then [OF r_list_end]) simp
  then have "reads C (bindIO (read_strings P (length xs)) (\<lambda>xs. bindIO (readListEnd P) (\<lambda>_. returnIO xs)))
      (map K_str xs @ []) (\<lambda>v. v = xs)"
    by (intro reads_bind [OF reads_strings]) simp
  then have "reads C (readStringList P) ([K_list t (length xs)] @ map K_str xs) (\<lambda>v. v = xs)"
    unfolding readStringList_def by (intro reads_bind [OF r_list]) simp
  then show ?thesis by simp
qed

text \<open>The field loop: a stop ends it, a field is handed to the \<open>switch\<close>.\<close>

lemma reads_fields_stop: "reads C (read_fields P sw (Suc n) r) [K_stop] (\<lambda>x. x = r)"
proof -
  have "reads C (read_fields P sw (Suc n) r) ([K_stop] @ []) (\<lambda>x. x = r)"
    unfolding read_fields.simps by (rule reads_bind [OF r_stop]) (auto intro: reads_return)
  then show ?thesis by simp
qed

lemma reads_fields_step:
  assumes "t \<noteq> T_STOP" and "reads C (sw i t r) v (\<lambda>x. x = r')"
    and "reads C (read_fields P sw n r') rest Q"
  shows "reads C (read_fields P sw (Suc n) r) (K_field t i # v @ rest) Q"
proof -
  have "reads C (bindIO (readFieldEnd P) (\<lambda>_. read_fields P sw n r')) ([] @ rest) Q"
    by (rule reads_bind [OF r_field_end]) (rule assms(3))
  then have a: "reads C (bindIO (sw i t r) (\<lambda>r'. bindIO (readFieldEnd P) (\<lambda>_. read_fields P sw n r')))
      (v @ rest) Q"
    by (intro reads_bind [OF assms(2)]) simp
  have "reads C (read_fields P sw (Suc n) r) ([K_field t i] @ (v @ rest)) Q"
    unfolding read_fields.simps by (rule reads_bind [OF r_field]) (use a assms(1) in auto)
  then show ?thesis by simp
qed

lemma reads_struct:
  assumes "reads C (read_fields P sw n r) ts Q"
  shows "reads C (read_struct P n sw r) ts Q"
proof -
  have e: "reads C (bindIO (readStructEnd P) (\<lambda>_. returnIO r')) [] Q" if "Q r'" for r'
    by (rule reads_then [OF r_struct_end]) (rule that)
  have "reads C (bindIO (read_fields P sw n r) (\<lambda>r'. bindIO (readStructEnd P) (\<lambda>_. returnIO r'))) (ts @ []) Q"
    by (rule reads_bind [OF assms]) (rule e)
  then have "reads C (read_struct P n sw r) ([] @ ts) Q"
    unfolding read_struct_def by (intro reads_bind [OF r_struct]) simp
  then show ?thesis by simp
qed

lemma reads_case:
  assumes "reads C rd v (\<lambda>x. x = y)"
  shows "reads C (read_case P t rd upd t r) v (\<lambda>x. x = upd y r)"
  unfolding read_case_def by (simp, rule reads_then [OF assms], simp)

lemma reads_skip_field:
  assumes "tval t v" and "list_all tok_ok v"
  shows "reads C (skip_field P t r) v (\<lambda>x. x = r)"
  unfolding skip_field_def by (rule reads_then [OF r_skip [OF assms]]) simp

lemma reads_wrong_type:
  assumes "tval t v" and "list_all tok_ok v" and "t \<noteq> want"
  shows "reads C (read_case P want rd upd t r) v (\<lambda>x. x = r)"
  using reads_skip_field [OF assms(1,2)] assms(3) by (simp add: read_case_def)

lemma reads_fields:
  "fields_read P C cs r fs r' \<Longrightarrow> length fs < n
   \<Longrightarrow> reads C (read_fields P (field_switch P cs) n r) (struct_toks fs) (\<lambda>x. x = r')"
proof (induction arbitrary: n rule: fields_read.induct)
  case (fr_nil r)
  then obtain m where "n = Suc m" by (cases n) auto
  then show ?case by (simp add: struct_toks_def reads_fields_stop del: read_fields.simps)
next
  case (fr_case i f t r v r1 fs r')
  then obtain m where n: "n = Suc m" "length fs < m" by (cases n) auto
  have "reads C (field_switch P cs i t r) v (\<lambda>x. x = r1)"
    using fr_case.hyps by (simp add: field_switch_def)
  from reads_fields_step [where n = m, OF fr_case.hyps(2) this fr_case.IH [OF n(2)]]
  show ?case by (simp add: struct_toks_def n del: read_fields.simps)
next
  case (fr_skip i t v r fs r')
  then obtain m where n: "n = Suc m" "length fs < m" by (cases n) auto
  have "reads C (field_switch P cs i t r) v (\<lambda>x. x = r)"
    using fr_skip.hyps by (simp add: field_switch_def reads_skip_field)
  from reads_fields_step [where n = m, OF fr_skip.hyps(2) this fr_skip.IH [OF n(2)]]
  show ?case by (simp add: struct_toks_def n del: read_fields.simps)
qed

lemma fr_done: "r = r' \<Longrightarrow> fields_read P C cs r [] r'"
  by (simp add: fr_nil)

lemma fr_value:
  assumes "map_of cs i = Some (read_case P t rd upd)" and "t \<noteq> T_STOP" and "reads C rd v (\<lambda>x. x = y)"
    and "fields_read P C cs (upd y r) fs r'"
  shows "fields_read P C cs r ((t, i, v) # fs) r'"
  using assms(1,2) reads_case [OF assms(3)] assms(4) by (rule fr_case)

lemma fr_value_at:
  assumes "map_of cs i = Some (\<lambda>ft r. read_case P t (rd r) upd ft r)" and "t \<noteq> T_STOP"
    and "reads C (rd r) v (\<lambda>x. x = y)" and "fields_read P C cs (upd y r) fs r'"
  shows "fields_read P C cs r ((t, i, v) # fs) r'"
  using assms(1,2) reads_case [OF assms(3)] assms(4) by (rule fr_case)

text \<open>Fields arrive one after the other; a run of fields that no case names changes nothing.\<close>

lemma fields_read_append:
  "fields_read P C cs r fs r1 \<Longrightarrow> fields_read P C cs r1 gs r2 \<Longrightarrow> fields_read P C cs r (fs @ gs) r2"
  by (induction rule: fields_read.induct) (auto intro: fr_case fr_skip)

lemma fields_read_unknown:
  assumes "\<forall>(t, i, v) \<in> set xs. map_of cs i = None \<and> t \<noteq> T_STOP \<and> tval t v \<and> list_all tok_ok v"
  shows "fields_read P C cs r xs r"
  using assms
proof (induction xs)
  case (Cons x xs)
  then show ?case by (cases x) (auto intro: fr_skip)
qed (simp add: fr_nil)

lemma reads_struct_fields:
  "fields_read P C cs r fs r' \<Longrightarrow> length fs < n
   \<Longrightarrow> reads C (read_struct P n (field_switch P cs) r) (struct_toks fs) (\<lambda>x. x = r')"
  by (rule reads_struct, rule reads_fields)

lemma emits_struct_fields:
  assumes "list_all2 (\<lambda>m (t, i, v). emits C m (K_field t i # v)) ms fs"
  shows "emits C (writeStruct P nm ms) (struct_toks fs)"
proof -
  have "list_all2 (emits C) ms (map (\<lambda>(t, i, v). K_field t i # v) fs)"
    using assms by (auto simp: list_all2_conv_all_nth split_beta)
  then show ?thesis using emits_struct [of ms _ nm] by (simp add: struct_toks_def)
qed

text \<open>Fields of the types the service uses.\<close>

lemma w_i32_field [simp]:
  "fits32 x \<Longrightarrow> tok_ok (K_field T_I32 i) \<Longrightarrow> emits C (writeField P nm T_I32 i (writeI32 P x)) [K_field T_I32 i, K_i32 x]"
  by (rule emits_field) (simp_all add: w_i32)

lemma w_i64_field [simp]:
  "fits64 x \<Longrightarrow> tok_ok (K_field T_I64 i) \<Longrightarrow> emits C (writeField P nm T_I64 i (writeI64 P x)) [K_field T_I64 i, K_i64 x]"
  by (rule emits_field) (simp_all add: w_i64)

lemma w_string_field [simp]:
  "str_ok s \<Longrightarrow> tok_ok (K_field T_STRING i)
   \<Longrightarrow> emits C (writeField P nm T_STRING i (writeString P s)) [K_field T_STRING i, K_str s]"
  by (rule emits_field) (simp_all add: w_string str_ok_def)

lemma w_strings_field [simp]:
  "strs_ok xs \<Longrightarrow> tok_ok (K_field T_LIST i)
   \<Longrightarrow> emits C (writeField P nm T_LIST i (writeStringList P xs)) (K_field T_LIST i # strs_toks xs)"
  unfolding strs_toks_def strs_ok_def
  by (rule emits_field, rule emits_string_list) (auto simp: list_all_iff str_ok_def)

lemmas reads_value = r_i32 r_i64 r_string reads_string_list [of T_STRING, folded strs_toks_def]

end

end
