(* ===== verification/Thrift_Structs.thy ===== *)
theory Thrift_Structs
  imports Thrift_Protocol
begin

text \<open>
  The generated data classes of the service: \<open>sequence_id\<close> (\<open>proxy_types.cpp\<close>), the argument and
  result classes of the eleven methods (\<open>waffle_thrift.cpp\<close>, \<open>waffle_thrift.h\<close>) and of the response
  channel (\<open>waffle_thrift_response.cpp\<close>).  Each class is a record with its members and its \<open>__isset\<close>
  bits; \<open>_init\<close> is its constructor, \<open>_eq\<close> its \<open>operator==\<close>, which does not look at the bits.  The
  \<open>pargs\<close> classes hold pointers to the caller's arguments, so their \<open>write\<close> takes the values; a
  \<open>presult\<close> holds a pointer to the caller's variable, whose content is the \<open>success\<close> member here.
  Byte counts (\<open>xfer\<close>) and recursion trackers are left out.
\<close>

subsection \<open>\<open>sequence_id\<close>\<close>

record sequence_id =
  client_id :: int
  client_seq_no :: int
  server_seq_no :: int

definition sequence_id_init :: sequence_id where
  "sequence_id_init = \<lparr> client_id = 0, client_seq_no = 0, server_seq_no = 0 \<rparr>"

definition sequence_id_set_client_id :: "int \<Rightarrow> sequence_id \<Rightarrow> sequence_id" where
  "sequence_id_set_client_id val s = s\<lparr>client_id := val\<rparr>"

definition sequence_id_set_client_seq_no :: "int \<Rightarrow> sequence_id \<Rightarrow> sequence_id" where
  "sequence_id_set_client_seq_no val s = s\<lparr>client_seq_no := val\<rparr>"

definition sequence_id_set_server_seq_no :: "int \<Rightarrow> sequence_id \<Rightarrow> sequence_id" where
  "sequence_id_set_server_seq_no val s = s\<lparr>server_seq_no := val\<rparr>"

definition sequence_id_eq :: "sequence_id \<Rightarrow> sequence_id \<Rightarrow> bool" where
  "sequence_id_eq a b \<longleftrightarrow>
     client_id a = client_id b \<and> client_seq_no a = client_seq_no b \<and> server_seq_no a = server_seq_no b"

definition sequence_id_swap :: "sequence_id \<Rightarrow> sequence_id \<Rightarrow> sequence_id \<times> sequence_id" where
  "sequence_id_swap a b =
     (\<lparr> client_id = client_id b, client_seq_no = client_seq_no b, server_seq_no = server_seq_no b \<rparr>,
      \<lparr> client_id = client_id a, client_seq_no = client_seq_no a, server_seq_no = server_seq_no a \<rparr>)"

text \<open>The three local flags of \<open>sequence_id::read\<close> travel with the object; all must be set at the end.\<close>

definition sequence_id_cases ::
  "'p tproto \<Rightarrow> (int \<times> (ttype \<Rightarrow> sequence_id \<times> bool \<times> bool \<times> bool
     \<Rightarrow> ('p, sequence_id \<times> bool \<times> bool \<times> bool) io)) list" where
  "sequence_id_cases P =
     [(1, read_case P T_I64 (readI64 P) (\<lambda>v (s, b1, b2, b3). (s\<lparr>client_id := v\<rparr>, True, b2, b3))),
      (2, read_case P T_I64 (readI64 P) (\<lambda>v (s, b1, b2, b3). (s\<lparr>client_seq_no := v\<rparr>, b1, True, b3))),
      (3, read_case P T_I64 (readI64 P) (\<lambda>v (s, b1, b2, b3). (s\<lparr>server_seq_no := v\<rparr>, b1, b2, True)))]"

definition sequence_id_read :: "'p tproto \<Rightarrow> nat \<Rightarrow> sequence_id \<Rightarrow> ('p, sequence_id) io" where
  "sequence_id_read P n s0 =
     bindIO (read_struct P n (field_switch P (sequence_id_cases P)) (s0, False, False, False))
     (\<lambda>(s, isset_client_id, isset_client_seq_no, isset_server_seq_no).
       if \<not> isset_client_id then throwIO (Protocol_error INVALID_DATA)
       else if \<not> isset_client_seq_no then throwIO (Protocol_error INVALID_DATA)
       else if \<not> isset_server_seq_no then throwIO (Protocol_error INVALID_DATA)
       else returnIO s)"

definition sequence_id_write :: "'p tproto \<Rightarrow> sequence_id \<Rightarrow> ('p, unit) io" where
  "sequence_id_write P s =
     writeStruct P ''sequence_id''
       [writeField P ''client_id'' T_I64 1 (writeI64 P (client_id s)),
        writeField P ''client_seq_no'' T_I64 2 (writeI64 P (client_seq_no s)),
        writeField P ''server_seq_no'' T_I64 3 (writeI64 P (server_seq_no s))]"

definition sequence_id_toks :: "sequence_id \<Rightarrow> tok list" where
  "sequence_id_toks s = struct_toks
     [(T_I64, 1, [K_i64 (client_id s)]), (T_I64, 2, [K_i64 (client_seq_no s)]),
      (T_I64, 3, [K_i64 (server_seq_no s)])]"

definition sequence_id_ok :: "sequence_id \<Rightarrow> bool" where
  "sequence_id_ok s \<longleftrightarrow> fits64 (client_id s) \<and> fits64 (client_seq_no s) \<and> fits64 (server_seq_no s)"

lemma sequence_id_overwritten [simp]:
  "s0\<lparr>client_id := client_id s, client_seq_no := client_seq_no s, server_seq_no := server_seq_no s\<rparr> = (s :: sequence_id)"
  by (cases s0, cases s) simp

subsection \<open>\<open>get_client_id\<close>\<close>

subsubsection \<open>\<open>waffle_thrift_get_client_id_args\<close>\<close>

type_synonym waffle_thrift_get_client_id_args = unit

definition waffle_thrift_get_client_id_args_read ::
  "'p tproto \<Rightarrow> nat \<Rightarrow> waffle_thrift_get_client_id_args \<Rightarrow> ('p, waffle_thrift_get_client_id_args) io" where
  "waffle_thrift_get_client_id_args_read P n =
     read_struct P n (field_switch P
       [])"

definition waffle_thrift_get_client_id_args_write ::
  "'p tproto \<Rightarrow> waffle_thrift_get_client_id_args \<Rightarrow> ('p, unit) io" where
  "waffle_thrift_get_client_id_args_write P a =
     writeStruct P ''waffle_thrift_get_client_id_args''
       []"

definition waffle_thrift_get_client_id_pargs_write :: "'p tproto \<Rightarrow> ('p, unit) io" where
  "waffle_thrift_get_client_id_pargs_write P =
     writeStruct P ''waffle_thrift_get_client_id_pargs''
       []"

definition get_client_id_args_toks :: "tok list" where
  "get_client_id_args_toks = struct_toks []"

subsubsection \<open>\<open>waffle_thrift_get_client_id_result\<close>\<close>

record waffle_thrift_get_client_id_result =
  get_client_id_result_success :: "int"
  get_client_id_result_isset_success :: bool

definition waffle_thrift_get_client_id_result_init :: waffle_thrift_get_client_id_result where
  "waffle_thrift_get_client_id_result_init = \<lparr> get_client_id_result_success = 0,
      get_client_id_result_isset_success = False \<rparr>"

definition waffle_thrift_get_client_id_result_eq ::
  "waffle_thrift_get_client_id_result \<Rightarrow> waffle_thrift_get_client_id_result \<Rightarrow> bool" where
  "waffle_thrift_get_client_id_result_eq a b \<longleftrightarrow> get_client_id_result_success a = get_client_id_result_success b"

type_synonym waffle_thrift_get_client_id_presult = waffle_thrift_get_client_id_result

definition waffle_thrift_get_client_id_result_read ::
  "'p tproto \<Rightarrow> nat \<Rightarrow> waffle_thrift_get_client_id_result \<Rightarrow> ('p, waffle_thrift_get_client_id_result) io" where
  "waffle_thrift_get_client_id_result_read P n =
     read_struct P n (field_switch P
       [(0, read_case P T_I64 (readI64 P) (\<lambda>v a. a\<lparr>get_client_id_result_success := v,
           get_client_id_result_isset_success := True\<rparr>))])"

definition waffle_thrift_get_client_id_result_write ::
  "'p tproto \<Rightarrow> waffle_thrift_get_client_id_result \<Rightarrow> ('p, unit) io" where
  "waffle_thrift_get_client_id_result_write P a =
     writeStruct P ''waffle_thrift_get_client_id_result''
       [if get_client_id_result_isset_success a then
           writeField P ''success'' T_I64 0 (writeI64 P (get_client_id_result_success a)) else returnIO ()]"

definition waffle_thrift_get_client_id_presult_read ::
  "'p tproto \<Rightarrow> nat \<Rightarrow> waffle_thrift_get_client_id_presult \<Rightarrow> ('p, waffle_thrift_get_client_id_presult) io" where
  "waffle_thrift_get_client_id_presult_read P n =
     read_struct P n (field_switch P
       [(0, read_case P T_I64 (readI64 P) (\<lambda>v a. a\<lparr>get_client_id_result_success := v,
           get_client_id_result_isset_success := True\<rparr>))])"

definition get_client_id_result_toks :: "int \<Rightarrow> tok list" where
  "get_client_id_result_toks success = struct_toks [(T_I64, 0, [K_i64 success])]"

subsection \<open>\<open>register_client_id\<close>\<close>

subsubsection \<open>\<open>waffle_thrift_register_client_id_args\<close>\<close>

record waffle_thrift_register_client_id_args =
  register_client_id_args_block_id :: "int"
  register_client_id_args_client_id :: "int"
  register_client_id_args_isset_block_id :: bool
  register_client_id_args_isset_client_id :: bool

definition waffle_thrift_register_client_id_args_init :: waffle_thrift_register_client_id_args where
  "waffle_thrift_register_client_id_args_init = \<lparr> register_client_id_args_block_id = 0,
      register_client_id_args_client_id = 0, register_client_id_args_isset_block_id = False,
          register_client_id_args_isset_client_id = False \<rparr>"

definition waffle_thrift_register_client_id_args_eq ::
  "waffle_thrift_register_client_id_args \<Rightarrow> waffle_thrift_register_client_id_args \<Rightarrow> bool" where
  "waffle_thrift_register_client_id_args_eq a b \<longleftrightarrow> register_client_id_args_block_id a = register_client_id_args_block_id b \<and> register_client_id_args_client_id a = register_client_id_args_client_id b"

definition waffle_thrift_register_client_id_args_read ::
  "'p tproto \<Rightarrow> nat \<Rightarrow> waffle_thrift_register_client_id_args \<Rightarrow> ('p, waffle_thrift_register_client_id_args) io" where
  "waffle_thrift_register_client_id_args_read P n =
     read_struct P n (field_switch P
       [(1, read_case P T_I32 (readI32 P) (\<lambda>v a. a\<lparr>register_client_id_args_block_id := v,
           register_client_id_args_isset_block_id := True\<rparr>)),
        (2, read_case P T_I64 (readI64 P) (\<lambda>v a. a\<lparr>register_client_id_args_client_id := v,
            register_client_id_args_isset_client_id := True\<rparr>))])"

definition waffle_thrift_register_client_id_args_write ::
  "'p tproto \<Rightarrow> waffle_thrift_register_client_id_args \<Rightarrow> ('p, unit) io" where
  "waffle_thrift_register_client_id_args_write P a =
     writeStruct P ''waffle_thrift_register_client_id_args''
       [writeField P ''block_id'' T_I32 1 (writeI32 P (register_client_id_args_block_id a)),
        writeField P ''client_id'' T_I64 2 (writeI64 P (register_client_id_args_client_id a))]"

definition waffle_thrift_register_client_id_pargs_write ::
  "'p tproto \<Rightarrow> int \<Rightarrow> int \<Rightarrow> ('p, unit) io" where
  "waffle_thrift_register_client_id_pargs_write P blk cid =
     writeStruct P ''waffle_thrift_register_client_id_pargs''
       [writeField P ''block_id'' T_I32 1 (writeI32 P blk),
        writeField P ''client_id'' T_I64 2 (writeI64 P cid)]"

definition register_client_id_args_toks :: "int \<Rightarrow> int \<Rightarrow> tok list" where
  "register_client_id_args_toks blk cid = struct_toks [(T_I32, 1, [K_i32 blk]), (T_I64, 2, [K_i64 cid])]"

subsubsection \<open>\<open>waffle_thrift_register_client_id_result\<close>\<close>

type_synonym waffle_thrift_register_client_id_result = unit

type_synonym waffle_thrift_register_client_id_presult = waffle_thrift_register_client_id_result

definition waffle_thrift_register_client_id_result_read ::
  "'p tproto \<Rightarrow> nat \<Rightarrow> waffle_thrift_register_client_id_result \<Rightarrow> ('p, waffle_thrift_register_client_id_result) io" where
  "waffle_thrift_register_client_id_result_read P n =
     read_struct P n (field_switch P
       [])"

definition waffle_thrift_register_client_id_result_write ::
  "'p tproto \<Rightarrow> waffle_thrift_register_client_id_result \<Rightarrow> ('p, unit) io" where
  "waffle_thrift_register_client_id_result_write P a =
     writeStruct P ''waffle_thrift_register_client_id_result''
       []"

definition waffle_thrift_register_client_id_presult_read ::
  "'p tproto \<Rightarrow> nat \<Rightarrow> waffle_thrift_register_client_id_presult \<Rightarrow> ('p, waffle_thrift_register_client_id_presult) io" where
  "waffle_thrift_register_client_id_presult_read P n =
     read_struct P n (field_switch P
       [])"

definition register_client_id_result_toks :: "tok list" where
  "register_client_id_result_toks = struct_toks []"

subsection \<open>\<open>async_get\<close>\<close>

subsubsection \<open>\<open>waffle_thrift_async_get_args\<close>\<close>

record waffle_thrift_async_get_args =
  async_get_args_seq_id :: "sequence_id"
  async_get_args_key :: "string"
  async_get_args_isset_seq_id :: bool
  async_get_args_isset_key :: bool

definition waffle_thrift_async_get_args_init :: waffle_thrift_async_get_args where
  "waffle_thrift_async_get_args_init = \<lparr> async_get_args_seq_id = sequence_id_init,
      async_get_args_key = [], async_get_args_isset_seq_id = False, async_get_args_isset_key = False \<rparr>"

definition waffle_thrift_async_get_args_eq ::
  "waffle_thrift_async_get_args \<Rightarrow> waffle_thrift_async_get_args \<Rightarrow> bool" where
  "waffle_thrift_async_get_args_eq a b \<longleftrightarrow> async_get_args_seq_id a = async_get_args_seq_id b \<and>
      async_get_args_key a = async_get_args_key b"

definition waffle_thrift_async_get_args_read ::
  "'p tproto \<Rightarrow> nat \<Rightarrow> waffle_thrift_async_get_args \<Rightarrow> ('p, waffle_thrift_async_get_args) io" where
  "waffle_thrift_async_get_args_read P n =
     read_struct P n (field_switch P
       [(1, \<lambda>ftype a. read_case P T_STRUCT (sequence_id_read P n (async_get_args_seq_id a)) (\<lambda>v a. a\<lparr>async_get_args_seq_id := v, async_get_args_isset_seq_id := True\<rparr>) ftype a),
        (2, read_case P T_STRING (readString P) (\<lambda>v a. a\<lparr>async_get_args_key := v,
            async_get_args_isset_key := True\<rparr>))])"

definition waffle_thrift_async_get_args_write ::
  "'p tproto \<Rightarrow> waffle_thrift_async_get_args \<Rightarrow> ('p, unit) io" where
  "waffle_thrift_async_get_args_write P a =
     writeStruct P ''waffle_thrift_async_get_args''
       [writeField P ''seq_id'' T_STRUCT 1 (sequence_id_write P (async_get_args_seq_id a)),
        writeField P ''key'' T_STRING 2 (writeString P (async_get_args_key a))]"

definition waffle_thrift_async_get_pargs_write ::
  "'p tproto \<Rightarrow> sequence_id \<Rightarrow> string \<Rightarrow> ('p, unit) io" where
  "waffle_thrift_async_get_pargs_write P sq key =
     writeStruct P ''waffle_thrift_async_get_pargs''
       [writeField P ''seq_id'' T_STRUCT 1 (sequence_id_write P sq),
        writeField P ''key'' T_STRING 2 (writeString P key)]"

definition async_get_args_toks :: "sequence_id \<Rightarrow> string \<Rightarrow> tok list" where
  "async_get_args_toks sq key = struct_toks [(T_STRUCT, 1, sequence_id_toks sq), (T_STRING, 2,
      [K_str key])]"

subsection \<open>\<open>async_put\<close>\<close>

subsubsection \<open>\<open>waffle_thrift_async_put_args\<close>\<close>

record waffle_thrift_async_put_args =
  async_put_args_seq_id :: "sequence_id"
  async_put_args_key :: "string"
  async_put_args_value :: "string"
  async_put_args_isset_seq_id :: bool
  async_put_args_isset_key :: bool
  async_put_args_isset_value :: bool

definition waffle_thrift_async_put_args_init :: waffle_thrift_async_put_args where
  "waffle_thrift_async_put_args_init = \<lparr> async_put_args_seq_id = sequence_id_init,
      async_put_args_key = [], async_put_args_value = [], async_put_args_isset_seq_id = False,
          async_put_args_isset_key = False, async_put_args_isset_value = False \<rparr>"

definition waffle_thrift_async_put_args_eq ::
  "waffle_thrift_async_put_args \<Rightarrow> waffle_thrift_async_put_args \<Rightarrow> bool" where
  "waffle_thrift_async_put_args_eq a b \<longleftrightarrow> async_put_args_seq_id a = async_put_args_seq_id b \<and>
      async_put_args_key a = async_put_args_key b \<and> async_put_args_value a = async_put_args_value b"

definition waffle_thrift_async_put_args_read ::
  "'p tproto \<Rightarrow> nat \<Rightarrow> waffle_thrift_async_put_args \<Rightarrow> ('p, waffle_thrift_async_put_args) io" where
  "waffle_thrift_async_put_args_read P n =
     read_struct P n (field_switch P
       [(1, \<lambda>ftype a. read_case P T_STRUCT (sequence_id_read P n (async_put_args_seq_id a)) (\<lambda>v a. a\<lparr>async_put_args_seq_id := v, async_put_args_isset_seq_id := True\<rparr>) ftype a),
        (2, read_case P T_STRING (readString P) (\<lambda>v a. a\<lparr>async_put_args_key := v,
            async_put_args_isset_key := True\<rparr>)),
        (3, read_case P T_STRING (readString P) (\<lambda>v a. a\<lparr>async_put_args_value := v,
            async_put_args_isset_value := True\<rparr>))])"

definition waffle_thrift_async_put_args_write ::
  "'p tproto \<Rightarrow> waffle_thrift_async_put_args \<Rightarrow> ('p, unit) io" where
  "waffle_thrift_async_put_args_write P a =
     writeStruct P ''waffle_thrift_async_put_args''
       [writeField P ''seq_id'' T_STRUCT 1 (sequence_id_write P (async_put_args_seq_id a)),
        writeField P ''key'' T_STRING 2 (writeString P (async_put_args_key a)),
        writeField P ''value'' T_STRING 3 (writeString P (async_put_args_value a))]"

definition waffle_thrift_async_put_pargs_write ::
  "'p tproto \<Rightarrow> sequence_id \<Rightarrow> string \<Rightarrow> string \<Rightarrow> ('p, unit) io" where
  "waffle_thrift_async_put_pargs_write P sq key value =
     writeStruct P ''waffle_thrift_async_put_pargs''
       [writeField P ''seq_id'' T_STRUCT 1 (sequence_id_write P sq),
        writeField P ''key'' T_STRING 2 (writeString P key),
        writeField P ''value'' T_STRING 3 (writeString P value)]"

definition async_put_args_toks :: "sequence_id \<Rightarrow> string \<Rightarrow> string \<Rightarrow> tok list" where
  "async_put_args_toks sq key value = struct_toks [(T_STRUCT, 1, sequence_id_toks sq), (T_STRING, 2,
      [K_str key]), (T_STRING, 3, [K_str value])]"

subsection \<open>\<open>async_get_batch\<close>\<close>

subsubsection \<open>\<open>waffle_thrift_async_get_batch_args\<close>\<close>

record waffle_thrift_async_get_batch_args =
  async_get_batch_args_seq_id :: "sequence_id"
  async_get_batch_args_keys :: "string list"
  async_get_batch_args_isset_seq_id :: bool
  async_get_batch_args_isset_keys :: bool

definition waffle_thrift_async_get_batch_args_init :: waffle_thrift_async_get_batch_args where
  "waffle_thrift_async_get_batch_args_init = \<lparr> async_get_batch_args_seq_id = sequence_id_init,
      async_get_batch_args_keys = [], async_get_batch_args_isset_seq_id = False,
          async_get_batch_args_isset_keys = False \<rparr>"

definition waffle_thrift_async_get_batch_args_eq ::
  "waffle_thrift_async_get_batch_args \<Rightarrow> waffle_thrift_async_get_batch_args \<Rightarrow> bool" where
  "waffle_thrift_async_get_batch_args_eq a b \<longleftrightarrow> async_get_batch_args_seq_id a = async_get_batch_args_seq_id b \<and> async_get_batch_args_keys a = async_get_batch_args_keys b"

definition waffle_thrift_async_get_batch_args_read ::
  "'p tproto \<Rightarrow> nat \<Rightarrow> waffle_thrift_async_get_batch_args \<Rightarrow> ('p, waffle_thrift_async_get_batch_args) io" where
  "waffle_thrift_async_get_batch_args_read P n =
     read_struct P n (field_switch P
       [(1, \<lambda>ftype a. read_case P T_STRUCT (sequence_id_read P n (async_get_batch_args_seq_id a)) (\<lambda>v a. a\<lparr>async_get_batch_args_seq_id := v, async_get_batch_args_isset_seq_id := True\<rparr>) ftype a),
        (2, read_case P T_LIST (readStringList P) (\<lambda>v a. a\<lparr>async_get_batch_args_keys := v,
            async_get_batch_args_isset_keys := True\<rparr>))])"

definition waffle_thrift_async_get_batch_args_write ::
  "'p tproto \<Rightarrow> waffle_thrift_async_get_batch_args \<Rightarrow> ('p, unit) io" where
  "waffle_thrift_async_get_batch_args_write P a =
     writeStruct P ''waffle_thrift_async_get_batch_args''
       [writeField P ''seq_id'' T_STRUCT 1 (sequence_id_write P (async_get_batch_args_seq_id a)),
        writeField P ''keys'' T_LIST 2 (writeStringList P (async_get_batch_args_keys a))]"

definition waffle_thrift_async_get_batch_pargs_write ::
  "'p tproto \<Rightarrow> sequence_id \<Rightarrow> string list \<Rightarrow> ('p, unit) io" where
  "waffle_thrift_async_get_batch_pargs_write P sq keys =
     writeStruct P ''waffle_thrift_async_get_batch_pargs''
       [writeField P ''seq_id'' T_STRUCT 1 (sequence_id_write P sq),
        writeField P ''keys'' T_LIST 2 (writeStringList P keys)]"

definition async_get_batch_args_toks :: "sequence_id \<Rightarrow> string list \<Rightarrow> tok list" where
  "async_get_batch_args_toks sq keys = struct_toks [(T_STRUCT, 1, sequence_id_toks sq), (T_LIST, 2,
      strs_toks keys)]"

subsection \<open>\<open>async_put_batch\<close>\<close>

subsubsection \<open>\<open>waffle_thrift_async_put_batch_args\<close>\<close>

record waffle_thrift_async_put_batch_args =
  async_put_batch_args_seq_id :: "sequence_id"
  async_put_batch_args_keys :: "string list"
  async_put_batch_args_values :: "string list"
  async_put_batch_args_isset_seq_id :: bool
  async_put_batch_args_isset_keys :: bool
  async_put_batch_args_isset_values :: bool

definition waffle_thrift_async_put_batch_args_init :: waffle_thrift_async_put_batch_args where
  "waffle_thrift_async_put_batch_args_init = \<lparr> async_put_batch_args_seq_id = sequence_id_init,
      async_put_batch_args_keys = [], async_put_batch_args_values = [],
          async_put_batch_args_isset_seq_id = False, async_put_batch_args_isset_keys = False,
              async_put_batch_args_isset_values = False \<rparr>"

definition waffle_thrift_async_put_batch_args_eq ::
  "waffle_thrift_async_put_batch_args \<Rightarrow> waffle_thrift_async_put_batch_args \<Rightarrow> bool" where
  "waffle_thrift_async_put_batch_args_eq a b \<longleftrightarrow> async_put_batch_args_seq_id a = async_put_batch_args_seq_id b \<and> async_put_batch_args_keys a = async_put_batch_args_keys b \<and> async_put_batch_args_values a = async_put_batch_args_values b"

definition waffle_thrift_async_put_batch_args_read ::
  "'p tproto \<Rightarrow> nat \<Rightarrow> waffle_thrift_async_put_batch_args \<Rightarrow> ('p, waffle_thrift_async_put_batch_args) io" where
  "waffle_thrift_async_put_batch_args_read P n =
     read_struct P n (field_switch P
       [(1, \<lambda>ftype a. read_case P T_STRUCT (sequence_id_read P n (async_put_batch_args_seq_id a)) (\<lambda>v a. a\<lparr>async_put_batch_args_seq_id := v, async_put_batch_args_isset_seq_id := True\<rparr>) ftype a),
        (2, read_case P T_LIST (readStringList P) (\<lambda>v a. a\<lparr>async_put_batch_args_keys := v,
            async_put_batch_args_isset_keys := True\<rparr>)),
        (3, read_case P T_LIST (readStringList P) (\<lambda>v a. a\<lparr>async_put_batch_args_values := v,
            async_put_batch_args_isset_values := True\<rparr>))])"

definition waffle_thrift_async_put_batch_args_write ::
  "'p tproto \<Rightarrow> waffle_thrift_async_put_batch_args \<Rightarrow> ('p, unit) io" where
  "waffle_thrift_async_put_batch_args_write P a =
     writeStruct P ''waffle_thrift_async_put_batch_args''
       [writeField P ''seq_id'' T_STRUCT 1 (sequence_id_write P (async_put_batch_args_seq_id a)),
        writeField P ''keys'' T_LIST 2 (writeStringList P (async_put_batch_args_keys a)),
        writeField P ''values'' T_LIST 3 (writeStringList P (async_put_batch_args_values a))]"

definition waffle_thrift_async_put_batch_pargs_write ::
  "'p tproto \<Rightarrow> sequence_id \<Rightarrow> string list \<Rightarrow> string list \<Rightarrow> ('p, unit) io" where
  "waffle_thrift_async_put_batch_pargs_write P sq keys values =
     writeStruct P ''waffle_thrift_async_put_batch_pargs''
       [writeField P ''seq_id'' T_STRUCT 1 (sequence_id_write P sq),
        writeField P ''keys'' T_LIST 2 (writeStringList P keys),
        writeField P ''values'' T_LIST 3 (writeStringList P values)]"

definition async_put_batch_args_toks ::
  "sequence_id \<Rightarrow> string list \<Rightarrow> string list \<Rightarrow> tok list" where
  "async_put_batch_args_toks sq keys values = struct_toks [(T_STRUCT, 1, sequence_id_toks sq), (T_LIST,
      2, strs_toks keys), (T_LIST, 3, strs_toks values)]"

subsection \<open>\<open>get\<close>\<close>

subsubsection \<open>\<open>waffle_thrift_get_args\<close>\<close>

record waffle_thrift_get_args =
  get_args_key :: "string"
  get_args_isset_key :: bool

definition waffle_thrift_get_args_init :: waffle_thrift_get_args where
  "waffle_thrift_get_args_init = \<lparr> get_args_key = [], get_args_isset_key = False \<rparr>"

definition waffle_thrift_get_args_eq ::
  "waffle_thrift_get_args \<Rightarrow> waffle_thrift_get_args \<Rightarrow> bool" where
  "waffle_thrift_get_args_eq a b \<longleftrightarrow> get_args_key a = get_args_key b"

definition waffle_thrift_get_args_read ::
  "'p tproto \<Rightarrow> nat \<Rightarrow> waffle_thrift_get_args \<Rightarrow> ('p, waffle_thrift_get_args) io" where
  "waffle_thrift_get_args_read P n =
     read_struct P n (field_switch P
       [(1, read_case P T_STRING (readString P) (\<lambda>v a. a\<lparr>get_args_key := v, get_args_isset_key := True\<rparr>))])"

definition waffle_thrift_get_args_write ::
  "'p tproto \<Rightarrow> waffle_thrift_get_args \<Rightarrow> ('p, unit) io" where
  "waffle_thrift_get_args_write P a =
     writeStruct P ''waffle_thrift_get_args''
       [writeField P ''key'' T_STRING 1 (writeString P (get_args_key a))]"

definition waffle_thrift_get_pargs_write :: "'p tproto \<Rightarrow> string \<Rightarrow> ('p, unit) io" where
  "waffle_thrift_get_pargs_write P key =
     writeStruct P ''waffle_thrift_get_pargs''
       [writeField P ''key'' T_STRING 1 (writeString P key)]"

definition get_args_toks :: "string \<Rightarrow> tok list" where
  "get_args_toks key = struct_toks [(T_STRING, 1, [K_str key])]"

subsubsection \<open>\<open>waffle_thrift_get_result\<close>\<close>

record waffle_thrift_get_result =
  get_result_success :: "string"
  get_result_isset_success :: bool

definition waffle_thrift_get_result_init :: waffle_thrift_get_result where
  "waffle_thrift_get_result_init = \<lparr> get_result_success = [], get_result_isset_success = False \<rparr>"

definition waffle_thrift_get_result_eq ::
  "waffle_thrift_get_result \<Rightarrow> waffle_thrift_get_result \<Rightarrow> bool" where
  "waffle_thrift_get_result_eq a b \<longleftrightarrow> get_result_success a = get_result_success b"

type_synonym waffle_thrift_get_presult = waffle_thrift_get_result

definition waffle_thrift_get_result_read ::
  "'p tproto \<Rightarrow> nat \<Rightarrow> waffle_thrift_get_result \<Rightarrow> ('p, waffle_thrift_get_result) io" where
  "waffle_thrift_get_result_read P n =
     read_struct P n (field_switch P
       [(0, read_case P T_STRING (readString P) (\<lambda>v a. a\<lparr>get_result_success := v,
           get_result_isset_success := True\<rparr>))])"

definition waffle_thrift_get_result_write ::
  "'p tproto \<Rightarrow> waffle_thrift_get_result \<Rightarrow> ('p, unit) io" where
  "waffle_thrift_get_result_write P a =
     writeStruct P ''waffle_thrift_get_result''
       [if get_result_isset_success a then
           writeField P ''success'' T_STRING 0 (writeString P (get_result_success a)) else returnIO ()]"

definition waffle_thrift_get_presult_read ::
  "'p tproto \<Rightarrow> nat \<Rightarrow> waffle_thrift_get_presult \<Rightarrow> ('p, waffle_thrift_get_presult) io" where
  "waffle_thrift_get_presult_read P n =
     read_struct P n (field_switch P
       [(0, read_case P T_STRING (readString P) (\<lambda>v a. a\<lparr>get_result_success := v,
           get_result_isset_success := True\<rparr>))])"

definition get_result_toks :: "string \<Rightarrow> tok list" where
  "get_result_toks success = struct_toks [(T_STRING, 0, [K_str success])]"

subsection \<open>\<open>put\<close>\<close>

subsubsection \<open>\<open>waffle_thrift_put_args\<close>\<close>

record waffle_thrift_put_args =
  put_args_key :: "string"
  put_args_value :: "string"
  put_args_isset_key :: bool
  put_args_isset_value :: bool

definition waffle_thrift_put_args_init :: waffle_thrift_put_args where
  "waffle_thrift_put_args_init = \<lparr> put_args_key = [], put_args_value = [], put_args_isset_key = False,
      put_args_isset_value = False \<rparr>"

definition waffle_thrift_put_args_eq ::
  "waffle_thrift_put_args \<Rightarrow> waffle_thrift_put_args \<Rightarrow> bool" where
  "waffle_thrift_put_args_eq a b \<longleftrightarrow> put_args_key a = put_args_key b \<and> put_args_value a = put_args_value b"

definition waffle_thrift_put_args_read ::
  "'p tproto \<Rightarrow> nat \<Rightarrow> waffle_thrift_put_args \<Rightarrow> ('p, waffle_thrift_put_args) io" where
  "waffle_thrift_put_args_read P n =
     read_struct P n (field_switch P
       [(1, read_case P T_STRING (readString P) (\<lambda>v a. a\<lparr>put_args_key := v, put_args_isset_key := True\<rparr>)),
        (2, read_case P T_STRING (readString P) (\<lambda>v a. a\<lparr>put_args_value := v,
            put_args_isset_value := True\<rparr>))])"

definition waffle_thrift_put_args_write ::
  "'p tproto \<Rightarrow> waffle_thrift_put_args \<Rightarrow> ('p, unit) io" where
  "waffle_thrift_put_args_write P a =
     writeStruct P ''waffle_thrift_put_args''
       [writeField P ''key'' T_STRING 1 (writeString P (put_args_key a)),
        writeField P ''value'' T_STRING 2 (writeString P (put_args_value a))]"

definition waffle_thrift_put_pargs_write :: "'p tproto \<Rightarrow> string \<Rightarrow> string \<Rightarrow> ('p, unit) io" where
  "waffle_thrift_put_pargs_write P key value =
     writeStruct P ''waffle_thrift_put_pargs''
       [writeField P ''key'' T_STRING 1 (writeString P key),
        writeField P ''value'' T_STRING 2 (writeString P value)]"

definition put_args_toks :: "string \<Rightarrow> string \<Rightarrow> tok list" where
  "put_args_toks key value = struct_toks [(T_STRING, 1, [K_str key]), (T_STRING, 2, [K_str value])]"

subsubsection \<open>\<open>waffle_thrift_put_result\<close>\<close>

type_synonym waffle_thrift_put_result = unit

type_synonym waffle_thrift_put_presult = waffle_thrift_put_result

definition waffle_thrift_put_result_read ::
  "'p tproto \<Rightarrow> nat \<Rightarrow> waffle_thrift_put_result \<Rightarrow> ('p, waffle_thrift_put_result) io" where
  "waffle_thrift_put_result_read P n =
     read_struct P n (field_switch P
       [])"

definition waffle_thrift_put_result_write ::
  "'p tproto \<Rightarrow> waffle_thrift_put_result \<Rightarrow> ('p, unit) io" where
  "waffle_thrift_put_result_write P a =
     writeStruct P ''waffle_thrift_put_result''
       []"

definition waffle_thrift_put_presult_read ::
  "'p tproto \<Rightarrow> nat \<Rightarrow> waffle_thrift_put_presult \<Rightarrow> ('p, waffle_thrift_put_presult) io" where
  "waffle_thrift_put_presult_read P n =
     read_struct P n (field_switch P
       [])"

definition put_result_toks :: "tok list" where
  "put_result_toks = struct_toks []"

subsection \<open>\<open>get_batch\<close>\<close>

subsubsection \<open>\<open>waffle_thrift_get_batch_args\<close>\<close>

record waffle_thrift_get_batch_args =
  get_batch_args_keys :: "string list"
  get_batch_args_isset_keys :: bool

definition waffle_thrift_get_batch_args_init :: waffle_thrift_get_batch_args where
  "waffle_thrift_get_batch_args_init = \<lparr> get_batch_args_keys = [], get_batch_args_isset_keys = False \<rparr>"

definition waffle_thrift_get_batch_args_eq ::
  "waffle_thrift_get_batch_args \<Rightarrow> waffle_thrift_get_batch_args \<Rightarrow> bool" where
  "waffle_thrift_get_batch_args_eq a b \<longleftrightarrow> get_batch_args_keys a = get_batch_args_keys b"

definition waffle_thrift_get_batch_args_read ::
  "'p tproto \<Rightarrow> nat \<Rightarrow> waffle_thrift_get_batch_args \<Rightarrow> ('p, waffle_thrift_get_batch_args) io" where
  "waffle_thrift_get_batch_args_read P n =
     read_struct P n (field_switch P
       [(1, read_case P T_LIST (readStringList P) (\<lambda>v a. a\<lparr>get_batch_args_keys := v,
           get_batch_args_isset_keys := True\<rparr>))])"

definition waffle_thrift_get_batch_args_write ::
  "'p tproto \<Rightarrow> waffle_thrift_get_batch_args \<Rightarrow> ('p, unit) io" where
  "waffle_thrift_get_batch_args_write P a =
     writeStruct P ''waffle_thrift_get_batch_args''
       [writeField P ''keys'' T_LIST 1 (writeStringList P (get_batch_args_keys a))]"

definition waffle_thrift_get_batch_pargs_write :: "'p tproto \<Rightarrow> string list \<Rightarrow> ('p, unit) io" where
  "waffle_thrift_get_batch_pargs_write P keys =
     writeStruct P ''waffle_thrift_get_batch_pargs''
       [writeField P ''keys'' T_LIST 1 (writeStringList P keys)]"

definition get_batch_args_toks :: "string list \<Rightarrow> tok list" where
  "get_batch_args_toks keys = struct_toks [(T_LIST, 1, strs_toks keys)]"

subsubsection \<open>\<open>waffle_thrift_get_batch_result\<close>\<close>

record waffle_thrift_get_batch_result =
  get_batch_result_success :: "string list"
  get_batch_result_isset_success :: bool

definition waffle_thrift_get_batch_result_init :: waffle_thrift_get_batch_result where
  "waffle_thrift_get_batch_result_init = \<lparr> get_batch_result_success = [],
      get_batch_result_isset_success = False \<rparr>"

definition waffle_thrift_get_batch_result_eq ::
  "waffle_thrift_get_batch_result \<Rightarrow> waffle_thrift_get_batch_result \<Rightarrow> bool" where
  "waffle_thrift_get_batch_result_eq a b \<longleftrightarrow> get_batch_result_success a = get_batch_result_success b"

type_synonym waffle_thrift_get_batch_presult = waffle_thrift_get_batch_result

definition waffle_thrift_get_batch_result_read ::
  "'p tproto \<Rightarrow> nat \<Rightarrow> waffle_thrift_get_batch_result \<Rightarrow> ('p, waffle_thrift_get_batch_result) io" where
  "waffle_thrift_get_batch_result_read P n =
     read_struct P n (field_switch P
       [(0, read_case P T_LIST (readStringList P) (\<lambda>v a. a\<lparr>get_batch_result_success := v,
           get_batch_result_isset_success := True\<rparr>))])"

definition waffle_thrift_get_batch_result_write ::
  "'p tproto \<Rightarrow> waffle_thrift_get_batch_result \<Rightarrow> ('p, unit) io" where
  "waffle_thrift_get_batch_result_write P a =
     writeStruct P ''waffle_thrift_get_batch_result''
       [if get_batch_result_isset_success a then
           writeField P ''success'' T_LIST 0 (writeStringList P (get_batch_result_success a)) else returnIO ()]"

definition waffle_thrift_get_batch_presult_read ::
  "'p tproto \<Rightarrow> nat \<Rightarrow> waffle_thrift_get_batch_presult \<Rightarrow> ('p, waffle_thrift_get_batch_presult) io" where
  "waffle_thrift_get_batch_presult_read P n =
     read_struct P n (field_switch P
       [(0, read_case P T_LIST (readStringList P) (\<lambda>v a. a\<lparr>get_batch_result_success := v,
           get_batch_result_isset_success := True\<rparr>))])"

definition get_batch_result_toks :: "string list \<Rightarrow> tok list" where
  "get_batch_result_toks success = struct_toks [(T_LIST, 0, strs_toks success)]"

subsection \<open>\<open>put_batch\<close>\<close>

subsubsection \<open>\<open>waffle_thrift_put_batch_args\<close>\<close>

record waffle_thrift_put_batch_args =
  put_batch_args_keys :: "string list"
  put_batch_args_values :: "string list"
  put_batch_args_isset_keys :: bool
  put_batch_args_isset_values :: bool

definition waffle_thrift_put_batch_args_init :: waffle_thrift_put_batch_args where
  "waffle_thrift_put_batch_args_init = \<lparr> put_batch_args_keys = [], put_batch_args_values = [],
      put_batch_args_isset_keys = False, put_batch_args_isset_values = False \<rparr>"

definition waffle_thrift_put_batch_args_eq ::
  "waffle_thrift_put_batch_args \<Rightarrow> waffle_thrift_put_batch_args \<Rightarrow> bool" where
  "waffle_thrift_put_batch_args_eq a b \<longleftrightarrow> put_batch_args_keys a = put_batch_args_keys b \<and>
      put_batch_args_values a = put_batch_args_values b"

definition waffle_thrift_put_batch_args_read ::
  "'p tproto \<Rightarrow> nat \<Rightarrow> waffle_thrift_put_batch_args \<Rightarrow> ('p, waffle_thrift_put_batch_args) io" where
  "waffle_thrift_put_batch_args_read P n =
     read_struct P n (field_switch P
       [(1, read_case P T_LIST (readStringList P) (\<lambda>v a. a\<lparr>put_batch_args_keys := v,
           put_batch_args_isset_keys := True\<rparr>)),
        (2, read_case P T_LIST (readStringList P) (\<lambda>v a. a\<lparr>put_batch_args_values := v,
            put_batch_args_isset_values := True\<rparr>))])"

definition waffle_thrift_put_batch_args_write ::
  "'p tproto \<Rightarrow> waffle_thrift_put_batch_args \<Rightarrow> ('p, unit) io" where
  "waffle_thrift_put_batch_args_write P a =
     writeStruct P ''waffle_thrift_put_batch_args''
       [writeField P ''keys'' T_LIST 1 (writeStringList P (put_batch_args_keys a)),
        writeField P ''values'' T_LIST 2 (writeStringList P (put_batch_args_values a))]"

definition waffle_thrift_put_batch_pargs_write ::
  "'p tproto \<Rightarrow> string list \<Rightarrow> string list \<Rightarrow> ('p, unit) io" where
  "waffle_thrift_put_batch_pargs_write P keys values =
     writeStruct P ''waffle_thrift_put_batch_pargs''
       [writeField P ''keys'' T_LIST 1 (writeStringList P keys),
        writeField P ''values'' T_LIST 2 (writeStringList P values)]"

definition put_batch_args_toks :: "string list \<Rightarrow> string list \<Rightarrow> tok list" where
  "put_batch_args_toks keys values = struct_toks [(T_LIST, 1, strs_toks keys), (T_LIST, 2,
      strs_toks values)]"

subsubsection \<open>\<open>waffle_thrift_put_batch_result\<close>\<close>

type_synonym waffle_thrift_put_batch_result = unit

type_synonym waffle_thrift_put_batch_presult = waffle_thrift_put_batch_result

definition waffle_thrift_put_batch_result_read ::
  "'p tproto \<Rightarrow> nat \<Rightarrow> waffle_thrift_put_batch_result \<Rightarrow> ('p, waffle_thrift_put_batch_result) io" where
  "waffle_thrift_put_batch_result_read P n =
     read_struct P n (field_switch P
       [])"

definition waffle_thrift_put_batch_result_write ::
  "'p tproto \<Rightarrow> waffle_thrift_put_batch_result \<Rightarrow> ('p, unit) io" where
  "waffle_thrift_put_batch_result_write P a =
     writeStruct P ''waffle_thrift_put_batch_result''
       []"

definition waffle_thrift_put_batch_presult_read ::
  "'p tproto \<Rightarrow> nat \<Rightarrow> waffle_thrift_put_batch_presult \<Rightarrow> ('p, waffle_thrift_put_batch_presult) io" where
  "waffle_thrift_put_batch_presult_read P n =
     read_struct P n (field_switch P
       [])"

definition put_batch_result_toks :: "tok list" where
  "put_batch_result_toks = struct_toks []"

subsection \<open>\<open>search\<close>\<close>

subsubsection \<open>\<open>waffle_thrift_search_args\<close>\<close>

record waffle_thrift_search_args =
  search_args_keys :: "string"
  search_args_isset_keys :: bool

definition waffle_thrift_search_args_init :: waffle_thrift_search_args where
  "waffle_thrift_search_args_init = \<lparr> search_args_keys = [], search_args_isset_keys = False \<rparr>"

definition waffle_thrift_search_args_eq ::
  "waffle_thrift_search_args \<Rightarrow> waffle_thrift_search_args \<Rightarrow> bool" where
  "waffle_thrift_search_args_eq a b \<longleftrightarrow> search_args_keys a = search_args_keys b"

definition waffle_thrift_search_args_read ::
  "'p tproto \<Rightarrow> nat \<Rightarrow> waffle_thrift_search_args \<Rightarrow> ('p, waffle_thrift_search_args) io" where
  "waffle_thrift_search_args_read P n =
     read_struct P n (field_switch P
       [(1, read_case P T_STRING (readString P) (\<lambda>v a. a\<lparr>search_args_keys := v,
           search_args_isset_keys := True\<rparr>))])"

definition waffle_thrift_search_args_write ::
  "'p tproto \<Rightarrow> waffle_thrift_search_args \<Rightarrow> ('p, unit) io" where
  "waffle_thrift_search_args_write P a =
     writeStruct P ''waffle_thrift_search_args''
       [writeField P ''keys'' T_STRING 1 (writeString P (search_args_keys a))]"

definition waffle_thrift_search_pargs_write :: "'p tproto \<Rightarrow> string \<Rightarrow> ('p, unit) io" where
  "waffle_thrift_search_pargs_write P keys =
     writeStruct P ''waffle_thrift_search_pargs''
       [writeField P ''keys'' T_STRING 1 (writeString P keys)]"

definition search_args_toks :: "string \<Rightarrow> tok list" where
  "search_args_toks keys = struct_toks [(T_STRING, 1, [K_str keys])]"

subsubsection \<open>\<open>waffle_thrift_search_result\<close>\<close>

record waffle_thrift_search_result =
  search_result_success :: "string list"
  search_result_isset_success :: bool

definition waffle_thrift_search_result_init :: waffle_thrift_search_result where
  "waffle_thrift_search_result_init = \<lparr> search_result_success = [], search_result_isset_success = False \<rparr>"

definition waffle_thrift_search_result_eq ::
  "waffle_thrift_search_result \<Rightarrow> waffle_thrift_search_result \<Rightarrow> bool" where
  "waffle_thrift_search_result_eq a b \<longleftrightarrow> search_result_success a = search_result_success b"

type_synonym waffle_thrift_search_presult = waffle_thrift_search_result

definition waffle_thrift_search_result_read ::
  "'p tproto \<Rightarrow> nat \<Rightarrow> waffle_thrift_search_result \<Rightarrow> ('p, waffle_thrift_search_result) io" where
  "waffle_thrift_search_result_read P n =
     read_struct P n (field_switch P
       [(0, read_case P T_LIST (readStringList P) (\<lambda>v a. a\<lparr>search_result_success := v,
           search_result_isset_success := True\<rparr>))])"

definition waffle_thrift_search_result_write ::
  "'p tproto \<Rightarrow> waffle_thrift_search_result \<Rightarrow> ('p, unit) io" where
  "waffle_thrift_search_result_write P a =
     writeStruct P ''waffle_thrift_search_result''
       [if search_result_isset_success a then
           writeField P ''success'' T_LIST 0 (writeStringList P (search_result_success a)) else returnIO ()]"

definition waffle_thrift_search_presult_read ::
  "'p tproto \<Rightarrow> nat \<Rightarrow> waffle_thrift_search_presult \<Rightarrow> ('p, waffle_thrift_search_presult) io" where
  "waffle_thrift_search_presult_read P n =
     read_struct P n (field_switch P
       [(0, read_case P T_LIST (readStringList P) (\<lambda>v a. a\<lparr>search_result_success := v,
           search_result_isset_success := True\<rparr>))])"

definition search_result_toks :: "string list \<Rightarrow> tok list" where
  "search_result_toks success = struct_toks [(T_LIST, 0, strs_toks success)]"

subsection \<open>\<open>async_response\<close>\<close>

subsubsection \<open>\<open>waffle_thrift_response_async_response_args\<close>\<close>

record waffle_thrift_response_async_response_args =
  async_response_args_seq_id :: "sequence_id"
  async_response_args_op_code :: "int"
  async_response_args_result :: "string list"
  async_response_args_isset_seq_id :: bool
  async_response_args_isset_op_code :: bool
  async_response_args_isset_result :: bool

definition waffle_thrift_response_async_response_args_init ::
  waffle_thrift_response_async_response_args where
  "waffle_thrift_response_async_response_args_init = \<lparr> async_response_args_seq_id = sequence_id_init,
      async_response_args_op_code = 0, async_response_args_result = [],
          async_response_args_isset_seq_id = False, async_response_args_isset_op_code = False,
              async_response_args_isset_result = False \<rparr>"

definition waffle_thrift_response_async_response_args_eq ::
  "waffle_thrift_response_async_response_args \<Rightarrow> waffle_thrift_response_async_response_args \<Rightarrow> bool" where
  "waffle_thrift_response_async_response_args_eq a b \<longleftrightarrow> async_response_args_seq_id a = async_response_args_seq_id b \<and> async_response_args_op_code a = async_response_args_op_code b \<and> async_response_args_result a = async_response_args_result b"

definition waffle_thrift_response_async_response_args_read ::
  "'p tproto \<Rightarrow> nat \<Rightarrow> waffle_thrift_response_async_response_args \<Rightarrow> ('p, waffle_thrift_response_async_response_args) io" where
  "waffle_thrift_response_async_response_args_read P n =
     read_struct P n (field_switch P
       [(1, \<lambda>ftype a. read_case P T_STRUCT (sequence_id_read P n (async_response_args_seq_id a)) (\<lambda>v a. a\<lparr>async_response_args_seq_id := v, async_response_args_isset_seq_id := True\<rparr>) ftype a),
        (2, read_case P T_I32 (readI32 P) (\<lambda>v a. a\<lparr>async_response_args_op_code := v,
            async_response_args_isset_op_code := True\<rparr>)),
        (3, read_case P T_LIST (readStringList P) (\<lambda>v a. a\<lparr>async_response_args_result := v,
            async_response_args_isset_result := True\<rparr>))])"

definition waffle_thrift_response_async_response_args_write ::
  "'p tproto \<Rightarrow> waffle_thrift_response_async_response_args \<Rightarrow> ('p, unit) io" where
  "waffle_thrift_response_async_response_args_write P a =
     writeStruct P ''waffle_thrift_response_async_response_args''
       [writeField P ''seq_id'' T_STRUCT 1 (sequence_id_write P (async_response_args_seq_id a)),
        writeField P ''op_code'' T_I32 2 (writeI32 P (async_response_args_op_code a)),
        writeField P ''result'' T_LIST 3 (writeStringList P (async_response_args_result a))]"

definition waffle_thrift_response_async_response_pargs_write ::
  "'p tproto \<Rightarrow> sequence_id \<Rightarrow> int \<Rightarrow> string list \<Rightarrow> ('p, unit) io" where
  "waffle_thrift_response_async_response_pargs_write P sq op_code res =
     writeStruct P ''waffle_thrift_response_async_response_pargs''
       [writeField P ''seq_id'' T_STRUCT 1 (sequence_id_write P sq),
        writeField P ''op_code'' T_I32 2 (writeI32 P op_code),
        writeField P ''result'' T_LIST 3 (writeStringList P res)]"

definition async_response_args_toks :: "sequence_id \<Rightarrow> int \<Rightarrow> string list \<Rightarrow> tok list" where
  "async_response_args_toks sq op_code res = struct_toks [(T_STRUCT, 1, sequence_id_toks sq), (T_I32,
      2, [K_i32 op_code]), (T_LIST, 3, strs_toks res)]"

subsection \<open>Round trips\<close>

text \<open>
  Every struct that one side emits is read by the other side into the same values, with the
  \<open>__isset\<close> flag of every field set.  The bound of the field loop is enough as soon as it exceeds the
  number of fields the peer sends.
\<close>

context thrift_protocol
begin

lemma sequence_id_writes: "sequence_id_ok s \<Longrightarrow> emits C (sequence_id_write P s) (sequence_id_toks s)"
  unfolding sequence_id_write_def sequence_id_toks_def sequence_id_ok_def
  by (rule emits_struct_fields) simp

lemma w_sequence_field [simp]:
  "sequence_id_ok s \<Longrightarrow> tok_ok (K_field T_STRUCT i)
   \<Longrightarrow> emits C (writeField P nm T_STRUCT i (sequence_id_write P s)) (K_field T_STRUCT i # sequence_id_toks s)"
  by (rule emits_field) (simp_all add: sequence_id_writes)

lemma sequence_id_reads:
  assumes "3 < n" shows "reads C (sequence_id_read P n s0) (sequence_id_toks s) (\<lambda>x. x = s)"
proof -
  have *: "reads C (read_struct P n (field_switch P (sequence_id_cases P)) (s0, False, False, False))
      (sequence_id_toks s) (\<lambda>x. x = (s, True, True, True))"
    unfolding sequence_id_toks_def sequence_id_cases_def using assms
    by (intro reads_struct_fields) (rule fr_value fr_done | rule reads_value | simp)+
  have "reads C (sequence_id_read P n s0) (sequence_id_toks s @ []) (\<lambda>x. x = s)"
    unfolding sequence_id_read_def by (rule reads_bind [OF *]) (simp add: reads_return)
  then show ?thesis by simp
qed

lemma waffle_thrift_get_client_id_pargs_writes:
  "emits C (waffle_thrift_get_client_id_pargs_write P ) get_client_id_args_toks"
  unfolding waffle_thrift_get_client_id_pargs_write_def get_client_id_args_toks_def by (rule emits_struct_fields) simp

lemma waffle_thrift_get_client_id_args_writes:
  "emits C (waffle_thrift_get_client_id_args_write P a) get_client_id_args_toks"
  unfolding waffle_thrift_get_client_id_args_write_def get_client_id_args_toks_def by (rule emits_struct_fields) simp

lemma waffle_thrift_get_client_id_args_reads:
  "0 < n \<Longrightarrow> reads C (waffle_thrift_get_client_id_args_read P n a) get_client_id_args_toks (\<lambda>x. x = a)"
  unfolding waffle_thrift_get_client_id_args_read_def get_client_id_args_toks_def by (rule reads_struct_fields) (simp_all add: fr_nil)

lemma waffle_thrift_get_client_id_result_writes:
  "fits64 success \<Longrightarrow>
      emits C (waffle_thrift_get_client_id_result_write P \<lparr> get_client_id_result_success = success,
          get_client_id_result_isset_success = True \<rparr>) (get_client_id_result_toks success)"
  unfolding waffle_thrift_get_client_id_result_write_def get_client_id_result_toks_def by (rule emits_struct_fields) simp

lemma waffle_thrift_get_client_id_result_reads:
  "1 < n \<Longrightarrow>
      reads C (waffle_thrift_get_client_id_result_read P n a) (get_client_id_result_toks success) (\<lambda>x. x = a\<lparr>get_client_id_result_success := success, get_client_id_result_isset_success := True\<rparr>)"
  unfolding waffle_thrift_get_client_id_result_read_def get_client_id_result_toks_def
  by (rule reads_struct_fields)
    (rule fr_value fr_value_at fr_done | rule reads_value sequence_id_reads | simp)+

lemma waffle_thrift_get_client_id_presult_reads:
  "1 < n \<Longrightarrow>
      reads C (waffle_thrift_get_client_id_presult_read P n a) (get_client_id_result_toks success) (\<lambda>x. x = a\<lparr>get_client_id_result_success := success, get_client_id_result_isset_success := True\<rparr>)"
  unfolding waffle_thrift_get_client_id_presult_read_def get_client_id_result_toks_def
  by (rule reads_struct_fields)
    (rule fr_value fr_value_at fr_done | rule reads_value sequence_id_reads | simp)+

lemma waffle_thrift_register_client_id_pargs_writes:
  "fits32 blk \<Longrightarrow> fits64 cid \<Longrightarrow>
      emits C (waffle_thrift_register_client_id_pargs_write P blk cid) (register_client_id_args_toks blk cid)"
  unfolding waffle_thrift_register_client_id_pargs_write_def register_client_id_args_toks_def by (rule emits_struct_fields) simp

lemma waffle_thrift_register_client_id_args_writes:
  "fits32 (register_client_id_args_block_id a) \<Longrightarrow> fits64 (register_client_id_args_client_id a) \<Longrightarrow>
      emits C (waffle_thrift_register_client_id_args_write P a) (register_client_id_args_toks (register_client_id_args_block_id a) (register_client_id_args_client_id a))"
  unfolding waffle_thrift_register_client_id_args_write_def register_client_id_args_toks_def by (rule emits_struct_fields) simp

lemma waffle_thrift_register_client_id_args_reads:
  "2 < n \<Longrightarrow>
      reads C (waffle_thrift_register_client_id_args_read P n a) (register_client_id_args_toks blk cid) (\<lambda>x. x = a\<lparr>register_client_id_args_block_id := blk, register_client_id_args_isset_block_id := True, register_client_id_args_client_id := cid, register_client_id_args_isset_client_id := True\<rparr>)"
  unfolding waffle_thrift_register_client_id_args_read_def register_client_id_args_toks_def
  by (rule reads_struct_fields)
    (rule fr_value fr_value_at fr_done | rule reads_value sequence_id_reads | simp)+

lemma waffle_thrift_register_client_id_result_writes:
  "emits C (waffle_thrift_register_client_id_result_write P a) register_client_id_result_toks"
  unfolding waffle_thrift_register_client_id_result_write_def register_client_id_result_toks_def by (rule emits_struct_fields) simp

lemma waffle_thrift_register_client_id_result_reads:
  "0 < n \<Longrightarrow>
      reads C (waffle_thrift_register_client_id_result_read P n a) register_client_id_result_toks (\<lambda>x. x = a)"
  unfolding waffle_thrift_register_client_id_result_read_def register_client_id_result_toks_def by (rule reads_struct_fields) (simp_all add: fr_nil)

lemma waffle_thrift_register_client_id_presult_reads:
  "0 < n \<Longrightarrow>
      reads C (waffle_thrift_register_client_id_presult_read P n a) register_client_id_result_toks (\<lambda>x. x = a)"
  unfolding waffle_thrift_register_client_id_presult_read_def register_client_id_result_toks_def by (rule reads_struct_fields) (simp_all add: fr_nil)

lemma waffle_thrift_async_get_pargs_writes:
  "sequence_id_ok sq \<Longrightarrow> str_ok key \<Longrightarrow>
      emits C (waffle_thrift_async_get_pargs_write P sq key) (async_get_args_toks sq key)"
  unfolding waffle_thrift_async_get_pargs_write_def async_get_args_toks_def by (rule emits_struct_fields) simp

lemma waffle_thrift_async_get_args_writes:
  "sequence_id_ok (async_get_args_seq_id a) \<Longrightarrow> str_ok (async_get_args_key a) \<Longrightarrow>
      emits C (waffle_thrift_async_get_args_write P a) (async_get_args_toks (async_get_args_seq_id a) (async_get_args_key a))"
  unfolding waffle_thrift_async_get_args_write_def async_get_args_toks_def by (rule emits_struct_fields) simp

lemma waffle_thrift_async_get_args_reads:
  "3 < n \<Longrightarrow>
      reads C (waffle_thrift_async_get_args_read P n a) (async_get_args_toks sq key) (\<lambda>x. x = a\<lparr>async_get_args_seq_id := sq, async_get_args_isset_seq_id := True, async_get_args_key := key, async_get_args_isset_key := True\<rparr>)"
  unfolding waffle_thrift_async_get_args_read_def async_get_args_toks_def
  by (rule reads_struct_fields)
    (rule fr_value fr_value_at fr_done | rule reads_value sequence_id_reads | simp)+

lemma waffle_thrift_async_put_pargs_writes:
  "sequence_id_ok sq \<Longrightarrow> str_ok key \<Longrightarrow> str_ok value \<Longrightarrow>
      emits C (waffle_thrift_async_put_pargs_write P sq key value) (async_put_args_toks sq key value)"
  unfolding waffle_thrift_async_put_pargs_write_def async_put_args_toks_def by (rule emits_struct_fields) simp

lemma waffle_thrift_async_put_args_writes:
  "sequence_id_ok (async_put_args_seq_id a) \<Longrightarrow> str_ok (async_put_args_key a) \<Longrightarrow>
      str_ok (async_put_args_value a) \<Longrightarrow>
          emits C (waffle_thrift_async_put_args_write P a) (async_put_args_toks (async_put_args_seq_id a) (async_put_args_key a) (async_put_args_value a))"
  unfolding waffle_thrift_async_put_args_write_def async_put_args_toks_def by (rule emits_struct_fields) simp

lemma waffle_thrift_async_put_args_reads:
  "3 < n \<Longrightarrow>
      reads C (waffle_thrift_async_put_args_read P n a) (async_put_args_toks sq key value) (\<lambda>x. x = a\<lparr>async_put_args_seq_id := sq, async_put_args_isset_seq_id := True, async_put_args_key := key, async_put_args_isset_key := True, async_put_args_value := value, async_put_args_isset_value := True\<rparr>)"
  unfolding waffle_thrift_async_put_args_read_def async_put_args_toks_def
  by (rule reads_struct_fields)
    (rule fr_value fr_value_at fr_done | rule reads_value sequence_id_reads | simp)+

lemma waffle_thrift_async_get_batch_pargs_writes:
  "sequence_id_ok sq \<Longrightarrow> strs_ok keys \<Longrightarrow>
      emits C (waffle_thrift_async_get_batch_pargs_write P sq keys) (async_get_batch_args_toks sq keys)"
  unfolding waffle_thrift_async_get_batch_pargs_write_def async_get_batch_args_toks_def by (rule emits_struct_fields) simp

lemma waffle_thrift_async_get_batch_args_writes:
  "sequence_id_ok (async_get_batch_args_seq_id a) \<Longrightarrow> strs_ok (async_get_batch_args_keys a) \<Longrightarrow>
      emits C (waffle_thrift_async_get_batch_args_write P a) (async_get_batch_args_toks (async_get_batch_args_seq_id a) (async_get_batch_args_keys a))"
  unfolding waffle_thrift_async_get_batch_args_write_def async_get_batch_args_toks_def by (rule emits_struct_fields) simp

lemma waffle_thrift_async_get_batch_args_reads:
  "3 < n \<Longrightarrow>
      reads C (waffle_thrift_async_get_batch_args_read P n a) (async_get_batch_args_toks sq keys) (\<lambda>x. x = a\<lparr>async_get_batch_args_seq_id := sq, async_get_batch_args_isset_seq_id := True, async_get_batch_args_keys := keys, async_get_batch_args_isset_keys := True\<rparr>)"
  unfolding waffle_thrift_async_get_batch_args_read_def async_get_batch_args_toks_def
  by (rule reads_struct_fields)
    (rule fr_value fr_value_at fr_done | rule reads_value sequence_id_reads | simp)+

lemma waffle_thrift_async_put_batch_pargs_writes:
  "sequence_id_ok sq \<Longrightarrow> strs_ok keys \<Longrightarrow> strs_ok values \<Longrightarrow>
      emits C (waffle_thrift_async_put_batch_pargs_write P sq keys values) (async_put_batch_args_toks sq keys values)"
  unfolding waffle_thrift_async_put_batch_pargs_write_def async_put_batch_args_toks_def by (rule emits_struct_fields) simp

lemma waffle_thrift_async_put_batch_args_writes:
  "sequence_id_ok (async_put_batch_args_seq_id a) \<Longrightarrow> strs_ok (async_put_batch_args_keys a) \<Longrightarrow>
      strs_ok (async_put_batch_args_values a) \<Longrightarrow>
          emits C (waffle_thrift_async_put_batch_args_write P a) (async_put_batch_args_toks (async_put_batch_args_seq_id a) (async_put_batch_args_keys a) (async_put_batch_args_values a))"
  unfolding waffle_thrift_async_put_batch_args_write_def async_put_batch_args_toks_def by (rule emits_struct_fields) simp

lemma waffle_thrift_async_put_batch_args_reads:
  "3 < n \<Longrightarrow>
      reads C (waffle_thrift_async_put_batch_args_read P n a) (async_put_batch_args_toks sq keys values) (\<lambda>x. x = a\<lparr>async_put_batch_args_seq_id := sq, async_put_batch_args_isset_seq_id := True, async_put_batch_args_keys := keys, async_put_batch_args_isset_keys := True, async_put_batch_args_values := values, async_put_batch_args_isset_values := True\<rparr>)"
  unfolding waffle_thrift_async_put_batch_args_read_def async_put_batch_args_toks_def
  by (rule reads_struct_fields)
    (rule fr_value fr_value_at fr_done | rule reads_value sequence_id_reads | simp)+

lemma waffle_thrift_get_pargs_writes:
  "str_ok key \<Longrightarrow> emits C (waffle_thrift_get_pargs_write P key) (get_args_toks key)"
  unfolding waffle_thrift_get_pargs_write_def get_args_toks_def by (rule emits_struct_fields) simp

lemma waffle_thrift_get_args_writes:
  "str_ok (get_args_key a) \<Longrightarrow> emits C (waffle_thrift_get_args_write P a) (get_args_toks (get_args_key a))"
  unfolding waffle_thrift_get_args_write_def get_args_toks_def by (rule emits_struct_fields) simp

lemma waffle_thrift_get_args_reads:
  "1 < n \<Longrightarrow>
      reads C (waffle_thrift_get_args_read P n a) (get_args_toks key) (\<lambda>x. x = a\<lparr>get_args_key := key,
          get_args_isset_key := True\<rparr>)"
  unfolding waffle_thrift_get_args_read_def get_args_toks_def
  by (rule reads_struct_fields)
    (rule fr_value fr_value_at fr_done | rule reads_value sequence_id_reads | simp)+

lemma waffle_thrift_get_result_writes:
  "str_ok success \<Longrightarrow> emits C (waffle_thrift_get_result_write P \<lparr> get_result_success = success,
      get_result_isset_success = True \<rparr>) (get_result_toks success)"
  unfolding waffle_thrift_get_result_write_def get_result_toks_def by (rule emits_struct_fields) simp

lemma waffle_thrift_get_result_reads:
  "1 < n \<Longrightarrow>
      reads C (waffle_thrift_get_result_read P n a) (get_result_toks success) (\<lambda>x. x = a\<lparr>get_result_success := success, get_result_isset_success := True\<rparr>)"
  unfolding waffle_thrift_get_result_read_def get_result_toks_def
  by (rule reads_struct_fields)
    (rule fr_value fr_value_at fr_done | rule reads_value sequence_id_reads | simp)+

lemma waffle_thrift_get_presult_reads:
  "1 < n \<Longrightarrow>
      reads C (waffle_thrift_get_presult_read P n a) (get_result_toks success) (\<lambda>x. x = a\<lparr>get_result_success := success, get_result_isset_success := True\<rparr>)"
  unfolding waffle_thrift_get_presult_read_def get_result_toks_def
  by (rule reads_struct_fields)
    (rule fr_value fr_value_at fr_done | rule reads_value sequence_id_reads | simp)+

lemma waffle_thrift_put_pargs_writes:
  "str_ok key \<Longrightarrow> str_ok value \<Longrightarrow>
      emits C (waffle_thrift_put_pargs_write P key value) (put_args_toks key value)"
  unfolding waffle_thrift_put_pargs_write_def put_args_toks_def by (rule emits_struct_fields) simp

lemma waffle_thrift_put_args_writes:
  "str_ok (put_args_key a) \<Longrightarrow> str_ok (put_args_value a) \<Longrightarrow>
      emits C (waffle_thrift_put_args_write P a) (put_args_toks (put_args_key a) (put_args_value a))"
  unfolding waffle_thrift_put_args_write_def put_args_toks_def by (rule emits_struct_fields) simp

lemma waffle_thrift_put_args_reads:
  "2 < n \<Longrightarrow>
      reads C (waffle_thrift_put_args_read P n a) (put_args_toks key value) (\<lambda>x. x = a\<lparr>put_args_key := key, put_args_isset_key := True, put_args_value := value, put_args_isset_value := True\<rparr>)"
  unfolding waffle_thrift_put_args_read_def put_args_toks_def
  by (rule reads_struct_fields)
    (rule fr_value fr_value_at fr_done | rule reads_value sequence_id_reads | simp)+

lemma waffle_thrift_put_result_writes:
  "emits C (waffle_thrift_put_result_write P a) put_result_toks"
  unfolding waffle_thrift_put_result_write_def put_result_toks_def by (rule emits_struct_fields) simp

lemma waffle_thrift_put_result_reads:
  "0 < n \<Longrightarrow> reads C (waffle_thrift_put_result_read P n a) put_result_toks (\<lambda>x. x = a)"
  unfolding waffle_thrift_put_result_read_def put_result_toks_def by (rule reads_struct_fields) (simp_all add: fr_nil)

lemma waffle_thrift_put_presult_reads:
  "0 < n \<Longrightarrow> reads C (waffle_thrift_put_presult_read P n a) put_result_toks (\<lambda>x. x = a)"
  unfolding waffle_thrift_put_presult_read_def put_result_toks_def by (rule reads_struct_fields) (simp_all add: fr_nil)

lemma waffle_thrift_get_batch_pargs_writes:
  "strs_ok keys \<Longrightarrow> emits C (waffle_thrift_get_batch_pargs_write P keys) (get_batch_args_toks keys)"
  unfolding waffle_thrift_get_batch_pargs_write_def get_batch_args_toks_def by (rule emits_struct_fields) simp

lemma waffle_thrift_get_batch_args_writes:
  "strs_ok (get_batch_args_keys a) \<Longrightarrow>
      emits C (waffle_thrift_get_batch_args_write P a) (get_batch_args_toks (get_batch_args_keys a))"
  unfolding waffle_thrift_get_batch_args_write_def get_batch_args_toks_def by (rule emits_struct_fields) simp

lemma waffle_thrift_get_batch_args_reads:
  "1 < n \<Longrightarrow>
      reads C (waffle_thrift_get_batch_args_read P n a) (get_batch_args_toks keys) (\<lambda>x. x = a\<lparr>get_batch_args_keys := keys, get_batch_args_isset_keys := True\<rparr>)"
  unfolding waffle_thrift_get_batch_args_read_def get_batch_args_toks_def
  by (rule reads_struct_fields)
    (rule fr_value fr_value_at fr_done | rule reads_value sequence_id_reads | simp)+

lemma waffle_thrift_get_batch_result_writes:
  "strs_ok success \<Longrightarrow>
      emits C (waffle_thrift_get_batch_result_write P \<lparr> get_batch_result_success = success,
          get_batch_result_isset_success = True \<rparr>) (get_batch_result_toks success)"
  unfolding waffle_thrift_get_batch_result_write_def get_batch_result_toks_def by (rule emits_struct_fields) simp

lemma waffle_thrift_get_batch_result_reads:
  "1 < n \<Longrightarrow>
      reads C (waffle_thrift_get_batch_result_read P n a) (get_batch_result_toks success) (\<lambda>x. x = a\<lparr>get_batch_result_success := success, get_batch_result_isset_success := True\<rparr>)"
  unfolding waffle_thrift_get_batch_result_read_def get_batch_result_toks_def
  by (rule reads_struct_fields)
    (rule fr_value fr_value_at fr_done | rule reads_value sequence_id_reads | simp)+

lemma waffle_thrift_get_batch_presult_reads:
  "1 < n \<Longrightarrow>
      reads C (waffle_thrift_get_batch_presult_read P n a) (get_batch_result_toks success) (\<lambda>x. x = a\<lparr>get_batch_result_success := success, get_batch_result_isset_success := True\<rparr>)"
  unfolding waffle_thrift_get_batch_presult_read_def get_batch_result_toks_def
  by (rule reads_struct_fields)
    (rule fr_value fr_value_at fr_done | rule reads_value sequence_id_reads | simp)+

lemma waffle_thrift_put_batch_pargs_writes:
  "strs_ok keys \<Longrightarrow> strs_ok values \<Longrightarrow>
      emits C (waffle_thrift_put_batch_pargs_write P keys values) (put_batch_args_toks keys values)"
  unfolding waffle_thrift_put_batch_pargs_write_def put_batch_args_toks_def by (rule emits_struct_fields) simp

lemma waffle_thrift_put_batch_args_writes:
  "strs_ok (put_batch_args_keys a) \<Longrightarrow> strs_ok (put_batch_args_values a) \<Longrightarrow>
      emits C (waffle_thrift_put_batch_args_write P a) (put_batch_args_toks (put_batch_args_keys a) (put_batch_args_values a))"
  unfolding waffle_thrift_put_batch_args_write_def put_batch_args_toks_def by (rule emits_struct_fields) simp

lemma waffle_thrift_put_batch_args_reads:
  "2 < n \<Longrightarrow>
      reads C (waffle_thrift_put_batch_args_read P n a) (put_batch_args_toks keys values) (\<lambda>x. x = a\<lparr>put_batch_args_keys := keys, put_batch_args_isset_keys := True, put_batch_args_values := values, put_batch_args_isset_values := True\<rparr>)"
  unfolding waffle_thrift_put_batch_args_read_def put_batch_args_toks_def
  by (rule reads_struct_fields)
    (rule fr_value fr_value_at fr_done | rule reads_value sequence_id_reads | simp)+

lemma waffle_thrift_put_batch_result_writes:
  "emits C (waffle_thrift_put_batch_result_write P a) put_batch_result_toks"
  unfolding waffle_thrift_put_batch_result_write_def put_batch_result_toks_def by (rule emits_struct_fields) simp

lemma waffle_thrift_put_batch_result_reads:
  "0 < n \<Longrightarrow> reads C (waffle_thrift_put_batch_result_read P n a) put_batch_result_toks (\<lambda>x. x = a)"
  unfolding waffle_thrift_put_batch_result_read_def put_batch_result_toks_def by (rule reads_struct_fields) (simp_all add: fr_nil)

lemma waffle_thrift_put_batch_presult_reads:
  "0 < n \<Longrightarrow> reads C (waffle_thrift_put_batch_presult_read P n a) put_batch_result_toks (\<lambda>x. x = a)"
  unfolding waffle_thrift_put_batch_presult_read_def put_batch_result_toks_def by (rule reads_struct_fields) (simp_all add: fr_nil)

lemma waffle_thrift_search_pargs_writes:
  "str_ok keys \<Longrightarrow> emits C (waffle_thrift_search_pargs_write P keys) (search_args_toks keys)"
  unfolding waffle_thrift_search_pargs_write_def search_args_toks_def by (rule emits_struct_fields) simp

lemma waffle_thrift_search_args_writes:
  "str_ok (search_args_keys a) \<Longrightarrow>
      emits C (waffle_thrift_search_args_write P a) (search_args_toks (search_args_keys a))"
  unfolding waffle_thrift_search_args_write_def search_args_toks_def by (rule emits_struct_fields) simp

lemma waffle_thrift_search_args_reads:
  "1 < n \<Longrightarrow>
      reads C (waffle_thrift_search_args_read P n a) (search_args_toks keys) (\<lambda>x. x = a\<lparr>search_args_keys := keys, search_args_isset_keys := True\<rparr>)"
  unfolding waffle_thrift_search_args_read_def search_args_toks_def
  by (rule reads_struct_fields)
    (rule fr_value fr_value_at fr_done | rule reads_value sequence_id_reads | simp)+

lemma waffle_thrift_search_result_writes:
  "strs_ok success \<Longrightarrow> emits C (waffle_thrift_search_result_write P \<lparr> search_result_success = success,
      search_result_isset_success = True \<rparr>) (search_result_toks success)"
  unfolding waffle_thrift_search_result_write_def search_result_toks_def by (rule emits_struct_fields) simp

lemma waffle_thrift_search_result_reads:
  "1 < n \<Longrightarrow>
      reads C (waffle_thrift_search_result_read P n a) (search_result_toks success) (\<lambda>x. x = a\<lparr>search_result_success := success, search_result_isset_success := True\<rparr>)"
  unfolding waffle_thrift_search_result_read_def search_result_toks_def
  by (rule reads_struct_fields)
    (rule fr_value fr_value_at fr_done | rule reads_value sequence_id_reads | simp)+

lemma waffle_thrift_search_presult_reads:
  "1 < n \<Longrightarrow>
      reads C (waffle_thrift_search_presult_read P n a) (search_result_toks success) (\<lambda>x. x = a\<lparr>search_result_success := success, search_result_isset_success := True\<rparr>)"
  unfolding waffle_thrift_search_presult_read_def search_result_toks_def
  by (rule reads_struct_fields)
    (rule fr_value fr_value_at fr_done | rule reads_value sequence_id_reads | simp)+

lemma waffle_thrift_response_async_response_pargs_writes:
  "sequence_id_ok sq \<Longrightarrow> fits32 op_code \<Longrightarrow> strs_ok res \<Longrightarrow>
      emits C (waffle_thrift_response_async_response_pargs_write P sq op_code res) (async_response_args_toks sq op_code res)"
  unfolding waffle_thrift_response_async_response_pargs_write_def async_response_args_toks_def by (rule emits_struct_fields) simp

lemma waffle_thrift_response_async_response_args_writes:
  "sequence_id_ok (async_response_args_seq_id a) \<Longrightarrow> fits32 (async_response_args_op_code a) \<Longrightarrow>
      strs_ok (async_response_args_result a) \<Longrightarrow>
          emits C (waffle_thrift_response_async_response_args_write P a) (async_response_args_toks (async_response_args_seq_id a) (async_response_args_op_code a) (async_response_args_result a))"
  unfolding waffle_thrift_response_async_response_args_write_def async_response_args_toks_def by (rule emits_struct_fields) simp

lemma waffle_thrift_response_async_response_args_reads:
  "3 < n \<Longrightarrow>
      reads C (waffle_thrift_response_async_response_args_read P n a) (async_response_args_toks sq op_code res) (\<lambda>x. x = a\<lparr>async_response_args_seq_id := sq, async_response_args_isset_seq_id := True, async_response_args_op_code := op_code, async_response_args_isset_op_code := True, async_response_args_result := res, async_response_args_isset_result := True\<rparr>)"
  unfolding waffle_thrift_response_async_response_args_read_def async_response_args_toks_def
  by (rule reads_struct_fields)
    (rule fr_value fr_value_at fr_done | rule reads_value sequence_id_reads | simp)+

end

end
