(* ===== verification/Thrift_Link.thy ===== *)
theory Thrift_Link
  imports Thrift_Protocol
begin

text \<open>
  One connection between a client and the server.  Each direction is a protocol state: the client's
  \<open>oprot_\<close> and the server's \<open>iprot\<close> are the two ends of \<open>lk_up\<close>, the server's \<open>oprot\<close> and the client's
  \<open>iprot_\<close> the two ends of \<open>lk_down\<close>; \<open>lk_iface\<close> is the state of the handler object behind the
  processor's \<open>iface_\<close>.  The definitions are the code that every generated client and processor
  function repeats; the rules at the end say what a piece of code does to the items in flight.
\<close>

record ('p, 'h) link =
  lk_up :: 'p
  lk_down :: 'p
  lk_iface :: 'h

definition on_up :: "('p, 'a) io \<Rightarrow> (('p, 'h) link, 'a) io" where
  "on_up m = (\<lambda>l. case m (lk_up l) of (r, p) \<Rightarrow> (r, l\<lparr>lk_up := p\<rparr>))"

definition on_down :: "('p, 'a) io \<Rightarrow> (('p, 'h) link, 'a) io" where
  "on_down m = (\<lambda>l. case m (lk_down l) of (r, p) \<Rightarrow> (r, l\<lparr>lk_down := p\<rparr>))"

definition on_iface :: "('h, 'a) io \<Rightarrow> (('p, 'h) link, 'a) io" where
  "on_iface m = (\<lambda>l. case m (lk_iface l) of (r, h) \<Rightarrow> (r, l\<lparr>lk_iface := h\<rparr>))"

subsection \<open>Messages\<close>

definition write_message :: "'p tproto \<Rightarrow> string \<Rightarrow> mtype \<Rightarrow> int \<Rightarrow> ('p, unit) io \<Rightarrow> ('p, unit) io" where
  "write_message P name mt seqid body =
     seqIO [writeMessageBegin P name mt seqid, body, writeMessageEnd P, writeEnd P, flushT P]"

definition end_of_message :: "'p tproto \<Rightarrow> ('p, unit) io" where
  "end_of_message P = seqIO [readMessageEnd P, readEnd P]"

text \<open>
  The first half of every \<open>recv_\<close> function.  An exception message is thrown; a message of another
  type or name has its struct skipped, after which the function goes on reading.
\<close>

definition recv_header :: "'p tproto \<Rightarrow> string \<Rightarrow> ('p, unit) io" where
  "recv_header P name =
     bindIO (readMessageBegin P) (\<lambda>(fname, mtype, rseqid).
       if mtype = T_EXCEPTION then
         bindIO (readException P) (\<lambda>(t, msg). bindIO (end_of_message P) (\<lambda>_. throwIO (Application_error t msg)))
       else
         seqIO [if mtype \<noteq> T_REPLY then seqIO [skipT P T_STRUCT, end_of_message P] else returnIO (),
                if fname \<noteq> name then seqIO [skipT P T_STRUCT, end_of_message P] else returnIO ()])"

definition recv_body :: "'p tproto \<Rightarrow> ('p, 'r) io \<Rightarrow> ('p, 'r) io" where
  "recv_body P rd = bindIO rd (\<lambda>res. bindIO (end_of_message P) (\<lambda>_. returnIO res))"

subsection \<open>The processor's side\<close>

definition read_args :: "'p tproto \<Rightarrow> ('p, 'r) io \<Rightarrow> (('p, 'h) link, 'r) io" where
  "read_args P rd = on_up (bindIO rd (\<lambda>args. bindIO (end_of_message P) (\<lambda>_. returnIO args)))"

text \<open>\<open>try { iface_->...; } catch (const std::exception &e)\<close>: the caught exception as a value.\<close>

definition try_call :: "('h, 'a) io \<Rightarrow> (('p, 'h) link, 'a res) io" where
  "try_call m = on_iface (catchIO (bindIO m (\<lambda>v. returnIO (Inr v))) (\<lambda>e. returnIO (Inl e)))"

definition answer ::
  "(cpp_error \<Rightarrow> string) \<Rightarrow> 'p tproto \<Rightarrow> string \<Rightarrow> int \<Rightarrow> ('h, 'a) io \<Rightarrow> ('a \<Rightarrow> ('p, unit) io)
   \<Rightarrow> (('p, 'h) link, unit) io" where
  "answer what P name seqid call write_result =
     bindIO (try_call call) (\<lambda>r. case r of
       Inl e \<Rightarrow> on_down (write_message P name T_EXCEPTION seqid (writeException P UNKNOWN_EXCEPTION (what e)))
     | Inr v \<Rightarrow> on_down (write_message P name T_REPLY seqid (write_result v)))"

definition answer_oneway :: "('h, unit) io \<Rightarrow> (('p, 'h) link, unit) io" where
  "answer_oneway call = bindIO (try_call call) (\<lambda>_. returnIO ())"

text \<open>\<open>dispatchCall\<close>, the same in both services, over the table of process functions.\<close>

definition dispatch ::
  "'p tproto \<Rightarrow> (string, int \<Rightarrow> (('p, 'h) link, unit) io) umap \<Rightarrow> string \<Rightarrow> int \<Rightarrow> (('p, 'h) link, bool) io" where
  "dispatch P processMap fname seqid =
     (case um_find processMap fname of
        None \<Rightarrow>
          bindIO (on_up (seqIO [skipT P T_STRUCT, end_of_message P])) (\<lambda>_.
          bindIO (on_down (write_message P fname T_EXCEPTION seqid
                    (writeException P UNKNOWN_METHOD
                       (''Invalid method name: '' @ [CHR 0x27] @ fname @ [CHR 0x27])))) (\<lambda>_.
          returnIO True))
      | Some pfn \<Rightarrow> bindIO (pfn seqid) (\<lambda>_. returnIO True))"

text \<open>
  What runs at the other end of the connection while a client waits: the server takes the header of
  the next message off the stream and hands the rest to \<open>dispatchCall\<close>.
\<close>

definition serve_next ::
  "'p tproto \<Rightarrow> (string \<Rightarrow> int \<Rightarrow> (('p, 'h) link, bool) io) \<Rightarrow> (('p, 'h) link, unit) io" where
  "serve_next P dispatchCall =
     bindIO (on_up (readMessageBegin P)) (\<lambda>(fname, mtype, seqid).
       bindIO (dispatchCall fname seqid) (\<lambda>_. returnIO ()))"

subsection \<open>Items in flight\<close>

text \<open>
  \<open>moves C m a b h r a' b' h'\<close>: with the items \<open>a\<close> in flight to the server, \<open>b\<close> to the client and the
  handler in state \<open>h\<close>, the code \<open>m\<close> ends with outcome \<open>r\<close> and leaves \<open>a'\<close>, \<open>b'\<close> and \<open>h'\<close>.
\<close>

definition moves ::
  "('p \<Rightarrow> tok list \<Rightarrow> bool) \<Rightarrow> (('p, 'h) link, 'v) io \<Rightarrow> tok list \<Rightarrow> tok list \<Rightarrow> 'h
   \<Rightarrow> 'v res \<Rightarrow> tok list \<Rightarrow> tok list \<Rightarrow> 'h \<Rightarrow> bool" where
  "moves C m a b h r a' b' h' \<longleftrightarrow>
     (\<forall>l. C (lk_up l) a \<and> C (lk_down l) b \<and> lk_iface l = h \<longrightarrow>
        (\<exists>l'. m l = (r, l') \<and> C (lk_up l') a' \<and> C (lk_down l') b' \<and> lk_iface l' = h'))"

text \<open>\<open>raises C m ts e\<close>: with \<open>ts\<close> in front, \<open>m\<close> takes it off and throws \<open>e\<close>.\<close>

definition raises :: "('p \<Rightarrow> tok list \<Rightarrow> bool) \<Rightarrow> ('p, 'a) io \<Rightarrow> tok list \<Rightarrow> cpp_error \<Rightarrow> bool" where
  "raises C m ts e \<longleftrightarrow> (\<forall>p q. C p (ts @ q) \<longrightarrow> (\<exists>p'. m p = (Inl e, p') \<and> C p' q))"

lemma movesI:
  assumes "\<And>l. C (lk_up l) a \<Longrightarrow> C (lk_down l) b \<Longrightarrow> lk_iface l = h
    \<Longrightarrow> \<exists>l'. m l = (r, l') \<and> C (lk_up l') a' \<and> C (lk_down l') b' \<and> lk_iface l' = h'"
  shows "moves C m a b h r a' b' h'"
  using assms by (simp add: moves_def)

lemma movesE:
  assumes "moves C m a b h r a' b' h'" and "C (lk_up l) a" and "C (lk_down l) b" and "lk_iface l = h"
  obtains l' where "m l = (r, l')" "C (lk_up l') a'" "C (lk_down l') b'" "lk_iface l' = h'"
  using assms unfolding moves_def by blast

lemma moves_bind:
  assumes "moves C m a b h (Inr x) a1 b1 h1" and "moves C (f x) a1 b1 h1 r a2 b2 h2"
  shows "moves C (bindIO m f) a b h r a2 b2 h2"
proof (rule movesI)
  fix l :: "('a, 'b) link" assume l: "C (lk_up l) a" "C (lk_down l) b" "lk_iface l = h"
  obtain l1 where l1: "m l = (Inr x, l1)" "C (lk_up l1) a1" "C (lk_down l1) b1" "lk_iface l1 = h1"
    by (rule movesE [OF assms(1) l])
  obtain l2 where "f x l1 = (r, l2)" "C (lk_up l2) a2" "C (lk_down l2) b2" "lk_iface l2 = h2"
    by (rule movesE [OF assms(2) l1(2-4)])
  then show "\<exists>l'. bindIO m f l = (r, l') \<and> C (lk_up l') a2 \<and> C (lk_down l') b2 \<and> lk_iface l' = h2"
    using l1(1) by (simp add: bindIO_ok)
qed

lemma moves_throw:
  assumes "moves C m a b h (Inl e) a1 b1 h1"
  shows "moves C (bindIO m f) a b h (Inl e) a1 b1 h1"
proof (rule movesI)
  fix l :: "('a, 'b) link" assume l: "C (lk_up l) a" "C (lk_down l) b" "lk_iface l = h"
  obtain l1 where "m l = (Inl e, l1)" "C (lk_up l1) a1" "C (lk_down l1) b1" "lk_iface l1 = h1"
    by (rule movesE [OF assms(1) l])
  then show "\<exists>l'. bindIO m f l = (Inl e, l') \<and> C (lk_up l') a1 \<and> C (lk_down l') b1 \<and> lk_iface l' = h1"
    by (simp add: bindIO_err)
qed

lemma moves_return: "moves C (returnIO x) a b h (Inr x) a b h"
  by (simp add: moves_def io_simps)

lemma up_writes: "emits C m ts \<Longrightarrow> moves C (on_up m) a b h (Inr ()) (a @ ts) b h"
  by (fastforce simp: moves_def on_up_def emits_def)

lemma down_writes: "emits C m ts \<Longrightarrow> moves C (on_down m) a b h (Inr ()) a (b @ ts) h"
  by (fastforce simp: moves_def on_down_def emits_def)

lemma up_reads: "reads C m ts (\<lambda>x. x = v) \<Longrightarrow> moves C (on_up m) (ts @ a) b h (Inr v) a b h"
  by (fastforce simp: moves_def on_up_def reads_def)

lemma down_reads: "reads C m ts (\<lambda>x. x = v) \<Longrightarrow> moves C (on_down m) a (ts @ b) h (Inr v) a b h"
  by (fastforce simp: moves_def on_down_def reads_def)

lemma down_raises: "raises C m ts e \<Longrightarrow> moves C (on_down m) a (ts @ b) h (Inl e) a b h"
  by (fastforce simp: moves_def on_down_def raises_def)

lemma raises_bind:
  assumes "raises C m a e" shows "raises C (bindIO m f) a e"
  using assms by (fastforce simp: raises_def bindIO_def)

lemma raises_then:
  assumes "reads C m a Q" and "\<And>x. Q x \<Longrightarrow> raises C (f x) b e" shows "raises C (bindIO m f) (a @ b) e"
  unfolding raises_def
proof (intro allI impI)
  fix p q assume "C p ((a @ b) @ q)"
  then obtain x p1 where p1: "m p = (Inr x, p1)" "Q x" "C p1 (b @ q)"
    using assms(1) unfolding reads_def by fastforce
  then obtain p2 where "f x p1 = (Inl e, p2)" "C p2 q" using assms(2) unfolding raises_def by blast
  then show "\<exists>p'. bindIO m f p = (Inl e, p') \<and> C p' q" using p1 by (simp add: bindIO_def)
qed

lemma raises_throw: "raises C (throwIO e) [] e"
  by (simp add: raises_def io_simps)

lemma try_call_ok:
  "call h = (Inr v, h') \<Longrightarrow> moves C (try_call call) a b h (Inr (Inr v)) a b h'"
  by (rule movesI) (simp add: try_call_def on_iface_def catchIO_def bindIO_def io_simps)

lemma try_call_exn:
  "call h = (Inl e, h') \<Longrightarrow> is_std_exception e \<Longrightarrow> moves C (try_call call) a b h (Inr (Inl e)) a b h'"
  by (rule movesI) (simp add: try_call_def on_iface_def catchIO_def bindIO_def io_simps)

context thrift_protocol
begin

lemma emits_message:
  assumes "tok_ok (K_msg nm mt i)" and "emits C body ts"
  shows "emits C (write_message P nm mt i body) (K_msg nm mt i # ts)"
proof -
  have "list_all2 (emits C) [writeMessageBegin P nm mt i, body, writeMessageEnd P, writeEnd P, flushT P]
      [[K_msg nm mt i], ts, [], [], []]"
    using w_message [OF assms(1)] assms(2) w_message_end w_end w_flush by (simp del: tok_ok.simps)
  from emits_seq [OF this] show ?thesis by (simp add: write_message_def)
qed

lemma reads_end: "reads C (end_of_message P) [] (\<lambda>_. True)"
proof -
  have "reads C (bindIO (readEnd P) (\<lambda>_. returnIO ())) [] (\<lambda>_. True)"
    by (rule reads_then [OF r_end]) simp
  then have "reads C (end_of_message P) ([] @ []) (\<lambda>_. True)"
    unfolding end_of_message_def seqIO.simps by (rule reads_bind [OF r_message_end])
  then show ?thesis by simp
qed

lemma reads_body:
  assumes "reads C rd ts Q" shows "reads C (recv_body P rd) ts Q"
proof -
  have "reads C (recv_body P rd) (ts @ []) Q"
    unfolding recv_body_def by (rule reads_bind [OF assms]) (rule reads_then [OF reads_end])
  then show ?thesis by simp
qed

lemma reads_header: "reads C (recv_header P nm) [K_msg nm T_REPLY i] (\<lambda>_. True)"
proof -
  have "reads C (seqIO [returnIO (), returnIO ()]) [] (\<lambda>_. True)"
    by (simp add: reads_def io_simps bindIO_def)
  then have "reads C (recv_header P nm) ([K_msg nm T_REPLY i] @ []) (\<lambda>_. True)"
    unfolding recv_header_def by (intro reads_bind [OF r_message]) simp
  then show ?thesis by simp
qed

lemma header_raises:
  "raises C (recv_header P nm) [K_msg f T_EXCEPTION i, K_exn t msg] (Application_error t msg)"
proof -
  have e: "raises C (bindIO (end_of_message P) (\<lambda>_. throwIO (Application_error t msg))) ([] @ [])
      (Application_error t msg)"
    by (rule raises_then [OF reads_end]) (rule raises_throw)
  have "raises C (bindIO (readException P) (\<lambda>(t, msg).
      bindIO (end_of_message P) (\<lambda>_. throwIO (Application_error t msg)))) ([K_exn t msg] @ [])
      (Application_error t msg)"
    by (rule raises_then [OF r_exception]) (use e in simp)
  then have "raises C (recv_header P nm) ([K_msg f T_EXCEPTION i] @ [K_exn t msg]) (Application_error t msg)"
    unfolding recv_header_def by (intro raises_then [OF r_message]) simp
  then show ?thesis by simp
qed

lemma read_args_moves:
  "reads C rd ts (\<lambda>x. x = v) \<Longrightarrow> moves C (read_args P rd) (ts @ a) b h (Inr v) a b h"
  unfolding read_args_def by (rule up_reads, rule reads_body [unfolded recv_body_def])

lemma answer_ok:
  assumes "call h = (Inr v, h')" and "emits C (wr v) ts" and "tok_ok (K_msg nm T_REPLY i)"
  shows "moves C (answer what P nm i call wr) a b h (Inr ()) a (b @ K_msg nm T_REPLY i # ts) h'"
  unfolding answer_def
  by (rule moves_bind [OF try_call_ok [of call, OF assms(1)]])
    (simp, rule down_writes [OF emits_message [OF assms(3,2)]])

lemma answer_exn:
  assumes "call h = (Inl e, h')" and "is_std_exception e" and "str_ok (what e)"
    and "tok_ok (K_msg nm T_EXCEPTION i)"
  shows "moves C (answer what P nm i call wr) a b h (Inr ()) a
      (b @ [K_msg nm T_EXCEPTION i, K_exn UNKNOWN_EXCEPTION (what e)]) h'"
proof -
  have "tok_ok (K_exn UNKNOWN_EXCEPTION (what e))"
    using assms(3) by (simp add: str_ok_def UNKNOWN_EXCEPTION_def fits32_def int_min_def int_max_def)
  from emits_message [OF assms(4) w_exception [OF this]] show ?thesis unfolding answer_def
    by (intro moves_bind [OF try_call_exn [of call, OF assms(1,2)]]) (simp add: down_writes)
qed

lemma answer_oneway_moves:
  assumes "call h = (r, h')" and "case r of Inl e \<Rightarrow> is_std_exception e | Inr _ \<Rightarrow> True"
  shows "moves C (answer_oneway call) a b h (Inr ()) a b h'"
proof (cases r)
  case (Inl e)
  with assms show ?thesis unfolding answer_oneway_def
    by (intro moves_bind [OF try_call_exn [of call]]) (auto intro: moves_return)
next
  case (Inr v)
  with assms show ?thesis unfolding answer_oneway_def
    by (intro moves_bind [OF try_call_ok [of call]]) (auto intro: moves_return)
qed

text \<open>A known method runs its process function; an unknown one is answered with an exception.\<close>

lemma serve_known:
  assumes "um_find pm nm = Some pfn" and "moves C (pfn i) a b h (Inr ()) a' b' h'"
  shows "moves C (serve_next P (dispatch P pm)) (K_msg nm mt i # a) b h (Inr ()) a' b' h'"
proof -
  have "moves C (dispatch P pm nm i) a b h (Inr True) a' b' h'"
    using moves_bind [OF assms(2) moves_return] assms(1) by (simp add: dispatch_def)
  then have "moves C (bindIO (dispatch P pm nm i) (\<lambda>_. returnIO ())) a b h (Inr ()) a' b' h'"
    by (rule moves_bind) (rule moves_return)
  then have "moves C (serve_next P (dispatch P pm)) ([K_msg nm mt i] @ a) b h (Inr ()) a' b' h'"
    unfolding serve_next_def by (intro moves_bind [OF up_reads [OF r_message]]) simp
  then show ?thesis by simp
qed

abbreviation unknown_reply :: "string \<Rightarrow> tok" where
  "unknown_reply nm \<equiv> K_exn UNKNOWN_METHOD (''Invalid method name: '' @ [CHR 0x27] @ nm @ [CHR 0x27])"

lemma serve_unknown:
  assumes "um_find pm nm = None" and "tval T_STRUCT v" and "list_all tok_ok v"
    and "tok_ok (K_msg nm T_EXCEPTION i)" and "tok_ok (unknown_reply nm)"
  shows "moves C (serve_next P (dispatch P pm)) (K_msg nm mt i # v @ a) b h (Inr ())
    a (b @ [K_msg nm T_EXCEPTION i, unknown_reply nm]) h"
proof -
  have s: "reads C (seqIO [skipT P T_STRUCT, end_of_message P]) v (\<lambda>x. x = ())"
  proof -
    have e: "reads C (seqIO [end_of_message P]) [] (\<lambda>x. x = ())"
      unfolding seqIO.simps by (rule reads_then [OF reads_end]) simp
    have "reads C (seqIO [skipT P T_STRUCT, end_of_message P]) (v @ []) (\<lambda>x. x = ())"
      unfolding seqIO.simps(2) [of "skipT P T_STRUCT"] by (rule reads_bind [OF r_skip [OF assms(2,3)] e])
    then show ?thesis by simp
  qed
  have "moves C (dispatch P pm nm i) (v @ a) b h (Inr True) a
      (b @ [K_msg nm T_EXCEPTION i, unknown_reply nm]) h"
    unfolding dispatch_def assms(1) option.case
    by (rule moves_bind [OF up_reads [OF s]],
        rule moves_bind [OF down_writes [OF emits_message [OF assms(4) w_exception [OF assms(5)]]]],
        rule moves_return)
  then have "moves C (bindIO (dispatch P pm nm i) (\<lambda>_. returnIO ())) (v @ a) b h (Inr ()) a
      (b @ [K_msg nm T_EXCEPTION i, unknown_reply nm]) h"
    by (rule moves_bind) (rule moves_return)
  then have "moves C (serve_next P (dispatch P pm)) ([K_msg nm mt i] @ v @ a) b h (Inr ()) a
      (b @ [K_msg nm T_EXCEPTION i, unknown_reply nm]) h"
    unfolding serve_next_def by (intro moves_bind [OF up_reads [OF r_message]]) simp
  then show ?thesis by simp
qed

text \<open>A call is a send, a turn of the server and a receive.\<close>

lemma rpc:
  assumes "emits C sd (K_msg nm mt i # ats)" and "um_find pm nm = Some pfn"
    and "moves C (pfn i) ats [] h (Inr ()) [] rts h'" and "moves C (on_down rcv) [] rts h' r [] [] h'"
  shows "moves C (bindIO (on_up sd) (\<lambda>_. bindIO (serve_next P (dispatch P pm)) (\<lambda>_. on_down rcv)))
    [] [] h r [] [] h'"
  using up_writes [OF assms(1), of "[]" "[]" h] serve_known [where mt = mt, OF assms(2,3)] assms(4)
  by (auto intro!: moves_bind [of C "on_up sd"] moves_bind [of C "serve_next P (dispatch P pm)"])

end

end
