(* ===== verification/Thrift_Client.thy ===== *)
theory Thrift_Client
  imports Thrift_Structs Thrift_Link
begin

text \<open>
  The generated client \<open>waffle_thriftClient\<close> (\<open>waffle_thrift.cpp\<close>): for each of the eleven methods a
  \<open>send_\<close> function on \<open>oprot_\<close>, for the ones with a reply a \<open>recv_\<close> function on \<open>iprot_\<close>, and the call
  itself.
\<close>

subsection \<open>\<open>waffle_thriftClient\<close>: sending\<close>

definition waffle_thriftClient_send_get_client_id :: "'p tproto \<Rightarrow> ('p, unit) io" where
  "waffle_thriftClient_send_get_client_id P =
     write_message P ''get_client_id'' T_CALL 0 (waffle_thrift_get_client_id_pargs_write P)"

definition waffle_thriftClient_send_register_client_id ::
  "'p tproto \<Rightarrow> int \<Rightarrow> int \<Rightarrow> ('p, unit) io" where
  "waffle_thriftClient_send_register_client_id P blk cid =
     write_message P ''register_client_id'' T_CALL 0 (waffle_thrift_register_client_id_pargs_write P blk cid)"

definition waffle_thriftClient_send_async_get ::
  "'p tproto \<Rightarrow> sequence_id \<Rightarrow> string \<Rightarrow> ('p, unit) io" where
  "waffle_thriftClient_send_async_get P sq key =
     write_message P ''async_get'' T_ONEWAY 0 (waffle_thrift_async_get_pargs_write P sq key)"

definition waffle_thriftClient_send_async_put ::
  "'p tproto \<Rightarrow> sequence_id \<Rightarrow> string \<Rightarrow> string \<Rightarrow> ('p, unit) io" where
  "waffle_thriftClient_send_async_put P sq key value =
     write_message P ''async_put'' T_ONEWAY 0 (waffle_thrift_async_put_pargs_write P sq key value)"

definition waffle_thriftClient_send_async_get_batch ::
  "'p tproto \<Rightarrow> sequence_id \<Rightarrow> string list \<Rightarrow> ('p, unit) io" where
  "waffle_thriftClient_send_async_get_batch P sq keys =
     write_message P ''async_get_batch'' T_ONEWAY 0 (waffle_thrift_async_get_batch_pargs_write P sq keys)"

definition waffle_thriftClient_send_async_put_batch ::
  "'p tproto \<Rightarrow> sequence_id \<Rightarrow> string list \<Rightarrow> string list \<Rightarrow> ('p, unit) io" where
  "waffle_thriftClient_send_async_put_batch P sq keys values =
     write_message P ''async_put_batch'' T_ONEWAY 0 (waffle_thrift_async_put_batch_pargs_write P sq keys values)"

definition waffle_thriftClient_send_get :: "'p tproto \<Rightarrow> string \<Rightarrow> ('p, unit) io" where
  "waffle_thriftClient_send_get P key =
     write_message P ''get'' T_CALL 0 (waffle_thrift_get_pargs_write P key)"

definition waffle_thriftClient_send_put :: "'p tproto \<Rightarrow> string \<Rightarrow> string \<Rightarrow> ('p, unit) io" where
  "waffle_thriftClient_send_put P key value =
     write_message P ''put'' T_CALL 0 (waffle_thrift_put_pargs_write P key value)"

definition waffle_thriftClient_send_get_batch :: "'p tproto \<Rightarrow> string list \<Rightarrow> ('p, unit) io" where
  "waffle_thriftClient_send_get_batch P keys =
     write_message P ''get_batch'' T_CALL 0 (waffle_thrift_get_batch_pargs_write P keys)"

definition waffle_thriftClient_send_put_batch ::
  "'p tproto \<Rightarrow> string list \<Rightarrow> string list \<Rightarrow> ('p, unit) io" where
  "waffle_thriftClient_send_put_batch P keys values =
     write_message P ''put_batch'' T_CALL 0 (waffle_thrift_put_batch_pargs_write P keys values)"

definition waffle_thriftClient_send_search :: "'p tproto \<Rightarrow> string \<Rightarrow> ('p, unit) io" where
  "waffle_thriftClient_send_search P keys =
     write_message P ''search'' T_CALL 0 (waffle_thrift_search_pargs_write P keys)"

subsection \<open>\<open>waffle_thriftClient\<close>: receiving\<close>

text \<open>
  \<open>r0\<close> is the content of the caller's variable before the call; it is overwritten when the reply has a
  result.
\<close>

definition waffle_thriftClient_recv_get_client_id :: "'p tproto \<Rightarrow> nat \<Rightarrow> int \<Rightarrow> ('p, int) io" where
  "waffle_thriftClient_recv_get_client_id P n r0 =
     bindIO (recv_header P ''get_client_id'') (\<lambda>_.
     bindIO (recv_body P (waffle_thrift_get_client_id_presult_read P n
               \<lparr> get_client_id_result_success = r0, get_client_id_result_isset_success = False \<rparr>)) (\<lambda>result.
       if get_client_id_result_isset_success result then returnIO (get_client_id_result_success result)
       else throwIO (Application_error MISSING_RESULT ''get_client_id failed: unknown result'')))"

definition waffle_thriftClient_recv_register_client_id :: "'p tproto \<Rightarrow> nat \<Rightarrow> ('p, unit) io" where
  "waffle_thriftClient_recv_register_client_id P n =
     bindIO (recv_header P ''register_client_id'') (\<lambda>_.
     bindIO (recv_body P (waffle_thrift_register_client_id_presult_read P n ())) (\<lambda>result. returnIO ()))"

definition waffle_thriftClient_recv_get :: "'p tproto \<Rightarrow> nat \<Rightarrow> string \<Rightarrow> ('p, string) io" where
  "waffle_thriftClient_recv_get P n r0 =
     bindIO (recv_header P ''get'') (\<lambda>_.
     bindIO (recv_body P (waffle_thrift_get_presult_read P n
               \<lparr> get_result_success = r0, get_result_isset_success = False \<rparr>)) (\<lambda>result.
       if get_result_isset_success result then returnIO (get_result_success result)
       else throwIO (Application_error MISSING_RESULT ''get failed: unknown result'')))"

definition waffle_thriftClient_recv_put :: "'p tproto \<Rightarrow> nat \<Rightarrow> ('p, unit) io" where
  "waffle_thriftClient_recv_put P n =
     bindIO (recv_header P ''put'') (\<lambda>_.
     bindIO (recv_body P (waffle_thrift_put_presult_read P n ())) (\<lambda>result. returnIO ()))"

definition waffle_thriftClient_recv_get_batch ::
  "'p tproto \<Rightarrow> nat \<Rightarrow> string list \<Rightarrow> ('p, string list) io" where
  "waffle_thriftClient_recv_get_batch P n r0 =
     bindIO (recv_header P ''get_batch'') (\<lambda>_.
     bindIO (recv_body P (waffle_thrift_get_batch_presult_read P n
               \<lparr> get_batch_result_success = r0, get_batch_result_isset_success = False \<rparr>)) (\<lambda>result.
       if get_batch_result_isset_success result then returnIO (get_batch_result_success result)
       else throwIO (Application_error MISSING_RESULT ''get_batch failed: unknown result'')))"

definition waffle_thriftClient_recv_put_batch :: "'p tproto \<Rightarrow> nat \<Rightarrow> ('p, unit) io" where
  "waffle_thriftClient_recv_put_batch P n =
     bindIO (recv_header P ''put_batch'') (\<lambda>_.
     bindIO (recv_body P (waffle_thrift_put_batch_presult_read P n ())) (\<lambda>result. returnIO ()))"

definition waffle_thriftClient_recv_search ::
  "'p tproto \<Rightarrow> nat \<Rightarrow> string list \<Rightarrow> ('p, string list) io" where
  "waffle_thriftClient_recv_search P n r0 =
     bindIO (recv_header P ''search'') (\<lambda>_.
     bindIO (recv_body P (waffle_thrift_search_presult_read P n
               \<lparr> search_result_success = r0, search_result_isset_success = False \<rparr>)) (\<lambda>result.
       if search_result_isset_success result then returnIO (search_result_success result)
       else throwIO (Application_error MISSING_RESULT ''search failed: unknown result'')))"

subsection \<open>\<open>waffle_thriftClient\<close>: the calls\<close>

text \<open>
  A call with a reply waits between its two halves; \<open>peer\<close> is what happens at the other end of the
  connection meanwhile.  A one-way call returns after the send.
\<close>

definition waffle_thriftClient_get_client_id ::
  "'p tproto \<Rightarrow> nat \<Rightarrow> (('p, 'h) link, unit) io \<Rightarrow> int \<Rightarrow> (('p, 'h) link, int) io" where
  "waffle_thriftClient_get_client_id P n peer r0 =
     bindIO (on_up (waffle_thriftClient_send_get_client_id P)) (\<lambda>_.
     bindIO peer (\<lambda>_. on_down (waffle_thriftClient_recv_get_client_id P n r0)))"

definition waffle_thriftClient_register_client_id ::
  "'p tproto \<Rightarrow> nat \<Rightarrow> (('p, 'h) link, unit) io \<Rightarrow> int \<Rightarrow> int \<Rightarrow> (('p, 'h) link, unit) io" where
  "waffle_thriftClient_register_client_id P n peer blk cid =
     bindIO (on_up (waffle_thriftClient_send_register_client_id P blk cid)) (\<lambda>_.
     bindIO peer (\<lambda>_. on_down (waffle_thriftClient_recv_register_client_id P n)))"

definition waffle_thriftClient_async_get ::
  "'p tproto \<Rightarrow> sequence_id \<Rightarrow> string \<Rightarrow> (('p, 'h) link, unit) io" where
  "waffle_thriftClient_async_get P sq key = on_up (waffle_thriftClient_send_async_get P sq key)"

definition waffle_thriftClient_async_put ::
  "'p tproto \<Rightarrow> sequence_id \<Rightarrow> string \<Rightarrow> string \<Rightarrow> (('p, 'h) link, unit) io" where
  "waffle_thriftClient_async_put P sq key value = on_up (waffle_thriftClient_send_async_put P sq key value)"

definition waffle_thriftClient_async_get_batch ::
  "'p tproto \<Rightarrow> sequence_id \<Rightarrow> string list \<Rightarrow> (('p, 'h) link, unit) io" where
  "waffle_thriftClient_async_get_batch P sq keys = on_up (waffle_thriftClient_send_async_get_batch P sq keys)"

definition waffle_thriftClient_async_put_batch ::
  "'p tproto \<Rightarrow> sequence_id \<Rightarrow> string list \<Rightarrow> string list \<Rightarrow> (('p, 'h) link, unit) io" where
  "waffle_thriftClient_async_put_batch P sq keys values = on_up (waffle_thriftClient_send_async_put_batch P sq keys values)"

definition waffle_thriftClient_get ::
  "'p tproto \<Rightarrow> nat \<Rightarrow> (('p, 'h) link, unit) io \<Rightarrow> string \<Rightarrow> string \<Rightarrow> (('p, 'h) link, string) io" where
  "waffle_thriftClient_get P n peer r0 key =
     bindIO (on_up (waffle_thriftClient_send_get P key)) (\<lambda>_.
     bindIO peer (\<lambda>_. on_down (waffle_thriftClient_recv_get P n r0)))"

definition waffle_thriftClient_put ::
  "'p tproto \<Rightarrow> nat \<Rightarrow> (('p, 'h) link, unit) io \<Rightarrow> string \<Rightarrow> string \<Rightarrow> (('p, 'h) link, unit) io" where
  "waffle_thriftClient_put P n peer key value =
     bindIO (on_up (waffle_thriftClient_send_put P key value)) (\<lambda>_.
     bindIO peer (\<lambda>_. on_down (waffle_thriftClient_recv_put P n)))"

definition waffle_thriftClient_get_batch ::
  "'p tproto \<Rightarrow> nat \<Rightarrow> (('p, 'h) link, unit) io \<Rightarrow> string list \<Rightarrow> string list \<Rightarrow> (('p, 'h) link,
      string list) io" where
  "waffle_thriftClient_get_batch P n peer r0 keys =
     bindIO (on_up (waffle_thriftClient_send_get_batch P keys)) (\<lambda>_.
     bindIO peer (\<lambda>_. on_down (waffle_thriftClient_recv_get_batch P n r0)))"

definition waffle_thriftClient_put_batch ::
  "'p tproto \<Rightarrow> nat \<Rightarrow> (('p, 'h) link, unit) io \<Rightarrow> string list \<Rightarrow> string list \<Rightarrow> (('p, 'h) link, unit) io" where
  "waffle_thriftClient_put_batch P n peer keys values =
     bindIO (on_up (waffle_thriftClient_send_put_batch P keys values)) (\<lambda>_.
     bindIO peer (\<lambda>_. on_down (waffle_thriftClient_recv_put_batch P n)))"

definition waffle_thriftClient_search ::
  "'p tproto \<Rightarrow> nat \<Rightarrow> (('p, 'h) link, unit) io \<Rightarrow> string list \<Rightarrow> string \<Rightarrow> (('p, 'h) link,
      string list) io" where
  "waffle_thriftClient_search P n peer r0 keys =
     bindIO (on_up (waffle_thriftClient_send_search P keys)) (\<lambda>_.
     bindIO peer (\<lambda>_. on_down (waffle_thriftClient_recv_search P n r0)))"

subsection \<open>What is sent and what is received\<close>

context thrift_protocol
begin

lemma recv_reads:
  assumes "reads C rd ts (\<lambda>x. x = w)" and "reads C (f w) [] Q"
  shows "reads C (bindIO (recv_header P nm) (\<lambda>_. bindIO (recv_body P rd) f)) (K_msg nm T_REPLY i # ts) Q"
proof -
  have "reads C (bindIO (recv_body P rd) f) (ts @ []) Q"
    by (rule reads_bind [OF reads_body [OF assms(1)]]) (use assms(2) in simp)
  then have "reads C (bindIO (recv_header P nm) (\<lambda>_. bindIO (recv_body P rd) f)) ([K_msg nm T_REPLY i] @ ts) Q"
    by (intro reads_bind [OF reads_header]) simp
  then show ?thesis by simp
qed

lemma sequence_flags:
  assumes "\<forall>(i, x) \<in> set ixs. i \<in> {1, 2, 3}"
  shows "\<exists>s'. fields_read P C (sequence_id_cases P) (s, b1, b2, b3) (map (\<lambda>(i, x). (T_I64, i, [K_i64 x])) ixs)
     (s', b1 \<or> 1 \<in> fst ` set ixs, b2 \<or> 2 \<in> fst ` set ixs, b3 \<or> 3 \<in> fst ` set ixs)"
  using assms
proof (induction ixs arbitrary: s b1 b2 b3)
  case Nil
  then show ?case by (auto intro: fr_nil)
next
  case (Cons y ixs)
  obtain i x where y: "y = (i, x)" by fastforce
  let ?s = "if i = 1 then s\<lparr>client_id := x\<rparr> else if i = 2 then s\<lparr>client_seq_no := x\<rparr> else s\<lparr>server_seq_no := x\<rparr>"
  obtain s' where s': "fields_read P C (sequence_id_cases P) (?s, b1 \<or> 1 = i, b2 \<or> 2 = i, b3 \<or> 3 = i)
      (map (\<lambda>(i, x). (T_I64, i, [K_i64 x])) ixs)
      (s', (b1 \<or> 1 = i) \<or> 1 \<in> fst ` set ixs, (b2 \<or> 2 = i) \<or> 2 \<in> fst ` set ixs, (b3 \<or> 3 = i) \<or> 3 \<in> fst ` set ixs)"
  proof -
    have "\<forall>(i, x) \<in> set ixs. i \<in> {1, 2, 3}" using Cons.prems by simp
    from Cons.IH [OF this, of ?s "b1 \<or> 1 = i" "b2 \<or> 2 = i" "b3 \<or> 3 = i"] show ?thesis
      by (rule exE) (rule that)
  qed
  consider "i = 1" | "i = 2" | "i = 3" using Cons.prems y by auto
  then have "fields_read P C (sequence_id_cases P) (s, b1, b2, b3) (map (\<lambda>(i, x). (T_I64, i, [K_i64 x])) ((i, x) # ixs))
      (s', (b1 \<or> 1 = i) \<or> 1 \<in> fst ` set ixs, (b2 \<or> 2 = i) \<or> 2 \<in> fst ` set ixs, (b3 \<or> 3 = i) \<or> 3 \<in> fst ` set ixs)"
    using s' by cases (simp, rule fr_value [OF _ _ r_i64], simp add: sequence_id_cases_def, simp, simp)+
  then show ?case unfolding y by (intro exI [of _ s']) (simp add: disj_assoc)
qed

lemma sequence_id_incomplete:
  assumes "\<forall>(i, x) \<in> set ixs. i \<in> {1, 2, 3}" and "\<not> {1, 2, 3} \<subseteq> fst ` set ixs" and "length ixs < n"
  shows "raises C (sequence_id_read P n s0) (struct_toks (map (\<lambda>(i, x). (T_I64, i, [K_i64 x])) ixs))
    (Protocol_error INVALID_DATA)"
proof -
  obtain s' where f: "fields_read P C (sequence_id_cases P)
     (s0, False, False, False) (map (\<lambda>(i, x). (T_I64, i, [K_i64 x])) ixs)
     (s', 1 \<in> fst ` set ixs, 2 \<in> fst ` set ixs, 3 \<in> fst ` set ixs)"
    using sequence_flags [OF assms(1), of s0 False False False] by auto
  have "raises C (sequence_id_read P n s0) (struct_toks (map (\<lambda>(i, x). (T_I64, i, [K_i64 x])) ixs) @ [])
    (Protocol_error INVALID_DATA)"
    unfolding sequence_id_read_def
    by (rule raises_then [OF reads_struct_fields [OF f]]) (use assms(2,3) in \<open>auto simp: raises_throw\<close>)
  then show ?thesis by simp
qed

lemma recv_missing:
  assumes "reads C rd ts (\<lambda>x. x = w)" and "raises C (f w) [] e"
  shows "raises C (bindIO (recv_header P nm) (\<lambda>_. bindIO (recv_body P rd) f)) (K_msg nm T_REPLY i # ts) e"
proof -
  have "raises C (bindIO (recv_body P rd) f) (ts @ []) e"
    by (rule raises_then [OF reads_body [OF assms(1)]]) (use assms(2) in simp)
  then have "raises C (bindIO (recv_header P nm) (\<lambda>_. bindIO (recv_body P rd) f)) ([K_msg nm T_REPLY i] @ ts) e"
    by (intro raises_then [OF reads_header]) simp
  then show ?thesis by simp
qed

lemma send_get_client_id_writes:
  "emits C (waffle_thriftClient_send_get_client_id P) (K_msg ''get_client_id'' T_CALL 0 # get_client_id_args_toks)"
  unfolding waffle_thriftClient_send_get_client_id_def
  by (rule emits_message) (simp_all add: fits32_def int_min_def int_max_def waffle_thrift_get_client_id_pargs_writes)

lemma recv_get_client_id_reads:
  "1 < n \<Longrightarrow> reads C (waffle_thriftClient_recv_get_client_id P n r0)
     (K_msg ''get_client_id'' T_REPLY i # get_client_id_result_toks v) (\<lambda>x. x = v)"
  unfolding waffle_thriftClient_recv_get_client_id_def
  by (rule recv_reads, rule waffle_thrift_get_client_id_presult_reads) (simp_all add: reads_return)

lemma recv_get_client_id_raises:
  "raises C (waffle_thriftClient_recv_get_client_id P n r0)
     [K_msg f T_EXCEPTION i, K_exn t msg] (Application_error t msg)"
  unfolding waffle_thriftClient_recv_get_client_id_def by (rule raises_bind, rule header_raises)

lemma recv_get_client_id_missing:
  "0 < n \<Longrightarrow> raises C (waffle_thriftClient_recv_get_client_id P n r0)
     (K_msg ''get_client_id'' T_REPLY i # struct_toks []) (Application_error MISSING_RESULT ''get_client_id failed: unknown result'')"
  unfolding waffle_thriftClient_recv_get_client_id_def waffle_thrift_get_client_id_presult_read_def
  by (rule recv_missing, rule reads_struct_fields, rule fr_done, rule refl) (simp_all add: raises_throw)

lemma send_register_client_id_writes:
  "fits32 blk \<Longrightarrow> fits64 cid \<Longrightarrow>
      emits C (waffle_thriftClient_send_register_client_id P blk cid) (K_msg ''register_client_id'' T_CALL 0 # register_client_id_args_toks blk cid)"
  unfolding waffle_thriftClient_send_register_client_id_def
  by (rule emits_message) (simp_all add: fits32_def int_min_def int_max_def waffle_thrift_register_client_id_pargs_writes)

lemma recv_register_client_id_reads:
  "1 < n \<Longrightarrow> reads C (waffle_thriftClient_recv_register_client_id P n)
     (K_msg ''register_client_id'' T_REPLY i # register_client_id_result_toks) (\<lambda>x. x = ())"
  unfolding waffle_thriftClient_recv_register_client_id_def
  by (rule recv_reads, rule waffle_thrift_register_client_id_presult_reads) (simp_all add: reads_return)

lemma recv_register_client_id_raises:
  "raises C (waffle_thriftClient_recv_register_client_id P n)
     [K_msg f T_EXCEPTION i, K_exn t msg] (Application_error t msg)"
  unfolding waffle_thriftClient_recv_register_client_id_def by (rule raises_bind, rule header_raises)

lemma send_async_get_writes:
  "sequence_id_ok sq \<Longrightarrow> str_ok key \<Longrightarrow>
      emits C (waffle_thriftClient_send_async_get P sq key) (K_msg ''async_get'' T_ONEWAY 0 # async_get_args_toks sq key)"
  unfolding waffle_thriftClient_send_async_get_def
  by (rule emits_message) (simp_all add: fits32_def int_min_def int_max_def waffle_thrift_async_get_pargs_writes)

lemma send_async_put_writes:
  "sequence_id_ok sq \<Longrightarrow> str_ok key \<Longrightarrow> str_ok value \<Longrightarrow>
      emits C (waffle_thriftClient_send_async_put P sq key value) (K_msg ''async_put'' T_ONEWAY 0 # async_put_args_toks sq key value)"
  unfolding waffle_thriftClient_send_async_put_def
  by (rule emits_message) (simp_all add: fits32_def int_min_def int_max_def waffle_thrift_async_put_pargs_writes)

lemma send_async_get_batch_writes:
  "sequence_id_ok sq \<Longrightarrow> strs_ok keys \<Longrightarrow>
      emits C (waffle_thriftClient_send_async_get_batch P sq keys) (K_msg ''async_get_batch'' T_ONEWAY 0 # async_get_batch_args_toks sq keys)"
  unfolding waffle_thriftClient_send_async_get_batch_def
  by (rule emits_message) (simp_all add: fits32_def int_min_def int_max_def waffle_thrift_async_get_batch_pargs_writes)

lemma send_async_put_batch_writes:
  "sequence_id_ok sq \<Longrightarrow> strs_ok keys \<Longrightarrow> strs_ok values \<Longrightarrow>
      emits C (waffle_thriftClient_send_async_put_batch P sq keys values) (K_msg ''async_put_batch'' T_ONEWAY 0 # async_put_batch_args_toks sq keys values)"
  unfolding waffle_thriftClient_send_async_put_batch_def
  by (rule emits_message) (simp_all add: fits32_def int_min_def int_max_def waffle_thrift_async_put_batch_pargs_writes)

lemma send_get_writes:
  "str_ok key \<Longrightarrow> emits C (waffle_thriftClient_send_get P key) (K_msg ''get'' T_CALL 0 # get_args_toks key)"
  unfolding waffle_thriftClient_send_get_def
  by (rule emits_message) (simp_all add: fits32_def int_min_def int_max_def waffle_thrift_get_pargs_writes)

lemma recv_get_reads:
  "1 < n \<Longrightarrow> reads C (waffle_thriftClient_recv_get P n r0)
     (K_msg ''get'' T_REPLY i # get_result_toks v) (\<lambda>x. x = v)"
  unfolding waffle_thriftClient_recv_get_def
  by (rule recv_reads, rule waffle_thrift_get_presult_reads) (simp_all add: reads_return)

lemma recv_get_raises:
  "raises C (waffle_thriftClient_recv_get P n r0)
     [K_msg f T_EXCEPTION i, K_exn t msg] (Application_error t msg)"
  unfolding waffle_thriftClient_recv_get_def by (rule raises_bind, rule header_raises)

lemma recv_get_missing:
  "0 < n \<Longrightarrow> raises C (waffle_thriftClient_recv_get P n r0)
     (K_msg ''get'' T_REPLY i # struct_toks []) (Application_error MISSING_RESULT ''get failed: unknown result'')"
  unfolding waffle_thriftClient_recv_get_def waffle_thrift_get_presult_read_def
  by (rule recv_missing, rule reads_struct_fields, rule fr_done, rule refl) (simp_all add: raises_throw)

lemma send_put_writes:
  "str_ok key \<Longrightarrow> str_ok value \<Longrightarrow>
      emits C (waffle_thriftClient_send_put P key value) (K_msg ''put'' T_CALL 0 # put_args_toks key value)"
  unfolding waffle_thriftClient_send_put_def
  by (rule emits_message) (simp_all add: fits32_def int_min_def int_max_def waffle_thrift_put_pargs_writes)

lemma recv_put_reads:
  "1 < n \<Longrightarrow> reads C (waffle_thriftClient_recv_put P n)
     (K_msg ''put'' T_REPLY i # put_result_toks) (\<lambda>x. x = ())"
  unfolding waffle_thriftClient_recv_put_def
  by (rule recv_reads, rule waffle_thrift_put_presult_reads) (simp_all add: reads_return)

lemma recv_put_raises:
  "raises C (waffle_thriftClient_recv_put P n)
     [K_msg f T_EXCEPTION i, K_exn t msg] (Application_error t msg)"
  unfolding waffle_thriftClient_recv_put_def by (rule raises_bind, rule header_raises)

lemma send_get_batch_writes:
  "strs_ok keys \<Longrightarrow>
      emits C (waffle_thriftClient_send_get_batch P keys) (K_msg ''get_batch'' T_CALL 0 # get_batch_args_toks keys)"
  unfolding waffle_thriftClient_send_get_batch_def
  by (rule emits_message) (simp_all add: fits32_def int_min_def int_max_def waffle_thrift_get_batch_pargs_writes)

lemma recv_get_batch_reads:
  "1 < n \<Longrightarrow> reads C (waffle_thriftClient_recv_get_batch P n r0)
     (K_msg ''get_batch'' T_REPLY i # get_batch_result_toks v) (\<lambda>x. x = v)"
  unfolding waffle_thriftClient_recv_get_batch_def
  by (rule recv_reads, rule waffle_thrift_get_batch_presult_reads) (simp_all add: reads_return)

lemma recv_get_batch_raises:
  "raises C (waffle_thriftClient_recv_get_batch P n r0)
     [K_msg f T_EXCEPTION i, K_exn t msg] (Application_error t msg)"
  unfolding waffle_thriftClient_recv_get_batch_def by (rule raises_bind, rule header_raises)

lemma recv_get_batch_missing:
  "0 < n \<Longrightarrow> raises C (waffle_thriftClient_recv_get_batch P n r0)
     (K_msg ''get_batch'' T_REPLY i # struct_toks []) (Application_error MISSING_RESULT ''get_batch failed: unknown result'')"
  unfolding waffle_thriftClient_recv_get_batch_def waffle_thrift_get_batch_presult_read_def
  by (rule recv_missing, rule reads_struct_fields, rule fr_done, rule refl) (simp_all add: raises_throw)

lemma send_put_batch_writes:
  "strs_ok keys \<Longrightarrow> strs_ok values \<Longrightarrow>
      emits C (waffle_thriftClient_send_put_batch P keys values) (K_msg ''put_batch'' T_CALL 0 # put_batch_args_toks keys values)"
  unfolding waffle_thriftClient_send_put_batch_def
  by (rule emits_message) (simp_all add: fits32_def int_min_def int_max_def waffle_thrift_put_batch_pargs_writes)

lemma recv_put_batch_reads:
  "1 < n \<Longrightarrow> reads C (waffle_thriftClient_recv_put_batch P n)
     (K_msg ''put_batch'' T_REPLY i # put_batch_result_toks) (\<lambda>x. x = ())"
  unfolding waffle_thriftClient_recv_put_batch_def
  by (rule recv_reads, rule waffle_thrift_put_batch_presult_reads) (simp_all add: reads_return)

lemma recv_put_batch_raises:
  "raises C (waffle_thriftClient_recv_put_batch P n)
     [K_msg f T_EXCEPTION i, K_exn t msg] (Application_error t msg)"
  unfolding waffle_thriftClient_recv_put_batch_def by (rule raises_bind, rule header_raises)

lemma send_search_writes:
  "str_ok keys \<Longrightarrow>
      emits C (waffle_thriftClient_send_search P keys) (K_msg ''search'' T_CALL 0 # search_args_toks keys)"
  unfolding waffle_thriftClient_send_search_def
  by (rule emits_message) (simp_all add: fits32_def int_min_def int_max_def waffle_thrift_search_pargs_writes)

lemma recv_search_reads:
  "1 < n \<Longrightarrow> reads C (waffle_thriftClient_recv_search P n r0)
     (K_msg ''search'' T_REPLY i # search_result_toks v) (\<lambda>x. x = v)"
  unfolding waffle_thriftClient_recv_search_def
  by (rule recv_reads, rule waffle_thrift_search_presult_reads) (simp_all add: reads_return)

lemma recv_search_raises:
  "raises C (waffle_thriftClient_recv_search P n r0)
     [K_msg f T_EXCEPTION i, K_exn t msg] (Application_error t msg)"
  unfolding waffle_thriftClient_recv_search_def by (rule raises_bind, rule header_raises)

lemma recv_search_missing:
  "0 < n \<Longrightarrow> raises C (waffle_thriftClient_recv_search P n r0)
     (K_msg ''search'' T_REPLY i # struct_toks []) (Application_error MISSING_RESULT ''search failed: unknown result'')"
  unfolding waffle_thriftClient_recv_search_def waffle_thrift_search_presult_read_def
  by (rule recv_missing, rule reads_struct_fields, rule fr_done, rule refl) (simp_all add: raises_throw)

end

end
