(* ===== verification/Thrift_Processor.thy ===== *)
theory Thrift_Processor
  imports Thrift_Client
begin

text \<open>
  The generated processor \<open>waffle_thriftProcessor\<close> (\<open>waffle_thrift.cpp\<close>): \<open>waffle_thriftIf\<close> is the
  abstract class of the handler, over the handler's state; one process function per method reads the
  arguments, calls the handler and emits the reply, or an exception message when the handler
  throws; \<open>dispatchCall\<close> selects it by name.  \<open>what\<close> gives the text of an exception.  The optional
  event handler of the processor is never installed by the server and is left out.

  The theorems join client, connection and processor: a call returns what the handler returned, and
  the handler is run once on the arguments the caller passed.
\<close>

record 'h waffle_thriftIf =
  If_get_client_id :: "('h, int) io"
  If_register_client_id :: "int \<Rightarrow> int \<Rightarrow> ('h, unit) io"
  If_async_get :: "sequence_id \<Rightarrow> string \<Rightarrow> ('h, unit) io"
  If_async_put :: "sequence_id \<Rightarrow> string \<Rightarrow> string \<Rightarrow> ('h, unit) io"
  If_async_get_batch :: "sequence_id \<Rightarrow> string list \<Rightarrow> ('h, unit) io"
  If_async_put_batch :: "sequence_id \<Rightarrow> string list \<Rightarrow> string list \<Rightarrow> ('h, unit) io"
  If_get :: "string \<Rightarrow> ('h, string) io"
  If_put :: "string \<Rightarrow> string \<Rightarrow> ('h, unit) io"
  If_get_batch :: "string list \<Rightarrow> ('h, string list) io"
  If_put_batch :: "string list \<Rightarrow> string list \<Rightarrow> ('h, unit) io"
  If_search :: "string \<Rightarrow> ('h, string list) io"

text \<open>\<open>waffle_thriftNull\<close>, the handler that does nothing: results stay as the caller left them.\<close>

definition waffle_thriftNull :: "'h waffle_thriftIf" where
  "waffle_thriftNull = \<lparr>
     If_get_client_id = returnIO 0,
     If_register_client_id = \<lambda>_ _. returnIO (),
     If_async_get = \<lambda>_ _. returnIO (),
     If_async_put = \<lambda>_ _ _. returnIO (),
     If_async_get_batch = \<lambda>_ _. returnIO (),
     If_async_put_batch = \<lambda>_ _ _. returnIO (),
     If_get = \<lambda>_. returnIO [],
     If_put = \<lambda>_ _. returnIO (),
     If_get_batch = \<lambda>_. returnIO [],
     If_put_batch = \<lambda>_ _. returnIO (),
     If_search = \<lambda>_. returnIO [] \<rparr>"

subsection \<open>The process functions\<close>

definition waffle_thriftProcessor_process_get_client_id ::
  "(cpp_error \<Rightarrow> string) \<Rightarrow> 'p tproto \<Rightarrow> nat \<Rightarrow> 'h waffle_thriftIf \<Rightarrow> int \<Rightarrow> (('p, 'h) link, unit) io" where
  "waffle_thriftProcessor_process_get_client_id what P n iface seqid =
     bindIO (read_args P (waffle_thrift_get_client_id_args_read P n ())) (\<lambda>args.
       answer what P ''get_client_id'' seqid (If_get_client_id iface)
         (\<lambda>v. waffle_thrift_get_client_id_result_write P
            (waffle_thrift_get_client_id_result_init\<lparr>get_client_id_result_success := v,
                get_client_id_result_isset_success := True\<rparr>)))"

definition waffle_thriftProcessor_process_register_client_id ::
  "(cpp_error \<Rightarrow> string) \<Rightarrow> 'p tproto \<Rightarrow> nat \<Rightarrow> 'h waffle_thriftIf \<Rightarrow> int \<Rightarrow> (('p, 'h) link, unit) io" where
  "waffle_thriftProcessor_process_register_client_id what P n iface seqid =
     bindIO (read_args P (waffle_thrift_register_client_id_args_read P n waffle_thrift_register_client_id_args_init)) (\<lambda>args.
       answer what P ''register_client_id'' seqid (If_register_client_id iface (register_client_id_args_block_id args) (register_client_id_args_client_id args))
         (\<lambda>_. waffle_thrift_register_client_id_result_write P ()))"

definition waffle_thriftProcessor_process_async_get ::
  "'p tproto \<Rightarrow> nat \<Rightarrow> 'h waffle_thriftIf \<Rightarrow> int \<Rightarrow> (('p, 'h) link, unit) io" where
  "waffle_thriftProcessor_process_async_get P n iface seqid =
     bindIO (read_args P (waffle_thrift_async_get_args_read P n waffle_thrift_async_get_args_init)) (\<lambda>args.
       answer_oneway (If_async_get iface (async_get_args_seq_id args) (async_get_args_key args)))"

definition waffle_thriftProcessor_process_async_put ::
  "'p tproto \<Rightarrow> nat \<Rightarrow> 'h waffle_thriftIf \<Rightarrow> int \<Rightarrow> (('p, 'h) link, unit) io" where
  "waffle_thriftProcessor_process_async_put P n iface seqid =
     bindIO (read_args P (waffle_thrift_async_put_args_read P n waffle_thrift_async_put_args_init)) (\<lambda>args.
       answer_oneway (If_async_put iface (async_put_args_seq_id args) (async_put_args_key args) (async_put_args_value args)))"

definition waffle_thriftProcessor_process_async_get_batch ::
  "'p tproto \<Rightarrow> nat \<Rightarrow> 'h waffle_thriftIf \<Rightarrow> int \<Rightarrow> (('p, 'h) link, unit) io" where
  "waffle_thriftProcessor_process_async_get_batch P n iface seqid =
     bindIO (read_args P (waffle_thrift_async_get_batch_args_read P n waffle_thrift_async_get_batch_args_init)) (\<lambda>args.
       answer_oneway (If_async_get_batch iface (async_get_batch_args_seq_id args) (async_get_batch_args_keys args)))"

definition waffle_thriftProcessor_process_async_put_batch ::
  "'p tproto \<Rightarrow> nat \<Rightarrow> 'h waffle_thriftIf \<Rightarrow> int \<Rightarrow> (('p, 'h) link, unit) io" where
  "waffle_thriftProcessor_process_async_put_batch P n iface seqid =
     bindIO (read_args P (waffle_thrift_async_put_batch_args_read P n waffle_thrift_async_put_batch_args_init)) (\<lambda>args.
       answer_oneway (If_async_put_batch iface (async_put_batch_args_seq_id args) (async_put_batch_args_keys args) (async_put_batch_args_values args)))"

definition waffle_thriftProcessor_process_get ::
  "(cpp_error \<Rightarrow> string) \<Rightarrow> 'p tproto \<Rightarrow> nat \<Rightarrow> 'h waffle_thriftIf \<Rightarrow> int \<Rightarrow> (('p, 'h) link, unit) io" where
  "waffle_thriftProcessor_process_get what P n iface seqid =
     bindIO (read_args P (waffle_thrift_get_args_read P n waffle_thrift_get_args_init)) (\<lambda>args.
       answer what P ''get'' seqid (If_get iface (get_args_key args))
         (\<lambda>v. waffle_thrift_get_result_write P
            (waffle_thrift_get_result_init\<lparr>get_result_success := v, get_result_isset_success := True\<rparr>)))"

definition waffle_thriftProcessor_process_put ::
  "(cpp_error \<Rightarrow> string) \<Rightarrow> 'p tproto \<Rightarrow> nat \<Rightarrow> 'h waffle_thriftIf \<Rightarrow> int \<Rightarrow> (('p, 'h) link, unit) io" where
  "waffle_thriftProcessor_process_put what P n iface seqid =
     bindIO (read_args P (waffle_thrift_put_args_read P n waffle_thrift_put_args_init)) (\<lambda>args.
       answer what P ''put'' seqid (If_put iface (put_args_key args) (put_args_value args))
         (\<lambda>_. waffle_thrift_put_result_write P ()))"

definition waffle_thriftProcessor_process_get_batch ::
  "(cpp_error \<Rightarrow> string) \<Rightarrow> 'p tproto \<Rightarrow> nat \<Rightarrow> 'h waffle_thriftIf \<Rightarrow> int \<Rightarrow> (('p, 'h) link, unit) io" where
  "waffle_thriftProcessor_process_get_batch what P n iface seqid =
     bindIO (read_args P (waffle_thrift_get_batch_args_read P n waffle_thrift_get_batch_args_init)) (\<lambda>args.
       answer what P ''get_batch'' seqid (If_get_batch iface (get_batch_args_keys args))
         (\<lambda>v. waffle_thrift_get_batch_result_write P
            (waffle_thrift_get_batch_result_init\<lparr>get_batch_result_success := v,
                get_batch_result_isset_success := True\<rparr>)))"

definition waffle_thriftProcessor_process_put_batch ::
  "(cpp_error \<Rightarrow> string) \<Rightarrow> 'p tproto \<Rightarrow> nat \<Rightarrow> 'h waffle_thriftIf \<Rightarrow> int \<Rightarrow> (('p, 'h) link, unit) io" where
  "waffle_thriftProcessor_process_put_batch what P n iface seqid =
     bindIO (read_args P (waffle_thrift_put_batch_args_read P n waffle_thrift_put_batch_args_init)) (\<lambda>args.
       answer what P ''put_batch'' seqid (If_put_batch iface (put_batch_args_keys args) (put_batch_args_values args))
         (\<lambda>_. waffle_thrift_put_batch_result_write P ()))"

definition waffle_thriftProcessor_process_search ::
  "(cpp_error \<Rightarrow> string) \<Rightarrow> 'p tproto \<Rightarrow> nat \<Rightarrow> 'h waffle_thriftIf \<Rightarrow> int \<Rightarrow> (('p, 'h) link, unit) io" where
  "waffle_thriftProcessor_process_search what P n iface seqid =
     bindIO (read_args P (waffle_thrift_search_args_read P n waffle_thrift_search_args_init)) (\<lambda>args.
       answer what P ''search'' seqid (If_search iface (search_args_keys args))
         (\<lambda>v. waffle_thrift_search_result_write P
            (waffle_thrift_search_result_init\<lparr>search_result_success := v,
                search_result_isset_success := True\<rparr>)))"

text \<open>The constructor fills \<open>processMap_\<close>; \<open>dispatchCall\<close> looks the method up in it.\<close>

definition waffle_thriftProcessor ::
  "(cpp_error \<Rightarrow> string) \<Rightarrow> 'p tproto \<Rightarrow> nat \<Rightarrow> 'h waffle_thriftIf
   \<Rightarrow> (string, int \<Rightarrow> (('p, 'h) link, unit) io) umap" where
  "waffle_thriftProcessor what P n iface =
     [(''get_client_id'', waffle_thriftProcessor_process_get_client_id what P n iface),
      (''register_client_id'', waffle_thriftProcessor_process_register_client_id what P n iface),
      (''async_get'', waffle_thriftProcessor_process_async_get P n iface),
      (''async_put'', waffle_thriftProcessor_process_async_put P n iface),
      (''async_get_batch'', waffle_thriftProcessor_process_async_get_batch P n iface),
      (''async_put_batch'', waffle_thriftProcessor_process_async_put_batch P n iface),
      (''get'', waffle_thriftProcessor_process_get what P n iface),
      (''put'', waffle_thriftProcessor_process_put what P n iface),
      (''get_batch'', waffle_thriftProcessor_process_get_batch what P n iface),
      (''put_batch'', waffle_thriftProcessor_process_put_batch what P n iface),
      (''search'', waffle_thriftProcessor_process_search what P n iface)]"

definition waffle_thriftProcessor_dispatchCall ::
  "(cpp_error \<Rightarrow> string) \<Rightarrow> 'p tproto \<Rightarrow> nat \<Rightarrow> 'h waffle_thriftIf \<Rightarrow> string \<Rightarrow> int
   \<Rightarrow> (('p, 'h) link, bool) io" where
  "waffle_thriftProcessor_dispatchCall what P n iface = dispatch P (waffle_thriftProcessor what P n iface)"

definition served_by ::
  "(cpp_error \<Rightarrow> string) \<Rightarrow> 'p tproto \<Rightarrow> nat \<Rightarrow> 'h waffle_thriftIf \<Rightarrow> (('p, 'h) link, unit) io" where
  "served_by what P n iface = serve_next P (waffle_thriftProcessor_dispatchCall what P n iface)"

subsection \<open>Calls end to end\<close>

lemma fits32_0 [simp]: "fits32 0"
  by (simp add: fits32_def int_min_def int_max_def)

lemma process_map_get_client_id [simp]:
  "um_find (waffle_thriftProcessor what P n F) ''get_client_id'' = Some (waffle_thriftProcessor_process_get_client_id what P n F)"
  by (simp add: waffle_thriftProcessor_def um_find_def)

lemma process_map_register_client_id [simp]:
  "um_find (waffle_thriftProcessor what P n F) ''register_client_id'' = Some (waffle_thriftProcessor_process_register_client_id what P n F)"
  by (simp add: waffle_thriftProcessor_def um_find_def)

lemma process_map_async_get [simp]:
  "um_find (waffle_thriftProcessor what P n F) ''async_get'' = Some (waffle_thriftProcessor_process_async_get P n F)"
  by (simp add: waffle_thriftProcessor_def um_find_def)

lemma process_map_async_put [simp]:
  "um_find (waffle_thriftProcessor what P n F) ''async_put'' = Some (waffle_thriftProcessor_process_async_put P n F)"
  by (simp add: waffle_thriftProcessor_def um_find_def)

lemma process_map_async_get_batch [simp]:
  "um_find (waffle_thriftProcessor what P n F) ''async_get_batch'' = Some (waffle_thriftProcessor_process_async_get_batch P n F)"
  by (simp add: waffle_thriftProcessor_def um_find_def)

lemma process_map_async_put_batch [simp]:
  "um_find (waffle_thriftProcessor what P n F) ''async_put_batch'' = Some (waffle_thriftProcessor_process_async_put_batch P n F)"
  by (simp add: waffle_thriftProcessor_def um_find_def)

lemma process_map_get [simp]:
  "um_find (waffle_thriftProcessor what P n F) ''get'' = Some (waffle_thriftProcessor_process_get what P n F)"
  by (simp add: waffle_thriftProcessor_def um_find_def)

lemma process_map_put [simp]:
  "um_find (waffle_thriftProcessor what P n F) ''put'' = Some (waffle_thriftProcessor_process_put what P n F)"
  by (simp add: waffle_thriftProcessor_def um_find_def)

lemma process_map_get_batch [simp]:
  "um_find (waffle_thriftProcessor what P n F) ''get_batch'' = Some (waffle_thriftProcessor_process_get_batch what P n F)"
  by (simp add: waffle_thriftProcessor_def um_find_def)

lemma process_map_put_batch [simp]:
  "um_find (waffle_thriftProcessor what P n F) ''put_batch'' = Some (waffle_thriftProcessor_process_put_batch what P n F)"
  by (simp add: waffle_thriftProcessor_def um_find_def)

lemma process_map_search [simp]:
  "um_find (waffle_thriftProcessor what P n F) ''search'' = Some (waffle_thriftProcessor_process_search what P n F)"
  by (simp add: waffle_thriftProcessor_def um_find_def)

context thrift_protocol
begin

lemma process_get_client_id_moves:
  assumes "1 < n" and "If_get_client_id F h = (Inr v, h')" and "fits64 v" and "fits32 i"
  shows "moves C (waffle_thriftProcessor_process_get_client_id what P n F i) (get_client_id_args_toks @ a) b h (Inr ())
    a (b @ K_msg ''get_client_id'' T_REPLY i # get_client_id_result_toks v) h'"
  unfolding waffle_thriftProcessor_process_get_client_id_def
  by (rule moves_bind [OF read_args_moves [OF waffle_thrift_get_client_id_args_reads]])
    (use assms in \<open>auto intro!: answer_ok waffle_thrift_get_client_id_result_writes simp: waffle_thrift_get_client_id_result_init_def\<close>)

lemma process_get_client_id_throws:
  assumes "1 < n" and "If_get_client_id F h = (Inl e,
      h')" and "is_std_exception e" and "str_ok (what e)" and "fits32 i"
  shows "moves C (waffle_thriftProcessor_process_get_client_id what P n F i) (get_client_id_args_toks @ a) b h (Inr ())
    a (b @ [K_msg ''get_client_id'' T_EXCEPTION i, K_exn UNKNOWN_EXCEPTION (what e)]) h'"
  unfolding waffle_thriftProcessor_process_get_client_id_def
  by (rule moves_bind [OF read_args_moves [OF waffle_thrift_get_client_id_args_reads]])
    (use assms in \<open>auto intro!: answer_exn\<close>)

lemma get_client_id_returns:
  assumes "1 < n" and "If_get_client_id F h = (Inr v, h')" and "fits64 v"
  shows "moves C (waffle_thriftClient_get_client_id P n (served_by what P n F) r0) [] [] h (Inr v) [] [] h'"
  unfolding waffle_thriftClient_get_client_id_def served_by_def waffle_thriftProcessor_dispatchCall_def
proof (rule rpc)
  show "emits C (waffle_thriftClient_send_get_client_id P) (K_msg ''get_client_id'' T_CALL 0 # get_client_id_args_toks)"
    using assms by (intro send_get_client_id_writes)
  show "moves C (waffle_thriftProcessor_process_get_client_id what P n F 0) (get_client_id_args_toks) [] h (Inr ()) []
      (K_msg ''get_client_id'' T_REPLY 0 # get_client_id_result_toks v) h'"
    using process_get_client_id_moves [where i = 0 and a = "[]" and b = "[]" and what = what and F = F] assms by simp
  show "moves C (on_down (waffle_thriftClient_recv_get_client_id P n r0)) []
      (K_msg ''get_client_id'' T_REPLY 0 # get_client_id_result_toks v) h' (Inr v) [] [] h'"
    using down_reads [OF recv_get_client_id_reads [where i = 0 and n = n], where b = "[]" and a = "[]"] assms(1) by simp
qed simp

lemma get_client_id_throws:
  assumes "1 < n" and "If_get_client_id F h = (Inl e, h')" and "is_std_exception e" and "str_ok (what e)"
  shows "moves C (waffle_thriftClient_get_client_id P n (served_by what P n F) r0) [] [] h (Inl (Application_error UNKNOWN_EXCEPTION (what e))) [] [] h'"
  unfolding waffle_thriftClient_get_client_id_def served_by_def waffle_thriftProcessor_dispatchCall_def
proof (rule rpc)
  show "emits C (waffle_thriftClient_send_get_client_id P) (K_msg ''get_client_id'' T_CALL 0 # get_client_id_args_toks)"
    using assms by (intro send_get_client_id_writes)
  show "moves C (waffle_thriftProcessor_process_get_client_id what P n F 0) (get_client_id_args_toks) [] h (Inr ()) []
      [K_msg ''get_client_id'' T_EXCEPTION 0, K_exn UNKNOWN_EXCEPTION (what e)] h'"
    using process_get_client_id_throws [where i = 0 and a = "[]" and b = "[]" and what = what and F = F] assms by simp
  show "moves C (on_down (waffle_thriftClient_recv_get_client_id P n r0)) []
      [K_msg ''get_client_id'' T_EXCEPTION 0, K_exn UNKNOWN_EXCEPTION (what e)] h'
      (Inl (Application_error UNKNOWN_EXCEPTION (what e))) [] [] h'"
    using down_raises [OF recv_get_client_id_raises [where f = "''get_client_id''" and i = 0], where b = "[]" and a = "[]"] by simp
qed simp

lemma process_register_client_id_moves:
  assumes "2 < n" and "If_register_client_id F blk cid h = (Inr (), h')" and "fits32 i"
  shows "moves C (waffle_thriftProcessor_process_register_client_id what P n F i) (register_client_id_args_toks blk cid @ a) b h (Inr ())
    a (b @ K_msg ''register_client_id'' T_REPLY i # register_client_id_result_toks) h'"
  unfolding waffle_thriftProcessor_process_register_client_id_def
  by (rule moves_bind [OF read_args_moves [OF waffle_thrift_register_client_id_args_reads]])
    (use assms in \<open>auto intro!: answer_ok waffle_thrift_register_client_id_result_writes\<close>)

lemma process_register_client_id_throws:
  assumes "2 < n" and "If_register_client_id F blk cid h = (Inl e,
      h')" and "is_std_exception e" and "str_ok (what e)" and "fits32 i"
  shows "moves C (waffle_thriftProcessor_process_register_client_id what P n F i) (register_client_id_args_toks blk cid @ a) b h (Inr ())
    a (b @ [K_msg ''register_client_id'' T_EXCEPTION i, K_exn UNKNOWN_EXCEPTION (what e)]) h'"
  unfolding waffle_thriftProcessor_process_register_client_id_def
  by (rule moves_bind [OF read_args_moves [OF waffle_thrift_register_client_id_args_reads]])
    (use assms in \<open>auto intro!: answer_exn\<close>)

lemma register_client_id_returns:
  assumes "2 < n" and "fits32 blk" and "fits64 cid" and "If_register_client_id F blk cid h = (Inr (), h')"
  shows "moves C (waffle_thriftClient_register_client_id P n (served_by what P n F) blk cid) [] [] h (Inr ()) [] [] h'"
  unfolding waffle_thriftClient_register_client_id_def served_by_def waffle_thriftProcessor_dispatchCall_def
proof (rule rpc)
  show "emits C (waffle_thriftClient_send_register_client_id P blk cid) (K_msg ''register_client_id'' T_CALL 0 # register_client_id_args_toks blk cid)"
    using assms by (intro send_register_client_id_writes)
  show "moves C (waffle_thriftProcessor_process_register_client_id what P n F 0) (register_client_id_args_toks blk cid) [] h (Inr ()) []
      (K_msg ''register_client_id'' T_REPLY 0 # register_client_id_result_toks) h'"
    using process_register_client_id_moves [where i = 0 and a = "[]" and b = "[]" and what = what and F = F] assms by simp
  show "moves C (on_down (waffle_thriftClient_recv_register_client_id P n)) []
      (K_msg ''register_client_id'' T_REPLY 0 # register_client_id_result_toks) h' (Inr ()) [] [] h'"
    using down_reads [OF recv_register_client_id_reads [where i = 0 and n = n], where b = "[]" and a = "[]"] assms(1) by simp
qed simp

lemma register_client_id_throws:
  assumes "2 < n" and "fits32 blk" and "fits64 cid" and "If_register_client_id F blk cid h = (Inl e,
      h')" and "is_std_exception e" and "str_ok (what e)"
  shows "moves C (waffle_thriftClient_register_client_id P n (served_by what P n F) blk cid) [] [] h (Inl (Application_error UNKNOWN_EXCEPTION (what e))) [] [] h'"
  unfolding waffle_thriftClient_register_client_id_def served_by_def waffle_thriftProcessor_dispatchCall_def
proof (rule rpc)
  show "emits C (waffle_thriftClient_send_register_client_id P blk cid) (K_msg ''register_client_id'' T_CALL 0 # register_client_id_args_toks blk cid)"
    using assms by (intro send_register_client_id_writes)
  show "moves C (waffle_thriftProcessor_process_register_client_id what P n F 0) (register_client_id_args_toks blk cid) [] h (Inr ()) []
      [K_msg ''register_client_id'' T_EXCEPTION 0, K_exn UNKNOWN_EXCEPTION (what e)] h'"
    using process_register_client_id_throws [where i = 0 and a = "[]" and b = "[]" and what = what and F = F] assms by simp
  show "moves C (on_down (waffle_thriftClient_recv_register_client_id P n)) []
      [K_msg ''register_client_id'' T_EXCEPTION 0, K_exn UNKNOWN_EXCEPTION (what e)] h'
      (Inl (Application_error UNKNOWN_EXCEPTION (what e))) [] [] h'"
    using down_raises [OF recv_register_client_id_raises [where f = "''register_client_id''" and i = 0], where b = "[]" and a = "[]"] by simp
qed simp

lemma process_async_get_moves:
  assumes "3 < n" and "If_async_get F sq key h = (r,
      h')" and "case r of Inl e \<Rightarrow> is_std_exception e | Inr _ \<Rightarrow> True"
  shows "moves C (waffle_thriftProcessor_process_async_get P n F i) (async_get_args_toks sq key @ a) b h (Inr ()) a b h'"
  unfolding waffle_thriftProcessor_process_async_get_def
  by (rule moves_bind [OF read_args_moves [OF waffle_thrift_async_get_args_reads [OF assms(1)]]])
    (rule answer_oneway_moves, use assms(2,3) in simp_all)

lemma async_get_delivered:
  assumes "3 < n" and "sequence_id_ok sq" and "str_ok key"
    and "If_async_get F sq key h = (r, h')" and "case r of Inl e \<Rightarrow> is_std_exception e | Inr _ \<Rightarrow> True"
  shows "moves C (bindIO (waffle_thriftClient_async_get P sq key) (\<lambda>_. served_by what P n F)) [] b h (Inr ()) [] b h'"
proof -
  have w: "emits C (waffle_thriftClient_send_async_get P sq key) (K_msg ''async_get'' T_ONEWAY 0 # async_get_args_toks sq key)"
    using assms by (intro send_async_get_writes)
  have s: "moves C (served_by what P n F) (K_msg ''async_get'' T_ONEWAY 0 # async_get_args_toks sq key) b h (Inr ()) [] b h'"
    unfolding served_by_def waffle_thriftProcessor_dispatchCall_def
    using process_async_get_moves [OF assms(1,4,5), where a = "[]"] by (intro serve_known) simp_all
  show ?thesis unfolding waffle_thriftClient_async_get_def
    using moves_bind [OF up_writes [OF w, where a = "[]"]] s by simp
qed

lemma process_async_put_moves:
  assumes "3 < n" and "If_async_put F sq key value h = (r,
      h')" and "case r of Inl e \<Rightarrow> is_std_exception e | Inr _ \<Rightarrow> True"
  shows "moves C (waffle_thriftProcessor_process_async_put P n F i) (async_put_args_toks sq key value @ a) b h (Inr ()) a b h'"
  unfolding waffle_thriftProcessor_process_async_put_def
  by (rule moves_bind [OF read_args_moves [OF waffle_thrift_async_put_args_reads [OF assms(1)]]])
    (rule answer_oneway_moves, use assms(2,3) in simp_all)

lemma async_put_delivered:
  assumes "3 < n" and "sequence_id_ok sq" and "str_ok key" and "str_ok value"
    and "If_async_put F sq key value h = (r, h')" and "case r of Inl e \<Rightarrow> is_std_exception e | Inr _ \<Rightarrow> True"
  shows "moves C (bindIO (waffle_thriftClient_async_put P sq key value) (\<lambda>_. served_by what P n F)) [] b h (Inr ()) [] b h'"
proof -
  have w: "emits C (waffle_thriftClient_send_async_put P sq key value) (K_msg ''async_put'' T_ONEWAY 0 # async_put_args_toks sq key value)"
    using assms by (intro send_async_put_writes)
  have s: "moves C (served_by what P n F) (K_msg ''async_put'' T_ONEWAY 0 # async_put_args_toks sq key value) b h (Inr ()) [] b h'"
    unfolding served_by_def waffle_thriftProcessor_dispatchCall_def
    using process_async_put_moves [OF assms(1,5,6), where a = "[]"] by (intro serve_known) simp_all
  show ?thesis unfolding waffle_thriftClient_async_put_def
    using moves_bind [OF up_writes [OF w, where a = "[]"]] s by simp
qed

lemma process_async_get_batch_moves:
  assumes "3 < n" and "If_async_get_batch F sq keys h = (r,
      h')" and "case r of Inl e \<Rightarrow> is_std_exception e | Inr _ \<Rightarrow> True"
  shows "moves C (waffle_thriftProcessor_process_async_get_batch P n F i) (async_get_batch_args_toks sq keys @ a) b h (Inr ()) a b h'"
  unfolding waffle_thriftProcessor_process_async_get_batch_def
  by (rule moves_bind [OF read_args_moves [OF waffle_thrift_async_get_batch_args_reads [OF assms(1)]]])
    (rule answer_oneway_moves, use assms(2,3) in simp_all)

lemma async_get_batch_delivered:
  assumes "3 < n" and "sequence_id_ok sq" and "strs_ok keys"
    and "If_async_get_batch F sq keys h = (r, h')" and "case r of Inl e \<Rightarrow> is_std_exception e | Inr _ \<Rightarrow> True"
  shows "moves C (bindIO (waffle_thriftClient_async_get_batch P sq keys) (\<lambda>_. served_by what P n F)) [] b h (Inr ()) [] b h'"
proof -
  have w: "emits C (waffle_thriftClient_send_async_get_batch P sq keys) (K_msg ''async_get_batch'' T_ONEWAY 0 # async_get_batch_args_toks sq keys)"
    using assms by (intro send_async_get_batch_writes)
  have s: "moves C (served_by what P n F) (K_msg ''async_get_batch'' T_ONEWAY 0 # async_get_batch_args_toks sq keys) b h (Inr ()) [] b h'"
    unfolding served_by_def waffle_thriftProcessor_dispatchCall_def
    using process_async_get_batch_moves [OF assms(1,4,5), where a = "[]"] by (intro serve_known) simp_all
  show ?thesis unfolding waffle_thriftClient_async_get_batch_def
    using moves_bind [OF up_writes [OF w, where a = "[]"]] s by simp
qed

lemma process_async_put_batch_moves:
  assumes "3 < n" and "If_async_put_batch F sq keys values h = (r,
      h')" and "case r of Inl e \<Rightarrow> is_std_exception e | Inr _ \<Rightarrow> True"
  shows "moves C (waffle_thriftProcessor_process_async_put_batch P n F i) (async_put_batch_args_toks sq keys values @ a) b h (Inr ()) a b h'"
  unfolding waffle_thriftProcessor_process_async_put_batch_def
  by (rule moves_bind [OF read_args_moves [OF waffle_thrift_async_put_batch_args_reads [OF assms(1)]]])
    (rule answer_oneway_moves, use assms(2,3) in simp_all)

lemma async_put_batch_delivered:
  assumes "3 < n" and "sequence_id_ok sq" and "strs_ok keys" and "strs_ok values"
    and "If_async_put_batch F sq keys values h = (r,
        h')" and "case r of Inl e \<Rightarrow> is_std_exception e | Inr _ \<Rightarrow> True"
  shows "moves C (bindIO (waffle_thriftClient_async_put_batch P sq keys values) (\<lambda>_. served_by what P n F)) [] b h (Inr ()) [] b h'"
proof -
  have w: "emits C (waffle_thriftClient_send_async_put_batch P sq keys values) (K_msg ''async_put_batch'' T_ONEWAY 0 # async_put_batch_args_toks sq keys values)"
    using assms by (intro send_async_put_batch_writes)
  have s: "moves C (served_by what P n F) (K_msg ''async_put_batch'' T_ONEWAY 0 # async_put_batch_args_toks sq keys values) b h (Inr ()) [] b h'"
    unfolding served_by_def waffle_thriftProcessor_dispatchCall_def
    using process_async_put_batch_moves [OF assms(1,5,6), where a = "[]"] by (intro serve_known) simp_all
  show ?thesis unfolding waffle_thriftClient_async_put_batch_def
    using moves_bind [OF up_writes [OF w, where a = "[]"]] s by simp
qed

lemma process_get_moves:
  assumes "1 < n" and "If_get F key h = (Inr v, h')" and "str_ok v" and "fits32 i"
  shows "moves C (waffle_thriftProcessor_process_get what P n F i) (get_args_toks key @ a) b h (Inr ())
    a (b @ K_msg ''get'' T_REPLY i # get_result_toks v) h'"
  unfolding waffle_thriftProcessor_process_get_def
  by (rule moves_bind [OF read_args_moves [OF waffle_thrift_get_args_reads]])
    (use assms in \<open>auto intro!: answer_ok waffle_thrift_get_result_writes simp: waffle_thrift_get_result_init_def\<close>)

lemma process_get_throws:
  assumes "1 < n" and "If_get F key h = (Inl e,
      h')" and "is_std_exception e" and "str_ok (what e)" and "fits32 i"
  shows "moves C (waffle_thriftProcessor_process_get what P n F i) (get_args_toks key @ a) b h (Inr ())
    a (b @ [K_msg ''get'' T_EXCEPTION i, K_exn UNKNOWN_EXCEPTION (what e)]) h'"
  unfolding waffle_thriftProcessor_process_get_def
  by (rule moves_bind [OF read_args_moves [OF waffle_thrift_get_args_reads]])
    (use assms in \<open>auto intro!: answer_exn\<close>)

lemma get_returns:
  assumes "1 < n" and "str_ok key" and "If_get F key h = (Inr v, h')" and "str_ok v"
  shows "moves C (waffle_thriftClient_get P n (served_by what P n F) r0 key) [] [] h (Inr v) [] [] h'"
  unfolding waffle_thriftClient_get_def served_by_def waffle_thriftProcessor_dispatchCall_def
proof (rule rpc)
  show "emits C (waffle_thriftClient_send_get P key) (K_msg ''get'' T_CALL 0 # get_args_toks key)"
    using assms by (intro send_get_writes)
  show "moves C (waffle_thriftProcessor_process_get what P n F 0) (get_args_toks key) [] h (Inr ()) []
      (K_msg ''get'' T_REPLY 0 # get_result_toks v) h'"
    using process_get_moves [where i = 0 and a = "[]" and b = "[]" and what = what and F = F] assms by simp
  show "moves C (on_down (waffle_thriftClient_recv_get P n r0)) []
      (K_msg ''get'' T_REPLY 0 # get_result_toks v) h' (Inr v) [] [] h'"
    using down_reads [OF recv_get_reads [where i = 0 and n = n], where b = "[]" and a = "[]"] assms(1) by simp
qed simp

lemma get_throws:
  assumes "1 < n" and "str_ok key" and "If_get F key h = (Inl e,
      h')" and "is_std_exception e" and "str_ok (what e)"
  shows "moves C (waffle_thriftClient_get P n (served_by what P n F) r0 key) [] [] h (Inl (Application_error UNKNOWN_EXCEPTION (what e))) [] [] h'"
  unfolding waffle_thriftClient_get_def served_by_def waffle_thriftProcessor_dispatchCall_def
proof (rule rpc)
  show "emits C (waffle_thriftClient_send_get P key) (K_msg ''get'' T_CALL 0 # get_args_toks key)"
    using assms by (intro send_get_writes)
  show "moves C (waffle_thriftProcessor_process_get what P n F 0) (get_args_toks key) [] h (Inr ()) []
      [K_msg ''get'' T_EXCEPTION 0, K_exn UNKNOWN_EXCEPTION (what e)] h'"
    using process_get_throws [where i = 0 and a = "[]" and b = "[]" and what = what and F = F] assms by simp
  show "moves C (on_down (waffle_thriftClient_recv_get P n r0)) []
      [K_msg ''get'' T_EXCEPTION 0, K_exn UNKNOWN_EXCEPTION (what e)] h'
      (Inl (Application_error UNKNOWN_EXCEPTION (what e))) [] [] h'"
    using down_raises [OF recv_get_raises [where f = "''get''" and i = 0], where b = "[]" and a = "[]"] by simp
qed simp

lemma process_put_moves:
  assumes "2 < n" and "If_put F key value h = (Inr (), h')" and "fits32 i"
  shows "moves C (waffle_thriftProcessor_process_put what P n F i) (put_args_toks key value @ a) b h (Inr ())
    a (b @ K_msg ''put'' T_REPLY i # put_result_toks) h'"
  unfolding waffle_thriftProcessor_process_put_def
  by (rule moves_bind [OF read_args_moves [OF waffle_thrift_put_args_reads]])
    (use assms in \<open>auto intro!: answer_ok waffle_thrift_put_result_writes\<close>)

lemma process_put_throws:
  assumes "2 < n" and "If_put F key value h = (Inl e,
      h')" and "is_std_exception e" and "str_ok (what e)" and "fits32 i"
  shows "moves C (waffle_thriftProcessor_process_put what P n F i) (put_args_toks key value @ a) b h (Inr ())
    a (b @ [K_msg ''put'' T_EXCEPTION i, K_exn UNKNOWN_EXCEPTION (what e)]) h'"
  unfolding waffle_thriftProcessor_process_put_def
  by (rule moves_bind [OF read_args_moves [OF waffle_thrift_put_args_reads]])
    (use assms in \<open>auto intro!: answer_exn\<close>)

lemma put_returns:
  assumes "2 < n" and "str_ok key" and "str_ok value" and "If_put F key value h = (Inr (), h')"
  shows "moves C (waffle_thriftClient_put P n (served_by what P n F) key value) [] [] h (Inr ()) [] [] h'"
  unfolding waffle_thriftClient_put_def served_by_def waffle_thriftProcessor_dispatchCall_def
proof (rule rpc)
  show "emits C (waffle_thriftClient_send_put P key value) (K_msg ''put'' T_CALL 0 # put_args_toks key value)"
    using assms by (intro send_put_writes)
  show "moves C (waffle_thriftProcessor_process_put what P n F 0) (put_args_toks key value) [] h (Inr ()) []
      (K_msg ''put'' T_REPLY 0 # put_result_toks) h'"
    using process_put_moves [where i = 0 and a = "[]" and b = "[]" and what = what and F = F] assms by simp
  show "moves C (on_down (waffle_thriftClient_recv_put P n)) []
      (K_msg ''put'' T_REPLY 0 # put_result_toks) h' (Inr ()) [] [] h'"
    using down_reads [OF recv_put_reads [where i = 0 and n = n], where b = "[]" and a = "[]"] assms(1) by simp
qed simp

lemma put_throws:
  assumes "2 < n" and "str_ok key" and "str_ok value" and "If_put F key value h = (Inl e,
      h')" and "is_std_exception e" and "str_ok (what e)"
  shows "moves C (waffle_thriftClient_put P n (served_by what P n F) key value) [] [] h (Inl (Application_error UNKNOWN_EXCEPTION (what e))) [] [] h'"
  unfolding waffle_thriftClient_put_def served_by_def waffle_thriftProcessor_dispatchCall_def
proof (rule rpc)
  show "emits C (waffle_thriftClient_send_put P key value) (K_msg ''put'' T_CALL 0 # put_args_toks key value)"
    using assms by (intro send_put_writes)
  show "moves C (waffle_thriftProcessor_process_put what P n F 0) (put_args_toks key value) [] h (Inr ()) []
      [K_msg ''put'' T_EXCEPTION 0, K_exn UNKNOWN_EXCEPTION (what e)] h'"
    using process_put_throws [where i = 0 and a = "[]" and b = "[]" and what = what and F = F] assms by simp
  show "moves C (on_down (waffle_thriftClient_recv_put P n)) []
      [K_msg ''put'' T_EXCEPTION 0, K_exn UNKNOWN_EXCEPTION (what e)] h'
      (Inl (Application_error UNKNOWN_EXCEPTION (what e))) [] [] h'"
    using down_raises [OF recv_put_raises [where f = "''put''" and i = 0], where b = "[]" and a = "[]"] by simp
qed simp

lemma process_get_batch_moves:
  assumes "1 < n" and "If_get_batch F keys h = (Inr v, h')" and "strs_ok v" and "fits32 i"
  shows "moves C (waffle_thriftProcessor_process_get_batch what P n F i) (get_batch_args_toks keys @ a) b h (Inr ())
    a (b @ K_msg ''get_batch'' T_REPLY i # get_batch_result_toks v) h'"
  unfolding waffle_thriftProcessor_process_get_batch_def
  by (rule moves_bind [OF read_args_moves [OF waffle_thrift_get_batch_args_reads]])
    (use assms in \<open>auto intro!: answer_ok waffle_thrift_get_batch_result_writes simp: waffle_thrift_get_batch_result_init_def\<close>)

lemma process_get_batch_throws:
  assumes "1 < n" and "If_get_batch F keys h = (Inl e,
      h')" and "is_std_exception e" and "str_ok (what e)" and "fits32 i"
  shows "moves C (waffle_thriftProcessor_process_get_batch what P n F i) (get_batch_args_toks keys @ a) b h (Inr ())
    a (b @ [K_msg ''get_batch'' T_EXCEPTION i, K_exn UNKNOWN_EXCEPTION (what e)]) h'"
  unfolding waffle_thriftProcessor_process_get_batch_def
  by (rule moves_bind [OF read_args_moves [OF waffle_thrift_get_batch_args_reads]])
    (use assms in \<open>auto intro!: answer_exn\<close>)

lemma get_batch_returns:
  assumes "1 < n" and "strs_ok keys" and "If_get_batch F keys h = (Inr v, h')" and "strs_ok v"
  shows "moves C (waffle_thriftClient_get_batch P n (served_by what P n F) r0 keys) [] [] h (Inr v) [] [] h'"
  unfolding waffle_thriftClient_get_batch_def served_by_def waffle_thriftProcessor_dispatchCall_def
proof (rule rpc)
  show "emits C (waffle_thriftClient_send_get_batch P keys) (K_msg ''get_batch'' T_CALL 0 # get_batch_args_toks keys)"
    using assms by (intro send_get_batch_writes)
  show "moves C (waffle_thriftProcessor_process_get_batch what P n F 0) (get_batch_args_toks keys) [] h (Inr ()) []
      (K_msg ''get_batch'' T_REPLY 0 # get_batch_result_toks v) h'"
    using process_get_batch_moves [where i = 0 and a = "[]" and b = "[]" and what = what and F = F] assms by simp
  show "moves C (on_down (waffle_thriftClient_recv_get_batch P n r0)) []
      (K_msg ''get_batch'' T_REPLY 0 # get_batch_result_toks v) h' (Inr v) [] [] h'"
    using down_reads [OF recv_get_batch_reads [where i = 0 and n = n], where b = "[]" and a = "[]"] assms(1) by simp
qed simp

lemma get_batch_throws:
  assumes "1 < n" and "strs_ok keys" and "If_get_batch F keys h = (Inl e,
      h')" and "is_std_exception e" and "str_ok (what e)"
  shows "moves C (waffle_thriftClient_get_batch P n (served_by what P n F) r0 keys) [] [] h (Inl (Application_error UNKNOWN_EXCEPTION (what e))) [] [] h'"
  unfolding waffle_thriftClient_get_batch_def served_by_def waffle_thriftProcessor_dispatchCall_def
proof (rule rpc)
  show "emits C (waffle_thriftClient_send_get_batch P keys) (K_msg ''get_batch'' T_CALL 0 # get_batch_args_toks keys)"
    using assms by (intro send_get_batch_writes)
  show "moves C (waffle_thriftProcessor_process_get_batch what P n F 0) (get_batch_args_toks keys) [] h (Inr ()) []
      [K_msg ''get_batch'' T_EXCEPTION 0, K_exn UNKNOWN_EXCEPTION (what e)] h'"
    using process_get_batch_throws [where i = 0 and a = "[]" and b = "[]" and what = what and F = F] assms by simp
  show "moves C (on_down (waffle_thriftClient_recv_get_batch P n r0)) []
      [K_msg ''get_batch'' T_EXCEPTION 0, K_exn UNKNOWN_EXCEPTION (what e)] h'
      (Inl (Application_error UNKNOWN_EXCEPTION (what e))) [] [] h'"
    using down_raises [OF recv_get_batch_raises [where f = "''get_batch''" and i = 0], where b = "[]" and a = "[]"] by simp
qed simp

lemma process_put_batch_moves:
  assumes "2 < n" and "If_put_batch F keys values h = (Inr (), h')" and "fits32 i"
  shows "moves C (waffle_thriftProcessor_process_put_batch what P n F i) (put_batch_args_toks keys values @ a) b h (Inr ())
    a (b @ K_msg ''put_batch'' T_REPLY i # put_batch_result_toks) h'"
  unfolding waffle_thriftProcessor_process_put_batch_def
  by (rule moves_bind [OF read_args_moves [OF waffle_thrift_put_batch_args_reads]])
    (use assms in \<open>auto intro!: answer_ok waffle_thrift_put_batch_result_writes\<close>)

lemma process_put_batch_throws:
  assumes "2 < n" and "If_put_batch F keys values h = (Inl e,
      h')" and "is_std_exception e" and "str_ok (what e)" and "fits32 i"
  shows "moves C (waffle_thriftProcessor_process_put_batch what P n F i) (put_batch_args_toks keys values @ a) b h (Inr ())
    a (b @ [K_msg ''put_batch'' T_EXCEPTION i, K_exn UNKNOWN_EXCEPTION (what e)]) h'"
  unfolding waffle_thriftProcessor_process_put_batch_def
  by (rule moves_bind [OF read_args_moves [OF waffle_thrift_put_batch_args_reads]])
    (use assms in \<open>auto intro!: answer_exn\<close>)

lemma put_batch_returns:
  assumes "2 < n" and "strs_ok keys" and "strs_ok values" and "If_put_batch F keys values h = (Inr (), h')"
  shows "moves C (waffle_thriftClient_put_batch P n (served_by what P n F) keys values) [] [] h (Inr ()) [] [] h'"
  unfolding waffle_thriftClient_put_batch_def served_by_def waffle_thriftProcessor_dispatchCall_def
proof (rule rpc)
  show "emits C (waffle_thriftClient_send_put_batch P keys values) (K_msg ''put_batch'' T_CALL 0 # put_batch_args_toks keys values)"
    using assms by (intro send_put_batch_writes)
  show "moves C (waffle_thriftProcessor_process_put_batch what P n F 0) (put_batch_args_toks keys values) [] h (Inr ()) []
      (K_msg ''put_batch'' T_REPLY 0 # put_batch_result_toks) h'"
    using process_put_batch_moves [where i = 0 and a = "[]" and b = "[]" and what = what and F = F] assms by simp
  show "moves C (on_down (waffle_thriftClient_recv_put_batch P n)) []
      (K_msg ''put_batch'' T_REPLY 0 # put_batch_result_toks) h' (Inr ()) [] [] h'"
    using down_reads [OF recv_put_batch_reads [where i = 0 and n = n], where b = "[]" and a = "[]"] assms(1) by simp
qed simp

lemma put_batch_throws:
  assumes "2 < n" and "strs_ok keys" and "strs_ok values" and "If_put_batch F keys values h = (Inl e,
      h')" and "is_std_exception e" and "str_ok (what e)"
  shows "moves C (waffle_thriftClient_put_batch P n (served_by what P n F) keys values) [] [] h (Inl (Application_error UNKNOWN_EXCEPTION (what e))) [] [] h'"
  unfolding waffle_thriftClient_put_batch_def served_by_def waffle_thriftProcessor_dispatchCall_def
proof (rule rpc)
  show "emits C (waffle_thriftClient_send_put_batch P keys values) (K_msg ''put_batch'' T_CALL 0 # put_batch_args_toks keys values)"
    using assms by (intro send_put_batch_writes)
  show "moves C (waffle_thriftProcessor_process_put_batch what P n F 0) (put_batch_args_toks keys values) [] h (Inr ()) []
      [K_msg ''put_batch'' T_EXCEPTION 0, K_exn UNKNOWN_EXCEPTION (what e)] h'"
    using process_put_batch_throws [where i = 0 and a = "[]" and b = "[]" and what = what and F = F] assms by simp
  show "moves C (on_down (waffle_thriftClient_recv_put_batch P n)) []
      [K_msg ''put_batch'' T_EXCEPTION 0, K_exn UNKNOWN_EXCEPTION (what e)] h'
      (Inl (Application_error UNKNOWN_EXCEPTION (what e))) [] [] h'"
    using down_raises [OF recv_put_batch_raises [where f = "''put_batch''" and i = 0], where b = "[]" and a = "[]"] by simp
qed simp

lemma process_search_moves:
  assumes "1 < n" and "If_search F keys h = (Inr v, h')" and "strs_ok v" and "fits32 i"
  shows "moves C (waffle_thriftProcessor_process_search what P n F i) (search_args_toks keys @ a) b h (Inr ())
    a (b @ K_msg ''search'' T_REPLY i # search_result_toks v) h'"
  unfolding waffle_thriftProcessor_process_search_def
  by (rule moves_bind [OF read_args_moves [OF waffle_thrift_search_args_reads]])
    (use assms in \<open>auto intro!: answer_ok waffle_thrift_search_result_writes simp: waffle_thrift_search_result_init_def\<close>)

lemma process_search_throws:
  assumes "1 < n" and "If_search F keys h = (Inl e,
      h')" and "is_std_exception e" and "str_ok (what e)" and "fits32 i"
  shows "moves C (waffle_thriftProcessor_process_search what P n F i) (search_args_toks keys @ a) b h (Inr ())
    a (b @ [K_msg ''search'' T_EXCEPTION i, K_exn UNKNOWN_EXCEPTION (what e)]) h'"
  unfolding waffle_thriftProcessor_process_search_def
  by (rule moves_bind [OF read_args_moves [OF waffle_thrift_search_args_reads]])
    (use assms in \<open>auto intro!: answer_exn\<close>)

lemma search_returns:
  assumes "1 < n" and "str_ok keys" and "If_search F keys h = (Inr v, h')" and "strs_ok v"
  shows "moves C (waffle_thriftClient_search P n (served_by what P n F) r0 keys) [] [] h (Inr v) [] [] h'"
  unfolding waffle_thriftClient_search_def served_by_def waffle_thriftProcessor_dispatchCall_def
proof (rule rpc)
  show "emits C (waffle_thriftClient_send_search P keys) (K_msg ''search'' T_CALL 0 # search_args_toks keys)"
    using assms by (intro send_search_writes)
  show "moves C (waffle_thriftProcessor_process_search what P n F 0) (search_args_toks keys) [] h (Inr ()) []
      (K_msg ''search'' T_REPLY 0 # search_result_toks v) h'"
    using process_search_moves [where i = 0 and a = "[]" and b = "[]" and what = what and F = F] assms by simp
  show "moves C (on_down (waffle_thriftClient_recv_search P n r0)) []
      (K_msg ''search'' T_REPLY 0 # search_result_toks v) h' (Inr v) [] [] h'"
    using down_reads [OF recv_search_reads [where i = 0 and n = n], where b = "[]" and a = "[]"] assms(1) by simp
qed simp

lemma search_throws:
  assumes "1 < n" and "str_ok keys" and "If_search F keys h = (Inl e,
      h')" and "is_std_exception e" and "str_ok (what e)"
  shows "moves C (waffle_thriftClient_search P n (served_by what P n F) r0 keys) [] [] h (Inl (Application_error UNKNOWN_EXCEPTION (what e))) [] [] h'"
  unfolding waffle_thriftClient_search_def served_by_def waffle_thriftProcessor_dispatchCall_def
proof (rule rpc)
  show "emits C (waffle_thriftClient_send_search P keys) (K_msg ''search'' T_CALL 0 # search_args_toks keys)"
    using assms by (intro send_search_writes)
  show "moves C (waffle_thriftProcessor_process_search what P n F 0) (search_args_toks keys) [] h (Inr ()) []
      [K_msg ''search'' T_EXCEPTION 0, K_exn UNKNOWN_EXCEPTION (what e)] h'"
    using process_search_throws [where i = 0 and a = "[]" and b = "[]" and what = what and F = F] assms by simp
  show "moves C (on_down (waffle_thriftClient_recv_search P n r0)) []
      [K_msg ''search'' T_EXCEPTION 0, K_exn UNKNOWN_EXCEPTION (what e)] h'
      (Inl (Application_error UNKNOWN_EXCEPTION (what e))) [] [] h'"
    using down_raises [OF recv_search_raises [where f = "''search''" and i = 0], where b = "[]" and a = "[]"] by simp
qed simp

end

end
