(* ===== verification/Thrift_Binary.thy ===== *)
theory Thrift_Binary
  imports Thrift_Processor
begin

text \<open>
  A protocol that meets the contract \<open>thrift_protocol\<close>: the strict binary format the server is created
  with (\<open>thrift_server.cpp\<close>, \<open>thrift_handler_factory.cpp\<close>), over a buffer of bytes.  Integers are
  big-endian two's complement, strings and lists carry a 32-bit length, a field is a type byte and a
  16-bit identifier, a message starts with a version word.  The library itself is not part of the
  repository; this instance shows that the contract can be met and makes the service executable.
\<close>

subsection \<open>Integers as bytes\<close>

fun be :: "nat \<Rightarrow> int \<Rightarrow> string" where
  "be 0 x = []"
| "be (Suc k) x = be k (x div 256) @ [char_of (nat (x mod 256))]"

definition un_be :: "string \<Rightarrow> int" where
  "un_be bs = foldl (\<lambda>a c. a * 256 + int (of_char c)) 0 bs"

definition sext :: "nat \<Rightarrow> int \<Rightarrow> int" where
  "sext w x = (x + 2 ^ (w - 1)) mod 2 ^ w - 2 ^ (w - 1)"

lemma length_be [simp]: "length (be k x) = k"
  by (induction k arbitrary: x) auto

lemma un_be_snoc: "un_be (bs @ [c]) = un_be bs * 256 + int (of_char c)"
  by (simp add: un_be_def)

lemma un_be_be: "un_be (be k x) = x mod 256 ^ k"
proof (induction k arbitrary: x)
  case 0
  show ?case by (simp add: un_be_def)
next
  case (Suc k)
  have b: "int (of_char (char_of (nat (x mod 256)))) = x mod 256"
    by (simp add: of_char_of nat_mod_distrib)
  have "x mod (256 * 256 ^ k) = 256 * (x div 256 mod 256 ^ k) + x mod 256"
    by (rule zmod_zmult2_eq) simp
  then show ?case by (simp add: un_be_snoc Suc b)
qed

lemma sext_be:
  assumes "0 < k" and "- (2 ^ (8 * k - 1)) \<le> x" and "x < 2 ^ (8 * k - 1)"
  shows "sext (8 * k) (un_be (be k x)) = x"
proof -
  have p: "(256::int) ^ k = 2 ^ (8 * k)" by (simp add: power_mult)
  have d: "(2::int) ^ (8 * k) = 2 * 2 ^ (8 * k - 1)"
    using assms(1) by (cases "8 * k") auto
  have "(x mod 2 ^ (8 * k) + 2 ^ (8 * k - 1)) mod 2 ^ (8 * k) = (x + 2 ^ (8 * k - 1)) mod 2 ^ (8 * k)"
    by (simp add: mod_add_left_eq)
  also have "\<dots> = x + 2 ^ (8 * k - 1)" using assms(2,3) d by (intro mod_pos_pos_trivial) auto
  finally show ?thesis by (simp add: sext_def un_be_be p)
qed

subsection \<open>Reading from and writing to a buffer\<close>

definition put_bytes :: "string \<Rightarrow> (string, unit) io" where
  "put_bytes bs = (\<lambda>p. (Inr (), p @ bs))"

definition get_bytes :: "nat \<Rightarrow> (string, string) io" where
  "get_bytes k = (\<lambda>p. if length p < k then (Inl End_of_file, p) else (Inr (take k p), drop k p))"

definition get_int :: "nat \<Rightarrow> (string, int) io" where
  "get_int k = bindIO (get_bytes k) (\<lambda>bs. returnIO (sext (8 * k) (un_be bs)))"

definition get_string :: "(string, string) io" where
  "get_string = bindIO (get_int 4) (\<lambda>k. if k < 0 then throwIO (Protocol_error INVALID_DATA) else get_bytes (nat k))"

definition ttype_codes :: "(ttype \<times> int) list" where
  "ttype_codes = [(T_STOP, 0), (T_VOID, 1), (T_BOOL, 2), (T_BYTE, 3), (T_DOUBLE, 4), (T_I16, 6), (T_I32, 8),
     (T_I64, 10), (T_STRING, 11), (T_STRUCT, 12), (T_MAP, 13), (T_SET, 14), (T_LIST, 15)]"

definition ttype_code :: "ttype \<Rightarrow> int" where
  "ttype_code t = (case map_of ttype_codes t of Some c \<Rightarrow> c | None \<Rightarrow> 0)"

definition get_ttype :: "(string, ttype) io" where
  "get_ttype = bindIO (get_int 1) (\<lambda>c.
     case map_of (map (\<lambda>(t, c). (c, t)) ttype_codes) c of
       Some t \<Rightarrow> returnIO t | None \<Rightarrow> throwIO (Protocol_error INVALID_DATA))"

definition version_1 :: int where "version_1 = - 2147418112"

fun mtype_code :: "mtype \<Rightarrow> int" where
  "mtype_code T_CALL = 1"
| "mtype_code T_REPLY = 2"
| "mtype_code T_EXCEPTION = 3"
| "mtype_code T_ONEWAY = 4"

definition get_mtype :: "(string, mtype) io" where
  "get_mtype = bindIO (get_int 4) (\<lambda>c.
     case map_of [(1, T_CALL), (2, T_REPLY), (3, T_EXCEPTION), (4, T_ONEWAY)] (c - version_1) of
       Some t \<Rightarrow> returnIO t | None \<Rightarrow> throwIO (Protocol_error INVALID_DATA))"

definition str_bytes :: "string \<Rightarrow> string" where
  "str_bytes s = be 4 (int (length s)) @ s"

fun wire :: "tok \<Rightarrow> string" where
  "wire (K_msg nm m i) = be 4 (version_1 + mtype_code m) @ str_bytes nm @ be 4 i"
| "wire (K_field t i) = be 1 (ttype_code t) @ be 2 i"
| "wire K_stop = be 1 0"
| "wire (K_list t k) = be 1 (ttype_code t) @ be 4 (int k)"
| "wire (K_i32 x) = be 4 x"
| "wire (K_i64 x) = be 8 x"
| "wire (K_str s) = str_bytes s"
| "wire (K_exn x s) = be 1 (ttype_code T_STRING) @ be 2 1 @ str_bytes s
     @ be 1 (ttype_code T_I32) @ be 2 2 @ be 4 x @ be 1 0"

definition get_field :: "(string, string \<times> ttype \<times> int) io" where
  "get_field = bindIO get_ttype (\<lambda>t. if t = T_STOP then returnIO ([], T_STOP, 0)
     else bindIO (get_int 2) (\<lambda>i. returnIO ([], t, i)))"

definition get_list :: "(string, ttype \<times> nat) io" where
  "get_list = bindIO get_ttype (\<lambda>t. bindIO (get_int 4) (\<lambda>k.
     if k < 0 then throwIO (Protocol_error INVALID_DATA) else returnIO (t, nat k)))"

definition get_message :: "(string, string \<times> mtype \<times> int) io" where
  "get_message = bindIO get_mtype (\<lambda>m. bindIO get_string (\<lambda>nm. bindIO (get_int 4) (\<lambda>i. returnIO (nm, m, i))))"

definition get_exception :: "(string, int \<times> string) io" where
  "get_exception = bindIO get_field (\<lambda>_. bindIO get_string (\<lambda>s. bindIO get_field (\<lambda>_.
     bindIO (get_int 4) (\<lambda>x. bindIO get_field (\<lambda>_. returnIO (x, s))))))"

text \<open>Skipping a value follows its nesting; the bound is the length of the buffer.\<close>

fun skip_value :: "nat \<Rightarrow> ttype \<Rightarrow> (string, unit) io" and skip_fields :: "nat \<Rightarrow> (string, unit) io" where
  "skip_value 0 t = throwIO Out_of_fuel"
| "skip_value (Suc k) t =
     (if t = T_BOOL \<or> t = T_BYTE then bindIO (get_bytes 1) (\<lambda>_. returnIO ())
      else if t = T_I16 then bindIO (get_bytes 2) (\<lambda>_. returnIO ())
      else if t = T_I32 then bindIO (get_bytes 4) (\<lambda>_. returnIO ())
      else if t = T_I64 \<or> t = T_DOUBLE then bindIO (get_bytes 8) (\<lambda>_. returnIO ())
      else if t = T_STRING then bindIO get_string (\<lambda>_. returnIO ())
      else if t = T_STRUCT then skip_fields k
      else if t = T_LIST \<or> t = T_SET then
        bindIO get_list (\<lambda>(et, c). seqIO (replicate c (skip_value k et)))
      else if t = T_MAP then
        bindIO get_ttype (\<lambda>kt. bindIO get_list (\<lambda>(vt, c).
          seqIO (concat (replicate c [skip_value k kt, skip_value k vt]))))
      else throwIO (Protocol_error INVALID_DATA))"
| "skip_fields 0 = throwIO Out_of_fuel"
| "skip_fields (Suc k) = bindIO get_field (\<lambda>(nm, t, i).
     if t = T_STOP then returnIO () else bindIO (skip_value k t) (\<lambda>_. skip_fields k))"

definition binary_protocol :: "string tproto" where
  "binary_protocol = \<lparr>
     writeMessageBegin = \<lambda>nm m i. put_bytes (wire (K_msg nm m i)), writeMessageEnd = returnIO (),
     writeStructBegin = \<lambda>_. returnIO (), writeStructEnd = returnIO (),
     writeFieldBegin = \<lambda>_ t i. put_bytes (wire (K_field t i)), writeFieldEnd = returnIO (),
     writeFieldStop = put_bytes (wire K_stop),
     writeListBegin = \<lambda>t k. put_bytes (wire (K_list t k)), writeListEnd = returnIO (),
     writeI32 = \<lambda>x. put_bytes (wire (K_i32 x)), writeI64 = \<lambda>x. put_bytes (wire (K_i64 x)),
     writeString = \<lambda>s. put_bytes (wire (K_str s)), writeException = \<lambda>x s. put_bytes (wire (K_exn x s)),
     writeEnd = returnIO (), flushT = returnIO (),
     readMessageBegin = get_message, readMessageEnd = returnIO (),
     readStructBegin = returnIO [], readStructEnd = returnIO (),
     readFieldBegin = get_field, readFieldEnd = returnIO (),
     readListBegin = get_list, readListEnd = returnIO (),
     readI32 = get_int 4, readI64 = get_int 8, readString = get_string,
     readException = get_exception, readEnd = returnIO (),
     skipT = \<lambda>t p. skip_value (Suc (length p)) t p \<rparr>"

definition buffered :: "string \<Rightarrow> tok list \<Rightarrow> bool" where
  "buffered p ts \<longleftrightarrow> p = concat (map wire ts) \<and> list_all tok_ok ts"

subsection \<open>Parsers invert the wire format\<close>

definition parses :: "(string, 'a) io \<Rightarrow> string \<Rightarrow> 'a \<Rightarrow> bool" where
  "parses m bs v \<longleftrightarrow> (\<forall>q. m (bs @ q) = (Inr v, q))"

lemma parses_bind: "parses m a x \<Longrightarrow> parses (f x) b y \<Longrightarrow> parses (bindIO m f) (a @ b) y"
  by (simp add: parses_def bindIO_def)

lemma parses_return: "parses (returnIO x) [] x"
  by (simp add: parses_def io_simps)

lemma parses_then: "parses m a x \<Longrightarrow> parses (bindIO m (\<lambda>x. returnIO (g x))) a (g x)"
  using parses_bind [OF _ parses_return] by fastforce

lemma parses_bytes: "k = length bs \<Longrightarrow> parses (get_bytes k) bs bs"
  by (simp add: parses_def get_bytes_def)

lemma parses_int:
  assumes "0 < k" and "- (2 ^ (8 * k - 1)) \<le> x" and "x < 2 ^ (8 * k - 1)"
  shows "parses (get_int k) (be k x) x"
  using parses_then [OF parses_bytes [of k "be k x"], of "\<lambda>bs. sext (8 * k) (un_be bs)"] sext_be [OF assms]
  by (simp add: get_int_def)

lemma parses_i32: "fits32 x \<Longrightarrow> parses (get_int 4) (be 4 x) x"
  by (rule parses_int) (simp_all add: fits32_def int_min_def int_max_def)

lemma parses_i64: "fits64 x \<Longrightarrow> parses (get_int 8) (be 8 x) x"
  by (rule parses_int) (simp_all add: fits64_def)

lemma parses_len: "k < 2 ^ 31 \<Longrightarrow> parses (get_int 4) (be 4 (int k)) (int k)"
  by (rule parses_i32) (simp add: fits32_def int_min_def int_max_def)

lemma parses_string:
  assumes "length s < 2 ^ 31" shows "parses get_string (str_bytes s) s"
  unfolding get_string_def str_bytes_def
  by (rule parses_bind [OF parses_len [OF assms]]) (simp add: parses_bytes)

lemma parses_ttype: "parses get_ttype (be 1 (ttype_code t)) t"
proof -
  have "parses (get_int 1) (be 1 (ttype_code t)) (ttype_code t)"
    by (rule parses_int) (cases t; simp add: ttype_code_def ttype_codes_def)+
  then have "parses get_ttype (be 1 (ttype_code t) @ []) t" unfolding get_ttype_def
    by (rule parses_bind) (cases t; simp add: ttype_code_def ttype_codes_def parses_return)
  then show ?thesis by simp
qed

lemma ttype_code_stop: "ttype_code T_STOP = 0"
  by (simp add: ttype_code_def ttype_codes_def)

lemma parses_field:
  assumes "tok_ok (K_field t i)" shows "parses get_field (be 1 (ttype_code t) @ be 2 i) ([], t, i)"
proof -
  have "parses (get_int 2) (be 2 i) i" by (rule parses_int) (use assms in simp_all)
  from parses_then [OF this, of "\<lambda>i. ([], t, i)"] show ?thesis unfolding get_field_def
    by (intro parses_bind [OF parses_ttype]) (use assms in simp)
qed

lemma parses_stop: "parses get_field (be 1 0) ([], T_STOP, 0)"
proof -
  have "parses get_field (be 1 (ttype_code T_STOP) @ []) ([], T_STOP, 0)" unfolding get_field_def
    by (rule parses_bind [OF parses_ttype]) (simp add: parses_return)
  then show ?thesis by (simp add: ttype_code_stop)
qed

lemma parses_list:
  assumes "k < 2 ^ 31" shows "parses get_list (be 1 (ttype_code t) @ be 4 (int k)) (t, k)"
proof -
  have "parses (bindIO (get_int 4) (\<lambda>k. if k < 0 then throwIO (Protocol_error INVALID_DATA) else returnIO (t, nat k)))
      (be 4 (int k) @ []) (t, k)"
    by (rule parses_bind [OF parses_len [OF assms]]) (simp add: parses_return)
  then show ?thesis unfolding get_list_def by (intro parses_bind [OF parses_ttype]) simp
qed

lemma parses_mtype: "parses get_mtype (be 4 (version_1 + mtype_code m)) m"
proof -
  have "parses (get_int 4) (be 4 (version_1 + mtype_code m)) (version_1 + mtype_code m)"
    by (rule parses_i32) (cases m; simp add: version_1_def fits32_def int_min_def int_max_def)
  then have "parses get_mtype (be 4 (version_1 + mtype_code m) @ []) m" unfolding get_mtype_def
    by (rule parses_bind) (cases m; simp add: parses_return)
  then show ?thesis by simp
qed

lemma parses_message:
  assumes "tok_ok (K_msg nm m i)" shows "parses get_message (wire (K_msg nm m i)) (nm, m, i)"
  unfolding get_message_def wire.simps
  by (rule parses_bind [OF parses_mtype], rule parses_bind [OF parses_string], use assms in simp)
    (rule parses_then, rule parses_i32, use assms in simp)

lemma parses_exception:
  assumes "tok_ok (K_exn x s)" shows "parses get_exception (wire (K_exn x s)) (x, s)"
proof -
  have x: "parses (bindIO (get_int 4) (\<lambda>x. bindIO get_field (\<lambda>_. returnIO (x, s)))) (be 4 x @ be 1 0) (x, s)"
    by (rule parses_bind [OF parses_i32], use assms in simp) (rule parses_then [OF parses_stop])
  have f: "parses (bindIO get_field (\<lambda>_. bindIO (get_int 4) (\<lambda>x. bindIO get_field (\<lambda>_. returnIO (x, s)))))
      ((be 1 (ttype_code T_I32) @ be 2 2) @ (be 4 x @ be 1 0)) (x, s)"
    by (rule parses_bind [OF parses_field x]) simp
  have "parses (bindIO get_string (\<lambda>s. bindIO get_field (\<lambda>_. bindIO (get_int 4) (\<lambda>x.
      bindIO get_field (\<lambda>_. returnIO (x, s)))))) (str_bytes s @ ((be 1 (ttype_code T_I32) @ be 2 2) @ (be 4 x @ be 1 0))) (x, s)"
    by (rule parses_bind [OF parses_string]) (use assms f in simp_all)
  then have "parses get_exception ((be 1 (ttype_code T_STRING) @ be 2 1) @
      (str_bytes s @ ((be 1 (ttype_code T_I32) @ be 2 2) @ (be 4 x @ be 1 0)))) (x, s)"
    unfolding get_exception_def by (intro parses_bind [OF parses_field]) simp_all
  then show ?thesis by simp
qed

text \<open>From parsers to the items of the contract.\<close>

lemma buffered_reads:
  assumes "list_all tok_ok ts \<Longrightarrow> parses m (concat (map wire ts)) v" and "Q v"
  shows "reads buffered m ts Q"
  unfolding reads_def
proof (intro allI impI)
  fix p q assume "buffered p (ts @ q)"
  then have "p = concat (map wire ts) @ concat (map wire q)" "list_all tok_ok ts" "list_all tok_ok q"
    by (auto simp: buffered_def)
  with assms show "\<exists>x p'. m p = (Inr x, p') \<and> Q x \<and> buffered p' q"
    by (simp add: parses_def buffered_def)
qed

lemma buffered_put:
  "list_all tok_ok ts \<Longrightarrow> bs = concat (map wire ts) \<Longrightarrow> emits buffered (put_bytes bs) ts"
  by (simp add: emits_def put_bytes_def buffered_def)

lemma buffered_nothing: "emits buffered (returnIO ()) []" "Q x \<Longrightarrow> reads buffered (returnIO x) [] Q"
  by (simp_all add: emits_return reads_return)

lemma parses_seq: "list_all2 (\<lambda>m bs. parses m bs ()) ms bss \<Longrightarrow> parses (seqIO ms) (concat bss) ()"
proof (induction rule: list_all2_induct)
  case Nil
  show ?case by (simp add: parses_return)
next
  case (Cons m ms b bs)
  then show ?case by (simp add: parses_bind)
qed

lemma parses_skip:
  "tval t ts \<Longrightarrow> list_all tok_ok ts \<Longrightarrow> length (concat (map wire ts)) \<le> k
   \<Longrightarrow> parses (skip_value (Suc k) t) (concat (map wire ts)) ()"
  "tfields fs \<Longrightarrow> list_all tok_ok fs \<Longrightarrow> length (concat (map wire fs)) \<le> k
   \<Longrightarrow> parses (skip_fields k) (concat (map wire fs)) ()"
proof (induction arbitrary: k and k rule: tval_tfields.inducts)
  case (tval_i32 x)
  show ?case using parses_then [OF parses_bytes [of 4 "be 4 x"], of "\<lambda>_. ()"] by simp
next
  case (tval_i64 x)
  show ?case using parses_then [OF parses_bytes [of 8 "be 8 x"], of "\<lambda>_. ()"] by simp
next
  case (tval_str s)
  then show ?case using parses_then [OF parses_string [of s], of "\<lambda>_. ()"] by simp
next
  case (tval_list vs t)
  let ?bs = "map (\<lambda>v. concat (map wire v)) vs"
  have e: "concat (map wire (concat vs)) = concat ?bs" by (induction vs) auto
  have one: "parses (skip_value k t) (concat (map wire v)) ()" if v: "v \<in> set vs" for v
  proof -
    have "length (concat (map wire v)) \<le> length (concat ?bs)"
      using v by (induction vs) auto
    moreover have "length (concat ?bs) + 5 \<le> k" using tval_list.prems e by simp
    ultimately obtain j where "k = Suc j" "length (concat (map wire v)) \<le> j" by (cases k) auto
    moreover have "list_all tok_ok v" using v tval_list.prems(1) by (auto simp: list_all_iff)
    ultimately show ?thesis using tval_list.IH [OF v] by simp
  qed
  have "parses (seqIO (replicate (length vs) (skip_value k t))) (concat ?bs) ()"
    using one by (intro parses_seq) (auto simp: list_all2_conv_all_nth)
  moreover have "parses get_list (be 1 (ttype_code t) @ be 4 (int (length vs))) (t, length vs)"
    using tval_list.prems(1) by (intro parses_list) simp
  ultimately have "parses (bindIO get_list (\<lambda>(et, c). seqIO (replicate c (skip_value k et))))
      ((be 1 (ttype_code t) @ be 4 (int (length vs))) @ concat ?bs) ()"
    by (intro parses_bind) auto
  then show ?case by (simp add: e)
next
  case (tval_struct fs)
  then show ?case by simp
next
  case tfields_stop
  then obtain j where "k = Suc j" by (cases k) auto
  moreover have "parses (skip_fields (Suc j)) (be 1 0 @ []) ()"
    unfolding skip_fields.simps by (rule parses_bind [OF parses_stop]) (simp add: parses_return)
  ultimately show ?case by simp
next
  case (tfields_more t v fs i)
  then obtain j where k: "k = Suc (Suc j)" "length (concat (map wire v)) \<le> j"
      "length (concat (map wire fs)) \<le> Suc j"
    by (cases k; cases "k - 1") auto
  have ok: "tok_ok (K_field t i)" "list_all tok_ok v" "list_all tok_ok fs" using tfields_more.prems(1) by auto
  have "parses (bindIO (skip_value (Suc j) t) (\<lambda>_. skip_fields (Suc j)))
      (concat (map wire v) @ concat (map wire fs)) ()"
    by (rule parses_bind [OF tfields_more.IH(1) [OF ok(2) k(2)] tfields_more.IH(2) [OF ok(3) k(3)]])
  then have "parses (skip_fields (Suc (Suc j)))
      ((be 1 (ttype_code t) @ be 2 i) @ concat (map wire v) @ concat (map wire fs)) ()"
    unfolding skip_fields.simps(2) [of "Suc j"] by (intro parses_bind [OF parses_field [OF ok(1)]])
      (use ok(1) in simp)
  then show ?case by (simp add: k del: skip_fields.simps skip_value.simps)
qed

lemma buffered_skip:
  assumes "tval t v" and "list_all tok_ok v"
  shows "reads buffered (\<lambda>p. skip_value (Suc (length p)) t p) v (\<lambda>_. True)"
  unfolding reads_def
proof (intro allI impI)
  fix p q assume "buffered p (v @ q)"
  then have p: "p = concat (map wire v) @ concat (map wire q)" "list_all tok_ok q"
    by (auto simp: buffered_def)
  then have "parses (skip_value (Suc (length p)) t) (concat (map wire v)) ()"
    using assms by (intro parses_skip) auto
  with p show "\<exists>x p'. skip_value (Suc (length p)) t p = (Inr x, p') \<and> True \<and> buffered p' q"
    by (auto simp: parses_def buffered_def)
qed

subsection \<open>The contract is met\<close>

lemma buffered_values:
  "reads buffered get_message [K_msg nm m i] (\<lambda>v. v = (nm, m, i))"
  "reads buffered get_field [K_field t i] (\<lambda>(nm, t', i'). t' = t \<and> i' = i)"
  "reads buffered get_field [K_stop] (\<lambda>(nm, t', i'). t' = T_STOP)"
  "reads buffered get_list [K_list t k] (\<lambda>v. v = (t, k))"
  "reads buffered (get_int 4) [K_i32 x] (\<lambda>v. v = x)"
  "reads buffered (get_int 8) [K_i64 x] (\<lambda>v. v = x)"
  "reads buffered get_string [K_str s] (\<lambda>v. v = s)"
  "reads buffered get_exception [K_exn x s] (\<lambda>v. v = (x, s))"
  by (rule buffered_reads, use parses_message in force, simp)
    (rule buffered_reads, use parses_field in force, simp,
     rule buffered_reads, use parses_stop in force, simp,
     rule buffered_reads, use parses_list in force, simp,
     rule buffered_reads, use parses_i32 in force, simp,
     rule buffered_reads, use parses_i64 in force, simp,
     rule buffered_reads, use parses_string in force, simp,
     rule buffered_reads, use parses_exception in force, simp)

lemma buffered_stop: "emits buffered (put_bytes (wire K_stop)) [K_stop]"
  by (rule buffered_put) simp_all

lemma buffered_ok: "buffered p ts \<Longrightarrow> list_all tok_ok ts"
  by (simp add: buffered_def)

interpretation bin: thrift_protocol binary_protocol buffered
  by unfold_locales
    (simp_all add: binary_protocol_def buffered_put buffered_nothing buffered_values buffered_skip
        buffered_ok buffered_stop
      del: tok_ok.simps wire.simps skip_value.simps be.simps)

end
