(* ===== verification/Response_Channel.thy ===== *)
theory Response_Channel
  imports Thrift_Binary
begin

text \<open>
  How the results of asynchronous requests travel back: the generated one-way service
  \<open>waffle_thrift_response\<close> (\<open>waffle_thrift_response.cpp\<close>), its wrapper \<open>thrift_response_client\<close>, the table
  of registered clients (\<open>thrift_response_client_map.cpp\<close>) and the client's reader
  (\<open>libclient/src/command_response_reader.cpp\<close>).

  The table is a \<open>libcuckoo::cuckoohash_map\<close>, which is not part of the repository: its operations are
  the fields of \<open>client_table\<close>, over an abstract table \<open>'m\<close> of response streams \<open>'p\<close>, and the locale
  \<open>client_table_laws\<close> states what the code relies on.
\<close>

subsection \<open>The response service\<close>

text \<open>Any exception while sending ends the process.\<close>

definition waffle_thrift_responseClient_send_async_response ::
  "'p tproto \<Rightarrow> sequence_id \<Rightarrow> int \<Rightarrow> string list \<Rightarrow> ('p, unit) io" where
  "waffle_thrift_responseClient_send_async_response P sq op_code res =
     catchIO (write_message P ''async_response'' T_ONEWAY 0
                (waffle_thrift_response_async_response_pargs_write P sq op_code res))
       (\<lambda>e. throwIO (Exit 1))"

definition waffle_thrift_responseClient_async_response ::
  "'p tproto \<Rightarrow> sequence_id \<Rightarrow> int \<Rightarrow> string list \<Rightarrow> ('p, unit) io" where
  "waffle_thrift_responseClient_async_response P sq op_code res =
     waffle_thrift_responseClient_send_async_response P sq op_code res"

definition thrift_response_client_async_response ::
  "'p tproto \<Rightarrow> sequence_id \<Rightarrow> int \<Rightarrow> string list \<Rightarrow> ('p, unit) io" where
  "thrift_response_client_async_response P sq op_code res =
     waffle_thrift_responseClient_async_response P sq op_code res"

record 'h waffle_thrift_responseIf =
  RIf_async_response :: "sequence_id \<Rightarrow> int \<Rightarrow> string list \<Rightarrow> ('h, unit) io"

definition waffle_thrift_responseProcessor_process_async_response ::
  "'p tproto \<Rightarrow> nat \<Rightarrow> 'h waffle_thrift_responseIf \<Rightarrow> int \<Rightarrow> (('p, 'h) link, unit) io" where
  "waffle_thrift_responseProcessor_process_async_response P n iface seqid =
     bindIO (read_args P (waffle_thrift_response_async_response_args_read P n
               waffle_thrift_response_async_response_args_init)) (\<lambda>args.
       answer_oneway (RIf_async_response iface (async_response_args_seq_id args)
         (async_response_args_op_code args) (async_response_args_result args)))"

definition waffle_thrift_responseProcessor ::
  "'p tproto \<Rightarrow> nat \<Rightarrow> 'h waffle_thrift_responseIf \<Rightarrow> (string, int \<Rightarrow> (('p, 'h) link, unit) io) umap" where
  "waffle_thrift_responseProcessor P n iface =
     [(''async_response'', waffle_thrift_responseProcessor_process_async_response P n iface)]"

definition waffle_thrift_responseProcessor_dispatchCall ::
  "'p tproto \<Rightarrow> nat \<Rightarrow> 'h waffle_thrift_responseIf \<Rightarrow> string \<Rightarrow> int \<Rightarrow> (('p, 'h) link, bool) io" where
  "waffle_thrift_responseProcessor_dispatchCall P n iface = dispatch P (waffle_thrift_responseProcessor P n iface)"

subsection \<open>The table of clients\<close>

record ('m, 'p) client_table =
  ct_new :: "'m"
  ct_insert :: "int \<Rightarrow> 'p \<Rightarrow> 'm \<Rightarrow> 'm"
  ct_erase :: "int \<Rightarrow> 'm \<Rightarrow> 'm"
  ct_update_fn :: "int \<Rightarrow> ('p, unit) io \<Rightarrow> ('m, bool) io"
  ct_clear :: "'m \<Rightarrow> 'm"
  ct_keys :: "'m \<Rightarrow> int list"

definition thrift_response_client_map :: "('m, 'p) client_table \<Rightarrow> 'm" where
  "thrift_response_client_map T = ct_new T"

definition add_client :: "('m, 'p) client_table \<Rightarrow> int \<Rightarrow> 'p \<Rightarrow> 'm \<Rightarrow> 'm" where
  "add_client T cid client m = ct_insert T cid client m"

definition remove_client :: "('m, 'p) client_table \<Rightarrow> int \<Rightarrow> 'm \<Rightarrow> 'm" where
  "remove_client T cid m = ct_erase T cid m"

text \<open>\<open>catch (TTransportException e)\<close> around the send.\<close>

definition catch_transport :: "('s, unit) io \<Rightarrow> ('s, unit) io" where
  "catch_transport m = (\<lambda>s. case m s of (r, s') \<Rightarrow> if r = Inl End_of_file then (Inr (), s') else (r, s'))"

definition async_respond_client ::
  "'p tproto \<Rightarrow> ('m, 'p) client_table \<Rightarrow> sequence_id \<Rightarrow> int \<Rightarrow> string list \<Rightarrow> ('m, unit) io" where
  "async_respond_client P T sq op_code res =
     (if client_id sq = - 1 then returnIO ()
      else bindIO (ct_update_fn T (client_id sq)
                     (catch_transport (thrift_response_client_async_response P sq op_code res)))
             (\<lambda>found. returnIO ()))"

definition client_map_clear :: "('m, 'p) client_table \<Rightarrow> 'm \<Rightarrow> 'm" where
  "client_map_clear T m = ct_clear T m"

definition failure_id :: sequence_id where
  "failure_id = sequence_id_set_client_id (- 2)
     (sequence_id_set_client_seq_no (- 2) (sequence_id_set_client_id (- 2) sequence_id_init))"

definition send_failure :: "'p tproto \<Rightarrow> ('m, 'p) client_table \<Rightarrow> ('m, unit) io" where
  "send_failure P T = (\<lambda>m.
     seqIO (map (\<lambda>k. bindIO (ct_update_fn T k (catchIO (thrift_response_client_async_response P failure_id 5 [])
                               (\<lambda>e. returnIO ()))) (\<lambda>found. returnIO ())) (ct_keys T m)) m)"

subsection \<open>The client's reader\<close>

text \<open>
  The result is the sequence number and the new content of \<open>out\<close>.  When the message lacks one of the
  two fields the function runs off its end without a return value.
\<close>

definition recv_response :: "'p tproto \<Rightarrow> nat \<Rightarrow> ('p, int \<times> string list) io" where
  "recv_response P n =
     bindIO (readMessageBegin P) (\<lambda>(fname, mtype, rseqid).
       if mtype = T_EXCEPTION then
         bindIO (readException P) (\<lambda>(t, msg). bindIO (end_of_message P) (\<lambda>_. throwIO (Application_error t msg)))
       else
         bindIO (recv_body P (waffle_thrift_response_async_response_args_read P n
                   waffle_thrift_response_async_response_args_init)) (\<lambda>result.
           if async_response_args_isset_seq_id result \<and> async_response_args_isset_result result
           then returnIO (client_seq_no (async_response_args_seq_id result), async_response_args_result result)
           else throwIO Undefined_behaviour))"

lemma emits_catch: "emits C m ts \<Longrightarrow> emits C (catchIO m h) ts"
  by (fastforce simp: emits_def catchIO_def)

subsection \<open>What the table promises\<close>

locale client_table_laws =
  fixes T :: "('m, 'p) client_table" and lookup :: "'m \<Rightarrow> int \<Rightarrow> 'p option"
  assumes t_new: "lookup (ct_new T) k = None"
    and t_insert: "lookup (ct_insert T k p m) k' =
        (if k' = k \<and> lookup m k = None then Some p else lookup m k')"
    and t_erase: "lookup (ct_erase T k m) k' = (if k' = k then None else lookup m k')"
    and t_absent: "lookup m k = None \<Longrightarrow> \<exists>m'. ct_update_fn T k f m = (Inr False, m') \<and> lookup m' = lookup m"
    and t_present: "lookup m k = Some p \<Longrightarrow> f p = (Inr (), p')
        \<Longrightarrow> \<exists>m'. ct_update_fn T k f m = (Inr True, m') \<and> lookup m' = (lookup m)(k \<mapsto> p')"
    and t_throws: "lookup m k = Some p \<Longrightarrow> f p = (Inl e, p')
        \<Longrightarrow> \<exists>m'. ct_update_fn T k f m = (Inl e, m') \<and> lookup m' = (lookup m)(k \<mapsto> p')"
    and t_clear: "lookup (ct_clear T m) k = None"
    and t_keys: "k \<in> set (ct_keys T m) \<longleftrightarrow> lookup m k \<noteq> None"
begin

lemma add_then_remove: "lookup m cid = None \<Longrightarrow> lookup (remove_client T cid (add_client T cid p m)) = lookup m"
  by (auto simp: add_client_def remove_client_def t_insert t_erase fun_eq_iff)

text \<open>A second registration under the same identifier is ignored.\<close>

lemma registered_twice:
  "lookup (add_client T cid p' (add_client T cid p m)) = lookup (add_client T cid p m)"
  by (auto simp: add_client_def t_insert fun_eq_iff)

lemma respond_unknown:
  assumes "lookup m (client_id sq) = None"
  shows "\<exists>m'. async_respond_client P T sq op_code res m = (Inr (), m') \<and> lookup m' = lookup m"
proof (cases "client_id sq = - 1")
  case True
  then show ?thesis by (simp add: async_respond_client_def io_simps)
next
  case False
  let ?send = "catch_transport (thrift_response_client_async_response P sq op_code res)"
  obtain m' where "ct_update_fn T (client_id sq) ?send m = (Inr False, m')" "lookup m' = lookup m"
    using t_absent [OF assms] by blast
  with False show ?thesis by (simp add: async_respond_client_def bindIO_ok returnIO_def)
qed

end

context thrift_protocol
begin

lemma response_writes:
  assumes "sequence_id_ok sq" and "fits32 op_code" and "strs_ok res"
  shows "emits C (thrift_response_client_async_response P sq op_code res)
    (K_msg ''async_response'' T_ONEWAY 0 # async_response_args_toks sq op_code res)"
proof -
  have "emits C (write_message P ''async_response'' T_ONEWAY 0
      (waffle_thrift_response_async_response_pargs_write P sq op_code res))
    (K_msg ''async_response'' T_ONEWAY 0 # async_response_args_toks sq op_code res)"
    by (rule emits_message) (simp_all add: waffle_thrift_response_async_response_pargs_writes assms)
  then have "emits C (catchIO (write_message P ''async_response'' T_ONEWAY 0
      (waffle_thrift_response_async_response_pargs_write P sq op_code res)) (\<lambda>e. throwIO (Exit 1)))
    (K_msg ''async_response'' T_ONEWAY 0 # async_response_args_toks sq op_code res)"
    by (rule emits_catch)
  then show ?thesis
    unfolding thrift_response_client_async_response_def waffle_thrift_responseClient_async_response_def
      waffle_thrift_responseClient_send_async_response_def .
qed

lemma response_reads:
  assumes "3 < n"
  shows "reads C (recv_response P n) (K_msg nm T_ONEWAY i # async_response_args_toks sq op_code res)
    (\<lambda>x. x = (client_seq_no sq, res))"
proof -
  note body = reads_body [OF waffle_thrift_response_async_response_args_reads [OF assms]]
  have "reads C (bindIO (recv_body P (waffle_thrift_response_async_response_args_read P n
          waffle_thrift_response_async_response_args_init)) (\<lambda>result.
        if async_response_args_isset_seq_id result \<and> async_response_args_isset_result result
        then returnIO (client_seq_no (async_response_args_seq_id result), async_response_args_result result)
        else throwIO Undefined_behaviour)) (async_response_args_toks sq op_code res @ [])
      (\<lambda>x. x = (client_seq_no sq, res))"
    by (rule reads_bind [OF body]) (simp add: reads_return)
  then have "reads C (recv_response P n) ([K_msg nm T_ONEWAY i] @ async_response_args_toks sq op_code res)
      (\<lambda>x. x = (client_seq_no sq, res))"
    unfolding recv_response_def by (intro reads_bind [OF r_message]) simp
  then show ?thesis by simp
qed

end

locale response_channel = thrift_protocol P C + client_table_laws T lookup
  for P :: "'p tproto" and C :: "'p \<Rightarrow> tok list \<Rightarrow> bool" and T :: "('m, 'p) client_table"
    and lookup :: "'m \<Rightarrow> int \<Rightarrow> 'p option"
begin

text \<open>A response reaches the stream of the client it is addressed to, behind what is already there.\<close>

lemma respond_delivers:
  assumes "lookup m (client_id sq) = Some p" and "C p ts" and "client_id sq \<noteq> - 1"
    and "sequence_id_ok sq" and "fits32 op_code" and "strs_ok res"
  shows "\<exists>m' p'. async_respond_client P T sq op_code res m = (Inr (), m') \<and>
    lookup m' = (lookup m)(client_id sq \<mapsto> p') \<and>
    C p' (ts @ K_msg ''async_response'' T_ONEWAY 0 # async_response_args_toks sq op_code res)"
proof -
  let ?send = "catch_transport (thrift_response_client_async_response P sq op_code res)"
  obtain p' where p': "thrift_response_client_async_response P sq op_code res p = (Inr (), p')"
    "C p' (ts @ K_msg ''async_response'' T_ONEWAY 0 # async_response_args_toks sq op_code res)"
    using emitsD [OF response_writes [OF assms(4-6)] assms(2)] by blast
  have "?send p = (Inr (), p')" by (simp add: catch_transport_def p'(1))
  then obtain m' where "ct_update_fn T (client_id sq) ?send m = (Inr True, m')"
      "lookup m' = (lookup m)(client_id sq \<mapsto> p')"
    using t_present [OF assms(1)] by blast
  then show ?thesis using p'(2) assms(3) by (auto simp: async_respond_client_def bindIO_ok returnIO_def)
qed

end

subsection \<open>A table of clients as an association list\<close>

definition alist_table :: "((int, 'p) umap, 'p) client_table" where
  "alist_table = \<lparr>
     ct_new = [],
     ct_insert = \<lambda>k p m. (case um_find m k of None \<Rightarrow> um_set k p m | Some _ \<Rightarrow> m),
     ct_erase = um_erase,
     ct_update_fn = \<lambda>k f m. (case um_find m k of
        None \<Rightarrow> (Inr False, m)
      | Some p \<Rightarrow> (case f p of (r, p') \<Rightarrow> ((case r of Inl e \<Rightarrow> Inl e | Inr _ \<Rightarrow> Inr True), um_set k p' m))),
     ct_clear = \<lambda>_. [],
     ct_keys = um_keys \<rparr>"

lemma um_find_set_fun: "um_find (um_set k v m) = (um_find m)(k \<mapsto> v)"
  by (simp add: fun_eq_iff)

interpretation channel: response_channel binary_protocol buffered alist_table um_find
proof unfold_locales
  show "k \<in> set (ct_keys alist_table m) \<longleftrightarrow> um_find m k \<noteq> None" for k and m :: "(int, string) umap"
    by (simp add: alist_table_def um_find_def map_of_eq_None_iff)
qed (auto simp: alist_table_def um_find_set_fun split: option.splits)

end
