(* ===== verification/Proxy_Frontend.thy ===== *)
theory Proxy_Frontend
  imports Waffle_Proxy Work_Queue Response_Channel
begin

text \<open>
  The public side of the proxy (\<open>waffle_proxy.cpp\<close>, lines 563 to 687 and 776 to 835): every call wraps its
  request into a promise and pushes it onto an operation queue; the synchronous calls wait for the
  promise, the asynchronous ones leave the waiting to the responder thread.

  A future is the identifier of its promise; it is ready when the proxy's promise store has a value
  for it.  The threads that run while a call waits are an argument (\<open>others\<close>).
\<close>

subsection \<open>State\<close>

record ('srv, 'm) front =
  fr_proxy :: "'srv proxy"
  operation_queues :: "(operation \<times> nat) wqueue list"
  respond_queue :: "(int \<times> sequence_id \<times> nat list) wqueue"
  sequence_queue :: "sequence_id wqueue"
  next_promise :: nat
  id_to_client :: 'm
  finished :: bool

definition GET :: int where "GET = 0"
definition PUT :: int where "PUT = 1"
definition GET_BATCH :: int where "GET_BATCH = 2"
definition PUT_BATCH :: int where "PUT_BATCH = 3"

subsection \<open>Futures\<close>

text \<open>\<open>queue_id % operation_queues_.size()\<close> converts the \<open>int\<close> to a 64-bit unsigned number first.\<close>

definition queue_index :: "int \<Rightarrow> nat \<Rightarrow> nat" where
  "queue_index queue_id n = nat (queue_id mod 2 ^ 64) mod n"

definition enqueue :: "int \<Rightarrow> operation \<Rightarrow> (('srv, 'm) front, nat) io" where
  "enqueue queue_id operat = (\<lambda>f.
     if operation_queues f = [] then (Inl Undefined_behaviour, f)
     else let prom = next_promise f; i = queue_index queue_id (length (operation_queues f)) in
       (Inr prom, f\<lparr>next_promise := Suc prom,
          operation_queues := (operation_queues f)[i := queue_push (operat, prom) (operation_queues f ! i)]\<rparr>))"

definition get_future :: "int \<Rightarrow> string \<Rightarrow> (('srv, 'm) front, nat) io" where
  "get_future queue_id key = enqueue queue_id (key, '''')"

definition put_future :: "int \<Rightarrow> string \<Rightarrow> string \<Rightarrow> (('srv, 'm) front, nat) io" where
  "put_future queue_id key value = enqueue queue_id (key, value)"

text \<open>\<open>std::future::get\<close>: waits until the promise has a value.\<close>

definition future_get :: "nat \<Rightarrow> (('srv, 'm) front, string) io" where
  "future_get waiter = (\<lambda>f. case um_find (promises (fr_proxy f)) waiter of
     Some v \<Rightarrow> (Inr v, f) | None \<Rightarrow> (Inl Blocked, f))"

subsection \<open>Synchronous calls\<close>

definition waffle_proxy_get ::
  "(('srv, 'm) front, unit) io \<Rightarrow> int \<Rightarrow> string \<Rightarrow> (('srv, 'm) front, string) io" where
  "waffle_proxy_get others queue_id key =
     bindIO (get_future queue_id key) (\<lambda>w. bindIO others (\<lambda>_. future_get w))"

definition waffle_proxy_put ::
  "(('srv, 'm) front, unit) io \<Rightarrow> int \<Rightarrow> string \<Rightarrow> string \<Rightarrow> (('srv, 'm) front, unit) io" where
  "waffle_proxy_put others queue_id key value =
     bindIO (put_future queue_id key value) (\<lambda>w. bindIO others (\<lambda>_. bindIO (future_get w) (\<lambda>_. returnIO ())))"

definition waffle_proxy_get_batch ::
  "(('srv, 'm) front, unit) io \<Rightarrow> int \<Rightarrow> string list \<Rightarrow> (('srv, 'm) front, string list) io" where
  "waffle_proxy_get_batch others queue_id keys =
     bindIO (mapIO (get_future queue_id) keys) (\<lambda>waiters. bindIO others (\<lambda>_. mapIO future_get waiters))"

text \<open>\<open>values[i]\<close> beyond the end of the vector is undefined behaviour.\<close>

definition put_futures :: "int \<Rightarrow> string list \<Rightarrow> string list \<Rightarrow> (('srv, 'm) front, nat list) io" where
  "put_futures queue_id keys values =
     mapIO (\<lambda>(i, key). if i < length values then put_future queue_id key (values ! i)
                       else throwIO Undefined_behaviour) (enumerate 0 keys)"

definition waffle_proxy_put_batch ::
  "(('srv, 'm) front, unit) io \<Rightarrow> int \<Rightarrow> string list \<Rightarrow> string list \<Rightarrow> (('srv, 'm) front, unit) io" where
  "waffle_proxy_put_batch others queue_id keys values =
     bindIO (put_futures queue_id keys values) (\<lambda>waiters.
     bindIO others (\<lambda>_. bindIO (mapIO future_get waiters) (\<lambda>_. returnIO ())))"

subsection \<open>Asynchronous calls\<close>

definition push_respond :: "int \<Rightarrow> sequence_id \<Rightarrow> nat list \<Rightarrow> (('srv, 'm) front, unit) io" where
  "push_respond op_code sq waiters =
     (\<lambda>f. (Inr (), f\<lparr>respond_queue := queue_push (op_code, sq, waiters) (respond_queue f)\<rparr>))"

definition push_sequence :: "sequence_id \<Rightarrow> (('srv, 'm) front, unit) io" where
  "push_sequence sq = (\<lambda>f. (Inr (), f\<lparr>sequence_queue := queue_push sq (sequence_queue f)\<rparr>))"

definition waffle_proxy_async_get :: "sequence_id \<Rightarrow> int \<Rightarrow> string \<Rightarrow> (('srv, 'm) front, unit) io" where
  "waffle_proxy_async_get sq queue_id key =
     bindIO (get_future queue_id key) (\<lambda>w. push_respond GET sq [w])"

definition waffle_proxy_async_put :: "sequence_id \<Rightarrow> int \<Rightarrow> string \<Rightarrow> string \<Rightarrow> (('srv, 'm) front, unit) io" where
  "waffle_proxy_async_put sq queue_id key value =
     bindIO (put_future queue_id key value) (\<lambda>w. push_respond GET sq [w])"

definition waffle_proxy_async_get_batch ::
  "sequence_id \<Rightarrow> int \<Rightarrow> string list \<Rightarrow> (('srv, 'm) front, unit) io" where
  "waffle_proxy_async_get_batch sq queue_id keys =
     bindIO (mapIO (get_future queue_id) keys) (\<lambda>waiters.
     bindIO (push_respond GET_BATCH sq waiters) (\<lambda>_. push_sequence sq))"

definition waffle_proxy_async_put_batch ::
  "sequence_id \<Rightarrow> int \<Rightarrow> string list \<Rightarrow> string list \<Rightarrow> (('srv, 'm) front, unit) io" where
  "waffle_proxy_async_put_batch sq queue_id keys values =
     bindIO (put_futures queue_id keys values) (\<lambda>waiters.
     bindIO (push_respond PUT_BATCH sq waiters) (\<lambda>_. push_sequence sq))"

text \<open>The overloads without a queue identifier draw one; \<open>r\<close> is the number drawn.\<close>

definition waffle_proxy_get_any :: "int \<Rightarrow> (('srv, 'm) front, unit) io \<Rightarrow> string \<Rightarrow> (('srv, 'm) front, string) io" where
  "waffle_proxy_get_any r others key = waffle_proxy_get others r key"

definition waffle_proxy_async_get_any :: "int \<Rightarrow> sequence_id \<Rightarrow> string \<Rightarrow> (('srv, 'm) front, unit) io" where
  "waffle_proxy_async_get_any r sq key = waffle_proxy_async_get sq r key"

definition waffle_proxy_put_any ::
  "int \<Rightarrow> (('srv, 'm) front, unit) io \<Rightarrow> string \<Rightarrow> string \<Rightarrow> (('srv, 'm) front, unit) io" where
  "waffle_proxy_put_any r others key value = waffle_proxy_put others r key value"

definition waffle_proxy_async_put_any :: "int \<Rightarrow> sequence_id \<Rightarrow> string \<Rightarrow> string \<Rightarrow> (('srv, 'm) front, unit) io" where
  "waffle_proxy_async_put_any r sq key value = waffle_proxy_async_put sq r key value"

definition waffle_proxy_get_batch_any ::
  "int \<Rightarrow> (('srv, 'm) front, unit) io \<Rightarrow> string list \<Rightarrow> (('srv, 'm) front, string list) io" where
  "waffle_proxy_get_batch_any r others keys = waffle_proxy_get_batch others r keys"

definition waffle_proxy_async_get_batch_any :: "int \<Rightarrow> sequence_id \<Rightarrow> string list \<Rightarrow> (('srv, 'm) front, unit) io" where
  "waffle_proxy_async_get_batch_any r sq keys = waffle_proxy_async_get_batch sq r keys"

definition waffle_proxy_put_batch_any ::
  "int \<Rightarrow> (('srv, 'm) front, unit) io \<Rightarrow> string list \<Rightarrow> string list \<Rightarrow> (('srv, 'm) front, unit) io" where
  "waffle_proxy_put_batch_any r others keys values = waffle_proxy_put_batch others r keys values"

definition waffle_proxy_async_put_batch_any ::
  "int \<Rightarrow> sequence_id \<Rightarrow> string list \<Rightarrow> string list \<Rightarrow> (('srv, 'm) front, unit) io" where
  "waffle_proxy_async_put_batch_any r sq keys values = waffle_proxy_async_put_batch sq r keys values"

subsection \<open>The responder thread, search and close\<close>

definition pop_respond :: "(('srv, 'm) front, int \<times> sequence_id \<times> nat list) io" where
  "pop_respond = (\<lambda>f. case queue_pop (respond_queue f) of
     Inl e \<Rightarrow> (Inl e, f) | Inr (x, q) \<Rightarrow> (Inr x, f\<lparr>respond_queue := q\<rparr>))"

definition pop_sequence :: "(('srv, 'm) front, sequence_id) io" where
  "pop_sequence = (\<lambda>f. case queue_pop (sequence_queue f) of
     Inl e \<Rightarrow> (Inl e, f) | Inr (x, q) \<Rightarrow> (Inr x, f\<lparr>sequence_queue := q\<rparr>))"

definition to_clients :: "('m, 'a) io \<Rightarrow> (('srv, 'm) front, 'a) io" where
  "to_clients act = (\<lambda>f. case act (id_to_client f) of (r, m') \<Rightarrow> (r, f\<lparr>id_to_client := m'\<rparr>))"

text \<open>
  One round of \<open>responder_thread\<close>: the sequence identifier that came with the futures is replaced by
  the next one of \<open>sequence_queue_\<close>.  A PUT batch is answered without waiting.
\<close>

definition responder_round :: "'p tproto \<Rightarrow> ('m, 'p) client_table \<Rightarrow> (('srv, 'm) front, unit) io" where
  "responder_round P T =
     bindIO pop_respond (\<lambda>(op_code, sq, waiters).
     bindIO pop_sequence (\<lambda>sq'.
     bindIO (mapIO (\<lambda>w. if op_code = PUT_BATCH then returnIO ''PUT SUCCESSFUL'' else future_get w) waiters)
       (\<lambda>results. to_clients (async_respond_client P T sq' op_code results))))"

definition waffle_proxy_search ::
  "(string list \<Rightarrow> string list) \<Rightarrow> string \<Rightarrow> string list \<Rightarrow> (('srv, 'm) front, string list) io" where
  "waffle_proxy_search ord pattern results = (\<lambda>f. (Inr (fs_search ord pattern (realBst (fr_proxy f)) results), f))"

definition waffle_proxy_flush :: "(('srv, 'm) front, unit) io" where
  "waffle_proxy_flush = returnIO ()"

definition waffle_proxy_close :: "(('srv, 'm) front, unit) io" where
  "waffle_proxy_close = (\<lambda>f. (Inr (), f\<lparr>finished := True\<rparr>))"

subsection \<open>Requests enter the queues in order\<close>

text \<open>
  A series of requests gets consecutive promises and is appended, in order, to the one queue that the
  identifier selects.
\<close>

lemma enqueue_all:
  assumes "operation_queues f \<noteq> []" and "n = next_promise f" and "i = queue_index q (length (operation_queues f))"
  shows "mapIO (enqueue q) ops f = (Inr [n..<n + length ops],
    f\<lparr>next_promise := n + length ops,
      operation_queues := (operation_queues f)[i := wq.push_all (zip ops [n..<n + length ops]) (operation_queues f ! i)]\<rparr>)"
  using assms
proof (induction ops arbitrary: f n)
  case Nil
  then show ?case by (simp add: returnIO_def)
next
  case (Cons x ops)
  let ?f1 = "f\<lparr>next_promise := Suc n, operation_queues := (operation_queues f)[i := queue_push (x, n) (operation_queues f ! i)]\<rparr>"
  have i: "i < length (operation_queues f)" using Cons.prems by (simp add: queue_index_def)
  have e: "enqueue q x f = (Inr n, ?f1)" using Cons.prems by (simp add: enqueue_def Let_def)
  have u: "[n..<n + length (x # ops)] = n # [Suc n..<Suc n + length ops]" by (simp del: upt_Suc add: upt_conv_Cons)
  have r: "mapIO (enqueue q) ops ?f1 = (Inr [Suc n..<Suc n + length ops],
      ?f1\<lparr>next_promise := Suc n + length ops,
        operation_queues := (operation_queues ?f1)[i := wq.push_all (zip ops [Suc n..<Suc n + length ops]) (operation_queues ?f1 ! i)]\<rparr>)"
    by (rule Cons.IH) (use Cons.prems i in auto)
  show ?case unfolding u using e r i by (simp add: bindIO_def returnIO_def del: upt_Suc)
qed

lemma mapIO_cong_list: "map g xs = map h ys \<Longrightarrow> mapIO g xs = mapIO h ys"
proof (induction xs arbitrary: ys)
  case (Cons x xs)
  then obtain y zs where "ys = y # zs" "g x = h y" "map g xs = map h zs" by (cases ys) auto
  with Cons.IH [of zs] show ?case by simp
qed simp

lemma get_futures_eq: "mapIO (get_future q) keys = mapIO (enqueue q) (map (\<lambda>k. (k, '''')) keys)"
  by (rule mapIO_cong_list) (simp add: get_future_def)

lemma put_futures_eq: "length keys = length values \<Longrightarrow> put_futures q keys values = mapIO (enqueue q) (zip keys values)"
  unfolding put_futures_def
  by (rule mapIO_cong_list) (auto simp: list_eq_iff_nth_eq put_future_def nth_enumerate_eq)

lemma futures_ready:
  assumes "\<And>w. w \<in> set ws \<Longrightarrow> um_find (promises (fr_proxy f)) w = Some (r w)"
  shows "mapIO future_get ws f = (Inr (map r ws), f)"
  using assms
proof (induction ws)
  case (Cons w ws)
  have "future_get w f = (Inr (r w), f)" using Cons.prems by (simp add: future_get_def)
  moreover have "mapIO future_get ws f = (Inr (map r ws), f)" by (rule Cons.IH) (simp add: Cons.prems)
  ultimately show ?case by (simp add: bindIO_ok returnIO_def)
qed (simp add: returnIO_def)

lemma mapIO_const: "mapIO (\<lambda>_. returnIO x) ws = returnIO (replicate (length ws) x)"
  by (induction ws) (simp_all add: fun_eq_iff bindIO_def returnIO_def)

text \<open>A batch of GETs returns one answer per key, in the order of the keys.\<close>

lemma get_batch_answers:
  assumes "operation_queues f \<noteq> []" and "n = next_promise f"
    and "mapIO (get_future q) keys f = (Inr ws, f1)" and "others f1 = (Inr (), f2)"
    and "\<And>j. j < length keys \<Longrightarrow> um_find (promises (fr_proxy f2)) (n + j) = Some (r j)"
  shows "waffle_proxy_get_batch others q keys f = (Inr (map r [0..<length keys]), f2)"
proof -
  have ws: "ws = [n..<n + length keys]"
    using enqueue_all [OF assms(1,2) refl, of q "map (\<lambda>k. (k, '''')) keys"] assms(3) by (simp add: get_futures_eq)
  have "mapIO future_get ws f2 = (Inr (map (\<lambda>w. r (w - n)) ws), f2)"
  proof (rule futures_ready)
    fix w assume "w \<in> set ws"
    then show "um_find (promises (fr_proxy f2)) w = Some (r (w - n))" using assms(5) [of "w - n"] ws by auto
  qed
  moreover have "map (\<lambda>w. r (w - n)) ws = map r [0..<length keys]"
    unfolding ws by (rule nth_equalityI) simp_all
  ultimately show ?thesis
    unfolding waffle_proxy_get_batch_def using assms(3,4) by (simp add: bindIO_def)
qed

subsection \<open>Who is answered\<close>

text \<open>The two queues of the responder run in step: each entry's own identifier is the one popped with it.\<close>

definition aligned :: "('srv, 'm) front \<Rightarrow> bool" where
  "aligned f \<longleftrightarrow> queue_ok (respond_queue f) \<and> queue_ok (sequence_queue f) \<and>
     map (fst \<circ> snd) (m_queue (respond_queue f)) = m_queue (sequence_queue f)"

lemma responder_round_eq:
  assumes "m_queue (respond_queue f) = (op_code, sq, ws) # rest" and "m_queue (sequence_queue f) = sq' # srest"
    and "op_code \<noteq> PUT_BATCH \<Longrightarrow> \<forall>w \<in> set ws. um_find (promises (fr_proxy f)) w = Some (r w)"
    and "async_respond_client P T sq' op_code
      (map (\<lambda>w. if op_code = PUT_BATCH then ''PUT SUCCESSFUL'' else r w) ws) (id_to_client f) = (x, m')"
  shows "\<exists>f'. responder_round P T f = (x, f') \<and> m_queue (respond_queue f') = rest \<and>
    m_queue (sequence_queue f') = srest \<and> id_to_client f' = m' \<and> fr_proxy f' = fr_proxy f \<and>
    (queue_ok (respond_queue f) \<longrightarrow> queue_ok (respond_queue f')) \<and>
    (queue_ok (sequence_queue f) \<longrightarrow> queue_ok (sequence_queue f'))"
proof -
  obtain q1 where q1: "queue_pop (respond_queue f) = Inr ((op_code, sq, ws), q1)" "m_queue q1 = rest"
    using assms(1) by (auto simp: queue_pop_def)
  obtain q2 where q2: "queue_pop (sequence_queue f) = Inr (sq', q2)" "m_queue q2 = srest"
    using assms(2) by (auto simp: queue_pop_def)
  let ?f1 = "f\<lparr>respond_queue := q1\<rparr>" and ?f2 = "f\<lparr>respond_queue := q1, sequence_queue := q2\<rparr>"
  have p: "pop_respond f = (Inr (op_code, sq, ws), ?f1)" "pop_sequence ?f1 = (Inr sq', ?f2)"
    using q1(1) q2(1) by (simp_all add: pop_respond_def pop_sequence_def)
  have res: "mapIO (\<lambda>w. if op_code = PUT_BATCH then returnIO ''PUT SUCCESSFUL'' else future_get w) ws ?f2 =
      (Inr (map (\<lambda>w. if op_code = PUT_BATCH then ''PUT SUCCESSFUL'' else r w) ws), ?f2)"
  proof (cases "op_code = PUT_BATCH")
    case True
    then show ?thesis by (simp add: mapIO_const map_replicate_const returnIO_app)
  next
    case False
    then show ?thesis using futures_ready [of ws ?f2 r] assms(3) by simp
  qed
  have "responder_round P T f = (x, ?f2\<lparr>id_to_client := m'\<rparr>)"
    using assms(4) p res by (simp add: responder_round_def bindIO_def to_clients_def)
  moreover have "queue_ok (respond_queue f) \<longrightarrow> queue_ok q1" "queue_ok (sequence_queue f) \<longrightarrow> queue_ok q2"
    using wq.pop_good [OF _ q1(1)] wq.pop_good [OF _ q2(1)] by blast+
  ultimately show ?thesis using q1(2) q2(2) by simp
qed

text \<open>Steps of the front end: requests, the consumer's work on the proxy, and the responder.\<close>

inductive front_step :: "'p tproto \<Rightarrow> ('m, 'p) client_table \<Rightarrow> ('srv, 'm) front \<Rightarrow> ('srv, 'm) front \<Rightarrow> bool"
  for P T where
  request: "enqueue q op f = (Inr w, f') \<Longrightarrow> front_step P T f f'"
| get_batch: "waffle_proxy_async_get_batch sq q keys f = (Inr (), f') \<Longrightarrow> front_step P T f f'"
| put_batch: "waffle_proxy_async_put_batch sq q keys values f = (Inr (), f') \<Longrightarrow> front_step P T f f'"
| served: "front_step P T f (f\<lparr>fr_proxy := s, operation_queues := qs\<rparr>)"
| registered: "front_step P T f (f\<lparr>id_to_client := m\<rparr>)"
| respond: "responder_round P T f = (x, f') \<Longrightarrow> x \<noteq> Inl Blocked \<Longrightarrow> front_step P T f f'"

lemma mapIO_frame:
  assumes "mapIO g xs f = (r, f')" and "\<And>x f r f'. g x f = (r, f') \<Longrightarrow> Q f' = Q f"
  shows "Q f' = Q f"
  using assms(1)
proof (induction xs arbitrary: f r f')
  case (Cons x xs)
  obtain r1 f1 where 1: "g x f = (r1, f1)" by fastforce
  obtain r2 f2 where 2: "mapIO g xs f1 = (r2, f2)" by fastforce
  have "f' = f1 \<or> f' = f2" using Cons.prems 1 2 by (auto simp: bindIO_def returnIO_def split: sum.splits)
  then show ?case using assms(2) [OF 1] Cons.IH [OF 2] by auto
qed (simp add: returnIO_def)

lemma enqueue_frame:
  assumes "enqueue q op f = (r, f')"
  shows "respond_queue f' = respond_queue f" "sequence_queue f' = sequence_queue f"
  using assms by (auto simp: enqueue_def Let_def split: if_splits)

lemma push_both:
  assumes "aligned f"
    and "bindIO (push_respond c sq ws) (\<lambda>_. push_sequence sq) f = (Inr (), f')"
  shows "aligned f'"
proof -
  have f': "f' = f\<lparr>respond_queue := queue_push (c, sq, ws) (respond_queue f), sequence_queue := queue_push sq (sequence_queue f)\<rparr>"
    using assms(2) by (simp add: bindIO_def push_respond_def push_sequence_def)
  then show ?thesis using assms(1) by (simp add: aligned_def wq.push_items wq.push_good)
qed

lemma async_batch_aligned:
  assumes "aligned f" and "bindIO (mapIO g xs) (\<lambda>ws. bindIO (push_respond c sq ws) (\<lambda>_. push_sequence sq)) f = (Inr (), f')"
    and "\<And>x f r f'. g x f = (r, f') \<Longrightarrow> (respond_queue f', sequence_queue f') = (respond_queue f, sequence_queue f)"
  shows "aligned f'"
proof -
  obtain r1 f1 where 1: "mapIO g xs f = (r1, f1)" by fastforce
  have "(respond_queue f1, sequence_queue f1) = (respond_queue f, sequence_queue f)"
    by (rule mapIO_frame [OF 1, of "\<lambda>f. (respond_queue f, sequence_queue f)"]) (rule assms(3))
  then have a: "aligned f1" using assms(1) by (simp add: aligned_def)
  obtain ws where "r1 = Inr ws" using assms(2) 1 by (cases r1) (simp_all add: bindIO_err)
  then have "bindIO (push_respond c sq ws) (\<lambda>_. push_sequence sq) f1 = (Inr (), f')"
    using assms(2) 1 by (simp add: bindIO_ok)
  then show ?thesis by (rule push_both [OF a])
qed

lemma responder_aligned:
  assumes "aligned f" and "responder_round P T f = (x, f')" and "x \<noteq> Inl Blocked"
  shows "aligned f'"
proof -
  have a: "queue_ok (respond_queue f)" "queue_ok (sequence_queue f)"
    "map (fst \<circ> snd) (m_queue (respond_queue f)) = m_queue (sequence_queue f)"
    using assms(1) by (simp_all add: aligned_def)
  show ?thesis
  proof (cases "m_queue (respond_queue f)")
    case Nil
    then have "pop_respond f = (Inl Blocked, f)" by (simp add: pop_respond_def queue_pop_def)
    then show ?thesis using assms(2,3) by (simp add: responder_round_def bindIO_err [of pop_respond])
  next
    case (Cons y rest)
    obtain c sq ws where y: "y = (c, sq, ws)" by (metis prod_cases3)
    obtain q1 where q1: "queue_pop (respond_queue f) = Inr (y, q1)" "m_queue q1 = rest" "queue_ok q1"
      using wq.pop_front [OF a(1) Cons] wq.pop_good [OF a(1)] by blast
    obtain q2 where q2: "queue_pop (sequence_queue f) = Inr (sq, q2)"
        "m_queue q2 = map (fst \<circ> snd) rest" "queue_ok q2"
    proof -
      have m: "m_queue (sequence_queue f) = sq # map (fst \<circ> snd) rest" using a(3) Cons y by simp
      then show ?thesis using that wq.pop_front [OF a(2) m] wq.pop_good [OF a(2)] by blast
    qed
    let ?f2 = "f\<lparr>respond_queue := q1, sequence_queue := q2\<rparr>"
    have p: "pop_respond f = (Inr y, f\<lparr>respond_queue := q1\<rparr>)" "pop_sequence (f\<lparr>respond_queue := q1\<rparr>) = (Inr sq, ?f2)"
      using q1(1) q2(1) by (simp_all add: pop_respond_def pop_sequence_def)
    let ?g = "\<lambda>w. if c = PUT_BATCH then returnIO ''PUT SUCCESSFUL'' else future_get w"
    obtain r3 f3 where 3: "mapIO ?g ws ?f2 = (r3, f3)" by fastforce
    have "f3 = ?f2"
    proof (rule mapIO_frame [OF 3, of "\<lambda>f. f"])
      fix w f r f' assume "?g w f = (r, f')"
      then show "f' = f"
        by (cases "c = PUT_BATCH"; cases "um_find (promises (fr_proxy f)) w") (simp_all add: future_get_def returnIO_def)
    qed
    then have "respond_queue f3 = q1" "sequence_queue f3 = q2" by simp_all
    moreover have "respond_queue f' = respond_queue f3 \<and> sequence_queue f' = sequence_queue f3"
      using assms(2) y 3 by (cases r3) (auto simp: responder_round_def p bindIO_def to_clients_def
        split: prod.splits)
    ultimately show ?thesis using q1 q2 by (simp add: aligned_def)
  qed
qed

lemma front_step_aligned:
  assumes "front_step P T f f'" and "aligned f" shows "aligned f'"
  using assms
proof cases
  case (request q op w)
  then show ?thesis using assms(2) enqueue_frame [OF request] by (simp add: aligned_def)
next
  case (get_batch sq q keys)
  show ?thesis
    by (rule async_batch_aligned [OF assms(2) get_batch [unfolded waffle_proxy_async_get_batch_def]])
      (auto simp: get_future_def dest: enqueue_frame)
next
  case (put_batch sq q keys vs)
  show ?thesis
    by (rule async_batch_aligned [OF assms(2) put_batch [unfolded waffle_proxy_async_put_batch_def put_futures_def]])
      (auto simp: put_future_def io_simps dest: enqueue_frame split: if_splits)
next
  case (respond x)
  then show ?thesis using responder_aligned [OF assms(2)] by blast
qed (simp_all add: aligned_def)

lemma reachable_aligned: "(front_step P T)\<^sup>*\<^sup>* f f' \<Longrightarrow> aligned f \<Longrightarrow> aligned f'"
  by (induction rule: rtranclp_induct) (auto intro: front_step_aligned)

text \<open>
  \<open>async_get\<close> and \<open>async_put\<close> push only one of the two entries, so the next answer is sent under the
  identifier of another request.
\<close>

lemma async_get_misaddresses:
  assumes "waffle_proxy_async_get sq1 q key f = (Inr (), f1)"
    and "waffle_proxy_async_get_batch sq2 q' keys f1 = (Inr (), f2)"
    and "m_queue (respond_queue f) = []" and "m_queue (sequence_queue f) = []"
  shows "\<exists>ws. m_queue (respond_queue f2) = [(GET, sq1, [next_promise f]), (GET_BATCH, sq2, ws)] \<and>
    m_queue (sequence_queue f2) = [sq2]"
proof -
  have ne: "operation_queues f \<noteq> []"
    using assms(1) by (auto simp: waffle_proxy_async_get_def get_future_def enqueue_def bindIO_def)
  then have f1: "m_queue (respond_queue f1) = [(GET, sq1, [next_promise f])]" "m_queue (sequence_queue f1) = []"
      "operation_queues f1 \<noteq> []"
    using assms(1,3,4) by (auto simp: waffle_proxy_async_get_def get_future_def enqueue_def bindIO_def Let_def
        push_respond_def queue_push_def)
  obtain r f3 where 3: "mapIO (get_future q') keys f1 = (r, f3)" by fastforce
  have "(respond_queue f3, sequence_queue f3) = (respond_queue f1, sequence_queue f1)"
    by (rule mapIO_frame [OF 3, of "\<lambda>f. (respond_queue f, sequence_queue f)"])
      (auto simp: get_future_def dest: enqueue_frame)
  moreover obtain ws where "r = Inr ws"
    using assms(2) 3 by (cases r) (auto simp: waffle_proxy_async_get_batch_def bindIO_err)
  ultimately show ?thesis using assms(2) 3 f1
    by (auto simp: waffle_proxy_async_get_batch_def bindIO_def push_respond_def push_sequence_def queue_push_def)
qed

text \<open>
  The two pushes of a batch call are not one atomic step: when two handler threads interleave them, both
  clients are answered under each other's identifier.
\<close>

lemma racing_pushes:
  assumes "m_queue (respond_queue f) = []" and "m_queue (sequence_queue f) = []"
    and "seqIO [push_respond c1 sq1 ws1, push_respond c2 sq2 ws2, push_sequence sq2, push_sequence sq1] f = (Inr (), f')"
  shows "m_queue (respond_queue f') = [(c1, sq1, ws1), (c2, sq2, ws2)] \<and> m_queue (sequence_queue f') = [sq2, sq1]"
  using assms by (auto simp: bindIO_def push_respond_def push_sequence_def queue_push_def returnIO_def)

end
