(* ===== verification/Thrift_Handler.thy ===== *)
theory Thrift_Handler
  imports Proxy_Frontend
begin

text \<open>
  The handler behind the processor (\<open>service/src/thrift_handler.cpp\<close>, \<open>thrift_handler_factory.cpp\<close>): one
  object per connection, which forwards every call to the proxy with a running number as the queue
  identifier.  The proxy's front end and the generator of client identifiers are shared by all
  handlers; they are part of the state here.
\<close>

record ('srv, 'm, 'p) handler =
  h_front :: "('srv, 'm) front"
  operation_count :: int
  registered_client_id :: int
  client_id_gen :: int
  response_client :: 'p

definition thrift_handler :: "('srv, 'm) front \<Rightarrow> int \<Rightarrow> 'p \<Rightarrow> ('srv, 'm, 'p) handler" where
  "thrift_handler f gen prot =
     \<lparr>h_front = f, operation_count = 0, registered_client_id = - 1, client_id_gen = gen, response_client = prot\<rparr>"

definition on_front :: "(('srv, 'm) front, 'a) io \<Rightarrow> (('srv, 'm, 'p) handler, 'a) io" where
  "on_front act = (\<lambda>h. case act (h_front h) of (r, f) \<Rightarrow> (r, h\<lparr>h_front := f\<rparr>))"

text \<open>\<open>operation_count_++\<close> on an \<open>int\<close>.\<close>

definition next_operation :: "(('srv, 'm, 'p) handler, int) io" where
  "next_operation = (\<lambda>h. case add32 (operation_count h) 1 of
     Inl e \<Rightarrow> (Inl e, h) | Inr c \<Rightarrow> (Inr (operation_count h), h\<lparr>operation_count := c\<rparr>))"

definition wrap64 :: "int \<Rightarrow> int" where
  "wrap64 x = (x + 2 ^ 63) mod 2 ^ 64 - 2 ^ 63"

definition handler_get_client_id :: "(('srv, 'm, 'p) handler, int) io" where
  "handler_get_client_id = (\<lambda>h. (Inr (client_id_gen h), h\<lparr>client_id_gen := wrap64 (client_id_gen h + 1)\<rparr>))"

definition handler_register_client_id ::
  "('m, 'p) client_table \<Rightarrow> int \<Rightarrow> int \<Rightarrow> (('srv, 'm, 'p) handler, unit) io" where
  "handler_register_client_id T blk cid = (\<lambda>h. (Inr (), h\<lparr>registered_client_id := cid,
     h_front := (h_front h)\<lparr>id_to_client := add_client T cid (response_client h) (id_to_client (h_front h))\<rparr>\<rparr>))"

definition handler_async_get :: "sequence_id \<Rightarrow> string \<Rightarrow> (('srv, 'm, 'p) handler, unit) io" where
  "handler_async_get sq key = bindIO next_operation (\<lambda>c. on_front (waffle_proxy_async_get sq c key))"

definition handler_async_put :: "sequence_id \<Rightarrow> string \<Rightarrow> string \<Rightarrow> (('srv, 'm, 'p) handler, unit) io" where
  "handler_async_put sq key value = bindIO next_operation (\<lambda>c. on_front (waffle_proxy_async_put sq c key value))"

definition handler_async_get_batch :: "sequence_id \<Rightarrow> string list \<Rightarrow> (('srv, 'm, 'p) handler, unit) io" where
  "handler_async_get_batch sq keys = bindIO next_operation (\<lambda>c. on_front (waffle_proxy_async_get_batch sq c keys))"

definition handler_async_put_batch ::
  "sequence_id \<Rightarrow> string list \<Rightarrow> string list \<Rightarrow> (('srv, 'm, 'p) handler, unit) io" where
  "handler_async_put_batch sq keys values =
     bindIO next_operation (\<lambda>c. on_front (waffle_proxy_async_put_batch sq c keys values))"

definition handler_get :: "(('srv, 'm) front, unit) io \<Rightarrow> string \<Rightarrow> (('srv, 'm, 'p) handler, string) io" where
  "handler_get others key = bindIO next_operation (\<lambda>c. on_front (waffle_proxy_get others c key))"

definition handler_put :: "(('srv, 'm) front, unit) io \<Rightarrow> string \<Rightarrow> string \<Rightarrow> (('srv, 'm, 'p) handler, unit) io" where
  "handler_put others key value = bindIO next_operation (\<lambda>c. on_front (waffle_proxy_put others c key value))"

definition handler_get_batch ::
  "(('srv, 'm) front, unit) io \<Rightarrow> string list \<Rightarrow> (('srv, 'm, 'p) handler, string list) io" where
  "handler_get_batch others keys = bindIO next_operation (\<lambda>c. on_front (waffle_proxy_get_batch others c keys))"

definition handler_put_batch ::
  "(('srv, 'm) front, unit) io \<Rightarrow> string list \<Rightarrow> string list \<Rightarrow> (('srv, 'm, 'p) handler, unit) io" where
  "handler_put_batch others keys values =
     bindIO next_operation (\<lambda>c. on_front (waffle_proxy_put_batch others c keys values))"

definition handler_search :: "(string list \<Rightarrow> string list) \<Rightarrow> string \<Rightarrow> (('srv, 'm, 'p) handler, string list) io" where
  "handler_search ord key = on_front (waffle_proxy_search ord key [])"

text \<open>The handler as the processor's interface; \<open>others\<close> is what the proxy's threads do while a call waits.\<close>

definition handler_iface ::
  "(('srv, 'm) front, unit) io \<Rightarrow> (string list \<Rightarrow> string list) \<Rightarrow> ('m, 'p) client_table
   \<Rightarrow> ('srv, 'm, 'p) handler waffle_thriftIf" where
  "handler_iface others ord T = \<lparr>
     If_get_client_id = handler_get_client_id,
     If_register_client_id = handler_register_client_id T,
     If_async_get = handler_async_get,
     If_async_put = handler_async_put,
     If_async_get_batch = handler_async_get_batch,
     If_async_put_batch = handler_async_put_batch,
     If_get = handler_get others,
     If_put = handler_put others,
     If_get_batch = handler_get_batch others,
     If_put_batch = handler_put_batch others,
     If_search = handler_search ord \<rparr>"

text \<open>\<open>thrift_handler_factory\<close>: each connection gets a handler of its own on the shared proxy.\<close>

definition getHandler :: "('srv, 'm) front \<Rightarrow> int \<Rightarrow> 'p \<Rightarrow> ('srv, 'm, 'p) handler" where
  "getHandler f gen prot = thrift_handler f gen prot"

subsection \<open>Client identifiers\<close>

lemma wrap64_id: "fits64 x \<Longrightarrow> wrap64 x = x"
  by (simp add: wrap64_def fits64_def)

text \<open>Identifiers are handed out once each, until the 64-bit counter wraps.\<close>

lemma client_ids_distinct:
  assumes "0 \<le> client_id_gen h" and "client_id_gen h + int n < 2 ^ 63"
  shows "\<exists>h'. mapIO (\<lambda>_. handler_get_client_id) [0..<n] h =
    (Inr (map (\<lambda>j. client_id_gen h + int j) [0..<n]), h') \<and> client_id_gen h' = client_id_gen h + int n"
  using assms
proof (induction n arbitrary: h)
  case 0
  then show ?case by (simp add: returnIO_def)
next
  case (Suc n)
  let ?h = "h\<lparr>client_id_gen := client_id_gen h + 1\<rparr>"
  have g: "handler_get_client_id h = (Inr (client_id_gen h), ?h)"
    using Suc.prems by (simp add: handler_get_client_id_def wrap64_id fits64_def)
  have "mapIO (\<lambda>_. handler_get_client_id) [0..<n] = (mapIO (\<lambda>_. handler_get_client_id) (map Suc [0..<n]) :: ('a, 'b, 'c) handler \<Rightarrow> _)"
    by (rule mapIO_cong_list) (simp add: comp_def)
  then obtain h' where "mapIO (\<lambda>_. handler_get_client_id) (map Suc [0..<n]) ?h =
      (Inr (map (\<lambda>j. client_id_gen h + 1 + int j) [0..<n]), h')" "client_id_gen h' = client_id_gen h + 1 + int n"
    using Suc.IH [of ?h] Suc.prems by auto
  then show ?case using g by (simp add: upt_conv_Cons map_Suc_upt [symmetric] bindIO_def returnIO_def comp_def
        add.assoc del: upt_Suc map_Suc_upt)
qed

end
