(* ===== verification/Proxy_Clients.thy ===== *)
theory Proxy_Clients
  imports Thrift_Handler
begin

text \<open>
  The client libraries (\<open>libclient/src/proxy_client.cpp\<close>, \<open>async_proxy_client.cpp\<close>).  The synchronous
  client forwards each call to the generated client.  The asynchronous one numbers its requests,
  remembers how many are unanswered in the queue \<open>requests_\<close> and waits when there are too many; a
  second thread reads the responses.  Opening the connection is not modelled: a client starts on an
  established link.
\<close>

subsection \<open>The synchronous client\<close>

definition proxy_client_get ::
  "'p tproto \<Rightarrow> nat \<Rightarrow> (('p, 'h) link, unit) io \<Rightarrow> string \<Rightarrow> (('p, 'h) link, string) io" where
  "proxy_client_get P n peer key = waffle_thriftClient_get P n peer [] key"

definition proxy_client_put ::
  "'p tproto \<Rightarrow> nat \<Rightarrow> (('p, 'h) link, unit) io \<Rightarrow> string \<Rightarrow> string \<Rightarrow> (('p, 'h) link, unit) io" where
  "proxy_client_put P n peer key value = waffle_thriftClient_put P n peer key value"

definition proxy_client_get_batch ::
  "'p tproto \<Rightarrow> nat \<Rightarrow> (('p, 'h) link, unit) io \<Rightarrow> string list \<Rightarrow> (('p, 'h) link, string list) io" where
  "proxy_client_get_batch P n peer keys = waffle_thriftClient_get_batch P n peer [] keys"

definition proxy_client_put_batch ::
  "'p tproto \<Rightarrow> nat \<Rightarrow> (('p, 'h) link, unit) io \<Rightarrow> string list \<Rightarrow> string list \<Rightarrow> (('p, 'h) link, unit) io" where
  "proxy_client_put_batch P n peer keys values = waffle_thriftClient_put_batch P n peer keys values"

subsection \<open>The asynchronous client\<close>

text \<open>\<open>ac_stream\<close> is the stream the reader thread reads responses from.\<close>

record ('p, 'h) async_client =
  ac_link :: "('p, 'h) link"
  ac_stream :: 'p
  requests :: "int wqueue"
  total :: int
  done_flag :: bool
  sequence_num :: int
  ac_client_id :: int
  seq_id :: sequence_id
  in_flight_limit :: int

definition on_link :: "(('p, 'h) link, 'a) io \<Rightarrow> (('p, 'h) async_client, 'a) io" where
  "on_link act = (\<lambda>c. case act (ac_link c) of (r, l) \<Rightarrow> (r, c\<lparr>ac_link := l\<rparr>))"

definition on_stream :: "('p, 'a) io \<Rightarrow> (('p, 'h) async_client, 'a) io" where
  "on_stream act = (\<lambda>c. case act (ac_stream c) of (r, p) \<Rightarrow> (r, c\<lparr>ac_stream := p\<rparr>))"

definition async_client_get_client_id ::
  "'p tproto \<Rightarrow> nat \<Rightarrow> (('p, 'h) link, unit) io \<Rightarrow> int \<Rightarrow> (('p, 'h) async_client, int) io" where
  "async_client_get_client_id P n peer r0 =
     bindIO (on_link (waffle_thriftClient_get_client_id P n peer r0)) (\<lambda>cid.
     bindIO (on_link (waffle_thriftClient_register_client_id P n peer 1 cid)) (\<lambda>_. returnIO cid))"

definition async_client_init ::
  "'p tproto \<Rightarrow> nat \<Rightarrow> (('p, 'h) link, unit) io \<Rightarrow> int \<Rightarrow> (('p, 'h) async_client, unit) io" where
  "async_client_init P n peer r0 = (\<lambda>c.
     bindIO (async_client_get_client_id P n peer r0) (\<lambda>cid c.
       (Inr (), c\<lparr>ac_client_id := cid, seq_id := sequence_id_set_client_id cid sequence_id_init\<rparr>))
     (c\<lparr>done_flag := False, total := 0, requests := queue_new\<rparr>))"

text \<open>
  The part all four calls share: wait while \<open>in_flight_limit_\<close> requests are unanswered, number the
  request, send it, and count it.
\<close>

definition issue_request ::
  "(sequence_id \<Rightarrow> (('p, 'h) link, unit) io) \<Rightarrow> int \<Rightarrow> (('p, 'h) async_client, unit) io" where
  "issue_request send code = (\<lambda>c.
     if in_flight_limit c \<le> queue_size (requests c) then (Inl Blocked, c)
     else if \<not> fits64 (sequence_num c + 1) then (Inl Undefined_behaviour, c)
     else let sq = sequence_id_set_client_seq_no (sequence_num c) (seq_id c) in
       bindIO (on_link (send sq)) (\<lambda>_ c. (Inr (), c\<lparr>requests := queue_push code (requests c)\<rparr>))
         (c\<lparr>seq_id := sq, sequence_num := sequence_num c + 1\<rparr>))"

definition async_client_get :: "'p tproto \<Rightarrow> string \<Rightarrow> (('p, 'h) async_client, string) io" where
  "async_client_get P key = bindIO (issue_request (\<lambda>sq. waffle_thriftClient_async_get P sq key) GET) (\<lambda>_. returnIO [])"

definition async_client_put :: "'p tproto \<Rightarrow> string \<Rightarrow> string \<Rightarrow> (('p, 'h) async_client, unit) io" where
  "async_client_put P key value = issue_request (\<lambda>sq. waffle_thriftClient_async_put P sq key value) PUT"

definition async_client_get_batch :: "'p tproto \<Rightarrow> string list \<Rightarrow> (('p, 'h) async_client, string list) io" where
  "async_client_get_batch P keys =
     bindIO (issue_request (\<lambda>sq. waffle_thriftClient_async_get_batch P sq keys) GET_BATCH) (\<lambda>_. returnIO [])"

definition async_client_put_batch :: "'p tproto \<Rightarrow> string list \<Rightarrow> string list \<Rightarrow> (('p, 'h) async_client, unit) io" where
  "async_client_put_batch P keys values = issue_request (\<lambda>sq. waffle_thriftClient_async_put_batch P sq keys values) PUT_BATCH"

text \<open>
  One round of \<open>read_responses\<close>.  A transport error leaves \<open>_return\<close> empty, and \<open>_return[0]\<close> is then read
  from an empty vector; any other exception leaves the thread and ends the process.
\<close>

definition read_round :: "'p tproto \<Rightarrow> nat \<Rightarrow> (('p, 'h) async_client, string list) io" where
  "read_round P n = (\<lambda>c. case queue_pop (requests c) of
     Inl e \<Rightarrow> (Inl e, c)
   | Inr (_, q) \<Rightarrow>
       (case recv_response P n (ac_stream c) of
          (Inl e, p) \<Rightarrow> (Inl (if e = End_of_file then Undefined_behaviour else if is_std_exception e then Aborted else e), c\<lparr>requests := q, ac_stream := p\<rparr>)
        | (Inr (no, out), p) \<Rightarrow>
            if out = [] then (Inl Undefined_behaviour, c\<lparr>requests := q, ac_stream := p\<rparr>)
            else (Inr out, c\<lparr>requests := q, ac_stream := p, total := wrap32 (total c + int (length out))\<rparr>)))"

definition num_requests_satisfied :: "('p, 'h) async_client \<Rightarrow> int" where
  "num_requests_satisfied c = total c"

definition async_client_finish :: "(('p, 'h) async_client, unit) io" where
  "async_client_finish = (\<lambda>c. (Inr (), c\<lparr>done_flag := True,
     requests := ((queue_push GET_BATCH) ^^ 5) (requests c)\<rparr>))"

definition async_client_search ::
  "'p tproto \<Rightarrow> nat \<Rightarrow> (('p, 'h) link, unit) io \<Rightarrow> string \<Rightarrow> string list \<Rightarrow> (('p, 'h) async_client, string list) io" where
  "async_client_search P n peer pattern results =
     catchIO (on_link (waffle_thriftClient_search P n peer results pattern)) (\<lambda>e. returnIO [''SEARCH FAILURE''])"

subsection \<open>Requests in flight\<close>

definition in_flight_ok :: "('p, 'h) async_client \<Rightarrow> bool" where
  "in_flight_ok c \<longleftrightarrow> queue_ok (requests c) \<and> in_flight_limit c \<le> int_max \<and>
     int (length (m_queue (requests c))) \<le> max 0 (in_flight_limit c)"

lemma issue_request_effect:
  assumes "in_flight_ok c" and "issue_request send code c = (Inr (), c')"
  shows "in_flight_ok c'" and "sequence_num c' = sequence_num c + 1"
    and "client_seq_no (seq_id c') = sequence_num c" and "client_id (seq_id c') = client_id (seq_id c)"
    and "m_queue (requests c') = m_queue (requests c) @ [code]"
proof -
  let ?sq = "sequence_id_set_client_seq_no (sequence_num c) (seq_id c)"
  have ok: "queue_ok (requests c)" "in_flight_limit c \<le> int_max" using assms(1) by (simp_all add: in_flight_ok_def)
  have l: "\<not> in_flight_limit c \<le> queue_size (requests c)" and ns: "fits64 (sequence_num c + 1)"
    using assms(2) by (auto simp: issue_request_def split: if_splits)
  obtain l' where "send ?sq (ac_link c) = (Inr (), l')" and
    c': "c' = c\<lparr>seq_id := ?sq, sequence_num := sequence_num c + 1, ac_link := l', requests := queue_push code (requests c)\<rparr>"
    using assms(2) l ns by (auto simp: issue_request_def bindIO_def on_link_def Let_def split: prod.splits sum.splits)
  have "length (m_queue (requests c)) < 2 ^ 31" using assms(1) by (auto simp: in_flight_ok_def int_max_def)
  then have "queue_size (requests c) = int (length (m_queue (requests c)))" by (rule queue_size_exact [OF ok(1)])
  then show "in_flight_ok c'" using l ok by (auto simp: in_flight_ok_def c' wq.push_good wq.push_items)
  show "sequence_num c' = sequence_num c + 1" "client_seq_no (seq_id c') = sequence_num c"
    "client_id (seq_id c') = client_id (seq_id c)" "m_queue (requests c') = m_queue (requests c) @ [code]"
    using ok by (simp_all add: c' sequence_id_set_client_seq_no_def wq.push_items)
qed

text \<open>A response that is in the stream is read and counted.\<close>

lemma read_round_counts:
  assumes "thrift_protocol P C" and "3 < n" and "queue_ok (requests c)" and "m_queue (requests c) \<noteq> []" and "res \<noteq> []"
    and "C (ac_stream c) (K_msg ''async_response'' T_ONEWAY 0 # async_response_args_toks sq op_code res @ rest)"
  shows "\<exists>c'. read_round P n c = (Inr res, c') \<and> C (ac_stream c') rest \<and>
    total c' = wrap32 (total c + int (length res)) \<and> m_queue (requests c') = tl (m_queue (requests c))"
proof -
  obtain y ys where "m_queue (requests c) = y # ys" using assms(4) by (cases "m_queue (requests c)") auto
  then obtain q where q: "queue_pop (requests c) = Inr (y, q)" "m_queue q = tl (m_queue (requests c))"
    using wq.pop_front [OF assms(3)] by auto
  let ?ts = "K_msg ''async_response'' T_ONEWAY 0 # async_response_args_toks sq op_code res"
  have "reads C (recv_response P n) ?ts (\<lambda>x. x = (client_seq_no sq, res))"
    by (rule thrift_protocol.response_reads [OF assms(1,2)])
  moreover have "C (ac_stream c) (?ts @ rest)" using assms(6) by simp
  ultimately obtain p where "recv_response P n (ac_stream c) = (Inr (client_seq_no sq, res), p)" "C p rest"
    unfolding reads_def by blast
  then show ?thesis using q assms(5) by (simp add: read_round_def)
qed

end
