(* ===== verification/Proxy_Init.thy ===== *)
theory Proxy_Init
  imports Proxy_System
begin

text \<open>
  Initialisation (\<open>waffle_proxy::init\<close>): the initial keys and values are encrypted, a random part of
  them goes to the cache, random fake keys are made up, and everything that is not cached is uploaded in
  chunks.  The two loops that draw until they find something new take fuel; with a random generator that
  keeps producing new draws some fuel is enough.  The state after a successful initialisation satisfies
  the invariant of the proxy.
\<close>

subsection \<open>The steps of \<open>init\<close>\<close>

text \<open>The proxy object before \<open>init\<close>, with its connections and its engine.\<close>

definition proxy_new :: "'srv list \<Rightarrow> engine \<Rightarrow> nat \<Rightarrow> 'srv proxy" where
  "proxy_new srv g pos =
     \<lparr>timeStamp = 0, realBst = FrequencySmoother True, fakeBst = FrequencySmoother True, pcache = Cache_default,
      EvictedItems = evictedItems_default, runningKeys = running_empty, keys_to_be_deleted = [], promises = [],
      storage = srv, encryption_engine = g, rand_pos = pos, keysNotUsed = []\<rparr>"

definition init_key ::
  "('srv, 'ctx) env \<Rightarrow> engine \<Rightarrow> string \<times> string \<Rightarrow> freq \<times> (string, string) umap \<times> nat \<Rightarrow> (freq \<times> (string, string) umap \<times> nat) res" where
  "init_key e g kv st =
     (let (b, keyValueMap, pos) = st in
      bindR (fs_insert (fst kv) b) (\<lambda>b1.
      let (f, b2) = fs_getFrequency (fst kv) b1 in
      bindR (encryptNonDeterministic (e_evp e) g (e_rand e) pos (snd kv)) (\<lambda>(c, pos').
      Inr (b2, um_set (eng_prf (e_evp e) g (sid (fst kv) f)) c keyValueMap, pos'))))"

text \<open>Random keys until the cache is full; a key drawn a second time is skipped.\<close>

fun init_cache ::
  "nat \<Rightarrow> ('srv, 'ctx) env \<Rightarrow> engine \<Rightarrow> string list \<Rightarrow> string list \<Rightarrow> freq \<Rightarrow> nat \<Rightarrow>
   string list \<times> string list \<times> (string, string) umap \<times> nat \<Rightarrow> (string list \<times> string list \<times> (string, string) umap \<times> nat) res" where
  "init_cache 0 e g keys vals b cacheCapacity (kc, vc, keyValueMap, pos) =
     (if \<not> length kc < cacheCapacity then Inr (kc, vc, keyValueMap, pos) else Inl Out_of_fuel)"
| "init_cache (Suc fuel) e g keys vals b cacheCapacity (kc, vc, keyValueMap, pos) =
     (if \<not> length kc < cacheCapacity then Inr (kc, vc, keyValueMap, pos)
      else let index = e_rand e pos mod length keys; k = keys ! index in
        if k \<notin> set kc then
          init_cache fuel e g keys vals b cacheCapacity
            (kc @ [k], vc @ [vals ! index], um_erase (eng_prf (e_evp e) g (sid k (fs_freq b k))) keyValueMap, pos + 1)
        else init_cache fuel e g keys vals b cacheCapacity (kc, vc, keyValueMap, pos + 1))"

text \<open>A random fake name.\<close>

definition fake_name :: "rand_stream \<Rightarrow> nat \<Rightarrow> string \<times> nat" where
  "fake_name rnd pos = (let (r, pos') = gen_random rnd (pos + 1) (rnd pos mod 10 + 5) in (''fake'' @ r, pos'))"

fun init_fakes ::
  "nat \<Rightarrow> config \<Rightarrow> ('srv, 'ctx) env \<Rightarrow> engine \<Rightarrow> nat \<Rightarrow> freq \<times> string list \<times> (string, string) umap \<times> nat \<Rightarrow>
   (freq \<times> string list \<times> (string, string) umap \<times> nat) res" where
  "init_fakes fuel cfg e g 0 st = Inr st"
| "init_fakes 0 cfg e g (Suc n) st = Inl Out_of_fuel"
| "init_fakes (Suc fuel) cfg e g (Suc n) (b, tempFakeKeys, keyValueMap, pos) =
     (let (fakeKey, p1) = fake_name (e_rand e) pos in
      if fakeKey \<notin> set tempFakeKeys then
        bindR (fs_insert fakeKey b) (\<lambda>b1.
        let (f, b2) = fs_getFrequency fakeKey b1; (v, p2) = gen_random (e_rand e) p1 (object_size cfg) in
        bindR (encryptNonDeterministic (e_evp e) g (e_rand e) p2 v) (\<lambda>(c, p3).
        init_fakes fuel cfg e g n (b2, tempFakeKeys @ [fakeKey], um_set (eng_prf (e_evp e) g (sid fakeKey f)) c keyValueMap, p3)))
      else init_fakes fuel cfg e g (Suc n) (b, tempFakeKeys, keyValueMap, p1))"

text \<open>The chunked upload.\<close>

fun upload :: "'srv redis_api \<Rightarrow> nat \<Rightarrow> (string \<times> string) list \<Rightarrow> (string \<times> string) list \<Rightarrow> 'srv list \<Rightarrow> 'srv list res" where
  "upload api bulk [] chunk srv =
     (if 0 < length chunk then redis_put_batch api (map fst chunk) (map snd chunk) srv else Inr srv)"
| "upload api bulk (kv # kvs) chunk srv =
     (let chunk1 = chunk @ [kv] in
      if length chunk1 = bulk then bindR (redis_put_batch api (map fst chunk1) (map snd chunk1) srv) (upload api bulk kvs [])
      else upload api bulk kvs chunk1 srv)"

text \<open>Two encryptions and decryptions whose results are only printed.\<close>

definition init_selftest :: "('srv, 'ctx) env \<Rightarrow> engine \<Rightarrow> nat \<Rightarrow> nat res" where
  "init_selftest e g pos =
     bindR (encryptNonDeterministic (e_evp e) g (e_rand e) pos ''mynameissharath'') (\<lambda>(test3, p1).
     bindR (encryptNonDeterministic (e_evp e) g (e_rand e) p1 ''mynameissharath'') (\<lambda>(test4, p2).
     bindR (decryptNonDeterministic (e_evp e) g test3) (\<lambda>test5.
     bindR (decryptNonDeterministic (e_evp e) g test4) (\<lambda>test6. Inr p2))))"

definition init ::
  "nat \<Rightarrow> config \<Rightarrow> ('srv, 'ctx) env \<Rightarrow> string list \<Rightarrow> string list \<Rightarrow> 'srv proxy \<Rightarrow> 'srv proxy res" where
  "init fuel cfg e keys vals s =
     (let g = encryption_engine s;
          rb0 = fs_move_assign (realBst s) (FrequencySmoother True);
          fb0 = fs_move_assign (fakeBst s) (FrequencySmoother False)
      in if length vals < length keys then Inl Undefined_behaviour
      else bindR (foldR (init_key e g) (zip keys vals) (rb0, [], rand_pos s)) (\<lambda>(rb, kvm, p1).
        let cacheCapacity = cacheBatches cfg * length keys div 100 in
        bindR (init_cache fuel e g keys vals rb cacheCapacity ([], [], kvm, p1)) (\<lambda>(kc, vc, kvm, p2).
        bindR (Cache_init kc vc (wrap32 (int (cacheCapacity * 10)))) (\<lambda>c.
        bindR (init_fakes fuel cfg e g (nat (cfg_D cfg)) (fb0\<lparr>needTimeStamp := False\<rparr>, [], kvm, p2)) (\<lambda>(fb, _, kvm, p3).
        bindR (upload (e_redis e) (redisBulkLength cfg) (e_kv_order e kvm) [] (storage s)) (\<lambda>srv.
        bindR (init_selftest e g p3) (\<lambda>p4.
        Inr (s\<lparr>realBst := rb, fakeBst := fb, pcache := c, EvictedItems := evictedItems_default, storage := srv, rand_pos := p4\<rparr>))))))))"
subsection \<open>The table of initial locations\<close>

text \<open>
  Every real key of \<open>R\<close> and every fake key of \<open>Fs\<close> is in the table under its first location, encrypted.
\<close>

definition kvm_ok :: "(string \<Rightarrow> string) \<Rightarrow> ('srv, 'ctx) env \<Rightarrow> engine \<Rightarrow> string set \<Rightarrow> string set \<Rightarrow> (string, string) umap \<Rightarrow> bool" where
  "kvm_ok V e g R Fs kvm \<longleftrightarrow> um_ok kvm \<and> (\<forall>k \<in> R. stored e g (um_find kvm) k 0 (V k)) \<and>
     (\<forall>k \<in> Fs. \<exists>v. stored e g (um_find kvm) k 0 v)"

lemma stored_um_set:
  assumes "env_ok e g db K T" and "0 \<le> T" and "k \<in> K" and "k' \<in> K"
  shows "stored e g (um_find (um_set (loc e g k' 0) c kvm)) k 0 v \<longleftrightarrow>
    (if k = k' then decryptNonDeterministic (e_evp e) g c = Inr v else stored e g (um_find kvm) k 0 v)"
  using loc_inj [OF assms(1,3) _ _ assms(4)] assms(2) by (auto simp: stored_def)

lemma stored_um_erase:
  assumes "env_ok e g db K T" and "0 \<le> T" and "k \<in> K" and "k' \<in> K" and "k \<noteq> k'"
  shows "stored e g (um_find (um_erase (loc e g k' 0) kvm)) k 0 v \<longleftrightarrow> stored e g (um_find kvm) k 0 v"
  using loc_inj [OF assms(1,3) _ _ assms(4)] assms(2,5) by (auto simp: stored_def)

lemma kvm_ok_set:
  assumes "env_ok e g db K T" and "0 \<le> T" and "kvm_ok V e g R Fs kvm" and "R \<union> Fs \<union> {k} \<subseteq> K" and "k \<notin> R \<union> Fs"
    and "decryptNonDeterministic (e_evp e) g c = Inr v"
  shows "v = V k \<Longrightarrow> kvm_ok V e g (insert k R) Fs (um_set (loc e g k 0) c kvm)"
    "kvm_ok V e g R (insert k Fs) (um_set (loc e g k 0) c kvm)"
proof -
  have s: "stored e g (um_find (um_set (loc e g k 0) c kvm)) j 0 u \<longleftrightarrow>
      (if j = k then Inr v = (Inr u :: string res) else stored e g (um_find kvm) j 0 u)" if "j \<in> K" for j u
    using stored_um_set [OF assms(1,2) that, of k c kvm u] assms(4,6) by simp
  have f: "\<exists>u. stored e g (um_find (um_set (loc e g k 0) c kvm)) j 0 u" if h: "j \<in> Fs" for j
  proof -
    obtain u where "stored e g (um_find kvm) j 0 u" using assms(3) h unfolding kvm_ok_def by blast
    then have "stored e g (um_find (um_set (loc e g k 0) c kvm)) j 0 u" using s [of j u] assms(4,5) h by auto
    then show ?thesis by blast
  qed
  have fk: "stored e g (um_find (um_set (loc e g k 0) c kvm)) k 0 v" using s [of k v] assms(4) by simp
  have r: "stored e g (um_find (um_set (loc e g k 0) c kvm)) j 0 (V j)" if "j \<in> R" for j
    using s [of j "V j"] assms(3-5) that unfolding kvm_ok_def by auto
  show "v = V k \<Longrightarrow> kvm_ok V e g (insert k R) Fs (um_set (loc e g k 0) c kvm)"
    "kvm_ok V e g R (insert k Fs) (um_set (loc e g k 0) c kvm)"
    using assms(3) f fk r unfolding kvm_ok_def by blast+
qed

text \<open>What is known of an index that has just been filled: every frequency is 0.\<close>

definition zero_index :: "freq \<Rightarrow> string set \<Rightarrow> bool" where
  "zero_index b R \<longleftrightarrow> fs_inv b \<and> (\<forall>k. um_find (accessFreqs b) k = (if k \<in> R then Some 0 else None))"

lemma zero_indexD:
  assumes "zero_index b R"
  shows "fs_inv b" "um_has (accessFreqs b) k \<longleftrightarrow> k \<in> R" "fs_freq b k = 0"
  using assms by (auto simp: zero_index_def um_has_def fs_freq_def um_at_def)

lemma fs_insert_zero:
  assumes "zero_index b R" and "k \<notin> R" and "fs_insert k b = Inr b1"
  shows "zero_index b1 (insert k R)" "fs_getFrequency k b1 = (0, b1)" "needTimeStamp b1 = needTimeStamp b"
proof -
  note Z = zero_indexD [OF assms(1)]
  have af: "accessFreqs b1 = um_set k 0 (accessFreqs b)" "needTimeStamp b1 = needTimeStamp b"
    using assms(3) by (auto simp: fs_insert_def Let_def res_simps split: if_splits)
  have "fs_inv b1" using fs_insert_fresh_inv [OF Z(1) _ assms(3)] Z(2) assms(2) by blast
  then show "zero_index b1 (insert k R)" using assms(1) by (auto simp: zero_index_def af(1))
  show "fs_getFrequency k b1 = (0, b1)" by (simp add: af(1) fs_freq_def um_at_set)
  show "needTimeStamp b1 = needTimeStamp b" by (rule af(2))
qed

lemma init_keys_ok:
  assumes "env_ok e g db K T" and "0 \<le> T" and "zero_index b R" and "ts_inv b" and "needTimeStamp b" and "kvm_ok V e g R {} kvm"
    and "distinct ks" and "set ks \<inter> R = {}" and "R \<union> set ks \<subseteq> K" and "\<forall>k \<in> set ks. canon k \<and> storable (V k)"
  shows "\<exists>b' kvm' pos'. foldR (init_key e g) (map (\<lambda>k. (k, V k)) ks) (b, kvm, pos) = Inr (b', kvm', pos') \<and>
    zero_index b' (R \<union> set ks) \<and> ts_inv b' \<and> needTimeStamp b' \<and> kvm_ok V e g (R \<union> set ks) {} kvm'"
  using assms(3-10)
proof (induction ks arbitrary: b kvm pos R)
  case (Cons k ks)
  have "canon k" using Cons.prems(8) by simp
  then obtain i t where it: "k = ts_key i t" "wf_item i" "fits64 t" by (rule canonE)
  obtain b1 where b1: "fs_insert k b = Inr b1" using fs_insert_canon [OF Cons.prems(3) it(2,3)] it(1) by blast
  have nk: "k \<notin> R" using Cons.prems(6) by auto
  note Z = fs_insert_zero [OF Cons.prems(1) nk b1]
  have ts1: "ts_inv b1" using fs_insert_ts_inv [OF Cons.prems(2,3) _ b1] Cons.prems(8) by simp
  have "storable (V k)" using Cons.prems(8) by simp
  then obtain c p where c: "encryptNonDeterministic (e_evp e) g (e_rand e) pos (V k) = Inr (c, p)"
    "decryptNonDeterministic (e_evp e) g c = Inr (V k)"
    using nondeterministic_roundtrip [OF env_okD(1) [OF assms(1)]] by blast
  let ?m = "um_set (loc e g k 0) c kvm"
  have m: "kvm_ok V e g (insert k R) {} ?m"
    using kvm_ok_set(1) [OF assms(1,2) Cons.prems(4) _ _ c(2)] Cons.prems(7) nk by auto
  have step: "init_key e g (k, V k) (b, kvm, pos) = Inr (b1, ?m, p)"
    using b1 Z(2) c(1) by (simp add: init_key_def loc_def)
  have "\<exists>b' kvm' pos'. foldR (init_key e g) (map (\<lambda>k. (k, V k)) ks) (b1, ?m, p) = Inr (b', kvm', pos') \<and>
    zero_index b' (insert k R \<union> set ks) \<and> ts_inv b' \<and> needTimeStamp b' \<and> kvm_ok V e g (insert k R \<union> set ks) {} kvm'"
    by (rule Cons.IH) (use Z(1,3) ts1 m Cons.prems in auto)
  then show ?case using step by simp
qed simp

text \<open>The cached keys leave the table; the others stay.\<close>

lemma init_cache_ok:
  assumes "env_ok e g db K T" and "0 \<le> T" and "zero_index b (set keys)" and "set keys \<subseteq> K" and "keys \<noteq> []"
    and "init_cache fuel e g keys (map V keys) b cap (kc, vc, kvm, pos) = Inr (kc', vc', kvm', pos')"
    and "distinct kc" and "set kc \<subseteq> set keys" and "vc = map V kc" and "kvm_ok V e g (set keys - set kc) {} kvm" and "length kc \<le> cap"
  shows "distinct kc' \<and> set kc' \<subseteq> set keys \<and> vc' = map V kc' \<and> length kc' = cap \<and> kvm_ok V e g (set keys - set kc') {} kvm'"
  using assms(6-11)
proof (induction fuel arbitrary: kc vc kvm pos)
  case 0
  then show ?case by (auto split: if_splits)
next
  case (Suc fuel)
  let ?ix = "e_rand e pos mod length keys"
  let ?k = "keys ! ?ix"
  have ix: "?ix < length keys" using assms(5) by simp
  show ?case
  proof (cases "length kc < cap \<and> ?k \<notin> set kc")
    case True
    have "kvm_ok V e g (set keys - set (kc @ [?k])) {} (um_erase (loc e g ?k 0) kvm)"
      using Suc.prems(5) assms(4) ix unfolding kvm_ok_def
      by (auto simp: stored_um_erase [OF assms(1,2)] subset_iff)
    moreover have "init_cache fuel e g keys (map V keys) b cap (kc @ [?k], vc @ [V ?k], um_erase (loc e g ?k 0) kvm, pos + 1) =
        Inr (kc', vc', kvm', pos')"
      using Suc.prems(1) True ix zero_indexD(3) [OF assms(3)] by (simp add: Let_def loc_def)
    ultimately show ?thesis using Suc.IH [of "kc @ [?k]" "vc @ [V ?k]"] Suc.prems(2-6) True ix by simp
  next
    case False
    show ?thesis
    proof (cases "length kc < cap")
      case True
      then show ?thesis using Suc.IH [of kc vc kvm "pos + 1"] Suc.prems False by (simp add: Let_def)
    next
      case full: False
      then show ?thesis using Suc.prems by auto
    qed
  qed
qed

text \<open>The names fake keys can have; none of them is a bucket key.\<close>

definition fake_names :: "string set" where
  "fake_names = {''fake'' @ r | r. set r \<subseteq> set alphanum \<and> 5 \<le> length r \<and> length r \<le> 14}"

lemma fake_name_in: "fake_name rnd pos = (k, pos') \<Longrightarrow> k \<in> fake_names"
  using gen_random_chars(1,2) [of rnd "pos + 1" "rnd pos mod 10 + 5"]
  by (fastforce simp: fake_name_def fake_names_def Let_def split: prod.splits)

lemma fake_names_not_canon: "k \<in> fake_names \<Longrightarrow> \<not> canon k"
proof
  assume k: "k \<in> fake_names" and "canon k"
  then obtain i t where "k = ts_key i t" by (metis canonE)
  then have "CHR ''@'' \<in> set k" by (simp add: ts_key_def)
  then show False using k by (auto simp: fake_names_def alphanum_def)
qed

lemma fs_insert_plain: "\<not> needTimeStamp b \<Longrightarrow> \<exists>b1. fs_insert k b = Inr b1"
  by (simp add: fs_insert_def Let_def)

lemma init_fakes_ok:
  assumes "env_ok e g db K T" and "0 \<le> T" and "object_size cfg \<le> 4070" and "R \<union> fake_names \<subseteq> K" and "R \<inter> fake_names = {}"
    and "init_fakes fuel cfg e g n (b, tmp, kvm, pos) = Inr (b', tmp', kvm', pos')"
    and "zero_index b (set tmp)" and "\<not> needTimeStamp b" and "distinct tmp" and "set tmp \<subseteq> fake_names" and "kvm_ok V e g R (set tmp) kvm"
  shows "zero_index b' (set tmp') \<and> distinct tmp' \<and> set tmp' \<subseteq> fake_names \<and> length tmp' = length tmp + n \<and> kvm_ok V e g R (set tmp') kvm'"
  using assms(6-11)
proof (induction fuel arbitrary: n b tmp kvm pos)
  case 0
  then show ?case by (cases n) auto
next
  case (Suc fuel)
  show ?case
  proof (cases n)
    case 0
    then show ?thesis using Suc.prems by simp
  next
    case (Suc n')
    obtain k p1 where k: "fake_name (e_rand e) pos = (k, p1)" by fastforce
    have kn: "k \<in> fake_names" using fake_name_in [OF k] .
    show ?thesis
    proof (cases "k \<in> set tmp")
      case True
      then have "init_fakes fuel cfg e g (Suc n') (b, tmp, kvm, p1) = Inr (b', tmp', kvm', pos')"
        using Suc.prems(1) Suc k by simp
      from Suc.IH [OF this Suc.prems(2-6)] show ?thesis using Suc by simp
    next
      case False
      obtain b1 where b1: "fs_insert k b = Inr b1" using fs_insert_plain [OF Suc.prems(3)] by blast
      note Z = fs_insert_zero [OF Suc.prems(2) False b1]
      obtain v p2 where v: "gen_random (e_rand e) p1 (object_size cfg) = (v, p2)" by fastforce
      have "storable v" using gen_random_chars(1,2) [OF v] alphanum_chars(2) assms(3) by (auto simp: storable_def)
      then obtain c p3 where c: "encryptNonDeterministic (e_evp e) g (e_rand e) p2 v = Inr (c, p3)"
        "decryptNonDeterministic (e_evp e) g c = Inr v"
        using nondeterministic_roundtrip [OF env_okD(1) [OF assms(1)]] by blast
      have "kvm_ok V e g R (insert k (set tmp)) (um_set (loc e g k 0) c kvm)"
        using kvm_ok_set(2) [OF assms(1,2) Suc.prems(6) _ _ c(2)] Suc.prems(5) assms(4,5) kn False by blast
      moreover have "init_fakes fuel cfg e g n' (b1, tmp @ [k], um_set (loc e g k 0) c kvm, p3) = Inr (b', tmp', kvm', pos')"
        using Suc.prems(1) Suc k False b1 Z(2) v c(1) by (simp add: loc_def)
      ultimately show ?thesis
        using Suc.IH [of n' b1 "tmp @ [k]" "um_set (loc e g k 0) c kvm" p3] Z(1,3) Suc.prems(3-5) False kn Suc by simp
    qed
  qed
qed

lemma upload_ok:
  assumes "redis_lawful api db"
  shows "\<exists>srv'. upload api bulk kvs chunk [srv] = Inr [srv'] \<and> db srv' = db srv ++ map_of (rev (chunk @ kvs))"
proof (induction kvs arbitrary: chunk srv)
  case Nil
  show ?case
  proof (cases "chunk = []")
    case False
    then show ?thesis using redis_put_batch_single [OF assms, of "map fst chunk" "map snd chunk" srv] by (simp add: zip_map_fst_snd)
  qed simp
next
  case (Cons kv kvs)
  show ?case
  proof (cases "length (chunk @ [kv]) = bulk")
    case True
    obtain srv1 where s1: "redis_put_batch api (map fst (chunk @ [kv])) (map snd (chunk @ [kv])) [srv] = Inr [srv1]"
      "db srv1 = db srv ++ map_of (rev (chunk @ [kv]))"
      using redis_put_batch_single [OF assms, of "map fst (chunk @ [kv])" "map snd (chunk @ [kv])" srv] by (auto simp: zip_map_fst_snd)
    obtain srv' where "upload api bulk kvs [] [srv1] = Inr [srv']" "db srv' = db srv1 ++ map_of (rev kvs)"
      using Cons.IH [of "[]" srv1] by auto
    then show ?thesis using s1 True by (auto simp: map_add_assoc)
  next
    case False
    then show ?thesis using Cons.IH [of "chunk @ [kv]" srv] by simp
  qed
qed

lemma Cache_init_ok:
  assumes "distinct kc" and "vc = map V kc"
  shows "\<exists>c. Cache_init kc vc n = Inr c \<and> cache_inv c \<and> length (lru c) = length kc \<and>
    (\<forall>k. cache_find c k = (if k \<in> set kc then Some (V k) else None))"
proof -
  let ?c0 = "Cache_default\<lparr>m_capacity := n\<rparr>"
  obtain c where c: "foldR (\<lambda>kv. insertIntoCache (fst kv) (snd kv)) (zip kc vc) ?c0 = Inr c" "cache_inv c"
    "cache_find c = cache_find ?c0 ++ map_of (rev (zip kc vc))"
    using cache_kv.ins_all [of ?c0] by auto
  have z: "zip kc vc = map (\<lambda>k. (k, V k)) kc" unfolding assms(2) by (induction kc) simp_all
  have "map_of (rev (zip kc vc)) k = (if k \<in> set kc then Some (V k) else None)" for k
    unfolding z rev_map by (simp add: map_of_map_restrict)
  then have f: "\<forall>k. cache_find c k = (if k \<in> set kc then Some (V k) else None)"
    unfolding c(3) by (simp add: cache_find_def map_add_def)
  have "set (map fst (lru c)) = set kc"
  proof -
    have "k \<in> set (map fst (lru c)) \<longleftrightarrow> cache_find c k \<noteq> None" for k by (simp add: cache_find_def map_of_eq_None_iff)
    then have "k \<in> set (map fst (lru c)) \<longleftrightarrow> k \<in> set kc" for k using f by simp
    then show ?thesis by blast
  qed
  then have "length (lru c) = length kc"
    using distinct_card [OF cache_invD(3) [OF c(2)]] distinct_card [OF assms(1)] by simp
  then show ?thesis using c(1,2) f assms(2) by (simp add: Cache_init_def)
qed

subsection \<open>The state after \<open>init\<close>\<close>

lemma um_find_order:
  assumes "um_ok kvm" and "mset kvs = mset kvm"
  shows "map_of (rev kvs) = um_find kvm"
proof -
  have st: "set (rev kvs) = set kvm" using assms(2) by (metis set_mset_mset set_rev)
  have d: "distinct (map fst kvm)" using assms(1) by (simp add: um_ok_def)
  have "mset (map fst (rev kvs)) = mset (map fst kvm)" using assms(2) by simp
  then have "distinct (map fst (rev kvs))" using d mset_eq_imp_distinct_iff by blast
  then have "map_of (rev kvs) = map_of kvm" using map_of_inject_set [OF _ d] st by blast
  then show ?thesis by (simp add: um_find_def fun_eq_iff)
qed

lemma stored_mono: "stored e g m k f v \<Longrightarrow> stored e g (m0 ++ m) k f v"
  by (auto simp: stored_def)

text \<open>
  A successful initialisation: the live keys are the initial ones, a part of them of the configured size
  is cached, there are \<open>D\<close> fake keys, and the invariant of the proxy holds.
\<close>

lemma init_ok:
  assumes "env_ok e g db K T" and "0 \<le> T" and "distinct keys" and "keys \<noteq> []" and "\<forall>k \<in> set keys. canon k \<and> storable (V k)"
    and "set keys \<union> fake_names \<subseteq> K" and "object_size cfg \<le> 4070"
    and "init fuel cfg e keys (map V keys) (proxy_new [srv] g pos) = Inr s"
  shows "pinv K V e db s" "Collect (live s) = set keys" "length (lru (pcache s)) = cacheBatches cfg * length keys div 100"
    "fs_size (fakeBst s) = nat (cfg_D cfg)" "timeStamp s = 0" "encryption_engine s = g" "runningKeys s = running_empty"
    "promises s = []" "keys_to_be_deleted s = []"
proof -
  let ?s0 = "proxy_new [srv] g pos" and ?cap = "cacheBatches cfg * length keys div 100"
  have mv: "fs_move_assign (realBst ?s0) (FrequencySmoother True) = FrequencySmoother True"
    "(fs_move_assign (fakeBst ?s0) (FrequencySmoother False))\<lparr>needTimeStamp := False\<rparr> = FrequencySmoother False"
    by (simp_all add: proxy_new_def fs_move_assign_def FrequencySmoother_def)
  have z0: "zero_index (FrequencySmoother b) {}" for b by (simp add: zero_index_def) (simp add: FrequencySmoother_def)
  have nts: "needTimeStamp (FrequencySmoother b) = b" for b by (simp add: FrequencySmoother_def)
  have z: "zip keys (map V keys) = map (\<lambda>k. (k, V k)) keys" by (induction keys) simp_all
  have "\<exists>b' kvm' pos'. foldR (init_key e g) (map (\<lambda>k. (k, V k)) keys) (FrequencySmoother True, [], pos) = Inr (b', kvm', pos') \<and>
    zero_index b' ({} \<union> set keys) \<and> ts_inv b' \<and> needTimeStamp b' \<and> kvm_ok V e g ({} \<union> set keys) {} kvm'"
    by (rule init_keys_ok [OF assms(1,2) z0 ts_inv_new]) (use assms(3,5,6) nts in \<open>auto simp: kvm_ok_def\<close>)
  then obtain rb kvm1 p1 where 1: "foldR (init_key e g) (zip keys (map V keys)) (FrequencySmoother True, [], pos) = Inr (rb, kvm1, p1)"
    "zero_index rb (set keys)" "ts_inv rb" "needTimeStamp rb" "kvm_ok V e g (set keys) {} kvm1"
    unfolding z by auto
  obtain kc vc kvm2 p2 c fb tmp kvm3 p3 srv' p4 where
    2: "init_cache fuel e g keys (map V keys) rb ?cap ([], [], kvm1, p1) = Inr (kc, vc, kvm2, p2)"
    and 3: "Cache_init kc vc (wrap32 (int (?cap * 10))) = Inr c"
    and 4: "init_fakes fuel cfg e g (nat (cfg_D cfg)) (FrequencySmoother False, [], kvm2, p2) = Inr (fb, tmp, kvm3, p3)"
    and 5: "upload (e_redis e) (redisBulkLength cfg) (e_kv_order e kvm3) [] [srv] = Inr srv'"
    and s: "s = ?s0\<lparr>realBst := rb, fakeBst := fb, pcache := c, EvictedItems := evictedItems_default, storage := srv', rand_pos := p4\<rparr>"
    using assms(8) 1(1) unfolding init_def Let_def mv
    by (auto simp: proxy_new_def res_simps)
  have i2: "distinct kc" "set kc \<subseteq> set keys" "vc = map V kc" "length kc = ?cap" "kvm_ok V e g (set keys - set kc) {} kvm2"
    using init_cache_ok [OF assms(1,2) 1(2) _ assms(4) 2] 1(5) assms(6) by auto
  have i3: "cache_inv c" "length (lru c) = length kc" "\<forall>k. cache_find c k = (if k \<in> set kc then Some (V k) else None)"
    using Cache_init_ok [OF i2(1,3), of "wrap32 (int (?cap * 10))"] unfolding 3 by auto
  have dj: "set keys \<inter> fake_names = {}" using assms(5) fake_names_not_canon by blast
  have i4: "zero_index fb (set tmp)" "distinct tmp" "set tmp \<subseteq> fake_names" "length tmp = nat (cfg_D cfg)"
    "kvm_ok V e g (set keys - set kc) (set tmp) kvm3"
    using init_fakes_ok [OF assms(1,2,7) _ _ 4, of "set keys - set kc" V] z0 nts i2(5) assms(6) dj by auto
  obtain srv1 where i5: "srv' = [srv1]" "db srv1 = db srv ++ um_find kvm3"
    using upload_ok [OF env_okD(2) [OF assms(1)], of "redisBulkLength cfg" "e_kv_order e kvm3" "[]" srv] 5
      um_find_order [OF _ env_okD(3) [OF assms(1)]] i4(5) by (auto simp: kvm_ok_def)
  note R = zero_indexD [OF 1(2)] and Fk = zero_indexD [OF i4(1)]
  have lv: "live s k \<longleftrightarrow> k \<in> set keys" "fake s k \<longleftrightarrow> k \<in> set tmp" for k
    using R(2) Fk(2) by (simp_all add: s live_def fake_def)
  have fl: "encryption_engine s = g" "timeStamp s = 0" "storage s = [srv1]" "server s = srv1" "realBst s = rb" "fakeBst s = fb"
    "pcache s = c" "ev_cacheMap (EvictedItems s) = []" "keysNotUsed s = []" "runningKeys s = running_empty" "promises s = []"
    "keys_to_be_deleted s = []"
    using i5(1) by (simp_all add: s proxy_new_def server_def evictedItems_default_def)
  have st: "stored e g (db srv1) k 0 (V k)" if "k \<in> set keys" "k \<notin> set kc" for k
    using i4(5) that stored_mono i5(2) unfolding kvm_ok_def by fastforce
  have sf: "\<exists>v. stored e g (db srv1) k 0 v" if "k \<in> set tmp" for k
    using i4(5) that stored_mono i5(2) unfolding kvm_ok_def by metis
  show "pinv K V e db s"
    unfolding pinv_def fl lv
    using R(1,3) Fk(1,3) 1(3,4) i3 i2(2) i4(3) fake_names_not_canon assms(5,6) st sf by (auto split: if_splits)
  show "Collect (live s) = set keys" using lv(1) by blast
  show "length (lru (pcache s)) = ?cap" using i3(2) i2(4) fl(7) by simp
  show "fs_size (fakeBst s) = nat (cfg_D cfg)"
  proof -
    have "Collect (um_has (accessFreqs fb)) = set tmp" using Fk(2) by blast
    then show ?thesis using fs_size_card [OF Fk(1)] distinct_card [OF i4(2)] i4(4) fl(6) by simp
  qed
  show "timeStamp s = 0" "encryption_engine s = g" "runningKeys s = running_empty" "promises s = []" "keys_to_be_deleted s = []"
    by (rule fl)+
qed

subsection \<open>Initialisation ends\<close>

text \<open>
  What the loops need of \<open>rand()\<close>: every residue modulo the number of keys keeps coming, and the attempts
  at a fake name keep producing new ones as long as fewer than \<open>D\<close> have been used.
\<close>

definition fair_draws :: "rand_stream \<Rightarrow> nat \<Rightarrow> bool" where
  "fair_draws rnd n \<longleftrightarrow> (\<forall>i < n. \<forall>p. \<exists>j. rnd (p + j) mod n = i)"

definition fake_supply :: "rand_stream \<Rightarrow> nat \<Rightarrow> bool" where
  "fake_supply rnd D \<longleftrightarrow>
     (\<forall>used p. card (set used) < D \<longrightarrow> (\<exists>n. fst (fake_name rnd (((\<lambda>p. snd (fake_name rnd p)) ^^ n) p)) \<notin> set used))"

lemma init_cache_more_fuel: "init_cache f e g keys vals b cap st = Inr r \<Longrightarrow> init_cache (f + n) e g keys vals b cap st = Inr r"
proof (induction f arbitrary: st)
  case 0
  obtain kc vc kvm pos where "st = (kc, vc, kvm, pos)" by (metis prod_cases4)
  then show ?case using 0 by (cases n) (auto split: if_splits)
next
  case (Suc f)
  obtain kc vc kvm pos where "st = (kc, vc, kvm, pos)" by (metis prod_cases4)
  then show ?case using Suc by (auto simp: Let_def split: if_splits)
qed

lemma init_fakes_more_fuel: "init_fakes f cfg e g m st = Inr r \<Longrightarrow> init_fakes (f + n) cfg e g m st = Inr r"
proof (induction f arbitrary: m st)
  case 0
  then show ?case by (cases m) auto
next
  case (Suc f)
  obtain b tmp kvm pos where st: "st = (b, tmp, kvm, pos)" by (metis prod_cases4)
  show ?case
  proof (cases m)
    case 0
    then show ?thesis using Suc.prems by simp
  next
    case m: (Suc m')
    obtain k p1 where k: "fake_name (e_rand e) pos = (k, p1)" by fastforce
    show ?thesis
    proof (cases "k \<in> set tmp")
      case True
      then show ?thesis using Suc st m k by simp
    next
      case False
      obtain b1 where b1: "fs_insert k b = Inr b1"
        using Suc.prems False st m k by (cases "fs_insert k b") auto
      obtain v p2 where v: "gen_random (e_rand e) p1 (object_size cfg) = (v, p2)" by fastforce
      obtain c p3 where c: "encryptNonDeterministic (e_evp e) g (e_rand e) p2 v = Inr (c, p3)"
        using Suc.prems False st m k b1 v
        by (cases "encryptNonDeterministic (e_evp e) g (e_rand e) p2 v") (auto simp: fs_getFrequency_def)
      show ?thesis using Suc False st m k b1 v c by (simp add: fs_getFrequency_def)
    qed
  qed
qed

text \<open>Where a round of the cache loop leads.\<close>

definition next_draw ::
  "('srv, 'ctx) env \<Rightarrow> engine \<Rightarrow> string list \<Rightarrow> string list \<Rightarrow> freq \<Rightarrow> string list \<times> string list \<times> (string, string) umap \<times> nat \<Rightarrow>
   string list \<times> string list \<times> (string, string) umap \<times> nat" where
  "next_draw e g keys vals b st = (case st of (kc, vc, kvm, pos) \<Rightarrow>
     let index = e_rand e pos mod length keys; k = keys ! index in
     if k \<notin> set kc then (kc @ [k], vc @ [vals ! index], um_erase (eng_prf (e_evp e) g (sid k (fs_freq b k))) kvm, pos + 1)
     else (kc, vc, kvm, pos + 1))"

lemma init_cache_back:
  assumes "is_ok (init_cache f e g keys vals b cap (next_draw e g keys vals b (kc, vc, kvm, pos)))"
  shows "\<exists>f. is_ok (init_cache f e g keys vals b cap (kc, vc, kvm, pos))"
proof (cases "length kc < cap")
  case True
  then show ?thesis using assms by (intro exI [of _ "Suc f"]) (simp add: next_draw_def Let_def split: if_splits)
next
  case False
  then show ?thesis by (intro exI [of _ 0]) simp
qed

lemma init_cache_ends_step:
  assumes "\<And>kc' vc' kvm' pos'. length kc < length kc' \<Longrightarrow> distinct kc' \<Longrightarrow> set kc' \<subseteq> set keys \<Longrightarrow>
      \<exists>f. is_ok (init_cache f e g keys vals b cap (kc', vc', kvm', pos'))"
    and "keys ! (e_rand e (pos + d) mod length keys) \<notin> set kc" and "keys \<noteq> []" and "distinct kc" and "set kc \<subseteq> set keys"
  shows "\<exists>f. is_ok (init_cache f e g keys vals b cap (kc, vc, kvm, pos))"
  using assms(2)
proof (induction d arbitrary: pos)
  case (Suc d)
  let ?ix = "e_rand e pos mod length keys"
  have "?ix < length keys" using assms(3) by simp
  then have "\<exists>f. is_ok (init_cache f e g keys vals b cap (next_draw e g keys vals b (kc, vc, kvm, pos)))"
    using Suc assms(1,4,5) by (simp add: next_draw_def Let_def)
  then show ?case using init_cache_back by blast
next
  case 0
  have "e_rand e pos mod length keys < length keys" using assms(3) by simp
  then have "\<exists>f. is_ok (init_cache f e g keys vals b cap (next_draw e g keys vals b (kc, vc, kvm, pos)))"
    using 0 assms(1,4,5) by (simp add: next_draw_def Let_def)
  then show ?case using init_cache_back by blast
qed

lemma init_cache_ends:
  assumes "fair_draws (e_rand e) (length keys)" and "keys \<noteq> []" and "distinct keys" and "cap \<le> length keys"
    and "distinct kc" and "set kc \<subseteq> set keys"
  shows "\<exists>f. is_ok (init_cache f e g keys vals b cap (kc, vc, kvm, pos))"
  using assms(5,6)
proof (induction "cap - length kc" arbitrary: kc vc kvm pos rule: less_induct)
  case less
  show ?case
  proof (cases "length kc < cap")
    case False
    then show ?thesis by (intro exI [of _ 0]) simp
  next
    case True
    have "card (set kc) < card (set keys)"
      using True assms(4) distinct_card [OF less.prems(1)] distinct_card [OF assms(3)] by simp
    then have "\<not> set keys \<subseteq> set kc" by (metis card_mono finite_set leD)
    then obtain k where "k \<in> set keys" "k \<notin> set kc" by blast
    then obtain i where i: "i < length keys" "keys ! i \<notin> set kc" by (metis in_set_conv_nth)
    obtain d where "e_rand e (pos + d) mod length keys = i" using assms(1) i(1) by (auto simp: fair_draws_def)
    then have "keys ! (e_rand e (pos + d) mod length keys) \<notin> set kc" using i(2) by simp
    then show ?thesis
      by (rule init_cache_ends_step [rotated]) (use less assms(2) True in auto)
  qed
qed

lemma init_fakes_new:
  assumes "env_ok e g db K T" and "object_size cfg \<le> 4070" and "fake_name (e_rand e) pos = (k, p1)" and "k \<notin> set tmp"
    and "\<not> needTimeStamp b"
  shows "\<exists>b' kvm' pos'. \<not> needTimeStamp b' \<and> (\<forall>f. init_fakes (Suc f) cfg e g (Suc n) (b, tmp, kvm, pos) =
    init_fakes f cfg e g n (b', tmp @ [k], kvm', pos'))"
proof -
  obtain b1 where b1: "fs_insert k b = Inr b1" using fs_insert_plain [OF assms(5)] by blast
  obtain v p2 where v: "gen_random (e_rand e) p1 (object_size cfg) = (v, p2)" by fastforce
  have "storable v" using gen_random_chars(1,2) [OF v] alphanum_chars(2) assms(2) by (auto simp: storable_def)
  then obtain c p3 where c: "encryptNonDeterministic (e_evp e) g (e_rand e) p2 v = Inr (c, p3)"
    using nondeterministic_roundtrip [OF env_okD(1) [OF assms(1)]] by blast
  have "\<not> needTimeStamp b1" using b1 assms(5) by (auto simp: fs_insert_def Let_def)
  then show ?thesis
    by (intro exI [of _ "fs_touch k b1"] exI [of _ "um_set (eng_prf (e_evp e) g (sid k (fs_freq b1 k))) c kvm"] exI [of _ p3])
      (use assms(3,4) b1 v c in \<open>simp add: fs_getFrequency_def fs_touch_def\<close>)
qed

lemma init_fakes_ends_new:
  assumes "env_ok e g db K T" and "object_size cfg \<le> 4070"
    and "\<And>b' tmp' kvm' pos'. length tmp' = Suc (length tmp) \<Longrightarrow> distinct tmp' \<Longrightarrow> \<not> needTimeStamp b' \<Longrightarrow>
      \<exists>f. is_ok (init_fakes f cfg e g n (b', tmp', kvm', pos'))"
    and "fake_name (e_rand e) pos = (k, p1)" and "k \<notin> set tmp" and "distinct tmp" and "\<not> needTimeStamp b"
  shows "\<exists>f. is_ok (init_fakes f cfg e g (Suc n) (b, tmp, kvm, pos))"
proof -
  obtain b' kvm' pos' where 1: "\<not> needTimeStamp b'"
    "\<And>f. init_fakes (Suc f) cfg e g (Suc n) (b, tmp, kvm, pos) = init_fakes f cfg e g n (b', tmp @ [k], kvm', pos')"
    using init_fakes_new [OF assms(1,2,4,5,7), of n kvm] by blast
  obtain f where "is_ok (init_fakes f cfg e g n (b', tmp @ [k], kvm', pos'))"
    using assms(3) [of "tmp @ [k]" b' kvm' pos'] 1(1) assms(5,6) by auto
  then show ?thesis using 1(2) [of f] by metis
qed

lemma init_fakes_ends_step:
  assumes "env_ok e g db K T" and "object_size cfg \<le> 4070"
    and "\<And>b' tmp' kvm' pos'. length tmp' = Suc (length tmp) \<Longrightarrow> distinct tmp' \<Longrightarrow> \<not> needTimeStamp b' \<Longrightarrow>
      \<exists>f. is_ok (init_fakes f cfg e g n (b', tmp', kvm', pos'))"
    and "fst (fake_name (e_rand e) (((\<lambda>p. snd (fake_name (e_rand e) p)) ^^ d) pos)) \<notin> set tmp"
    and "distinct tmp" and "\<not> needTimeStamp b"
  shows "\<exists>f. is_ok (init_fakes f cfg e g (Suc n) (b, tmp, kvm, pos))"
  using assms(4)
proof (induction d arbitrary: pos)
  case (Suc d)
  obtain k p1 where k: "fake_name (e_rand e) pos = (k, p1)" by fastforce
  show ?case
  proof (cases "k \<in> set tmp")
    case True
    have "fst (fake_name (e_rand e) (((\<lambda>p. snd (fake_name (e_rand e) p)) ^^ d) p1)) \<notin> set tmp"
      using Suc.prems k by (simp add: funpow_Suc_right del: funpow.simps)
    then obtain f where "is_ok (init_fakes f cfg e g (Suc n) (b, tmp, kvm, p1))" using Suc.IH by blast
    then show ?thesis using k True by (intro exI [of _ "Suc f"]) simp
  next
    case False
    show ?thesis by (rule init_fakes_ends_new [OF assms(1,2) _ k False assms(5,6)]) (rule assms(3))
  qed
next
  case 0
  obtain k p1 where k: "fake_name (e_rand e) pos = (k, p1)" by fastforce
  then have new: "k \<notin> set tmp" using 0 by simp
  show ?case by (rule init_fakes_ends_new [OF assms(1,2) _ k new assms(5,6)]) (rule assms(3))
qed

lemma init_fakes_ends:
  assumes "env_ok e g db K T" and "object_size cfg \<le> 4070" and "fake_supply (e_rand e) D" and "length tmp + n \<le> D"
    and "distinct tmp" and "\<not> needTimeStamp b"
  shows "\<exists>f. is_ok (init_fakes f cfg e g n (b, tmp, kvm, pos))"
  using assms(4-6)
proof (induction n arbitrary: b tmp kvm pos)
  case 0
  then show ?case by simp
next
  case (Suc n)
  have "card (set tmp) < D" using Suc.prems(1) distinct_card [OF Suc.prems(2)] by simp
  then obtain d where "fst (fake_name (e_rand e) (((\<lambda>p. snd (fake_name (e_rand e) p)) ^^ d) pos)) \<notin> set tmp"
    using assms(3) unfolding fake_supply_def by blast
  then show ?case
    by (rule init_fakes_ends_step [OF assms(1,2), rotated]) (use Suc in auto)
qed

lemma init_selftest_ok:
  assumes "env_ok e g db K T"
  shows "\<exists>p'. init_selftest e g pos = Inr p'"
proof -
  have st: "storable ''mynameissharath''" by (simp add: storable_def)
  obtain c1 p1 where 1: "encryptNonDeterministic (e_evp e) g (e_rand e) pos ''mynameissharath'' = Inr (c1, p1)"
    "decryptNonDeterministic (e_evp e) g c1 = Inr ''mynameissharath''"
    using nondeterministic_roundtrip [OF env_okD(1) [OF assms(1)] st] by blast
  obtain c2 p2 where 2: "encryptNonDeterministic (e_evp e) g (e_rand e) p1 ''mynameissharath'' = Inr (c2, p2)"
    "decryptNonDeterministic (e_evp e) g c2 = Inr ''mynameissharath''"
    using nondeterministic_roundtrip [OF env_okD(1) [OF assms(1)] st] by blast
  show ?thesis using 1 2 by (simp add: init_selftest_def)
qed

text \<open>With a random generator that keeps drawing, and a cache no larger than the data, initialisation ends.\<close>

lemma init_ends:
  assumes "env_ok e g db K T" and "0 \<le> T" and "distinct keys" and "keys \<noteq> []" and "\<forall>k \<in> set keys. canon k \<and> storable (V k)"
    and "set keys \<union> fake_names \<subseteq> K" and "object_size cfg \<le> 4070" and "cacheBatches cfg \<le> 100"
    and "fair_draws (e_rand e) (length keys)" and "fake_supply (e_rand e) (nat (cfg_D cfg))"
  shows "\<exists>fuel s. init fuel cfg e keys (map V keys) (proxy_new [srv] g pos) = Inr s"
proof -
  let ?s0 = "proxy_new [srv] g pos" and ?cap = "cacheBatches cfg * length keys div 100"
  have mv: "fs_move_assign (realBst ?s0) (FrequencySmoother True) = FrequencySmoother True"
    "(fs_move_assign (fakeBst ?s0) (FrequencySmoother False))\<lparr>needTimeStamp := False\<rparr> = FrequencySmoother False"
    "storage ?s0 = [srv]" "encryption_engine ?s0 = g" "rand_pos ?s0 = pos"
    by (simp_all add: proxy_new_def fs_move_assign_def FrequencySmoother_def)
  have nts: "needTimeStamp (FrequencySmoother b) = b" for b by (simp add: FrequencySmoother_def)
  have z0: "zero_index (FrequencySmoother b) {}" for b by (simp add: zero_index_def) (simp add: FrequencySmoother_def)
  have z: "zip keys (map V keys) = map (\<lambda>k. (k, V k)) keys" by (induction keys) simp_all
  have "\<exists>b' kvm' pos'. foldR (init_key e g) (map (\<lambda>k. (k, V k)) keys) (FrequencySmoother True, [], pos) = Inr (b', kvm', pos') \<and>
    zero_index b' ({} \<union> set keys) \<and> ts_inv b' \<and> needTimeStamp b' \<and> kvm_ok V e g ({} \<union> set keys) {} kvm'"
    by (rule init_keys_ok [OF assms(1,2) z0 ts_inv_new]) (use assms(3,5,6) nts in \<open>auto simp: kvm_ok_def\<close>)
  then obtain rb kvm1 p1 where 1: "foldR (init_key e g) (zip keys (map V keys)) (FrequencySmoother True, [], pos) = Inr (rb, kvm1, p1)"
    "zero_index rb (set keys)" "kvm_ok V e g (set keys) {} kvm1" unfolding z by auto
  have "cacheBatches cfg * length keys \<le> 100 * length keys" using assms(8) by simp
  then have cap: "?cap \<le> length keys" by (metis div_le_mono div_mult_self1_is_m zero_less_numeral)
  obtain f1 kc vc kvm2 p2 where 2: "init_cache f1 e g keys (map V keys) rb ?cap ([], [], kvm1, p1) = Inr (kc, vc, kvm2, p2)"
    using init_cache_ends [OF assms(9,4,3) cap, of "[]"] unfolding is_ok_iff by fastforce
  have i2: "distinct kc" "vc = map V kc"
    using init_cache_ok [OF assms(1,2) 1(2) _ assms(4) 2] 1(3) assms(6) by auto
  obtain c where 3: "Cache_init kc vc (wrap32 (int (?cap * 10))) = Inr c" using Cache_init_ok [OF i2] by blast
  obtain f2 fb tmp kvm3 p3 where 4: "init_fakes f2 cfg e g (nat (cfg_D cfg)) (FrequencySmoother False, [], kvm2, p2) = Inr (fb, tmp, kvm3, p3)"
    using init_fakes_ends [OF assms(1,7,10), of "[]" "nat (cfg_D cfg)" "FrequencySmoother False" kvm2 p2] nts
    unfolding is_ok_iff by fastforce
  obtain srv' where 5: "upload (e_redis e) (redisBulkLength cfg) (e_kv_order e kvm3) [] [srv] = Inr srv'"
    using upload_ok [OF env_okD(2) [OF assms(1)]] by blast
  obtain p4 where 6: "init_selftest e g p3 = Inr p4" using init_selftest_ok [OF assms(1)] by blast
  have two: "init_cache (f1 + f2) e g keys (map V keys) rb ?cap ([], [], kvm1, p1) = Inr (kc, vc, kvm2, p2)"
    using init_cache_more_fuel [OF 2] .
  have four: "init_fakes (f1 + f2) cfg e g (nat (cfg_D cfg)) (FrequencySmoother False, [], kvm2, p2) = Inr (fb, tmp, kvm3, p3)"
    using init_fakes_more_fuel [OF 4, of f1] by (simp add: add.commute)
  have "\<exists>s. init (f1 + f2) cfg e keys (map V keys) ?s0 = Inr s"
    using 1(1) two 3 four 5 6 unfolding init_def Let_def mv by simp
  then show ?thesis by blast
qed

text \<open>The consumer starts from a state that satisfies the system invariant.\<close>

lemma init_sys_inv:
  assumes "env_ok e g db K T" and "0 \<le> T" and "distinct keys" and "keys \<noteq> []" and "\<forall>k \<in> set keys. canon k \<and> storable (V k)"
    and "set keys \<union> fake_names \<subseteq> K" and "object_size cfg \<le> 4070"
    and "init fuel cfg e keys (map V keys) (proxy_new [srv] g pos) = Inr s"
    and "100 \<le> cacheBatches cfg * length keys" and "cacheBatches cfg \<le> 100" and "0 < m" and "0 \<le> cfg_R cfg"
  shows "sys_inv K V e db T m cfg (length keys - cacheBatches cfg * length keys div 100) g (nat (cfg_D cfg)) (0, 0, [], 0, s)"
proof -
  note I = init_ok [OF assms(1-8)]
  have "cacheBatches cfg * length keys \<le> 100 * length keys" using assms(10) by simp
  then have cap: "cacheBatches cfg * length keys div 100 \<le> length keys" by (metis div_le_mono div_mult_self1_is_m zero_less_numeral)
  have one: "1 \<le> cacheBatches cfg * length keys div 100" using assms(9) by linarith
  have "rk_wf (runningKeys s) (promises s)" using I(7) by simp
  then have "cinv 1 V [] s" unfolding cinv_def using I(3,7,9) one by (simp add: rk_present_def running_empty_def)
  then show ?thesis
    unfolding sys_inv_def using I cap distinct_card [OF assms(3)] assms(2,11,12) by (simp add: running_empty_def)
qed

end
