(* ===== verification/Store_Refinement.thy ===== *)
theory Store_Refinement
  imports Proxy_System
begin

text \<open>
  What the proxy promises its clients, without caches, locations, batches or ciphers: a map from
  bucket keys to values, the buckets condemned by later PUTs, the range queries that wait for the next
  batch, and the replies given.  Every step of the proxy is a step of this specification or leaves it
  unchanged.
\<close>

record ts_store =
  content :: "string \<rightharpoonup> string"
  condemned :: "string set"
  waiting :: "int \<rightharpoonup> (string \<times> string) list \<times> nat"
  replies :: "nat \<rightharpoonup> string"

text \<open>The buckets of an item in a range, oldest first.\<close>

definition selects :: "(string \<rightharpoonup> string) \<Rightarrow> string \<Rightarrow> int \<Rightarrow> int \<Rightarrow> string list \<Rightarrow> bool" where
  "selects c item start stop ks \<longleftrightarrow>
     (\<exists>tsl. ks = map (ts_key item) tsl \<and> sorted tsl \<and> distinct tsl \<and>
       set tsl = Collect (in_range {t. ts_key item t \<in> dom c} start stop))"

definition oldest_of :: "(string \<rightharpoonup> string) \<Rightarrow> string \<Rightarrow> string \<Rightarrow> bool" where
  "oldest_of c item old \<longleftrightarrow> (\<exists>t0. old = ts_key item t0 \<and> old \<in> dom c \<and> (\<forall>u. ts_key item u \<in> dom c \<longrightarrow> t0 \<le> u))"

text \<open>The answer to a query whose buckets had these values.\<close>

definition sum_answer :: "float_ops \<Rightarrow> (string \<times> string) list \<Rightarrow> string res" where
  "sum_answer F kvs = rk_answer F (map fst kvs) (\<lambda>k. the (map_of kvs k))"

lemma sum_answer_map: "sum_answer F (map (\<lambda>k. (k, V k)) ks) = rk_answer F ks V"
proof -
  have "map_of (map (\<lambda>k. (k, V k)) ks) k = Some (V k)" if "k \<in> set ks" for k using that by (simp add: map_of_map_restrict)
  then show ?thesis unfolding sum_answer_def by (simp add: o_def) (rule rk_answer_cong, simp)
qed

text \<open>
  A query is answered, at the next round, with the sum of the values its buckets had when it was asked.  A
  PUT removes the oldest bucket of its item at once or at the next round.
\<close>

inductive store_step :: "float_ops \<Rightarrow> ts_store \<Rightarrow> ts_store \<Rightarrow> bool" for F where
  s_get: "selects (content a) item start stop ks \<Longrightarrow> ks \<noteq> [] \<Longrightarrow> rid \<notin> dom (waiting a) \<Longrightarrow> q \<notin> dom (replies a) \<Longrightarrow>
    store_step F a (a\<lparr>waiting := (waiting a)(rid \<mapsto> (map (\<lambda>k. (k, the (content a k))) ks, q))\<rparr>)"
| s_put_now: "oldest_of (content a) item old \<Longrightarrow> k = ts_key item t \<Longrightarrow> k \<notin> dom (content a) \<Longrightarrow> q \<notin> dom (replies a) \<Longrightarrow>
    store_step F a (a\<lparr>content := ((content a)(old := None))(k \<mapsto> v), replies := (replies a)(q \<mapsto> v)\<rparr>)"
| s_put_later: "oldest_of (content a) item old \<Longrightarrow> k = ts_key item t \<Longrightarrow> k \<notin> dom (content a) \<Longrightarrow> q \<notin> dom (replies a) \<Longrightarrow>
    store_step F a (a\<lparr>content := (content a)(k \<mapsto> v), condemned := insert old (condemned a), replies := (replies a)(q \<mapsto> v)\<rparr>)"
| s_round: "\<forall>rid kvs q. waiting a rid = Some (kvs, q) \<longrightarrow> (\<exists>r. sum_answer F kvs = Inr r \<and> p q = Some r) \<Longrightarrow>
    \<forall>q. (\<forall>rid kvs. waiting a rid \<noteq> Some (kvs, q)) \<longrightarrow> p q = replies a q \<Longrightarrow>
    store_step F a (a\<lparr>content := content a |` (- condemned a), condemned := {}, waiting := Map.empty, replies := p\<rparr>)"

definition abs_waiting :: "(string \<Rightarrow> string) \<Rightarrow> running \<Rightarrow> int \<rightharpoonup> (string \<times> string) list \<times> nat" where
  "abs_waiting V r rid = (case um_find (request_map r) rid of Some (ks, Some q) \<Rightarrow> Some (map (\<lambda>k. (k, V k)) ks, q) | _ \<Rightarrow> None)"

definition abs_store :: "(string \<Rightarrow> string) \<Rightarrow> ('srv, 'ctx) env \<Rightarrow> ('srv \<Rightarrow> string \<Rightarrow> string option) \<Rightarrow> 'srv loop \<Rightarrow> ts_store" where
  "abs_store V e db st = (case st of (i, rid, batch, misses, s) \<Rightarrow>
     \<lparr>content = pval e db s, condemned = set (keys_to_be_deleted s), waiting = abs_waiting V (runningKeys s),
      replies = um_find (promises s)\<rparr>)"

lemma dom_pval:
  assumes "pinv K V e db s"
  shows "dom (pval e db s) = Collect (live s)"
  using pval_pinv [OF assms] by (auto simp: dom_def)

lemma abs_waiting_cong: "request_map r = request_map r' \<Longrightarrow> abs_waiting V r = abs_waiting V r'"
  by (simp add: abs_waiting_def fun_eq_iff)

lemma abs_waiting_Some:
  "abs_waiting V r rid = Some (kvs, q) \<longleftrightarrow> (\<exists>ks. um_find (request_map r) rid = Some (ks, Some q) \<and> kvs = map (\<lambda>k. (k, V k)) ks)"
  by (auto simp: abs_waiting_def split: option.splits)

lemma sys_invD:
  assumes "sys_inv K V e db T m cfg U g nf (i, rid, batch, misses, s)"
  shows "pinv K V e db s" "cinv 1 V batch s" "um_has (request_map (runningKeys s)) j \<Longrightarrow> j < rid"
  using assms by (auto simp: sys_inv_def)

text \<open>The simulation, step by step.\<close>

lemma refine_get:
  assumes "cfg_ok fuel cfg m U nf T" and "sys_inv K V e db T m cfg U g nf (i, rid, batch, misses, s)"
    and "i < cfg_R cfg" and "get_ok s m item start stop q" and "fits32 (rid + 1)" and "fits32 i"
    and "fill_batch (cfg_R cfg) [((query item start stop, ''''), q)] i rid (batch, misses, s) = Inr ([], st')"
  shows "store_step F (abs_store V e db (i, rid, batch, misses, s)) (abs_store V e db st') \<or>
    abs_store V e db st' = abs_store V e db (i, rid, batch, misses, s)"
proof -
  obtain tsl i' batch' misses' s' where
    run: "fill_batch (cfg_R cfg) [((query item start stop, ''''), q)] i rid (batch, misses, s) = Inr ([], i', rid + 1, batch', misses', s')"
    and inv: "sys_inv K V e db T m cfg U g nf (i', rid + 1, batch', misses', s')"
    and tsl: "set tsl = Collect (in_range {t. live s (ts_key item t)} start stop)" "sorted tsl" "distinct tsl"
    and rq: "\<forall>j. um_find (request_map (runningKeys s')) j = (if j = rid \<and> tsl \<noteq> [] then Some (map (ts_key item) tsl, Some q)
       else um_find (request_map (runningKeys s)) j)"
    and eq: "live s' = live s" "promises s' = promises s" "keys_to_be_deleted s' = keys_to_be_deleted s"
    by (rule serve_get [OF assms(2-6) cfg_fits(1) [OF assms(1)]])
  have st': "st' = (i', rid + 1, batch', misses', s')" using run assms(7) by simp
  note P = sys_invD [OF assms(2)] and P' = sys_invD [OF inv]
  have pv: "pval e db s' = pval e db s" using pval_pinv [OF P(1)] pval_pinv [OF P'(1)] eq(1) by (simp add: fun_eq_iff)
  have wt: "abs_waiting V (runningKeys s') = (if tsl \<noteq> [] then (abs_waiting V (runningKeys s))(rid \<mapsto> (map (\<lambda>k. (k, V k)) (map (ts_key item) tsl), q))
      else abs_waiting V (runningKeys s))"
    using rq by (auto simp: abs_waiting_def fun_eq_iff)
  show ?thesis
  proof (cases "tsl = []")
    case True
    then show ?thesis using wt pv eq by (simp add: abs_store_def st')
  next
    case False
    have n: "abs_waiting V (runningKeys s) rid = None" "\<not> um_has (promises s) q"
      using P(3) [of rid] assms(4) by (auto simp: abs_waiting_def um_has_def get_ok_def fresh_promise_def split: option.splits)
    have sel: "selects (pval e db s) item start stop (map (ts_key item) tsl)"
      using tsl dom_pval [OF P(1)] by (auto simp: selects_def)
    have vals: "map (\<lambda>k. (k, the (pval e db s k))) (map (ts_key item) tsl) = map (\<lambda>k. (k, V k)) (map (ts_key item) tsl)"
      using tsl(1) pval_pinv [OF P(1)] by (auto simp: in_range_def)
    let ?a = "abs_store V e db (i, rid, batch, misses, s)"
    have "store_step F ?a (?a\<lparr>waiting := (waiting ?a)(rid \<mapsto> (map (\<lambda>k. (k, the (content ?a k))) (map (ts_key item) tsl), q))\<rparr>)"
      by (rule s_get) (use n sel False in \<open>auto simp: abs_store_def um_has_def\<close>)
    then have "store_step F ?a (?a\<lparr>waiting := (abs_waiting V (runningKeys s))(rid \<mapsto> (map (\<lambda>k. (k, V k)) (map (ts_key item) tsl), q))\<rparr>)"
    proof -
      have "content ?a = pval e db s" "waiting ?a = abs_waiting V (runningKeys s)" by (simp_all add: abs_store_def)
      with \<open>store_step F ?a _\<close> show ?thesis by (simp only: vals)
    qed
    then show ?thesis using wt pv eq False by (simp add: abs_store_def st')
  qed
qed

lemma refine_put:
  assumes "cfg_ok fuel cfg m U nf T" and "sys_inv K V e db T m cfg U g nf (i, rid, batch, misses, s)"
    and "i < cfg_R cfg" and "put_ok K V s item t q" and "fits32 i" and "k = ts_key item t"
    and "fill_batch (cfg_R cfg) [((k, V k), q)] i rid (batch, misses, s) = Inr ([], st')"
  shows "store_step F (abs_store V e db (i, rid, batch, misses, s)) (abs_store V e db st')"
proof -
  obtain old batch' s' where
    run: "fill_batch (cfg_R cfg) [((k, V k), q)] i rid (batch, misses, s) = Inr ([], i + 1, rid, batch', misses, s')"
    and inv: "sys_inv K V e db T m cfg U g nf (i + 1, rid, batch', misses, s')"
    and ps: "promises s' = um_set q (V k) (promises s)" and rq: "request_map (runningKeys s') = request_map (runningKeys s)"
    and old: "\<exists>t0. old = ts_key item t0 \<and> live s old \<and> (\<forall>u. live s (ts_key item u) \<longrightarrow> t0 \<le> u)"
    and lv: "if cache_find (pcache s) old \<noteq> None
     then (\<forall>j. live s' j \<longleftrightarrow> j = k \<or> live s j \<and> j \<noteq> old) \<and> keys_to_be_deleted s' = keys_to_be_deleted s
     else (\<forall>j. live s' j \<longleftrightarrow> j = k \<or> live s j) \<and> keys_to_be_deleted s' = keys_to_be_deleted s @ [old]"
    by (rule serve_put [OF assms(2-5) cfg_fits(2,3) [OF assms(1)] assms(6)])
  have st': "st' = (i + 1, rid, batch', misses, s')" using run assms(7) by simp
  note P = sys_invD [OF assms(2)] and P' = sys_invD [OF inv]
  let ?a = "abs_store V e db (i, rid, batch, misses, s)"
  have o: "oldest_of (content ?a) item old" using old dom_pval [OF P(1)] by (simp add: oldest_of_def abs_store_def)
  have nk: "k \<notin> dom (content ?a)" "q \<notin> dom (replies ?a)"
    using assms(4,6) dom_pval [OF P(1)] by (auto simp: put_ok_def fresh_promise_def abs_store_def um_has_def)
  have pr: "um_find (promises s') = (um_find (promises s))(q \<mapsto> V k)" using ps by (simp add: fun_eq_iff)
  have pv: "pval e db s j = (if live s j then Some (V j) else None)" "pval e db s' j = (if live s' j then Some (V j) else None)" for j
    using pval_pinv [OF P(1)] pval_pinv [OF P'(1)] by simp_all
  show ?thesis
  proof (cases "cache_find (pcache s) old = None")
    case True
    then have "pval e db s' = (pval e db s)(k \<mapsto> V k)" "set (keys_to_be_deleted s') = insert old (set (keys_to_be_deleted s))"
      using lv pv by (auto simp: fun_eq_iff)
    then show ?thesis
      using s_put_later [OF o assms(6) nk, where v = "V k" and F = F] pr abs_waiting_cong [OF rq] by (simp add: abs_store_def st')
  next
    case False
    then have "pval e db s' = ((pval e db s)(old := None))(k \<mapsto> V k)" "keys_to_be_deleted s' = keys_to_be_deleted s"
      using lv pv by (auto simp: fun_eq_iff)
    then show ?thesis
      using s_put_now [OF o assms(6) nk, where v = "V k" and F = F] pr abs_waiting_cong [OF rq] by (simp add: abs_store_def st')
  qed
qed

lemma refine_round:
  assumes "env_ok e g db K T" and "cfg_ok fuel cfg m U nf T" and "sys_inv K V e db T m cfg U g nf (i, rid, batch, misses, s)"
    and "timeStamp s < T" and "answerable (e_float e) V (request_map (runningKeys s))"
    and "consumer_round fuel cfg e batch s = Inr (sk, w, s')"
  shows "store_step (e_float e) (abs_store V e db (i, rid, batch, misses, s)) (abs_store V e db (0, rid, [], 0, s'))"
proof -
  have r: "batch_post K V cfg e db s sk w s'" "answered (e_float e) V (request_map (runningKeys s)) (promises s) (promises s')"
    using sys_round [OF assms(1-5)] assms(6) by auto
  note P = sys_invD [OF assms(3)]
  have p: "pinv K V e db s'" "runningKeys s' = running_empty" "keys_to_be_deleted s' = []"
    "\<forall>k. live s' k \<longleftrightarrow> live s k \<and> k \<notin> set (keys_to_be_deleted s)"
    using r(1) by (auto simp: batch_post_def)
  let ?a = "abs_store V e db (i, rid, batch, misses, s)"
  have w: "waiting ?a j = Some (kvs, q) \<longleftrightarrow>
      (\<exists>ks. um_find (request_map (runningKeys s)) j = Some (ks, Some q) \<and> kvs = map (\<lambda>k. (k, V k)) ks)" for j kvs q
    by (simp add: abs_store_def abs_waiting_Some)
  have 1: "\<forall>j kvs q. waiting ?a j = Some (kvs, q) \<longrightarrow> (\<exists>r. sum_answer (e_float e) kvs = Inr r \<and> um_find (promises s') q = Some r)"
    unfolding w using r(2) by (auto simp: answered_def sum_answer_map)
  have 2: "\<forall>q. (\<forall>j kvs. waiting ?a j \<noteq> Some (kvs, q)) \<longrightarrow> um_find (promises s') q = replies ?a q"
  proof (intro allI impI)
    fix q assume "\<forall>j kvs. waiting ?a j \<noteq> Some (kvs, q)"
    then have "\<forall>j ks. um_find (request_map (runningKeys s)) j \<noteq> Some (ks, Some q)" unfolding w by blast
    then show "um_find (promises s') q = replies ?a q" using r(2) by (simp add: answered_def abs_store_def)
  qed
  have "pval e db s' = pval e db s |` (- set (keys_to_be_deleted s))"
    using pval_pinv [OF P(1)] pval_pinv [OF p(1)] p(4) by (auto simp: fun_eq_iff restrict_map_def)
  moreover have "abs_waiting V (runningKeys s') = Map.empty" by (simp add: p(2) running_empty_def abs_waiting_def fun_eq_iff)
  ultimately show ?thesis using s_round [OF 1 2] p(3) by (simp add: abs_store_def)
qed

lemma refine_clean:
  assumes "env_ok e g db K T" and "sys_inv K V e db T m cfg U g nf (i, rid, batch, misses, s)" and "clear_round e s = Inr s'"
  shows "abs_store V e db (i, rid, batch, misses, s') = abs_store V e db (i, rid, batch, misses, s)"
proof -
  note C = sys_clean [OF assms]
  have "pval e db s' = pval e db s"
    using pval_pinv [OF sys_invD(1) [OF assms(2)]] pval_pinv [OF sys_invD(1) [OF C(1)]] C(2) by (simp add: fun_eq_iff)
  then show ?thesis using C(3-5) by (simp add: abs_store_def)
qed

lemma store_refinement:
  assumes "env_ok e g db K T" and "cfg_ok fuel cfg m U nf T" and "sys_inv K V e db T m cfg U g nf st"
    and "proxy_step fuel cfg e K V m T st st'"
  shows "store_step (e_float e) (abs_store V e db st) (abs_store V e db st') \<or> abs_store V e db st' = abs_store V e db st"
  using assms(4)
proof cases
  case (take_get i s item start stop q rid batch misses)
  then show ?thesis using refine_get [OF assms(2) assms(3) [unfolded take_get(1)] take_get(2-6)] by simp
next
  case (take_put i s item t q rid batch misses)
  then show ?thesis using refine_put [OF assms(2) assms(3) [unfolded take_put(1)] take_put(2-4) refl take_put(5)] by simp
next
  case (round i s batch sk w s' rid misses)
  then show ?thesis using refine_round [OF assms(1,2) assms(3) [unfolded round(1)] round(4-6)] by simp
next
  case (clean s s' i rid batch misses)
  then show ?thesis using refine_clean [OF assms(1) assms(3) [unfolded clean(1)] clean(3)] by simp
qed

end
