(* ===== verification/Sample_Run.thy ===== *)
theory Sample_Run
  imports Proxy_Init Store_Refinement
begin

text \<open>
  A concrete deployment: two items with two buckets each, a cache of two entries, two fake keys, batches of
  three, a table as the storage server and a padding cipher.  It satisfies every hypothesis of the theorems
  about the proxy; their instances on it are the witnesses.
\<close>

definition sample_env :: "((string, string) umap, unit) env" where
  "sample_env = \<lparr>e_evp = pad_evp, e_redis = table_api, e_float = \<lparr>fl_add = (+), fl_to_string = (\<lambda>w. ''f'')\<rparr>,
     e_rand = (\<lambda>p. p), e_kv_order = (\<lambda>m. m), e_req_order = (\<lambda>ids. ids)\<rparr>"

definition sample_engine :: engine where
  "sample_engine = \<lparr>encryption_string = ''k'', iv_string = ''v''\<rparr>"

definition sample_cfg :: config where
  "sample_cfg = \<lparr>cfg_R = 1, cfg_B = 3, cfg_F = 1, cfg_D = 2, object_size = 2, cacheBatches = 50, redisBulkLength = 3\<rparr>"

definition sample_keys :: "string list" where
  "sample_keys = [''a@1'', ''a@2'', ''b@1'', ''b@2'']"

definition sample_values :: "string \<Rightarrow> string" where
  "sample_values k = (if k = ''a@1'' then ''1'' else if k = ''a@2'' then ''10'' else ''11'')"

definition sample_state :: "(string, string) umap proxy" where
  "sample_state = \<lparr>timeStamp = 0,
     realBst = \<lparr>accessFreqs = [(''a@1'', 0), (''a@2'', 0), (''b@1'', 0), (''b@2'', 0)],
       accessTree = [(''a@1'', 0), (''a@2'', 0), (''b@1'', 0), (''b@2'', 0)],
       uniqueItemWithTimeStamp = [(''a'', [1, 2]), (''b'', [1, 2])], needTimeStamp = True\<rparr>,
     fakeBst = \<lparr>accessFreqs = [(''fakeIJKLMNOPQRST'', 0), (''fakeabcdefghij'', 0)],
       accessTree = [(''fakeIJKLMNOPQRST'', 0), (''fakeabcdefghij'', 0)],
       uniqueItemWithTimeStamp = [], needTimeStamp = False\<rparr>,
     pcache = \<lparr>cacheMap = [(''b@2'', 0), (''a@1'', 1)],
       accessList = [(1, ''a@1'', ''1''), (0, ''b@2'', ''11'')], m_capacity = 20, next_node = 2\<rparr>,
     EvictedItems = \<lparr>ev_cacheMap = [], ev_capacity = 0\<rparr>,
     runningKeys = \<lparr>m_map = [], get_map = [], request_map = [], get_cache = []\<rparr>,
     keys_to_be_deleted = [], promises = [],
     storage = [[(''ka@2#0'', ''10#2p''), (''kb@1#0'', ''11#456p''), (''kfakeIJKLMNOPQRST#0'', ''UV#XYp''),
       (''kfakeabcdefghij#0'', ''kl#nopqrstup'')]],
     encryption_engine = \<lparr>encryption_string = ''k'', iv_string = ''v''\<rparr>, rand_pos = 71, keysNotUsed = []\<rparr>"

subsection \<open>The hypotheses hold\<close>

lemma sample_env_ok: "env_ok sample_env sample_engine um_find UNIV T"
proof -
  have "inj_on (eng_prf pad_evp sample_engine) X" for X
    by (rule inj_onI) (simp add: eng_prf_def prf_encrypt_def pad_evp_def)
  then show ?thesis
    by (simp add: env_ok_def sample_env_def pad_evp_lawful table_api_lawful)
qed

lemma sample_init_eq:
  "init 20 sample_cfg sample_env sample_keys (map sample_values sample_keys) (proxy_new [[]] sample_engine 0) = Inr sample_state"
proof -
  have "(init 20 sample_cfg sample_env sample_keys (map sample_values sample_keys) (proxy_new [[]] sample_engine 0) = Inr sample_state) = True"
    by code_simp
  then show ?thesis by simp
qed

lemma sample_stamps: "to_string 1 = ''1''" "to_string 2 = ''2''" "to_string 3 = ''3''"
proof -
  have "(to_string 1 = ''1'' \<and> to_string 2 = ''2'' \<and> to_string 3 = ''3'') = True" by code_simp
  then show "to_string 1 = ''1''" "to_string 2 = ''2''" "to_string 3 = ''3''" by simp_all
qed

lemma sample_keys_ok: "\<forall>k \<in> set sample_keys. canon k \<and> storable (sample_values k)" "distinct sample_keys"
proof -
  have "wf_item ''a''" "wf_item ''b''" "fits64 1" "fits64 2" by (simp_all add: wf_item_def fits64_def)
  then have "\<forall>k \<in> {ts_key ''a'' 1, ts_key ''a'' 2, ts_key ''b'' 1, ts_key ''b'' 2}. canon k" by simp
  moreover have "set sample_keys = {ts_key ''a'' 1, ts_key ''a'' 2, ts_key ''b'' 1, ts_key ''b'' 2}"
    by (simp add: sample_keys_def ts_key_def sample_stamps)
  ultimately have "\<forall>k \<in> set sample_keys. canon k" by blast
  moreover have "storable (sample_values k)" for k by (simp add: storable_def sample_values_def)
  ultimately show "\<forall>k \<in> set sample_keys. canon k \<and> storable (sample_values k)" by blast
  show "distinct sample_keys" by (simp add: sample_keys_def)
qed

lemma sample_cfg_ok: "cfg_ok 20 sample_cfg 2 2 2 100"
  by (simp add: cfg_ok_def sample_cfg_def int_max_def)

lemma sample_sizes:
  "sample_keys \<noteq> []" "object_size sample_cfg \<le> 4070" "100 \<le> cacheBatches sample_cfg * length sample_keys"
  "cacheBatches sample_cfg \<le> 100" "0 \<le> cfg_R sample_cfg" "length sample_keys - cacheBatches sample_cfg * length sample_keys div 100 = 2"
  "nat (cfg_D sample_cfg) = 2"
  by (simp_all add: sample_keys_def sample_cfg_def)

lemma sample_sys_inv:
  "sys_inv UNIV sample_values sample_env um_find 100 2 sample_cfg 2 sample_engine 2 (0, 0, [], 0, sample_state)"
  using init_sys_inv [OF sample_env_ok _ sample_keys_ok(2) sample_sizes(1) sample_keys_ok(1) _ sample_sizes(2) sample_init_eq
    sample_sizes(3,4) _ sample_sizes(5), of 100 2] by (simp add: sample_sizes)

subsection \<open>Steps from the sample state\<close>

text \<open>A query for both buckets of an item, one cached and one in storage.\<close>

definition sample_asked :: "(string, string) umap loop" where
  "sample_asked = (2, 1, [(''a@2'', '''')], 1, sample_state\<lparr>runningKeys :=
     \<lparr>m_map = [], get_map = [(''a@2'', [0])], request_map = [(0, [''a@1'', ''a@2''], Some 7)], get_cache = [(''a@1'', ''1'')]\<rparr>\<rparr>)"

lemma sample_asks:
  "fill_batch (cfg_R sample_cfg) [((query ''a'' 1 2, ''''), 7)] 0 0 ([], 0, sample_state) = Inr ([], sample_asked)"
proof -
  have "(fill_batch (cfg_R sample_cfg) [((query ''a'' 1 2, ''''), 7)] 0 0 ([], 0, sample_state) = Inr ([], sample_asked)) = True"
    by code_simp
  then show ?thesis by simp
qed

lemma sample_live: "live sample_state k \<longleftrightarrow> k \<in> {ts_key ''a'' 1, ts_key ''a'' 2, ts_key ''b'' 1, ts_key ''b'' 2}"
  by (simp add: live_def sample_state_def um_has_keys ts_key_def sample_stamps)

lemma sample_fresh: "fresh_promise sample_state q"
  by (simp add: fresh_promise_def sample_state_def)

lemma sample_get_ok: "get_ok sample_state 2 ''a'' 1 2 7"
proof -
  have eq: "{t. live sample_state (ts_key ''a'' t)} = {1, 2}" by (auto simp: sample_live)
  have "Collect (in_range {1, 2} 1 2) = {1, 2}" by (auto simp: in_range_def)
  then have "card (Collect (in_range {1, 2} 1 2)) \<le> 2" by simp
  moreover have "wf_item ''a''" "fits64 1" "fits64 2" by (simp_all add: wf_item_def fits64_def)
  ultimately show ?thesis unfolding get_ok_def eq using sample_fresh by blast
qed

lemma sample_put_ok: "put_ok UNIV sample_values sample_state ''a'' 3 8"
proof -
  have "canon (ts_key ''a'' 3)" by (simp add: wf_item_def fits64_def)
  moreover have "\<not> live sample_state (ts_key ''a'' 3)" "live sample_state (ts_key ''a'' 1)" by (simp_all add: sample_live)
  moreover have "sample_values (ts_key ''a'' 3) = ''11''" by (simp add: sample_values_def ts_key_def sample_stamps)
  moreover have "storable ''11''" by (simp add: storable_def)
  ultimately show ?thesis unfolding put_ok_def using sample_fresh by auto
qed

lemma sample_get_step: "proxy_step 20 sample_cfg sample_env UNIV sample_values 2 100 (0, 0, [], 0, sample_state) sample_asked"
  by (rule take_get [OF _ sample_get_ok _ _ sample_asks]) (simp_all add: sample_cfg_def fits32_def int_min_def int_max_def)

lemma sample_asked_inv: "sys_inv UNIV sample_values sample_env um_find 100 2 sample_cfg 2 sample_engine 2 sample_asked"
  by (rule sys_inv_step [OF sample_env_ok sample_cfg_ok sample_get_step sample_sys_inv])

text \<open>The query is answerable: the two boolean buckets hold three ones.\<close>

lemma sample_answerable: "answerable (e_float sample_env) sample_values [(0, [''a@1'', ''a@2''], Some 7)]"
proof -
  have "answerable (e_float sample_env) sample_values [(0, [''a@1'', ''a@2''], Some 7)] = True" by code_simp
  then show ?thesis by simp
qed

lemma sample_batch_size: "nat (cfg_B sample_cfg) = 3"
  by (simp add: sample_cfg_def)

lemma sample_round:
  obtains sk w s' ids where "consumer_round 20 sample_cfg sample_env [(''a@2'', '''')] (snd (snd (snd (snd sample_asked)))) = Inr (sk, w, s')"
    "um_find (promises s') 7 = Some ''3''" "keysNotUsed s' = [ids]"
proof -
  have "(case consumer_round 20 sample_cfg sample_env [(''a@2'', '''')] (snd (snd (snd (snd sample_asked)))) of
    Inl _ \<Rightarrow> False | Inr (sk, w, s') \<Rightarrow> um_find (promises s') 7 = Some ''3'' \<and> length (keysNotUsed s') = 1) = True" by code_simp
  then show ?thesis using that by (auto simp: length_Suc_conv split: sum.splits)
qed

lemma sample_asked_facts:
  assumes "s = snd (snd (snd (snd sample_asked)))"
  shows "sample_asked = (2, 1, [(''a@2'', '''')], 1, s)" "timeStamp s < 100"
    "answerable (e_float sample_env) sample_values (request_map (runningKeys s))"
  using sample_answerable by (simp_all add: assms sample_asked_def sample_state_def)

end
