(* ===== verification/Proxy_Service.thy ===== *)
theory Proxy_Service
  imports Proxy_Clients Sample_Run
begin

text \<open>
  The service as a whole: a client's GET travels over the connection to the handler, enters the
  operation queue, is answered by a round of the consumer thread against the storage server and
  travels back.
\<close>

subsection \<open>The consumer thread on its queue\<close>

text \<open>
  One pass of \<open>consumer_thread\<close> (\<open>waffle_proxy.cpp\<close>): the operations of queue \<open>k\<close> are popped until the
  batch is full, then the batch is executed.  When the queue runs dry first the thread goes on
  polling.  The result is the next request number.
\<close>

definition popped :: "'a list \<Rightarrow> 'a wqueue \<Rightarrow> 'a wqueue" where
  "popped rest q = q\<lparr>m_queue := rest, m_size := wrap32 (m_size q - int (length (m_queue q) - length rest))\<rparr>"

definition consumer_pass ::
  "nat \<Rightarrow> config \<Rightarrow> ('srv, 'ctx) env \<Rightarrow> nat \<Rightarrow> int \<Rightarrow> (('srv, 'm) front, int) io" where
  "consumer_pass fuel cfg e k rid = (\<lambda>f.
     case fill_batch (cfg_R cfg) (m_queue (operation_queues f ! k)) 0 rid ([], 0, fr_proxy f) of
       Inl err \<Rightarrow> (Inl err, f)
     | Inr (rest, i, rid', batch, misses, s) \<Rightarrow>
         (let f1 = f\<lparr>fr_proxy := s, operation_queues := (operation_queues f)[k := popped rest (operation_queues f ! k)]\<rparr> in
          if i < cfg_R cfg then (Inl Blocked, f1)
          else case consumer_round fuel cfg e batch s of
                 Inl err \<Rightarrow> (Inl err, f1)
               | Inr (sk, w, s') \<Rightarrow> (Inr rid', f1\<lparr>fr_proxy := s'\<rparr>)))"

definition one_pass :: "nat \<Rightarrow> config \<Rightarrow> ('srv, 'ctx) env \<Rightarrow> nat \<Rightarrow> int \<Rightarrow> (('srv, 'm) front, unit) io" where
  "one_pass fuel cfg e k rid = bindIO (consumer_pass fuel cfg e k rid) (\<lambda>_. returnIO ())"

lemma um_single:
  assumes "um_ok rm" and "\<And>j. um_find rm j = (if j = i then Some x else None)"
  shows "rm = [(i, x)]"
proof -
  have "(k, v) \<in> set rm \<longleftrightarrow> k = i \<and> v = x" for k v
    using um_find_in [OF assms(1), of k v] assms(2) [of k] by (cases "k = i") auto
  then have "set rm = {(i, x)}" by auto
  moreover have "distinct rm" using assms(1) by (simp add: um_ok_def distinct_map)
  ultimately have "length rm = 1" using distinct_card [of rm] by simp
  then obtain y where "rm = [y]" by (cases rm) auto
  then show ?thesis using \<open>set rm = {(i, x)}\<close> by simp
qed

subsection \<open>A GET through the front end\<close>

text \<open>
  The proxy is between two batches, the one operation queue is empty and the query selects at least
  \<open>R\<close> buckets, so it fills a batch by itself.
\<close>

definition quiet :: "('srv, 'm) front \<Rightarrow> bool" where
  "quiet f \<longleftrightarrow> length (operation_queues f) = 1 \<and> m_queue (operation_queues f ! 0) = [] \<and>
     request_map (runningKeys (fr_proxy f)) = []"

lemma front_get_answer:
  assumes "env_ok e g db K T" and "cfg_ok fuel cfg m U nf T" and "sys_inv K V e db T m cfg U g nf (0, rid, [], 0, fr_proxy f)"
    and "quiet f" and "timeStamp (fr_proxy f) < T" and "fits32 (rid + 1)"
    and "get_ok (fr_proxy f) m item start stop (next_promise f)"
    and "ts = sorted_list_of_set (Collect (in_range {t. live (fr_proxy f) (ts_key item t)} start stop))"
    and "rk_answer (e_float e) (map (ts_key item) ts) V = Inr a" and "0 < cfg_R cfg" and "cfg_R cfg \<le> int (length ts)"
  shows "\<exists>f'. waffle_proxy_get (one_pass fuel cfg e 0 rid) q (query item start stop) f = (Inr a, f') \<and> quiet f' \<and>
    sys_inv K V e db T m cfg U g nf (0, rid + 1, [], 0, fr_proxy f')"
proof -
  let ?s = "fr_proxy f" and ?w = "next_promise f"
  have qf: "length (operation_queues f) = 1" "m_queue (operation_queues f ! 0) = []" "request_map (runningKeys ?s) = []"
    using assms(4) by (simp_all add: quiet_def)
  let ?f1 = "f\<lparr>next_promise := Suc ?w,
    operation_queues := (operation_queues f)[0 := queue_push ((query item start stop, ''''), ?w) (operation_queues f ! 0)]\<rparr>"
  have ix: "queue_index q (length (operation_queues f)) = 0" using qf(1) by (simp add: queue_index_def)
  have ne: "operation_queues f \<noteq> []" using qf(1) by auto
  have fu: "get_future q (query item start stop) f = (Inr ?w, ?f1)"
    using ix ne by (simp add: get_future_def enqueue_def Let_def)
  have m1: "m_queue (operation_queues ?f1 ! 0) = [((query item start stop, ''''), ?w)]"
    using qf by (simp add: queue_push_def)
  have fits: "fits32 0" "fits32 (cfg_R cfg + int m)" using cfg_fits [OF assms(2)] by simp_all
  obtain tsl i' batch' misses' s' where sg:
    "fill_batch (cfg_R cfg) [((query item start stop, ''''), ?w)] 0 rid ([], 0, ?s) = Inr ([], i', rid + 1, batch', misses', s')"
    "sys_inv K V e db T m cfg U g nf (i', rid + 1, batch', misses', s')"
    "set tsl = Collect (in_range {t. live ?s (ts_key item t)} start stop)" "sorted tsl" "distinct tsl"
    "\<forall>j. um_find (request_map (runningKeys s')) j = (if j = rid \<and> tsl \<noteq> [] then Some (map (ts_key item) tsl, Some ?w)
       else um_find (request_map (runningKeys ?s)) j)"
    "live s' = live ?s" "promises s' = promises ?s" "keys_to_be_deleted s' = keys_to_be_deleted ?s" "aged ?s s'"
    "i' = 0 + int (length tsl)" "timeStamp s' = timeStamp ?s"
    by (rule serve_get_count [OF assms(3,10,7,6) fits])
  have tsl: "tsl = ts" using sorted_list_of_set.idem_if_sorted_distinct [OF sg(4,5)] sg(3) assms(8) by simp
  then have full: "\<not> i' < cfg_R cfg" "ts \<noteq> []" using sg(11) assms(10,11) by auto
  have rm: "request_map (runningKeys s') = [(rid, map (ts_key item) ts, Some ?w)]"
  proof (rule um_single)
    show "um_ok (request_map (runningKeys s'))"
      using sg(2) by (auto simp: sys_inv_def cinv_def rk_wf_def)
    show "um_find (request_map (runningKeys s')) j = (if j = rid then Some (map (ts_key item) ts, Some ?w) else None)" for j
      using sg(6) full(2) tsl qf(3) by simp
  qed
  have "answerable (e_float e) V (request_map (runningKeys s'))" by (simp add: rm answerable_def assms(9))
  moreover have "timeStamp s' < T" using sg(12) assms(5) by simp
  ultimately obtain sk w s2 where r: "consumer_round fuel cfg e batch' s' = Inr (sk, w, s2)" "batch_post K V cfg e db s' sk w s2"
    "answered (e_float e) V (request_map (runningKeys s')) (promises s') (promises s2)"
    "sys_inv K V e db T m cfg U g nf (0, rid + 1, [], 0, s2)"
    using sys_round [OF assms(1,2) sg(2)] by blast
  have prom: "um_find (promises s2) ?w = Some a" 
  proof -
    have "um_find (request_map (runningKeys s')) rid = Some (map (ts_key item) ts, Some ?w)"
      by (simp add: rm um_find_def)
    then obtain a' where "rk_answer (e_float e) (map (ts_key item) ts) V = Inr a'" "um_find (promises s2) ?w = Some a'"
      using r(3) unfolding answered_def by blast
    with assms(9) show ?thesis by simp
  qed
  let ?q = "queue_push ((query item start stop, ''''), ?w) (operation_queues f ! 0)"
  let ?f2 = "?f1\<lparr>fr_proxy := s2, operation_queues := (operation_queues f)[0 := popped [] ?q]\<rparr>"
  have cp: "consumer_pass fuel cfg e 0 rid ?f1 = (Inr (rid + 1), ?f2)"
    unfolding consumer_pass_def m1 using sg(1) full(1) r(1) qf(1) by (simp add: Let_def)
  then have op: "one_pass fuel cfg e 0 rid ?f1 = (Inr (), ?f2)" by (simp add: one_pass_def bindIO_ok returnIO_def)
  have "waffle_proxy_get (one_pass fuel cfg e 0 rid) q (query item start stop) f = (Inr a, ?f2)"
    unfolding waffle_proxy_get_def using fu op prom by (simp add: bindIO_def future_get_def)
  moreover have "quiet ?f2" using qf r(2) by (simp add: quiet_def popped_def batch_post_def running_empty_def)
  ultimately show ?thesis using r(4) by (intro exI [of _ ?f2]) simp
qed

subsection \<open>A GET of a remote client\<close>

lemma handler_get_answer:
  assumes "waffle_proxy_get others (operation_count h) key (h_front h) = (Inr a, f')" and "fits32 (operation_count h + 1)"
  shows "handler_get others key h = (Inr a, h\<lparr>operation_count := operation_count h + 1, h_front := f'\<rparr>)"
  using assms by (simp add: handler_get_def next_operation_def add32_def bindIO_def on_front_def)

lemma remote_get:
  assumes "thrift_protocol P C" and "1 < n" and "str_ok key" and "str_ok a" and "fits32 (operation_count (lk_iface l) + 1)"
    and "C (lk_up l) []" and "C (lk_down l) []"
    and "waffle_proxy_get others (operation_count (lk_iface l)) key (h_front (lk_iface l)) = (Inr a, f')"
  shows "\<exists>l'. proxy_client_get P n (served_by what P n (handler_iface others ord T)) key l = (Inr a, l') \<and>
    C (lk_up l') [] \<and> C (lk_down l') [] \<and> h_front (lk_iface l') = f' \<and>
    operation_count (lk_iface l') = operation_count (lk_iface l) + 1"
proof -
  let ?h = "lk_iface l" and ?F = "handler_iface others ord T"
  have "If_get ?F key ?h = (Inr a, ?h\<lparr>operation_count := operation_count ?h + 1, h_front := f'\<rparr>)"
    using handler_get_answer [OF assms(8,5)] by (simp add: handler_iface_def)
  from thrift_protocol.get_returns [OF assms(1,2,3) this assms(4), of what "[]"]
  obtain l' where "waffle_thriftClient_get P n (served_by what P n ?F) [] key l = (Inr a, l')"
    "C (lk_up l') []" "C (lk_down l') []"
    "lk_iface l' = ?h\<lparr>operation_count := operation_count ?h + 1, h_front := f'\<rparr>"
    by (rule movesE) (use assms(6,7) in simp_all)
  then show ?thesis by (simp add: proxy_client_get_def)
qed

subsection \<open>A sample service\<close>

definition sample_front :: "((string, string) umap, (int, string) umap) front" where
  "sample_front = \<lparr>fr_proxy = sample_state, operation_queues = [queue_new], respond_queue = queue_new,
     sequence_queue = queue_new, next_promise = 7, id_to_client = [], finished = False\<rparr>"

definition sample_link :: "(string, ((string, string) umap, (int, string) umap, string) handler) link" where
  "sample_link = \<lparr>lk_up = [], lk_down = [], lk_iface = thrift_handler sample_front 0 []\<rparr>"

lemma sample_quiet: "quiet sample_front"
  by (simp add: quiet_def sample_front_def queue_new_def sample_state_def running_empty_def)

lemma sample_range:
  "sorted_list_of_set (Collect (in_range {t. live sample_state (ts_key ''a'' t)} 1 2)) = [1, 2]"
proof -
  have "{t. live sample_state (ts_key ''a'' t)} = {1, 2}" by (auto simp: sample_live)
  moreover have "Collect (in_range {1, 2} 1 2) = {1, 2 :: int}" by (auto simp: in_range_def)
  ultimately have "Collect (in_range {t. live sample_state (ts_key ''a'' t)} 1 2) = set [1, 2]" by simp
  then show ?thesis using sorted_list_of_set.idem_if_sorted_distinct [of "[1, 2 :: int]"] by simp
qed

lemma sample_answer: "rk_answer (e_float sample_env) (map (ts_key ''a'') [1, 2]) sample_values = Inr ''3''"
proof -
  have "(rk_answer (e_float sample_env) [''a@1'', ''a@2''] sample_values = Inr ''3'') = True" by code_simp
  then show ?thesis by (simp add: ts_key_def sample_stamps)
qed

end
