(* ===== verification/Service_Claims.thy ===== *)
theory Service_Claims
  imports Proxy_Service
begin

text \<open>
  Properties of the remote interface: the generated data classes and the calls.  They hold for every
  protocol that meets the contract \<open>thrift_protocol\<close>; the witnesses use the binary protocol of
  \<open>Thrift_Binary\<close>.
\<close>

lemmas binary_ok = bin.thrift_protocol_axioms

lemma small_ok:
  "str_ok ''a''" "str_ok ''b''" "strs_ok [''a'']" "strs_ok [''a'', ''b'']" "strs_ok []"
  "sequence_id_ok \<lparr>client_id = 4, client_seq_no = 5, server_seq_no = 0\<rparr>"
  by (simp_all add: str_ok_def strs_ok_def sequence_id_ok_def fits64_def)

lemma buffered_empty: "buffered [] []"
  by (simp add: buffered_def)

section \<open>Data on the wire\<close>

text \<open>
  C33.  The argument class with the most fields survives the wire: what \<open>write\<close> emits (whatever the
  \<open>__isset\<close> bits of the writer are) is read back by \<open>read\<close>, into an object that \<open>operator==\<close> finds equal and
  whose \<open>__isset\<close> bits are all set, and nothing is left over.
\<close>

theorem async_put_batch_args_roundtrip:
  assumes "thrift_protocol P C" and "sequence_id_ok (async_put_batch_args_seq_id a)"
    and "strs_ok (async_put_batch_args_keys a)" and "strs_ok (async_put_batch_args_values a)"
    and "3 < n" and "C p []"
  shows "\<exists>p' b p''. waffle_thrift_async_put_batch_args_write P a p = (Inr (), p') \<and>
    waffle_thrift_async_put_batch_args_read P n waffle_thrift_async_put_batch_args_init p' = (Inr b, p'') \<and>
    waffle_thrift_async_put_batch_args_eq a b \<and> async_put_batch_args_isset_seq_id b \<and>
    async_put_batch_args_isset_keys b \<and> async_put_batch_args_isset_values b \<and> C p'' []"
proof -
  obtain p' where p': "waffle_thrift_async_put_batch_args_write P a p = (Inr (), p')"
    "C p' (async_put_batch_args_toks (async_put_batch_args_seq_id a) (async_put_batch_args_keys a) (async_put_batch_args_values a) @ [])"
    using emitsD [OF thrift_protocol.waffle_thrift_async_put_batch_args_writes [OF assms(1-4)] assms(6)] by auto
  from readsD [OF thrift_protocol.waffle_thrift_async_put_batch_args_reads [OF assms(1,5)] p'(2)]
  show ?thesis using p'(1) by (fastforce simp: waffle_thrift_async_put_batch_args_eq_def)
qed

theorem async_put_batch_args_roundtrip_witness:
  "\<exists>p' b p''. waffle_thrift_async_put_batch_args_write binary_protocol
      (waffle_thrift_async_put_batch_args_init\<lparr>async_put_batch_args_keys := [''a'']\<rparr>) [] = (Inr (), p') \<and>
    waffle_thrift_async_put_batch_args_read binary_protocol 4 waffle_thrift_async_put_batch_args_init p' = (Inr b, p'') \<and>
    async_put_batch_args_keys b = [''a''] \<and> p'' = []"
proof -
  have "sequence_id_ok sequence_id_init" by (simp add: sequence_id_ok_def sequence_id_init_def fits64_def)
  then show ?thesis
    using async_put_batch_args_roundtrip [OF binary_ok, of "waffle_thrift_async_put_batch_args_init\<lparr>async_put_batch_args_keys := [''a'']\<rparr>" 4 "[]"]
      small_ok buffered_empty
    by (fastforce simp: waffle_thrift_async_put_batch_args_init_def waffle_thrift_async_put_batch_args_eq_def buffered_def)
qed

text \<open>
  A reader is not confused by a newer peer: fields it does not know, of any type and anywhere in the
  struct, are skipped, and the known field is read as if they were not there.
\<close>

theorem unknown_fields_skipped:
  assumes "thrift_protocol P C"
    and "\<forall>(t, i, v) \<in> set (xs @ ys). i \<noteq> 1 \<and> t \<noteq> T_STOP \<and> tval t v \<and> list_all tok_ok v"
    and "length xs + length ys + 1 < n" and "C p (struct_toks (xs @ [(T_STRING, 1, [K_str key])] @ ys))"
  shows "\<exists>p'. waffle_thrift_get_args_read P n a p =
    (Inr (a\<lparr>get_args_key := key, get_args_isset_key := True\<rparr>), p') \<and> C p' []"
proof -
  let ?cs = "[(1 :: int, read_case P T_STRING (readString P) (\<lambda>v a. a\<lparr>get_args_key := v, get_args_isset_key := True\<rparr>))]"
  let ?b = "a\<lparr>get_args_key := key, get_args_isset_key := True\<rparr>"
  have one: "fields_read P C ?cs a [(T_STRING, 1, [K_str key])] ?b"
    by (rule thrift_protocol.fr_value [OF assms(1) _ _ thrift_protocol.r_string [OF assms(1)]])
      (simp, simp, rule thrift_protocol.fr_done [OF assms(1)], simp)
  have u: "fields_read P C ?cs r zs r" if "set zs \<subseteq> set (xs @ ys)" for r zs
    by (rule thrift_protocol.fields_read_unknown [OF assms(1)]) (use assms(2) that in fastforce)
  have "fields_read P C ?cs a (xs @ [(T_STRING, 1, [K_str key])] @ ys) ?b"
    by (intro thrift_protocol.fields_read_append [OF assms(1)]) (auto intro: one u)
  from thrift_protocol.reads_struct_fields [OF assms(1) this] assms(3)
  have "reads C (waffle_thrift_get_args_read P n a) (struct_toks (xs @ [(T_STRING, 1, [K_str key])] @ ys)) (\<lambda>x. x = ?b)"
    by (simp add: waffle_thrift_get_args_read_def)
  from readsD [OF this, of p "[]"] show ?thesis using assms(4) by auto
qed

theorem unknown_fields_skipped_witness:
  "\<exists>p'. waffle_thrift_get_args_read binary_protocol 4 waffle_thrift_get_args_init
      (concat (map wire (struct_toks [(T_I64, 9, [K_i64 3]), (T_STRING, 1, [K_str ''a''])]))) =
    (Inr \<lparr>get_args_key = ''a'', get_args_isset_key = True\<rparr>, p') \<and> p' = []"
proof -
  have b: "buffered (concat (map wire (struct_toks ([(T_I64, 9, [K_i64 3])] @ [(T_STRING, 1, [K_str ''a''])] @ []))))
      (struct_toks ([(T_I64, 9, [K_i64 3])] @ [(T_STRING, 1, [K_str ''a''])] @ []))"
    by (simp add: buffered_def struct_toks_def fits64_def)
  have k: "\<forall>(t, i, v) \<in> set ([(T_I64, 9 :: int, [K_i64 3])] @ []). i \<noteq> 1 \<and> t \<noteq> T_STOP \<and> tval t v \<and> list_all tok_ok v"
    by (simp add: tval_tfields.intros fits64_def)
  from unknown_fields_skipped [OF binary_ok k _ b, of 4 waffle_thrift_get_args_init] show ?thesis
    by (auto simp: waffle_thrift_get_args_init_def buffered_def)
qed

text \<open>
  A sequence identifier that lacks one of its three fields, in whatever order and however often the
  others come, is refused with \<open>INVALID_DATA\<close>; the malformed struct has then been taken off the stream.
\<close>

theorem incomplete_sequence_id_refused:
  assumes "thrift_protocol P C" and "\<forall>(i, x) \<in> set ixs. i \<in> {1, 2, 3}" and "\<not> {1, 2, 3} \<subseteq> fst ` set ixs" and "length ixs < n"
    and "C p (struct_toks (map (\<lambda>(i, x). (T_I64, i, [K_i64 x])) ixs) @ rest)"
  shows "\<exists>p'. sequence_id_read P n s0 p = (Inl (Protocol_error INVALID_DATA), p') \<and> C p' rest"
  using thrift_protocol.sequence_id_incomplete [OF assms(1-4)] assms(5) unfolding raises_def by blast

theorem incomplete_sequence_id_refused_witness:
  "\<exists>p'. sequence_id_read binary_protocol 4 sequence_id_init
      (concat (map wire (struct_toks [(T_I64, 1, [K_i64 7]), (T_I64, 2, [K_i64 8])]))) =
    (Inl (Protocol_error INVALID_DATA), p') \<and> p' = []"
proof -
  have b: "buffered (concat (map wire (struct_toks [(T_I64, 1, [K_i64 7]), (T_I64, 2, [K_i64 8])])))
      (struct_toks (map (\<lambda>(i, x). (T_I64, i, [K_i64 x])) [(1, 7), (2, 8)]) @ [])"
    by (simp add: buffered_def struct_toks_def fits64_def)
  have "\<forall>(i, x) \<in> set [(1 :: int, 7 :: int), (2, 8)]. i \<in> {1, 2, 3}"
    "\<not> {1, 2, 3} \<subseteq> fst ` set [(1 :: int, 7 :: int), (2, 8)]" by simp_all
  from incomplete_sequence_id_refused [OF binary_ok this _ b, of 4 sequence_id_init] show ?thesis
    by (simp add: buffered_def)
qed

section \<open>Calls\<close>

text \<open>
  A remote GET batch returns exactly what the handler returned for the keys the caller passed; the
  handler ran once, and both directions of the connection are empty afterwards.
\<close>

theorem remote_get_batch:
  assumes "thrift_protocol P C" and "1 < n" and "strs_ok keys" and "strs_ok vs"
    and "If_get_batch F keys (lk_iface l) = (Inr vs, h')" and "C (lk_up l) []" and "C (lk_down l) []"
  shows "\<exists>l'. waffle_thriftClient_get_batch P n (served_by what P n F) r0 keys l = (Inr vs, l') \<and>
    lk_iface l' = h' \<and> C (lk_up l') [] \<and> C (lk_down l') []"
  by (rule movesE [OF thrift_protocol.get_batch_returns [OF assms(1-3,5,4)] assms(6,7) refl]) blast

theorem remote_get_batch_witness:
  "\<exists>l'. waffle_thriftClient_get_batch binary_protocol 4
      (served_by (\<lambda>_. []) binary_protocol 4 (waffle_thriftNull\<lparr>If_get_batch := \<lambda>keys h. (Inr keys, h + length keys)\<rparr>)) [] [''a'', ''b'']
      \<lparr>lk_up = [], lk_down = [], lk_iface = 0\<rparr> = (Inr [''a'', ''b''], l') \<and> lk_iface l' = 2"
proof -
  let ?F = "waffle_thriftNull\<lparr>If_get_batch := \<lambda>keys h. (Inr keys, h + length keys)\<rparr>"
  let ?l = "\<lparr>lk_up = [], lk_down = [], lk_iface = 0 :: nat\<rparr>"
  have "If_get_batch ?F [''a'', ''b''] (lk_iface ?l) = (Inr [''a'', ''b''], 2)" by simp
  from remote_get_batch [OF binary_ok _ small_ok(4,4) this, of 4] buffered_empty show ?thesis by auto
qed

text \<open>
  C32.  When the handler throws, the caller of a remote search gets an application exception with the text of
  the handler's exception; the connection stays in step, so the next call works.
\<close>

theorem remote_search_throws:
  assumes "thrift_protocol P C" and "1 < n" and "str_ok pattern" and "If_search F pattern (lk_iface l) = (Inl e, h')"
    and "is_std_exception e" and "str_ok (what e)" and "C (lk_up l) []" and "C (lk_down l) []"
  shows "\<exists>l'. waffle_thriftClient_search P n (served_by what P n F) r0 pattern l =
      (Inl (Application_error UNKNOWN_EXCEPTION (what e)), l') \<and>
    lk_iface l' = h' \<and> C (lk_up l') [] \<and> C (lk_down l') []"
  by (rule movesE [OF thrift_protocol.search_throws [OF assms(1-5), of what, OF assms(6)] assms(7,8) refl]) blast

theorem remote_search_throws_witness:
  "\<exists>l'. waffle_thriftClient_search binary_protocol 4
      (served_by (\<lambda>_. ''a'') binary_protocol 4 (waffle_thriftNull\<lparr>If_search := \<lambda>_. throwIO Out_of_range\<rparr>)) [] ''b''
      \<lparr>lk_up = [], lk_down = [], lk_iface = ()\<rparr> = (Inl (Application_error 0 ''a''), l')"
proof -
  let ?F = "waffle_thriftNull\<lparr>If_search := \<lambda>_. throwIO Out_of_range\<rparr>" and ?l = "\<lparr>lk_up = [], lk_down = [], lk_iface = ()\<rparr>"
  have "If_search ?F ''b'' (lk_iface ?l) = (Inl Out_of_range, ())" by (simp add: throwIO_def)
  from remote_search_throws [OF binary_ok _ small_ok(2) this, of 4 "\<lambda>_. ''a''"] buffered_empty small_ok(1)
  show ?thesis by (auto simp: UNKNOWN_EXCEPTION_def)
qed

text \<open>
  A one-way GET batch returns at once, nothing is sent back, and the handler has run once with the
  caller's sequence identifier and keys when the server has taken the message, even if it threw.
\<close>

theorem oneway_get_batch:
  assumes "thrift_protocol P C" and "3 < n" and "sequence_id_ok sq" and "strs_ok keys"
    and "If_async_get_batch F sq keys (lk_iface l) = (r, h')" and "case r of Inl e \<Rightarrow> is_std_exception e | Inr _ \<Rightarrow> True"
    and "C (lk_up l) []" and "C (lk_down l) b"
  shows "\<exists>l1 l'. waffle_thriftClient_async_get_batch P sq keys l = (Inr (), l1) \<and> lk_iface l1 = lk_iface l \<and>
    served_by what P n F l1 = (Inr (), l') \<and> lk_iface l' = h' \<and> C (lk_up l') [] \<and> C (lk_down l') b"
proof -
  obtain l' where l': "bindIO (waffle_thriftClient_async_get_batch P sq keys) (\<lambda>_. served_by what P n F) l = (Inr (), l')"
    "C (lk_up l') []" "C (lk_down l') b" "lk_iface l' = h'"
    by (rule movesE [OF thrift_protocol.async_get_batch_delivered [OF assms(1-6)] assms(7,8) refl])
  have "moves C (on_up (waffle_thriftClient_send_async_get_batch P sq keys)) [] b (lk_iface l) (Inr ())
      ([] @ K_msg ''async_get_batch'' T_ONEWAY 0 # async_get_batch_args_toks sq keys) b (lk_iface l)"
    by (rule up_writes, rule thrift_protocol.send_async_get_batch_writes [OF assms(1,3,4)])
  then obtain l1 where "waffle_thriftClient_async_get_batch P sq keys l = (Inr (), l1)" "lk_iface l1 = lk_iface l"
    unfolding waffle_thriftClient_async_get_batch_def by (rule movesE [OF _ assms(7,8) refl])
  then show ?thesis using l' by (simp add: bindIO_ok)
qed

theorem oneway_get_batch_witness:
  "\<exists>l1 l'. waffle_thriftClient_async_get_batch binary_protocol \<lparr>client_id = 4, client_seq_no = 5, server_seq_no = 0\<rparr> [''a'']
      \<lparr>lk_up = [], lk_down = [], lk_iface = []\<rparr> = (Inr (), l1) \<and>
    served_by (\<lambda>_. []) binary_protocol 4 (waffle_thriftNull\<lparr>If_async_get_batch := \<lambda>sq keys h. (Inr (), keys)\<rparr>) l1 = (Inr (), l') \<and>
    lk_iface l' = [''a'']"
proof -
  let ?F = "waffle_thriftNull\<lparr>If_async_get_batch := \<lambda>sq keys h. (Inr (), keys)\<rparr>"
  let ?l = "\<lparr>lk_up = [], lk_down = [], lk_iface = [] :: string list\<rparr>"
  have "If_async_get_batch ?F \<lparr>client_id = 4, client_seq_no = 5, server_seq_no = 0\<rparr> [''a''] (lk_iface ?l) = (Inr (), [''a''])" by simp
  from oneway_get_batch [OF binary_ok _ small_ok(6,3) this, of 4 "[]"] buffered_empty show ?thesis by fastforce
qed

text \<open>
  A call of a method the processor does not know is skipped as a whole and answered with
  \<open>UNKNOWN_METHOD\<close>, which every \<open>recv_\<close> function turns into an exception; the handler is not touched.
\<close>

theorem unknown_method_answered:
  assumes "thrift_protocol P C" and "um_find (waffle_thriftProcessor what P n F) nm = None"
    and "tval T_STRUCT v" and "list_all tok_ok v" and "length nm < 2 ^ 31 - 23" and "fits32 i"
    and "C (lk_up l) (K_msg nm mt i # v)" and "C (lk_down l) []"
  shows "\<exists>l1 l2. served_by what P n F l = (Inr (), l1) \<and> lk_iface l1 = lk_iface l \<and> C (lk_up l1) [] \<and>
    on_down (waffle_thriftClient_recv_get P n r0) l1 =
      (Inl (Application_error UNKNOWN_METHOD (''Invalid method name: '' @ [CHR 0x27] @ nm @ [CHR 0x27])), l2) \<and> C (lk_down l2) []"
proof -
  let ?msg = "''Invalid method name: '' @ [CHR 0x27] @ nm @ [CHR 0x27]"
  have "tok_ok (K_msg nm T_EXCEPTION i)" "tok_ok (K_exn UNKNOWN_METHOD ?msg)"
    using assms(5,6) by (simp_all add: UNKNOWN_METHOD_def fits32_def int_min_def int_max_def)
  from thrift_protocol.serve_unknown [OF assms(1-4) this, where a = "[]" and b = "[]" and mt = mt and h = "lk_iface l"]
  obtain l1 where 1: "served_by what P n F l = (Inr (), l1)" "C (lk_up l1) []"
    "C (lk_down l1) [K_msg nm T_EXCEPTION i, K_exn UNKNOWN_METHOD ?msg]" "lk_iface l1 = lk_iface l"
    unfolding served_by_def waffle_thriftProcessor_dispatchCall_def by (rule movesE) (use assms(7,8) in simp_all)
  have "moves C (on_down (waffle_thriftClient_recv_get P n r0)) [] ([K_msg nm T_EXCEPTION i, K_exn UNKNOWN_METHOD ?msg] @ [])
      (lk_iface l) (Inl (Application_error UNKNOWN_METHOD ?msg)) [] [] (lk_iface l)"
    by (rule down_raises, rule thrift_protocol.recv_get_raises [OF assms(1)])
  then obtain l2 where "on_down (waffle_thriftClient_recv_get P n r0) l1 = (Inl (Application_error UNKNOWN_METHOD ?msg), l2)"
    "C (lk_down l2) []"
    by (rule movesE [of _ _ _ _ _ _ _ _ _ l1]) (use 1 in simp_all)
  then show ?thesis using 1 by blast
qed

theorem unknown_method_answered_witness:
  "\<exists>l1. served_by (\<lambda>_. []) binary_protocol 4 waffle_thriftNull
      \<lparr>lk_up = concat (map wire [K_msg ''b'' T_CALL 0, K_stop]), lk_down = [], lk_iface = ()\<rparr> = (Inr (), l1) \<and> lk_up l1 = []"
proof -
  let ?l = "\<lparr>lk_up = concat (map wire [K_msg ''b'' T_CALL 0, K_stop]), lk_down = [], lk_iface = ()\<rparr>"
  have 1: "um_find (waffle_thriftProcessor (\<lambda>_. []) binary_protocol 4 (waffle_thriftNull :: unit waffle_thriftIf)) ''b'' = None"
    by (simp add: waffle_thriftProcessor_def um_find_def)
  have 2: "tval T_STRUCT [K_stop]" "list_all tok_ok [K_stop]" by (simp_all add: tval_tfields.intros)
  have 3: "buffered (lk_up ?l) (K_msg ''b'' T_CALL 0 # [K_stop])" "buffered (lk_down ?l) []"
    by (simp_all add: buffered_def)
  have "length ''b'' < 2 ^ 31 - (23 :: nat)" by simp
  from unknown_method_answered [OF binary_ok 1 2 this fits32_0 3] show ?thesis by (auto simp: buffered_def)
qed

end
