(* ===== verification/Response_Claims.thy ===== *)
theory Response_Claims
  imports Service_Claims
begin

text \<open>
  Properties of the response channel, the queues between the threads, the handlers and the client library.
\<close>

section \<open>Responses\<close>

text \<open>
  C29.  A response to a registered client arrives in that client's stream and in no other, and the client's
  reader gets the results and the sequence number of the request.
\<close>

theorem response_reaches_client:
  assumes "response_channel P C T lookup" and "lookup m (client_id sq) = Some p" and "C p []" and "client_id sq \<noteq> - 1"
    and "sequence_id_ok sq" and "fits32 op_code" and "strs_ok res" and "3 < n"
  shows "\<exists>m' p' p''. async_respond_client P T sq op_code res m = (Inr (), m') \<and>
    lookup m' = (lookup m)(client_id sq \<mapsto> p') \<and>
    recv_response P n p' = (Inr (client_seq_no sq, res), p'') \<and> C p'' []"
proof -
  obtain m' p' where m': "async_respond_client P T sq op_code res m = (Inr (), m')" "lookup m' = (lookup m)(client_id sq \<mapsto> p')"
    and p': "C p' ([] @ K_msg ''async_response'' T_ONEWAY 0 # async_response_args_toks sq op_code res)"
    using response_channel.respond_delivers [OF assms(1-7)] by blast
  let ?ts = "K_msg ''async_response'' T_ONEWAY 0 # async_response_args_toks sq op_code res"
  have r: "reads C (recv_response P n) ?ts (\<lambda>x. x = (client_seq_no sq, res))"
    by (rule thrift_protocol.response_reads [OF response_channel.axioms(1) [OF assms(1)] assms(8)])
  have "C p' (?ts @ [])" using p' by simp
  then obtain x p'' where "recv_response P n p' = (Inr x, p'')" "x = (client_seq_no sq, res)" "C p'' []"
    using r unfolding reads_def by blast
  then show ?thesis using m' by blast
qed

theorem response_reaches_client_witness:
  "\<exists>m' p' p''. async_respond_client binary_protocol alist_table \<lparr>client_id = 4, client_seq_no = 5, server_seq_no = 0\<rparr> 2 [''a'', ''b'']
      [(3, []), (4, [])] = (Inr (), m') \<and> um_find m' 3 = Some [] \<and> um_find m' 4 = Some p' \<and>
    recv_response binary_protocol 4 p' = (Inr (5, [''a'', ''b'']), p'')"
proof -
  have "um_find [(3 :: int, []), (4, [])] (client_id \<lparr>client_id = 4, client_seq_no = 5, server_seq_no = 0\<rparr>) = Some []"
    by (simp add: um_find_def)
  moreover have "fits32 2" by (simp add: fits32_def int_min_def int_max_def)
  moreover have "client_id \<lparr>client_id = 4, client_seq_no = 5, server_seq_no = 0\<rparr> \<noteq> - 1" "3 < (4 :: nat)" by simp_all
  ultimately obtain m' p' p'' where
    "async_respond_client binary_protocol alist_table \<lparr>client_id = 4, client_seq_no = 5, server_seq_no = 0\<rparr> 2 [''a'', ''b'']
       [(3, []), (4, [])] = (Inr (), m')"
    and m': "um_find m' = (um_find [(3, []), (4, [])])(4 \<mapsto> p')"
    and "recv_response binary_protocol 4 p' = (Inr (5, [''a'', ''b'']), p'')"
    using response_reaches_client [OF channel.response_channel_axioms _ buffered_empty _ small_ok(6) _ small_ok(4)]
    by (metis sequence_id.select_convs(1) sequence_id.select_convs(2))
  moreover have "um_find m' 3 = Some []" "um_find m' 4 = Some p'" by (simp_all add: m') (simp add: um_find_def)
  ultimately show ?thesis by blast
qed

text \<open>
  When writing a response fails with any exception, such as a broken connection to that one client, the
  whole server process exits; the handlers for this around the call are never reached.
\<close>

theorem failed_response_exits:
  assumes "client_table_laws T lookup" and "lookup m (client_id sq) = Some p" and "client_id sq \<noteq> - 1"
    and "write_message P ''async_response'' T_ONEWAY 0 (waffle_thrift_response_async_response_pargs_write P sq op_code res) p = (Inl e, p')"
    and "is_std_exception e"
  shows "\<exists>m'. async_respond_client P T sq op_code res m = (Inl (Exit 1), m')"
proof -
  let ?send = "catch_transport (thrift_response_client_async_response P sq op_code res)"
  have "thrift_response_client_async_response P sq op_code res p = (Inl (Exit 1), p')"
    using assms(4,5) by (simp add: thrift_response_client_async_response_def waffle_thrift_responseClient_async_response_def
        waffle_thrift_responseClient_send_async_response_def catchIO_def throwIO_def)
  then have "?send p = (Inl (Exit 1), p')" by (simp add: catch_transport_def)
  then obtain m' where "ct_update_fn T (client_id sq) ?send m = (Inl (Exit 1), m')"
    using client_table_laws.t_throws [OF assms(1,2)] by blast
  then show ?thesis using assms(3) by (auto simp: async_respond_client_def bindIO_err)
qed

theorem failed_response_exits_witness:
  "\<exists>m'. async_respond_client (binary_protocol\<lparr>flushT := throwIO End_of_file\<rparr>) alist_table
     \<lparr>client_id = 4, client_seq_no = 5, server_seq_no = 0\<rparr> 2 [] [(4, [])] = (Inl (Exit 1), m')"
proof -
  let ?P = "binary_protocol\<lparr>flushT := throwIO End_of_file\<rparr>" and ?sq = "\<lparr>client_id = 4, client_seq_no = 5, server_seq_no = 0\<rparr>"
  have f: "um_find [(4 :: int, [])] (client_id ?sq) = Some []" by (simp add: um_find_def)
  have "\<exists>p'. write_message ?P ''async_response'' T_ONEWAY 0 (waffle_thrift_response_async_response_pargs_write ?P ?sq 2 []) [] =
      (Inl End_of_file, p')"
    by (simp add: write_message_def waffle_thrift_response_async_response_pargs_write_def writeStruct_def writeField_def
        writeStringList_def sequence_id_write_def binary_protocol_def put_bytes_def bindIO_def returnIO_def throwIO_def)
  then show ?thesis using failed_response_exits [OF channel.client_table_laws_axioms f] by auto
qed


definition answered_front :: "((string, string) umap, (int, string) umap) front" where
  "answered_front = sample_front\<lparr>fr_proxy := sample_state\<lparr>promises := [(0, ''a''), (1, ''b'')]\<rparr>, id_to_client := [(4, [])],
     respond_queue := queue_push (GET_BATCH, \<lparr>client_id = 4, client_seq_no = 5, server_seq_no = 0\<rparr>, [0, 1]) queue_new,
     sequence_queue := queue_push \<lparr>client_id = 4, client_seq_no = 5, server_seq_no = 0\<rparr> queue_new\<rparr>"

lemma answered_front_aligned: "aligned answered_front"
  by (simp add: aligned_def answered_front_def wq.push_good queue_new_ok) (simp add: queue_push_def queue_new_def)


text \<open>
  C37.  A single asynchronous GET breaks this: it pushes no sequence identifier, so when another client's batch
  request follows, the answer to the GET is sent to that other client, under the other request's number.
\<close>

theorem async_get_answered_to_another:
  assumes "waffle_proxy_async_get sq1 q key f = (Inr (), f1)" and "waffle_proxy_async_get_batch sq2 q' keys f1 = (Inr (), f2)"
    and "m_queue (respond_queue f) = []" and "m_queue (sequence_queue f) = []"
    and "um_find (promises s) (next_promise f) = Some v"
    and "async_respond_client P T sq2 GET [v] (id_to_client f2) = (x, m')"
  shows "\<exists>f'. responder_round P T (f2\<lparr>fr_proxy := s\<rparr>) = (x, f') \<and> id_to_client f' = m'"
proof -
  obtain ws where a: "m_queue (respond_queue f2) = [(GET, sq1, [next_promise f]), (GET_BATCH, sq2, ws)]"
    "m_queue (sequence_queue f2) = [sq2]"
    using async_get_misaddresses [OF assms(1-4)] by blast
  have ne: "GET \<noteq> PUT_BATCH" by (simp add: GET_def PUT_BATCH_def)
  have m: "map (\<lambda>w. if GET = PUT_BATCH then ''PUT SUCCESSFUL'' else v) [next_promise f] = [v]" using ne by simp
  have "m_queue (respond_queue (f2\<lparr>fr_proxy := s\<rparr>)) = (GET, sq1, [next_promise f]) # [(GET_BATCH, sq2, ws)]"
    "m_queue (sequence_queue (f2\<lparr>fr_proxy := s\<rparr>)) = sq2 # []" using a by simp_all
  from responder_round_eq [OF this, of "\<lambda>_. v" P T x m'] assms(5,6) m show ?thesis by auto
qed

theorem async_get_answered_to_another_witness:
  "\<exists>f1 f2 f' x. waffle_proxy_async_get \<lparr>client_id = 3, client_seq_no = 0, server_seq_no = 0\<rparr> 0 ''a'' sample_front = (Inr (), f1) \<and>
     waffle_proxy_async_get_batch \<lparr>client_id = 4, client_seq_no = 5, server_seq_no = 0\<rparr> 0 [''b''] f1 = (Inr (), f2) \<and>
     responder_round binary_protocol alist_table (f2\<lparr>fr_proxy := sample_state\<lparr>promises := [(7, ''v'')]\<rparr>\<rparr>) = (x, f')"
proof -
  let ?s1 = "\<lparr>client_id = 3, client_seq_no = 0, server_seq_no = 0\<rparr>" and ?s2 = "\<lparr>client_id = 4, client_seq_no = 5, server_seq_no = 0\<rparr>"
  obtain f1 where 1: "waffle_proxy_async_get ?s1 0 ''a'' sample_front = (Inr (), f1)" "operation_queues f1 \<noteq> []"
    by (auto simp: waffle_proxy_async_get_def get_future_def enqueue_def sample_front_def Let_def bindIO_def push_respond_def
        queue_index_def)
  obtain f2 where 2: "waffle_proxy_async_get_batch ?s2 0 [''b''] f1 = (Inr (), f2)"
    using 1(2) by (auto simp: waffle_proxy_async_get_batch_def get_future_def enqueue_def Let_def bindIO_def returnIO_def
        push_respond_def push_sequence_def)
  obtain x m' where "async_respond_client binary_protocol alist_table ?s2 GET [''v''] (id_to_client f2) = (x, m')" by fastforce
  from async_get_answered_to_another [OF 1(1) 2 _ _ _ this, of "sample_state\<lparr>promises := [(7, ''v'')]\<rparr>"] show ?thesis
    using 1 2 by (fastforce simp: sample_front_def queue_new_def um_find_def)
qed

section \<open>Queues, handlers and the client library\<close>

text \<open>
  The queue between the threads is first in, first out: what is pushed into an empty queue is popped in
  the same order, after which a further \<open>pop\<close> waits; \<open>size()\<close> is exact below \<open>2 ^ 31\<close> elements.
\<close>

theorem queue_is_fifo:
  assumes "queue_ok q" and "m_queue q = []" and "length xs < 2 ^ 31"
  shows "queue_size (wq.push_all xs q) = int (length xs) \<and>
    (\<exists>q'. wq.pop_many (length xs) (wq.push_all xs q) = Inr (xs, q') \<and> queue_pop q' = Inl Blocked)"
proof -
  have p: "m_queue (wq.push_all xs q) = xs" "queue_ok (wq.push_all xs q)" using wq.push_all_items [OF assms(1)] assms(2) by simp_all
  then have "queue_size (wq.push_all xs q) = int (length xs)" using queue_size_exact [OF p(2)] assms(3) by simp
  moreover obtain q' where "wq.pop_many (length xs) (wq.push_all xs q) = Inr (xs, q')" "m_queue q' = []"
    using wq.delivered_in_order [OF assms(1,2)] by blast
  ultimately show ?thesis by (auto simp: queue_pop_def)
qed

theorem queue_is_fifo_witness:
  "queue_size (wq.push_all ''abc'' queue_new) = 3 \<and> (\<exists>q'. wq.pop_many 3 (wq.push_all ''abc'' queue_new) = Inr (''abc'', q'))"
proof -
  have "length ''abc'' < 2 ^ 31" "m_queue queue_new = []" by (simp_all add: queue_new_def)
  from queue_is_fifo [OF queue_new_ok this(2,1)] show ?thesis by (auto simp only: list.size) (auto simp: numeral_3_eq_3)
qed

text \<open>
  A batch of GETs enters one operation queue in the order of its keys, and the results come back in the
  order of the keys, whatever order the other threads answered in.
\<close>

theorem get_batch_in_order:
  assumes "operation_queues f \<noteq> []" and "n = next_promise f" and "i = queue_index q (length (operation_queues f))"
    and "queue_ok (operation_queues f ! i)"
    and "mapIO (get_future q) keys f = (Inr ws, f1)" and "others f1 = (Inr (), f2)"
    and "\<forall>j < length keys. um_find (promises (fr_proxy f2)) (n + j) = Some (r j)"
  shows "m_queue (operation_queues f1 ! i) = m_queue (operation_queues f ! i) @ zip (map (\<lambda>k. (k, '''')) keys) [n..<n + length keys] \<and>
    waffle_proxy_get_batch others q keys f = (Inr (map r [0..<length keys]), f2)"
proof -
  have "i < length (operation_queues f)" using assms(1,3) by (simp add: queue_index_def)
  moreover have "f1 = f\<lparr>next_promise := n + length keys, operation_queues := (operation_queues f)[i :=
      wq.push_all (zip (map (\<lambda>k. (k, '''')) keys) [n..<n + length keys]) (operation_queues f ! i)]\<rparr>"
    using enqueue_all [OF assms(1-3), of "map (\<lambda>k. (k, '''')) keys"] assms(5) unfolding get_futures_eq by simp
  ultimately have "m_queue (operation_queues f1 ! i) = m_queue (operation_queues f ! i) @ zip (map (\<lambda>k. (k, '''')) keys) [n..<n + length keys]"
    using wq.push_all_items [OF assms(4)] by simp
  then show ?thesis using get_batch_answers [where others = others, OF assms(1,2,5,6)] assms(7) by blast
qed

theorem get_batch_in_order_witness:
  "\<exists>f2. waffle_proxy_get_batch (\<lambda>f. (Inr (), f\<lparr>fr_proxy := sample_state\<lparr>promises := [(8, ''y''), (7, ''x'')]\<rparr>\<rparr>)) 0 [''a'', ''b''] sample_front =
     (Inr [''x'', ''y''], f2)"
proof -
  let ?o = "\<lambda>f :: ((string, string) umap, (int, string) umap) front. (Inr (), f\<lparr>fr_proxy := sample_state\<lparr>promises := [(8, ''y''), (7, ''x'')]\<rparr>\<rparr>)"
  let ?r = "\<lambda>j. if j = (0::nat) then ''x'' else ''y''"
  have b: "operation_queues sample_front \<noteq> []" "queue_ok (operation_queues sample_front ! queue_index 0 (length (operation_queues sample_front)))"
    by (simp_all add: sample_front_def queue_index_def queue_new_ok)
  obtain ws f1 where w: "mapIO (get_future 0) [''a'', ''b''] sample_front = (Inr ws, f1)"
    using enqueue_all [OF b(1) refl refl, of 0 "map (\<lambda>k. (k, '''')) [''a'', ''b'']"] unfolding get_futures_eq by blast
  have "\<forall>j < length [''a'', ''b'']. um_find (promises (fr_proxy (f1\<lparr>fr_proxy := sample_state\<lparr>promises := [(8, ''y''), (7, ''x'')]\<rparr>\<rparr>)))
      (next_promise sample_front + j) = Some (?r j)"
    by (auto simp: sample_front_def um_find_def less_Suc_eq)
  from get_batch_in_order [where others = ?o, OF b(1) refl refl b(2) w refl this] show ?thesis by (auto simp: upt_rec)
qed

text \<open>
  The asynchronous client numbers its requests consecutively and never has more than \<open>in_flight_limit_\<close>
  of them unanswered.
\<close>

theorem requests_bounded:
  assumes "in_flight_ok c" and "mapIO (\<lambda>(send, code). issue_request send code) reqs c = (Inr us, c')"
  shows "in_flight_ok c' \<and> sequence_num c' = sequence_num c + int (length reqs) \<and>
    m_queue (requests c') = m_queue (requests c) @ map snd reqs \<and>
    (reqs \<noteq> [] \<longrightarrow> client_seq_no (seq_id c') = sequence_num c' - 1)"
  using assms
proof (induction reqs arbitrary: c us)
  case Nil
  then show ?case by (simp add: returnIO_def)
next
  case (Cons x reqs)
  obtain send code where x: "x = (send, code)" by fastforce
  obtain r1 c1 where 1: "issue_request send code c = (r1, c1)" by fastforce
  then obtain vs where ok: "r1 = Inr ()" "mapIO (\<lambda>(send, code). issue_request send code) reqs c1 = (Inr vs, c')"
    using Cons.prems(2) x by (cases r1) (auto simp: bindIO_def returnIO_def split: sum.splits prod.splits)
  note E = issue_request_effect [OF Cons.prems(1) 1 [unfolded ok(1)]]
  show ?case using Cons.IH [OF E(1) ok(2)] E x ok(2) by (cases reqs) (auto simp: returnIO_def)
qed

definition sample_client :: "(string, unit) async_client" where
  "sample_client = \<lparr>ac_link = \<lparr>lk_up = [], lk_down = [], lk_iface = ()\<rparr>, ac_stream = [], requests = queue_new, total = 0,
     done_flag = False, sequence_num = 0, ac_client_id = 4, seq_id = sequence_id_init, in_flight_limit = 2000\<rparr>"

theorem requests_bounded_witness:
  "\<exists>us c'. mapIO (\<lambda>(send, code). issue_request send code) [(\<lambda>_. returnIO (), GET), (\<lambda>_. returnIO (), PUT)] sample_client = (Inr us, c') \<and>
     sequence_num c' = 2 \<and> m_queue (requests c') = [GET, PUT]"
proof -
  have ok: "in_flight_ok sample_client"
    by (simp add: in_flight_ok_def sample_client_def queue_new_ok int_max_def) (simp add: queue_new_def)
  have "\<exists>us c'. mapIO (\<lambda>(send, code). issue_request send code) [(\<lambda>_. returnIO (), GET), (\<lambda>_. returnIO (), PUT)] sample_client = (Inr us, c')"
    by (simp add: issue_request_def sample_client_def queue_size_def queue_new_def queue_push_def wrap32_def fits64_def Let_def
        bindIO_def returnIO_def on_link_def)
  then show ?thesis using requests_bounded [OF ok]
    by (fastforce simp: sample_client_def queue_new_def)
qed

text \<open>
  A response that has arrived is taken off the stream by the reader thread, its results are counted and
  one request is no longer in flight.
\<close>

theorem response_counted:
  assumes "thrift_protocol P C" and "3 < n" and "queue_ok (requests c)" and "m_queue (requests c) \<noteq> []" and "res \<noteq> []"
    and "C (ac_stream c) (K_msg ''async_response'' T_ONEWAY 0 # async_response_args_toks sq op_code res @ rest)"
  shows "\<exists>c'. read_round P n c = (Inr res, c') \<and> C (ac_stream c') rest \<and>
    num_requests_satisfied c' = wrap32 (num_requests_satisfied c + int (length res)) \<and>
    m_queue (requests c') = tl (m_queue (requests c))"
  using read_round_counts [OF assms] by (simp add: num_requests_satisfied_def)

theorem response_counted_witness:
  "\<exists>c' c :: (string, unit) async_client. read_round binary_protocol 4 c = (Inr [''a'', ''b''], c') \<and> num_requests_satisfied c' = 2"
proof -
  let ?sq = "\<lparr>client_id = 4, client_seq_no = 5, server_seq_no = 0\<rparr>"
  let ?ts = "K_msg ''async_response'' T_ONEWAY 0 # async_response_args_toks ?sq GET_BATCH [''a'', ''b''] @ []"
  let ?c = "sample_client\<lparr>requests := queue_push GET_BATCH queue_new, ac_stream := concat (map wire ?ts)\<rparr>"
  have b: "buffered (ac_stream ?c) ?ts"
    by (simp add: buffered_def async_response_args_toks_def sequence_id_toks_def struct_toks_def strs_toks_def
        fits32_def fits64_def int_min_def int_max_def GET_BATCH_def)
  have q: "queue_ok (requests ?c)" "m_queue (requests ?c) \<noteq> []"
    by (simp_all add: wq.push_good queue_new_ok wq.push_items)
  have t: "num_requests_satisfied ?c = 0" by (simp add: num_requests_satisfied_def sample_client_def)
  from response_counted [OF binary_ok _ q _ b, of 4] obtain c' where "read_round binary_protocol 4 ?c = (Inr [''a'', ''b''], c')"
    "num_requests_satisfied c' = wrap32 (num_requests_satisfied ?c + int (length [''a'', ''b'']))" by auto
  then have "read_round binary_protocol 4 ?c = (Inr [''a'', ''b''], c') \<and> num_requests_satisfied c' = 2"
    using t by (simp add: wrap32_def)
  then show ?thesis by blast
qed

end
