(* ===== verification/Component_Claims.thy ===== *)
theory Component_Claims
  imports Sample_Run
begin

text \<open>
  Properties of the single components of the proxy: the cache, the access-frequency index, the key and
  value formats, the encryption, the storage client, the choice of a batch and the initialisation.
\<close>

section \<open>The cache\<close>

text \<open>A cache as its clients see it: a list of key/value pairs, the most recently inserted first.\<close>

datatype cache_op = Insert_op string string | Remove_op string | Evict_op

fun cache_do :: "cache_op \<Rightarrow> cache \<Rightarrow> cache res" where
  "cache_do (Insert_op k v) c = insertIntoCache k v c"
| "cache_do (Remove_op k) c = bindR (Cache_removeKey k c) (\<lambda>r. Inr (snd r))"
| "cache_do Evict_op c = Inr (snd (evictLRElementFromCache c))"

fun lru_do :: "cache_op \<Rightarrow> (string \<times> string) list \<Rightarrow> (string \<times> string) list" where
  "lru_do (Insert_op k v) l = (k, v) # filter (\<lambda>p. fst p \<noteq> k) l"
| "lru_do (Remove_op k) l = filter (\<lambda>p. fst p \<noteq> k) l"
| "lru_do Evict_op l = butlast l"

lemma cache_do_ok:
  assumes "cache_inv c"
  shows "\<exists>c'. cache_do x c = Inr c' \<and> cache_inv c' \<and> lru c' = lru_do x (lru c)"
proof (cases x)
  case (Insert_op k v)
  obtain c' where "insertIntoCache k v c = Inr c'" using insertIntoCache_eq [OF assms] by blast
  then show ?thesis using Insert_op insertIntoCache_inv [OF assms] insertIntoCache_lru [OF assms] by simp
next
  case (Remove_op k)
  obtain b c' where "Cache_removeKey k c = Inr (b, c')" using Cache_removeKey_eq [OF assms] by blast
  then show ?thesis using Remove_op Cache_removeKey_inv [OF assms] by simp
next
  case Evict_op
  obtain kv c' where e: "evictLRElementFromCache c = (kv, c')" by fastforce
  then have "lru c' = butlast (lru c)" using evict_eq(2,3) [OF assms e] by (cases "lru c = []") auto
  then show ?thesis using Evict_op e evict_eq(1) [OF assms e] by simp
qed

lemma cache_run_ok:
  assumes "cache_inv c"
  shows "\<exists>c'. foldR cache_do xs c = Inr c' \<and> cache_inv c' \<and> lru c' = fold lru_do xs (lru c)"
  using assms
proof (induction xs arbitrary: c)
  case (Cons x xs)
  obtain c1 where "cache_do x c = Inr c1" "cache_inv c1" "lru c1 = lru_do x (lru c)" using cache_do_ok [OF Cons.prems] by blast
  then show ?case using Cons.IH [of c1] by simp
qed simp

text \<open>
  C14.  The linked list with its map of iterators is an LRU list: after any sequence of insertions, removals and
  evictions no iterator dangles, the entries are those of the reference list in its order, a lookup finds
  exactly them, \<open>size()\<close> counts them, and the entry evicted next is the last of that list.
\<close>

theorem cache_refines_lru:
  "\<exists>c. foldR cache_do ops (Cache_default\<lparr>m_capacity := n\<rparr>) = Inr c \<and> lru c = fold lru_do ops [] \<and>
     Cache_size c = length (fold lru_do ops []) \<and>
     (\<forall>k. Cache_checkIfKeyExists c k \<longleftrightarrow> k \<in> fst ` set (fold lru_do ops [])) \<and>
     (\<forall>k. getValueWithoutPositionChangeNew c k =
        Inr (case map_of (fold lru_do ops []) k of None \<Rightarrow> ('''', False) | Some v \<Rightarrow> (v, True))) \<and>
     fst (evictLRElementFromCache c) = (if fold lru_do ops [] = [] then ('''', '''') else last (fold lru_do ops []))"
proof -
  obtain c where c: "foldR cache_do ops (Cache_default\<lparr>m_capacity := n\<rparr>) = Inr c" "cache_inv c" "lru c = fold lru_do ops []"
    using cache_run_ok [OF cache_inv_default(1), of ops n] by auto
  obtain kv c' where e: "evictLRElementFromCache c = (kv, c')" by fastforce
  have "fst (evictLRElementFromCache c) = (if lru c = [] then ('''', '''') else last (lru c))"
    using evict_eq(2,3) [OF c(2) e] e by (cases "lru c = []") auto
  then show ?thesis
    using c Cache_size_lru [OF c(2)] um_has_cacheMap [OF c(2)] getValueWithoutPositionChangeNew_eq [OF c(2)]
    by (simp add: Cache_checkIfKeyExists_def cache_find_def)
qed

text \<open>
  \<open>Cache::getValue\<close> tests the wrong way round: for a key that is in the cache it returns the empty
  string, and for one that is not it follows an iterator that does not exist.
\<close>

theorem getValue_inverted:
  "Cache_getValue c k = (if Cache_checkIfKeyExists c k then Inr ('''', c) else Inl Undefined_behaviour)"
  by (simp add: Cache_getValue_def Cache_checkIfKeyExists_def um_has_conv cache_deref_def split: option.split)

section \<open>The access-frequency index\<close>

text \<open>The operations the proxy applies to the index of real keys while it runs.\<close>

datatype index_op = Insert_key string | Remove_key string | Set_frequency string int | Remove_key_unlocked string

fun index_do :: "index_op \<Rightarrow> freq \<Rightarrow> freq res" where
  "index_do (Insert_key k) s = fs_insert k s"
| "index_do (Remove_key k) s = fs_removeKey k s"
| "index_do (Remove_key_unlocked k) s = fs_removeKey_without_mutex k s"
| "index_do (Set_frequency k v) s = Inr (fs_setFrequency k v s)"

text \<open>As the proxy uses them: only new keys are inserted, only known keys are updated.\<close>

fun index_op_ok :: "index_op \<Rightarrow> freq \<Rightarrow> bool" where
  "index_op_ok (Insert_key k) s = (canon k \<and> \<not> um_has (accessFreqs s) k)"
| "index_op_ok (Remove_key k) s = canon k"
| "index_op_ok (Remove_key_unlocked k) s = canon k"
| "index_op_ok (Set_frequency k v) s = um_has (accessFreqs s) k"

fun index_next :: "index_op \<Rightarrow> (string \<rightharpoonup> int) \<Rightarrow> string \<rightharpoonup> int" where
  "index_next (Insert_key k) m = m(k \<mapsto> 0)"
| "index_next (Remove_key k) m = m(k := None)"
| "index_next (Remove_key_unlocked k) m = m(k := None)"
| "index_next (Set_frequency k v) m = m(k \<mapsto> v)"

definition index_inv :: "freq \<Rightarrow> bool" where
  "index_inv s \<longleftrightarrow> fs_inv s \<and> ts_inv s \<and> needTimeStamp s"

lemma unlocked_same: "fs_removeKey_without_mutex k s = fs_removeKey k s"
  by (simp add: fs_removeKey_without_mutex_def fs_removeKey_def)



lemma sample_index_inv: "index_inv (realBst sample_state)"
  using sample_sys_inv by (simp add: index_inv_def sys_inv_def pinv_def)


text \<open>
  \<open>getKeyWithMinFrequency\<close> returns a key that was used least recently, and \<open>getOldestKey\<close> returns the
  bucket of the item with the smallest timestamp, whatever the list of keys to be deleted says.
\<close>

theorem index_extremes:
  assumes "index_inv s" and "um_has (accessFreqs s) (ts_key i t)"
  shows "(\<exists>k. fs_getKeyWithMinFrequency s = Inr k \<and> um_has (accessFreqs s) k \<and>
      (\<forall>k'. um_has (accessFreqs s) k' \<longrightarrow> fs_freq s k \<le> fs_freq s k')) \<and>
    (\<exists>t0. fs_getOldestKey del (ts_key i t) s = Inr (ts_key i t0, s) \<and> um_has (accessFreqs s) (ts_key i t0) \<and>
      (\<forall>t'. um_has (accessFreqs s) (ts_key i t') \<longrightarrow> t0 \<le> t'))"
proof -
  have I: "fs_inv s" "ts_inv s" using assms(1) by (simp_all add: index_inv_def)
  obtain f where "um_find (accessFreqs s) (ts_key i t) = Some f" using assms(2) by (auto simp: um_has_conv)
  from fs_index.min_least [OF I(1) this] obtain k where k: "fs_getKeyWithMinFrequency s = Inr k" "um_has (accessFreqs s) k"
    by (auto simp: um_has_conv)
  have "fs_freq s k \<le> fs_freq s k'" if k': "um_has (accessFreqs s) k'" for k'
  proof -
    obtain f' where f': "um_find (accessFreqs s) k' = Some f'" using k' by (auto simp: um_has_conv)
    then show ?thesis using fs_min_is_least [OF I(1) k(1) f'] by (auto simp: fs_freq_find)
  qed
  moreover have c: "canon (ts_key i t)" using ts_invD(4) [OF I(2) assms(2)] .
  obtain old where o: "fs_getOldestKey del (ts_key i t) s = Inr (old, s)" using fs_getOldestKey_defined [OF I(2) c assms(2)] by blast
  obtain j t0 where "old = ts_key j t0" "um_has (accessFreqs s) old" "\<exists>u. ts_key i t = ts_key j u"
    "\<And>u. um_has (accessFreqs s) (ts_key j u) \<Longrightarrow> t0 \<le> u"
    by (rule fs_getOldestKey_spec [OF I(2) c o]) blast
  ultimately show ?thesis using k o by auto
qed

theorem index_extremes_witness:
  "\<exists>t0. fs_getOldestKey [''a@1''] (ts_key ''a'' 2) (realBst sample_state) = Inr (ts_key ''a'' t0, realBst sample_state) \<and> t0 \<le> 1"
proof -
  have l: "um_has (accessFreqs (realBst sample_state)) (ts_key ''a'' 2)" "um_has (accessFreqs (realBst sample_state)) (ts_key ''a'' 1)"
    using sample_live by (auto simp: live_def)
  from index_extremes [OF sample_index_inv l(1), of "[''a@1'']"] l(2) show ?thesis by blast
qed

section \<open>Keys, queries and values\<close>

text \<open>
  C16.  A range query selects, in the order of time, the buckets of its item whose timestamp is at most the end
  and at least that of the last bucket before the start (so that the bucket in which the range begins is
  included); it changes nothing but an empty entry for an unknown item.
\<close>

theorem range_query_selects:
  assumes "index_inv b" and "wf_item item" and "fits64 start" and "fits64 stop"
  shows "\<exists>tsl. get_split_keys (query item start stop) b =
      Inr (map (ts_key item) tsl, b\<lparr>uniqueItemWithTimeStamp := um_touch [] item (uniqueItemWithTimeStamp b)\<rparr>) \<and>
    sorted tsl \<and> distinct tsl \<and>
    (\<forall>t. t \<in> set tsl \<longleftrightarrow> um_has (accessFreqs b) (ts_key item t) \<and> t \<le> stop \<and>
       (\<forall>t'. um_has (accessFreqs b) (ts_key item t') \<longrightarrow> t' < start \<longrightarrow> t' \<le> t))"
proof -
  have "ts_inv b" using assms(1) by (simp add: index_inv_def)
  then obtain tsl b1 where g: "get_split_keys (query item start stop) b = Inr (map (ts_key item) tsl, b1)"
    "set tsl = Collect (in_range {t. um_has (accessFreqs b) (ts_key item t)} start stop)" "sorted tsl" "distinct tsl"
    "b1 = b\<lparr>uniqueItemWithTimeStamp := um_touch [] item (uniqueItemWithTimeStamp b)\<rparr>"
    by (rule get_split_keys_query [OF _ assms(2-4)])
  then have "t \<in> set tsl \<longleftrightarrow> um_has (accessFreqs b) (ts_key item t) \<and> t \<le> stop \<and>
      (\<forall>t'. um_has (accessFreqs b) (ts_key item t') \<longrightarrow> t' < start \<longrightarrow> t' \<le> t)" for t
    by (simp add: in_range_def)
  with g show ?thesis by blast
qed

theorem range_query_selects_witness:
  "\<exists>tsl b'. get_split_keys (query ''a'' 2 5) (realBst sample_state) = Inr (map (ts_key ''a'') tsl, b') \<and> 1 \<in> set tsl"
proof -
  have "wf_item ''a''" "fits64 2" "fits64 5" by (simp_all add: wf_item_def fits64_def)
  from range_query_selects [OF sample_index_inv this] obtain tsl b' where
    g: "get_split_keys (query ''a'' 2 5) (realBst sample_state) = Inr (map (ts_key ''a'') tsl, b')"
    and t: "\<forall>t. t \<in> set tsl \<longleftrightarrow> um_has (accessFreqs (realBst sample_state)) (ts_key ''a'' t) \<and> t \<le> 5 \<and>
       (\<forall>t'. um_has (accessFreqs (realBst sample_state)) (ts_key ''a'' t') \<longrightarrow> t' < 2 \<longrightarrow> t' \<le> t)"
    by blast
  have "um_has (accessFreqs (realBst sample_state)) (ts_key ''a'' t) \<longleftrightarrow> t = 1 \<or> t = 2" for t
    using sample_live [of "ts_key ''a'' t"] by (simp add: live_def)
  then have "1 \<in> set tsl" using t by simp
  with g show ?thesis by blast
qed

text \<open>
  Splitting a key at its \<open>@\<close> undoes composing it, for every item without an \<open>@\<close> and every 64-bit
  timestamp; whatever is split successfully has a non-empty item without \<open>@\<close> and a 64-bit timestamp; a key
  without \<open>@\<close>, with nothing before it or with nothing after it is refused.
\<close>

theorem key_split_roundtrip:
  "(wf_item i \<longrightarrow> fits64 t \<longrightarrow> get_key_timestamp_split (i @ ''@'' @ to_string t) = Inr (i, t)) \<and>
   (get_key_timestamp_split k = Inr (j, u) \<longrightarrow> wf_item j \<and> fits64 u) \<and>
   (CHR ''@'' \<notin> set r \<longrightarrow> get_key_timestamp_split r = Inl Invalid_argument \<and>
      get_key_timestamp_split (CHR ''@'' # r) = Inl Invalid_argument \<and>
      get_key_timestamp_split (r @ ''@'') = Inl Invalid_argument)"
proof -
  have "get_key_timestamp_split r = Inl Invalid_argument" if "CHR ''@'' \<notin> set r"
    using that str_find_none [of r "CHR ''@''"] by (simp add: get_key_timestamp_split_def)
  moreover have "get_key_timestamp_split (CHR ''@'' # r) = Inl Invalid_argument"
    using str_find_first [of "CHR ''@''" "[]" r] by (simp add: get_key_timestamp_split_def)
  moreover have "get_key_timestamp_split (r @ ''@'') = Inl Invalid_argument" if "CHR ''@'' \<notin> set r"
    using str_find_first [OF that, of "[]"] by (simp add: get_key_timestamp_split_def)
  ultimately show ?thesis
    using get_key_timestamp_split_ts_key [of i t] get_key_timestamp_split_ok [of k j u] by (auto simp: ts_key_def)
qed

theorem key_split_roundtrip_witness:
  "get_key_timestamp_split ''ab@12'' = Inr (''ab'', 12) \<and> get_key_timestamp_split ''ab@'' = Inl Invalid_argument"
proof -
  have "(to_string 12 = ''12'') = True" by code_simp
  then have s: "to_string 12 = ''12''" by simp
  have "wf_item ''ab''" "fits64 12" "CHR ''@'' \<notin> set ''ab''" by (simp_all add: wf_item_def fits64_def)
  then show ?thesis using key_split_roundtrip [of "''ab''" 12 "[]" "[]" 0 "''ab''"] s by simp
qed

text \<open>
  C34.  Serialising a vector of 32-bit integers or floats, or of booleans, and deserialising the bytes gives the
  vector back; a string of any length is read as its whole 4-byte cells, the remaining bytes being ignored.
\<close>

theorem serializer_roundtrip:
  "deserialize (serialize data) = data \<and> deserialize_bool (serialize_bool bs) = bs \<and> length (serialize data) = 4 * length data \<and>
   length (deserialize s) = length s div 4 \<and> (length r < 4 \<longrightarrow> deserialize (serialize data @ r) = data)"
proof -
  have "deserialize (serialize data @ r) = data" if "length r < 4"
  proof -
    have "(4 * length data + length r) div 4 = length data" using that by simp
    then show ?thesis using cells_serialize [of data "[]"] by (simp add: deserialize_eq)
  qed
  then show ?thesis by (simp add: deserialize_serialize_cells serialize_bool_inverse deserialize_length)
qed

theorem serializer_roundtrip_witness: "deserialize (serialize [7, - 1] @ ''ab'') = [7, - 1]"
  using serializer_roundtrip [of "[7, - 1]" "[]" "''ab''" "''ab''"] by simp


lemma add_all:
  assumes "\<bar>t\<bar> + sum_list (map abs xs) \<le> int_max"
  shows "foldR (\<lambda>x t. add32 t x) xs t = Inr (t + sum_list xs)"
  using assms
proof (induction xs arbitrary: t)
  case (Cons x xs)
  have "0 \<le> sum_list (map abs xs)" by (rule sum_list_nonneg) auto
  then have "fits32 (t + x)" "\<bar>t + x\<bar> + sum_list (map abs xs) \<le> int_max"
    using Cons.prems by (auto simp: fits32_def int_min_def int_max_def)
  then show ?case using Cons.IH [of "t + x"] by (simp add: add32_def)
qed simp

lemma add_all_exact: "foldR (\<lambda>x t. add32 t x) xs t = Inr y \<Longrightarrow> y = t + sum_list xs"
proof (induction xs arbitrary: t)
  case (Cons x xs)
  then have "foldR (\<lambda>x t. add32 t x) xs (t + x) = Inr y" by (auto simp: add32_def bindR_eq_Inr split: if_splits)
  then show ?case using Cons.IH [of "t + x"] by simp
qed simp

lemma foldR_nested: "foldR (\<lambda>k. foldR g (h k)) ks s = foldR g (concat (map h ks)) s"
  by (induction ks arbitrary: s) (auto simp: foldR_append intro!: bindR_cong)

definition points :: "string list \<Rightarrow> (string \<Rightarrow> string) \<Rightarrow> int list" where
  "points keys val = map sint (concat (map (\<lambda>k. deserialize (val k)) keys))"

lemma sum_int_points: "deserializeAndSumInt keys val = foldR (\<lambda>x t. add32 t x) (points keys val) 0"
  by (simp add: deserializeAndSumInt_def points_def foldR_map foldR_nested)

text \<open>
  C23.  The answer to a query over integers is the exact sum of all data points of its buckets: whenever a sum
  is returned it is exact, and it is returned if the absolute values together stay below \<open>2 ^ 31\<close> (otherwise
  the signed addition may overflow, which C++ leaves undefined).
\<close>

theorem integer_sum_exact:
  "(deserializeAndSumInt keys val = Inr y \<longrightarrow> y = sum_list (points keys val)) \<and>
   (sum_list (map abs (points keys val)) \<le> int_max \<longrightarrow> deserializeAndSumInt keys val = Inr (sum_list (points keys val)))"
  using add_all [of 0 "points keys val"] add_all_exact [of "points keys val" 0 y] by (simp add: sum_int_points)

theorem integer_sum_exact_witness:
  "deserializeAndSumInt [''a'', ''b''] (\<lambda>k. if k = ''a'' then serialize [5, - 3] else serialize [1]) = Inr 3"
proof -
  let ?v = "\<lambda>k. if k = ''a'' then serialize [5, - 3] else serialize [1]"
  have "points [''a'', ''b''] ?v = [5, - 3, 1]" by (simp add: points_def deserialize_serialize_cells)
  then show ?thesis using integer_sum_exact [of "[''a'', ''b'']" ?v 0] by (simp add: int_max_def)
qed

section \<open>Encryption\<close>

text \<open>
  C24.  Every value without a zero byte and of at most 4070 bytes survives encryption with a random suffix and
  decryption, for any lawful cipher, key and stream of random numbers, even when it contains the separator
  \<open>#\<close> itself.
\<close>

theorem encrypted_value_roundtrip:
  assumes "evp_lawful E (encryption_string eng) (iv_string eng)" and "storable v"
  shows "\<exists>c pos'. encryptNonDeterministic E eng rnd pos v = Inr (c, pos') \<and> decryptNonDeterministic E eng c = Inr v"
  by (rule nondeterministic_roundtrip [OF assms, of rnd pos]) blast

theorem encrypted_value_roundtrip_witness:
  "\<exists>c pos'. encryptNonDeterministic pad_evp sample_engine (\<lambda>p. p) 3 ''a#b'' = Inr (c, pos') \<and>
     decryptNonDeterministic pad_evp sample_engine c = Inr ''a#b''"
proof -
  have "storable ''a#b''" by (simp add: storable_def)
  from encrypted_value_roundtrip [OF pad_evp_lawful this] show ?thesis .
qed



section \<open>The storage client\<close>

text \<open>
  C27.  With one storage server, a batch that was put is read back value by value in the order of the keys,
  and deleting it removes exactly its keys.
\<close>

theorem storage_roundtrip:
  assumes "redis_lawful api db" and "distinct keys" and "length keys = length values"
  shows "\<exists>s1 s2 s3. redis_put_batch api keys values [s] = Inr [s1] \<and> redis_get_batch api keys [s1] = Inr (values, [s2]) \<and>
    redis_delete_batch api keys [s2] = Inr [s3] \<and> db s3 = db s |` (- set keys)"
proof -
  let ?m = "map_of (rev (zip keys values))"
  obtain s1 where s1: "redis_put_batch api keys values [s] = Inr [s1]" "db s1 = db s ++ ?m"
    using redis_put_batch_single [OF assms(1,3)] by blast
  note P = put_lookup [OF assms(2,3), of _ "db s", folded s1(2)]
  have d: "db s1 k = Some (the (db s1 k))" if "k \<in> set keys" for k
    using that P(1) by (metis in_set_conv_nth option.sel)
  obtain s2 where s2: "redis_get_batch api keys [s1] = Inr (map (\<lambda>k. the (db s1 k)) keys, [s2])" "db s2 = db s1"
    using redis_get_batch_single [OF assms(1) d] by blast
  obtain s3 where s3: "redis_delete_batch api keys [s2] = Inr [s3]" "db s3 = db s2 |` (- set keys)"
    using redis_delete_batch_single [OF assms(1)] by blast
  have "map (\<lambda>k. the (db s1 k)) keys = values"
    using assms(3) P(1) by (intro nth_equalityI) simp_all
  moreover have "db s3 = db s |` (- set keys)"
    using s2(2) s3(2) P(2) by (auto simp: restrict_map_def fun_eq_iff)
  ultimately show ?thesis using s1(1) s2(1) s3(1) by auto
qed


theorem storage_roundtrip_witness:
  "\<exists>s1 s2. redis_put_batch table_api [''k'', ''l''] [''v'', ''w''] [[]] = Inr [s1] \<and>
     redis_get_batch table_api [''k'', ''l''] [s1] = Inr ([''v'', ''w''], [s2])"
  using storage_roundtrip [OF table_api_lawful, of "[''k'', ''l'']" "[''v'', ''w'']" "[]"] by auto

text \<open>The loop over the futures counts up while it pops them, so it handles only the first half.\<close>

lemma drained_half: "drained i fs = take ((length fs - i + 1) div 2) fs"
proof (induction fs arbitrary: i)
  case (Cons f fs)
  show ?case
  proof (cases "i < Suc (length fs)")
    case True
    then have "(length (f # fs) - i + 1) div 2 = Suc ((length fs - Suc i + 1) div 2)" by (cases "i = length fs") auto
    then show ?thesis using True Cons.IH [of "Suc i"] by simp
  qed simp
qed simp

text \<open>The keys of each server, in the order in which they were asked for.\<close>

lemma gather_keys:
  assumes "clients \<noteq> []" and "um_ok vs" and "\<forall>i. um_has vs i \<longrightarrow> um_at [] vs i \<noteq> []"
    and "H = (\<lambda>x. std_hash api (key_of x) mod length clients)"
  shows "\<exists>vs'. gather api clients key_of xs vs = Inr vs' \<and> um_ok vs' \<and> (\<forall>i. um_at [] vs' i = um_at [] vs i @ filter (\<lambda>x. H x = i) xs) \<and>
    (\<forall>i. um_has vs' i \<longrightarrow> um_at [] vs' i \<noteq> [])"
  using assms(2,3)
proof (induction xs arbitrary: vs)
  case (Cons x xs)
  let ?vs = "um_set (H x) (um_at [] vs (H x) @ [x]) vs"
  have "um_ok ?vs" "\<forall>i. um_has ?vs i \<longrightarrow> um_at [] ?vs i \<noteq> []" using Cons.prems by (auto simp: um_at_simps)
  from Cons.IH [OF this] obtain vs' where "gather api clients key_of xs ?vs = Inr vs'" "um_ok vs'"
    "\<forall>i. um_at [] vs' i = um_at [] ?vs i @ filter (\<lambda>x. H x = i) xs" "\<forall>i. um_has vs' i \<longrightarrow> um_at [] vs' i \<noteq> []" by blast
  then show ?case using assms(1,4) by (auto simp: client_idx_def um_at_simps)
qed simp

lemma issue_replies:
  assumes "redis_lawful api db" and "\<forall>i \<in> set is. i < length clients"
    and "\<forall>i \<in> set is. \<forall>k \<in> set (um_at [] vs i). db (clients ! i) k = Some (f k)"
  shows "\<exists>c'. issue (rd_mget api) vs is [] clients = (map (\<lambda>i. RArray (map (\<lambda>k. RString (f k)) (um_at [] vs i))) is, c')"
  using assms(2,3)
proof (induction "is" arbitrary: clients)
  case (Cons i "is")
  obtain r s where m: "rd_mget api (um_at [] vs i) (clients ! i) = (r, s)" by fastforce
  have r: "r = RArray (map (\<lambda>k. RString (f k)) (um_at [] vs i))" and s: "db s = db (clients ! i)"
    using redis_lawfulD(1,2) [OF assms(1), of "um_at [] vs i" "clients ! i"] m Cons.prems(2) by (auto simp: nil_or_def)
  have "db (clients[i := s] ! j) = db (clients ! j)" for j
    using s Cons.prems(1) by (cases "j = i") auto
  then obtain c' where "issue (rd_mget api) vs is [] (clients[i := s]) =
      (map (\<lambda>i. RArray (map (\<lambda>k. RString (f k)) (um_at [] vs i))) is, c')"
    using Cons.IH [of "clients[i := s]"] Cons.prems by auto
  then show ?case using m r by simp
qed simp

lemma collect_arrays:
  "foldR (\<lambda>r acc. bindR (check_reply r) (\<lambda>r. bindR (as_array r) (\<lambda>elems.
     foldR (\<lambda>e acc. bindR (check_reply e) (\<lambda>e. bindR (as_string e) (\<lambda>s. Inr (acc @ [s])))) elems acc)))
     (map (\<lambda>i. RArray (map (\<lambda>k. RString (f k)) (ks i))) is) acc = Inr (acc @ concat (map (\<lambda>i. map f (ks i)) is))"
  by (induction "is" arbitrary: acc) (simp_all add: check_reply_def collect_single [unfolded check_reply_def])


lemma sum_classes:
  assumes "distinct is" and "\<forall>x \<in> set xs. H x \<in> set is"
  shows "(\<Sum>i\<leftarrow>is. length (filter (\<lambda>x. H x = i) xs)) = length xs"
  using assms(2)
proof (induction xs)
  case (Cons x xs)
  have "(\<Sum>i\<leftarrow>is. length (filter (\<lambda>x. H x = i) (x # xs))) =
      (\<Sum>i\<in>set is. (if i = H x then 1 else 0) + length (filter (\<lambda>x. H x = i) xs))"
    using assms(1) by (simp add: sum_list_distinct_conv_sum_set) (rule sum.cong, auto)
  also have "\<dots> = 1 + (\<Sum>i\<leftarrow>is. length (filter (\<lambda>x. H x = i) xs))"
    using Cons.prems assms(1) by (simp add: sum.distrib sum_list_distinct_conv_sum_set)
  finally show ?case using Cons by simp
qed simp

text \<open>
  C36.  With several storage servers \<open>get_batch\<close> loses replies: as soon as two keys of a batch live on different
  servers, it returns fewer values than it was asked for (those of the first half of the servers), although
  every key is present.
\<close>

theorem replies_lost:
  assumes "redis_lawful api db" and "H = (\<lambda>k. std_hash api k mod length clients)"
    and "\<forall>k \<in> set keys. db (clients ! H k) k = Some (f k)"
    and "clients \<noteq> []" and "k1 \<in> set keys" and "k2 \<in> set keys" and "H k1 \<noteq> H k2"
  shows "\<exists>vals clients'. redis_get_batch api keys clients = Inr (vals, clients') \<and> length vals < length keys"
proof -
  obtain vs where g: "gather api clients (\<lambda>k. k) keys [] = Inr vs" "um_ok vs" "\<forall>i. um_at [] vs i = filter (\<lambda>k. H k = i) keys"
    "\<forall>i. um_has vs i \<longrightarrow> um_at [] vs i \<noteq> []"
    using gather_keys [OF assms(4) um_ok_empty, where key_of = "\<lambda>k. k" and xs = keys, OF _ assms(2)] by (auto simp: um_at_def)
  define "is" where "is = id_order api (um_keys vs)"
  have ms: "mset is = mset (um_keys vs)" using redis_lawfulD(6) [OF assms(1)] by (simp add: is_def)
  then have d: "distinct is" "set is = set (um_keys vs)"
    using g(2) mset_eq_imp_distinct_iff [OF ms] mset_eq_setD [OF ms] unfolding um_ok_def by blast+
  have h: "i \<in> set is \<longleftrightarrow> (\<exists>k \<in> set keys. H k = i)" for i
  proof -
    have "um_has vs i \<longleftrightarrow> um_at [] vs i \<noteq> []" using g(4) um_at_has [of "[]" vs i] by auto
    then show ?thesis using g(3) d(2) by (auto simp: um_has_keys filter_empty_conv)
  qed
  have lt: "\<forall>i \<in> set is. i < length clients" using h assms(2,4) by auto
  have vals: "\<forall>i \<in> set is. \<forall>k \<in> set (um_at [] vs i). db (clients ! i) k = Some (f k)" using g(3) assms(3) by auto
  obtain c' where c': "issue (rd_mget api) vs is [] clients = (map (\<lambda>i. RArray (map (\<lambda>k. RString (f k)) (um_at [] vs i))) is, c')"
    using issue_replies [OF assms(1) lt vals] by blast
  let ?n = "(length is + 1) div 2" and ?L = "\<lambda>is. \<Sum>i\<leftarrow>is. length (um_at [] vs i)"
  have "redis_get_batch api keys clients = Inr (concat (map (\<lambda>i. map f (um_at [] vs i)) (take ?n is)), c')"
    using g(1) c' by (simp add: redis_get_batch_def is_def [symmetric] drained_half take_map collect_replies_def collect_arrays)
  moreover have "?L (take ?n is) < length keys"
  proof -
    have "\<forall>k \<in> set keys. H k \<in> set is" using h by blast
    then have "?L is = length keys" using sum_classes [OF d(1), of keys H] g(3) by simp
    moreover have "?L is = ?L (take ?n is) + ?L (drop ?n is)"
      by (metis append_take_drop_id map_append sum_list_append)
    moreover have "2 \<le> length is"
    proof -
      have "{H k1, H k2} \<subseteq> set is" using h assms(5,6) by blast
      then have "card {H k1, H k2} \<le> card (set is)" by (rule card_mono [OF finite_set])
      then show ?thesis using card_length [of "is"] assms(7) by simp
    qed
    then obtain i where "i \<in> set (drop ?n is)" by (cases "drop ?n is") auto
    then have "length (um_at [] vs i) \<le> ?L (drop ?n is)" "um_has vs i"
      using member_le_sum_list [of "length (um_at [] vs i)" "map (\<lambda>i. length (um_at [] vs i)) (drop ?n is)"] in_set_dropD [of i ?n "is"] d(2)
      by (auto simp: um_has_keys)
    then have "0 < ?L (drop ?n is)" using g(4) by (metis bot_nat_0.extremum_strict gr0I le_zero_eq length_0_conv)
    ultimately show ?thesis by linarith
  qed
  ultimately show ?thesis by (auto simp: length_concat o_def)
qed

theorem replies_lost_witness:
  "\<exists>vals clients'. redis_get_batch table_api [''k'', ''kk''] [[(''kk'', ''w'')], [(''k'', ''v'')]] = Inr (vals, clients') \<and> length vals < 2"
proof -
  let ?c = "[[(''kk'', ''w'')], [(''k'', ''v'')]]"
  have "\<forall>k \<in> set [''k'', ''kk'']. um_find (?c ! (std_hash table_api k mod length ?c)) k = Some (if k = ''k'' then ''v'' else ''w'')"
    by (simp add: table_api_def um_find_def)
  moreover have "std_hash table_api ''k'' mod length ?c \<noteq> std_hash table_api ''kk'' mod length ?c" by (simp add: table_api_def)
  ultimately have "\<exists>vals clients'. redis_get_batch table_api [''k'', ''kk''] ?c = Inr (vals, clients') \<and> length vals < length [''k'', ''kk'']"
    using replies_lost [OF table_api_lawful refl, of "[''k'', ''kk'']" ?c "\<lambda>k. if k = ''k'' then ''v'' else ''w''" "''k''" "''kk''"] by auto
  then show ?thesis by (simp add: numeral_2_eq_2)
qed

section \<open>Composing a batch\<close>

text \<open>
  C12.  Choosing the \<open>B\<close> locations of a batch succeeds and follows least-recent use: the requested keys come
  first, then the uncached keys that were read least recently until \<open>B - F\<close> are chosen, then the \<open>F\<close> fake keys
  that were read least recently; each location belongs to the key's last timestamp, and the chosen keys get
  the new one.
\<close>

theorem batch_choice:
  assumes "batch_pre fuel cfg (map fst operations) s"
  shows "\<exists>rs fk rm s'. choose_batch fuel cfg e operations s = Inr (nat (cfg_B cfg - cfg_F cfg),
      map (\<lambda>k. loc e (encryption_engine s) k (fs_freq (realBst s) k)) (map fst operations @ rs) @
      map (\<lambda>k. loc e (encryption_engine s) k (fs_freq (fakeBst s) k)) fk, rm, s') \<and>
    length operations + length rs = nat (cfg_B cfg - cfg_F cfg) \<and> length fk = nat (cfg_F cfg) \<and>
    distinct (map fst operations @ rs) \<and> distinct fk \<and>
    (\<forall>k \<in> set rs. live s k \<and> \<not> Cache_checkIfKeyExists (pcache s) k) \<and> (\<forall>k \<in> set fk. fake s k) \<and>
    (\<forall>k \<in> set rs. \<forall>k'. live s k' \<and> \<not> Cache_checkIfKeyExists (pcache s) k' \<and> k' \<notin> set (map fst operations @ rs) \<longrightarrow>
       fs_freq (realBst s) k \<le> fs_freq (realBst s) k') \<and>
    (\<forall>k \<in> set fk. \<forall>k'. fake s k' \<and> k' \<notin> set fk \<longrightarrow> fs_freq (fakeBst s) k \<le> fs_freq (fakeBst s) k') \<and>
    (\<forall>k. fs_freq (realBst s') k = (if k \<in> set (map fst operations @ rs) then timeStamp s + 1 else fs_freq (realBst s) k)) \<and>
    (\<forall>k. fs_freq (fakeBst s') k = (if k \<in> set fk then timeStamp s + 1 else fs_freq (fakeBst s) k))"
proof -
  obtain rs fk rk' where c: "choose_batch fuel cfg e operations s =
       Inr (length (map fst operations @ rs), chosen e s (map fst operations @ rs) fk rk')"
    "length (map fst operations @ rs) = nat (cfg_B cfg - cfg_F cfg)" "length fk = nat (cfg_F cfg)"
    "distinct (map fst operations @ rs)" "distinct fk"
    "\<forall>k \<in> set (map fst operations @ rs). live s k \<and> \<not> Cache_checkIfKeyExists (pcache s) k" "\<forall>k \<in> set fk. fake s k"
    "\<forall>k \<in> set rs. \<forall>k'. live s k' \<longrightarrow> \<not> Cache_checkIfKeyExists (pcache s) k' \<longrightarrow>
       k' \<notin> set (map fst operations) \<longrightarrow> k' \<notin> set rs \<longrightarrow> fs_freq (realBst s) k \<le> fs_freq (realBst s) k'"
    "\<forall>k \<in> set fk. \<forall>k'. fake s k' \<longrightarrow> k' \<notin> set fk \<longrightarrow> fs_freq (fakeBst s) k \<le> fs_freq (fakeBst s) k'"
    by (rule choose_batch_ok [OF assms, of e]) blast
  obtain rm s' where "chosen e s (map fst operations @ rs) fk rk' =
      (map (\<lambda>k. loc e (encryption_engine s) k (fs_freq (realBst s) k)) (map fst operations @ rs) @
       map (\<lambda>k. loc e (encryption_engine s) k (fs_freq (fakeBst s) k)) fk, rm, s')"
    and s': "realBst s' = fold (\<lambda>k. fs_setFrequency k (timeStamp s + 1)) (map fst operations @ rs) (realBst s)"
      "fakeBst s' = fold (\<lambda>k. fs_setFrequency k (timeStamp s + 1)) fk (fakeBst s)"
    by (simp add: chosen_def Let_def)
  moreover note fold_setFrequency_freq(1) [OF batch_preD(1) [OF assms], of "timeStamp s + 1" "map fst operations @ rs", folded s'(1)]
    fold_setFrequency_freq(1) [OF batch_preD(2) [OF assms], of "timeStamp s + 1" fk, folded s'(2)]
  ultimately show ?thesis using c
    by (intro exI [of _ rs] exI [of _ fk] exI [of _ rm] exI [of _ s'] conjI) auto
qed

lemma sample_batch_pre: "batch_pre 20 sample_cfg [] sample_state"
proof -
  have P: "pinv UNIV sample_values sample_env um_find sample_state" using sample_sys_inv by (simp add: sys_inv_def)
  have "\<not> (live sample_state k \<and> fake sample_state k)" for k
    using pinvD(7) [OF P, of k] ts_invD(4) [OF pinvD(4) [OF P], of k] by (auto simp: live_def)
  moreover have "{k. live sample_state k \<and> \<not> Cache_checkIfKeyExists (pcache sample_state) k} = {''a@2'', ''b@1''}"
    by (auto simp: live_def sample_state_def Cache_checkIfKeyExists_def um_has_keys)
  moreover have "\<not> rk_present (runningKeys sample_state) k" for k by (simp add: rk_present_def sample_state_def)
  moreover have "fake sample_state k \<Longrightarrow> fs_freq (fakeBst sample_state) k \<le> timeStamp sample_state" for k
    using pinvD(12) [OF P] by blast
  ultimately show ?thesis using pinvD(3,6,14) [OF P]
    by (simp add: batch_pre_def) (simp add: sample_state_def sample_cfg_def fs_size_def fits32_def int_min_def int_max_def)
qed

theorem batch_choice_witness:
  "\<exists>n sk rm s'. choose_batch 20 sample_cfg sample_env [] sample_state = Inr (n, sk, rm, s') \<and> length sk = 3"
proof -
  have p: "batch_pre 20 sample_cfg (map fst []) sample_state" using sample_batch_pre by simp
  have "nat (cfg_B sample_cfg - cfg_F sample_cfg) = 2" "nat (cfg_F sample_cfg) = 1" by (simp_all add: sample_cfg_def)
  with batch_choice [OF p, of sample_env] show ?thesis by fastforce
qed


text \<open>
  C39.  The loop that collects the fake keys never ends when fewer of them are free than it wants: the least
  recently used fake key is then one that is already in the batch, and asking again does not change it.
\<close>

theorem fake_loop_livelock_when_short:
  assumes "fs_inv (fst st)" and "um_has (accessFreqs (fst st)) k0"
    and "card {k. um_has (accessFreqs (fst st)) k \<and> \<not> rk_present rk k} < n"
  shows "fake_loop P ts fuel n rk st = Inl Out_of_fuel"
  using assms
proof (induction fuel arbitrary: n rk st k0)
  case 0
  then show ?case by (cases n) auto
next
  case (Suc fuel)
  let ?free = "\<lambda>b rk. {k. um_has (accessFreqs b) k \<and> \<not> rk_present rk k}"
  obtain b sk rm where st: "st = (b, sk, rm)" by (metis prod_cases3)
  obtain m where n: "n = Suc m" using Suc.prems(3) by (cases n) auto
  obtain f0 where "um_find (accessFreqs b) k0 = Some f0" using Suc.prems(2) st by (auto simp: um_has_conv)
  then obtain k where k: "fs_getKeyWithMinFrequency b = Inr k" "um_has (accessFreqs b) k"
    using fs_index.min_least [of b k0] Suc.prems(1) st by (auto simp: um_has_conv)
  obtain p rk1 where i: "insertIfNotPresent k rk = (p, rk1)" by fastforce
  note F = insertIfNotPresent_facts [OF i]
  show ?case
  proof (cases p)
    case True
    then have "?free b rk1 = ?free b rk" using F by auto
    then show ?thesis using Suc.IH [of st k0 rk1 n] Suc.prems k i True st n by simp
  next
    case False
    let ?b = "fs_setFrequency k ts b"
    have r: "read_key P ts k st = (?b, sk @ [P (sid k (fs_freq b k))], um_set (P (sid k (fs_freq b k))) k rm)"
      using k(2) by (simp add: read_key_def st Let_def)
    have "?free ?b rk1 = ?free b rk - {k}" using F k(2) by auto
    moreover have "k \<in> ?free b rk" "finite (?free b rk)"
      using F(1) False k(2) finite_subset [of _ "set (um_keys (accessFreqs b))"] by (auto simp: um_has_keys)
    ultimately have "card (?free ?b rk1) < card (?free b rk)" using card_Diff1_less [of "?free b rk" k] by simp
    then have "card (?free ?b rk1) < m" using Suc.prems(3) st n by simp
    then show ?thesis
      using Suc.IH [of "read_key P ts k st" k rk1 m] Suc.prems(1) k i False n st r fs_setFrequency_inv [of b k ts] by simp
  qed
qed

theorem fake_loop_livelock_when_short_witness:
  "fake_loop (\<lambda>x. x) 1 1000000 3 running_empty (fakeBst sample_state, [], []) = Inl Out_of_fuel"
proof -
  have i: "fs_inv (fst (fakeBst sample_state, [] :: string list, [] :: (string, string) umap))"
    using sample_sys_inv by (simp add: sys_inv_def pinv_def)
  have e: "{k. um_has (accessFreqs (fakeBst sample_state)) k \<and> \<not> rk_present running_empty k} = {''fakeIJKLMNOPQRST'', ''fakeabcdefghij''}"
    by (auto simp: sample_state_def um_has_keys rk_present_def running_empty_def)
  have "um_has (accessFreqs (fst (fakeBst sample_state, [] :: string list, [] :: (string, string) umap))) ''fakeabcdefghij''"
    by (simp add: sample_state_def um_has_keys)
  from fake_loop_livelock_when_short [OF i this] e show ?thesis by simp
qed

text \<open>
  C9.  A PUT of a new bucket is acknowledged with its value at once and is in the cache from then on; the
  oldest bucket of its item is given up, at once when it is in the cache, and otherwise it joins the batch in
  order to be removed at the end of it.
\<close>

theorem put_replaces_oldest:
  assumes "cfg_ok fuel cfg m U nf T" and "sys_inv K V e db T m cfg U g nf (i, rid, batch, misses, s)" and "i < cfg_R cfg"
    and "put_ok K V s item t q" and "fits32 i" and "k = ts_key item t"
  shows "\<exists>old batch' s'. fill_batch (cfg_R cfg) [((k, V k), q)] i rid (batch, misses, s) = Inr ([], i + 1, rid, batch', misses, s') \<and>
    sys_inv K V e db T m cfg U g nf (i + 1, rid, batch', misses, s') \<and> um_find (promises s') q = Some (V k) \<and>
    pval e db s' k = Some (V k) \<and>
    (\<exists>t0. old = ts_key item t0 \<and> live s old \<and> (\<forall>u. live s (ts_key item u) \<longrightarrow> t0 \<le> u)) \<and>
    (if cache_find (pcache s) old \<noteq> None
     then (\<forall>j. live s' j \<longleftrightarrow> j = k \<or> live s j \<and> j \<noteq> old) \<and> keys_to_be_deleted s' = keys_to_be_deleted s
     else (\<forall>j. live s' j \<longleftrightarrow> j = k \<or> live s j) \<and> keys_to_be_deleted s' = keys_to_be_deleted s @ [old])"
proof -
  obtain old batch' s' where p:
    "fill_batch (cfg_R cfg) [((k, V k), q)] i rid (batch, misses, s) = Inr ([], i + 1, rid, batch', misses, s')"
    "sys_inv K V e db T m cfg U g nf (i + 1, rid, batch', misses, s')" "promises s' = um_set q (V k) (promises s)"
    "\<exists>t0. old = ts_key item t0 \<and> live s old \<and> (\<forall>u. live s (ts_key item u) \<longrightarrow> t0 \<le> u)"
    "if cache_find (pcache s) old \<noteq> None
     then (\<forall>j. live s' j \<longleftrightarrow> j = k \<or> live s j \<and> j \<noteq> old) \<and> keys_to_be_deleted s' = keys_to_be_deleted s
     else (\<forall>j. live s' j \<longleftrightarrow> j = k \<or> live s j) \<and> keys_to_be_deleted s' = keys_to_be_deleted s @ [old]"
    by (rule serve_put [OF assms(2-5) cfg_fits(2,3) [OF assms(1)] assms(6)]) blast
  have "live s' k" using p(5) by (metis (full_types))
  then have "pval e db s' k = Some (V k)" using pval_pinv [of K V e db s'] p(2) by (simp add: sys_inv_def)
  then show ?thesis using p by (intro exI [of _ old] exI [of _ batch'] exI [of _ s']) simp
qed

theorem put_replaces_oldest_witness:
  "\<exists>st'. fill_batch 1 [((''a@3'', ''11''), 8)] 0 0 ([], 0, sample_state) = Inr ([], st')"
proof -
  have k: "ts_key ''a'' 3 = ''a@3''" "sample_values ''a@3'' = ''11''" by (simp_all add: ts_key_def sample_stamps sample_values_def)
  have "0 < cfg_R sample_cfg" "fits32 0" "cfg_R sample_cfg = 1" by (simp_all add: sample_cfg_def fits32_def int_min_def int_max_def)
  from put_replaces_oldest [OF sample_cfg_ok sample_sys_inv this(1) sample_put_ok this(2) refl] this(3) k
  show ?thesis by auto
qed


section \<open>Initialisation\<close>

text \<open>A stream of random numbers that counts upwards draws every index and enough fake names.\<close>

lemma counting_fair: "0 < n \<Longrightarrow> fair_draws (\<lambda>p. p) n"
  unfolding fair_draws_def
proof (intro allI impI)
  fix i p :: nat assume "i < n"
  have "p \<le> p * n" using \<open>i < n\<close> by (cases n) auto
  then have "p + (p * n - p + i) = i + p * n" by linarith
  then have "(p + (p * n - p + i)) mod n = i" using \<open>i < n\<close> by simp
  then show "\<exists>j. (p + j) mod n = i" by blast
qed

lemma distinct_alphanum: "distinct alphanum"
proof -
  have "distinct alphanum = True" by code_simp
  then show ?thesis by simp
qed

lemma counting_name:
  "fst (fake_name (\<lambda>p. p) p) = ''fake'' @ map (\<lambda>i. alphanum ! ((p + 1 + i) mod 62)) [0..<p mod 10 + 5]"
  "snd (fake_name (\<lambda>p. p) p) = p + 1 + (p mod 10 + 5)"
  by (simp_all add: fake_name_def gen_random_def)

lemma counting_names_differ:
  "fst (fake_name (\<lambda>p. p) (snd (fake_name (\<lambda>p. p) p))) \<noteq> fst (fake_name (\<lambda>p. p) p)"
proof
  let ?d = "p mod 10 + 6"
  assume eq: "fst (fake_name (\<lambda>p. p) (snd (fake_name (\<lambda>p. p) p))) = fst (fake_name (\<lambda>p. p) p)"
  have first: "fst (fake_name (\<lambda>p. p) q) ! 4 = alphanum ! ((q + 1) mod 62)" for q
    by (simp add: counting_name nth_append)
  have "(p + ?d + 1) mod 62 < length alphanum" "(p + 1) mod 62 < length alphanum" by (simp_all add: length_alphanum)
  moreover have "alphanum ! ((p + ?d + 1) mod 62) = alphanum ! ((p + 1) mod 62)"
  proof -
    have "snd (fake_name (\<lambda>p. p) p) = p + ?d" by (simp add: counting_name(2))
    then show ?thesis using first [of p] first [of "p + ?d"] eq by simp
  qed
  ultimately have "(p + ?d + 1) mod 62 = (p + 1) mod 62" using distinct_alphanum nth_eq_iff_index_eq by blast
  moreover have "p + 1 \<le> p + ?d + 1" "p + ?d + 1 - (p + 1) = ?d" by simp_all
  ultimately have "62 dvd ?d" by (metis mod_eq_dvd_iff_nat)
  then have "62 \<le> ?d" by (rule dvd_imp_le) simp
  moreover have "?d < 16" using mod_less_divisor [of 10 p] by simp
  ultimately show False by linarith
qed

lemma counting_supply: "fake_supply (\<lambda>p. p) 2"
  unfolding fake_supply_def
proof (intro allI impI)
  fix used :: "string list" and p :: nat assume c: "card (set used) < 2"
  let ?x = "fst (fake_name (\<lambda>p. p) p)" and ?y = "fst (fake_name (\<lambda>p. p) (snd (fake_name (\<lambda>p. p) p)))"
  have "\<not> {?x, ?y} \<subseteq> set used" using c card_mono [of "set used" "{?x, ?y}"] counting_names_differ [of p] by auto
  then have "?x \<notin> set used \<or> ?y \<notin> set used" by blast
  then show "\<exists>n. fst (fake_name (\<lambda>p. p) (((\<lambda>p. snd (fake_name (\<lambda>p. p) p)) ^^ n) p)) \<notin> set used"
  proof
    assume "?x \<notin> set used" then show ?thesis by (intro exI [of _ 0]) simp
  next
    assume "?y \<notin> set used" then show ?thesis by (intro exI [of _ 1]) simp
  qed
qed

text \<open>
  C11.  Initialisation ends and establishes the invariant of the system, when the generator keeps drawing every
  index and enough different fake names: both retry loops (for the cache and for the fake keys) terminate, for
  some fuel no error branch is taken, and every initial bucket is live.
\<close>

theorem init_terminates:
  assumes "env_ok e g db K T" and "0 \<le> T" and "distinct keys" and "keys \<noteq> []" and "\<forall>k \<in> set keys. canon k \<and> storable (V k)"
    and "set keys \<union> fake_names \<subseteq> K" and "object_size cfg \<le> 4070"
    and "100 \<le> cacheBatches cfg * length keys" and "cacheBatches cfg \<le> 100"
    and "fair_draws (e_rand e) (length keys)" and "fake_supply (e_rand e) (nat (cfg_D cfg))" and "0 < m" and "0 \<le> cfg_R cfg"
  shows "\<exists>fuel s. init fuel cfg e keys (map V keys) (proxy_new [srv] g pos) = Inr s \<and>
    sys_inv K V e db T m cfg (length keys - cacheBatches cfg * length keys div 100) g (nat (cfg_D cfg)) (0, 0, [], 0, s) \<and>
    Collect (live s) = set keys \<and> length (lru (pcache s)) = cacheBatches cfg * length keys div 100 \<and>
    fs_size (fakeBst s) = nat (cfg_D cfg)"
proof -
  obtain fuel s where i: "init fuel cfg e keys (map V keys) (proxy_new [srv] g pos) = Inr s"
    using init_ends [OF assms(1-7,9-11), of srv pos] by blast
  note I = init_ok [OF assms(1-7) i]
  show ?thesis using i I(2-4) init_sys_inv [OF assms(1-7) i assms(8,9,12,13)] by blast
qed

theorem init_terminates_witness:
  "\<exists>fuel s. init fuel sample_cfg sample_env sample_keys (map sample_values sample_keys) (proxy_new [[]] sample_engine 5) = Inr s \<and>
     Collect (live s) = set sample_keys"
proof -
  have "fair_draws (e_rand sample_env) (length sample_keys)" "fake_supply (e_rand sample_env) (nat (cfg_D sample_cfg))"
    using counting_fair [of "length sample_keys"] counting_supply by (simp_all add: sample_env_def sample_keys_def sample_cfg_def)
  from init_terminates [OF sample_env_ok _ sample_keys_ok(2) sample_sizes(1) sample_keys_ok(1) _ sample_sizes(2,3,4) this, of 0 1 "[]" 5]
    sample_sizes(5) show ?thesis by auto
qed

end
