(* ===== verification/Item_Words.thy ===== *)
theory Item_Words
  imports Cpp_Strings
begin

text \<open>
  The word tables of \<open>ItemIdGenerator\<close> (\<open>utils/TS_key_master.h\<close>), from which item identifiers are composed.
\<close>

definition categories :: "string list" where
  "categories = [
     ''CPU'', ''GPU'', ''DISK'', ''MEM'', ''NET'', ''IO'', ''SENSOR'', ''POWER'', ''BATTERY'', ''TEMP'',
     ''STORAGE'', ''DATABASE'', ''THREAD'', ''PROCESS'', ''FILESYSTEM'', ''SECURITY'', ''APPLICATION'', ''OS'',
     ''VIRTUALIZATION'', ''CLOUD'', ''CONTAINER'', ''NETWORK'', ''SESSION'', ''USER'', ''DEVICE'',
     ''ENVIRONMENT'', ''LOG'', ''EVENT'', ''ALERT'', ''PERIPHERAL'', ''AUDIO'', ''VIDEO'', ''GRAPHICS'',
     ''FRAMEWORK'', ''LIBRARY'', ''API'', ''QUEUE'', ''CACHE'', ''POOL'', ''ALLOCATOR'', ''HANDLER'', ''REQUEST'',
     ''RESPONSE'', ''TRANSACTION'', ''CONNECTION'', ''PROTOCOL'', ''SERVICE'', ''DAEMON'', ''MODULE'', ''PLUGIN'',
     ''EXTENSION'', ''INTERFACE'', ''HARDWARE'', ''SOFTWARE'', ''FIRMWARE'', ''DRIVER'', ''KERNEL'', ''SYSTEM'',
     ''CONFIGURATION'', ''OPTIMIZATION'', ''PERFORMANCE'', ''DIAGNOSTIC'', ''MONITORING'', ''LOGGING'',
     ''DEBUGGING'', ''TESTING'', ''DEPLOYMENT'', ''OPERATION'', ''MAINTENANCE'', ''UPGRADE'', ''PATCH'',
     ''RELEASE'', ''VERSION'', ''BUILD'', ''INSTALLATION'', ''ACTIVATION'', ''REGISTRATION'', ''LICENSE'',
     ''CERTIFICATE'', ''ENCRYPTION'', ''AUTHENTICATION'', ''AUTHORIZATION'', ''COMPLIANCE'', ''AUDIT'',
     ''POLICY'', ''STANDARD'', ''GUIDELINE'', ''PROCEDURE'', ''WORKFLOW'', ''TASK'', ''JOB'', ''PROJECT'',
     ''CAMPAIGN'', ''STRATEGY'', ''PLAN'', ''GOAL'', ''OBJECTIVE'', ''METRIC'', ''INDICATOR'', ''MEASUREMENT'',
     ''ANALYSIS'', ''REPORT'', ''DASHBOARD'', ''VISUALIZATION'', ''PREDICTION'', ''FORECAST'', ''SIMULATION'',
     ''MODELING'', ''OPTIMIZATION'', ''AUTOMATION'', ''INTEGRATION'', ''SYNCHRONIZATION'', ''COLLABORATION'',
     ''COMMUNICATION'', ''SOCIAL'', ''MOBILE'', ''WEB'', ''CLOUD'', ''ENTERPRISE'', ''CONSUMER'', ''INDUSTRIAL'',
     ''IOT'', ''AI'', ''ML'', ''DATA'', ''ANALYTICS'', ''BLOCKCHAIN'', ''CRYPTO'', ''VIRTUAL'', ''AUGMENTED'',
     ''REALITY'', ''GAMING'', ''STREAMING'', ''BROADCASTING'', ''PUBLISHING'', ''CONTENT'', ''MEDIA'',
     ''ADVERTISING'', ''MARKETING'', ''SALES'', ''COMMERCE'', ''FINANCE'', ''BANKING'', ''INSURANCE'',
     ''INVESTMENT'', ''TRADING'', ''ACCOUNTING'', ''TAXATION'', ''LEGAL'', ''REGULATION'', ''GOVERNANCE'',
     ''RISK'', ''SECURITY'', ''SAFETY'', ''HEALTH'', ''WELLNESS'', ''MEDICAL'', ''PHARMACEUTICAL'', ''BIOTECH'',
     ''RESEARCH'', ''DEVELOPMENT'', ''EDUCATION'', ''TRAINING'', ''SKILLS'', ''CAREER'', ''EMPLOYMENT'',
     ''RECRUITMENT'', ''HR'', ''MANAGEMENT'', ''LEADERSHIP'', ''ORGANIZATION'', ''CULTURE'', ''DIVERSITY'',
     ''EQUITY'', ''INCLUSION'', ''SUSTAINABILITY'', ''ENVIRONMENTAL'', ''SOCIAL'', ''GOVERNANCE'', ''ETHICS'',
     ''PHILANTHROPY'', ''VOLUNTEERING'', ''COMMUNITY'', ''EVENTS'', ''WORKSHOPS'', ''SEMINARS'', ''CONFERENCES'',
     ''EXHIBITIONS'', ''FAIRS'', ''SHOWS'', ''PERFORMANCES'', ''ART'', ''DESIGN'', ''ARCHITECTURE'',
     ''ENGINEERING'', ''CONSTRUCTION'', ''MANUFACTURING'', ''PRODUCTION'', ''LOGISTICS'', ''SUPPLY'', ''CHAIN'',
     ''TRANSPORTATION'', ''DELIVERY'', ''WAREHOUSING'', ''INVENTORY'', ''PROCUREMENT'', ''PURCHASING'',
     ''VENDING'', ''RETAIL'', ''WHOLESALE'', ''E-COMMERCE'', ''CUSTOMER'', ''SERVICE'', ''SUPPORT'',
     ''EXPERIENCE'', ''SATISFACTION'', ''LOYALTY'', ''ENGAGEMENT'', ''FEEDBACK'', ''REVIEW'', ''RATING'',
     ''SURVEY'', ''QUESTIONNAIRE'', ''INTERVIEW'', ''FOCUS'', ''GROUP'', ''STUDY'', ''RESEARCH'', ''INSIGHT'',
     ''INNOVATION'', ''CREATIVITY'', ''IDEATION'', ''PROTOTYPING'', ''TESTING'', ''LAUNCH'', ''SCALE'',
     ''GROWTH'', ''EXPANSION'', ''DIVERSIFICATION'', ''ADAPTATION'', ''TRANSFORMATION'', ''TURNAROUND'',
     ''RECOVERY'', ''CRISIS'', ''MANAGEMENT'', ''CONTINUITY'', ''RESILIENCE'', ''RELIABILITY'', ''QUALITY'',
     ''EXCELLENCE'', ''EFFICIENCY'', ''PRODUCTIVITY'', ''EFFECTIVENESS'', ''VALUE'', ''IMPACT'', ''CONTRIBUTION'',
     ''SUCCESS'', ''ACHIEVEMENT'', ''RECOGNITION'', ''AWARD'', ''HONOR'', ''PRESTIGE'', ''REPUTATION'', ''BRAND'',
     ''IMAGE'', ''IDENTITY'', ''AWARENESS'', ''PERCEPTION'', ''POSITIONING'', ''DIFFERENTIATION'',
     ''COMPETITIVE'', ''ADVANTAGE'', ''MARKET'', ''SHARE'', ''GROWTH'', ''PROFITABILITY'', ''REVENUE'',
     ''INCOME'', ''EARNINGS'', ''MARGIN'', ''COST'', ''EXPENSE'', ''INVESTMENT'', ''CAPITAL'', ''FUNDING'',
     ''FINANCING'', ''LENDING'', ''BORROWING'', ''CREDIT'', ''DEBT'', ''EQUITY'', ''ASSET'', ''LIABILITY'',
     ''VALUATION'', ''PRICING'', ''BUDGET'', ''FORECAST'', ''ALLOCATION'', ''RESOURCE'', ''MANAGEMENT'',
     ''PLANNING'', ''STRATEGY'', ''TACTIC'', ''OPERATION'', ''EXECUTION'', ''CONTROL'', ''MONITORING'',
     ''EVALUATION'', ''ASSESSMENT'', ''AUDIT'', ''REVIEW'', ''ANALYSIS'', ''DIAGNOSIS'', ''SOLUTION'',
     ''IMPROVEMENT'', ''OPTIMIZATION'', ''INNOVATION'', ''CHANGE'', ''DEVELOPMENT'', ''GROWTH'', ''LEARNING'',
     ''ADAPTATION'', ''EVOLUTION'', ''TRANSFORMATION'', ''REVOLUTION'', ''DISRUPTION'', ''BREAKTHROUGH'',
     ''ACHIEVEMENT'', ''SUCCESS'', ''EXCELLENCE'', ''LEADERSHIP'', ''VISION'', ''MISSION'', ''PURPOSE'',
     ''VALUE'', ''CULTURE'', ''ETHICS'', ''INTEGRITY'', ''TRANSPARENCY'', ''ACCOUNTABILITY'', ''RESPONSIBILITY'',
     ''COMMITMENT'', ''DEDICATION'', ''PASSION'', ''DRIVE'', ''MOTIVATION'', ''AMBITION'', ''ASPIRATION'',
     ''INSPIRATION'', ''CREATIVITY'', ''INNOVATION'', ''CURIOSITY'', ''INQUIRY'', ''EXPLORATION'', ''DISCOVERY'',
     ''LEARNING'', ''KNOWLEDGE'', ''WISDOM'', ''INSIGHT'', ''UNDERSTANDING'', ''AWARENESS'', ''PERCEPTION'',
     ''JUDGMENT'', ''DECISION'', ''CHOICE'', ''OPTION'', ''ALTERNATIVE'', ''OPPORTUNITY'', ''CHALLENGE'',
     ''PROBLEM'', ''ISSUE'', ''OBSTACLE'', ''BARRIER'', ''RISK'', ''THREAT'', ''VULNERABILITY'', ''WEAKNESS'',
     ''LIMITATION'', ''CONSTRAINT'', ''RESTRICTION'', ''COMPROMISE'', ''TRADE-OFF'', ''BALANCE'', ''EQUILIBRIUM'',
     ''HARMONY'', ''SYNERGY'', ''ALIGNMENT'', ''INTEGRATION'', ''COORDINATION'', ''COOPERATION'',
     ''COLLABORATION'', ''PARTNERSHIP'', ''ALLIANCE'', ''NETWORK'', ''COMMUNITY'', ''ECOSYSTEM'', ''ENVIRONMENT'',
     ''MARKET'', ''INDUSTRY'', ''SECTOR'', ''DOMAIN'', ''FIELD'', ''AREA'', ''NICHE'', ''SEGMENT'', ''CATEGORY'',
     ''CLASS'', ''TYPE'', ''KIND'', ''NATURE'', ''CHARACTER'', ''FEATURE'', ''ATTRIBUTE'', ''QUALITY'',
     ''PROPERTY'', ''ASPECT'', ''FACTOR'', ''ELEMENT'', ''COMPONENT'', ''PART'', ''PIECE'', ''UNIT'', ''MODULE'',
     ''SYSTEM'', ''STRUCTURE'', ''FRAMEWORK'', ''MODEL'', ''SCHEMA'', ''TEMPLATE'', ''PATTERN'', ''FORMULA'',
     ''RECIPE'', ''METHOD'', ''TECHNIQUE'', ''APPROACH'', ''STRATEGY'', ''TACTIC'', ''PLAN'', ''PROGRAM'',
     ''PROJECT'', ''CAMPAIGN'', ''INITIATIVE'', ''ACTION'', ''ACTIVITY'', ''TASK'', ''OPERATION'', ''PROCESS'',
     ''PROCEDURE'', ''PRACTICE'', ''ROUTINE'', ''HABIT'', ''CUSTOM'', ''TRADITION'', ''CONVENTION'', ''NORM'',
     ''STANDARD'', ''GUIDELINE'', ''POLICY'', ''REGULATION'', ''RULE'', ''LAW'', ''MANDATE'', ''ORDER'',
     ''DIRECTIVE'', ''INSTRUCTION'', ''REQUIREMENT'', ''SPECIFICATION'', ''CRITERION'', ''MEASURE'',
     ''INDICATOR'', ''METRIC'', ''PARAMETER'', ''VARIABLE'', ''CONSTANT'', ''FACTOR'', ''ELEMENT'', ''AGENT'',
     ''ACTOR'', ''PLAYER'', ''PARTICIPANT'', ''STAKEHOLDER'', ''INTEREST'', ''MOTIVE'', ''REASON'', ''CAUSE'',
     ''SOURCE'', ''ORIGIN'', ''ROOT'', ''BASIS'', ''FOUNDATION'', ''GROUND'', ''PRINCIPLE'', ''CONCEPT'',
     ''IDEA'', ''THOUGHT'', ''NOTION'', ''BELIEF'', ''OPINION'', ''VIEW'', ''PERSPECTIVE'', ''ANGLE'',
     ''POSITION'', ''STANDPOINT'', ''APPROACH'', ''METHOD'', ''MODE'', ''MEANS'', ''MEDIUM'', ''CHANNEL'',
     ''VEHICLE'', ''INSTRUMENT'', ''TOOL'', ''DEVICE'', ''APPLIANCE'', ''EQUIPMENT'', ''MACHINERY'', ''HARDWARE'',
     ''SOFTWARE'', ''TECHNOLOGY'', ''SYSTEM'', ''INFRASTRUCTURE'', ''FACILITY'', ''RESOURCE'', ''MATERIAL'',
     ''SUBSTANCE'', ''PRODUCT'', ''GOOD'', ''SERVICE'', ''SOLUTION'', ''OFFERING'', ''PROPOSITION'', ''VALUE'',
     ''BENEFIT'', ''ADVANTAGE'', ''FEATURE'', ''FUNCTION'', ''UTILITY'', ''USEFULNESS'', ''APPLICABILITY'',
     ''RELEVANCE'', ''SIGNIFICANCE'', ''IMPORTANCE'', ''IMPACT'', ''EFFECT'', ''INFLUENCE'', ''CONSEQUENCE'',
     ''OUTCOME'', ''RESULT'', ''ACHIEVEMENT'', ''SUCCESS'', ''ACCOMPLISHMENT'', ''ATTAINMENT'', ''REALIZATION'',
     ''FULFILLMENT'', ''SATISFACTION'', ''PLEASURE'', ''ENJOYMENT'', ''HAPPINESS'', ''JOY'', ''DELIGHT'',
     ''BLISS'', ''ECSTASY'', ''EUPHORIA'', ''CONTENTMENT'', ''COMFORT'', ''RELIEF'', ''EASE'', ''PEACE'',
     ''TRANQUILITY'', ''SERENITY'', ''CALM'', ''REST'', ''RELAXATION'', ''REPOSE'', ''LEISURE'', ''FREEDOM'',
     ''LIBERTY'', ''INDEPENDENCE'', ''AUTONOMY'', ''SELF-DETERMINATION'', ''CHOICE'', ''OPTION'', ''ALTERNATIVE'',
     ''POSSIBILITY'', ''OPPORTUNITY'', ''PROSPECT'', ''POTENTIAL'', ''CAPABILITY'', ''CAPACITY'', ''POWER'',
     ''STRENGTH'', ''FORCE'', ''ENERGY'', ''VIGOR'', ''VITALITY'', ''LIFE'', ''SPIRIT'', ''SOUL'', ''HEART'',
     ''MIND'', ''INTELLECT'', ''REASON'', ''LOGIC'', ''SENSE'', ''WISDOM'', ''KNOWLEDGE'', ''UNDERSTANDING'',
     ''INSIGHT'', ''AWARENESS'', ''CONSCIOUSNESS'', ''PERCEPTION'', ''INTUITION'', ''INSTINCT'', ''FEELING'',
     ''EMOTION'', ''PASSION'', ''DESIRE'', ''APPETITE'', ''HUNGER'', ''THIRST'', ''CRAVING'', ''URGE'',
     ''IMPULSE'', ''DRIVE'', ''MOTIVATION'', ''AMBITION'', ''ASPIRATION'', ''GOAL'', ''OBJECTIVE'', ''TARGET'',
     ''AIM'', ''PURPOSE'', ''INTENTION'', ''PLAN'', ''DESIGN'', ''SCHEME'', ''STRATEGY'', ''TACTIC'', ''METHOD'',
     ''APPROACH'', ''TECHNIQUE'', ''PROCEDURE'', ''PROCESS'', ''OPERATION'', ''ACTION'', ''ACTIVITY'',
     ''PRACTICE'', ''EXERCISE'', ''EFFORT'', ''ENDEAVOR'', ''UNDERTAKING'', ''PROJECT'', ''VENTURE'',
     ''ENTERPRISE'', ''BUSINESS'', ''COMPANY'', ''ORGANIZATION'', ''INSTITUTION'', ''AGENCY'', ''AUTHORITY'',
     ''ADMINISTRATION'', ''GOVERNMENT'', ''STATE'', ''NATION'', ''COUNTRY'', ''LAND'', ''REGION'', ''TERRITORY'',
     ''DOMAIN'', ''REALM'', ''WORLD'', ''UNIVERSE'', ''COSMOS'', ''NATURE'', ''ENVIRONMENT'', ''EARTH'',
     ''PLANET'', ''GLOBE'', ''WORLD'', ''UNIVERSE'', ''COSMOS'', ''SPACE'', ''GALAXY'', ''STAR'', ''SUN'',
     ''MOON'', ''PLANET'', ''COMET'', ''ASTEROID'', ''METEOR'', ''SATELLITE'', ''ORBIT'', ''GRAVITY'', ''FORCE'',
     ''ENERGY'', ''MATTER'', ''PARTICLE'', ''ATOM'', ''MOLECULE'', ''COMPOUND'', ''ELEMENT'', ''MINERAL'',
     ''ROCK'', ''STONE'', ''CRYSTAL'', ''GEM'', ''METAL'', ''ALLOY'', ''ORE'', ''SOIL'', ''SAND'', ''CLAY'',
     ''MUD'', ''DIRT'', ''DUST'', ''ASH'', ''SMOKE'', ''STEAM'', ''VAPOR'', ''MIST'', ''FOG'', ''CLOUD'',
     ''RAIN'', ''SNOW'', ''ICE'', ''HAIL'', ''SLEET'', ''DEW'', ''FROST'', ''GLACIER'', ''AVALANCHE'',
     ''LANDSLIDE'', ''EARTHQUAKE'', ''VOLCANO'', ''ERUPTION'', ''TSUNAMI'', ''FLOOD'', ''STORM'', ''HURRICANE'',
     ''TYPHOON'', ''CYCLONE'', ''TORNADO'', ''TWISTER'', ''WHIRLWIND'', ''BLIZZARD'', ''SNOWSTORM'',
     ''THUNDERSTORM'', ''LIGHTNING'', ''THUNDER'', ''RAINBOW'', ''AURORA'', ''ECLIPSE'', ''SOLSTICE'',
     ''EQUINOX'', ''SEASON'', ''SPRING'', ''SUMMER'', ''AUTUMN'', ''WINTER'', ''CLIMATE'', ''WEATHER'',
     ''TEMPERATURE'', ''HEAT'', ''COLD'', ''WARMTH'', ''COOLNESS'', ''HUMIDITY'', ''DRYNESS'', ''WIND'',
     ''BREEZE'', ''GUST'', ''BLAST'', ''STORM'', ''GALE'', ''HURRICANE'', ''TYPHOON'', ''CYCLONE'', ''TORNADO'',
     ''TWISTER'', ''WHIRLWIND'', ''BLIZZARD'', ''SNOWSTORM'', ''THUNDERSTORM'', ''LIGHTNING'', ''THUNDER'',
     ''RAINBOW'', ''AURORA'', ''ECLIPSE'', ''SOLSTICE'', ''EQUINOX'', ''SEASON'', ''SPRING'', ''SUMMER'',
     ''AUTUMN'', ''WINTER'', ''CLIMATE'', ''WEATHER'', ''TEMPERATURE'', ''HEAT'', ''COLD'', ''WARMTH'',
     ''COOLNESS'', ''HUMIDITY'', ''DRYNESS'', ''WIND'', ''BREEZE'', ''GUST'', ''BLAST'', ''STORM'', ''GALE'',
     ''FIRE'', ''FLAME'', ''BLAZE'', ''INFERNO'', ''CONFLAGRATION'', ''EXPLOSION'', ''DETONATION'', ''BLAST'',
     ''BOOM'', ''BANG'', ''CRASH'', ''COLLISION'', ''IMPACT'', ''HIT'', ''STRIKE'', ''BLOW'', ''PUNCH'', ''KICK'',
     ''SLAP'', ''SMACK'', ''BASH'', ''BANG'', ''THUMP'', ''THUD'', ''CLAP'', ''SLAM'', ''SMASH'', ''CRUSH'',
     ''SQUASH'', ''STOMP'', ''TRAMPLE'', ''TREAD'', ''WALK'', ''RUN'', ''JUMP'', ''LEAP'', ''HOP'', ''SKIP'',
     ''BOUNCE'', ''FLY'', ''SOAR'', ''GLIDE'', ''FLOAT'', ''DRIFT'', ''SAIL'', ''SWIM'', ''DIVE'', ''PLUNGE'',
     ''SINK'', ''SUBMERGE'', ''EMERGE'', ''SURFACE'', ''RISE'', ''ASCEND'', ''CLIMB'', ''SCALE'', ''MOUNT'',
     ''DESCEND'', ''FALL'', ''DROP'', ''PLUMMET'', ''TUMBLE'', ''ROLL'', ''SLIDE'', ''SLIP'', ''SKID'', ''GLIDE'',
     ''SWERVE'', ''VEER'', ''TURN'', ''TWIST'', ''BEND'', ''FLEX'', ''STRETCH'', ''REACH'', ''GRASP'', ''GRAB'',
     ''HOLD'', ''CLUTCH'', ''CLING'', ''HUG'', ''EMBRACE'', ''KISS'', ''TOUCH'', ''FEEL'']"

definition subcategories :: "string list" where
  "subcategories = [
     ''USAGE'', ''TEMP'', ''ERROR'', ''LOAD'', ''CAPACITY'', ''THROUGHPUT'', ''LATENCY'', ''BANDWIDTH'',
     ''EFFICIENCY'', ''DENSITY'', ''VOLATILITY'', ''DURATION'', ''FREQUENCY'', ''INTENSITY'', ''MAGNITUDE'',
     ''VARIANCE'', ''DEVIATION'', ''PRECISION'', ''ACCURACY'', ''RELIABILITY'', ''AVAILABILITY'',
     ''SUSTAINABILITY'', ''PERFORMANCE'', ''SPEED'', ''VELOCITY'', ''ACCELERATION'', ''FORCE'', ''POWER'',
     ''ENERGY'', ''WORK'', ''PRESSURE'', ''VOLUME'', ''DENSITY'', ''MASS'', ''WEIGHT'', ''GRAVITY'',
     ''TEMPERATURE'', ''HEAT'', ''LIGHT'', ''COLOR'', ''BRIGHTNESS'', ''LUMINANCE'', ''ILLUMINATION'', ''SOUND'',
     ''VOLUME'', ''PITCH'', ''TONE'', ''FREQUENCY'', ''RHYTHM'', ''MELODY'', ''HARMONY'', ''NOISE'', ''SIGNAL'',
     ''WAVE'', ''VIBRATION'', ''PULSE'', ''FLUX'', ''FLOW'', ''CURRENT'', ''STREAM'', ''WIND'', ''WAVE'',
     ''TIDE'', ''MOISTURE'', ''HUMIDITY'', ''DRYNESS'', ''WETNESS'', ''LIQUID'', ''SOLID'', ''GAS'', ''PLASMA'',
     ''CHEMISTRY'', ''COMPOSITION'', ''MIXTURE'', ''SOLUTION'', ''REACTION'', ''OXIDATION'', ''REDUCTION'',
     ''PH'', ''CONCENTRATION'', ''PURITY'', ''TOXICITY'', ''POLLUTION'', ''CONTAMINATION'', ''RADIATION'',
     ''IONIZATION'', ''CONDUCTIVITY'', ''RESISTIVITY'', ''CAPACITANCE'', ''INDUCTANCE'', ''MAGNETISM'',
     ''ELECTROMAGNETISM'', ''CHARGE'', ''VOLTAGE'', ''CURRENT'', ''RESISTANCE'', ''IMPEDANCE'', ''ADMITTANCE'',
     ''REACTANCE'', ''POLARIZATION'', ''OPTICS'', ''REFLECTION'', ''REFRACTION'', ''DIFFRACTION'',
     ''INTERFERENCE'', ''ABSORPTION'', ''TRANSMISSION'', ''EMISSION'', ''LUMINESCENCE'', ''FLUORESCENCE'',
     ''PHOSPHORESCENCE'', ''LASER'', ''FIBER'', ''OPTICS'', ''IMAGE'', ''PICTURE'', ''PHOTO'', ''GRAPHIC'',
     ''DESIGN'', ''PATTERN'', ''TEXTURE'', ''SHAPE'', ''SIZE'', ''DIMENSION'', ''ANGLE'', ''POSITION'',
     ''ORIENTATION'', ''DIRECTION'', ''LOCATION'', ''DISTANCE'', ''RANGE'', ''DEPTH'', ''HEIGHT'', ''WIDTH'',
     ''LENGTH'', ''AREA'', ''VOLUME'', ''DENSITY'', ''MASS'', ''WEIGHT'', ''FORCE'', ''TORQUE'', ''MOMENTUM'',
     ''IMPULSE'', ''ENERGY'', ''POWER'', ''WORK'', ''HEAT'', ''TEMPERATURE'', ''PRESSURE'', ''VIBRATION'',
     ''SHOCK'', ''STRESS'', ''STRAIN'', ''FATIGUE'', ''FAILURE'', ''BREAKAGE'', ''CRACK'', ''LEAK'', ''WEAR'',
     ''CORROSION'', ''EROSION'', ''FRICTION'', ''LUBRICATION'', ''COOLING'', ''HEATING'', ''VENTILATION'',
     ''FILTRATION'', ''SEPARATION'', ''PURIFICATION'', ''STERILIZATION'', ''DISINFECTION'', ''CLEANING'',
     ''WASHING'', ''DRAINING'', ''DRYING'', ''COATING'', ''PAINTING'', ''PLATING'', ''POLISHING'', ''GRINDING'',
     ''CUTTING'', ''DRILLING'', ''MILLING'', ''TURNING'', ''WELDING'', ''SOLDERING'', ''BONDING'', ''FASTENING'',
     ''JOINING'', ''ASSEMBLY'', ''DISASSEMBLY'', ''INSTALLATION'', ''REMOVAL'', ''REPLACEMENT'', ''REPAIR'',
     ''MAINTENANCE'', ''SERVICE'', ''INSPECTION'', ''TESTING'', ''CALIBRATION'', ''ADJUSTMENT'', ''ALIGNMENT'',
     ''BALANCING'', ''TUNING'', ''PROGRAMMING'', ''CONFIGURATION'', ''SETUP'', ''INITIALIZATION'', ''STARTUP'',
     ''SHUTDOWN'', ''RESET'', ''ENABLE'', ''DISABLE'', ''ACTIVATE'', ''DEACTIVATE'', ''OPEN'', ''CLOSE'',
     ''LOCK'', ''UNLOCK'', ''SWITCH'', ''SELECT'', ''CHANGE'', ''CONVERT'', ''TRANSFORM'', ''TRANSLATE'',
     ''ROTATE'', ''SCALE'', ''MIRROR'', ''COPY'', ''PASTE'', ''CUT'', ''DELETE'', ''INSERT'', ''REMOVE'', ''ADD'',
     ''SUBTRACT'', ''MULTIPLY'', ''DIVIDE'', ''INCREASE'', ''DECREASE'', ''EXPAND'', ''CONTRACT'', ''STRETCH'',
     ''COMPRESS'', ''INFLATE'', ''DEFLATE'', ''FILL'', ''EMPTY'', ''LOAD'', ''UNLOAD'', ''CHARGE'', ''DISCHARGE'',
     ''FUEL'', ''REFUEL'', ''PUMP'', ''SIPHON'', ''FLOW'', ''STREAM'', ''SPRAY'', ''SPREAD'', ''DISPERSE'',
     ''DISSIPATE'', ''EVAPORATE'', ''CONDENSE'', ''FREEZE'', ''MELT'', ''SOLIDIFY'', ''LIQUEFY'', ''GASIFY'',
     ''CRYSTALLIZE'', ''PRECIPITATE'', ''DEPOSIT'', ''SEDIMENT'', ''COAGULATE'', ''FLOCCULATE'', ''EMULSIFY'',
     ''HOMOGENIZE'', ''AGITATE'', ''STIR'', ''SHAKE'', ''MIX'', ''BLEND'', ''COMBINE'', ''SEPARATE'', ''SORT'',
     ''FILTER'', ''SIEVE'', ''SCREEN'', ''DISTILL'', ''EXTRACT'', ''ABSORB'', ''ADSORB'', ''IONIZE'',
     ''ELECTRIFY'', ''MAGNETIZE'', ''POLARIZE'', ''CHARGE'', ''DISCHARGE'', ''ENERGIZE'', ''DE-ENERGIZE'',
     ''ILLUMINATE'', ''LIGHT'', ''BRIGHTEN'', ''DIM'', ''SHADE'', ''COLOR'', ''TINT'', ''TONE'', ''SHADE'',
     ''HUE'', ''SATURATE'', ''DESATURATE'', ''FADE'', ''BLEACH'', ''DYE'', ''PAINT'', ''COAT'', ''COVER'',
     ''WRAP'', ''ENCLOSE'', ''PROTECT'', ''GUARD'', ''SHIELD'', ''DEFEND'', ''SECURE'', ''SAFEGUARD'',
     ''PRESERVE'', ''CONSERVE'', ''SAVE'', ''RESCUE'', ''RECOVER'', ''RETRIEVE'', ''RECLAIM'', ''RECYCLE'',
     ''REUSE'', ''REDUCE'', ''ELIMINATE'', ''ERADICATE'', ''DESTROY'', ''DEMOLISH'', ''RUIN'', ''DAMAGE'',
     ''HARM'', ''INJURE'', ''HURT'', ''WOUND'', ''KILL'', ''SLAY'', ''ASSASSINATE'', ''EXECUTE'', ''ELIMINATE'',
     ''ERADICATE'', ''EXTINGUISH'', ''ANNIHILATE'', ''OBLITERATE'', ''DECIMATE'', ''RAVAGE'', ''DEVASTATE'',
     ''DESOLATE'', ''WASTE'', ''SQUANDER'', ''DEPLETE'', ''EXHAUST'', ''DRAIN'', ''EXPEND'', ''CONSUME'', ''USE'',
     ''UTILIZE'', ''EMPLOY'', ''OPERATE'', ''MANAGE'', ''CONTROL'', ''COMMAND'', ''DIRECT'', ''GUIDE'', ''LEAD'',
     ''GOVERN'', ''RULE'', ''ADMINISTER'', ''SUPERVISE'', ''OVERSEE'', ''INSPECT'', ''MONITOR'', ''WATCH'',
     ''OBSERVE'', ''SURVEY'', ''SCAN'', ''SEARCH'', ''EXPLORE'', ''INVESTIGATE'', ''EXAMINE'', ''STUDY'',
     ''RESEARCH'', ''ANALYZE'', ''ASSESS'', ''EVALUATE'', ''APPRAISE'', ''REVIEW'', ''AUDIT'', ''CHECK'',
     ''TEST'', ''PROVE'', ''DEMONSTRATE'', ''EXHIBIT'', ''DISPLAY'', ''SHOW'', ''PRESENT'', ''ILLUSTRATE'',
     ''DEPICT'', ''PORTRAY'', ''REPRESENT'', ''SIMULATE'', ''IMITATE'', ''MIMIC'', ''REPLICATE'', ''REPRODUCE'',
     ''COPY'', ''DUPLICATE'', ''CLONE'', ''EMULATE'', ''MATCH'', ''EQUAL'', ''RIVAL'', ''COMPETE'', ''OPPOSE'',
     ''RESIST'', ''DEFY'', ''CONFRONT'', ''CHALLENGE'', ''CONTEND'', ''DISPUTE'', ''ARGUE'', ''DEBATE'',
     ''DISCUSS'', ''TALK'', ''SPEND'', ''CONVERSE'', ''COMMUNICATE'', ''SHARE'', ''EXCHANGE'', ''TRANSMIT'',
     ''TRANSFER'', ''TRANSPORT'', ''CARRY'', ''MOVE'', ''SHIFT'', ''RELOCATE'', ''DISPLACE'', ''REMOVE'',
     ''DISPOSE'', ''DISCARD'', ''ABANDON'', ''FORSAKE'', ''NEGLECT'', ''IGNORE'', ''NEGLECT'', ''IGNORE'',
     ''NEGLECT'']"

definition data_types :: "string list" where
  "data_types = [''int'', ''float'', ''bool'']"

text \<open>No word contains a separator of the key format.\<close>

fun plain :: "string \<Rightarrow> bool" where
  "plain [] = True"
| "plain (c # w) = (c \<noteq> CHR ''_'' \<and> c \<noteq> CHR ''&'' \<and> c \<noteq> CHR ''@'' \<and> c \<noteq> CHR 0x00 \<and> plain w)"

lemma plainD: "plain w \<Longrightarrow> CHR ''_'' \<notin> set w \<and> CHR ''&'' \<notin> set w \<and> CHR ''@'' \<notin> set w \<and> CHR 0x00 \<notin> set w"
  by (induction w) auto

lemma categories_plain: "list_all (\<lambda>w. w \<noteq> [] \<and> length w \<le> 20 \<and> plain w) categories"
  by (simp add: categories_def)

lemma length_categories: "length categories = 895"
  by (simp add: categories_def)

lemma subcategories_plain: "list_all (\<lambda>w. w \<noteq> [] \<and> length w \<le> 20 \<and> plain w) subcategories"
  by (simp add: subcategories_def)

lemma length_subcategories: "length subcategories = 459"
  by (simp add: subcategories_def)

end
