(* ===== verification/Server_Main.thy ===== *)
theory Server_Main
  imports Item_Words Sample_Run
begin

text \<open>
  Starting the server: the configuration (\<open>config/tsconfig.cpp\<close>), the item identifiers
  (\<open>ItemIdGenerator\<close> in \<open>utils/TS_key_master.h\<close>) and the initial data that \<open>main\<close> of
  \<open>server/src/proxy_server.cpp\<close> hands to \<open>waffle_proxy::init\<close>.  The lines of a file are an argument.
\<close>

subsection \<open>Item identifiers\<close>

text \<open>
  \<open>generate_single_id\<close>: the random suffix is drawn before the data type; a draw from a uniform distribution
  over \<open>n\<close> values is the next number of the stream modulo \<open>n\<close>.
\<close>

definition generate_random_int :: "rand_stream \<Rightarrow> nat \<Rightarrow> int \<Rightarrow> int \<Rightarrow> int" where
  "generate_random_int rnd pos mn mx = mn + int (rnd pos) mod (mx - mn + 1)"

definition generate_single_id :: "rand_stream \<Rightarrow> nat \<Rightarrow> nat \<Rightarrow> nat \<Rightarrow> int \<Rightarrow> string \<times> nat" where
  "generate_single_id rnd pos categoryIndex subcategoryIndex index =
     (let randomSuffix = generate_random_int rnd pos 100 999 in
      (categories ! categoryIndex @ ''_'' @ subcategories ! subcategoryIndex @ ''_'' @ to_string index @ ''_'' @
       to_string randomSuffix @ ''&'' @ data_types ! (rnd (pos + 1) mod length data_types) @ ''&'', pos + 2))"

text \<open>The indices after one round of the loop in \<open>generate_item_ids\<close>.\<close>

definition next_indices :: "nat \<Rightarrow> nat \<Rightarrow> nat \<times> nat" where
  "next_indices categoryIndex subcategoryIndex =
     (let sub = subcategoryIndex + 1 in
      if length subcategories \<le> sub
      then (let cat = categoryIndex + 1 in (if length categories \<le> cat then 0 else cat, 0))
      else (categoryIndex, sub))"

fun generate_ids ::
  "nat \<Rightarrow> rand_stream \<Rightarrow> nat \<Rightarrow> nat \<Rightarrow> nat \<Rightarrow> nat \<Rightarrow> int \<Rightarrow> string list \<Rightarrow> string list \<Rightarrow> string list res" where
  "generate_ids 0 rnd want pos cat sub index unique_ids item_ids =
     (if length unique_ids < want then Inl Out_of_fuel else Inr item_ids)"
| "generate_ids (Suc fuel) rnd want pos cat sub index unique_ids item_ids =
     (if \<not> length unique_ids < want then Inr item_ids
      else let (id, pos') = generate_single_id rnd pos cat sub index; (cat', sub') = next_indices cat sub in
        bindR (add32 index 1) (\<lambda>index'.
        if id \<notin> set unique_ids
        then generate_ids fuel rnd want pos' cat' sub' index' (id # unique_ids) (item_ids @ [id])
        else generate_ids fuel rnd want pos' cat' sub' index' unique_ids item_ids))"

text \<open>The comparison \<open>unique_ids.size() < no_item_ids\<close> converts the \<open>int\<close> to an unsigned 64-bit number.\<close>

definition generate_item_ids :: "nat \<Rightarrow> rand_stream \<Rightarrow> nat \<Rightarrow> int \<Rightarrow> string list res" where
  "generate_item_ids fuel rnd pos no_item_ids =
     generate_ids fuel rnd (nat (no_item_ids mod 2 ^ 64)) pos 0 0 0 [] []"

fun read_item_ids :: "string list \<Rightarrow> int \<Rightarrow> string list \<Rightarrow> string list" where
  "read_item_ids [] no_item_ids item_ids = item_ids"
| "read_item_ids (line # file) no_item_ids item_ids =
     (if 0 < no_item_ids then read_item_ids file (no_item_ids - 1) (item_ids @ [line]) else item_ids)"

subsection \<open>The configuration\<close>

definition benchmark_no_items :: int where "benchmark_no_items = 1000"

definition waffleConfig_N :: int where "waffleConfig_N = 100000"

text \<open>The fields \<open>main\<close> copies from \<open>waffleConfig\<close>, and the bulk length, which keeps its default.\<close>

definition waffleConfig :: config where
  "waffleConfig = \<lparr>cfg_R = 800, cfg_B = 1200, cfg_F = 100, cfg_D = 100000, object_size = 1024, cacheBatches = 2,
     redisBulkLength = 52870\<rparr>"

subsection \<open>The initial data\<close>

text \<open>Integer division of C++, which truncates towards zero and is undefined for the divisor 0.\<close>

definition int_div :: "int \<Rightarrow> int \<Rightarrow> int res" where
  "int_div a b = (if b = 0 then Inl Undefined_behaviour else Inr (sgn a * sgn b * (\<bar>a\<bar> div \<bar>b\<bar>)))"

text \<open>
  One pair of the loop in \<open>main\<close>.  A key longer than the object size makes the length argument of the
  string wrap around; the constructor throws and nobody catches.
\<close>

definition start_pair :: "nat \<Rightarrow> string \<Rightarrow> int \<Rightarrow> (string \<times> string) res" where
  "start_pair osize item i =
     (let key = item @ ''@'' @ to_string (1700000000 - i - 1) in
      if osize < length key then Inl Aborted
      else Inr (key, key @ replicate (osize - length key) CHR ''a''))"

definition initial_data :: "nat \<Rightarrow> int \<Rightarrow> int \<Rightarrow> string list \<Rightarrow> (string list \<times> string list) res" where
  "initial_data osize N num_items items =
     bindR (int_div N num_items) (\<lambda>num_per_item.
     foldR (\<lambda>item. foldR (\<lambda>i (keys, vals). bindR (start_pair osize item i) (\<lambda>(k, v). Inr (keys @ [k], vals @ [v])))
         (map int [0..<nat num_per_item])) items ([], []))"

text \<open>\<open>getKeysValues\<close> on the lines of the trace file: \<open>SET key value\<close>, the first blank ends the operation.\<close>

definition blank_split :: "string \<Rightarrow> string \<times> string" where
  "blank_split s = (case str_find s CHR '' '' 0 of None \<Rightarrow> (s, s) | Some i \<Rightarrow> (take i s, drop (i + 1) s))"

definition parse_line :: "string \<Rightarrow> (string \<times> string) res" where
  "parse_line line =
     (let key = snd (blank_split line);
          (key', val) = (if str_find key CHR '' '' 0 \<noteq> None then blank_split key else (key, ''''))
      in if val = '''' then Inl Assertion_failed
         else if key' = ''SET'' then Inl Assertion_failed else Inr (key', val))"

definition getKeysValues :: "string list \<Rightarrow> string list \<times> string list \<Rightarrow> (string list \<times> string list) res" where
  "getKeysValues lines kv =
     foldR (\<lambda>line (keys, vals). bindR (parse_line line) (\<lambda>(k, v). Inr (keys @ [k], vals @ [v]))) lines kv"

definition load_data :: "nat \<Rightarrow> int \<Rightarrow> int \<Rightarrow> string \<Rightarrow> string list \<Rightarrow> string list \<Rightarrow> (string list \<times> string list) res" where
  "load_data osize N num_items trace_location item_lines trace_lines =
     (if trace_location = '''' then initial_data osize N num_items (read_item_ids item_lines num_items [])
      else getKeysValues trace_lines ([], []))"

subsection \<open>Identifiers are distinct, well-formed and typed\<close>

lemma split_first:
  assumes "x \<notin> set a" and "x \<notin> set b" and "a @ x # r = b @ x # r'"
  shows "a = b \<and> r = r'"
proof -
  have "takeWhile (\<lambda>y. y \<noteq> x) (c @ x # t) = c" if "x \<notin> set c" for c t
    using that by (induction c) auto
  then have "a = b" using assms by metis
  then show ?thesis using assms(3) by simp
qed

lemma words_plain:
  assumes "cat < length categories" and "sub < length subcategories"
  shows "plain (categories ! cat)" "categories ! cat \<noteq> []" "plain (subcategories ! sub)"
  using categories_plain subcategories_plain assms by (auto simp: list_all_length)

lemma single_id_index:
  assumes "cat < length categories" and "sub < length subcategories" and "cat' < length categories" and "sub' < length subcategories"
    and "fst (generate_single_id rnd pos cat sub i) = fst (generate_single_id rnd pos' cat' sub' i')"
  shows "i = i'"
proof -
  note W = words_plain(1,3) [OF assms(1,2), THEN plainD] words_plain(1,3) [OF assms(3,4), THEN plainD]
  obtain t where t: "fst (generate_single_id rnd pos cat sub i) = categories ! cat @ CHR ''_'' # subcategories ! sub @ CHR ''_'' # to_string i @ CHR ''_'' # t"
    by (simp add: generate_single_id_def Let_def)
  obtain t' where t': "fst (generate_single_id rnd pos' cat' sub' i') = categories ! cat' @ CHR ''_'' # subcategories ! sub' @ CHR ''_'' # to_string i' @ CHR ''_'' # t'"
    by (simp add: generate_single_id_def Let_def)
  have u: "CHR ''_'' \<notin> set (to_string j)" for j using to_string_chars [of "CHR ''_''" j] by auto
  have "subcategories ! sub @ CHR ''_'' # to_string i @ CHR ''_'' # t = subcategories ! sub' @ CHR ''_'' # to_string i' @ CHR ''_'' # t'"
    using split_first [of "CHR ''_''" "categories ! cat" "categories ! cat'"] W assms(5) t t' by simp
  then have "to_string i @ CHR ''_'' # t = to_string i' @ CHR ''_'' # t'"
    using split_first [of "CHR ''_''" "subcategories ! sub" "subcategories ! sub'"] W by simp
  then have "to_string i = to_string i'" using split_first [OF u u] by blast
  then show ?thesis by simp
qed


lemma single_id_ok:
  assumes "cat < length categories" and "sub < length subcategories"
  shows "wf_item (fst (generate_single_id rnd pos cat sub i)) \<and> CHR 0x00 \<notin> set (fst (generate_single_id rnd pos cat sub i))"
    "get_data_type (fst (generate_single_id rnd pos cat sub i)) \<in> set data_types"
    "snd (generate_single_id rnd pos cat sub i) = pos + 2"
proof -
  note W = words_plain(1,3) [OF assms, THEN plainD] words_plain(2) [OF assms]
  let ?t = "data_types ! (rnd (pos + 1) mod length data_types)" and ?n = "to_string (generate_random_int rnd pos 100 999)"
  let ?p = "categories ! cat @ ''_'' @ subcategories ! sub @ ''_'' @ to_string i @ ''_'' @ ?n"
  have id: "fst (generate_single_id rnd pos cat sub i) = ?p @ CHR ''&'' # ?t @ CHR ''&'' # []"
    by (simp add: generate_single_id_def Let_def)
  have "rnd (pos + 1) mod length data_types < length data_types" by (simp add: data_types_def)
  then have t: "?t \<in> set data_types" by simp
  then have ts: "plain ?t" by (auto simp: data_types_def)
  have z: "CHR 0x00 \<notin> set (to_string j)" for j using to_string_chars [of "CHR 0x00" j] by (auto simp: is_digit_def)
  have amp: "CHR ''&'' \<notin> set ?p" using W by auto
  show "wf_item (fst (generate_single_id rnd pos cat sub i)) \<and> CHR 0x00 \<notin> set (fst (generate_single_id rnd pos cat sub i))"
    using W plainD [OF ts] z by (auto simp: id wf_item_def)
  have f1: "str_find (?p @ CHR ''&'' # ?t @ CHR ''&'' # []) CHR ''&'' 0 = Some (length ?p)" by (rule str_find_first [OF amp])
  have "drop (length ?p + 1) (?p @ CHR ''&'' # ?t @ CHR ''&'' # []) = ?t @ CHR ''&'' # []" by (simp only: drop_append drop_Suc) simp
  then have f2: "str_find (?p @ CHR ''&'' # ?t @ CHR ''&'' # []) CHR ''&'' (length ?p + 1) = Some (length ?p + 1 + length ?t)"
    and d: "drop (length ?p + 1) (?p @ CHR ''&'' # ?t @ CHR ''&'' # []) = ?t @ CHR ''&'' # []"
    using index_from_first [of "CHR ''&''" ?t "[]" "length ?p + 1", OF plainD [OF ts, THEN conjunct2, THEN conjunct1]]
    by (simp_all only: str_find_def)
  have "get_data_type (?p @ CHR ''&'' # ?t @ CHR ''&'' # []) = ?t"
    unfolding get_data_type_def f1 option.case f2 d by simp
  then show "get_data_type (fst (generate_single_id rnd pos cat sub i)) \<in> set data_types" using t id by simp
  show "snd (generate_single_id rnd pos cat sub i) = pos + 2" by (simp add: generate_single_id_def Let_def)
qed

lemma next_indices_bounds:
  assumes "cat < length categories" and "sub < length subcategories" and "next_indices cat sub = (cat', sub')"
  shows "cat' < length categories" "sub' < length subcategories"
  using assms by (auto simp: next_indices_def Let_def length_categories length_subcategories split: if_splits)

definition made_before :: "rand_stream \<Rightarrow> int \<Rightarrow> string list \<Rightarrow> bool" where
  "made_before rnd index ids \<longleftrightarrow> (\<forall>x \<in> set ids. \<exists>pos cat sub i. x = fst (generate_single_id rnd pos cat sub i) \<and>
     cat < length categories \<and> sub < length subcategories \<and> i < index)"

lemma generate_ids_ok:
  assumes "cat < length categories" and "sub < length subcategories" and "made_before rnd index unique_ids"
    and "set item_ids = set unique_ids" and "distinct item_ids" and "length item_ids = length unique_ids"
    and "want - length unique_ids \<le> fuel" and "0 \<le> index" and "index + int (want - length unique_ids) \<le> int_max"
  shows "\<exists>ids j. generate_ids fuel rnd want pos cat sub index unique_ids item_ids = Inr ids \<and> made_before rnd j ids \<and>
    distinct ids \<and> length ids = max want (length item_ids)"
  using assms
proof (induction fuel arbitrary: pos cat sub index unique_ids item_ids)
  case 0
  then show ?case by (auto simp: made_before_def intro!: exI [of _ index])
next
  case (Suc fuel)
  show ?case
  proof (cases "length unique_ids < want")
    case False
    then show ?thesis using Suc.prems by (auto simp: made_before_def intro!: exI [of _ index])
  next
    case True
    let ?id = "fst (generate_single_id rnd pos cat sub index)"
    obtain cat' sub' where ix: "next_indices cat sub = (cat', sub')" by fastforce
    note B = next_indices_bounds [OF Suc.prems(1,2) ix]
    have new: "?id \<notin> set unique_ids"
    proof
      assume "?id \<in> set unique_ids"
      then obtain pos' c s i where i: "?id = fst (generate_single_id rnd pos' c s i)" "c < length categories" "s < length subcategories" "i < index"
        using Suc.prems(3) unfolding made_before_def by blast
      then show False using single_id_index [OF Suc.prems(1,2) i(2,3,1)] by simp
    qed
    have "made_before rnd (index + 1) (?id # unique_ids)"
      using Suc.prems(1-3) unfolding made_before_def by (fastforce intro: order.strict_trans)
    moreover have "fits32 (index + 1)" "index + 1 + int (want - length (?id # unique_ids)) \<le> int_max"
      using Suc.prems(8,9) True by (auto simp: fits32_def int_min_def)
    ultimately have "\<exists>ids j. generate_ids fuel rnd want (pos + 2) cat' sub' (index + 1) (?id # unique_ids) (item_ids @ [?id]) = Inr ids \<and>
        made_before rnd j ids \<and> distinct ids \<and> length ids = max want (length (item_ids @ [?id]))"
      using Suc.prems new by (intro Suc.IH [OF B]) auto
    then show ?thesis
      using True new ix single_id_ok(3) [OF Suc.prems(1,2), of rnd pos index] \<open>fits32 (index + 1)\<close> Suc.prems(6)
      by (auto simp: add32_def case_prod_beta)
  qed
qed

end
