(* ===== verification/Start_Claims.thy ===== *)
theory Start_Claims
  imports Server_Main
begin

text \<open>Properties of the start of the server: the identifiers, the initial data and the configuration.\<close>

section \<open>Item identifiers\<close>

lemma generated_ids_facts:
  assumes "0 \<le> n" and "n \<le> int_max" and "nat n \<le> fuel"
  shows "\<exists>ids. generate_item_ids fuel rnd pos n = Inr ids \<and> int (length ids) = n \<and> distinct ids \<and>
    (\<forall>x \<in> set ids. wf_item x \<and> CHR 0x00 \<notin> set x \<and> get_data_type x \<in> {''int'', ''float'', ''bool''})"
proof -
  have m: "n mod 2 ^ 64 = n" using assms(1,2) by (simp add: int_max_def)
  have "0 < length categories" "0 < length subcategories" by (simp_all add: length_categories length_subcategories)
  then obtain ids j where "generate_ids fuel rnd (nat n) pos 0 0 0 [] [] = Inr ids" "made_before rnd j ids" "distinct ids"
    "length ids = max (nat n) 0"
    using generate_ids_ok [of 0 0 rnd 0 "[]" "[]" "nat n" fuel pos] assms by (auto simp: made_before_def)
  moreover have "wf_item x \<and> CHR 0x00 \<notin> set x \<and> get_data_type x \<in> {''int'', ''float'', ''bool''}" if "x \<in> set ids" for x
    using \<open>made_before rnd j ids\<close> that single_id_ok(1,2) unfolding made_before_def by (fastforce simp: data_types_def)
  ultimately show ?thesis using assms(1) m by (simp add: generate_item_ids_def)
qed

text \<open>
  C18.  Generating item identifiers ends after exactly as many rounds as identifiers are wanted, and yields that
  many distinct identifiers; each is usable as the item of a key and names one of the three data types the
  proxy can sum.
\<close>

theorem generated_ids_typed:
  assumes "0 \<le> n" and "n \<le> int_max" and "nat n \<le> fuel"
  shows "\<exists>ids. generate_item_ids fuel rnd pos n = Inr ids \<and> int (length ids) = n \<and> distinct ids \<and>
    (\<forall>x \<in> set ids. wf_item x \<and> CHR 0x00 \<notin> set x \<and> get_data_type x \<in> {''int'', ''float'', ''bool''})"
  by (rule generated_ids_facts [OF assms])

theorem generated_ids_typed_witness:
  "\<exists>ids. generate_item_ids 10000 (\<lambda>p. p) 0 10000 = Inr ids \<and> length ids = 10000 \<and> distinct ids"
proof -
  have "(0 :: int) \<le> 10000" "10000 \<le> int_max" "nat 10000 \<le> 10000" by (simp_all add: int_max_def)
  from generated_ids_typed [OF this, of "\<lambda>p. p" 0] obtain ids where i: "generate_item_ids 10000 (\<lambda>p. p) 0 10000 = Inr ids"
    "int (length ids) = 10000" "distinct ids" by blast
  then have "length ids = 10000" by linarith
  with i show ?thesis by blast
qed

section \<open>The initial data\<close>

lemma length_nat_str: "n < 10 ^ k \<Longrightarrow> 0 < k \<Longrightarrow> length (nat_str n) \<le> k"
proof (induction k arbitrary: n)
  case (Suc k)
  show ?case
  proof (cases "n < 10")
    case True
    then show ?thesis by (subst nat_str.simps) simp
  next
    case False
    then have "0 < k" using Suc.prems(1) by (cases k) auto
    moreover have "n div 10 < 10 ^ k" using Suc.prems(1) by (simp add: less_mult_imp_div_less mult.commute)
    ultimately have "length (nat_str (n div 10)) \<le> k" using Suc.IH by blast
    then show ?thesis using False by (subst nat_str.simps) simp
  qed
qed simp

definition start_value :: "nat \<Rightarrow> string \<Rightarrow> string" where
  "start_value n k = k @ replicate (n - length k) CHR ''a''"

definition start_key :: "string \<Rightarrow> int \<Rightarrow> string" where
  "start_key item i = ts_key item (1700000000 - i - 1)"

definition start_keys :: "string list \<Rightarrow> string set" where
  "start_keys item_lines = (\<lambda>(x, i). start_key x i) ` (set (take 1000 item_lines) \<times> int ` {..<100})"

lemma start_pair_eq:
  "length (start_key item i) \<le> n \<Longrightarrow> start_pair n item i = Inr (start_key item i, start_value n (start_key item i))"
  by (simp add: start_pair_def start_key_def start_value_def ts_key_def Let_def)

lemma start_item:
  assumes "\<forall>i \<in> set is. length (start_key item i) \<le> n"
  shows "foldR (\<lambda>i (keys, vals). bindR (start_pair n item i) (\<lambda>(k, v). Inr (keys @ [k], vals @ [v]))) is (ks, vs) =
    Inr (ks @ map (start_key item) is, vs @ map (\<lambda>i. start_value n (start_key item i)) is)"
  using assms by (induction "is" arbitrary: ks vs) (auto simp: start_pair_eq)

lemma start_items:
  assumes "\<forall>item \<in> set items. \<forall>i \<in> set is. length (start_key item i) \<le> n" and "keys = map (\<lambda>(x, i). start_key x i) (List.product items is)"
  shows "foldR (\<lambda>item. foldR (\<lambda>i (keys, vals). bindR (start_pair n item i) (\<lambda>(k, v). Inr (keys @ [k], vals @ [v]))) is) items (ks, vs) =
    Inr (ks @ keys, vs @ map (start_value n) keys)"
  using assms by (induction items arbitrary: ks vs keys) (auto simp: start_item comp_def)

lemma read_item_ids_take: "read_item_ids ls n ids = ids @ take (nat n) ls"
  by (induction ls n ids rule: read_item_ids.induct) (auto simp: take_Cons' nat_diff_distrib')

lemma start_key_facts:
  assumes "wf_item item" and "CHR 0x00 \<notin> set item" and "length item \<le> 1013" and "0 \<le> i" and "i < 100"
  shows "canon (start_key item i)" "length (start_key item i) \<le> 1024" "storable (start_value 1024 (start_key item i))"
    "length (start_value 1024 (start_key item i)) = 1024"
proof -
  let ?t = "1700000000 - i - 1"
  show "canon (start_key item i)" using assms by (simp add: start_key_def fits64_def)
  have "length (to_string ?t) \<le> 10"
    using length_nat_str [of "nat ?t" 10] assms(4,5) by (simp add: to_string_def nat_less_iff)
  then show l: "length (start_key item i) \<le> 1024" using assms(3) by (simp add: start_key_def ts_key_def)
  then show "length (start_value 1024 (start_key item i)) = 1024" by (simp add: start_value_def)
  have "CHR 0x00 \<notin> set (to_string ?t)" using to_string_chars [of "CHR 0x00" ?t] by (auto simp: is_digit_def)
  then show "storable (start_value 1024 (start_key item i))"
    using l assms(2) by (auto simp: storable_def start_value_def start_key_def ts_key_def)
qed

text \<open>
  The data the server starts with meets the requirements of the proxy: from a file of at least 1000
  distinct item identifiers it builds 100000 distinct keys, 100 buckets per item, each well-formed with a
  storable value of exactly the object size; and the configured batch parameters satisfy the conditions under which
  every batch succeeds, for queries of up to 301 buckets.
\<close>

theorem server_start_ok:
  assumes "1000 \<le> length item_lines" and "distinct (take 1000 item_lines)"
    and "\<forall>x \<in> set (take 1000 item_lines). wf_item x \<and> CHR 0x00 \<notin> set x \<and> length x \<le> 1013"
  shows "\<exists>keys. load_data (object_size waffleConfig) waffleConfig_N benchmark_no_items '''' item_lines trace_lines =
      Inr (keys, map (start_value 1024) keys) \<and> length keys = 100000 \<and> distinct keys \<and> set keys = start_keys item_lines \<and>
    (\<forall>k \<in> set keys. canon k \<and> storable (start_value 1024 k) \<and> length (start_value 1024 k) = 1024) \<and>
    cfg_ok 100 waffleConfig 301 (length keys - cacheBatches waffleConfig * length keys div 100) (nat (cfg_D waffleConfig)) int_max"
proof -
  let ?items = "take 1000 item_lines" and ?is = "map int [0..<100]"
  define keys where "keys = map (\<lambda>(x, i). start_key x i) (List.product ?items ?is)"
  have F: "canon (start_key x i) \<and> length (start_key x i) \<le> 1024 \<and> storable (start_value 1024 (start_key x i)) \<and>
      length (start_value 1024 (start_key x i)) = 1024" if "x \<in> set ?items" "i \<in> set ?is" for x i
    using start_key_facts [of x i] assms(3) that by auto
  have d: "int_div 100000 1000 = Inr 100" by (simp add: int_div_def)
  have "initial_data 1024 100000 1000 ?items = Inr (keys, map (start_value 1024) keys)"
    using start_items [of ?items ?is 1024 keys "[]" "[]"] F d by (simp add: initial_data_def keys_def)
  then have "load_data (object_size waffleConfig) waffleConfig_N benchmark_no_items '''' item_lines trace_lines =
      Inr (keys, map (start_value 1024) keys)"
    by (simp add: load_data_def waffleConfig_def waffleConfig_N_def benchmark_no_items_def read_item_ids_take)
  moreover have l: "length keys = 100000" using assms(1) by (simp add: keys_def)
  moreover have "distinct keys"
  proof -
    have "distinct (List.product ?items ?is)" using assms(2) by (intro distinct_product) (auto simp: distinct_map)
    moreover have "inj (\<lambda>(x, i). start_key x i)" by (auto simp: inj_def start_key_def)
    ultimately show ?thesis unfolding keys_def distinct_map by (meson inj_on_subset subset_UNIV)
  qed
  moreover have "set keys = start_keys item_lines" by (auto simp: keys_def start_keys_def)
  moreover have "\<forall>k \<in> set keys. canon k \<and> storable (start_value 1024 k) \<and> length (start_value 1024 k) = 1024"
    using F unfolding keys_def by auto
  moreover have "cfg_ok 100 waffleConfig 301 (length keys - cacheBatches waffleConfig * length keys div 100) (nat (cfg_D waffleConfig)) int_max"
    by (simp add: l) (simp add: cfg_ok_def waffleConfig_def int_max_def)
  ultimately show ?thesis by blast
qed

theorem server_start_ok_witness:
  "\<exists>keys. load_data 1024 100000 1000 '''' (map (\<lambda>i. CHR ''x'' # nat_str i) [0..<1000]) [] = Inr (keys, map (start_value 1024) keys) \<and>
     length keys = 100000"
proof -
  let ?l = "map (\<lambda>i. CHR ''x'' # nat_str i) [0..<1000]"
  have "wf_item (CHR ''x'' # nat_str i) \<and> CHR 0x00 \<notin> set (CHR ''x'' # nat_str i) \<and> length (CHR ''x'' # nat_str i) \<le> 1013" if "i < 1000" for i
  proof -
    have "length (nat_str i) \<le> 3" using length_nat_str [of i 3] that by simp
    moreover have "CHR ''@'' \<notin> set (nat_str i)" "CHR 0x00 \<notin> set (nat_str i)" using nat_str_digits [of "CHR ''@''" i] nat_str_digits [of "CHR 0x00" i] by (auto simp: is_digit_def)
    ultimately show ?thesis by (simp add: wf_item_def)
  qed
  then have "\<forall>x \<in> set (take 1000 ?l). wf_item x \<and> CHR 0x00 \<notin> set x \<and> length x \<le> 1013" by simp
  moreover have "distinct (take 1000 ?l)" "1000 \<le> length ?l" by (simp_all add: distinct_map inj_on_def)
  ultimately show ?thesis using server_start_ok [of ?l "[]"]
    by (auto simp: waffleConfig_def waffleConfig_N_def benchmark_no_items_def)
qed

end
