(* ===== verification/Random_Stream.thy ===== *)
theory Random_Stream
  imports Proxy_Init
begin

text \<open>
  A stream of random numbers for which initialisation ends with any number of keys and with up to
  \<open>62 ^ 5\<close> fake keys: it draws every index again and again, and it spells every name of five letters at a place where the
  search for a new fake name looks.  It consists of blocks of 60 numbers.  The first number of block \<open>k\<close> is \<open>k\<close>;
  the numbers 31 to 40 make every search end at position 46; the numbers 47 to 51 are the letters.
\<close>

definition letter :: "nat \<Rightarrow> nat \<Rightarrow> nat" where
  "letter k s = k div 62 ^ s mod 62"

definition spelling :: rand_stream where
  "spelling q = (let k = q div 60; s = q mod 60 in
     if s = 0 then k else if 31 \<le> s \<and> s \<le> 40 then 40 - s else if 47 \<le> s \<and> s \<le> 51 then letter k (s - 47) else 0)"

lemma spelling_at: "s < 60 \<Longrightarrow> spelling (60 * k + s) =
   (if s = 0 then k else if 31 \<le> s \<and> s \<le> 40 then 40 - s else if 47 \<le> s \<and> s \<le> 51 then letter k (s - 47) else 0)"
  by (simp add: spelling_def)

lemma spelling_fair: "0 < n \<Longrightarrow> fair_draws spelling n"
  unfolding fair_draws_def
proof (intro allI impI)
  fix i p :: nat assume i: "i < n"
  let ?k = "p * n + i"
  have "p \<le> 60 * ?k" using i by (cases n) auto
  then have "spelling (p + (60 * ?k - p)) = ?k" using spelling_at [of 0 ?k] by simp
  then have "spelling (p + (60 * ?k - p)) mod n = i" using i by simp
  then show "\<exists>j. spelling (p + j) mod n = i" by blast
qed

text \<open>The places where the search looks.\<close>

definition next_place :: "nat \<Rightarrow> nat" where
  "next_place p = snd (fake_name spelling p)"

lemma next_place: "next_place p = p + (spelling p mod 10 + 6)"
  by (simp add: next_place_def fake_name_def gen_random_def)

lemma next_place_bounds: "p + 6 \<le> next_place p" "next_place p \<le> p + 15"
  using mod_less_divisor [of 10 "spelling p"] by (simp_all add: next_place)

lemma places_grow: "p + n \<le> (next_place ^^ n) p"
proof (induction n)
  case (Suc n)
  then show ?case using next_place_bounds(1) [of "(next_place ^^ n) p"] by simp
qed simp

lemma reaches_block:
  assumes "p \<le> 60 * k"
  shows "\<exists>n s. (next_place ^^ n) p = 60 * k + s \<and> 1 \<le> s \<and> s \<le> 15"
proof -
  define n where "n = (LEAST n. 60 * k < (next_place ^^ n) p)"
  have "60 * k < (next_place ^^ (60 * k + 1)) p" using places_grow [of p "60 * k + 1"] by simp
  then have n: "60 * k < (next_place ^^ n) p" unfolding n_def by (rule LeastI)
  then obtain m where m: "n = Suc m" using assms by (cases n) auto
  then have "(next_place ^^ m) p \<le> 60 * k" using not_less_Least [of m "\<lambda>n. 60 * k < (next_place ^^ n) p"] by (simp add: n_def)
  then have "(next_place ^^ n) p \<le> 60 * k + 15" using next_place_bounds(2) [of "(next_place ^^ m) p"] m by simp
  then show ?thesis using n by (intro exI [of _ n] exI [of _ "(next_place ^^ n) p - 60 * k"]) auto
qed

lemma slides:
  assumes "1 \<le> s" and "s \<le> 36"
  shows "\<exists>n s'. (next_place ^^ n) (60 * k + s) = 60 * k + s' \<and> 31 \<le> s' \<and> s' \<le> 36"
  using assms
proof (induction "36 - s" arbitrary: s rule: less_induct)
  case less
  show ?case
  proof (cases "31 \<le> s")
    case True
    then have "(next_place ^^ 0) (60 * k + s) = 60 * k + s \<and> 31 \<le> s \<and> s \<le> 36" using less.prems by simp
    then show ?thesis by blast
  next
    case False
    have e: "next_place (60 * k + s) = 60 * k + (s + 6)" using less.prems False spelling_at [of s k] by (simp add: next_place)
    have "36 - (s + 6) < 36 - s" "1 \<le> s + 6" "s + 6 \<le> 36" using less.prems False by auto
    then obtain n s' where "(next_place ^^ n) (60 * k + (s + 6)) = 60 * k + s' \<and> 31 \<le> s' \<and> s' \<le> 36"
      using less.hyps [of "s + 6"] by blast
    then have "(next_place ^^ Suc n) (60 * k + s) = 60 * k + s' \<and> 31 \<le> s' \<and> s' \<le> 36"
      using e by (simp del: funpow.simps add: funpow_Suc_right)
    then show ?thesis by blast
  qed
qed

lemma reaches_name: "p \<le> 60 * k \<Longrightarrow> \<exists>n. (next_place ^^ n) p = 60 * k + 46"
proof -
  assume "p \<le> 60 * k"
  then obtain n s where n: "(next_place ^^ n) p = 60 * k + s" "1 \<le> s" "s \<le> 15" using reaches_block by blast
  then obtain m s' where m: "(next_place ^^ m) (60 * k + s) = 60 * k + s'" "31 \<le> s'" "s' \<le> 36" using slides [of s k] by auto
  have "next_place (60 * k + s') = 60 * k + 46" using m(2,3) spelling_at [of s' k] by (simp add: next_place)
  then have "(next_place ^^ (Suc m + n)) p = 60 * k + 46" using n(1) m(1) by (simp add: funpow_add)
  then show ?thesis by blast
qed

lemma letters_exist: "(\<forall>s < n. f s < 62) \<Longrightarrow> \<exists>k \<ge> b. \<forall>s < n. letter k s = f s"
proof (induction n arbitrary: f)
  case (Suc n)
  obtain k where k: "b \<le> k" "\<forall>s < n. letter k s = f (Suc s)" using Suc.IH [of "\<lambda>s. f (Suc s)"] Suc.prems by auto
  let ?k = "f 0 + 62 * k"
  have f: "f 0 < 62" using Suc.prems by simp
  then have "?k div 62 = k" by simp
  then have "letter ?k (Suc s) = letter k s" for s by (simp add: letter_def div_mult2_eq)
  moreover have "letter ?k 0 = f 0" using f by (simp add: letter_def)
  ultimately have "\<forall>s < Suc n. letter ?k s = f s" using k(2) by (auto simp: less_Suc_eq_0_disj)
  moreover have "b \<le> ?k" using k(1) by simp
  ultimately show ?case by blast
qed auto

lemma name_spelled: "fst (fake_name spelling (60 * k + 46)) = ''fake'' @ map (\<lambda>i. alphanum ! letter k i) [0..<5]"
proof -
  have "spelling (60 * k + 46) = 0" using spelling_at [of 46 k] by simp
  moreover have "spelling (60 * k + 46 + 1 + i) mod 62 = letter k i" if "i < 5" for i
  proof -
    have "60 * k + 46 + 1 + i = 60 * k + (47 + i)" by simp
    moreover have "spelling (60 * k + (47 + i)) mod 62 = letter k i"
      using spelling_at [of "47 + i" k] that by (simp add: letter_def)
    ultimately show ?thesis by (simp only:)
  qed
  ultimately show ?thesis by (simp add: fake_name_def gen_random_def)
qed

definition word_name :: "nat list \<Rightarrow> string" where
  "word_name w = ''fake'' @ map (\<lambda>x. alphanum ! x) w"

lemma word_found:
  assumes "length w = 5" and "set w \<subseteq> {..<62}"
  shows "\<exists>n. fst (fake_name spelling ((next_place ^^ n) p)) = word_name w"
proof -
  have "\<forall>s < 5. w ! s < 62" using assms nth_mem [of _ w] by fastforce
  then obtain k where k: "p \<le> k" "\<forall>s < 5. letter k s = w ! s" using letters_exist [of 5 "\<lambda>s. w ! s" p] by blast
  obtain n where "(next_place ^^ n) p = 60 * k + 46" using reaches_name [of p k] k(1) by auto
  moreover have "map (\<lambda>i. alphanum ! letter k i) [0..<5] = map (\<lambda>x. alphanum ! x) w"
    using k(2) assms(1) by (intro nth_equalityI) auto
  ultimately have "fst (fake_name spelling ((next_place ^^ n) p)) = word_name w" by (simp add: name_spelled word_name_def)
  then show ?thesis by blast
qed

lemma inj_word_name: "inj_on word_name {w. set w \<subseteq> {..<62} \<and> length w = 5}"
proof (rule inj_onI)
  fix v w assume "v \<in> {w. set w \<subseteq> {..<62} \<and> length w = 5}" "w \<in> {w. set w \<subseteq> {..<62} \<and> length w = 5}" "word_name v = word_name w"
  then have l: "set v \<subseteq> {..<62}" "set w \<subseteq> {..<62}" and m: "map (\<lambda>x. alphanum ! x) v = map (\<lambda>x. alphanum ! x) w"
    by (auto simp: word_name_def)
  have "distinct alphanum = True" by code_simp
  then have "inj_on (\<lambda>x. alphanum ! x) {..<62}" using inj_on_nth [of alphanum "{..<62}"] by (simp add: length_alphanum)
  then have "inj_on (\<lambda>x. alphanum ! x) (set v \<union> set w)" by (rule inj_on_subset) (use l in auto)
  then show "v = w" by (rule map_inj_on [OF m])
qed

lemma spelling_supply: "d \<le> 62 ^ 5 \<Longrightarrow> fake_supply spelling d"
  unfolding fake_supply_def
proof (intro allI impI)
  fix used :: "string list" and p :: nat assume d: "d \<le> 62 ^ 5" and u: "card (set used) < d"
  let ?W = "{w :: nat list. set w \<subseteq> {..<62} \<and> length w = 5}"
  have "card ?W = 62 ^ 5" using card_lists_length_eq [of "{..<62 :: nat}" 5] by simp
  then have "card (word_name ` ?W) = 62 ^ 5" using card_image [OF inj_word_name] by simp
  then have "\<not> word_name ` ?W \<subseteq> set used" using d u card_mono [of "set used" "word_name ` ?W"] by auto
  then obtain w where w: "length w = 5" "set w \<subseteq> {..<62}" "word_name w \<notin> set used" by auto
  from word_found [OF w(1,2), of p] obtain n where "fst (fake_name spelling ((next_place ^^ n) p)) = word_name w" by blast
  then have "fst (fake_name spelling (((\<lambda>p. snd (fake_name spelling p)) ^^ n) p)) \<notin> set used"
    using w(3) by (simp only: next_place_def [abs_def] not_False_eq_True)
  then show "\<exists>n. fst (fake_name spelling (((\<lambda>p. snd (fake_name spelling p)) ^^ n) p)) \<notin> set used" by blast
qed

end
