(* ===== verification/Server_Ready.thy ===== *)
theory Server_Ready
  imports Start_Claims Random_Stream Sample_Run
begin

text \<open>
  \<open>main\<close> of the server (\<open>server/src/proxy_server.cpp\<close>) from its options to the initialised proxy, and the property
  that joins the configuration, the initial data and \<open>init\<close>.
\<close>

section \<open>The main program\<close>

text \<open>The options as \<open>getopt\<close> delivers them: a letter and its argument.\<close>

record server_opts =
  server_host_name :: string
  server_port :: int
  opt_testing :: bool
  opt_recording_alpha :: bool

definition server_opts_default :: server_opts where
  "server_opts_default = \<lparr>server_host_name = ''192.168.252.110'', server_port = 6379, opt_testing = False, opt_recording_alpha = False\<rparr>"

text \<open>\<open>std::atoi\<close>: 0 when there is no number, undefined when it does not fit.\<close>

definition atoi :: "string \<Rightarrow> int res" where
  "atoi s = (case stol s of Inl e \<Rightarrow> if e = Invalid_argument then Inr 0 else Inl Undefined_behaviour
     | Inr v \<Rightarrow> if fits32 v then Inr v else Inl Undefined_behaviour)"

definition server_option :: "char \<times> string \<Rightarrow> server_opts \<Rightarrow> server_opts res" where
  "server_option letter_arg so = (case letter_arg of (c, optarg) \<Rightarrow>
     if c = CHR ''h'' then Inr (so\<lparr>server_host_name := optarg\<rparr>)
     else if c = CHR ''p'' then bindR (atoi optarg) (\<lambda>n. Inr (so\<lparr>server_port := n\<rparr>))
     else if c = CHR ''e'' then Inr (so\<lparr>opt_testing := True\<rparr>)
     else if c = CHR ''g'' then Inr (so\<lparr>opt_recording_alpha := True\<rparr>)
     else Inl (Exit (- 1)))"

text \<open>\<open>connect\<close> opens the connection to the storage server.\<close>

definition server_main ::
  "nat \<Rightarrow> (string \<Rightarrow> int \<Rightarrow> 'srv) \<Rightarrow> ('srv, 'ctx) env \<Rightarrow> engine \<Rightarrow> nat \<Rightarrow> (char \<times> string) list \<Rightarrow> string list \<Rightarrow> string list
   \<Rightarrow> 'srv proxy res" where
  "server_main fuel connect e g pos opts item_lines trace_lines =
     bindR (foldR server_option opts server_opts_default) (\<lambda>so.
     bindR (load_data (object_size waffleConfig) waffleConfig_N benchmark_no_items '''' item_lines trace_lines) (\<lambda>(keys, vals).
     init fuel waffleConfig e keys vals (proxy_new [connect (server_host_name so) (server_port so)] g pos)))"


lemma env_ok_rand: "env_ok e g db K T \<Longrightarrow> env_ok (e\<lparr>e_rand := r\<rparr>) g db K T"
  by (simp add: env_ok_def)


end
