(* ===== verification/Crypto_Signing.thy ===== *)
theory Crypto_Signing
  imports Crypto_Engine
begin

text \<open>
  The rest of the encryption engine (\<open>proxy/src/encryption_engine.cpp\<close>): its constructors, the generation of
  the two HMAC keys, signing, verification and \<open>hmac\<close>.

  The digest calls of OpenSSL are the fields of \<open>mac_lib\<close>.  Pointers that may be null are options: a
  \<open>byte**\<close> is an \<open>string option option\<close>, whose inner value is the buffer it points to.  Every failed call
  is first an \<open>assert\<close> and then, when assertions are compiled out (\<open>nd\<close>, that is \<open>NDEBUG\<close>), a \<open>break\<close> that
  makes the function return 1.
\<close>

subsection \<open>OpenSSL as a parameter\<close>

text \<open>
  \<open>sign_size\<close> is \<open>EVP_DigestSignFinal(ctx, NULL, &req)\<close>, \<open>sign_final n\<close> the call with a buffer of \<open>n\<close> bytes;
  \<open>rand_bytes\<close> draws from a position of its stream.
\<close>

record ('md, 'ctx, 'pkey) mac_lib =
  md_ctx_create :: "'ctx option"
  get_digestbyname :: "string \<Rightarrow> 'md option"
  digest_init :: "'md \<Rightarrow> 'ctx \<Rightarrow> int \<times> 'ctx"
  sign_init :: "'md \<Rightarrow> 'pkey \<Rightarrow> 'ctx \<Rightarrow> int \<times> 'ctx"
  sign_update :: "string \<Rightarrow> 'ctx \<Rightarrow> int \<times> 'ctx"
  sign_size :: "'ctx \<Rightarrow> int \<times> nat \<times> 'ctx"
  sign_final :: "nat \<Rightarrow> 'ctx \<Rightarrow> int \<times> string \<times> 'ctx"
  can_malloc :: "nat \<Rightarrow> bool"
  md_size :: "'md \<Rightarrow> int"
  rand_bytes :: "nat \<Rightarrow> nat \<Rightarrow> int \<times> string \<times> nat"
  new_mac_key :: "string \<Rightarrow> 'pkey option"

definition hn :: string where "hn = ''SHA256''"

definition EVP_MAX_MD_SIZE :: nat where "EVP_MAX_MD_SIZE = 64"

text \<open>\<open>assert(c); if (!c) break;\<close>: \<open>out\<close> is the outcome of the function at this \<open>break\<close>.\<close>

definition must :: "bool \<Rightarrow> bool \<Rightarrow> 'a \<Rightarrow> 'a res \<Rightarrow> 'a res" where
  "must nd c out k = (if c then k else if nd then Inr out else Inl Assertion_failed)"

lemma must_True [simp]: "must nd True out k = k"
  by (simp add: must_def)

text \<open>The first half of \<open>sign_it\<close>, \<open>verify_it\<close> and \<open>hmac_it\<close>, up to \<open>EVP_DigestSignUpdate\<close>; \<open>None\<close> is a \<open>break\<close>.\<close>

definition mac_start ::
  "bool \<Rightarrow> ('md, 'ctx, 'pkey) mac_lib \<Rightarrow> string \<Rightarrow> string \<Rightarrow> nat \<Rightarrow> 'pkey \<Rightarrow> 'ctx option res" where
  "mac_start nd M name msg mlen pkey =
     (case md_ctx_create M of None \<Rightarrow> must nd False None (Inr None)
      | Some c0 \<Rightarrow> (case get_digestbyname M name of None \<Rightarrow> must nd False None (Inr None)
      | Some md \<Rightarrow>
         let (rc, c1) = digest_init M md c0 in must nd (rc = 1) None (
         let (rc, c2) = sign_init M md pkey c1 in must nd (rc = 1) None (
         if length msg < mlen then Inl Undefined_behaviour else
         let (rc, c3) = sign_update M (take mlen msg) c2 in must nd (rc = 1) None (Inr (Some c3))))))"

subsection \<open>Signing\<close>

text \<open>The result: the return value, \<open>*sig\<close> and \<open>*slen\<close>.\<close>

definition sign_it ::
  "bool \<Rightarrow> ('md, 'ctx, 'pkey) mac_lib \<Rightarrow> string option \<Rightarrow> nat \<Rightarrow> string option option \<Rightarrow> nat option \<Rightarrow> 'pkey option
   \<Rightarrow> (int \<times> string option \<times> nat option) res" where
  "sign_it nd M msg mlen sig slen pkey =
     (case (msg, sig, pkey) of
        (Some m, Some _, Some k) \<Rightarrow>
          if mlen = 0 then must nd False (- 1, Option.bind sig id, slen) (Inl Undefined_behaviour)
          else if slen = None then Inl Undefined_behaviour
          else bindR (mac_start nd M hn m mlen k) (\<lambda>st. case st of None \<Rightarrow> Inr (1, None, Some 0) | Some c3 \<Rightarrow>
            let (rc, req, c4) = sign_size M c3 in
            must nd (rc = 1) (1, None, Some 0) (
            must nd (0 < req) (1, None, Some 0) (
            must nd (can_malloc M req) (1, None, Some 0) (
            let (rc, buf, c5) = sign_final M req c4 in
            must nd (rc = 1) (1, Some buf, Some (length buf)) (
            must nd (req = length buf) (0, Some buf, Some (length buf)) (
            Inr (0, Some buf, Some (length buf))))))))
      | _ \<Rightarrow> must nd False (- 1, Option.bind sig id, slen) (Inl Undefined_behaviour))"

text \<open>\<open>hmac_it\<close> differs in the name it passes and in the last check, which here also breaks.\<close>

definition hmac_it ::
  "bool \<Rightarrow> ('md, 'ctx, 'pkey) mac_lib \<Rightarrow> string option \<Rightarrow> nat \<Rightarrow> string option option \<Rightarrow> nat option \<Rightarrow> 'pkey option
   \<Rightarrow> (int \<times> string option \<times> nat option) res" where
  "hmac_it nd M msg mlen val vlen pkey =
     (case (msg, val, pkey) of
        (Some m, Some _, Some k) \<Rightarrow>
          if mlen = 0 then must nd False (- 1, Option.bind val id, vlen) (Inl Undefined_behaviour)
          else if vlen = None then Inl Undefined_behaviour
          else bindR (mac_start nd M ''SHA256'' m mlen k) (\<lambda>st. case st of None \<Rightarrow> Inr (1, None, Some 0) | Some c3 \<Rightarrow>
            let (rc, req, c4) = sign_size M c3 in
            must nd (rc = 1) (1, None, Some 0) (
            must nd (0 < req) (1, None, Some 0) (
            must nd (can_malloc M req) (1, None, Some 0) (
            let (rc, buf, c5) = sign_final M req c4 in
            must nd (rc = 1) (1, Some buf, Some (length buf)) (
            must nd (req = length buf) (1, Some buf, Some (length buf)) (
            Inr (0, Some buf, Some (length buf))))))))
      | _ \<Rightarrow> must nd False (- 1, Option.bind val id, vlen) (Inl Undefined_behaviour))"

text \<open>A null pointer with a non-zero length makes the constructor of \<open>std::string\<close> throw.\<close>

definition hmac :: "bool \<Rightarrow> ('md, 'ctx, 'pkey) mac_lib \<Rightarrow> 'pkey option \<Rightarrow> string \<Rightarrow> string res" where
  "hmac nd M skey key =
     bindR (hmac_it nd M (Some key) (length key) (Some None) (Some 256) skey) (\<lambda>(res, val, vlen).
       case val of Some b \<Rightarrow> Inr b
       | None \<Rightarrow> if vlen = Some 0 then Inr [] else Inl (Runtime_error ''basic_string: construction from null is not valid''))"

subsection \<open>Verification\<close>

text \<open>Only the first \<open>min(slen, size)\<close> bytes are compared.\<close>

definition verify_it ::
  "bool \<Rightarrow> ('md, 'ctx, 'pkey) mac_lib \<Rightarrow> string option \<Rightarrow> nat \<Rightarrow> string option \<Rightarrow> nat \<Rightarrow> 'pkey option \<Rightarrow> int res" where
  "verify_it nd M msg mlen sig slen pkey =
     (case (msg, sig, pkey) of
        (Some m, Some s, Some k) \<Rightarrow>
          if mlen = 0 \<or> slen = 0 then must nd False (- 1) (Inl Undefined_behaviour)
          else bindR (mac_start nd M hn m mlen k) (\<lambda>st. case st of None \<Rightarrow> Inr 1 | Some c3 \<Rightarrow>
            let (rc, buff, c4) = sign_final M EVP_MAX_MD_SIZE c3 in
            if EVP_MAX_MD_SIZE < length buff then Inl Undefined_behaviour else
            must nd (rc = 1) 1 (
            must nd (0 < length buff) 1 (
            let m' = (if slen < length buff then slen else length buff) in
            if length s < m' then Inl Undefined_behaviour
            else Inr (if take m' s = take m' buff then 0 else 1))))
      | _ \<Rightarrow> must nd False (- 1) (Inl Undefined_behaviour))"

subsection \<open>Keys and constructors\<close>

text \<open>The result: the return value, \<open>*skey\<close>, \<open>*vkey\<close> and the position in the random stream.\<close>

definition make_keys ::
  "bool \<Rightarrow> ('md, 'ctx, 'pkey) mac_lib \<Rightarrow> 'pkey option option \<Rightarrow> 'pkey option option \<Rightarrow> nat
   \<Rightarrow> (int \<times> 'pkey option \<times> 'pkey option \<times> nat) res" where
  "make_keys nd M skey vkey pos =
     (if skey = None \<or> vkey = None then Inr (- 1, Option.bind skey id, Option.bind vkey id, pos)
      else case get_digestbyname M hn of None \<Rightarrow> must nd False (1, None, None, pos) (Inl Undefined_behaviour)
      | Some md \<Rightarrow>
         let sz = md_size M md in
         must nd (16 \<le> sz) (1, None, None, pos) (
         must nd (sz \<le> int EVP_MAX_MD_SIZE) (1, None, None, pos) (
         let (rc, hkey, pos') = rand_bytes M (nat sz) pos in
         must nd (rc = 1) (1, None, None, pos') (
         let sk = new_mac_key M hkey in
         must nd (sk \<noteq> None) (1, None, None, pos') (
         let vk = new_mac_key M hkey in
         must nd (vk \<noteq> None) (1, sk, None, pos') (
         Inr (0, sk, vk, pos')))))))"

text \<open>
  An engine object.  \<open>encryption_key_\<close> and \<open>iv_\<close> are pointers into the strings of some engine object, which
  \<open>key_of\<close> and \<open>iv_of\<close> name; the objects live in a store.
\<close>

record 'pkey engine_obj =
  ob_encryption_string :: string
  ob_iv_string :: string
  key_of :: nat
  iv_of :: nat
  ob_skey :: "'pkey option"
  ob_vkey :: "'pkey option"

type_synonym 'pkey engines = "nat \<rightharpoonup> 'pkey engine_obj"

text \<open>The end of both constructors.\<close>

definition with_keys ::
  "bool \<Rightarrow> ('md, 'ctx, 'pkey) mac_lib \<Rightarrow> nat \<Rightarrow> 'pkey engine_obj \<Rightarrow> ('pkey engine_obj \<times> nat) res" where
  "with_keys nd M pos ob =
     bindR (make_keys nd M (Some (ob_skey ob)) (Some (ob_vkey ob)) pos) (\<lambda>(rc, sk, vk, pos').
       if rc \<noteq> 0 then Inl (Exit 1)
       else if sk = None then (if nd then Inl (Exit 1) else Inl Assertion_failed)
       else if vk = None then (if nd then Inl (Exit 1) else Inl Assertion_failed)
       else Inr (ob\<lparr>ob_skey := sk, ob_vkey := vk\<rparr>, pos'))"

definition engine_construct ::
  "bool \<Rightarrow> ('md, 'ctx, 'pkey) mac_lib \<Rightarrow> rand_stream \<Rightarrow> nat \<Rightarrow> nat \<Rightarrow> nat \<Rightarrow> 'pkey engines \<Rightarrow> 'pkey engines res" where
  "engine_construct nd M draw dpos rpos this h =
     (let (eng, _) = encryption_engine_new draw dpos in
      bindR (with_keys nd M rpos \<lparr>ob_encryption_string = encryption_string eng, ob_iv_string = iv_string eng,
          key_of = this, iv_of = this, ob_skey = None, ob_vkey = None\<rparr>) (\<lambda>(ob, _). Inr (h(this \<mapsto> ob))))"

text \<open>The copy constructor: \<open>iv_string_\<close> stays empty, and the pointers go into the strings of the source.\<close>

definition engine_copy ::
  "bool \<Rightarrow> ('md, 'ctx, 'pkey) mac_lib \<Rightarrow> nat \<Rightarrow> nat \<Rightarrow> nat \<Rightarrow> 'pkey engines \<Rightarrow> 'pkey engines res" where
  "engine_copy nd M rpos src this h =
     (case h src of None \<Rightarrow> Inl Undefined_behaviour
      | Some enc_engine \<Rightarrow>
          bindR (with_keys nd M rpos \<lparr>ob_encryption_string = ob_encryption_string enc_engine, ob_iv_string = [],
              key_of = src, iv_of = src, ob_skey = None, ob_vkey = None\<rparr>) (\<lambda>(ob, _). Inr (h(this \<mapsto> ob))))"

text \<open>What the methods of the object at \<open>this\<close> see: the strings behind its pointers, if they still exist.\<close>

definition engine_at :: "'pkey engines \<Rightarrow> nat \<Rightarrow> engine res" where
  "engine_at h this =
     (case h this of None \<Rightarrow> Inl Undefined_behaviour
      | Some ob \<Rightarrow> (case (h (key_of ob), h (iv_of ob)) of
           (Some k, Some i) \<Rightarrow> Inr \<lparr>encryption_string = ob_encryption_string k, iv_string = ob_iv_string i\<rparr>
         | _ \<Rightarrow> Inl Undefined_behaviour))"

definition obj_encrypt :: "'c evp \<Rightarrow> 'pkey engines \<Rightarrow> nat \<Rightarrow> string \<Rightarrow> string res" where
  "obj_encrypt E h this plain_text = bindR (engine_at h this) (\<lambda>eng. encrypt E eng plain_text)"

definition obj_decrypt :: "'c evp \<Rightarrow> 'pkey engines \<Rightarrow> nat \<Rightarrow> string \<Rightarrow> string res" where
  "obj_decrypt E h this cipher_text = bindR (engine_at h this) (\<lambda>eng. decrypt E eng cipher_text)"

text \<open>\<open>prf\<close> and \<open>getencryption_string_\<close> use the object's own string.\<close>

definition obj_prf :: "'c evp \<Rightarrow> 'pkey engines \<Rightarrow> nat \<Rightarrow> string \<Rightarrow> string res" where
  "obj_prf E h this plain_text =
     (case h this of None \<Rightarrow> Inl Undefined_behaviour
      | Some ob \<Rightarrow> Inr (prf_encrypt E (ob_encryption_string ob) plain_text))"

definition getencryption_string :: "'pkey engines \<Rightarrow> nat \<Rightarrow> string res" where
  "getencryption_string h this =
     (case h this of None \<Rightarrow> Inl Undefined_behaviour | Some ob \<Rightarrow> Inr (ob_encryption_string ob))"

subsection \<open>Documented behaviour of the digest calls\<close>

text \<open>Every call succeeds, and the bytes are those of a function \<open>mac\<close> of key and message, 32 of them.\<close>

definition mac_lawful :: "('md, 'ctx, 'pkey) mac_lib \<Rightarrow> (string \<Rightarrow> string \<Rightarrow> string) \<Rightarrow> bool" where
  "mac_lawful M mac \<longleftrightarrow>
     (\<forall>k m. length (mac k m) = 32) \<and> (\<forall>n. can_malloc M n) \<and>
     (\<forall>n p. \<exists>b p'. rand_bytes M n p = (1, b, p') \<and> length b = n) \<and>
     (\<exists>c0 md. md_ctx_create M = Some c0 \<and> get_digestbyname M ''SHA256'' = Some md \<and> md_size M md = 32 \<and>
       (\<forall>k. \<exists>pk. new_mac_key M k = Some pk \<and>
         (\<forall>m. \<exists>c1 c2 c3 c4. digest_init M md c0 = (1, c1) \<and> sign_init M md pk c1 = (1, c2) \<and>
            sign_update M m c2 = (1, c3) \<and> sign_size M c3 = (1, 32, c4) \<and>
            (\<forall>n \<ge> 32. \<exists>c5. sign_final M n c3 = (1, mac k m, c5)) \<and> (\<forall>n \<ge> 32. \<exists>c5. sign_final M n c4 = (1, mac k m, c5)))))"

text \<open>A library that satisfies it: the context collects the key and the message.\<close>

definition list_mac :: "string \<Rightarrow> string \<Rightarrow> string" where
  "list_mac k m = take 32 (k @ m @ replicate 32 CHR ''0'')"

definition list_lib :: "(unit, string \<times> string, string) mac_lib" where
  "list_lib = \<lparr>md_ctx_create = Some ([], []), get_digestbyname = (\<lambda>nm. if nm = ''SHA256'' then Some () else None),
     digest_init = (\<lambda>_ c. (1, c)), sign_init = (\<lambda>_ k c. (1, (k, []))), sign_update = (\<lambda>m c. (1, (fst c, snd c @ m))),
     sign_size = (\<lambda>c. (1, 32, c)), sign_final = (\<lambda>n c. if 32 \<le> n then (1, list_mac (fst c) (snd c), c) else (0, [], c)),
     can_malloc = (\<lambda>_. True), md_size = (\<lambda>_. 32), rand_bytes = (\<lambda>n p. (1, replicate n CHR ''r'', p + n)), new_mac_key = Some\<rparr>"

lemma length_list_mac: "length (list_mac k m) = 32"
  by (auto simp: list_mac_def min_def)

lemma list_lib_lawful: "mac_lawful list_lib list_mac"
  unfolding mac_lawful_def list_lib_def by (simp add: length_list_mac)

subsection \<open>What the functions do\<close>

text \<open>With a lawful library the first half always gets to a context that yields the MAC.\<close>

lemma mac_start_ok:
  assumes "mac_lawful M mac"
  obtains pk where "new_mac_key M k = Some pk"
    "\<And>nd m n. n \<le> length m \<Longrightarrow> \<exists>c3 c4. mac_start nd M ''SHA256'' m n pk = Inr (Some c3) \<and> sign_size M c3 = (1, 32, c4) \<and>
      (\<forall>j \<ge> 32. \<exists>c5. sign_final M j c3 = (1, mac k (take n m), c5)) \<and> (\<forall>j \<ge> 32. \<exists>c5. sign_final M j c4 = (1, mac k (take n m), c5))"
proof -
  obtain c0 md where c0: "md_ctx_create M = Some c0" "get_digestbyname M ''SHA256'' = Some md"
    and law: "\<And>k. \<exists>pk. new_mac_key M k = Some pk \<and>
         (\<forall>m. \<exists>c1 c2 c3 c4. digest_init M md c0 = (1, c1) \<and> sign_init M md pk c1 = (1, c2) \<and>
            sign_update M m c2 = (1, c3) \<and> sign_size M c3 = (1, 32, c4) \<and>
            (\<forall>n \<ge> 32. \<exists>c5. sign_final M n c3 = (1, mac k m, c5)) \<and> (\<forall>n \<ge> 32. \<exists>c5. sign_final M n c4 = (1, mac k m, c5)))"
    using assms unfolding mac_lawful_def by blast
  obtain pk where pk: "new_mac_key M k = Some pk" and steps: "\<And>m. \<exists>c1 c2 c3 c4. digest_init M md c0 = (1, c1) \<and> sign_init M md pk c1 = (1, c2) \<and>
            sign_update M m c2 = (1, c3) \<and> sign_size M c3 = (1, 32, c4) \<and>
            (\<forall>n \<ge> 32. \<exists>c5. sign_final M n c3 = (1, mac k m, c5)) \<and> (\<forall>n \<ge> 32. \<exists>c5. sign_final M n c4 = (1, mac k m, c5))"
    using law by blast
  show ?thesis
  proof (rule that [OF pk])
    fix nd n m assume n: "n \<le> length (m :: string)"
    obtain c1 c2 c3 c4 where "digest_init M md c0 = (1, c1)" "sign_init M md pk c1 = (1, c2)"
      "sign_update M (take n m) c2 = (1, c3)" and c: "sign_size M c3 = (1, 32, c4)"
      "\<forall>j \<ge> 32. \<exists>c5. sign_final M j c3 = (1, mac k (take n m), c5)" "\<forall>j \<ge> 32. \<exists>c5. sign_final M j c4 = (1, mac k (take n m), c5)"
      using steps [of "take n m"] by blast
    then have "mac_start nd M ''SHA256'' m n pk = Inr (Some c3)" using c0 n by (simp add: mac_start_def)
    with c show "\<exists>c3 c4. mac_start nd M ''SHA256'' m n pk = Inr (Some c3) \<and> sign_size M c3 = (1, 32, c4) \<and>
      (\<forall>j \<ge> 32. \<exists>c5. sign_final M j c3 = (1, mac k (take n m), c5)) \<and> (\<forall>j \<ge> 32. \<exists>c5. sign_final M j c4 = (1, mac k (take n m), c5))"
      by blast
  qed
qed

lemma mac_start_key:
  assumes "mac_lawful M mac" and "new_mac_key M k = Some pk"
  obtains c3 c4 c5 c6 where "mac_start nd M ''SHA256'' m (length m) pk = Inr (Some c3)" "sign_size M c3 = (1, 32, c4)"
    "sign_final M 64 c3 = (1, mac k m, c5)" "sign_final M 32 c4 = (1, mac k m, c6)"
proof -
  obtain pk' where k: "new_mac_key M k = Some pk'" and s:
    "\<And>nd m n. n \<le> length m \<Longrightarrow> \<exists>c3 c4. mac_start nd M ''SHA256'' m n pk' = Inr (Some c3) \<and> sign_size M c3 = (1, 32, c4) \<and>
      (\<forall>j \<ge> 32. \<exists>c5. sign_final M j c3 = (1, mac k (take n m), c5)) \<and> (\<forall>j \<ge> 32. \<exists>c5. sign_final M j c4 = (1, mac k (take n m), c5))"
    using mac_start_ok [OF assms(1)] by blast
  obtain c3 c4 where c: "mac_start nd M ''SHA256'' m (length m) pk' = Inr (Some c3)" "sign_size M c3 = (1, 32, c4)"
    and f: "\<forall>j \<ge> 32. \<exists>c5. sign_final M j c3 = (1, mac k m, c5)" "\<forall>j \<ge> 32. \<exists>c5. sign_final M j c4 = (1, mac k m, c5)"
    using s [of "length m" m nd] by auto
  obtain c5 where c5: "sign_final M 64 c3 = (1, mac k m, c5)" using f(1) [rule_format, of 64] by auto
  obtain c6 where c6: "sign_final M 32 c4 = (1, mac k m, c6)" using f(2) [rule_format, of 32] by auto
  have "pk' = pk" using k assms(2) by simp
  with c c5 c6 that show ?thesis by blast
qed

lemma make_keys_ok:
  assumes "mac_lawful M mac"
  shows "\<exists>k pk pos'. new_mac_key M k = Some pk \<and> make_keys nd M (Some a) (Some b) pos = Inr (0, Some pk, Some pk, pos')"
proof -
  obtain md where md: "get_digestbyname M hn = Some md" "md_size M md = 32"
    using assms unfolding mac_lawful_def hn_def by blast
  obtain k pos' where k: "rand_bytes M 32 pos = (1, k, pos')" using assms unfolding mac_lawful_def by blast
  obtain pk where "new_mac_key M k = Some pk" by (rule mac_start_ok [OF assms, of k]) (rule that)
  with md k have "make_keys nd M (Some a) (Some b) pos = Inr (0, Some pk, Some pk, pos')"
    by (simp add: make_keys_def EVP_MAX_MD_SIZE_def Let_def)
  with \<open>new_mac_key M k = Some pk\<close> show ?thesis by blast
qed

lemma sign_it_ok:
  assumes "mac_lawful M mac" and "new_mac_key M k = Some pk" and "msg \<noteq> []"
  shows "sign_it nd M (Some msg) (length msg) (Some old) (Some l) (Some pk) = Inr (0, Some (mac k msg), Some 32)"
    and "hmac_it nd M (Some msg) (length msg) (Some old) (Some l) (Some pk) = Inr (0, Some (mac k msg), Some 32)"
proof -
  obtain c3 c4 c5 c6 where "mac_start nd M ''SHA256'' msg (length msg) pk = Inr (Some c3)" "sign_size M c3 = (1, 32, c4)"
    "sign_final M 64 c3 = (1, mac k msg, c5)" "sign_final M 32 c4 = (1, mac k msg, c6)"
    by (rule mac_start_key [OF assms(1,2)])
  moreover have "can_malloc M 32" "length (mac k msg) = 32" using assms(1) unfolding mac_lawful_def by blast+
  ultimately show "sign_it nd M (Some msg) (length msg) (Some old) (Some l) (Some pk) = Inr (0, Some (mac k msg), Some 32)"
    "hmac_it nd M (Some msg) (length msg) (Some old) (Some l) (Some pk) = Inr (0, Some (mac k msg), Some 32)"
    using assms(3) by (simp_all add: sign_it_def hmac_it_def hn_def)
qed

lemma verify_it_ok:
  assumes "mac_lawful M mac" and "new_mac_key M k = Some pk" and "msg \<noteq> []" and "0 < n" and "n \<le> length sig"
  shows "verify_it nd M (Some msg) (length msg) (Some sig) n (Some pk) =
    Inr (if take (min n 32) sig = take (min n 32) (mac k msg) then 0 else 1)"
proof -
  obtain c3 c4 c5 c6 where "mac_start nd M ''SHA256'' msg (length msg) pk = Inr (Some c3)" "sign_size M c3 = (1, 32, c4)"
    "sign_final M 64 c3 = (1, mac k msg, c5)" "sign_final M 32 c4 = (1, mac k msg, c6)"
    by (rule mac_start_key [OF assms(1,2)])
  moreover have "length (mac k msg) = 32" using assms(1) unfolding mac_lawful_def by blast
  ultimately show ?thesis using assms(3-5) by (simp add: verify_it_def hn_def EVP_MAX_MD_SIZE_def min_def)
qed

lemma with_keys_ok:
  assumes "mac_lawful M mac"
  shows "\<exists>k pk p. new_mac_key M k = Some pk \<and> with_keys nd M pos ob = Inr (ob\<lparr>ob_skey := Some pk, ob_vkey := Some pk\<rparr>, p)"
proof -
  obtain k pk p where k: "new_mac_key M k = Some pk"
    "make_keys nd M (Some (ob_skey ob)) (Some (ob_vkey ob)) pos = Inr (0, Some pk, Some pk, p)"
    using make_keys_ok [OF assms] by blast
  then have "with_keys nd M pos ob = Inr (ob\<lparr>ob_skey := Some pk, ob_vkey := Some pk\<rparr>, p)" by (simp add: with_keys_def)
  with k(1) show ?thesis by blast
qed

end
