(* ===== verification/Crypto_Claims.thy ===== *)
theory Crypto_Claims
  imports Crypto_Signing
begin

text \<open>Properties of the encryption engine: its copies, signatures and keyed hashes.\<close>

text \<open>
  C25.  A consumer thread works with a copy of the proxy's engine.  As long as the original exists the
  copy encrypts, decrypts and names locations exactly as the original does, although its own \<open>iv_string_\<close> is empty,
  because its pointers go into the original; once the original is destroyed, encrypting with the copy is undefined
  behaviour, while the names of locations stay the same.
\<close>

theorem engine_copy_aliases:
  assumes "mac_lawful M mac" and "a \<noteq> b" and "fst (encryption_engine_new draw dpos) = eng"
  shows "\<exists>h1 h2. engine_construct nd M draw dpos rpos a h = Inr h1 \<and> engine_copy nd M rpos' a b h1 = Inr h2 \<and>
    (\<forall>t. obj_encrypt E h2 b t = encrypt E eng t \<and> obj_encrypt E h2 a t = encrypt E eng t) \<and>
    (\<forall>t. obj_decrypt E h2 b t = decrypt E eng t \<and> obj_decrypt E h2 a t = decrypt E eng t) \<and>
    (\<forall>t. obj_prf E h2 b t = Inr (eng_prf E eng t) \<and> obj_prf E h2 a t = Inr (eng_prf E eng t)) \<and>
    (\<forall>t. obj_encrypt E (h2(a := None)) b t = Inl Undefined_behaviour \<and> obj_prf E (h2(a := None)) b t = Inr (eng_prf E eng t))"
proof -
  let ?o = "\<lparr>ob_encryption_string = encryption_string eng, ob_iv_string = iv_string eng, key_of = a, iv_of = a, ob_skey = None, ob_vkey = None\<rparr>"
  let ?c = "\<lparr>ob_encryption_string = encryption_string eng, ob_iv_string = [], key_of = a, iv_of = a, ob_skey = None, ob_vkey = None\<rparr>"
  obtain pk p where k: "with_keys nd M rpos ?o = Inr (?o\<lparr>ob_skey := Some pk, ob_vkey := Some pk\<rparr>, p)"
    using with_keys_ok [OF assms(1)] by blast
  obtain pk' p' where k': "with_keys nd M rpos' ?c = Inr (?c\<lparr>ob_skey := Some pk', ob_vkey := Some pk'\<rparr>, p')"
    using with_keys_ok [OF assms(1)] by blast
  let ?h1 = "h(a \<mapsto> ?o\<lparr>ob_skey := Some pk, ob_vkey := Some pk\<rparr>)"
  let ?h2 = "?h1(b \<mapsto> ?c\<lparr>ob_skey := Some pk', ob_vkey := Some pk'\<rparr>)"
  have "engine_construct nd M draw dpos rpos a h = Inr ?h1"
    using k assms(3) by (simp add: engine_construct_def split_beta)
  moreover have "engine_copy nd M rpos' a b ?h1 = Inr ?h2" using k' by (simp add: engine_copy_def)
  moreover have "engine_at ?h2 a = Inr eng" "engine_at ?h2 b = Inr eng" "engine_at (?h2(a := None)) b = Inl Undefined_behaviour"
    using assms(2) by (simp_all add: engine_at_def)
  moreover have "obj_prf E ?h2 a t = Inr (eng_prf E eng t)" "obj_prf E ?h2 b t = Inr (eng_prf E eng t)"
    "obj_prf E (?h2(a := None)) b t = Inr (eng_prf E eng t)" for t
    using assms(2) by (simp_all add: obj_prf_def eng_prf_def)
  ultimately show ?thesis unfolding obj_encrypt_def obj_decrypt_def by (intro exI [of _ ?h1] exI [of _ ?h2]) simp
qed

theorem engine_copy_aliases_witness:
  "\<exists>h1 h2 eng. engine_construct False list_lib (\<lambda>i. i) 0 0 1 Map.empty = Inr h1 \<and> engine_copy False list_lib 0 1 2 h1 = Inr h2 \<and>
     obj_encrypt pad_evp h2 2 ''abc'' = encrypt pad_evp eng ''abc'' \<and>
     obj_encrypt pad_evp (h2(1 := None)) 2 ''abc'' = Inl Undefined_behaviour"
proof -
  have "(1 :: nat) \<noteq> 2" by simp
  from engine_copy_aliases [OF list_lib_lawful this refl, of False "\<lambda>i. i" 0 0 Map.empty 0 pad_evp]
  show ?thesis by blast
qed

text \<open>
  C26.  Keys made by \<open>make_keys\<close> sign and verify: the signature of a message is accepted, and of the 32-byte strings
  it is the only one.  But \<open>verify_it\<close> compares only as many bytes as it is given, so every non-empty prefix of
  the signature, down to a single byte, is accepted as well.
\<close>

theorem signature_prefixes_accepted:
  assumes "mac_lawful M mac" and "msg \<noteq> []"
  shows "\<exists>k sk vk pos'. make_keys nd M (Some None) (Some None) pos = Inr (0, Some sk, Some vk, pos') \<and>
    sign_it nd M (Some msg) (length msg) (Some None) (Some 0) (Some sk) = Inr (0, Some (mac k msg), Some 32) \<and>
    (\<forall>sig. length sig = 32 \<longrightarrow>
       verify_it nd M (Some msg) (length msg) (Some sig) 32 (Some vk) = Inr (if sig = mac k msg then 0 else 1)) \<and>
    (\<forall>n. 0 < n \<and> n \<le> 32 \<longrightarrow> verify_it nd M (Some msg) (length msg) (Some (take n (mac k msg))) n (Some vk) = Inr 0)"
proof -
  obtain k pk pos' where k: "new_mac_key M k = Some pk" "make_keys nd M (Some None) (Some None) pos = Inr (0, Some pk, Some pk, pos')"
    using make_keys_ok [OF assms(1)] by blast
  have l: "length (mac k msg) = 32" using assms(1) by (simp add: mac_lawful_def)
  have "verify_it nd M (Some msg) (length msg) (Some sig) 32 (Some pk) = Inr (if sig = mac k msg then 0 else 1)" if "length sig = 32" for sig
    using verify_it_ok [OF assms(1) k(1) assms(2), of 32 sig nd] that l by simp
  moreover have "verify_it nd M (Some msg) (length msg) (Some (take n (mac k msg))) n (Some pk) = Inr 0" if "0 < n" "n \<le> 32" for n
    using verify_it_ok [OF assms(1) k(1) assms(2), of n "take n (mac k msg)" nd] that l by (simp add: min_def)
  ultimately show ?thesis using k(2) sign_it_ok(1) [OF assms(1) k(1) assms(2)] by blast
qed

theorem signature_prefixes_accepted_witness:
  "\<exists>k sk vk pos'. make_keys False list_lib (Some None) (Some None) 0 = Inr (0, Some sk, Some vk, pos') \<and>
     verify_it False list_lib (Some ''m'') 1 (Some (take 1 (list_mac k ''m''))) 1 (Some vk) = Inr 0"
proof -
  have "''m'' \<noteq> []" "(0 :: nat) < 1 \<and> (1 :: nat) \<le> 32" by simp_all
  with signature_prefixes_accepted [OF list_lib_lawful, of "''m''" False 0] show ?thesis by fastforce
qed

end
