(* ===== verification/Thrift_Sync.thy ===== *)
theory Thrift_Sync
  imports Thrift_Processor Thrift_Binary "HOL-Library.Sublist"
begin

text \<open>
  The generated concurrent client lets several threads share one connection.  Each call has a sequence
  number; a thread that finds the header of another thread's reply puts it aside and waits.  The bookkeeping,
  \<open>TConcurrentClientSyncInfo\<close> and its two sentries, belongs to Apache Thrift: it is the parameter
  \<open>'y tsync\<close>, and \<open>concurrent_sync\<close> states what the generated code relies on.  The rest of this theory is the
  code that every \<open>send_\<close> and \<open>recv_\<close> function of the class repeats, and what it does to the connection.

  A thread runs alone until it waits: \<open>recv_turn\<close> is one round of the \<open>while (true)\<close> loop, up to
  \<open>waitForWork\<close> or the end of the function, and an interleaving is a sequence of turns.
\<close>

subsection \<open>The calls on \<open>sync_\<close>\<close>

type_synonym header = "string \<times> mtype \<times> int"

text \<open>The destructor of a sentry is given the flag that \<open>commit\<close> sets.\<close>

record 'y tsync =
  generateSeqId :: "('y, int) io"
  sendSentry :: "('y, unit) io"
  sendSentry_end :: "bool \<Rightarrow> ('y, unit) io"
  recvSentry :: "int \<Rightarrow> ('y, unit) io"
  recvSentry_end :: "int \<Rightarrow> bool \<Rightarrow> ('y, unit) io"
  getPending :: "('y, header option) io"
  updatePending :: "string \<Rightarrow> mtype \<Rightarrow> int \<Rightarrow> ('y, unit) io"
  waitForWork :: "int \<Rightarrow> ('y, unit) io"

record ('p, 'h, 'y) conc =
  cc_link :: "('p, 'h) link"
  cc_sync :: 'y

definition on_conn :: "(('p, 'h) link, 'a) io \<Rightarrow> (('p, 'h, 'y) conc, 'a) io" where
  "on_conn m = (\<lambda>c. case m (cc_link c) of (r, l) \<Rightarrow> (r, c\<lparr>cc_link := l\<rparr>))"

definition on_sync :: "('y, 'a) io \<Rightarrow> (('p, 'h, 'y) conc, 'a) io" where
  "on_sync m = (\<lambda>c. case m (cc_sync c) of (r, y) \<Rightarrow> (r, c\<lparr>cc_sync := y\<rparr>))"

subsection \<open>The code that the functions share\<close>

text \<open>\<open>finallyIO m d\<close>: the destructor \<open>d\<close> runs whether \<open>m\<close> returns or throws.\<close>

definition finallyIO :: "('s, 'a) io \<Rightarrow> (bool \<Rightarrow> ('s, unit) io) \<Rightarrow> ('s, 'a) io" where
  "finallyIO m d = (\<lambda>s. case m s of (r, s1) \<Rightarrow> (r, snd (d (is_ok r) s1)))"

text \<open>Sending: the last statement before the return is \<open>commit\<close>, so the flag says whether nothing was thrown.\<close>

definition send_call ::
  "'y tsync \<Rightarrow> 'p tproto \<Rightarrow> string \<Rightarrow> ('p, unit) io \<Rightarrow> (('p, 'h, 'y) conc, int) io" where
  "send_call Y P name args =
     bindIO (on_sync (generateSeqId Y)) (\<lambda>cseqid.
     bindIO (on_sync (sendSentry Y)) (\<lambda>_.
     finallyIO (bindIO (on_conn (on_up (write_message P name T_CALL cseqid args))) (\<lambda>_. returnIO cseqid))
       (\<lambda>committed. on_sync (sendSentry_end Y committed))))"

definition send_oneway ::
  "'y tsync \<Rightarrow> 'p tproto \<Rightarrow> string \<Rightarrow> ('p, unit) io \<Rightarrow> (('p, 'h, 'y) conc, unit) io" where
  "send_oneway Y P name args =
     bindIO (on_sync (sendSentry Y)) (\<lambda>_.
     finallyIO (on_conn (on_up (write_message P name T_ONEWAY 0 args)))
       (\<lambda>committed. on_sync (sendSentry_end Y committed)))"

text \<open>
  The loop body once the header at hand is the one for this thread.  The result is whether the sentry was
  committed and what the function returns or throws; anything thrown on the way is not committed.
\<close>

definition recv_own ::
  "'p tproto \<Rightarrow> string \<Rightarrow> ('p, 'r) io \<Rightarrow> ('r \<Rightarrow> bool \<times> 'a res) \<Rightarrow> string \<Rightarrow> mtype \<Rightarrow> ('p, bool \<times> 'a res) io" where
  "recv_own P name rd fin fname mtype =
     (if mtype = T_EXCEPTION then
        bindIO (readException P) (\<lambda>(t, msg). bindIO (end_of_message P) (\<lambda>_.
          returnIO (True, Inl (Application_error t msg))))
      else
        bindIO (if mtype \<noteq> T_REPLY then seqIO [skipT P T_STRUCT, end_of_message P] else returnIO ()) (\<lambda>_.
        if fname \<noteq> name then
          bindIO (seqIO [skipT P T_STRUCT, end_of_message P]) (\<lambda>_. throwIO (Protocol_error INVALID_DATA))
        else bindIO (recv_body P rd) (\<lambda>result. returnIO (fin result))))"

text \<open>The header at hand is the one that was put aside, or the next one on the stream.\<close>

definition get_header :: "'y tsync \<Rightarrow> 'p tproto \<Rightarrow> (('p, 'h, 'y) conc, header) io" where
  "get_header Y P = bindIO (on_sync (getPending Y)) (\<lambda>pending.
     case pending of Some h \<Rightarrow> returnIO h | None \<Rightarrow> on_conn (on_down (readMessageBegin P)))"

definition recv_round ::
  "'y tsync \<Rightarrow> 'p tproto \<Rightarrow> string \<Rightarrow> ('p, 'r) io \<Rightarrow> ('r \<Rightarrow> bool \<times> 'a res) \<Rightarrow> int
   \<Rightarrow> (('p, 'h, 'y) conc, (bool \<times> 'a res) option) io" where
  "recv_round Y P name rd fin seqid =
     bindIO (get_header Y P) (\<lambda>(fname, mtype, rseqid).
       if seqid = rseqid then
         bindIO (on_conn (on_down (recv_own P name rd fin fname mtype))) (\<lambda>r. returnIO (Some r))
       else bindIO (on_sync (updatePending Y fname mtype rseqid)) (\<lambda>_.
            bindIO (on_sync (waitForWork Y seqid)) (\<lambda>_. returnIO None)))"

text \<open>\<open>None\<close>: the thread waits.  When the function is left, the destructor of the sentry runs.\<close>

definition recv_turn ::
  "'y tsync \<Rightarrow> 'p tproto \<Rightarrow> string \<Rightarrow> ('p, 'r) io \<Rightarrow> ('r \<Rightarrow> bool \<times> 'a res) \<Rightarrow> int
   \<Rightarrow> (('p, 'h, 'y) conc, 'a option) io" where
  "recv_turn Y P name rd fin seqid = (\<lambda>c.
     case recv_round Y P name rd fin seqid c of
       (Inl e, c1) \<Rightarrow> (Inl e, snd (on_sync (recvSentry_end Y seqid False) c1))
     | (Inr None, c1) \<Rightarrow> (Inr None, c1)
     | (Inr (Some (committed, r)), c1) \<Rightarrow>
         (map_sum id Some r, snd (on_sync (recvSentry_end Y seqid committed) c1)))"

text \<open>\<open>while (true)\<close>: \<open>others\<close> is what the other threads do while this one waits; \<open>k\<close> bounds the rounds.\<close>

fun recv_loop ::
  "nat \<Rightarrow> (('p, 'h, 'y) conc, unit) io \<Rightarrow> (('p, 'h, 'y) conc, 'a option) io \<Rightarrow> (('p, 'h, 'y) conc, 'a) io" where
  "recv_loop 0 others turn = throwIO Out_of_fuel"
| "recv_loop (Suc k) others turn =
     bindIO turn (\<lambda>r. case r of Some v \<Rightarrow> returnIO v | None \<Rightarrow> bindIO others (\<lambda>_. recv_loop k others turn))"

definition recv_call ::
  "'y tsync \<Rightarrow> nat \<Rightarrow> (('p, 'h, 'y) conc, unit) io \<Rightarrow> (int \<Rightarrow> (('p, 'h, 'y) conc, 'a option) io) \<Rightarrow> int
   \<Rightarrow> (('p, 'h, 'y) conc, 'a) io" where
  "recv_call Y k others turn seqid =
     bindIO (on_sync (recvSentry Y seqid)) (\<lambda>_. recv_loop k others (turn seqid))"

text \<open>Several threads that wait for a reply take turns; what each gets is recorded under its number.\<close>

fun run_turns ::
  "(int \<Rightarrow> ('s, 'a option) io) \<Rightarrow> int list \<Rightarrow> int list \<Rightarrow> 's \<Rightarrow> (int \<times> 'a res) list \<times> 's" where
  "run_turns turn waiting [] c = ([], c)"
| "run_turns turn waiting (i # sched) c =
     (if i \<in> set waiting then
        case turn i c of
          (Inr None, c1) \<Rightarrow> run_turns turn waiting sched c1
        | (Inr (Some v), c1) \<Rightarrow>
            (case run_turns turn (remove1 i waiting) sched c1 of (rs, c2) \<Rightarrow> ((i, Inr v) # rs, c2))
        | (Inl e, c1) \<Rightarrow>
            (case run_turns turn (remove1 i waiting) sched c1 of (rs, c2) \<Rightarrow> ((i, Inl e) # rs, c2))
      else run_turns turn waiting sched c)"

subsection \<open>What the generated code relies on\<close>

text \<open>
  \<open>view\<close> shows the header put aside, the next number and the numbers in use; it is \<open>None\<close> once the
  connection was marked bad by a sentry that was not committed, and from then on every call throws.
\<close>

record sync_view =
  sv_pending :: "header option"
  sv_next :: int
  sv_ids :: "int set"

locale concurrent_sync =
  fixes Y :: "'y tsync" and view :: "'y \<Rightarrow> sync_view option"
  assumes s_generate: "view y = Some v \<Longrightarrow> 0 \<le> sv_next v \<Longrightarrow> sv_next v < 2 ^ 31 - 1 \<Longrightarrow> sv_next v \<notin> sv_ids v \<Longrightarrow>
      \<exists>y'. generateSeqId Y y = (Inr (sv_next v), y') \<and>
        view y' = Some (v\<lparr>sv_next := sv_next v + 1, sv_ids := insert (sv_next v) (sv_ids v)\<rparr>)"
    and s_send: "view y = Some v \<Longrightarrow> \<exists>y'. sendSentry Y y = (Inr (), y') \<and> view y' = Some v"
    and s_send_end: "view y = Some v \<Longrightarrow> view (snd (sendSentry_end Y b y)) = (if b then Some v else None)"
    and s_recv: "view y = Some v \<Longrightarrow> \<exists>y'. recvSentry Y i y = (Inr (), y') \<and> view y' = Some v"
    and s_recv_end: "view y = Some v \<Longrightarrow>
      view (snd (recvSentry_end Y i b y)) = (if b then Some (v\<lparr>sv_ids := sv_ids v - {i}\<rparr>) else None)"
    and s_pending: "view y = Some v \<Longrightarrow>
      \<exists>y'. getPending Y y = (Inr (sv_pending v), y') \<and> view y' = Some (v\<lparr>sv_pending := None\<rparr>)"
    and s_update: "view y = Some v \<Longrightarrow> i \<in> sv_ids v \<Longrightarrow>
      \<exists>y'. updatePending Y f m i y = (Inr (), y') \<and> view y' = Some (v\<lparr>sv_pending := Some (f, m, i)\<rparr>)"
    and s_wait: "view y = Some v \<Longrightarrow> \<exists>y'. waitForWork Y i y = (Inr (), y') \<and> view y' = Some v"
    and s_dead_generate: "view y = None \<Longrightarrow> \<exists>e y'. generateSeqId Y y = (Inl e, y') \<and> view y' = None"
    and s_dead_pending: "view y = None \<Longrightarrow> \<exists>e y'. getPending Y y = (Inl e, y') \<and> view y' = None"
    and s_dead_end: "view y = None \<Longrightarrow> view (snd (recvSentry_end Y i b y)) = None"

subsection \<open>Replies on the way\<close>

text \<open>
  \<open>enc\<close> gives the items of a result.  A reply carries the number of its call and a result, or an exception
  of the server.
\<close>

fun reply_toks :: "string \<Rightarrow> ('a \<Rightarrow> tok list) \<Rightarrow> int \<times> 'a res \<Rightarrow> tok list" where
  "reply_toks nm enc (i, Inr v) = K_msg nm T_REPLY i # enc v"
| "reply_toks nm enc (i, Inl (Application_error t msg)) = [K_msg nm T_EXCEPTION i, K_exn t msg]"
| "reply_toks nm enc (i, Inl _) = []"

fun reply_header :: "string \<Rightarrow> int \<times> 'a res \<Rightarrow> header" where
  "reply_header nm (i, Inr _) = (nm, T_REPLY, i)"
| "reply_header nm (i, Inl _) = (nm, T_EXCEPTION, i)"

fun reply_ok :: "'a res \<Rightarrow> bool" where
  "reply_ok (Inr _) = True"
| "reply_ok (Inl (Application_error _ _)) = True"
| "reply_ok _ = False"

definition replies_toks :: "string \<Rightarrow> ('a \<Rightarrow> tok list) \<Rightarrow> (int \<times> 'a res) list \<Rightarrow> tok list" where
  "replies_toks nm enc rs = concat (map (reply_toks nm enc) rs)"

text \<open>
  \<open>in_step\<close>: the replies \<open>rs\<close> are still to be delivered, the header of the first one may have been put aside,
  and the threads they are for have registered.
\<close>

definition in_step ::
  "('p \<Rightarrow> tok list \<Rightarrow> bool) \<Rightarrow> ('y \<Rightarrow> sync_view option) \<Rightarrow> string \<Rightarrow> ('a \<Rightarrow> tok list)
   \<Rightarrow> (int \<times> 'a res) list \<Rightarrow> ('p, 'h, 'y) conc \<Rightarrow> bool" where
  "in_step C view nm enc rs c \<longleftrightarrow>
     distinct (map fst rs) \<and> (\<forall>r \<in> set rs. reply_ok (snd r)) \<and>
     (\<exists>v. view (cc_sync c) = Some v \<and> fst ` set rs \<subseteq> sv_ids v \<and>
        (sv_pending v = None \<and> C (lk_down (cc_link c)) (replies_toks nm enc rs) \<or>
         (rs \<noteq> [] \<and> sv_pending v = Some (reply_header nm (hd rs)) \<and>
          C (lk_down (cc_link c)) (tl (reply_toks nm enc (hd rs)) @ replies_toks nm enc (tl rs)))))"

lemma reply_toks_split:
  "reply_ok r \<Longrightarrow> reply_toks nm enc (i, r) =
     (case reply_header nm (i, r) of (f, m, j) \<Rightarrow> K_msg f m j) # tl (reply_toks nm enc (i, r))"
  by (cases r rule: reply_ok.cases) auto

lemma reply_header_fst: "\<exists>m. reply_header nm (i, r) = (nm, m, i)"
  by (cases r) auto

lemma int_interval_Suc: "{a..<a + 1 + int n} = insert a {a + 1..<a + 1 + int n}" for a :: int
  by (rule set_eqI) (simp, arith)

lemma shift_enumerate: "map (\<lambda>(j, x). f j x) (enumerate (Suc 0) xs) = map (\<lambda>(j, x). f (Suc j) x) (enumerate 0 xs)"
  by (rule nth_equalityI) (auto simp: nth_enumerate_eq)

lemma upt_shift:
  "map (\<lambda>j. a + int j) [0..<length (x # xs)] = a # map (\<lambda>j. a + 1 + int j) [0..<length xs]"
  by (rule nth_equalityI) (auto simp: nth_Cons split: nat.split simp del: upt_Suc)

lemma mapIO_length: "mapIO g xs s = (Inr ys, s') \<Longrightarrow> length ys = length xs"
  by (induction xs arbitrary: ys s) (auto simp: bindIO_def returnIO_def split: prod.splits sum.splits)

text \<open>Every turn first gets hold of the header of the first reply.\<close>

locale concurrent_link = thrift_protocol P C + concurrent_sync Y view
  for P :: "'p tproto" and C :: "'p \<Rightarrow> tok list \<Rightarrow> bool" and Y :: "'y tsync" and view :: "'y \<Rightarrow> sync_view option"
begin

lemma header_at_hand:
  fixes c :: "('p, 'h, 'y) conc"
  assumes "in_step C view nm enc ((i, r) # rs) c"
  shows "\<exists>(c1 :: ('p, 'h, 'y) conc) v. get_header Y P c = (Inr (reply_header nm (i, r)), c1) \<and>
    view (cc_sync c1) = Some v \<and> sv_pending v = None \<and> insert i (fst ` set rs) \<subseteq> sv_ids v \<and>
    C (lk_down (cc_link c1)) (tl (reply_toks nm enc (i, r)) @ replies_toks nm enc rs)"
proof -
  obtain v where v: "view (cc_sync c) = Some v" "insert i (fst ` set rs) \<subseteq> sv_ids v" "reply_ok r"
    and d: "sv_pending v = None \<and> C (lk_down (cc_link c)) (reply_toks nm enc (i, r) @ replies_toks nm enc rs) \<or>
         sv_pending v = Some (reply_header nm (i, r)) \<and>
          C (lk_down (cc_link c)) (tl (reply_toks nm enc (i, r)) @ replies_toks nm enc rs)"
    using assms unfolding in_step_def by (auto simp: replies_toks_def)
  obtain y where y: "getPending Y (cc_sync c) = (Inr (sv_pending v), y)" "view y = Some (v\<lparr>sv_pending := None\<rparr>)"
    using s_pending [OF v(1)] by blast
  from d show ?thesis
  proof
    assume p: "sv_pending v = None \<and> C (lk_down (cc_link c)) (reply_toks nm enc (i, r) @ replies_toks nm enc rs)"
    obtain m where m: "reply_header nm (i, r) = (nm, m, i)" using reply_header_fst by blast
    obtain T where k: "reply_toks nm enc (i, r) = K_msg nm m i # T"
      using reply_toks_split [OF v(3), of nm enc i] m by simp
    have "C (lk_down (cc_link c)) ([K_msg nm m i] @ tl (reply_toks nm enc (i, r)) @ replies_toks nm enc rs)"
      using p k by simp
    from readsD [OF r_message this] obtain p' where "readMessageBegin P (lk_down (cc_link c)) = (Inr (nm, m, i), p')"
      "C p' (tl (reply_toks nm enc (i, r)) @ replies_toks nm enc rs)" by blast
    then show ?thesis using y p v(2) m
      by (auto simp: get_header_def bindIO_def on_sync_def on_conn_def on_down_def)
  next
    assume "sv_pending v = Some (reply_header nm (i, r)) \<and>
          C (lk_down (cc_link c)) (tl (reply_toks nm enc (i, r)) @ replies_toks nm enc rs)"
    then show ?thesis using y v(2)
      by (auto simp: get_header_def bindIO_def on_sync_def returnIO_def)
  qed
qed

text \<open>A thread that finds the reply of another one puts the header aside; nothing is lost.\<close>

lemma turn_waits:
  fixes c :: "('p, 'h, 'y) conc"
  assumes "in_step C view nm enc ((i, r) # rs) c" and "j \<noteq> i"
  shows "\<exists>c'. recv_turn Y P nm' rd fin j c = (Inr None, c') \<and> in_step C view nm enc ((i, r) # rs) c'"
proof -
  obtain c1 v where c1: "get_header Y P c = (Inr (reply_header nm (i, r)), c1)" "view (cc_sync c1) = Some v"
    "insert i (fst ` set rs) \<subseteq> sv_ids v" "C (lk_down (cc_link c1)) (tl (reply_toks nm enc (i, r)) @ replies_toks nm enc rs)"
    using header_at_hand [OF assms(1)] by blast
  obtain m where m: "reply_header nm (i, r) = (nm, m, i)" using reply_header_fst by blast
  obtain y where y: "updatePending Y nm m i (cc_sync c1) = (Inr (), y)" "view y = Some (v\<lparr>sv_pending := Some (nm, m, i)\<rparr>)"
    using s_update [OF c1(2), of i] c1(3) by blast
  obtain y' where y': "waitForWork Y j y = (Inr (), y')" "view y' = Some (v\<lparr>sv_pending := Some (nm, m, i)\<rparr>)"
    using s_wait [OF y(2)] by blast
  have "recv_turn Y P nm' rd fin j c = (Inr None, c1\<lparr>cc_sync := y'\<rparr>)"
    using c1(1) m y(1) y'(1) assms(2) by (simp add: recv_turn_def recv_round_def bindIO_def on_sync_def returnIO_def)
  moreover have "in_step C view nm enc ((i, r) # rs) (c1\<lparr>cc_sync := y'\<rparr>)"
    using assms(1) y'(2) c1(3,4) m unfolding in_step_def by auto
  ultimately show ?thesis by blast
qed

text \<open>The thread a reply is for takes it off the stream.\<close>

lemma recv_own_reply:
  assumes "reply_ok r" and "\<And>v. reads C rd (enc v) (\<lambda>x. fin x = (True, Inr v))"
    and "reply_header nm (i, r) = (nm, m, i)"
  shows "reads C (recv_own P nm rd fin nm m) (tl (reply_toks nm enc (i, r))) (\<lambda>x. x = (True, r))"
proof (cases r rule: reply_ok.cases)
  case (1 v)
  have "reads C (bindIO (recv_body P rd) (\<lambda>result. returnIO (fin result))) (enc v) (\<lambda>x. x = (True, Inr v))"
    by (rule reads_then [OF reads_body [OF assms(2)]])
  then show ?thesis using assms(3) 1 by (auto simp: recv_own_def bindIO_def returnIO_def)
next
  case (2 t msg)
  have e: "reads C (bindIO (end_of_message P) (\<lambda>_. returnIO (True, r))) [] (\<lambda>x. x = (True, r))"
    by (rule reads_then [OF reads_end]) simp
  have "reads C (bindIO (readException P) (\<lambda>(t, msg). bindIO (end_of_message P) (\<lambda>_.
          returnIO (True, Inl (Application_error t msg))))) ([K_exn t msg] @ []) (\<lambda>x. x = (True, r))"
    by (rule reads_bind [OF r_exception]) (use e 2 in auto)
  then show ?thesis using assms(3) 2 by (auto simp: recv_own_def)
qed (use assms(1) in auto)

lemma turn_returns:
  fixes c :: "('p, 'h, 'y) conc"
  assumes "in_step C view nm enc ((i, r) # rs) c" and "\<And>v. reads C rd (enc v) (\<lambda>x. fin x = (True, Inr v))"
  shows "\<exists>c'. recv_turn Y P nm rd fin i c = (map_sum id Some r, c') \<and> in_step C view nm enc rs c'"
proof -
  obtain c1 v where c1: "get_header Y P c = (Inr (reply_header nm (i, r)), c1)" "view (cc_sync c1) = Some v"
    "sv_pending v = None" "insert i (fst ` set rs) \<subseteq> sv_ids v"
    "C (lk_down (cc_link c1)) (tl (reply_toks nm enc (i, r)) @ replies_toks nm enc rs)"
    using header_at_hand [OF assms(1)] by blast
  obtain m where m: "reply_header nm (i, r) = (nm, m, i)" using reply_header_fst by blast
  have r: "reply_ok r" "distinct (i # map fst rs)" "\<forall>r \<in> set rs. reply_ok (snd r)"
    using assms(1) unfolding in_step_def by auto
  obtain p where p: "recv_own P nm rd fin nm m (lk_down (cc_link c1)) = (Inr (True, r), p)" "C p (replies_toks nm enc rs)"
    using readsD [OF recv_own_reply [OF r(1) assms(2) m] c1(5)] by blast
  let ?c = "c1\<lparr>cc_link := cc_link c1\<lparr>lk_down := p\<rparr>, cc_sync := snd (recvSentry_end Y i True (cc_sync c1))\<rparr>"
  have "recv_turn Y P nm rd fin i c = (map_sum id Some r, ?c)"
    using c1(1) m p(1) by (simp add: recv_turn_def recv_round_def bindIO_def on_sync_def on_conn_def on_down_def returnIO_def split_beta)
  moreover have "in_step C view nm enc rs ?c"
    using s_recv_end [OF c1(2), of i True] c1(3,4) p(2) r unfolding in_step_def by auto
  ultimately show ?thesis by blast
qed

text \<open>
  Whatever the order of the turns, the replies are delivered in the order in which they arrived, each to
  its own thread; when that order occurs in the schedule, all are.
\<close>

lemma turns_deliver:
  fixes c :: "('p, 'h, 'y) conc"
  assumes "in_step C view nm enc rs c" and "\<And>v. reads C rd (enc v) (\<lambda>x. fin x = (True, Inr v))"
    and "set waiting = fst ` set rs" and "distinct waiting"
  shows "\<exists>k c'. run_turns (recv_turn Y P nm rd fin) waiting sched c = (take k rs, c') \<and> in_step C view nm enc (drop k rs) c' \<and>
    (subseq (map fst rs) sched \<longrightarrow> length rs \<le> k)"
  using assms(1,3,4)
proof (induction sched arbitrary: rs waiting c)
  case Nil
  have "run_turns (recv_turn Y P nm rd fin) waiting [] c = (take 0 rs, c)" by simp
  moreover have "in_step C view nm enc (drop 0 rs) c" using Nil.prems(1) by simp
  ultimately show ?case by (metis le_zero_eq length_map list.size(3) list_emb_Nil2)
next
  case (Cons j sched)
  show ?case
  proof (cases rs)
    case Nil
    then have "j \<notin> set waiting" using Cons.prems(2) by simp
    then show ?thesis using Cons.IH [OF Cons.prems] Nil by auto
  next
    case (Cons r0 rs')
    obtain i r where rs: "rs = (i, r) # rs'" using Cons by (cases r0) auto
    then have s: "in_step C view nm enc ((i, r) # rs') c" using Cons.prems(1) by simp
    consider "j \<notin> set waiting" "j \<noteq> i" | "j \<in> set waiting" "j \<noteq> i" | "j = i" by blast
    then show ?thesis
    proof cases
      case 1
      then show ?thesis using Cons.IH [OF Cons.prems] rs by simp
    next
      case 2
      obtain c1 where "recv_turn Y P nm rd fin j c = (Inr None, c1)" "in_step C view nm enc rs c1"
        using turn_waits [OF s 2(2), of nm rd fin] rs by blast
      then show ?thesis using Cons.IH [OF _ Cons.prems(2,3), of c1] 2 rs by simp
    next
      case 3
      obtain c1 where c1: "recv_turn Y P nm rd fin j c = (map_sum id Some r, c1)" "in_step C view nm enc rs' c1"
        using turn_returns [OF s assms(2)] 3 by blast
      have w: "set (remove1 j waiting) = fst ` set rs'" "distinct (remove1 j waiting)"
        using Cons.prems s 3 rs unfolding in_step_def by (auto simp: set_remove1_eq)
      obtain k c' where k: "run_turns (recv_turn Y P nm rd fin) (remove1 j waiting) sched c1 = (take k rs', c')"
        "in_step C view nm enc (drop k rs') c'" "subseq (map fst rs') sched \<longrightarrow> length rs' \<le> k"
        using Cons.IH [OF c1(2) w] by blast
      have "run_turns (recv_turn Y P nm rd fin) waiting (j # sched) c = (take (Suc k) rs, c')"
        using c1(1) k(1) 3 Cons.prems(2) rs by (cases r) auto
      then show ?thesis using k(2,3) 3 rs by (intro exI [of _ "Suc k"]) auto
    qed
  qed
qed

text \<open>Sending gives the call the next number.\<close>

lemma send_call_ok:
  fixes c :: "('p, 'h, 'y) conc"
  assumes "view (cc_sync c) = Some v" and "0 \<le> sv_next v" and "sv_next v < 2 ^ 31 - 1" and "sv_next v \<notin> sv_ids v"
    and "emits C args ts" and "length nm < 2 ^ 31" and "C (lk_up (cc_link c)) q"
  shows "\<exists>c'. send_call Y P nm args c = (Inr (sv_next v), c') \<and>
    view (cc_sync c') = Some (v\<lparr>sv_next := sv_next v + 1, sv_ids := insert (sv_next v) (sv_ids v)\<rparr>) \<and>
    C (lk_up (cc_link c')) (q @ K_msg nm T_CALL (sv_next v) # ts) \<and>
    lk_down (cc_link c') = lk_down (cc_link c) \<and> lk_iface (cc_link c') = lk_iface (cc_link c)"
proof -
  let ?v = "v\<lparr>sv_next := sv_next v + 1, sv_ids := insert (sv_next v) (sv_ids v)\<rparr>"
  obtain y1 where y1: "generateSeqId Y (cc_sync c) = (Inr (sv_next v), y1)" "view y1 = Some ?v"
    using s_generate [OF assms(1-4)] by blast
  obtain y2 where y2: "sendSentry Y y1 = (Inr (), y2)" "view y2 = Some ?v" using s_send [OF y1(2)] by blast
  have "tok_ok (K_msg nm T_CALL (sv_next v))" using assms(2,3,6) by (simp add: fits32_def int_min_def int_max_def)
  from emitsD [OF emits_message [OF this assms(5)] assms(7)] obtain p
    where p: "write_message P nm T_CALL (sv_next v) args (lk_up (cc_link c)) = (Inr (), p)"
      "C p (q @ K_msg nm T_CALL (sv_next v) # ts)" by blast
  show ?thesis using y1(1) y2 p s_send_end [OF y2(2), of True]
    by (simp add: send_call_def finallyIO_def bindIO_def on_sync_def on_conn_def on_up_def returnIO_def split_beta)
qed

lemma sends_ok:
  fixes c :: "('p, 'h, 'y) conc"
  assumes "\<And>x. x \<in> set xs \<Longrightarrow> emits C (args x) (ts x)" and "length nm < 2 ^ 31"
    and "view (cc_sync c) = Some v" and "0 \<le> sv_next v" and "sv_next v + int (length xs) < 2 ^ 31"
    and "C (lk_up (cc_link c)) q" and "\<forall>i \<in> sv_ids v. i < sv_next v"
  shows "\<exists>c' v'. mapIO (\<lambda>x. send_call Y P nm (args x)) xs c = (Inr (map (\<lambda>j. sv_next v + int j) [0..<length xs]), c') \<and>
    view (cc_sync c') = Some v' \<and> sv_pending v' = sv_pending v \<and>
    sv_ids v' = sv_ids v \<union> {sv_next v..<sv_next v + int (length xs)} \<and>
    C (lk_up (cc_link c')) (q @ concat (map (\<lambda>(j, x). K_msg nm T_CALL (sv_next v + int j) # ts x) (enumerate 0 xs))) \<and>
    lk_down (cc_link c') = lk_down (cc_link c) \<and> lk_iface (cc_link c') = lk_iface (cc_link c)"
  using assms(1,3-)
proof (induction xs arbitrary: c v q)
  case Nil
  then show ?case by (simp add: returnIO_def)
next
  case (Cons x xs)
  let ?v = "v\<lparr>sv_next := sv_next v + 1, sv_ids := insert (sv_next v) (sv_ids v)\<rparr>"
  let ?q = "q @ K_msg nm T_CALL (sv_next v) # ts x"
  obtain c1 where c1: "send_call Y P nm (args x) c = (Inr (sv_next v), c1)" "view (cc_sync c1) = Some ?v"
    "C (lk_up (cc_link c1)) ?q" "lk_down (cc_link c1) = lk_down (cc_link c)" "lk_iface (cc_link c1) = lk_iface (cc_link c)"
    using send_call_ok [OF Cons.prems(2,3) _ _ Cons.prems(1) assms(2) Cons.prems(5), of x] Cons.prems(4,6) by auto
  have "0 \<le> sv_next ?v" "sv_next ?v + int (length xs) < 2 ^ 31" "\<And>x. x \<in> set xs \<Longrightarrow> emits C (args x) (ts x)"
    "\<forall>i \<in> sv_ids ?v. i < sv_next ?v" using Cons.prems by auto
  from Cons.IH [OF this(3) c1(2) this(1,2) c1(3) this(4)] obtain c' v'
    where c': "mapIO (\<lambda>x. send_call Y P nm (args x)) xs c1 = (Inr (map (\<lambda>j. sv_next v + 1 + int j) [0..<length xs]), c')"
      "view (cc_sync c') = Some v'" "sv_pending v' = sv_pending v"
      "sv_ids v' = insert (sv_next v) (sv_ids v) \<union> {sv_next v + 1..<sv_next v + 1 + int (length xs)}"
      "C (lk_up (cc_link c')) (?q @ concat (map (\<lambda>(j, x). K_msg nm T_CALL (sv_next v + 1 + int j) # ts x) (enumerate 0 xs)))"
      "lk_down (cc_link c') = lk_down (cc_link c)" "lk_iface (cc_link c') = lk_iface (cc_link c)"
    using c1(4,5) by auto
  have e: "map (\<lambda>(j, x). K_msg nm T_CALL (sv_next v + int j) # ts x) (enumerate 1 xs) =
      map (\<lambda>(j, x). K_msg nm T_CALL (sv_next v + 1 + int j) # ts x) (enumerate 0 xs)"
    using shift_enumerate [of "\<lambda>j x. K_msg nm T_CALL (sv_next v + int j) # ts x" xs] by (simp add: add.assoc)
  have i: "map (\<lambda>j. sv_next v + int j) [0..<length (x # xs)] = sv_next v # map (\<lambda>j. sv_next v + 1 + int j) [0..<length xs]"
    by (rule upt_shift)
  have d: "sv_ids v' = sv_ids v \<union> {sv_next v..<sv_next v + int (length (x # xs))}"
    using c'(4) int_interval_Suc [of "sv_next v" "length xs"] by (simp add: add.assoc)
  show ?case unfolding i mapIO.simps using c1(1) c'(1,2,3,5-) d e by (simp add: bindIO_def returnIO_def)
qed

text \<open>A reply with another name, or without its result, makes the connection unusable for every thread.\<close>

lemma recv_own_wrong_name:
  assumes "fname \<noteq> nm" and "tval T_STRUCT ts" and "list_all tok_ok ts"
  shows "raises C (recv_own P nm rd fin fname T_REPLY) ts (Protocol_error INVALID_DATA)"
proof -
  have e: "raises C (bindIO (seqIO [end_of_message P]) (\<lambda>_. throwIO (Protocol_error INVALID_DATA))) ([] @ []) (Protocol_error INVALID_DATA)"
    by (rule raises_then [where Q = "\<lambda>_. True"]) (simp_all add: reads_then [OF reads_end] raises_throw)
  have "raises C (bindIO (skipT P T_STRUCT) (\<lambda>_. bindIO (seqIO [end_of_message P]) (\<lambda>_. throwIO (Protocol_error INVALID_DATA))))
      (ts @ []) (Protocol_error INVALID_DATA)"
    by (rule raises_then [OF r_skip [OF assms(2,3)]]) (use e in simp)
  moreover have "recv_own P nm rd fin fname T_REPLY =
      bindIO (skipT P T_STRUCT) (\<lambda>_. bindIO (seqIO [end_of_message P]) (\<lambda>_. throwIO (Protocol_error INVALID_DATA)))"
    using assms(1) by (auto simp: recv_own_def bindIO_def returnIO_def fun_eq_iff split: sum.split prod.split)
  ultimately show ?thesis by simp
qed

lemma turn_kills:
  fixes c :: "('p, 'h, 'y) conc"
  assumes "view (cc_sync c) = Some v" and "sv_pending v = None" and "fname \<noteq> nm"
    and "C (lk_down (cc_link c)) (K_msg fname T_REPLY i # ts @ q)" and "tval T_STRUCT ts" and "list_all tok_ok ts"
  shows "\<exists>c'. recv_turn Y P nm rd fin i c = (Inl (Protocol_error INVALID_DATA), c') \<and> view (cc_sync c') = None"
proof -
  obtain y where y: "getPending Y (cc_sync c) = (Inr None, y)" "view y = Some (v\<lparr>sv_pending := None\<rparr>)"
    using s_pending [OF assms(1)] assms(2) by auto
  have "C (lk_down (cc_link c)) ([K_msg fname T_REPLY i] @ ts @ q)" using assms(4) by simp
  from readsD [OF r_message this] obtain p
    where p: "readMessageBegin P (lk_down (cc_link c)) = (Inr (fname, T_REPLY, i), p)" "C p (ts @ q)" by blast
  obtain p' where p': "recv_own P nm rd fin fname T_REPLY p = (Inl (Protocol_error INVALID_DATA), p')"
    using recv_own_wrong_name [OF assms(3,5,6), of rd fin] p(2) unfolding raises_def by blast
  show ?thesis using y p(1) p' s_recv_end [OF y(2), of i False]
    by (simp add: recv_turn_def recv_round_def get_header_def bindIO_def on_sync_def on_conn_def on_down_def split_beta)
qed

lemma turn_dead:
  fixes c :: "('p, 'h, 'y) conc"
  assumes "view (cc_sync c) = None"
  shows "\<exists>e c'. recv_turn Y P nm rd fin i c = (Inl e, c') \<and> view (cc_sync c') = None"
proof -
  obtain e y where "getPending Y (cc_sync c) = (Inl e, y)" "view y = None" using s_dead_pending [OF assms] by blast
  then show ?thesis using s_dead_end [of y i False]
    by (simp add: recv_turn_def recv_round_def get_header_def bindIO_def on_sync_def split_beta)
qed

lemma send_dead:
  fixes c :: "('p, 'h, 'y) conc"
  assumes "view (cc_sync c) = None"
  shows "\<exists>e c'. send_call Y P nm args c = (Inl e, c') \<and> view (cc_sync c') = None \<and> cc_link c' = cc_link c"
proof -
  obtain e y where "generateSeqId Y (cc_sync c) = (Inl e, y)" "view y = None" using s_dead_generate [OF assms] by blast
  then show ?thesis by (simp add: send_call_def bindIO_def on_sync_def)
qed

end

subsection \<open>An instance\<close>

text \<open>The bookkeeping that the library's documentation describes: a counter, the waiting calls, one header.\<close>

record sync_info =
  nextseqid :: int
  monitors :: "int list"
  pendingHeader :: "header option"
  sync_stop :: bool

definition dead_connection :: cpp_error where
  "dead_connection = Runtime_error ''this client died on another thread, and is now in an unusable state''"

definition if_alive :: "(sync_info, 'a) io \<Rightarrow> (sync_info, 'a) io" where
  "if_alive m = (\<lambda>y. if sync_stop y then (Inl dead_connection, y) else m y)"

definition std_sync :: "sync_info tsync" where
  "std_sync = \<lparr>
     generateSeqId = if_alive (\<lambda>y. if nextseqid y \<in> set (monitors y) then (Inl (Application_error BAD_SEQUENCE_ID ''about to repeat a seqid''), y)
        else (Inr (nextseqid y), y\<lparr>nextseqid := nextseqid y + 1, monitors := nextseqid y # monitors y\<rparr>)),
     sendSentry = returnIO (),
     sendSentry_end = (\<lambda>b y. (Inr (), if b then y else y\<lparr>sync_stop := True\<rparr>)),
     recvSentry = (\<lambda>_. returnIO ()),
     recvSentry_end = (\<lambda>i b y. (Inr (), if b then y\<lparr>monitors := removeAll i (monitors y)\<rparr> else y\<lparr>sync_stop := True\<rparr>)),
     getPending = if_alive (\<lambda>y. (Inr (pendingHeader y), y\<lparr>pendingHeader := None\<rparr>)),
     updatePending = (\<lambda>f m i y. if i \<in> set (monitors y) then (Inr (), y\<lparr>pendingHeader := Some (f, m, i)\<rparr>)
        else (Inl (Application_error BAD_SEQUENCE_ID ''server sent a bad seqid''), y)),
     waitForWork = (\<lambda>_. returnIO ()) \<rparr>"

definition sync_start :: sync_info where
  "sync_start = \<lparr>nextseqid = 0, monitors = [], pendingHeader = None, sync_stop = False\<rparr>"

definition std_view :: "sync_info \<Rightarrow> sync_view option" where
  "std_view y = (if sync_stop y then None
     else Some \<lparr>sv_pending = pendingHeader y, sv_next = nextseqid y, sv_ids = set (monitors y)\<rparr>)"

interpretation std: concurrent_sync std_sync std_view
  by unfold_locales (auto simp: std_sync_def std_view_def if_alive_def returnIO_def split: if_splits)

interpretation binary_std: concurrent_link binary_protocol buffered std_sync std_view
  by (intro concurrent_link.intro bin.thrift_protocol_axioms std.concurrent_sync_axioms)

end
