(* ===== verification/Thrift_Concurrent.thy ===== *)
theory Thrift_Concurrent
  imports Thrift_Sync
begin

text \<open>
  The generated class \<open>waffle_thriftConcurrentClient\<close> (\<open>waffle_thrift.cpp\<close>): the client of \<open>Thrift_Client\<close>, made
  for several threads on one connection.  \<open>Y\<close> is the bookkeeping of the library, \<open>peer\<close> what happens at the
  other end of the connection between the two halves of a call, \<open>others\<close> what other threads do while the
  calling one waits, \<open>k\<close> the number of rounds it may take.
\<close>

subsection \<open>Sending\<close>

definition waffle_thriftConcurrentClient_send_get_client_id ::
  "'y tsync \<Rightarrow> 'p tproto \<Rightarrow> (('p, 'h, 'y) conc, int) io" where
  "waffle_thriftConcurrentClient_send_get_client_id Y P =
     send_call Y P ''get_client_id'' (waffle_thrift_get_client_id_pargs_write P)"

definition waffle_thriftConcurrentClient_send_register_client_id ::
  "'y tsync \<Rightarrow> 'p tproto \<Rightarrow> int \<Rightarrow> int \<Rightarrow> (('p, 'h, 'y) conc, int) io" where
  "waffle_thriftConcurrentClient_send_register_client_id Y P blk cid =
     send_call Y P ''register_client_id'' (waffle_thrift_register_client_id_pargs_write P blk cid)"

definition waffle_thriftConcurrentClient_send_async_get ::
  "'y tsync \<Rightarrow> 'p tproto \<Rightarrow> sequence_id \<Rightarrow> string \<Rightarrow> (('p, 'h, 'y) conc, unit) io" where
  "waffle_thriftConcurrentClient_send_async_get Y P sq key =
     send_oneway Y P ''async_get'' (waffle_thrift_async_get_pargs_write P sq key)"

definition waffle_thriftConcurrentClient_send_async_put ::
  "'y tsync \<Rightarrow> 'p tproto \<Rightarrow> sequence_id \<Rightarrow> string \<Rightarrow> string \<Rightarrow> (('p, 'h, 'y) conc, unit) io" where
  "waffle_thriftConcurrentClient_send_async_put Y P sq key value =
     send_oneway Y P ''async_put'' (waffle_thrift_async_put_pargs_write P sq key value)"

definition waffle_thriftConcurrentClient_send_async_get_batch ::
  "'y tsync \<Rightarrow> 'p tproto \<Rightarrow> sequence_id \<Rightarrow> string list \<Rightarrow> (('p, 'h, 'y) conc, unit) io" where
  "waffle_thriftConcurrentClient_send_async_get_batch Y P sq keys =
     send_oneway Y P ''async_get_batch'' (waffle_thrift_async_get_batch_pargs_write P sq keys)"

definition waffle_thriftConcurrentClient_send_async_put_batch ::
  "'y tsync \<Rightarrow> 'p tproto \<Rightarrow> sequence_id \<Rightarrow> string list \<Rightarrow> string list \<Rightarrow> (('p, 'h, 'y) conc, unit) io" where
  "waffle_thriftConcurrentClient_send_async_put_batch Y P sq keys values =
     send_oneway Y P ''async_put_batch'' (waffle_thrift_async_put_batch_pargs_write P sq keys values)"

definition waffle_thriftConcurrentClient_send_get ::
  "'y tsync \<Rightarrow> 'p tproto \<Rightarrow> string \<Rightarrow> (('p, 'h, 'y) conc, int) io" where
  "waffle_thriftConcurrentClient_send_get Y P key =
     send_call Y P ''get'' (waffle_thrift_get_pargs_write P key)"

definition waffle_thriftConcurrentClient_send_put ::
  "'y tsync \<Rightarrow> 'p tproto \<Rightarrow> string \<Rightarrow> string \<Rightarrow> (('p, 'h, 'y) conc, int) io" where
  "waffle_thriftConcurrentClient_send_put Y P key value =
     send_call Y P ''put'' (waffle_thrift_put_pargs_write P key value)"

definition waffle_thriftConcurrentClient_send_get_batch ::
  "'y tsync \<Rightarrow> 'p tproto \<Rightarrow> string list \<Rightarrow> (('p, 'h, 'y) conc, int) io" where
  "waffle_thriftConcurrentClient_send_get_batch Y P keys =
     send_call Y P ''get_batch'' (waffle_thrift_get_batch_pargs_write P keys)"

definition waffle_thriftConcurrentClient_send_put_batch ::
  "'y tsync \<Rightarrow> 'p tproto \<Rightarrow> string list \<Rightarrow> string list \<Rightarrow> (('p, 'h, 'y) conc, int) io" where
  "waffle_thriftConcurrentClient_send_put_batch Y P keys values =
     send_call Y P ''put_batch'' (waffle_thrift_put_batch_pargs_write P keys values)"

definition waffle_thriftConcurrentClient_send_search ::
  "'y tsync \<Rightarrow> 'p tproto \<Rightarrow> string \<Rightarrow> (('p, 'h, 'y) conc, int) io" where
  "waffle_thriftConcurrentClient_send_search Y P keys =
     send_call Y P ''search'' (waffle_thrift_search_pargs_write P keys)"

subsection \<open>Receiving\<close>

text \<open>
  \<open>turn\<close> is one round of the loop, \<open>recv\<close> the function.  A result that is missing is thrown without a
  \<open>commit\<close>.
\<close>

definition waffle_thriftConcurrentClient_turn_get_client_id ::
  "'y tsync \<Rightarrow> 'p tproto \<Rightarrow> nat \<Rightarrow> int \<Rightarrow> int \<Rightarrow> (('p, 'h, 'y) conc, int option) io" where
  "waffle_thriftConcurrentClient_turn_get_client_id Y P n r0 =
     recv_turn Y P ''get_client_id'' (waffle_thrift_get_client_id_presult_read P n \<lparr> get_client_id_result_success = r0, get_client_id_result_isset_success = False \<rparr>)
       (\<lambda>result. if get_client_id_result_isset_success result then (True,
           Inr (get_client_id_result_success result))
          else (False, Inl (Application_error MISSING_RESULT ''get_client_id failed: unknown result'')))"

definition waffle_thriftConcurrentClient_recv_get_client_id ::
  "'y tsync \<Rightarrow> 'p tproto \<Rightarrow> nat \<Rightarrow> nat \<Rightarrow> (('p, 'h, 'y) conc, unit) io \<Rightarrow> int \<Rightarrow> int \<Rightarrow> (('p, 'h, 'y) conc,
      int) io" where
  "waffle_thriftConcurrentClient_recv_get_client_id Y P n k others r0 = recv_call Y k others (waffle_thriftConcurrentClient_turn_get_client_id Y P n r0)"

definition waffle_thriftConcurrentClient_turn_register_client_id ::
  "'y tsync \<Rightarrow> 'p tproto \<Rightarrow> nat \<Rightarrow> int \<Rightarrow> (('p, 'h, 'y) conc, unit option) io" where
  "waffle_thriftConcurrentClient_turn_register_client_id Y P n =
     recv_turn Y P ''register_client_id'' (waffle_thrift_register_client_id_presult_read P n ()) (\<lambda>result. (True, Inr ()))"

definition waffle_thriftConcurrentClient_recv_register_client_id ::
  "'y tsync \<Rightarrow> 'p tproto \<Rightarrow> nat \<Rightarrow> nat \<Rightarrow> (('p, 'h, 'y) conc, unit) io \<Rightarrow> int \<Rightarrow> (('p, 'h, 'y) conc,
      unit) io" where
  "waffle_thriftConcurrentClient_recv_register_client_id Y P n k others = recv_call Y k others (waffle_thriftConcurrentClient_turn_register_client_id Y P n)"

definition waffle_thriftConcurrentClient_turn_get ::
  "'y tsync \<Rightarrow> 'p tproto \<Rightarrow> nat \<Rightarrow> string \<Rightarrow> int \<Rightarrow> (('p, 'h, 'y) conc, string option) io" where
  "waffle_thriftConcurrentClient_turn_get Y P n r0 =
     recv_turn Y P ''get'' (waffle_thrift_get_presult_read P n \<lparr> get_result_success = r0,
         get_result_isset_success = False \<rparr>)
       (\<lambda>result. if get_result_isset_success result then (True, Inr (get_result_success result))
          else (False, Inl (Application_error MISSING_RESULT ''get failed: unknown result'')))"

definition waffle_thriftConcurrentClient_recv_get ::
  "'y tsync \<Rightarrow> 'p tproto \<Rightarrow> nat \<Rightarrow> nat \<Rightarrow> (('p, 'h, 'y) conc, unit) io \<Rightarrow> string \<Rightarrow> int \<Rightarrow> (('p, 'h, 'y) conc,
      string) io" where
  "waffle_thriftConcurrentClient_recv_get Y P n k others r0 = recv_call Y k others (waffle_thriftConcurrentClient_turn_get Y P n r0)"

definition waffle_thriftConcurrentClient_turn_put ::
  "'y tsync \<Rightarrow> 'p tproto \<Rightarrow> nat \<Rightarrow> int \<Rightarrow> (('p, 'h, 'y) conc, unit option) io" where
  "waffle_thriftConcurrentClient_turn_put Y P n =
     recv_turn Y P ''put'' (waffle_thrift_put_presult_read P n ()) (\<lambda>result. (True, Inr ()))"

definition waffle_thriftConcurrentClient_recv_put ::
  "'y tsync \<Rightarrow> 'p tproto \<Rightarrow> nat \<Rightarrow> nat \<Rightarrow> (('p, 'h, 'y) conc, unit) io \<Rightarrow> int \<Rightarrow> (('p, 'h, 'y) conc,
      unit) io" where
  "waffle_thriftConcurrentClient_recv_put Y P n k others = recv_call Y k others (waffle_thriftConcurrentClient_turn_put Y P n)"

definition waffle_thriftConcurrentClient_turn_get_batch ::
  "'y tsync \<Rightarrow> 'p tproto \<Rightarrow> nat \<Rightarrow> string list \<Rightarrow> int \<Rightarrow> (('p, 'h, 'y) conc, string list option) io" where
  "waffle_thriftConcurrentClient_turn_get_batch Y P n r0 =
     recv_turn Y P ''get_batch'' (waffle_thrift_get_batch_presult_read P n \<lparr> get_batch_result_success = r0, get_batch_result_isset_success = False \<rparr>)
       (\<lambda>result. if get_batch_result_isset_success result then (True, Inr (get_batch_result_success result))
          else (False, Inl (Application_error MISSING_RESULT ''get_batch failed: unknown result'')))"

definition waffle_thriftConcurrentClient_recv_get_batch ::
  "'y tsync \<Rightarrow> 'p tproto \<Rightarrow> nat \<Rightarrow> nat \<Rightarrow> (('p, 'h, 'y) conc, unit) io \<Rightarrow> string list \<Rightarrow> int \<Rightarrow> (('p, 'h,
      'y) conc, string list) io" where
  "waffle_thriftConcurrentClient_recv_get_batch Y P n k others r0 = recv_call Y k others (waffle_thriftConcurrentClient_turn_get_batch Y P n r0)"

definition waffle_thriftConcurrentClient_turn_put_batch ::
  "'y tsync \<Rightarrow> 'p tproto \<Rightarrow> nat \<Rightarrow> int \<Rightarrow> (('p, 'h, 'y) conc, unit option) io" where
  "waffle_thriftConcurrentClient_turn_put_batch Y P n =
     recv_turn Y P ''put_batch'' (waffle_thrift_put_batch_presult_read P n ()) (\<lambda>result. (True, Inr ()))"

definition waffle_thriftConcurrentClient_recv_put_batch ::
  "'y tsync \<Rightarrow> 'p tproto \<Rightarrow> nat \<Rightarrow> nat \<Rightarrow> (('p, 'h, 'y) conc, unit) io \<Rightarrow> int \<Rightarrow> (('p, 'h, 'y) conc,
      unit) io" where
  "waffle_thriftConcurrentClient_recv_put_batch Y P n k others = recv_call Y k others (waffle_thriftConcurrentClient_turn_put_batch Y P n)"

definition waffle_thriftConcurrentClient_turn_search ::
  "'y tsync \<Rightarrow> 'p tproto \<Rightarrow> nat \<Rightarrow> string list \<Rightarrow> int \<Rightarrow> (('p, 'h, 'y) conc, string list option) io" where
  "waffle_thriftConcurrentClient_turn_search Y P n r0 =
     recv_turn Y P ''search'' (waffle_thrift_search_presult_read P n \<lparr> search_result_success = r0,
         search_result_isset_success = False \<rparr>)
       (\<lambda>result. if search_result_isset_success result then (True, Inr (search_result_success result))
          else (False, Inl (Application_error MISSING_RESULT ''search failed: unknown result'')))"

definition waffle_thriftConcurrentClient_recv_search ::
  "'y tsync \<Rightarrow> 'p tproto \<Rightarrow> nat \<Rightarrow> nat \<Rightarrow> (('p, 'h, 'y) conc, unit) io \<Rightarrow> string list \<Rightarrow> int \<Rightarrow> (('p, 'h,
      'y) conc, string list) io" where
  "waffle_thriftConcurrentClient_recv_search Y P n k others r0 = recv_call Y k others (waffle_thriftConcurrentClient_turn_search Y P n r0)"

subsection \<open>The calls\<close>

definition waffle_thriftConcurrentClient_get_client_id ::
  "'y tsync \<Rightarrow> 'p tproto \<Rightarrow> nat \<Rightarrow> nat \<Rightarrow> (('p, 'h, 'y) conc, unit) io \<Rightarrow> (('p, 'h, 'y) conc,
      unit) io \<Rightarrow> int \<Rightarrow> (('p, 'h, 'y) conc, int) io" where
  "waffle_thriftConcurrentClient_get_client_id Y P n k peer others r0 =
     bindIO (waffle_thriftConcurrentClient_send_get_client_id Y P) (\<lambda>seqid.
     bindIO peer (\<lambda>_. waffle_thriftConcurrentClient_recv_get_client_id Y P n k others r0 seqid))"

definition waffle_thriftConcurrentClient_register_client_id ::
  "'y tsync \<Rightarrow> 'p tproto \<Rightarrow> nat \<Rightarrow> nat \<Rightarrow> (('p, 'h, 'y) conc, unit) io \<Rightarrow> (('p, 'h, 'y) conc,
      unit) io \<Rightarrow> int \<Rightarrow> int \<Rightarrow> (('p, 'h, 'y) conc, unit) io" where
  "waffle_thriftConcurrentClient_register_client_id Y P n k peer others blk cid =
     bindIO (waffle_thriftConcurrentClient_send_register_client_id Y P blk cid) (\<lambda>seqid.
     bindIO peer (\<lambda>_. waffle_thriftConcurrentClient_recv_register_client_id Y P n k others seqid))"

definition waffle_thriftConcurrentClient_async_get ::
  "'y tsync \<Rightarrow> 'p tproto \<Rightarrow> sequence_id \<Rightarrow> string \<Rightarrow> (('p, 'h, 'y) conc, unit) io" where
  "waffle_thriftConcurrentClient_async_get Y P sq key = waffle_thriftConcurrentClient_send_async_get Y P sq key"

definition waffle_thriftConcurrentClient_async_put ::
  "'y tsync \<Rightarrow> 'p tproto \<Rightarrow> sequence_id \<Rightarrow> string \<Rightarrow> string \<Rightarrow> (('p, 'h, 'y) conc, unit) io" where
  "waffle_thriftConcurrentClient_async_put Y P sq key value = waffle_thriftConcurrentClient_send_async_put Y P sq key value"

definition waffle_thriftConcurrentClient_async_get_batch ::
  "'y tsync \<Rightarrow> 'p tproto \<Rightarrow> sequence_id \<Rightarrow> string list \<Rightarrow> (('p, 'h, 'y) conc, unit) io" where
  "waffle_thriftConcurrentClient_async_get_batch Y P sq keys = waffle_thriftConcurrentClient_send_async_get_batch Y P sq keys"

definition waffle_thriftConcurrentClient_async_put_batch ::
  "'y tsync \<Rightarrow> 'p tproto \<Rightarrow> sequence_id \<Rightarrow> string list \<Rightarrow> string list \<Rightarrow> (('p, 'h, 'y) conc, unit) io" where
  "waffle_thriftConcurrentClient_async_put_batch Y P sq keys values = waffle_thriftConcurrentClient_send_async_put_batch Y P sq keys values"

definition waffle_thriftConcurrentClient_get ::
  "'y tsync \<Rightarrow> 'p tproto \<Rightarrow> nat \<Rightarrow> nat \<Rightarrow> (('p, 'h, 'y) conc, unit) io \<Rightarrow> (('p, 'h, 'y) conc,
      unit) io \<Rightarrow> string \<Rightarrow> string \<Rightarrow> (('p, 'h, 'y) conc, string) io" where
  "waffle_thriftConcurrentClient_get Y P n k peer others r0 key =
     bindIO (waffle_thriftConcurrentClient_send_get Y P key) (\<lambda>seqid.
     bindIO peer (\<lambda>_. waffle_thriftConcurrentClient_recv_get Y P n k others r0 seqid))"

definition waffle_thriftConcurrentClient_put ::
  "'y tsync \<Rightarrow> 'p tproto \<Rightarrow> nat \<Rightarrow> nat \<Rightarrow> (('p, 'h, 'y) conc, unit) io \<Rightarrow> (('p, 'h, 'y) conc,
      unit) io \<Rightarrow> string \<Rightarrow> string \<Rightarrow> (('p, 'h, 'y) conc, unit) io" where
  "waffle_thriftConcurrentClient_put Y P n k peer others key value =
     bindIO (waffle_thriftConcurrentClient_send_put Y P key value) (\<lambda>seqid.
     bindIO peer (\<lambda>_. waffle_thriftConcurrentClient_recv_put Y P n k others seqid))"

definition waffle_thriftConcurrentClient_get_batch ::
  "'y tsync \<Rightarrow> 'p tproto \<Rightarrow> nat \<Rightarrow> nat \<Rightarrow> (('p, 'h, 'y) conc, unit) io \<Rightarrow> (('p, 'h, 'y) conc,
      unit) io \<Rightarrow> string list \<Rightarrow> string list \<Rightarrow> (('p, 'h, 'y) conc, string list) io" where
  "waffle_thriftConcurrentClient_get_batch Y P n k peer others r0 keys =
     bindIO (waffle_thriftConcurrentClient_send_get_batch Y P keys) (\<lambda>seqid.
     bindIO peer (\<lambda>_. waffle_thriftConcurrentClient_recv_get_batch Y P n k others r0 seqid))"

definition waffle_thriftConcurrentClient_put_batch ::
  "'y tsync \<Rightarrow> 'p tproto \<Rightarrow> nat \<Rightarrow> nat \<Rightarrow> (('p, 'h, 'y) conc, unit) io \<Rightarrow> (('p, 'h, 'y) conc,
      unit) io \<Rightarrow> string list \<Rightarrow> string list \<Rightarrow> (('p, 'h, 'y) conc, unit) io" where
  "waffle_thriftConcurrentClient_put_batch Y P n k peer others keys values =
     bindIO (waffle_thriftConcurrentClient_send_put_batch Y P keys values) (\<lambda>seqid.
     bindIO peer (\<lambda>_. waffle_thriftConcurrentClient_recv_put_batch Y P n k others seqid))"

definition waffle_thriftConcurrentClient_search ::
  "'y tsync \<Rightarrow> 'p tproto \<Rightarrow> nat \<Rightarrow> nat \<Rightarrow> (('p, 'h, 'y) conc, unit) io \<Rightarrow> (('p, 'h, 'y) conc,
      unit) io \<Rightarrow> string list \<Rightarrow> string \<Rightarrow> (('p, 'h, 'y) conc, string list) io" where
  "waffle_thriftConcurrentClient_search Y P n k peer others r0 keys =
     bindIO (waffle_thriftConcurrentClient_send_search Y P keys) (\<lambda>seqid.
     bindIO peer (\<lambda>_. waffle_thriftConcurrentClient_recv_search Y P n k others r0 seqid))"

subsection \<open>What the functions do\<close>

context concurrent_link
begin

text \<open>The result class of each method is read back by its \<open>recv_\<close> function.\<close>


lemma turns_get_client_id:
  fixes c :: "('p, 'h, 'y) conc"
  assumes "1 < n" and "in_step C view ''get_client_id'' get_client_id_result_toks rs c" and "set waiting = fst ` set rs" and "distinct waiting"
  shows "\<exists>k c'. run_turns (waffle_thriftConcurrentClient_turn_get_client_id Y P n r0) waiting sched c = (take k rs, c') \<and>
    in_step C view ''get_client_id'' get_client_id_result_toks (drop k rs) c' \<and>
        (subseq (map fst rs) sched \<longrightarrow> length rs \<le> k)"
  unfolding waffle_thriftConcurrentClient_turn_get_client_id_def
  by (rule turns_deliver [OF assms(2) _ assms(3,4)], rule reads_weaken,
      rule waffle_thrift_get_client_id_presult_reads [OF assms(1)]) simp

lemma turns_register_client_id:
  fixes c :: "('p, 'h, 'y) conc"
  assumes "0 < n" and "in_step C view ''register_client_id'' (\<lambda>_. register_client_id_result_toks) rs c" and "set waiting = fst ` set rs" and "distinct waiting"
  shows "\<exists>k c'. run_turns (waffle_thriftConcurrentClient_turn_register_client_id Y P n) waiting sched c = (take k rs, c') \<and>
    in_step C view ''register_client_id'' (\<lambda>_. register_client_id_result_toks) (drop k rs) c' \<and>
        (subseq (map fst rs) sched \<longrightarrow> length rs \<le> k)"
  unfolding waffle_thriftConcurrentClient_turn_register_client_id_def
  by (rule turns_deliver [OF assms(2) _ assms(3,4)], rule reads_weaken,
      rule waffle_thrift_register_client_id_presult_reads [OF assms(1)]) simp

lemma turns_get:
  fixes c :: "('p, 'h, 'y) conc"
  assumes "1 < n" and "in_step C view ''get'' get_result_toks rs c" and "set waiting = fst ` set rs" and "distinct waiting"
  shows "\<exists>k c'. run_turns (waffle_thriftConcurrentClient_turn_get Y P n r0) waiting sched c = (take k rs, c') \<and>
    in_step C view ''get'' get_result_toks (drop k rs) c' \<and> (subseq (map fst rs) sched \<longrightarrow> length rs \<le> k)"
  unfolding waffle_thriftConcurrentClient_turn_get_def
  by (rule turns_deliver [OF assms(2) _ assms(3,4)], rule reads_weaken,
      rule waffle_thrift_get_presult_reads [OF assms(1)]) simp

lemma turns_put:
  fixes c :: "('p, 'h, 'y) conc"
  assumes "0 < n" and "in_step C view ''put'' (\<lambda>_. put_result_toks) rs c" and "set waiting = fst ` set rs" and "distinct waiting"
  shows "\<exists>k c'. run_turns (waffle_thriftConcurrentClient_turn_put Y P n) waiting sched c = (take k rs, c') \<and>
    in_step C view ''put'' (\<lambda>_. put_result_toks) (drop k rs) c' \<and>
        (subseq (map fst rs) sched \<longrightarrow> length rs \<le> k)"
  unfolding waffle_thriftConcurrentClient_turn_put_def
  by (rule turns_deliver [OF assms(2) _ assms(3,4)], rule reads_weaken,
      rule waffle_thrift_put_presult_reads [OF assms(1)]) simp

lemma turns_get_batch:
  fixes c :: "('p, 'h, 'y) conc"
  assumes "1 < n" and "in_step C view ''get_batch'' get_batch_result_toks rs c" and "set waiting = fst ` set rs" and "distinct waiting"
  shows "\<exists>k c'. run_turns (waffle_thriftConcurrentClient_turn_get_batch Y P n r0) waiting sched c = (take k rs, c') \<and>
    in_step C view ''get_batch'' get_batch_result_toks (drop k rs) c' \<and>
        (subseq (map fst rs) sched \<longrightarrow> length rs \<le> k)"
  unfolding waffle_thriftConcurrentClient_turn_get_batch_def
  by (rule turns_deliver [OF assms(2) _ assms(3,4)], rule reads_weaken,
      rule waffle_thrift_get_batch_presult_reads [OF assms(1)]) simp

lemma turns_put_batch:
  fixes c :: "('p, 'h, 'y) conc"
  assumes "0 < n" and "in_step C view ''put_batch'' (\<lambda>_. put_batch_result_toks) rs c" and "set waiting = fst ` set rs" and "distinct waiting"
  shows "\<exists>k c'. run_turns (waffle_thriftConcurrentClient_turn_put_batch Y P n) waiting sched c = (take k rs, c') \<and>
    in_step C view ''put_batch'' (\<lambda>_. put_batch_result_toks) (drop k rs) c' \<and>
        (subseq (map fst rs) sched \<longrightarrow> length rs \<le> k)"
  unfolding waffle_thriftConcurrentClient_turn_put_batch_def
  by (rule turns_deliver [OF assms(2) _ assms(3,4)], rule reads_weaken,
      rule waffle_thrift_put_batch_presult_reads [OF assms(1)]) simp

lemma turns_search:
  fixes c :: "('p, 'h, 'y) conc"
  assumes "1 < n" and "in_step C view ''search'' search_result_toks rs c" and "set waiting = fst ` set rs" and "distinct waiting"
  shows "\<exists>k c'. run_turns (waffle_thriftConcurrentClient_turn_search Y P n r0) waiting sched c = (take k rs, c') \<and>
    in_step C view ''search'' search_result_toks (drop k rs) c' \<and>
        (subseq (map fst rs) sched \<longrightarrow> length rs \<le> k)"
  unfolding waffle_thriftConcurrentClient_turn_search_def
  by (rule turns_deliver [OF assms(2) _ assms(3,4)], rule reads_weaken,
      rule waffle_thrift_search_presult_reads [OF assms(1)]) simp

text \<open>
  GET requests of several threads: the server answers them in the order they were sent, under the numbers they
  carry.
\<close>

lemma gets_served:
  assumes "1 < n" and "mapIO (If_get F) keys h = (Inr vs, h')" and "list_all str_ok vs"
    and "0 \<le> i" and "i + int (length keys) < 2 ^ 31"
  shows "moves C (mapIO (\<lambda>_. served_by what P n F) keys)
    (concat (map (\<lambda>(j, k). K_msg ''get'' T_CALL (i + int j) # get_args_toks k) (enumerate 0 keys))) b h
    (Inr (replicate (length keys) ())) [] (b @ replies_toks ''get'' get_result_toks (zip (map (\<lambda>j. i + int j) [0..<length keys]) (map Inr vs))) h'"
  using assms(2-)
proof (induction keys arbitrary: h vs i b)
  case Nil
  then show ?case using moves_return [of C "[]" "[]" b h] by (simp add: replies_toks_def returnIO_def)
next
  case (Cons k keys)
  obtain v h1 vs' where v: "If_get F k h = (Inr v, h1)" "mapIO (If_get F) keys h1 = (Inr vs', h')" "vs = v # vs'"
    using Cons.prems(1) by (auto simp: bindIO_def returnIO_def split: prod.splits sum.splits)
  let ?rest = "concat (map (\<lambda>(j, k). K_msg ''get'' T_CALL (i + 1 + int j) # get_args_toks k) (enumerate 0 keys))"
  let ?b = "b @ K_msg ''get'' T_REPLY i # get_result_toks v"
  have e: "concat (map (\<lambda>(j, k). K_msg ''get'' T_CALL (i + int j) # get_args_toks k) (enumerate 0 (k # keys))) =
      K_msg ''get'' T_CALL i # get_args_toks k @ ?rest"
    using shift_enumerate [of "\<lambda>j k. K_msg ''get'' T_CALL (i + int j) # get_args_toks k" keys] by (simp add: add.assoc)
  have u: "map (\<lambda>j. i + int j) [0..<length (k # keys)] = i # map (\<lambda>j. i + 1 + int j) [0..<length keys]"
    by (rule upt_shift)
  have "moves C (served_by what P n F) (K_msg ''get'' T_CALL i # get_args_toks k @ ?rest) b h (Inr ()) ?rest ?b h1"
    unfolding served_by_def waffle_thriftProcessor_dispatchCall_def
    by (rule serve_known [OF process_map_get], rule process_get_moves [of n F k h v h1 i])
      (use assms(1) v Cons.prems in \<open>auto simp: fits32_def int_min_def int_max_def\<close>)
  note first = this
  have "moves C (mapIO (\<lambda>_. served_by what P n F) keys) ?rest ?b h1 (Inr (replicate (length keys) ())) []
      (?b @ replies_toks ''get'' get_result_toks (zip (map (\<lambda>j. i + 1 + int j) [0..<length keys]) (map Inr vs'))) h'"
    using Cons.IH [OF v(2), of "i + 1" ?b] Cons.prems v(3) by simp
  then have "moves C (bindIO (mapIO (\<lambda>_. served_by what P n F) keys) (\<lambda>ys. returnIO (() # ys))) ?rest ?b h1
      (Inr (() # replicate (length keys) ())) []
      (?b @ replies_toks ''get'' get_result_toks (zip (map (\<lambda>j. i + 1 + int j) [0..<length keys]) (map Inr vs'))) h'"
    by (rule moves_bind) (rule moves_return)
  from moves_bind [where f = "\<lambda>y. bindIO (mapIO (\<lambda>_. served_by what P n F) keys) (\<lambda>ys. returnIO (y # ys))", OF first this]
  show ?case unfolding e u mapIO.simps by (simp add: v(3) replies_toks_def)
qed

lemma gets_delivered:
  fixes c :: "('p, 'h, 'y) conc"
  assumes "1 < n" and "list_all str_ok keys" and "list_all str_ok vs"
    and "mapIO (If_get F) keys (lk_iface (cc_link c)) = (Inr vs, h')"
    and "view (cc_sync c) = Some v" and "sv_pending v = None" and "\<forall>i \<in> sv_ids v. i < sv_next v"
    and "0 \<le> sv_next v" and "sv_next v + int (length keys) < 2 ^ 31"
    and "C (lk_up (cc_link c)) []" and "C (lk_down (cc_link c)) []"
  shows "\<exists>ids c1 c2. mapIO (waffle_thriftConcurrentClient_send_get Y P) keys c = (Inr ids, c1) \<and>
    distinct ids \<and> length ids = length keys \<and>
    on_conn (mapIO (\<lambda>_. served_by what P n F) keys) c1 = (Inr (replicate (length keys) ()), c2) \<and>
    lk_iface (cc_link c2) = h' \<and> in_step C view ''get'' get_result_toks (zip ids (map Inr vs)) c2"
proof -
  let ?ids = "map (\<lambda>j. sv_next v + int j) [0..<length keys]"
  have l: "length vs = length keys" using mapIO_length [OF assms(4)] .
  have "emits C (waffle_thrift_get_pargs_write P k) (get_args_toks k)" if "k \<in> set keys" for k
    using that assms(2) by (auto simp: list_all_iff intro: waffle_thrift_get_pargs_writes)
  from sends_ok [where nm = "''get''" and ts = get_args_toks and args = "waffle_thrift_get_pargs_write P", OF this _ assms(5,8,9,10,7)]
  obtain c1 v1
    where c1: "mapIO (waffle_thriftConcurrentClient_send_get Y P) keys c = (Inr ?ids, c1)"
      "view (cc_sync c1) = Some v1" "sv_pending v1 = None" "sv_ids v1 = sv_ids v \<union> {sv_next v..<sv_next v + int (length keys)}"
      "C (lk_up (cc_link c1)) (concat (map (\<lambda>(j, k). K_msg ''get'' T_CALL (sv_next v + int j) # get_args_toks k) (enumerate 0 keys)))"
      "lk_down (cc_link c1) = lk_down (cc_link c)" "lk_iface (cc_link c1) = lk_iface (cc_link c)"
    using assms(6) by (auto simp: waffle_thriftConcurrentClient_send_get_def [abs_def])
  have "C (lk_down (cc_link c1)) []" using assms(11) c1(6) by simp
  from movesE [OF gets_served [OF assms(1,4,3,8,9), where b = "[]" and what = what] c1(5) this c1(7)] obtain l'
    where l': "mapIO (\<lambda>_. served_by what P n F) keys (cc_link c1) = (Inr (replicate (length keys) ()), l')"
      "C (lk_down l') (replies_toks ''get'' get_result_toks (zip ?ids (map Inr vs)))" "lk_iface l' = h'" by auto
  have d: "distinct ?ids" by (simp add: distinct_map inj_on_def)
  have r: "\<forall>r \<in> set (zip ?ids (map Inr vs)). reply_ok (snd r)" by (auto simp: set_zip)
  have f: "map fst (zip ?ids (map Inr vs)) = ?ids" using l by (intro map_fst_zip) simp
  have "set ?ids \<subseteq> sv_ids v1" unfolding c1(4) by auto
  then have "fst ` set (zip ?ids (map Inr vs)) \<subseteq> sv_ids v1" unfolding set_map [symmetric] f .
  then have "in_step C view ''get'' get_result_toks (zip ?ids (map Inr vs)) (c1\<lparr>cc_link := l'\<rparr>)"
    using c1(2,3) l'(2) d r unfolding in_step_def f by simp
  then show ?thesis using c1(1) l' d by (intro exI [of _ ?ids]) (simp add: on_conn_def)
qed

end

end
