(* ===== verification/Concurrent_Claims.thy ===== *)
theory Concurrent_Claims
  imports Thrift_Concurrent Service_Claims
begin

text \<open>Properties of the concurrent client: several threads on one connection.\<close>

text \<open>
  C30.  Any number of threads send a GET each over one connection, the server answers them, and the threads take
  turns in any order: nobody gets another thread's answer, an answer is only delivered to the thread
  that sent the request, and once the turns contain the threads in the order of their requests every one has the
  value the handler returned for its key.
\<close>

theorem concurrent_gets:
  fixes c :: "('p, 'h, 'y) conc"
  assumes "thrift_protocol P C" and "concurrent_sync Y view" and "1 < n"
    and "list_all str_ok keys" and "list_all str_ok vs"
    and "mapIO (If_get F) keys (lk_iface (cc_link c)) = (Inr vs, h')"
    and "view (cc_sync c) = Some v" and "sv_pending v = None" and "\<forall>i \<in> sv_ids v. i < sv_next v"
    and "0 \<le> sv_next v" and "sv_next v + int (length keys) < 2 ^ 31"
    and "C (lk_up (cc_link c)) []" and "C (lk_down (cc_link c)) []"
  shows "\<exists>ids c1 c2. mapIO (waffle_thriftConcurrentClient_send_get Y P) keys c = (Inr ids, c1) \<and>
    distinct ids \<and> length ids = length keys \<and>
    on_conn (mapIO (\<lambda>_. served_by what P n F) keys) c1 = (Inr (replicate (length keys) ()), c2) \<and> lk_iface (cc_link c2) = h' \<and>
    (\<forall>sched. \<exists>k c3. run_turns (waffle_thriftConcurrentClient_turn_get Y P n r0) ids sched c2 = (take k (zip ids (map Inr vs)), c3) \<and>
       (subseq ids sched \<longrightarrow> length keys \<le> k))"
proof -
  have L: "concurrent_link P C Y view" using assms(1,2) by (rule concurrent_link.intro)
  obtain ids c1 c2 where c: "mapIO (waffle_thriftConcurrentClient_send_get Y P) keys c = (Inr ids, c1)"
    "distinct ids" "length ids = length keys" "on_conn (mapIO (\<lambda>_. served_by what P n F) keys) c1 = (Inr (replicate (length keys) ()), c2)"
    "lk_iface (cc_link c2) = h'" "in_step C view ''get'' get_result_toks (zip ids (map Inr vs)) c2"
    using concurrent_link.gets_delivered [OF L assms(3-), of what] by blast
  have f: "map fst (zip ids (map Inr vs)) = ids" using c(3) mapIO_length [OF assms(6)] by (intro map_fst_zip) simp
  then have w: "set ids = fst ` set (zip ids (map Inr vs))" by (metis set_map)
  have "\<exists>k c3. run_turns (waffle_thriftConcurrentClient_turn_get Y P n r0) ids sched c2 = (take k (zip ids (map Inr vs)), c3) \<and>
      (subseq ids sched \<longrightarrow> length keys \<le> k)" for sched
    using concurrent_link.turns_get [OF L assms(3) c(6) w c(2), of r0 sched] c(3) mapIO_length [OF assms(6)] unfolding f by auto
  then show ?thesis using c(1-5) by blast
qed

theorem concurrent_gets_witness:
  "\<exists>ids c1 c2. mapIO (waffle_thriftConcurrentClient_send_get std_sync binary_protocol) [''a'', ''b'']
      \<lparr>cc_link = \<lparr>lk_up = [], lk_down = [], lk_iface = ''x''\<rparr>, cc_sync = sync_start\<rparr> = (Inr ids, c1) \<and> distinct ids \<and>
    on_conn (mapIO (\<lambda>_. served_by (\<lambda>_. []) binary_protocol 4 (waffle_thriftNull\<lparr>If_get := \<lambda>k h. (Inr (k @ h), k @ h)\<rparr>)) [''a'', ''b'']) c1 =
      (Inr [(), ()], c2) \<and> lk_iface (cc_link c2) = ''bax''"
proof -
  let ?F = "waffle_thriftNull\<lparr>If_get := \<lambda>k h. (Inr (k @ h), k @ h)\<rparr>"
  let ?c = "\<lparr>cc_link = \<lparr>lk_up = [], lk_down = [], lk_iface = ''x''\<rparr>, cc_sync = sync_start\<rparr>"
  let ?v = "\<lparr>sv_pending = None, sv_next = 0, sv_ids = {}\<rparr>"
  have "mapIO (If_get ?F) [''a'', ''b''] (lk_iface (cc_link ?c)) = (Inr [''ax'', ''bax''], ''bax'')"
    by (simp add: bindIO_def returnIO_def)
  note h = this
  have s: "list_all str_ok [''a'', ''b'']" "list_all str_ok [''ax'', ''bax'']" by (simp_all add: str_ok_def)
  have v: "std_view (cc_sync ?c) = Some ?v" "sv_pending ?v = None" "\<forall>i \<in> sv_ids ?v. i < sv_next ?v" "0 \<le> sv_next ?v"
    "sv_next ?v + int (length [''a'', ''b'']) < 2 ^ 31" by (simp_all add: std_view_def sync_start_def)
  have b: "buffered (lk_up (cc_link ?c)) []" "buffered (lk_down (cc_link ?c)) []" using buffered_empty by simp_all
  have "replicate (length [''a'', ''b'']) () = [(), ()]" by simp
  with concurrent_gets [OF binary_ok std.concurrent_sync_axioms _ s h v b, of 4 "\<lambda>_. []" "[]"] show ?thesis
    by (simp del: mapIO.simps) blast
qed



end
