(* ===== verification/Thrift_Multi.thy ===== *)
theory Thrift_Multi
  imports Thrift_Sync Response_Channel
begin

text \<open>
  The remaining generated classes of the two services: \<open>waffle_thriftMultiface\<close> and
  \<open>waffle_thrift_responseMultiface\<close>, which pass a call on to several handlers; the factories that give the
  server a handler and a processor per connection; the concurrent client of the response service.

  The handlers of a multiface are objects behind shared pointers, so they work on one state \<open>'h\<close>.
\<close>

subsection \<open>Multifaces\<close>

text \<open>
  \<open>for (; i < (sz - 1); ++i) ifaces_[i]->f(...); return ifaces_[i]->f(...)\<close>.  For an empty vector \<open>sz - 1\<close> wraps
  around and the first round reads past the end.
\<close>

fun multi_call :: "('i \<Rightarrow> ('h, 'a) io) \<Rightarrow> 'i list \<Rightarrow> ('h, 'a) io" where
  "multi_call f [] = throwIO Undefined_behaviour"
| "multi_call f [i] = f i"
| "multi_call f (i # j # ifaces) = bindIO (f i) (\<lambda>_. multi_call f (j # ifaces))"

definition waffle_thriftMultiface :: "'h waffle_thriftIf list \<Rightarrow> 'h waffle_thriftIf" where
  "waffle_thriftMultiface ifaces = \<lparr>
     If_get_client_id = multi_call If_get_client_id ifaces,
     If_register_client_id = \<lambda>blk cid. multi_call (\<lambda>i. If_register_client_id i blk cid) ifaces,
     If_async_get = \<lambda>sq key. multi_call (\<lambda>i. If_async_get i sq key) ifaces,
     If_async_put = \<lambda>sq key value. multi_call (\<lambda>i. If_async_put i sq key value) ifaces,
     If_async_get_batch = \<lambda>sq keys. multi_call (\<lambda>i. If_async_get_batch i sq keys) ifaces,
     If_async_put_batch = \<lambda>sq keys values. multi_call (\<lambda>i. If_async_put_batch i sq keys values) ifaces,
     If_get = \<lambda>key. multi_call (\<lambda>i. If_get i key) ifaces,
     If_put = \<lambda>key value. multi_call (\<lambda>i. If_put i key value) ifaces,
     If_get_batch = \<lambda>keys. multi_call (\<lambda>i. If_get_batch i keys) ifaces,
     If_put_batch = \<lambda>keys values. multi_call (\<lambda>i. If_put_batch i keys values) ifaces,
     If_search = \<lambda>keys. multi_call (\<lambda>i. If_search i keys) ifaces \<rparr>"

definition waffle_thriftMultiface_add :: "'h waffle_thriftIf \<Rightarrow> 'h waffle_thriftIf list \<Rightarrow> 'h waffle_thriftIf list" where
  "waffle_thriftMultiface_add iface ifaces = ifaces @ [iface]"

definition waffle_thrift_responseMultiface :: "'h waffle_thrift_responseIf list \<Rightarrow> 'h waffle_thrift_responseIf" where
  "waffle_thrift_responseMultiface ifaces = \<lparr>
     RIf_async_response = \<lambda>sq op_code res. multi_call (\<lambda>i. RIf_async_response i sq op_code res) ifaces \<rparr>"

definition waffle_thrift_responseMultiface_add ::
  "'h waffle_thrift_responseIf \<Rightarrow> 'h waffle_thrift_responseIf list \<Rightarrow> 'h waffle_thrift_responseIf list" where
  "waffle_thrift_responseMultiface_add iface ifaces = ifaces @ [iface]"

definition waffle_thrift_responseNull :: "'h waffle_thrift_responseIf" where
  "waffle_thrift_responseNull = \<lparr> RIf_async_response = \<lambda>_ _ _. returnIO () \<rparr>"

subsection \<open>Factories\<close>

text \<open>
  \<open>getHandler\<close> gives the handler for a connection \<open>'c\<close>, \<open>releaseHandler\<close> takes it back when the processor is
  destroyed; both may change the state \<open>'f\<close> of the factory.
\<close>

record ('c, 'i, 'f) if_factory =
  Fac_getHandler :: "'c \<Rightarrow> ('f, 'i) io"
  Fac_releaseHandler :: "'i \<Rightarrow> ('f, unit) io"

definition waffle_thriftIfSingletonFactory :: "'h waffle_thriftIf \<Rightarrow> ('c, 'h waffle_thriftIf, 'f) if_factory" where
  "waffle_thriftIfSingletonFactory iface =
     \<lparr>Fac_getHandler = \<lambda>_. returnIO iface, Fac_releaseHandler = \<lambda>_. returnIO ()\<rparr>"

definition waffle_thrift_responseIfSingletonFactory ::
  "'h waffle_thrift_responseIf \<Rightarrow> ('c, 'h waffle_thrift_responseIf, 'f) if_factory" where
  "waffle_thrift_responseIfSingletonFactory iface =
     \<lparr>Fac_getHandler = \<lambda>_. returnIO iface, Fac_releaseHandler = \<lambda>_. returnIO ()\<rparr>"

definition waffle_thriftProcessorFactory_getProcessor ::
  "(cpp_error \<Rightarrow> string) \<Rightarrow> 'p tproto \<Rightarrow> nat \<Rightarrow> ('c, 'h waffle_thriftIf, 'f) if_factory \<Rightarrow> 'c
   \<Rightarrow> ('f, (string, int \<Rightarrow> (('p, 'h) link, unit) io) umap) io" where
  "waffle_thriftProcessorFactory_getProcessor what P n handlerFactory connInfo =
     bindIO (Fac_getHandler handlerFactory connInfo) (\<lambda>handler. returnIO (waffle_thriftProcessor what P n handler))"

definition waffle_thrift_responseProcessorFactory_getProcessor ::
  "'p tproto \<Rightarrow> nat \<Rightarrow> ('c, 'h waffle_thrift_responseIf, 'f) if_factory \<Rightarrow> 'c
   \<Rightarrow> ('f, (string, int \<Rightarrow> (('p, 'h) link, unit) io) umap) io" where
  "waffle_thrift_responseProcessorFactory_getProcessor P n handlerFactory connInfo =
     bindIO (Fac_getHandler handlerFactory connInfo) (\<lambda>handler. returnIO (waffle_thrift_responseProcessor P n handler))"

subsection \<open>The concurrent response client\<close>

text \<open>Unlike \<open>waffle_thrift_responseClient\<close>, it lets an exception reach the caller.\<close>

definition waffle_thrift_responseConcurrentClient_send_async_response ::
  "'y tsync \<Rightarrow> 'p tproto \<Rightarrow> sequence_id \<Rightarrow> int \<Rightarrow> string list \<Rightarrow> (('p, 'h, 'y) conc, unit) io" where
  "waffle_thrift_responseConcurrentClient_send_async_response Y P sq op_code res =
     send_oneway Y P ''async_response'' (waffle_thrift_response_async_response_pargs_write P sq op_code res)"

definition waffle_thrift_responseConcurrentClient_async_response ::
  "'y tsync \<Rightarrow> 'p tproto \<Rightarrow> sequence_id \<Rightarrow> int \<Rightarrow> string list \<Rightarrow> (('p, 'h, 'y) conc, unit) io" where
  "waffle_thrift_responseConcurrentClient_async_response Y P sq op_code res =
     waffle_thrift_responseConcurrentClient_send_async_response Y P sq op_code res"

subsection \<open>What a multiface does\<close>

text \<open>Each handler is called, in order, until one throws; the result is that of the last one.\<close>

lemma multi_call_seq:
  "ifaces \<noteq> [] \<Longrightarrow> multi_call f ifaces h =
     (case mapIO f ifaces h of (Inl e, h') \<Rightarrow> (Inl e, h') | (Inr vs, h') \<Rightarrow> (Inr (last vs), h'))"
proof (induction f ifaces arbitrary: h rule: multi_call.induct)
  case (2 f i)
  then show ?case by (simp add: bindIO_def returnIO_def split: prod.split sum.split)
next
  case (3 f i j ifaces)
  have "multi_call f (j # ifaces) h1 = (case mapIO f (j # ifaces) h1 of (Inl e, h') \<Rightarrow> (Inl e, h') | (Inr vs, h') \<Rightarrow> (Inr (last vs), h'))" for h1
    using 3 by simp
  moreover have "vs \<noteq> []" if "mapIO f (j # ifaces) h1 = (Inr vs, h2)" for vs h1 h2
    using mapIO_length [OF that] by auto
  ultimately show ?case by (auto simp: bindIO_def returnIO_def split: prod.split sum.split)
qed simp

end
