(* ===== verification/Trace_Files.thy ===== *)
theory Trace_Files
  imports Server_Main Proxy_Clients
begin

text \<open>
  The workload: generating a trace (\<open>TimeSeriesDataMap::generate_TS_tracefile_binary\<close> in
  \<open>utils/TS_value_master.h\<close>), cutting a trace into batches (\<open>load_trace\<close> of \<open>benchmark/src/TS_proxy_benchmark.cpp\<close> and
  of \<open>proxy_benchmark.cpp\<close>) and sending it (\<open>run_benchmark\<close>).

  The trace file is a Boost archive of two vectors, which is read back as it was written; a trace is the
  pair of vectors.  A row with an empty value is a GET.
\<close>

subsection \<open>Generating a trace\<close>

text \<open>
  \<open>dist\<close>, \<open>distb\<close> and \<open>sample\<close> give the draws for each row.  \<open>keys_.size() / batch_size\<close> is computed in
  \<open>size_t\<close>; keys beyond the last full batch are left out.
\<close>

record trace_draws =
  dr_cells :: "nat \<Rightarrow> nat \<Rightarrow> 32 word"
  dr_bools :: "nat \<Rightarrow> nat \<Rightarrow> bool"
  dr_samples :: "nat \<Rightarrow> int \<times> int"
  dr_rand :: "nat \<Rightarrow> nat"

definition batched_keys :: "int \<Rightarrow> string list \<Rightarrow> string list" where
  "batched_keys batch_size keys =
     concat (map (\<lambda>k. map (\<lambda>j. keys ! (k * nat batch_size + j)) [0..<nat batch_size])
       [0..<length keys div nat (batch_size mod 2 ^ 64)])"

fun put_rows :: "trace_draws \<Rightarrow> nat \<Rightarrow> int \<Rightarrow> string list \<Rightarrow> (string \<times> string) list \<Rightarrow> (string \<times> string) list res" where
  "put_rows dr osize ts [] rows = Inr rows"
| "put_rows dr osize ts (k # ks) rows =
     bindR (generate_TS_tracefile_put_query (dr_cells dr (length rows)) (dr_bools dr (length rows)) osize k (wrap32 ts))
       (\<lambda>row. put_rows dr osize ts ks (rows @ [row]))"

fun get_rows :: "trace_draws \<Rightarrow> int \<Rightarrow> string list \<Rightarrow> (string \<times> string) list \<Rightarrow> (string \<times> string) list" where
  "get_rows dr ts [] rows = rows"
| "get_rows dr ts (k # ks) rows =
     get_rows dr ts ks (rows @ [generate_TS_tracefile_get_query k ts (fst (dr_samples dr (length rows))) (snd (dr_samples dr (length rows)))])"

text \<open>The main loop; it advances by the number of keys, so without keys it never ends.\<close>

fun trace_loop ::
  "nat \<Rightarrow> trace_draws \<Rightarrow> nat \<Rightarrow> int \<Rightarrow> string list \<Rightarrow> int \<Rightarrow> nat \<Rightarrow> int \<Rightarrow> int \<Rightarrow> (string \<times> string) list
   \<Rightarrow> (string \<times> string) list res" where
  "trace_loop 0 dr osize batch_size keys row_count pos i ts rows = Inl Out_of_fuel"
| "trace_loop (Suc fuel) dr osize batch_size keys row_count pos i ts rows =
     (if row_count \<le> i then Inr rows
      else if dr_rand dr pos mod 100 < 50 \<or> i = 0 then
        bindR (put_rows dr osize ts (batched_keys batch_size keys) rows) (\<lambda>rows'.
          trace_loop fuel dr osize batch_size keys row_count (pos + 1) (wrap32 (i + int (length keys)))
            (ts + int osize) rows')
      else trace_loop fuel dr osize batch_size keys row_count (pos + 1) (wrap32 (i + int (length keys)))
             ts (get_rows dr (ts - 1) (batched_keys batch_size keys) rows))"

text \<open>\<open>row_count / batch_size\<close> is computed first; a zero batch size is a division by zero.\<close>

definition generate_TS_tracefile_binary ::
  "nat \<Rightarrow> trace_draws \<Rightarrow> nat \<Rightarrow> int \<Rightarrow> string list \<Rightarrow> int \<Rightarrow> (string list \<times> string list) res" where
  "generate_TS_tracefile_binary fuel dr osize batch_size keys row_count =
     (if batch_size = 0 then Inl Undefined_behaviour
      else bindR (trace_loop fuel dr osize batch_size keys row_count 0 0 1700000000 [])
             (\<lambda>rows. Inr (map fst rows, map snd rows)))"

subsection \<open>Cutting a trace into batches\<close>

type_synonym batch = "string list \<times> string list"

record load_state =
  ld_trace :: "batch list"
  ld_put_keys :: "string list"
  ld_put_values :: "string list"
  ld_get_keys :: "string list"
  ld_processing_put :: bool

definition push_gets :: "load_state \<Rightarrow> load_state" where
  "push_gets s = s\<lparr>ld_trace := ld_trace s @ [(ld_get_keys s, [])], ld_get_keys := []\<rparr>"

definition push_puts :: "load_state \<Rightarrow> load_state" where
  "push_puts s = s\<lparr>ld_trace := ld_trace s @ [(ld_put_keys s, ld_put_values s)], ld_put_keys := [], ld_put_values := []\<rparr>"

text \<open>The sizes are compared with a signed \<open>batch_count\<close>, which is converted to \<open>size_t\<close>.\<close>

definition load_row :: "int \<Rightarrow> string \<Rightarrow> string \<Rightarrow> load_state \<Rightarrow> load_state" where
  "load_row batch_count key v s =
     (if v = '''' then
        let s1 = (if int (length (ld_get_keys s)) = batch_count mod 2 ^ 64 then push_gets s else s);
            s2 = (if ld_processing_put s1 then (push_puts s1)\<lparr>ld_processing_put := False\<rparr> else s1)
        in s2\<lparr>ld_get_keys := ld_get_keys s2 @ [key]\<rparr>
      else
        let s1 = (if int (length (ld_put_keys s)) = batch_count mod 2 ^ 64 then push_puts s else s);
            s2 = (if \<not> ld_processing_put s1 then (push_gets s1)\<lparr>ld_processing_put := True\<rparr> else s1)
        in s2\<lparr>ld_put_keys := ld_put_keys s2 @ [key], ld_put_values := ld_put_values s2 @ [v]\<rparr>)"

definition load_start :: load_state where
  "load_start = \<lparr>ld_trace = [], ld_put_keys = [], ld_put_values = [], ld_get_keys = [], ld_processing_put = True\<rparr>"

definition load_finish :: "load_state \<Rightarrow> batch list" where
  "load_finish s =
     (let s1 = (if ld_get_keys s \<noteq> [] then push_gets s else s);
          s2 = (if ld_put_keys s1 \<noteq> [] then push_puts s1 else s1) in ld_trace s2)"

text \<open>\<open>values[i]\<close> is read for every key; with fewer values than keys that is past the end.\<close>

definition load_trace :: "int \<Rightarrow> string list \<times> string list \<Rightarrow> batch list res" where
  "load_trace batch_count data_pair =
     (case data_pair of (keys, values) \<Rightarrow>
        if length values < length keys then Inl Undefined_behaviour
        else Inr (load_finish (fold (\<lambda>(k, v). load_row batch_count k v) (zip keys values) load_start)))"

text \<open>
  \<open>load_trace\<close> of \<open>proxy_benchmark.cpp\<close> reads text lines and collects GETs and PUTs side by side.  A line without
  a blank is both the operation and the key.
\<close>

definition parse_op :: "string \<Rightarrow> (string \<times> string) res" where
  "parse_op line =
     (let key = snd (blank_split line);
          (key', val) = (if str_find key CHR '' '' 0 \<noteq> None then blank_split key else (key, ''''))
      in if key' = ''PUT'' \<or> key' = ''GET'' then Inl Assertion_failed else Inr (key', val))"

definition load_op :: "int \<Rightarrow> string \<times> string \<Rightarrow> load_state \<Rightarrow> load_state" where
  "load_op n row s =
     (case row of (key, v) \<Rightarrow>
        if v = '''' then
          let s1 = s\<lparr>ld_get_keys := ld_get_keys s @ [key]\<rparr>
          in if int (length (ld_get_keys s1)) = n mod 2 ^ 64 then push_gets s1 else s1
        else
          let s1 = s\<lparr>ld_put_keys := ld_put_keys s @ [key], ld_put_values := ld_put_values s @ [v]\<rparr>
          in if int (length (ld_put_keys s1)) = n mod 2 ^ 64 then push_puts s1 else s1)"

definition load_trace_lines :: "int \<Rightarrow> string list \<Rightarrow> batch list res" where
  "load_trace_lines n lines =
     bindR (foldR (\<lambda>line s. bindR (parse_op line) (\<lambda>row. Inr (load_op n row s))) lines load_start) (\<lambda>s. Inr (load_finish s))"

subsection \<open>Sending a trace\<close>

text \<open>
  The loop of \<open>run_benchmark\<close>: \<open>elapsed i\<close> is the time after \<open>i\<close> batches, in microseconds; \<open>others\<close> is what the
  reader thread and the server do between two batches.  The result is the number of batches sent.
\<close>

fun run_benchmark ::
  "'p tproto \<Rightarrow> (('p, 'h) async_client, unit) io \<Rightarrow> (nat \<Rightarrow> int) \<Rightarrow> int \<Rightarrow> nat \<Rightarrow> batch list
   \<Rightarrow> (('p, 'h) async_client, nat) io" where
  "run_benchmark P others elapsed run_time i [] = returnIO i"
| "run_benchmark P others elapsed run_time i (b # trace) =
     (if elapsed i < wrap32 (run_time * 1000000) then
        bindIO (if snd b = [] then bindIO (async_client_get_batch P (fst b)) (\<lambda>_. returnIO ())
                else async_client_put_batch P (fst b) (snd b)) (\<lambda>_.
        bindIO others (\<lambda>_. run_benchmark P others elapsed run_time (i + 1) trace))
      else returnIO i)"

subsection \<open>Batches carry the trace\<close>

text \<open>The rows a batch stands for, and the batches \<open>run_benchmark\<close> can tell apart.\<close>

definition batch_rows :: "batch \<Rightarrow> (string \<times> string) list" where
  "batch_rows b = (if snd b = [] then map (\<lambda>k. (k, '''')) (fst b) else zip (fst b) (snd b))"

definition batch_ok :: "nat \<Rightarrow> batch \<Rightarrow> bool" where
  "batch_ok n b \<longleftrightarrow> length (fst b) \<le> n \<and> (snd b = [] \<or> length (snd b) = length (fst b) \<and> '''' \<notin> set (snd b))"

definition load_ok :: "nat \<Rightarrow> (string \<times> string) list \<Rightarrow> load_state \<Rightarrow> bool" where
  "load_ok n rows s \<longleftrightarrow>
     length (ld_put_values s) = length (ld_put_keys s) \<and> '''' \<notin> set (ld_put_values s) \<and>
     length (ld_put_keys s) \<le> n \<and> length (ld_get_keys s) \<le> n \<and> (\<forall>b \<in> set (ld_trace s). batch_ok n b) \<and>
     (if ld_processing_put s then ld_get_keys s = [] else ld_put_keys s = []) \<and>
     concat (map batch_rows (ld_trace s)) @ zip (ld_put_keys s) (ld_put_values s) @ map (\<lambda>k. (k, '''')) (ld_get_keys s) = rows"

lemma push_gets_ok:
  assumes "load_ok n rows s" and "\<not> ld_processing_put s"
  shows "load_ok n rows (push_gets s)"
  using assms by (auto simp: load_ok_def push_gets_def batch_rows_def batch_ok_def)

lemma push_puts_ok:
  assumes "load_ok n rows s" and "ld_processing_put s"
  shows "load_ok n rows (push_puts s)"
  using assms by (auto simp: load_ok_def push_puts_def batch_rows_def batch_ok_def)

lemma load_row_ok:
  assumes "load_ok n rows s" and "0 < n" and "int n < 2 ^ 64"
  shows "load_ok n (rows @ [(k, v)]) (load_row (int n) k v s)"
proof (cases "v = ''''")
  case True
  define s1 where "s1 = (if length (ld_get_keys s) = n then push_gets s else s)"
  define s2 where "s2 = (if ld_processing_put s1 then (push_puts s1)\<lparr>ld_processing_put := False\<rparr> else s1)"
  have 1: "load_ok n rows s1" "length (ld_get_keys s1) < n"
    using assms(1,2) push_gets_ok [OF assms(1)] by (auto simp: s1_def load_ok_def push_gets_def)
  then have "load_ok n rows s2" "length (ld_get_keys s2) < n" "\<not> ld_processing_put s2"
    using push_puts_ok [OF 1(1)] by (auto simp: s2_def load_ok_def push_puts_def)
  then have "load_ok n (rows @ [(k, v)]) (s2\<lparr>ld_get_keys := ld_get_keys s2 @ [k]\<rparr>)" using True by (auto simp: load_ok_def)
  moreover have "load_row (int n) k v s = s2\<lparr>ld_get_keys := ld_get_keys s2 @ [k]\<rparr>"
    using True assms(3) unfolding s2_def s1_def by (simp add: load_row_def Let_def)
  ultimately show ?thesis by simp
next
  case False
  define s1 where "s1 = (if length (ld_put_keys s) = n then push_puts s else s)"
  define s2 where "s2 = (if \<not> ld_processing_put s1 then (push_gets s1)\<lparr>ld_processing_put := True\<rparr> else s1)"
  have 1: "load_ok n rows s1" "length (ld_put_keys s1) < n"
    using assms(1,2) push_puts_ok [OF assms(1)] by (auto simp: s1_def load_ok_def push_puts_def)
  then have "load_ok n rows s2" "length (ld_put_keys s2) < n" "ld_processing_put s2"
    using push_gets_ok [OF 1(1)] by (auto simp: s2_def load_ok_def push_gets_def)
  then have "load_ok n (rows @ [(k, v)]) (s2\<lparr>ld_put_keys := ld_put_keys s2 @ [k], ld_put_values := ld_put_values s2 @ [v]\<rparr>)"
    using False by (auto simp: load_ok_def)
  moreover have "load_row (int n) k v s = s2\<lparr>ld_put_keys := ld_put_keys s2 @ [k], ld_put_values := ld_put_values s2 @ [v]\<rparr>"
    using False assms(3) unfolding s2_def s1_def by (simp add: load_row_def Let_def)
  ultimately show ?thesis by simp
qed

lemma load_rows_ok:
  assumes "load_ok n before s" and "0 < n" and "int n < 2 ^ 64"
  shows "load_ok n (before @ rows) (fold (\<lambda>(k, v). load_row (int n) k v) rows s)"
  using assms(1)
proof (induction rows arbitrary: before s)
  case (Cons r rows)
  obtain k v where "r = (k, v)" by (cases r)
  then show ?case using Cons.IH [OF load_row_ok [OF Cons.prems assms(2,3), of k v]] by simp
qed simp

lemma load_finish_ok:
  assumes "load_ok n rows s"
  shows "concat (map batch_rows (load_finish s)) = rows" and "\<forall>b \<in> set (load_finish s). batch_ok n b"
  using assms by (auto simp: load_finish_def load_ok_def push_gets_def push_puts_def batch_rows_def batch_ok_def split: if_splits)

lemma load_start_ok: "load_ok n [] load_start"
  by (simp add: load_start_def load_ok_def)

subsection \<open>What a generated trace contains\<close>

lemma blocks_take:
  "m * b \<le> length keys \<Longrightarrow> concat (map (\<lambda>k. map (\<lambda>j. keys ! (k * b + j)) [0..<b]) [0..<m]) = take (m * b) keys"
proof (induction m)
  case (Suc m)
  have "map (\<lambda>j. keys ! (m * b + j)) [0..<b] = take b (drop (m * b) keys)"
    using Suc.prems by (intro nth_equalityI) auto
  moreover have "take (Suc m * b) keys = take (m * b) keys @ take b (drop (m * b) keys)"
    using take_add [of "m * b" b keys] by (simp add: add.commute)
  ultimately show ?case using Suc by simp
qed simp

lemma batched_keys_take:
  assumes "0 < b" and "b < 2 ^ 63"
  shows "batched_keys b keys = take (length keys div nat b * nat b) keys"
proof -
  have "b mod 2 ^ 64 = b" using assms by simp
  then show ?thesis by (simp add: batched_keys_def blocks_take)
qed

definition puts :: "(string \<times> string) list \<Rightarrow> string list" where
  "puts rows = map fst (filter (\<lambda>r. snd r \<noteq> '''') rows)"

lemma puts_append [simp]: "puts (xs @ ys) = puts xs @ puts ys"
  by (simp add: puts_def)

text \<open>The buckets put so far lie before \<open>ts\<close>, no two are the same, and every value has the object size.\<close>

definition rows_ok :: "string list \<Rightarrow> nat \<Rightarrow> int \<Rightarrow> (string \<times> string) list \<Rightarrow> bool" where
  "rows_ok keys osize ts rows \<longleftrightarrow> distinct (puts rows) \<and>
     (\<forall>k \<in> set (puts rows). \<exists>x t. x \<in> set keys \<and> k = ts_key x t \<and> 1700000000 \<le> t \<and> t < ts) \<and>
     (\<forall>r \<in> set rows. snd r = '''' \<or> length (snd r) = osize)"

definition typed_key :: "string \<Rightarrow> bool" where
  "typed_key k \<longleftrightarrow> wf_item k \<and> get_data_type k \<in> {''int'', ''float'', ''bool''}"

lemma data_for_key:
  assumes "typed_key k" and "4 dvd osize"
  shows "\<exists>v. generateDataForKey f g osize k = Inr v \<and> length v = osize"
  using assms by (auto simp: typed_key_def generateDataForKey_def generateData_def serialize_bool_def Let_def)

lemma put_rows_ok:
  assumes "\<forall>k \<in> set ks. typed_key k" and "4 dvd osize" and "0 < osize" and "fits32 ts" and "distinct ks" and "set ks \<subseteq> set keys"
    and "1700000000 \<le> ts" and "rows_ok keys osize ts rows"
  shows "\<exists>new. put_rows dr osize ts ks rows = Inr (rows @ new) \<and> length new = length ks \<and> rows_ok keys osize (ts + int osize) (rows @ new)"
proof -
  have "\<exists>new. put_rows dr osize ts ks rs = Inr (rs @ new) \<and> map fst new = map (\<lambda>k. ts_key k ts) ks \<and> (\<forall>r \<in> set new. length (snd r) = osize)" for rs
    using assms(1)
  proof (induction ks arbitrary: rs)
    case (Cons k ks)
    obtain v where v: "generateDataForKey (dr_cells dr (length rs)) (dr_bools dr (length rs)) osize k = Inr v" "length v = osize"
      using data_for_key [OF _ assms(2), of k "dr_cells dr (length rs)" "dr_bools dr (length rs)"] Cons.prems by auto
    obtain new where "put_rows dr osize ts ks (rs @ [(ts_key k ts, v)]) = Inr ((rs @ [(ts_key k ts, v)]) @ new)"
      "map fst new = map (\<lambda>k. ts_key k ts) ks" "\<forall>r \<in> set new. length (snd r) = osize" using Cons by fastforce
    then show ?case using v assms(4)
      by (intro exI [of _ "(ts_key k ts, v) # new"]) (simp add: generate_TS_tracefile_put_query_def ts_key_def)
  qed simp
  then obtain new where new: "put_rows dr osize ts ks rows = Inr (rows @ new)" "map fst new = map (\<lambda>k. ts_key k ts) ks"
    "\<forall>r \<in> set new. length (snd r) = osize" by blast
  have "filter (\<lambda>r. snd r \<noteq> '''') new = new" using new(3) assms(3) by (auto intro!: filter_True)
  then have p: "puts new = map (\<lambda>k. ts_key k ts) ks" using new(2) by (simp add: puts_def)
  have "inj (\<lambda>k. ts_key k ts)" by (auto simp: inj_def)
  then have "distinct (puts new)" unfolding p using assms(5) by (simp add: distinct_map inj_on_def)
  moreover have "set (puts rows) \<inter> set (puts new) = {}" using assms(8) by (fastforce simp: p rows_ok_def)
  moreover have "\<forall>k \<in> set (puts new). \<exists>x t. x \<in> set keys \<and> k = ts_key x t \<and> 1700000000 \<le> t \<and> t < ts + int osize"
    using assms(3,6,7) unfolding p by auto
  moreover have "\<forall>k \<in> set (puts rows). \<exists>x t. x \<in> set keys \<and> k = ts_key x t \<and> 1700000000 \<le> t \<and> t < ts + int osize"
    using assms(8) unfolding rows_ok_def by fastforce
  ultimately have "rows_ok keys osize (ts + int osize) (rows @ new)"
    using assms(8) new(3) unfolding rows_ok_def by auto
  moreover have "length new = length ks" using arg_cong [OF new(2), of length] by simp
  ultimately show ?thesis using new(1) by blast
qed

lemma get_rows_ok:
  "rows_ok keys osize ts rows \<Longrightarrow>
     \<exists>new. get_rows dr t ks rows = rows @ new \<and> length new = length ks \<and> rows_ok keys osize ts (rows @ new)"
proof (induction ks arbitrary: rows)
  case (Cons k ks)
  let ?r = "generate_TS_tracefile_get_query k t (fst (dr_samples dr (length rows))) (snd (dr_samples dr (length rows)))"
  have "snd ?r = ''''" by (simp add: generate_TS_tracefile_get_query_def Let_def)
  then have "rows_ok keys osize ts (rows @ [?r])" using Cons.prems by (auto simp: rows_ok_def puts_def)
  from Cons.IH [OF this] obtain new where "get_rows dr t ks (rows @ [?r]) = (rows @ [?r]) @ new" "length new = length ks"
    "rows_ok keys osize ts ((rows @ [?r]) @ new)" by blast
  then show ?case by (intro exI [of _ "?r # new"]) simp
qed simp

lemma trace_loop_ok:
  assumes "\<forall>k \<in> set keys. typed_key k" and "4 dvd osize" and "0 < osize" and "distinct keys" and "keys \<noteq> []"
    and "0 < b" and "b < 2 ^ 63" and "row_count + int (length keys) < 2 ^ 31" and "1700000000 + row_count * int osize < 2 ^ 31"
  shows "rows_ok keys osize ts rows \<Longrightarrow> 0 \<le> i \<Longrightarrow> 1700000000 \<le> ts \<Longrightarrow> ts \<le> 1700000000 + i * int osize \<Longrightarrow> 0 < fuel \<Longrightarrow> row_count - i < int fuel
    \<Longrightarrow> i \<le> row_count + int (length keys)
    \<Longrightarrow> \<exists>rows' ts'. trace_loop fuel dr osize b keys row_count pos i ts rows = Inr rows' \<and> rows_ok keys osize ts' rows'"
proof (induction fuel arbitrary: pos i ts rows)
  case 0
  then show ?case by simp
next
  case (Suc fuel)
  show ?case
  proof (cases "row_count \<le> i")
    case True
    then show ?thesis using Suc.prems(1) by auto
  next
    case False
    let ?ks = "batched_keys b keys" and ?i = "i + int (length keys)"
    have l: "1 \<le> int (length keys)" using assms(5) by (cases keys) auto
    have ks: "distinct ?ks" "set ?ks \<subseteq> set keys" unfolding batched_keys_take [OF assms(6,7)]
      using assms(4) by (auto dest: in_set_takeD)
    have i: "wrap32 ?i = ?i" "0 \<le> ?i" "?i \<le> row_count + int (length keys)" "row_count - ?i < int fuel" "0 < fuel"
      using Suc.prems(2,6) False assms(8) l by (auto intro!: wrap32_id simp: fits32_def int_min_def int_max_def)
    have m: "i * int osize + int osize \<le> ?i * int osize"
      using l assms(3) mult_right_mono [of 1 "int (length keys)" "int osize"] by (simp add: distrib_right)
    have mi: "i * int osize \<le> row_count * int osize" using False by (intro mult_right_mono) auto
    have f: "fits32 ts" using Suc.prems(3,4) assms(9) mi unfolding fits32_def int_min_def int_max_def by linarith
    obtain new where new: "put_rows dr osize ts ?ks rows = Inr (rows @ new)" "rows_ok keys osize (ts + int osize) (rows @ new)"
      using put_rows_ok [OF _ assms(2,3) f ks Suc.prems(3,1)] assms(1) ks(2) by blast
    obtain gets where gets: "get_rows dr (ts - 1) ?ks rows = rows @ gets" "rows_ok keys osize ts (rows @ gets)"
      using get_rows_ok [OF Suc.prems(1)] by blast
    have t: "1700000000 \<le> ts + int osize" "ts + int osize \<le> 1700000000 + ?i * int osize" "ts \<le> 1700000000 + ?i * int osize"
      using Suc.prems(3,4) m by linarith+
    show ?thesis
      using Suc.IH [OF new(2) i(2) t(1,2) i(5,4,3)] Suc.IH [OF gets(2) i(2) Suc.prems(3) t(3) i(5,4,3)] new(1) gets(1) False
      by (simp add: i(1))
  qed
qed

subsection \<open>The other loader, and sending\<close>

text \<open>
  \<open>load_trace_lines\<close> keeps the order of the GETs and the order of the PUTs, but not how they interleave: a
  batch is emitted when it is full.
\<close>

definition is_get :: "string \<times> string \<Rightarrow> bool" where
  "is_get r \<longleftrightarrow> snd r = ''''"

definition ops_ok :: "(string \<times> string) list \<Rightarrow> load_state \<Rightarrow> bool" where
  "ops_ok rows s \<longleftrightarrow>
     length (ld_put_values s) = length (ld_put_keys s) \<and> '''' \<notin> set (ld_put_values s) \<and>
     filter is_get (concat (map batch_rows (ld_trace s))) @ map (\<lambda>k. (k, '''')) (ld_get_keys s) = filter is_get rows \<and>
     filter (Not \<circ> is_get) (concat (map batch_rows (ld_trace s))) @ zip (ld_put_keys s) (ld_put_values s) = filter (Not \<circ> is_get) rows"

lemma filter_gets:
  "filter is_get (map (\<lambda>k. (k, '''')) ks) = map (\<lambda>k. (k, '''')) ks" "filter (Not \<circ> is_get) (map (\<lambda>k. (k, '''')) ks) = []"
  by (simp_all add: is_get_def filter_map comp_def)

lemma filter_puts:
  assumes "'''' \<notin> set vs"
  shows "filter is_get (zip ks vs) = []" "filter (Not \<circ> is_get) (zip ks vs) = zip ks vs"
proof -
  have "snd r \<noteq> ''''" if "r \<in> set (zip ks vs)" for r
    using that assms set_zip_rightD [of "fst r" "snd r" ks vs] by auto
  then show "filter is_get (zip ks vs) = []" "filter (Not \<circ> is_get) (zip ks vs) = zip ks vs"
    by (auto simp: is_get_def filter_empty_conv intro!: filter_True)
qed

lemma ops_push:
  assumes "ops_ok rows s"
  shows "ops_ok rows (push_gets s)" and "ops_ok rows (push_puts s)"
  using assms filter_gets [of "ld_get_keys s"] filter_puts [of "ld_put_values s" "ld_put_keys s"]
  by (auto simp: ops_ok_def push_gets_def push_puts_def batch_rows_def)

lemma load_op_ok:
  assumes "ops_ok rows s" shows "ops_ok (rows @ [r]) (load_op n r s)"
proof -
  obtain k v where r: "r = (k, v)" by (cases r)
  have "ops_ok (rows @ [(k, '''')]) (s\<lparr>ld_get_keys := ld_get_keys s @ [k]\<rparr>)"
    using assms by (simp add: ops_ok_def is_get_def)
  moreover have "ops_ok (rows @ [(k, v)]) (s\<lparr>ld_put_keys := ld_put_keys s @ [k], ld_put_values := ld_put_values s @ [v]\<rparr>)" if "v \<noteq> ''''"
    using assms that by (auto simp: ops_ok_def is_get_def)
  ultimately show ?thesis unfolding r load_op_def Let_def by (simp add: ops_push)
qed

lemma load_lines_fold:
  "ops_ok rows s \<Longrightarrow> foldR (\<lambda>line s. bindR (parse_op line) (\<lambda>row. Inr (load_op n row s))) lines s = Inr s' \<Longrightarrow>
   \<exists>new. map parse_op lines = map Inr new \<and> ops_ok (rows @ new) s'"
proof (induction lines arbitrary: rows s)
  case (Cons line lines)
  obtain row where row: "parse_op line = Inr row"
    and rest: "foldR (\<lambda>line s. bindR (parse_op line) (\<lambda>row. Inr (load_op n row s))) lines (load_op n row s) = Inr s'"
    using Cons.prems(2) by (cases "parse_op line") auto
  obtain new where "map parse_op lines = map Inr new" "ops_ok ((rows @ [row]) @ new) s'"
    using Cons.IH [OF load_op_ok [OF Cons.prems(1), of row n] rest] by blast
  then show ?case using row by (intro exI [of _ "row # new"]) simp
qed simp

lemma load_trace_lines_keeps_orders:
  assumes "load_trace_lines n lines = Inr tr"
  shows "\<exists>rows. map parse_op lines = map Inr rows \<and> filter is_get (concat (map batch_rows tr)) = filter is_get rows \<and>
    filter (Not \<circ> is_get) (concat (map batch_rows tr)) = filter (Not \<circ> is_get) rows"
proof -
  obtain s where s: "foldR (\<lambda>line s. bindR (parse_op line) (\<lambda>row. Inr (load_op n row s))) lines load_start = Inr s" "tr = load_finish s"
    using assms by (auto simp: load_trace_lines_def bindR_def split: sum.splits)
  have "ops_ok [] load_start" by (simp add: ops_ok_def load_start_def)
  from load_lines_fold [OF this s(1)] obtain rows where rows: "map parse_op lines = map Inr rows" "ops_ok rows s" by auto
  define s1 where "s1 = (if ld_get_keys s \<noteq> [] then push_gets s else s)"
  define s2 where "s2 = (if ld_put_keys s1 \<noteq> [] then push_puts s1 else s1)"
  have "ops_ok rows s2" using ops_push rows(2) by (simp add: s2_def s1_def)
  moreover have "ld_get_keys s2 = []" "ld_put_keys s2 = []" by (simp_all add: s2_def s1_def push_gets_def push_puts_def)
  ultimately show ?thesis using rows(1) s(2) by (auto simp: ops_ok_def load_finish_def s2_def s1_def Let_def)
qed

text \<open>A run numbers its batches consecutively, within the limit of requests in flight.\<close>

definition batch_sender :: "'p tproto \<Rightarrow> batch \<Rightarrow> sequence_id \<Rightarrow> (('p, 'h) link, unit) io" where
  "batch_sender P b sq = (if snd b = [] then waffle_thriftClient_async_get_batch P sq (fst b)
     else waffle_thriftClient_async_put_batch P sq (fst b) (snd b))"

definition batch_code :: "batch \<Rightarrow> int" where
  "batch_code b = (if snd b = [] then GET_BATCH else PUT_BATCH)"

lemma send_batch:
  "(if snd b = [] then bindIO (async_client_get_batch P (fst b)) (\<lambda>_. returnIO ()) else async_client_put_batch P (fst b) (snd b)) =
   issue_request (batch_sender P b) (batch_code b)"
  by (rule ext) (simp add: async_client_get_batch_def async_client_put_batch_def batch_sender_def [abs_def] batch_code_def bindIO_def returnIO_def split: prod.split sum.split)

lemma run_benchmark_numbers:
  assumes "in_flight_ok c" and "run_benchmark P (returnIO ()) elapsed run_time i tr c = (Inr k, c')"
  shows "in_flight_ok c' \<and> i \<le> k \<and> k \<le> i + length tr \<and> sequence_num c' = sequence_num c + int (k - i)"
  using assms
proof (induction tr arbitrary: i c)
  case Nil
  then show ?case by (simp add: returnIO_def)
next
  case (Cons b tr)
  show ?case
  proof (cases "elapsed i < wrap32 (run_time * 1000000)")
    case False
    then show ?thesis using Cons.prems by (auto simp: returnIO_def)
  next
    case True
    obtain res c1 where s: "issue_request (batch_sender P b) (batch_code b) c = (res, c1)"
      by (rule prod.exhaust)
    have "res = Inr ()" and t: "run_benchmark P (returnIO ()) elapsed run_time (i + 1) tr c1 = (Inr k, c')"
      using Cons.prems(2) True s unfolding run_benchmark.simps send_batch by (cases res; simp add: bindIO_def returnIO_def)+
    then have s: "issue_request (batch_sender P b) (batch_code b) c = (Inr (), c1)"
      using s by simp
    show ?thesis using Cons.IH [OF issue_request_effect(1) [OF Cons.prems(1) s] t] issue_request_effect(2) [OF Cons.prems(1) s]
      by (auto simp: Suc_diff_le)
  qed
qed

end
