(* ===== verification/Trace_Claims.thy ===== *)
theory Trace_Claims
  imports Trace_Files
begin

text \<open>Properties of the workload: traces and batches.\<close>

lemma load_trace_batches:
  assumes "0 < n" and "int n \<le> int_max" and "length values = length keys"
  shows "\<exists>tr. load_trace (int n) (keys, values) = Inr tr \<and> concat (map batch_rows tr) = zip keys values \<and> (\<forall>b \<in> set tr. batch_ok n b)"
proof -
  have "int n < 2 ^ 64" using assms(2) by (simp add: int_max_def)
  from load_rows_ok [OF load_start_ok assms(1) this, of "zip keys values"]
  have "load_ok n (zip keys values) (fold (\<lambda>(k, v). load_row (int n) k v) (zip keys values) load_start)" by simp
  from load_finish_ok [OF this] show ?thesis using assms(3) by (simp add: load_trace_def)
qed

text \<open>
  C20.  Cutting a trace into batches loses nothing and changes no order: the rows of the batches, one batch after
  the other, are the rows of the trace; no batch has more than \<open>client_batch_size\<close> rows; and each is all GETs or
  all PUTs, recognisable by its values.
\<close>

theorem load_trace_preserves:
  assumes "0 < n" and "int n \<le> int_max" and "length values = length keys"
  shows "\<exists>tr. load_trace (int n) (keys, values) = Inr tr \<and> concat (map batch_rows tr) = zip keys values \<and> (\<forall>b \<in> set tr. batch_ok n b)"
  by (rule load_trace_batches [OF assms])

theorem load_trace_preserves_witness:
  "\<exists>tr. load_trace 2 ([''a'', ''b'', ''c'', ''d''], ['''', ''x'', ''y'', '''']) = Inr tr \<and>
     concat (map batch_rows tr) = [(''a'', ''''), (''b'', ''x''), (''c'', ''y''), (''d'', '''')]"
proof -
  have "(0 :: nat) < 2" "int 2 \<le> int_max" "length ['''', ''x'', ''y'', ''''] = length [''a'', ''b'', ''c'', ''d'']"
    by (simp_all add: int_max_def)
  from load_trace_preserves [OF this] show ?thesis by auto
qed

text \<open>
  Generating a trace for a set of typed items ends after at most \<open>row_count\<close> rounds.  The trace it
  yields suits the proxy: no bucket is put twice, every bucket that is put is later than the initial data of the
  server, and every value has exactly the object size.
\<close>

lemma generated_trace_ok:
  assumes "\<forall>k \<in> set items. typed_key k" and "distinct items" and "items \<noteq> []" and "4 dvd osize" and "0 < osize"
    and "0 < b" and "b \<le> int_max" and "row_count + int (length items) < 2 ^ 31" and "1700000000 + row_count * int osize < 2 ^ 31"
    and "0 < fuel" and "row_count < int fuel" and "0 \<le> row_count"
  shows "\<exists>keys values. generate_TS_tracefile_binary fuel dr osize b items row_count = Inr (keys, values) \<and>
    length values = length keys \<and> distinct (puts (zip keys values)) \<and>
    (\<forall>k \<in> set (puts (zip keys values)). \<exists>x t. x \<in> set items \<and> k = ts_key x t \<and> 1700000000 \<le> t) \<and>
    (\<forall>v \<in> set values. v = '''' \<or> length v = osize)"
proof -
  have b: "b < 2 ^ 63" using assms(7) by (simp add: int_max_def)
  have "rows_ok items osize 1700000000 []" by (simp add: rows_ok_def puts_def)
  from trace_loop_ok [OF assms(1,4,5,2,3,6) b assms(8,9) this, of 0 fuel dr 0] obtain rows ts
    where r: "trace_loop fuel dr osize b items row_count 0 0 1700000000 [] = Inr rows" "rows_ok items osize ts rows"
    using assms(10-12) by auto
  have z: "zip (map fst rows) (map snd rows) = rows" by (rule zip_map_fst_snd)
  have "\<forall>v \<in> set (map snd rows). v = '''' \<or> length v = osize" using r(2) unfolding rows_ok_def by auto
  moreover have "\<forall>k \<in> set (puts rows). \<exists>x t. x \<in> set items \<and> k = ts_key x t \<and> 1700000000 \<le> t"
    using r(2) unfolding rows_ok_def by blast
  moreover have "distinct (puts rows)" using r(2) unfolding rows_ok_def by blast
  moreover have "generate_TS_tracefile_binary fuel dr osize b items row_count = Inr (map fst rows, map snd rows)"
    using r(1) assms(6) by (simp add: generate_TS_tracefile_binary_def)
  ultimately show ?thesis using z by (intro exI [of _ "map fst rows"] exI [of _ "map snd rows"]) simp
qed

lemma generated_trace_sample:
  "\<exists>keys values. generate_TS_tracefile_binary 100001 \<lparr>dr_cells = \<lambda>_ _. 0, dr_bools = \<lambda>_ _. False, dr_samples = \<lambda>_. (0, 0), dr_rand = \<lambda>i. i\<rparr>
      1024 1 [''x&int&''] 100000 = Inr (keys, values) \<and> distinct (puts (zip keys values))"
proof -
  have "\<forall>k \<in> set [''x&int&'']. typed_key k" by (simp add: typed_key_def wf_item_def get_data_type_def str_find_def)
  moreover have "4 dvd (1024 :: nat)" "(0 :: nat) < 1024" "(0 :: int) < 1" "1 \<le> int_max" "100000 + int (length [''x&int&'']) < 2 ^ 31"
    "1700000000 + 100000 * int 1024 < 2 ^ 31" "(0 :: nat) < 100001" "(100000 :: int) < int 100001" "(0 :: int) \<le> 100000"
    by (simp_all add: int_max_def)
  ultimately show ?thesis
    using generated_trace_ok [of "[''x&int&'']" 1024 1 100000 100001 "\<lparr>dr_cells = \<lambda>_ _. 0, dr_bools = \<lambda>_ _. False, dr_samples = \<lambda>_. (0, 0), dr_rand = \<lambda>i. i\<rparr>"]
    by auto
qed

end
