(* ===== verification/Proxy_Uniform.thy ===== *)
theory Proxy_Uniform
  imports Proxy_Oblivious
begin

text \<open>
  How long a location stays unread.  Every batch reads the client keys, and fills up with the uncached keys
  and the fake keys that were used longest ago (\<open>execute_batch\<close>).  A key that is not read therefore moves up
  in the order of last use with every batch, so that its location is read within a number of batches that
  depends on the configuration only.
\<close>

subsection \<open>Ranks that drain\<close>

text \<open>
  The interface: a run shows a list of observations; as long as none of them is a hit, something waits, its
  rank is positive, and every observation takes at least \<open>rate\<close> off the rank.  Then enough observations
  contain a hit.
\<close>

locale draining =
  fixes run :: "'st \<Rightarrow> 'o list \<Rightarrow> 'st \<Rightarrow> bool" and step :: "'st \<Rightarrow> 'o list \<Rightarrow> 'st \<Rightarrow> bool"
    and waiting :: "'st \<Rightarrow> bool" and rank :: "'st \<Rightarrow> int" and hit :: "'o \<Rightarrow> bool" and rate :: int
  assumes run_induct: "\<And>P st tr st'. run st tr st' \<Longrightarrow> P [] st \<Longrightarrow>
      (\<And>tr st1 obs st2. P tr st1 \<Longrightarrow> step st1 obs st2 \<Longrightarrow> P (tr @ obs) st2) \<Longrightarrow> P tr st'"
    and drains: "step st obs st' \<Longrightarrow> waiting st \<Longrightarrow> \<not> (\<exists>x \<in> set obs. hit x) \<Longrightarrow>
      waiting st' \<and> rank st' + rate * int (length obs) \<le> rank st"
    and positive: "waiting st \<Longrightarrow> 0 < rank st"
begin

lemma drained:
  assumes "run st tr st'" and "waiting st"
  shows "(\<exists>x \<in> set tr. hit x) \<or> waiting st' \<and> rank st' + rate * int (length tr) \<le> rank st"
  using assms(1)
proof (rule run_induct)
  show "(\<exists>x \<in> set []. hit x) \<or> waiting st \<and> rank st + rate * int (length []) \<le> rank st" using assms(2) by simp
next
  fix tr st1 obs st2
  assume IH: "(\<exists>x \<in> set tr. hit x) \<or> waiting st1 \<and> rank st1 + rate * int (length tr) \<le> rank st" and s: "step st1 obs st2"
  show "(\<exists>x \<in> set (tr @ obs). hit x) \<or> waiting st2 \<and> rank st2 + rate * int (length (tr @ obs)) \<le> rank st"
    using IH drains [OF s] by (fastforce simp: algebra_simps)
qed

lemma hit_within:
  assumes "run st tr st'" and "waiting st" and "rank st \<le> rate * int (length tr)"
  shows "\<exists>x \<in> set tr. hit x"
  using drained [OF assms(1,2)] positive [of st'] assms(3) by linarith

end

subsection \<open>The steps of a run that keeps the invariant\<close>

text \<open>A step that shows the server something, from a state of the invariant, in a lawful environment.\<close>

definition lawful_step ::
  "string set \<Rightarrow> (string \<Rightarrow> string) \<Rightarrow> ('srv, 'ctx) env \<Rightarrow> ('srv \<Rightarrow> string \<Rightarrow> string option) \<Rightarrow> int \<Rightarrow> nat \<Rightarrow> config \<Rightarrow> nat \<Rightarrow> engine \<Rightarrow> nat \<Rightarrow>
   nat \<Rightarrow> 'srv loop \<Rightarrow> (string list \<times> string list) list \<Rightarrow> 'srv loop \<Rightarrow> bool" where
  "lawful_step K V e db T m cfg U g nf fuel st obs st' \<longleftrightarrow>
     env_ok e g db K T \<and> cfg_ok fuel cfg m U nf T \<and> sys_inv K V e db T m cfg U g nf st \<and> observed fuel cfg e K V m T st obs st'"

definition lawful_run ::
  "string set \<Rightarrow> (string \<Rightarrow> string) \<Rightarrow> ('srv, 'ctx) env \<Rightarrow> ('srv \<Rightarrow> string \<Rightarrow> string option) \<Rightarrow> int \<Rightarrow> nat \<Rightarrow> config \<Rightarrow> nat \<Rightarrow> engine \<Rightarrow> nat \<Rightarrow>
   nat \<Rightarrow> 'srv loop \<Rightarrow> (string list \<times> string list) list \<Rightarrow> 'srv loop \<Rightarrow> bool" where
  "lawful_run K V e db T m cfg U g nf fuel st tr st' \<longleftrightarrow>
     env_ok e g db K T \<and> cfg_ok fuel cfg m U nf T \<and> sys_inv K V e db T m cfg U g nf st \<and> proxy_run fuel cfg e K V m T st tr st'"

lemma lawful_run_induct:
  assumes "lawful_run K V e db T m cfg U g nf fuel st tr st'" and "P [] st"
    and "\<And>tr st1 obs st2. P tr st1 \<Longrightarrow> lawful_step K V e db T m cfg U g nf fuel st1 obs st2 \<Longrightarrow> P (tr @ obs) st2"
  shows "P tr st'"
proof -
  have L: "env_ok e g db K T" "cfg_ok fuel cfg m U nf T" "sys_inv K V e db T m cfg U g nf st" "proxy_run fuel cfg e K V m T st tr st'"
    using assms(1) by (simp_all add: lawful_run_def)
  from L(4) show ?thesis
  proof induction
    case (run_step tr st1 ob st2)
    have "sys_inv K V e db T m cfg U g nf st1" using run_seen_once [OF L(1,2) run_step.hyps(1) L(3)] by blast
    then show ?case using assms(3) run_step L(1,2) by (simp add: lawful_step_def)
  qed (rule assms(2))
qed

text \<open>A step shows the server no batch, and the batch number stays, or it shows one and executes it.\<close>

lemma lawful_step_cases:
  assumes "lawful_step K V e db T m cfg U g nf fuel (i, rid, batch, misses, s) obs (i', rid', batch', misses', s')"
  obtains (silent) "obs = []" "timeStamp s' = timeStamp s" "proxy_step fuel cfg e K V m T (i, rid, batch, misses, s) (i', rid', batch', misses', s')"
  | (batch) sk w rs fk where "obs = [(sk, writeBatchKeys w)]" "i' = 0" "consumer_round fuel cfg e batch s = Inr (sk, w, s')"
      "batch_post K V cfg e db s sk w s'" "picks cfg e (map fst batch) s rs fk sk s'"
proof -
  have L: "env_ok e g db K T" "cfg_ok fuel cfg m U nf T" "sys_inv K V e db T m cfg U g nf (i, rid, batch, misses, s)"
    and ob: "observed fuel cfg e K V m T (i, rid, batch, misses, s) obs (i', rid', batch', misses', s')"
    using assms by (simp_all add: lawful_step_def)
  from ob show ?thesis
  proof cases
    case quiet
    then show ?thesis using silent by simp
  next
    case (exchange sk w)
    from sys_round [OF L exchange(7,8)] exchange(9) obtain rs fk where
      "batch_post K V cfg e db s sk w s'" "picks cfg e (map fst batch) s rs fk sk s'" by auto
    then show ?thesis using batch exchange by blast
  qed
qed

subsection \<open>The fake keys\<close>

text \<open>A fake key waits at frequency \<open>f\<close>; its rank counts the fake keys that are not newer.\<close>

definition fake_waits :: "string \<Rightarrow> int \<Rightarrow> 'srv loop \<Rightarrow> bool" where
  "fake_waits k f st = (case st of (i, rid, batch, misses, s) \<Rightarrow> fake s k \<and> fs_freq (fakeBst s) k = f)"

definition fake_older :: "'srv proxy \<Rightarrow> int \<Rightarrow> string set" where
  "fake_older s f = {k. fake s k \<and> fs_freq (fakeBst s) k \<le> f}"

definition fake_rank :: "int \<Rightarrow> 'srv loop \<Rightarrow> int" where
  "fake_rank f st = (case st of (i, rid, batch, misses, s) \<Rightarrow> int (card (fake_older s f)))"

lemma finite_fake_older [simp]: "finite (fake_older s f)"
  by (rule finite_subset [of _ "set (um_keys (accessFreqs (fakeBst s)))"]) (auto simp: fake_older_def fake_def um_has_keys)

lemma silent_fake:
  assumes "aged s s'" and "timeStamp s' = timeStamp s"
  shows "fake s' k \<longleftrightarrow> fake s k" "fake s k \<Longrightarrow> fs_freq (fakeBst s') k = fs_freq (fakeBst s) k"
  using assms unfolding aged_def by auto

text \<open>A batch that does not pick the key picks only keys that are not newer, and makes them newer.\<close>

lemma batch_fake:
  assumes "picks cfg e ops s rs fk sk s'" and "\<forall>k. fake s' k \<longleftrightarrow> fake s k" and "fake s k" and "k \<notin> set fk"
    and "fs_freq (fakeBst s) k \<le> timeStamp s"
  shows "card (fake_older s' (fs_freq (fakeBst s) k)) + length fk \<le> card (fake_older s (fs_freq (fakeBst s) k))"
proof -
  note D = picksD [OF assms(1)]
  let ?f = "fs_freq (fakeBst s) k"
  have sub: "set fk \<subseteq> fake_older s ?f" using D(7) D(9) [OF _ assms(3,4)] by (auto simp: fake_older_def)
  have "fake_older s' ?f \<subseteq> fake_older s ?f - set fk"
    using D(11) assms(2,5) by (auto simp: fake_older_def split: if_splits)
  then have "card (fake_older s' ?f) \<le> card (fake_older s ?f - set fk)" by (intro card_mono) auto
  moreover have "card (fake_older s ?f - set fk) = card (fake_older s ?f) - length fk"
    using card_Diff_subset [OF _ sub] distinct_card [OF D(5)] by simp
  moreover have "length fk \<le> card (fake_older s ?f)" using card_mono [OF _ sub] distinct_card [OF D(5)] by simp
  ultimately show ?thesis by linarith
qed

lemma fake_drains:
  assumes "lawful_step K V e db T m cfg U g nf fuel st obs st'" and "fake_waits k f st"
    and "\<not> (\<exists>x \<in> set obs. loc e g k f \<in> set (fst x))"
  shows "fake_waits k f st' \<and> fake_rank f st' + cfg_F cfg * int (length obs) \<le> fake_rank f st"
proof -
  obtain i rid batch misses s i' rid' batch' misses' s' where
    st: "st = (i, rid, batch, misses, s)" "st' = (i', rid', batch', misses', s')" by (metis prod_cases5)
  have L: "env_ok e g db K T" "cfg_ok fuel cfg m U nf T" "sys_inv K V e db T m cfg U g nf (i, rid, batch, misses, s)"
    using assms(1) by (simp_all add: lawful_step_def st)
  have I: "pinv K V e db s" "encryption_engine s = g" using L(3) by (simp_all add: sys_inv_def)
  have k: "fake s k" "fs_freq (fakeBst s) k = f" using assms(2) by (simp_all add: fake_waits_def st)
  show ?thesis
  proof (rule lawful_step_cases [OF assms(1) [unfolded st]])
    assume q: "obs = []" "timeStamp s' = timeStamp s" "proxy_step fuel cfg e K V m T (i, rid, batch, misses, s) (i', rid', batch', misses', s')"
    note F = silent_fake [OF step_aged [OF L q(3)] q(2)]
    have "fake_older s' f = fake_older s f" using F by (auto simp: fake_older_def)
    then show ?thesis using q(1) F k by (simp add: fake_waits_def fake_rank_def st)
  next
    fix sk w rs fk
    assume b: "obs = [(sk, writeBatchKeys w)]" "batch_post K V cfg e db s sk w s'" "picks cfg e (map fst batch) s rs fk sk s'"
    note D = picksD [OF b(3)]
    have fk: "\<forall>k. fake s' k \<longleftrightarrow> fake s k" using b(2) by (simp add: batch_post_def)
    have n: "k \<notin> set fk" using assms(3) b(1) D(1) I(2) k(2) by auto
    have "fs_freq (fakeBst s) k \<le> timeStamp s" using pinvD(12) [OF I(1) k(1)] by blast
    from batch_fake [OF b(3) fk k(1) n this] have "card (fake_older s' f) + nat (cfg_F cfg) \<le> card (fake_older s f)"
      using D(3) k(2) by simp
    then show ?thesis using b(1) fk k D(11) n L(2) by (auto simp: fake_waits_def fake_rank_def st cfg_ok_def)
  qed
qed

interpretation fake_drain: draining "lawful_run K V e db T m cfg U g nf fuel" "lawful_step K V e db T m cfg U g nf fuel"
  "fake_waits k f" "fake_rank f" "\<lambda>x. loc e g k f \<in> set (fst x)" "cfg_F cfg"
  for K V e db T m cfg U g nf fuel k f
proof unfold_locales
  show "P tr st'" if "lawful_run K V e db T m cfg U g nf fuel st tr st'" "P [] st"
    "\<And>tr st1 obs st2. P tr st1 \<Longrightarrow> lawful_step K V e db T m cfg U g nf fuel st1 obs st2 \<Longrightarrow> P (tr @ obs) st2" for P st tr st'
    by (rule lawful_run_induct [where P = P, OF that(1,2)]) (rule that(3); assumption)
next
  show "0 < fake_rank f st" if "fake_waits k f st" for st
  proof -
    obtain i rid batch misses s where st: "st = (i, rid, batch, misses, s)" by (metis prod_cases5)
    then have "k \<in> fake_older s f" using that by (simp add: fake_waits_def fake_older_def)
    then have "0 < card (fake_older s f)" using card_gt_0_iff finite_fake_older by blast
    then show ?thesis by (simp add: fake_rank_def st)
  qed
qed (rule fake_drains; assumption)

subsection \<open>How the frequencies of the fake keys are spread\<close>

text \<open>Of \<open>nf\<close> fake keys at most \<open>nf - j F\<close> have not been used in the last \<open>j\<close> batches.\<close>

definition fake_spread :: "config \<Rightarrow> nat \<Rightarrow> 'srv loop \<Rightarrow> bool" where
  "fake_spread cfg nf st = (case st of (i, rid, batch, misses, s) \<Rightarrow>
     \<forall>j. int (card (fake_older s (timeStamp s - int j))) \<le> max 0 (int nf - int j * cfg_F cfg))"

lemma card_fake_older: "card (fake_older s f) \<le> fs_size (fakeBst s)"
proof -
  have "card (fake_older s f) \<le> card (set (um_keys (accessFreqs (fakeBst s))))"
    by (rule card_mono) (auto simp: fake_older_def fake_def um_has_keys)
  then show ?thesis using card_length [of "um_keys (accessFreqs (fakeBst s))"] by (simp add: fs_size_def)
qed

lemma fake_spread_start:
  assumes "sys_inv K V e db T m cfg U g nf (i, rid, batch, misses, s)" and "timeStamp s = 0"
  shows "fake_spread cfg nf (i, rid, batch, misses, s)"
proof -
  have I: "pinv K V e db s" "fs_size (fakeBst s) = nf" using assms(1) by (simp_all add: sys_inv_def)
  have "int (card (fake_older s (0 - int j))) \<le> max 0 (int nf - int j * cfg_F cfg)" for j
  proof (cases j)
    case 0
    then show ?thesis using card_fake_older [of s 0] I(2) by simp
  next
    case (Suc n)
    have "fake_older s (0 - int j) = {}" using pinvD(12) [OF I(1)] Suc by (fastforce simp: fake_older_def)
    then show ?thesis by simp
  qed
  then show ?thesis by (simp add: fake_spread_def assms(2))
qed

lemma fake_spread_step:
  assumes "lawful_step K V e db T m cfg U g nf fuel st obs st'" and "fake_spread cfg nf st"
  shows "fake_spread cfg nf st'"
proof -
  obtain i rid batch misses s i' rid' batch' misses' s' where
    st: "st = (i, rid, batch, misses, s)" "st' = (i', rid', batch', misses', s')" by (metis prod_cases5)
  have L: "env_ok e g db K T" "cfg_ok fuel cfg m U nf T" "sys_inv K V e db T m cfg U g nf (i, rid, batch, misses, s)"
    using assms(1) by (simp_all add: lawful_step_def st)
  have sp: "int (card (fake_older s (timeStamp s - int j))) \<le> max 0 (int nf - int j * cfg_F cfg)" for j
    using assms(2) by (simp add: fake_spread_def st)
  show ?thesis
  proof (rule lawful_step_cases [OF assms(1) [unfolded st]])
    assume q: "timeStamp s' = timeStamp s" "proxy_step fuel cfg e K V m T (i, rid, batch, misses, s) (i', rid', batch', misses', s')"
    note F = silent_fake [OF step_aged [OF L q(2)] q(1)]
    have "fake_older s' f = fake_older s f" for f using F by (auto simp: fake_older_def)
    then show ?thesis using q(1) sp by (simp add: fake_spread_def st)
  next
    fix sk w rs fk
    assume b: "batch_post K V cfg e db s sk w s'" "picks cfg e (map fst batch) s rs fk sk s'"
    note D = picksD [OF b(2)]
    have p: "\<forall>k. fake s' k \<longleftrightarrow> fake s k" "timeStamp s' = timeStamp s + 1" "fs_size (fakeBst s') = fs_size (fakeBst s)"
      using b(1) by (simp_all add: batch_post_def)
    have nf: "fs_size (fakeBst s) = nf" and F0: "0 \<le> cfg_F cfg" using L(2,3) by (simp_all add: sys_inv_def cfg_ok_def)
    have "int (card (fake_older s' (timeStamp s + 1 - int j))) \<le> max 0 (int nf - int j * cfg_F cfg)" for j
    proof (cases j)
      case 0
      then show ?thesis using card_fake_older [of s' "timeStamp s + 1"] p(3) nf by simp
    next
      case (Suc n)
      let ?x = "timeStamp s - int n"
      have x: "timeStamp s + 1 - int j = ?x" using Suc by simp
      have eq: "fake_older s' ?x = fake_older s ?x - set fk" using D(11) p(1) by (auto simp: fake_older_def split: if_splits)
      show ?thesis
      proof (cases "fake_older s ?x \<subseteq> set fk")
        case True
        then have "fake_older s ?x - set fk = {}" by blast
        then have "card (fake_older s ?x - set fk) = 0" by (simp only: card.empty)
        then show ?thesis unfolding x eq by linarith
      next
        case False
        then obtain k where k: "fake s k" "fs_freq (fakeBst s) k \<le> ?x" "k \<notin> set fk" by (auto simp: fake_older_def)
        have sub: "set fk \<subseteq> fake_older s ?x" using D(7) D(9) [OF _ k(1,3)] k(2) by (fastforce simp: fake_older_def)
        then have "card (fake_older s ?x - set fk) + nat (cfg_F cfg) = card (fake_older s ?x)"
          using card_Diff_subset [OF _ sub] card_mono [OF _ sub] distinct_card [OF D(5)] D(3) by simp
        then have "int (card (fake_older s ?x - set fk)) + cfg_F cfg = int (card (fake_older s ?x))" using F0 by linarith
        moreover have "int j * cfg_F cfg = int n * cfg_F cfg + cfg_F cfg" using Suc by (simp add: algebra_simps)
        ultimately show ?thesis using sp [of n] F0 unfolding x eq by linarith
      qed
    qed
    then show ?thesis using p(2) by (simp add: fake_spread_def st)
  qed
qed

text \<open>So the fake keys a batch picks were used at most \<open>nf / F\<close> batches ago.\<close>

lemma fake_spread_bound:
  assumes "fake_spread cfg nf (i, rid, batch, misses, s)" and "fake s k" and "fs_freq (fakeBst s) k \<le> timeStamp s"
  shows "(timeStamp s - fs_freq (fakeBst s) k) * cfg_F cfg < int nf"
proof -
  let ?j = "nat (timeStamp s - fs_freq (fakeBst s) k)"
  have j: "timeStamp s - int ?j = fs_freq (fakeBst s) k" using assms(3) by simp
  have "k \<in> fake_older s (timeStamp s - int ?j)" unfolding j using assms(2) by (simp add: fake_older_def)
  then have "0 < card (fake_older s (timeStamp s - int ?j))" using card_gt_0_iff finite_fake_older by blast
  moreover have "int (card (fake_older s (timeStamp s - int ?j))) \<le> max 0 (int nf - int ?j * cfg_F cfg)"
    using assms(1) by (simp only: fake_spread_def prod.case)
  ultimately have "int ?j * cfg_F cfg < int nf" by (simp add: max_def split: if_splits)
  then show ?thesis using assms(3) by simp
qed

lemma fake_spread_run:
  assumes "lawful_run K V e db T m cfg U g nf fuel st tr st'" and "fake_spread cfg nf st"
  shows "fake_spread cfg nf st'"
  by (rule lawful_run_induct [where P = "\<lambda>_. fake_spread cfg nf", OF assms]) (rule fake_spread_step)

subsection \<open>The uncached buckets\<close>

text \<open>
  A bucket outside the cache waits at frequency \<open>f\<close>; its rank counts the buckets, cached or not, that are not
  newer.  While its frequency is the current batch number, buckets that are put before the next batch are not
  newer either; the counter of the batch bounds how many these can be.
\<close>

definition real_waits :: "string \<Rightarrow> int \<Rightarrow> 'srv loop \<Rightarrow> bool" where
  "real_waits k f st = (case st of (i, rid, batch, misses, s) \<Rightarrow>
     live s k \<and> cache_find (pcache s) k = None \<and> fs_freq (realBst s) k = f)"

definition real_older :: "'srv proxy \<Rightarrow> int \<Rightarrow> string set" where
  "real_older s f = {k. live s k \<and> fs_freq (realBst s) k \<le> f}"

definition real_rank :: "config \<Rightarrow> nat \<Rightarrow> int \<Rightarrow> 'srv loop \<Rightarrow> int" where
  "real_rank cfg m f st = (case st of (i, rid, batch, misses, s) \<Rightarrow>
     int (card (real_older s f)) + (if f < timeStamp s then 0 else max 0 (cfg_R cfg + int m - i)))"

text \<open>At least so many keys of a batch are chosen by age.\<close>

definition fill_rate :: "config \<Rightarrow> nat \<Rightarrow> int" where
  "fill_rate cfg m = cfg_B cfg - cfg_F cfg - (cfg_R cfg + int m - 1)"

lemma finite_real_older [simp]: "finite (real_older s f)"
  by (simp add: real_older_def finite_live)

text \<open>A step without a batch leaves the waiting bucket alone and puts at most as many new ones as it counts.\<close>

lemma silent_live:
  assumes "env_ok e g db K T" and "cfg_ok fuel cfg m U nf T" and "sys_inv K V e db T m cfg U g nf (i, rid, batch, misses, s)"
    and "proxy_step fuel cfg e K V m T (i, rid, batch, misses, s) (i', rid', batch', misses', s')" and "timeStamp s' = timeStamp s"
  shows "i \<le> i'" "int (card (Collect (live s') - Collect (live s))) \<le> i' - i"
proof -
  have "i \<le> i' \<and> int (card (Collect (live s') - Collect (live s))) \<le> i' - i"
    using assms(4)
  proof cases
    case (take_get item start stop q)
    show ?thesis
      by (rule serve_get_count [OF assms(3) take_get(1-4) cfg_fits(1) [OF assms(2)]]) (use take_get(5) in simp)
  next
    case (take_put item t q)
    show ?thesis
    proof (rule serve_put [OF assms(3) take_put(1-3) cfg_fits(2,3) [OF assms(2)] refl], goal_cases)
      case (1 old batch' s'')
      then have "Collect (live s') - Collect (live s) \<subseteq> {ts_key item t}" "i' = i + 1"
        using take_put(4) by (auto split: if_splits)
      then show ?case using card_mono [of "{ts_key item t}"] by fastforce
    qed
  next
    case (round sk w)
    then show ?thesis using observed_batch(1) [OF assms(1-3) round(6-8)] assms(5) by (simp add: batch_post_def)
  next
    case clean
    then show ?thesis using sys_clean(2) [OF assms(1,3)] by auto
  qed
  then show "i \<le> i'" "int (card (Collect (live s') - Collect (live s))) \<le> i' - i" by simp_all
qed

lemma silent_real:
  assumes "aged s s'" and "timeStamp s' = timeStamp s"
  shows "live s k \<Longrightarrow> cache_find (pcache s) k = None \<Longrightarrow>
      live s' k \<and> cache_find (pcache s') k = None \<and> fs_freq (realBst s') k = fs_freq (realBst s) k"
    "real_older s' f \<subseteq> real_older s f \<union> (Collect (live s') - Collect (live s))"
    "f < timeStamp s \<Longrightarrow> real_older s' f \<subseteq> real_older s f"
proof -
  have a: "fs_freq (realBst s') j = timeStamp s' \<and> \<not> live s j \<or>
      live s j \<and> fs_freq (realBst s') j = fs_freq (realBst s) j \<and> (cache_find (pcache s') j \<noteq> None \<longrightarrow> cache_find (pcache s) j \<noteq> None)"
    if "live s' j" for j using assms that unfolding aged_def by auto
  have b: "live s' j" if "live s j" "cache_find (pcache s) j = None" for j using assms that unfolding aged_def by auto
  show "live s' k \<and> cache_find (pcache s') k = None \<and> fs_freq (realBst s') k = fs_freq (realBst s) k"
    if h: "live s k" "cache_find (pcache s) k = None" using a [OF b [OF h]] b [OF h] h by blast
  show "real_older s' f \<subseteq> real_older s f \<union> (Collect (live s') - Collect (live s))"
    using a by (fastforce simp: real_older_def)
  show "real_older s' f \<subseteq> real_older s f" if "f < timeStamp s"
    using a that assms(2) by (fastforce simp: real_older_def)
qed

lemma batch_real:
  assumes "picks cfg e ops s rs fk sk s'" and "\<forall>k. live s' k \<longrightarrow> live s k" and "live s k"
    and "cache_find (pcache s) k = None" and "k \<notin> set (ops @ rs)" and "fs_freq (realBst s) k \<le> timeStamp s"
  shows "card (real_older s' (fs_freq (realBst s) k)) + length rs \<le> card (real_older s (fs_freq (realBst s) k))"
proof -
  note D = picksD [OF assms(1)]
  let ?f = "fs_freq (realBst s) k"
  have rs: "distinct rs" using D(4) by simp
  have sub: "set rs \<subseteq> real_older s ?f" using D(6) D(8) [OF _ assms(3-5)] by (auto simp: real_older_def)
  have "real_older s' ?f \<subseteq> real_older s ?f - set rs"
    using D(10) assms(2,6) by (fastforce simp: real_older_def split: if_splits)
  then have "card (real_older s' ?f) \<le> card (real_older s ?f - set rs)" by (intro card_mono) auto
  moreover have "card (real_older s ?f - set rs) = card (real_older s ?f) - length rs"
    using card_Diff_subset [OF _ sub] distinct_card [OF rs] by simp
  moreover have "length rs \<le> card (real_older s ?f)" using card_mono [OF _ sub] distinct_card [OF rs] by simp
  ultimately show ?thesis by linarith
qed

lemma real_drains:
  assumes "lawful_step K V e db T m cfg U g nf fuel st obs st'" and "real_waits k f st"
    and "\<not> (\<exists>x \<in> set obs. loc e g k f \<in> set (fst x))"
  shows "real_waits k f st' \<and> real_rank cfg m f st' + fill_rate cfg m * int (length obs) \<le> real_rank cfg m f st"
proof -
  obtain i rid batch misses s i' rid' batch' misses' s' where
    st: "st = (i, rid, batch, misses, s)" "st' = (i', rid', batch', misses', s')" by (metis prod_cases5)
  have L: "env_ok e g db K T" "cfg_ok fuel cfg m U nf T" "sys_inv K V e db T m cfg U g nf (i, rid, batch, misses, s)"
    using assms(1) by (simp_all add: lawful_step_def st)
  have I: "pinv K V e db s" "cinv 1 V batch s" "encryption_engine s = g" "int (length batch) \<le> i" "i < cfg_R cfg + int m"
    using L(3) by (simp_all add: sys_inv_def)
  have k: "live s k" "cache_find (pcache s) k = None" "fs_freq (realBst s) k = f" using assms(2) by (simp_all add: real_waits_def st)
  have f: "f \<le> timeStamp s" using pinvD(10) [OF I(1) k(1)] k(3) by blast
  show ?thesis
  proof (rule lawful_step_cases [OF assms(1) [unfolded st]])
    assume q: "obs = []" "timeStamp s' = timeStamp s" "proxy_step fuel cfg e K V m T (i, rid, batch, misses, s) (i', rid', batch', misses', s')"
    note R = silent_real [OF step_aged [OF L q(3)] q(2)] and N = silent_live [OF L q(3,2)]
    have "sys_inv K V e db T m cfg U g nf (i', rid', batch', misses', s')" using sys_inv_step [OF L(1,2) q(3) L(3)] .
    then have i': "i' < cfg_R cfg + int m" by (simp add: sys_inv_def)
    have fin: "finite (Collect (live s') - Collect (live s))" using finite_live [of s' "\<lambda>_. True"] by simp
    have "real_rank cfg m f st' \<le> real_rank cfg m f st"
    proof (cases "f < timeStamp s")
      case True
      then show ?thesis using card_mono [OF _ R(3) [OF True]] q(2) by (simp add: real_rank_def st)
    next
      case False
      have "card (real_older s' f) \<le> card (real_older s f \<union> (Collect (live s') - Collect (live s)))"
        using card_mono [OF _ R(2)] fin by simp
      also have "\<dots> \<le> card (real_older s f) + card (Collect (live s') - Collect (live s))" by (rule card_Un_le)
      finally show ?thesis using False N i' I(5) q(2) by (simp add: real_rank_def st)
    qed
    then show ?thesis using q(1) R(1) [OF k(1,2)] k(3) by (simp add: real_waits_def st)
  next
    fix sk w rs fk
    assume b: "obs = [(sk, writeBatchKeys w)]" "i' = 0" "batch_post K V cfg e db s sk w s'" "picks cfg e (map fst batch) s rs fk sk s'"
    note D = picksD [OF b(4)]
    have p: "\<forall>j. live s' j \<longleftrightarrow> live s j \<and> j \<notin> set (keys_to_be_deleted s)" "timeStamp s' = timeStamp s + 1" "aged s s'"
      using b(3) by (simp_all add: batch_post_def)
    have n: "k \<notin> set (map fst batch @ rs)" using assms(3) b(1) D(1) I(3) k(3) by auto
    have lv: "live s' k" using p(1) k(1) n cinvD(5) [OF I(2)] by auto
    have fr: "fs_freq (realBst s') k = f" using D(10) [OF lv] n k(3) by simp
    have "cache_find (pcache s') k = None" using p(3) lv fr f p(2) k(2) unfolding aged_def by fastforce
    moreover have "card (real_older s' f) + length rs \<le> card (real_older s f)"
      using batch_real [OF b(4) _ k(1,2) n] p(1) f k(3) by simp
    moreover have "fill_rate cfg m \<le> int (length rs)"
      using D(2) I(4,5) by (simp add: fill_rate_def)
    ultimately show ?thesis using b(1) lv fr p(2) f by (auto simp: real_waits_def real_rank_def st max_def)
  qed
qed

interpretation real_drain: draining "lawful_run K V e db T m cfg U g nf fuel" "lawful_step K V e db T m cfg U g nf fuel"
  "real_waits k f" "real_rank cfg m f" "\<lambda>x. loc e g k f \<in> set (fst x)" "fill_rate cfg m"
  for K V e db T m cfg U g nf fuel k f
proof unfold_locales
  show "P tr st'" if "lawful_run K V e db T m cfg U g nf fuel st tr st'" "P [] st"
    "\<And>tr st1 obs st2. P tr st1 \<Longrightarrow> lawful_step K V e db T m cfg U g nf fuel st1 obs st2 \<Longrightarrow> P (tr @ obs) st2" for P st tr st'
    by (rule lawful_run_induct [where P = P, OF that(1,2)]) (rule that(3); assumption)
next
  show "0 < real_rank cfg m f st" if "real_waits k f st" for st
  proof -
    obtain i rid batch misses s where st: "st = (i, rid, batch, misses, s)" by (metis prod_cases5)
    then have "k \<in> real_older s f" using that by (simp add: real_waits_def real_older_def)
    then have "0 < card (real_older s f)" using card_gt_0_iff finite_real_older by blast
    then show ?thesis by (auto simp: real_rank_def st max_def)
  qed
qed (rule real_drains; assumption)

end
