(* ===== verification/Proxy_Resident.thy ===== *)
theory Proxy_Resident
  imports Proxy_Uniform
begin

text \<open>
  How long a key stays in the cache.  A batch pushes the keys it reads in at the front of the cache and as many
  entries out at the back (\<open>execute_batch\<close>); a PUT pushes one entry in and may take one out.  A key therefore
  moves towards the end by a bounded number of places per batch, and its next location is not written before
  it gets there.
\<close>

subsection \<open>The place of a key in the cache\<close>

text \<open>The number of entries from the key's entry to the end; zero when it is not cached.\<close>

definition depth :: "cache \<Rightarrow> string \<Rightarrow> nat" where
  "depth c k = length (dropWhile (\<lambda>p. fst p \<noteq> k) (lru c))"

lemma depth_pos: "0 < depth c k \<longleftrightarrow> cache_find c k \<noteq> None"
  by (auto simp: depth_def cache_find_def map_of_eq_None_iff dropWhile_eq_Nil_conv)

lemma depth_le: "depth c k \<le> length (lru c)"
  by (simp add: depth_def length_dropWhile_le)

lemma length_dropWhile_append: "length (dropWhile P (xs @ ys)) \<le> length (dropWhile P xs) + length ys"
  by (induction xs) (simp_all add: length_dropWhile_le)

lemma length_dropWhile_kept:
  "x \<in> set xs \<Longrightarrow> \<not> P x \<Longrightarrow> Suc (length ys) \<le> length (dropWhile P (xs @ ys))"
  by (induction xs) auto

lemma dropWhile_filter_other:
  "k \<noteq> d \<Longrightarrow> dropWhile (\<lambda>p. fst p \<noteq> k) (filter (\<lambda>p. fst p \<noteq> d) l) = filter (\<lambda>p. fst p \<noteq> d) (dropWhile (\<lambda>p. fst p \<noteq> k) l)"
  by (induction l) auto

lemma length_filter_other:
  "distinct (map fst l) \<Longrightarrow> length l \<le> Suc (length (filter (\<lambda>p. fst p \<noteq> d) l))"
  by (induction l) (auto simp: filter_neq_notin)

text \<open>A batch of \<open>n\<close> keys takes a cached key at most \<open>n\<close> places on, and leaves a key it reads at least so deep.\<close>

lemma depth_batch:
  assumes "lru c' @ out = inn @ lru c"
  shows "k \<notin> set (map fst inn) \<Longrightarrow> depth c k \<le> depth c' k + length out"
    and "k \<in> set (map fst inn) \<Longrightarrow> Suc (length (lru c)) \<le> depth c' k + length out"
proof -
  let ?P = "\<lambda>p. fst p \<noteq> k"
  have b: "length (dropWhile ?P (inn @ lru c)) \<le> depth c' k + length out"
    using length_dropWhile_append [of ?P "lru c'" out] unfolding assms depth_def .
  show "depth c k \<le> depth c' k + length out" if "k \<notin> set (map fst inn)"
  proof -
    have "dropWhile ?P (inn @ lru c) = dropWhile ?P (lru c)" by (rule dropWhile_append2) (use that in auto)
    then show ?thesis using b by (simp add: depth_def)
  qed
  show "Suc (length (lru c)) \<le> depth c' k + length out" if "k \<in> set (map fst inn)"
    using length_dropWhile_kept [of _ inn ?P "lru c"] that b by force
qed

text \<open>A PUT takes a key at most one place on.\<close>

lemma depth_put:
  assumes "cache_inv c" and "lru c' = (k', v) # filter (\<lambda>p. fst p \<noteq> d) (lru c)"
  shows "k \<noteq> d \<Longrightarrow> k \<noteq> k' \<Longrightarrow> depth c k \<le> Suc (depth c' k)" and "length (lru c) \<le> length (lru c')"
    and "depth c' k' = length (lru c')"
proof -
  have dis: "distinct (map fst (lru c))" using cache_invD(3) [OF assms(1)] .
  show "length (lru c) \<le> length (lru c')" using length_filter_other [OF dis] assms(2) by simp
  show "depth c' k' = length (lru c')" by (simp add: depth_def assms(2))
  show "depth c k \<le> Suc (depth c' k)" if "k \<noteq> d" "k \<noteq> k'"
  proof -
    have "depth c' k = length (filter (\<lambda>p. fst p \<noteq> d) (dropWhile (\<lambda>p. fst p \<noteq> k) (lru c)))"
      using that assms(2) by (simp add: depth_def dropWhile_filter_other)
    moreover have "distinct (map fst (dropWhile (\<lambda>p. fst p \<noteq> k) (lru c)))"
      using dis by (metis (no_types) distinct_append map_append takeWhile_dropWhile_id)
    ultimately show ?thesis using length_filter_other by (simp add: depth_def)
  qed
qed

subsection \<open>Steps without a batch\<close>

lemma silent_cache:
  assumes "env_ok e g db K T" and "cfg_ok fuel cfg m U nf T" and "sys_inv K V e db T m cfg U g nf (i, rid, batch, misses, s)"
    and "proxy_step fuel cfg e K V m T (i, rid, batch, misses, s) (i', rid', batch', misses', s')" and "timeStamp s' = timeStamp s"
  obtains (same) "pcache s' = pcache s" "live s' = live s" "i \<le> i'"
  | (put) k' old where "i < cfg_R cfg" "i' = i + 1" "\<not> live s k'" "live s old"
      "lru (pcache s') = (k', V k') # filter (\<lambda>p. fst p \<noteq> old) (lru (pcache s))"
      "\<forall>j. live s' j \<longleftrightarrow> j = k' \<or> live s j \<and> (j = old \<longrightarrow> cache_find (pcache s) old = None)"
  using assms(4)
proof cases
  case (take_get item start stop q)
  show ?thesis
    by (rule serve_get_count [OF assms(3) take_get(1-4) cfg_fits(1) [OF assms(2)]]) (use take_get(5) same in simp)
next
  case (take_put item t q)
  show ?thesis
  proof (rule serve_put [OF assms(3) take_put(1-3) cfg_fits(2,3) [OF assms(2)] refl], goal_cases)
    case (1 old batch'' s'')
    then have "s'' = s'" "i' = i + 1" using take_put(4) by simp_all
    then show ?case using put [of "ts_key item t" old] 1 take_put(1,2) by (auto simp: put_ok_def split: if_splits)
  qed
next
  case (round sk w)
  then show ?thesis using observed_batch(1) [OF assms(1-3) round(6-8)] assms(5) by (simp add: batch_post_def)
next
  case clean
  have "pcache s' = pcache s" using clean by (auto simp: clear_round_def res_simps split: list.splits if_splits)
  then show ?thesis using same clean sys_clean(2) [OF assms(1,3)] by auto
qed

subsection \<open>A key stays as long as its depth lasts\<close>

text \<open>
  The key's next location, at frequency \<open>f\<close>, is not about to be written: the key is cached with \<open>n\<close> places to
  spare, even after the PUTs that still fit into this batch; or it has just been removed, and would be as deep
  again if it came back before the next batch; or its frequency has passed \<open>f\<close>.
\<close>

definition resident ::
  "string set \<Rightarrow> config \<Rightarrow> string \<Rightarrow> int \<Rightarrow> int \<Rightarrow> 'srv loop \<Rightarrow> bool" where
  "resident K cfg k f n st = (case st of (i, rid, batch, misses, s) \<Rightarrow>
     k \<in> K \<and> \<not> fake s k \<and> 0 \<le> n \<and> 0 \<le> f \<and> f \<le> timeStamp s \<and>
     (live s k \<and> fs_freq (realBst s) k = f \<and> n + max 0 (cfg_R cfg - i) < int (depth (pcache s) k) \<or>
      \<not> live s k \<and> n + max 0 (cfg_R cfg - i) < int (length (lru (pcache s))) \<or>
      f < timeStamp s \<and> (live s k \<longrightarrow> f < fs_freq (realBst s) k)))"

lemma resident_silent:
  assumes "env_ok e g db K T" and "cfg_ok fuel cfg m U nf T" and "sys_inv K V e db T m cfg U g nf (i, rid, batch, misses, s)"
    and "proxy_step fuel cfg e K V m T (i, rid, batch, misses, s) (i', rid', batch', misses', s')" and "timeStamp s' = timeStamp s"
    and "resident K cfg k f n (i, rid, batch, misses, s)"
  shows "resident K cfg k f n (i', rid', batch', misses', s')"
proof -
  have c: "cache_inv (pcache s)" using assms(3) pinvD(8) by (auto simp: sys_inv_def)
  have ag: "aged s s'" using step_aged [OF assms(1-4)] .
  have fr: "live s' k \<Longrightarrow> live s k \<Longrightarrow> fs_freq (realBst s') k = fs_freq (realBst s) k"
    and new: "live s' k \<Longrightarrow> \<not> live s k \<Longrightarrow> fs_freq (realBst s') k = timeStamp s"
    and fk: "fake s' k \<longleftrightarrow> fake s k"
    using ag assms(5) unfolding aged_def by auto
  have r: "k \<in> K" "\<not> fake s' k" "0 \<le> f" "f \<le> timeStamp s'" "0 \<le> n" using assms(5,6) fk by (simp_all add: resident_def)
  consider (cached) "live s k" "fs_freq (realBst s) k = f" "n + max 0 (cfg_R cfg - i) < int (depth (pcache s) k)"
    | (removed) "\<not> live s k" "f = timeStamp s" "n + max 0 (cfg_R cfg - i) < int (length (lru (pcache s)))"
    | (passed) "f < timeStamp s" "live s k \<longrightarrow> f < fs_freq (realBst s) k"
    using assms(6) unfolding resident_def by fastforce
  then show ?thesis
  proof cases
    case passed
    then show ?thesis using r fr new assms(5) by (cases "live s k") (auto simp: resident_def)
  next
    case cached
    show ?thesis
    proof (rule silent_cache [OF assms(1-5)])
      assume "pcache s' = pcache s" "live s' = live s" "i \<le> i'"
      then show ?thesis using r cached fr by (auto simp: resident_def)
    next
      fix k' old
      assume p: "i < cfg_R cfg" "i' = i + 1" "\<not> live s k'" "live s old"
        "lru (pcache s') = (k', V k') # filter (\<lambda>p. fst p \<noteq> old) (lru (pcache s))"
        "\<forall>j. live s' j \<longleftrightarrow> j = k' \<or> live s j \<and> (j = old \<longrightarrow> cache_find (pcache s) old = None)"
      note P = depth_put [OF c p(5)]
      have kk: "k \<noteq> k'" "cache_find (pcache s) k \<noteq> None" using cached p(1,3) r(5) depth_pos [of "pcache s" k] by auto
      show ?thesis
      proof (cases "k = old")
        case True
        then have "\<not> live s' k" using p(6) kk by auto
        then show ?thesis using r cached p(1,2) P(2) depth_le [of "pcache s" k] by (simp add: resident_def)
      next
        case False
        then have "live s' k" using p(6) cached(1) by blast
        then show ?thesis using r cached fr P(1) [OF False kk(1)] p(1,2) by (simp add: resident_def)
      qed
    qed
  next
    case removed
    show ?thesis
    proof (rule silent_cache [OF assms(1-5)])
      assume "pcache s' = pcache s" "live s' = live s" "i \<le> i'"
      then show ?thesis using r removed by (auto simp: resident_def)
    next
      fix k' old
      assume p: "i < cfg_R cfg" "i' = i + 1" "\<not> live s k'" "live s old"
        "lru (pcache s') = (k', V k') # filter (\<lambda>p. fst p \<noteq> old) (lru (pcache s))"
        "\<forall>j. live s' j \<longleftrightarrow> j = k' \<or> live s j \<and> (j = old \<longrightarrow> cache_find (pcache s) old = None)"
      note P = depth_put [OF c p(5)]
      show ?thesis
      proof (cases "k = k'")
        case True
        then have "live s' k" using p(6) by blast
        then show ?thesis using r removed new P(2,3) True p(1,2) by (simp add: resident_def)
      next
        case False
        then have "\<not> live s' k" using p(6) removed(1) by blast
        then show ?thesis using r removed P(2) p(1,2) by (simp add: resident_def)
      qed
    qed
  qed
qed

text \<open>What a batch and the PUTs before the next one may cost.\<close>

definition push_rate :: "config \<Rightarrow> int" where
  "push_rate cfg = cfg_B cfg - cfg_F cfg + cfg_R cfg"

lemma resident_batch:
  assumes "env_ok e g db K T" and "cfg_ok fuel cfg m U nf T" and "sys_inv K V e db T m cfg U g nf (i, rid, batch, misses, s)"
    and "timeStamp s < T" and "batch_post K V cfg e db s sk w s'" and "picks cfg e (map fst batch) s rs fk sk s'"
    and "resident K cfg k f n (i, rid, batch, misses, s)" and "push_rate cfg \<le> n"
  shows "resident K cfg k f (n - push_rate cfg) (0, rid, [], 0, s')" "loc e g k f \<notin> set (writeBatchKeys w)"
proof -
  note D = picksD [OF assms(6)]
  have I: "cinv 1 V batch s" "encryption_engine s = g" using assms(3) by (simp_all add: sys_inv_def)
  have p: "pinv K V e db s'" "\<forall>j. live s' j \<longleftrightarrow> live s j \<and> j \<notin> set (keys_to_be_deleted s)" "\<forall>j. fake s' j \<longleftrightarrow> fake s j"
    "timeStamp s' = timeStamp s + 1" using assms(5) by (simp_all add: batch_post_def)
  have cfg: "0 \<le> cfg_R cfg" "0 \<le> cfg_B cfg - cfg_F cfg" using assms(2) by (auto simp: cfg_ok_def)
  have r: "k \<in> K" "\<not> fake s' k" "0 \<le> f" "f \<le> timeStamp s" "0 \<le> n" using assms(7) p(3) by (simp_all add: resident_def)
  consider (cached) "live s k" "fs_freq (realBst s) k = f" "n < int (depth (pcache s) k)"
    | (removed) "\<not> live s k" | (passed) "f < timeStamp s" "live s k" "f < fs_freq (realBst s) k"
    using assms(7) unfolding resident_def by fastforce
  then have main: "live s' k \<and> fs_freq (realBst s') k = f \<and> n - (cfg_B cfg - cfg_F cfg) < int (depth (pcache s') k) \<or>
      (live s' k \<longrightarrow> f < fs_freq (realBst s') k)"
  proof cases
    case cached
    have ck: "cache_find (pcache s) k \<noteq> None" using cached(3) assms(8) cfg depth_pos [of "pcache s" k] by (simp add: push_rate_def)
    have n: "k \<notin> set (map fst batch @ rs)"
    proof
      assume "k \<in> set (map fst batch @ rs)"
      from D(6) [OF this] ck show False by simp
    qed
    then have "live s' k" using p(2) cached(1) cinvD(5) [OF I(1)] by auto
    moreover obtain inn out where io: "lru (pcache s') @ out = inn @ lru (pcache s)" "length out = length (map fst batch @ rs)"
        "map fst inn = filter (\<lambda>k. k \<notin> set (keys_to_be_deleted s)) (rev (map fst batch @ rs))" using D(12) by blast
    moreover have "k \<notin> set (map fst inn)" using io(3) n by simp
    then have "depth (pcache s) k \<le> depth (pcache s') k + nat (cfg_B cfg - cfg_F cfg)"
      using depth_batch(1) [OF io(1)] io(2) D(2) by simp
    ultimately show ?thesis using D(10) n cached cfg by auto
  next
    case removed
    then show ?thesis using p(2) by simp
  next
    case passed
    then show ?thesis using D(10) r(4) by auto
  qed
  then show "resident K cfg k f (n - push_rate cfg) (0, rid, [], 0, s')"
    using r p(4) cfg assms(8) by (auto simp: resident_def push_rate_def)
  show "loc e g k f \<notin> set (writeBatchKeys w)"
  proof
    assume "loc e g k f \<in> set (writeBatchKeys w)"
    then obtain j h where j: "loc e g k f = loc e g j h" "live s' j \<and> h = fs_freq (realBst s') j \<and> cache_find (pcache s') j = None \<or>
        fake s' j \<and> h = fs_freq (fakeBst s') j"
      using assms(5) I(2) by (fastforce simp: batch_post_def)
    have "j \<in> K" "0 \<le> h" "h \<le> T" using j(2) pinvD(10,12) [OF p(1), of j] p(4) assms(4) by auto
    then have "k = j" "f = h" using loc_inj [OF assms(1) r(1,3)] r(4) assms(4) j(1) by auto
    then show False using j(2) r(2) main depth_pos [of "pcache s'" k] assms(8) cfg by (auto simp: push_rate_def)
  qed
qed

text \<open>In a run of \<open>q\<close> batches a key with \<open>q\<close> times the cost to spare is not written.\<close>

lemma resident_run:
  assumes "lawful_run K V e db T m cfg U g nf fuel st tr st'" and "resident K cfg k f n st" and "push_rate cfg * int (length tr) \<le> n"
  shows "\<forall>x \<in> set tr. loc e g k f \<notin> set (snd x)"
proof -
  have rate: "0 \<le> push_rate cfg" using assms(1) by (auto simp: lawful_run_def cfg_ok_def push_rate_def)
  let ?P = "\<lambda>(tr :: (string list \<times> string list) list) st'. push_rate cfg * int (length tr) \<le> n \<longrightarrow>
    resident K cfg k f (n - push_rate cfg * int (length tr)) st' \<and> (\<forall>x \<in> set tr. loc e g k f \<notin> set (snd x))"
  have "?P tr st'"
  proof (rule lawful_run_induct [where P = ?P, OF assms(1)])
    show "?P [] st" using assms(2) by simp
  next
    fix tr st1 obs st2
    assume IH: "?P tr st1" and l: "lawful_step K V e db T m cfg U g nf fuel st1 obs st2"
    obtain i rid batch misses s i' rid' batch' misses' s' where
      st: "st1 = (i, rid, batch, misses, s)" "st2 = (i', rid', batch', misses', s')" by (metis prod_cases5)
    have L: "env_ok e g db K T" "cfg_ok fuel cfg m U nf T" "sys_inv K V e db T m cfg U g nf (i, rid, batch, misses, s)"
      and ob: "observed fuel cfg e K V m T st1 obs st2"
      using l by (simp_all add: lawful_step_def st)
    show "?P (tr @ obs) st2"
    proof
      assume b: "push_rate cfg * int (length (tr @ obs)) \<le> n"
      then have b': "push_rate cfg * int (length tr) + push_rate cfg * int (length obs) \<le> n" by (simp add: algebra_simps)
      moreover have "0 \<le> push_rate cfg * int (length obs)" using rate by simp
      ultimately have R: "resident K cfg k f (n - push_rate cfg * int (length tr)) st1" "\<forall>x \<in> set tr. loc e g k f \<notin> set (snd x)"
        using IH by auto
      from ob show "resident K cfg k f (n - push_rate cfg * int (length (tr @ obs))) st2 \<and> (\<forall>x \<in> set (tr @ obs). loc e g k f \<notin> set (snd x))"
      proof cases
        case quiet
        then show ?thesis using resident_silent [OF L _ _ R(1) [unfolded st]] R(2) st by simp
      next
        case (exchange _ _ _ sk w)
        then have x: "timeStamp s < T" "answerable (e_float e) V (request_map (runningKeys s))"
          "consumer_round fuel cfg e batch s = Inr (sk, w, s')" using st by auto
        obtain rs fk where p: "batch_post K V cfg e db s sk w s'" "picks cfg e (map fst batch) s rs fk sk s'"
          using sys_round [OF L x(1,2)] x(3) by auto
        have "push_rate cfg \<le> n - push_rate cfg * int (length tr)" using b' exchange by simp
        from resident_batch [OF L x(1) p R(1) [unfolded st] this]
        show ?thesis using R(2) exchange st by (auto simp: algebra_simps)
      qed
    qed
  qed
  then show ?thesis using assms(3) by blast
qed

text \<open>A key that a batch has read, and that it has not deleted, is that deep afterwards.\<close>

lemma resident_read:
  assumes "env_ok e g db K T" and "sys_inv K V e db T m cfg U g nf (i, rid, batch, misses, s)"
    and "batch_post K V cfg e db s sk w s'" and "picks cfg e (map fst batch) s rs fk sk s'" and "cfg_ok fuel cfg m U nf T"
    and "k \<in> set (map fst batch @ rs)" and "live s' k" and "0 \<le> n" and "n + push_rate cfg \<le> int (length (lru (pcache s)))"
  shows "resident K cfg k (timeStamp s + 1) n (0, rid, [], 0, s')"
proof -
  note D = picksD [OF assms(4)]
  have p: "pinv K V e db s'" "\<forall>j. live s' j \<longleftrightarrow> live s j \<and> j \<notin> set (keys_to_be_deleted s)" "timeStamp s' = timeStamp s + 1"
    using assms(3) by (simp_all add: batch_post_def)
  have cfg: "0 \<le> cfg_R cfg" "0 \<le> cfg_B cfg - cfg_F cfg" using assms(5) by (auto simp: cfg_ok_def)
  obtain inn out where io: "lru (pcache s') @ out = inn @ lru (pcache s)" "length out = length (map fst batch @ rs)"
    "map fst inn = filter (\<lambda>k. k \<notin> set (keys_to_be_deleted s)) (rev (map fst batch @ rs))" using D(12) by blast
  have "k \<in> set (map fst inn)" using io(3) assms(6,7) p(2) by auto
  then have "Suc (length (lru (pcache s))) \<le> depth (pcache s') k + nat (cfg_B cfg - cfg_F cfg)"
    using depth_batch(2) [OF io(1)] io(2) D(2) by simp
  moreover have "fs_freq (realBst s') k = timeStamp s + 1" using D(10) [OF assms(7)] assms(6) by simp
  moreover have "k \<in> K" "0 \<le> fs_freq (realBst s') k" using pinvD(10) [OF p(1) assms(7)] by simp_all
  moreover have "\<not> fake s' k" using not_live_fake [OF p(1) assms(7)] by blast
  ultimately show ?thesis using assms(7-9) p(3) cfg by (simp add: resident_def push_rate_def)
qed

text \<open>Only the keys of a batch are read at their current location.\<close>

lemma read_key_picked:
  assumes "env_ok e g db K T" and "pinv K V e db s" and "encryption_engine s = g" and "timeStamp s \<le> T"
    and "picks cfg e ops s rs fk sk s'" and "live s k" and "loc e g k (fs_freq (realBst s) k) \<in> set sk"
  shows "k \<in> set (ops @ rs)"
proof -
  note D = picksD [OF assms(5)]
  have b: "live s j \<Longrightarrow> j \<in> K \<and> 0 \<le> fs_freq (realBst s) j \<and> fs_freq (realBst s) j \<le> T"
    "fake s j \<Longrightarrow> j \<in> K \<and> 0 \<le> fs_freq (fakeBst s) j \<and> fs_freq (fakeBst s) j \<le> T" for j
    using pinvD(10,12) [OF assms(2), of j] assms(4) by auto
  from assms(7) [unfolded D(1) assms(3)] consider j where "j \<in> set (ops @ rs)" "loc e g k (fs_freq (realBst s) k) = loc e g j (fs_freq (realBst s) j)"
    | j where "j \<in> set fk" "loc e g k (fs_freq (realBst s) k) = loc e g j (fs_freq (fakeBst s) j)" by auto
  then show ?thesis
  proof cases
    case 1
    then show ?thesis using loc_inj [OF assms(1)] b(1) [OF assms(6)] b(1) [of j] D(6) [OF 1(1)] by auto
  next
    case 2
    then show ?thesis using loc_inj [OF assms(1)] b(1) [OF assms(6)] b(2) [of j] D(7) [OF 2(1)] not_live_fake [OF assms(2,6)] by auto
  qed
qed

lemma resident_cached:
  assumes "resident K cfg k f n (i, rid, batch, misses, s)" and "live s k" and "f = timeStamp s"
  shows "cache_find (pcache s) k \<noteq> None"
  using assms depth_pos [of "pcache s" k] by (auto simp: resident_def)

text \<open>What is cached after a batch has not been written by it.\<close>

lemma cached_not_written:
  assumes "env_ok e g db K T" and "sys_inv K V e db T m cfg U g nf (i, rid, batch, misses, s)" and "timeStamp s < T"
    and "batch_post K V cfg e db s sk w s'" and "live s' k" and "cache_find (pcache s') k \<noteq> None" and "fs_freq (realBst s') k = f"
  shows "loc e g k f \<notin> set (writeBatchKeys w)"
proof
  assume "loc e g k f \<in> set (writeBatchKeys w)"
  then obtain j h where j: "loc e g k f = loc e g j h" "live s' j \<and> h = fs_freq (realBst s') j \<and> cache_find (pcache s') j = None \<or>
      fake s' j \<and> h = fs_freq (fakeBst s') j"
    using assms(2,4) by (fastforce simp: batch_post_def sys_inv_def)
  have p: "pinv K V e db s'" "timeStamp s' \<le> T" using assms(3,4) by (simp_all add: batch_post_def)
  have "j \<in> K" "0 \<le> h" "h \<le> T" "k \<in> K" "0 \<le> f" "f \<le> T"
    using j(2) pinvD(10,12) [OF p(1), of j] pinvD(10) [OF p(1) assms(5)] p(2) assms(7) by auto
  then have "k = j" "f = h" using loc_inj [OF assms(1)] j(1) by auto
  then show False using j(2) assms(6) not_live_fake [OF p(1) assms(5)] by auto
qed

end
