(* ===== verification/Proxy_Log.thy ===== *)
theory Proxy_Log
  imports Proxy_System
begin

text \<open>
  The recording of \<open>alpha\<close> (\<open>waffle_proxy::execute_batch\<close> with \<open>recording_alpha\<close>): for every key of a batch a
  line with the number of batches since the key was last used goes to the log file.  The definitions here are
  \<open>choose_batch\<close> and its loops with the recording in place; recording does not change what the batch does.
\<close>

subsection \<open>The loops with the recording\<close>

text \<open>\<open>file << tag << timeStamp - previousTimeStamp\<close>, in \<open>int\<close>.\<close>

definition alpha_line :: "string \<Rightarrow> int \<Rightarrow> int \<Rightarrow> string res" where
  "alpha_line tag ts previousTimeStamp = bindR (add32 ts (- previousTimeStamp)) (\<lambda>alpha. Inr (tag @ to_string alpha))"

definition record_key :: "bool \<Rightarrow> string \<Rightarrow> int \<Rightarrow> string \<Rightarrow> string list \<times> freq \<Rightarrow> (string list \<times> freq) res" where
  "record_key recording_alpha tag ts key st =
     (let (logf, b) = st in
      if recording_alpha then
        let (previousTimeStamp, b1) = fs_getFrequency key b in
        bindR (alpha_line tag ts previousTimeStamp) (\<lambda>l. Inr (logf @ [l], b1))
      else Inr (logf, b))"

definition read_key_rec ::
  "bool \<Rightarrow> string \<Rightarrow> (string \<Rightarrow> string) \<Rightarrow> int \<Rightarrow> string \<Rightarrow> string list \<times> freq \<times> string list \<times> (string, string) umap \<Rightarrow>
   (string list \<times> freq \<times> string list \<times> (string, string) umap) res" where
  "read_key_rec recording_alpha tag P ts key st =
     (let (logf, b, storage_keys, readBatchMap) = st in
      bindR (record_key recording_alpha tag ts key (logf, b)) (\<lambda>(file1, b1).
      Inr (file1, read_key P ts key (b1, storage_keys, readBatchMap))))"

text \<open>A fake key is recorded whenever it is the least recently used one, even when it is skipped.\<close>

fun fake_loop_rec ::
  "bool \<Rightarrow> (string \<Rightarrow> string) \<Rightarrow> int \<Rightarrow> nat \<Rightarrow> nat \<Rightarrow> running \<Rightarrow> string list \<times> freq \<times> string list \<times> (string, string) umap \<Rightarrow>
   (running \<times> string list \<times> freq \<times> string list \<times> (string, string) umap) res" where
  "fake_loop_rec recording_alpha P ts fuel 0 rk st = Inr (rk, st)"
| "fake_loop_rec recording_alpha P ts 0 (Suc n) rk st = Inl Out_of_fuel"
| "fake_loop_rec recording_alpha P ts (Suc fuel) (Suc n) rk (logf, st) =
     bindR (if recording_alpha then
              bindR (fs_getKeyWithMinFrequencyRecordingAlpha (fst st)) (\<lambda>previousTimeStamp.
              bindR (alpha_line ''FAKE: '' ts previousTimeStamp) (\<lambda>l. Inr (logf @ [l])))
            else Inr logf) (\<lambda>file1.
     bindR (fs_getKeyWithMinFrequency (fst st)) (\<lambda>fakeMinKey.
       let (isPresentInRunningKeys, rk1) = insertIfNotPresent fakeMinKey rk in
       if isPresentInRunningKeys then fake_loop_rec recording_alpha P ts fuel (Suc n) rk1 (file1, st)
       else fake_loop_rec recording_alpha P ts fuel n rk1 (file1, read_key P ts fakeMinKey st)))"

definition choose_batch_rec ::
  "bool \<Rightarrow> nat \<Rightarrow> config \<Rightarrow> ('srv, 'ctx) env \<Rightarrow> operation list \<Rightarrow> 'srv proxy \<Rightarrow>
   (string list \<times> nat \<times> string list \<times> (string, string) umap \<times> 'srv proxy) res" where
  "choose_batch_rec recording_alpha fuel cfg e operations s =
     (let ts = wrap32 (timeStamp s + 1);
          P = eng_prf (e_evp e) (encryption_engine s)
      in bindR (foldR (\<lambda>opn. read_key_rec recording_alpha ''REAL: '' P ts (fst opn)) operations ([], realBst s, [], [])) (\<lambda>(file1, rb1, sk1, rm1).
         bindR (select_real (pcache s) (EvictedItems s) (real_wanted cfg (length operations)) (accessTree rb1)
                  (runningKeys s) []) (\<lambda>(realKeysNotInCache, rk1).
         bindR (foldR (read_key_rec recording_alpha ''FAKEREAL: '' P ts) realKeysNotInCache (file1, rb1, sk1, rm1)) (\<lambda>(file2, rb2, sk2, rm2).
         bindR (fake_loop_rec recording_alpha P ts fuel (nat (cfg_F cfg)) rk1 (file2, fakeBst s, sk2, rm2)) (\<lambda>(rk2, file3, fb, sk3, rm3).
         Inr (file3, length operations + length realKeysNotInCache, sk3, rm3,
              s\<lparr>timeStamp := ts, realBst := rb2, fakeBst := fb, runningKeys := rk2\<rparr>))))))"

definition execute_batch_rec ::
  "bool \<Rightarrow> nat \<Rightarrow> config \<Rightarrow> ('srv, 'ctx) env \<Rightarrow> operation list \<Rightarrow> 'srv proxy \<Rightarrow> (string list \<times> string list \<times> writes \<times> 'srv proxy) res" where
  "execute_batch_rec recording_alpha fuel cfg e operations s =
     bindR (choose_batch_rec recording_alpha fuel cfg e operations s) (\<lambda>(logf, chosen).
     bindR (exchange_batch cfg e chosen) (\<lambda>r. Inr (logf, r)))"

definition consumer_round_rec ::
  "bool \<Rightarrow> nat \<Rightarrow> config \<Rightarrow> ('srv, 'ctx) env \<Rightarrow> operation list \<Rightarrow> 'srv proxy \<Rightarrow> (string list \<times> string list \<times> writes \<times> 'srv proxy) res" where
  "consumer_round_rec recording_alpha fuel cfg e storage_batch s =
     bindR (tryClearAllPromises (e_req_order e) (e_float e) (runningKeys s, promises s)) (\<lambda>(rk, ps).
     execute_batch_rec recording_alpha fuel cfg e storage_batch (s\<lparr>runningKeys := rk, promises := ps\<rparr>))"

subsection \<open>Without the recording\<close>

lemma read_keys_silent: "foldR (read_key_rec False tag P ts) ks (logf, st) = Inr (logf, fold (read_key P ts) ks st)"
proof (induction ks arbitrary: st)
  case (Cons k ks)
  then show ?case by (cases st) (simp add: read_key_rec_def record_key_def)
qed simp

lemma fake_loop_silent:
  "fake_loop_rec False P ts fuel n rk (logf, st) = bindR (fake_loop P ts fuel n rk st) (\<lambda>(rk', st'). Inr (rk', logf, st'))"
proof (induction fuel arbitrary: n rk st)
  case 0
  then show ?case by (cases n) simp_all
next
  case (Suc fuel)
  show ?case
  proof (cases n)
    case (Suc m)
    then show ?thesis
      by (cases "fs_getKeyWithMinFrequency (fst st)") (simp_all add: Suc.IH split: prod.split)
  qed simp
qed

text \<open>With the flag off nothing is recorded and the round is the plain one, whatever the state.\<close>

lemma consumer_round_silent:
  "consumer_round_rec False fuel cfg e batch s = bindR (consumer_round fuel cfg e batch s) (\<lambda>r. Inr ([], r))"
proof -
  have c: "choose_batch_rec False fuel cfg e operations t = bindR (choose_batch fuel cfg e operations t) (\<lambda>r. Inr ([], r))"
    for operations and t :: "'a proxy"
  proof -
    have o: "foldR (\<lambda>opn. read_key_rec False tag P ts (fst opn)) operations (logf, st) = Inr (logf, fold (\<lambda>opn. read_key P ts (fst opn)) operations st)"
      for tag P ts logf st
      using read_keys_silent [of tag P ts "map fst operations" logf st] by (simp add: foldR_map fold_map o_def)
    let ?P = "eng_prf (e_evp e) (encryption_engine t)" and ?ts = "wrap32 (timeStamp t + 1)"
    obtain rb1 sk1 rm1 where 1: "fold (\<lambda>opn. read_key ?P ?ts (fst opn)) operations (realBst t, [], []) = (rb1, sk1, rm1)"
      by (metis prod_cases3)
    show ?thesis
    proof (cases "select_real (pcache t) (EvictedItems t) (real_wanted cfg (length operations)) (accessTree rb1) (runningKeys t) []")
      case (Inl x)
      then show ?thesis using 1 by (simp add: choose_batch_rec_def choose_batch_def o)
    next
      case (Inr x)
      obtain ks rk1 where x: "x = (ks, rk1)" by fastforce
      obtain rb2 sk2 rm2 where 2: "fold (read_key ?P ?ts) ks (rb1, sk1, rm1) = (rb2, sk2, rm2)" by (metis prod_cases3)
      show ?thesis
        using 1 2 Inr x by (simp add: choose_batch_rec_def choose_batch_def o read_keys_silent fake_loop_silent bindR_assoc split_def Let_def)
    qed
  qed
  show ?thesis
    unfolding consumer_round_rec_def consumer_round_def execute_batch_rec_def execute_batch_def c
    by (simp add: bindR_assoc split_def)
qed

subsection \<open>With the recording\<close>

text \<open>The text of a line: how many batches ago the key was last used.\<close>

definition entry :: "string \<Rightarrow> int \<Rightarrow> int \<Rightarrow> string" where
  "entry tag ts f = tag @ to_string (ts - f)"

lemma alpha_line_ok:
  assumes "0 \<le> f" and "f \<le> ts" and "fits32 ts"
  shows "alpha_line tag ts f = Inr (entry tag ts f)"
  using assms by (simp add: entry_def alpha_line_def add32_def fits32_def int_min_def)

lemma read_keys_recorded:
  assumes "fs_inv b" and "distinct ks" and "\<forall>k \<in> set ks. um_has (accessFreqs b) k \<and> 0 \<le> fs_freq b k \<and> fs_freq b k \<le> ts" and "fits32 ts"
  shows "foldR (read_key_rec True tag P ts) ks (logf, b, sk, rm) =
    Inr (logf @ map (\<lambda>k. entry tag ts (fs_freq b k)) ks, fold (read_key P ts) ks (b, sk, rm))"
  using assms(1-3)
proof (induction ks arbitrary: b logf sk rm)
  case (Cons k ks)
  let ?b = "fs_setFrequency k ts b"
  have fr: "fs_freq ?b j = fs_freq b j" if "j \<in> set ks" for j using Cons.prems(2) that by auto
  obtain sk' rm' where rk: "read_key P ts k (b, sk, rm) = (?b, sk', rm')" using Cons.prems(3) by (simp add: read_key_def Let_def)
  have "record_key True tag ts k (logf, b) = Inr (logf @ [entry tag ts (fs_freq b k)], b)"
    using Cons.prems(3) alpha_line_ok assms(4) by (simp add: record_key_def)
  then have one: "read_key_rec True tag P ts k (logf, b, sk, rm) = Inr (logf @ [entry tag ts (fs_freq b k)], ?b, sk', rm')"
    using rk by (simp add: read_key_rec_def)
  have "foldR (read_key_rec True tag P ts) ks (logf @ [entry tag ts (fs_freq b k)], ?b, sk', rm') =
    Inr ((logf @ [entry tag ts (fs_freq b k)]) @ map (\<lambda>k. entry tag ts (fs_freq ?b k)) ks, fold (read_key P ts) ks (?b, sk', rm'))"
    by (rule Cons.IH) (use Cons.prems fs_setFrequency_inv fr in auto)
  moreover have "map (\<lambda>k. entry tag ts (fs_freq ?b k)) ks = map (\<lambda>k. entry tag ts (fs_freq b k)) ks"
    using fr by simp
  ultimately show ?case using one rk by (simp del: fs_setFrequency_simps)
qed simp

lemma fake_loop_recorded:
  assumes "pick_min fs_getKeyWithMinFrequency fs_setFrequency ts n b = Inr (ks, b')"
    and "fs_inv b" and "distinct ks" and "n \<le> fuel" and "fits32 ts"
    and "\<forall>k \<in> set ks. um_has (accessFreqs b) k \<and> \<not> rk_present rk k \<and> 0 \<le> fs_freq b k \<and> fs_freq b k \<le> ts"
  shows "fake_loop_rec True P ts fuel n rk (logf, b, sk, rm) =
    bindR (fake_loop P ts fuel n rk (b, sk, rm)) (\<lambda>(rk', st'). Inr (rk', logf @ map (\<lambda>k. entry ''FAKE: '' ts (fs_freq b k)) ks, st'))"
  using assms
proof (induction n arbitrary: b ks rk fuel logf sk rm)
  case 0
  then show ?case by auto
next
  case (Suc n)
  then obtain fuel' where fuel: "fuel = Suc fuel'" "n \<le> fuel'" by (cases fuel) auto
  from Suc.prems(1) obtain k ks1 where k: "fs_getKeyWithMinFrequency b = Inr k" "ks = k # ks1"
    "pick_min fs_getKeyWithMinFrequency fs_setFrequency ts n (fs_setFrequency k ts b) = Inr (ks1, b')"
    by (auto simp: res_simps)
  let ?b = "fs_setFrequency k ts b"
  have mf: "fs_getKeyWithMinFrequencyRecordingAlpha b = Inr (fs_freq b k)"
  proof -
    obtain f t where "accessTree b = (k, f) # t"
      using k(1) by (auto simp: fs_getKeyWithMinFrequency_def split: list.splits)
    then have "um_find (accessFreqs b) k = Some f" using fs_invD(3) [OF Suc.prems(2), of k f] by simp
    then show ?thesis using \<open>accessTree b = (k, f) # t\<close> by (simp add: fs_getKeyWithMinFrequencyRecordingAlpha_def fs_freq_find)
  qed
  have al: "alpha_line ''FAKE: '' ts (fs_freq b k) = Inr (entry ''FAKE: '' ts (fs_freq b k))"
    using Suc.prems(5,6) k(2) by (intro alpha_line_ok) auto
  obtain p rk1 where i: "insertIfNotPresent k rk = (p, rk1)" by fastforce
  note F = insertIfNotPresent_facts [OF i]
  have np: "\<not> p" using F(1) Suc.prems(6) k(2) by simp
  obtain sk1 rm1 where rd: "read_key P ts k (b, sk, rm) = (?b, sk1, rm1)"
    using Suc.prems(6) k(2) by (simp add: read_key_def Let_def)
  have fr: "fs_freq ?b j = fs_freq b j" if "j \<in> set ks1" for j using Suc.prems(3) k(2) that by auto
  have pre: "\<forall>j \<in> set ks1. um_has (accessFreqs ?b) j \<and> \<not> rk_present rk1 j \<and> 0 \<le> fs_freq ?b j \<and> fs_freq ?b j \<le> ts"
    using Suc.prems(3,6) k(2) F(3) fr by auto
  have ds: "distinct ks1" using Suc.prems(3) k(2) by simp
  have eq: "map (\<lambda>k. entry ''FAKE: '' ts (fs_freq ?b k)) ks1 = map (\<lambda>k. entry ''FAKE: '' ts (fs_freq b k)) ks1"
    using fr by simp
  note IH = Suc.IH [OF k(3) fs_setFrequency_inv [OF Suc.prems(2)] ds fuel(2) Suc.prems(5) pre,
        of "logf @ [entry ''FAKE: '' ts (fs_freq b k)]" sk1 rm1, unfolded eq]
  then show ?case
    using mf al k(1,2) i np rd fuel(1)
    by (simp del: fs_setFrequency_simps)
qed

text \<open>The choice of a batch, recorded: the same choice, and a line for every key of it.\<close>

lemma choose_batch_recorded:
  assumes "batch_pre fuel cfg (map fst operations) s" and "0 \<le> timeStamp s"
    and "\<forall>k. live s k \<longrightarrow> 0 \<le> fs_freq (realBst s) k \<and> fs_freq (realBst s) k \<le> timeStamp s"
    and "\<forall>k. fake s k \<longrightarrow> 0 \<le> fs_freq (fakeBst s) k \<and> fs_freq (fakeBst s) k \<le> timeStamp s"
  obtains rs fk n rm s' where
    "choose_batch fuel cfg e operations s = Inr (n, map (\<lambda>k. loc e (encryption_engine s) k (fs_freq (realBst s) k)) (map fst operations @ rs) @
       map (\<lambda>k. loc e (encryption_engine s) k (fs_freq (fakeBst s) k)) fk, rm, s')"
    "choose_batch_rec True fuel cfg e operations s =
       Inr (map (\<lambda>k. entry ''REAL: '' (timeStamp s + 1) (fs_freq (realBst s) k)) (map fst operations) @
            map (\<lambda>k. entry ''FAKEREAL: '' (timeStamp s + 1) (fs_freq (realBst s) k)) rs @
            map (\<lambda>k. entry ''FAKE: '' (timeStamp s + 1) (fs_freq (fakeBst s) k)) fk,
            n, map (\<lambda>k. loc e (encryption_engine s) k (fs_freq (realBst s) k)) (map fst operations @ rs) @
       map (\<lambda>k. loc e (encryption_engine s) k (fs_freq (fakeBst s) k)) fk, rm, s')"
    "\<forall>k \<in> set (map fst operations @ rs). live s k" "\<forall>k \<in> set fk. fake s k" "length (map fst operations @ rs) = nat (cfg_B cfg - cfg_F cfg)"
    "length fk = nat (cfg_F cfg)"
proof -
  note D = batch_preD [OF assms(1)]
  let ?ops = "map fst operations" and ?ts = "timeStamp s + 1" and ?g = "encryption_engine s"
  let ?P = "eng_prf (e_evp e) ?g"
  let ?LR = "\<lambda>k. loc e ?g k (fs_freq (realBst s) k)" and ?LF = "\<lambda>k. loc e ?g k (fs_freq (fakeBst s) k)"
  let ?rb = "\<lambda>ks. fold (\<lambda>k. fs_setFrequency k ?ts) ks (realBst s)"
  have w: "wrap32 ?ts = ?ts" using D(15) by simp
  obtain rs rk1 where
    sel: "select_real (pcache s) (EvictedItems s) (real_wanted cfg (length ?ops)) (accessTree (?rb ?ops)) (runningKeys s) [] = Inr (rs, rk1)"
    and rs: "length ?ops + length rs = nat (cfg_B cfg - cfg_F cfg)" "distinct (?ops @ rs)"
      "\<forall>k \<in> set rs. live s k \<and> \<not> Cache_checkIfKeyExists (pcache s) k"
    and rk1: "\<forall>k. rk_present rk1 k \<longleftrightarrow> k \<in> set ?ops \<or> k \<in> set rs"
    by (rule select_real_batch [where ts = ?ts, OF assms(1) refl])
  obtain fk fb where
    fk: "pick_min fs_getKeyWithMinFrequency fs_setFrequency ?ts (nat (cfg_F cfg)) (fakeBst s) = Inr (fk, fb)"
      "length fk = nat (cfg_F cfg)" "distinct fk" "\<forall>k \<in> set fk. fake s k"
    by (rule pick_fakes [OF assms(1) refl])
  have lv: "\<forall>k \<in> set (?ops @ rs). live s k" using rs(3) D(5) by auto
  have bnd: "\<forall>k \<in> set ks. um_has (accessFreqs (realBst s)) k \<and> 0 \<le> fs_freq (realBst s) k \<and> fs_freq (realBst s) k \<le> ?ts"
    if "\<forall>k \<in> set ks. live s k" for ks using assms(3) that by (fastforce simp: live_def)
  have rd: "fold (read_key ?P ?ts) ks (realBst s, [], []) = (?rb ks, map ?LR ks, fold (\<lambda>k. um_set (?LR k) k) ks [])"
    if "distinct ks" "\<forall>k \<in> set ks. live s k" for ks
    using read_keys [OF D(1) that(1), of ?LR ?P ?ts "[]" "[]"] that(2) by (simp add: live_def loc_def)
  let ?rm1 = "fold (\<lambda>k. um_set (?LR k) k) ?ops []" and ?rm2 = "fold (\<lambda>k. um_set (?LR k) k) (?ops @ rs) []"
  have lo: "\<forall>k \<in> set ?ops. live s k" using lv by auto
  have r1: "fold (read_key ?P ?ts) ?ops (realBst s, [], []) = (?rb ?ops, map ?LR ?ops, ?rm1)" using rd [OF D(4) lo] .
  have r2: "fold (read_key ?P ?ts) rs (?rb ?ops, map ?LR ?ops, ?rm1) = (?rb (?ops @ rs), map ?LR (?ops @ rs), ?rm2)"
    using rd [OF rs(2) lv] r1 by (simp only: fold_append o_apply)
  let ?l1 = "map (\<lambda>k. entry ''REAL: '' ?ts (fs_freq (realBst s) k)) ?ops"
  let ?l2 = "map (\<lambda>k. entry ''FAKEREAL: '' ?ts (fs_freq (realBst s) k)) rs"
  have q1: "foldR (\<lambda>opn. read_key_rec True ''REAL: '' ?P ?ts (fst opn)) operations ([], realBst s, [], []) = Inr (?l1, ?rb ?ops, map ?LR ?ops, ?rm1)"
    using read_keys_recorded [OF D(1,4) bnd [OF lo] D(15), of "''REAL: ''" ?P "[]" "[]" "[]"] r1 by (simp add: foldR_map)
  have fr: "fs_freq (?rb ?ops) k = fs_freq (realBst s) k" if "k \<in> set rs" for k
    using fold_setFrequency_freq(1) [OF D(1)] rs(2) that by auto
  have "set ?ops \<subseteq> Collect (um_has (accessFreqs (realBst s)))" using lo by (auto simp: live_def)
  then have bnd2: "\<forall>k \<in> set rs. um_has (accessFreqs (?rb ?ops)) k \<and> 0 \<le> fs_freq (?rb ?ops) k \<and> fs_freq (?rb ?ops) k \<le> ?ts"
    using bnd [of rs] rs(3) fr fold_setFrequency_freq(2) [OF D(1)] by simp
  have ds: "distinct rs" using rs(2) by simp
  have "map (\<lambda>k. entry ''FAKEREAL: '' ?ts (fs_freq (?rb ?ops) k)) rs = ?l2" using fr by simp
  then have q2: "foldR (read_key_rec True ''FAKEREAL: '' ?P ?ts) rs (?l1, ?rb ?ops, map ?LR ?ops, ?rm1) =
      Inr (?l1 @ ?l2, ?rb (?ops @ rs), map ?LR (?ops @ rs), ?rm2)"
    using read_keys_recorded [OF fold_setFrequency_facts(1) [OF D(1)] ds bnd2 D(15), of "''FAKEREAL: ''" ?P ?l1 "map ?LR ?ops" ?rm1] r2
    by (simp only:)
  have nfk: "\<forall>k \<in> set fk. um_has (accessFreqs (fakeBst s)) k \<and> \<not> rk_present rk1 k"
    using fk(4) rk1 lv D(3) by (auto simp: fake_def)
  then have nfk': "\<forall>k \<in> set fk. um_has (accessFreqs (fakeBst s)) k \<and> \<not> rk_present rk1 k \<and> 0 \<le> fs_freq (fakeBst s) k \<and> fs_freq (fakeBst s) k \<le> ?ts"
    using assms(4) fk(4) by fastforce
  obtain rk2 where rk2: "fake_loop ?P ?ts fuel (nat (cfg_F cfg)) rk1 (fakeBst s, map ?LR (?ops @ rs), ?rm2) =
      Inr (rk2, fold (read_key ?P ?ts) fk (fakeBst s, map ?LR (?ops @ rs), ?rm2))"
    using fake_loop_pick [OF fk(1) D(2) fk(3) nfk D(14)] by blast
  obtain fb' rm3 where rd3: "fold (read_key ?P ?ts) fk (fakeBst s, map ?LR (?ops @ rs), ?rm2) = (fb', map ?LR (?ops @ rs) @ map ?LF fk, rm3)"
    using read_keys [OF D(2) fk(3), of ?LF ?P ?ts] fk(4) by (simp add: fake_def loc_def)
  note q3 = fake_loop_recorded [OF fk(1) D(2) fk(3) D(14,15) nfk', of ?P "?l1 @ ?l2" "map ?LR (?ops @ rs)" ?rm2, unfolded rk2 rd3]
  have o1: "fold (\<lambda>opn. read_key ?P ?ts (fst opn)) operations (realBst s, [], []) = (?rb ?ops, map ?LR ?ops, ?rm1)"
    using r1 by (simp add: fold_map o_def)
  have ln: "length ?ops = length operations" by simp
  have "choose_batch fuel cfg e operations s = Inr (length operations + length rs, map ?LR (?ops @ rs) @ map ?LF fk, rm3,
      s\<lparr>timeStamp := ?ts, realBst := ?rb (?ops @ rs), fakeBst := fb', runningKeys := rk2\<rparr>)"
    unfolding choose_batch_def Let_def w o1 using sel [unfolded ln] r2 rk2 rd3 by (simp only: prod.case bindR_Inr)
  moreover have "choose_batch_rec True fuel cfg e operations s = Inr (?l1 @ ?l2 @ map (\<lambda>k. entry ''FAKE: '' ?ts (fs_freq (fakeBst s) k)) fk,
      length operations + length rs, map ?LR (?ops @ rs) @ map ?LF fk, rm3,
      s\<lparr>timeStamp := ?ts, realBst := ?rb (?ops @ rs), fakeBst := fb', runningKeys := rk2\<rparr>)"
    unfolding choose_batch_rec_def Let_def w q1 using sel [unfolded ln] q2 q3 by (simp only: prod.case bindR_Inr append_assoc)
  ultimately show ?thesis using that [OF _ _ lv fk(4) _ fk(2)] rs(1) by simp
qed

lemma exchange_batch_keys: "exchange_batch cfg e (n, sk0, rm, s1) = Inr (sk, w, s') \<Longrightarrow> sk = sk0"
  by (auto simp: exchange_batch_def Let_def split_def bindR_eq_Inr split: if_splits)

text \<open>A recorded round is the plain round with the lines of its batch.\<close>

lemma consumer_round_recorded:
  assumes "env_ok e (encryption_engine s) db K T" and "pinv K V e db s" and "cinv 1 V batch s" and "sized fuel cfg (length batch) s"
    and "timeStamp s < T" and "answerable (e_float e) V (request_map (runningKeys s))"
    and "consumer_round fuel cfg e batch s = Inr (sk, w, s')"
  obtains rs fk where "sk = map (\<lambda>k. loc e (encryption_engine s) k (fs_freq (realBst s) k)) (map fst batch @ rs) @
       map (\<lambda>k. loc e (encryption_engine s) k (fs_freq (fakeBst s) k)) fk"
    "consumer_round_rec True fuel cfg e batch s =
       Inr (map (\<lambda>k. entry ''REAL: '' (timeStamp s + 1) (fs_freq (realBst s) k)) (map fst batch) @
            map (\<lambda>k. entry ''FAKEREAL: '' (timeStamp s + 1) (fs_freq (realBst s) k)) rs @
            map (\<lambda>k. entry ''FAKE: '' (timeStamp s + 1) (fs_freq (fakeBst s) k)) fk, sk, w, s')"
    "\<forall>k \<in> set (map fst batch @ rs). live s k" "\<forall>k \<in> set fk. fake s k" "length (map fst batch @ rs) = nat (cfg_B cfg - cfg_F cfg)"
    "length fk = nat (cfg_F cfg)"
proof -
  note D = pinvD [OF assms(2)]
  obtain r ps where t: "tryClearAllPromises (e_req_order e) (e_float e) (runningKeys s, promises s) = Inr (r, ps)"
    and bp: "batch_pre fuel cfg (map fst batch) (s\<lparr>runningKeys := r, promises := ps\<rparr>)"
    by (rule round_ready [OF assms(1-6)])
  let ?s = "s\<lparr>runningKeys := r, promises := ps\<rparr>"
  have lf: "live ?s = live s" "fake ?s = fake s" by (simp_all add: live_def fake_def fun_eq_iff)
  obtain rs fk n rm s1 where c: "choose_batch fuel cfg e batch ?s = Inr (n, map (\<lambda>k. loc e (encryption_engine s) k (fs_freq (realBst s) k)) (map fst batch @ rs) @
       map (\<lambda>k. loc e (encryption_engine s) k (fs_freq (fakeBst s) k)) fk, rm, s1)"
    "choose_batch_rec True fuel cfg e batch ?s =
       Inr (map (\<lambda>k. entry ''REAL: '' (timeStamp s + 1) (fs_freq (realBst s) k)) (map fst batch) @
            map (\<lambda>k. entry ''FAKEREAL: '' (timeStamp s + 1) (fs_freq (realBst s) k)) rs @
            map (\<lambda>k. entry ''FAKE: '' (timeStamp s + 1) (fs_freq (fakeBst s) k)) fk,
            n, map (\<lambda>k. loc e (encryption_engine s) k (fs_freq (realBst s) k)) (map fst batch @ rs) @
       map (\<lambda>k. loc e (encryption_engine s) k (fs_freq (fakeBst s) k)) fk, rm, s1)"
    "\<forall>k \<in> set (map fst batch @ rs). live s k" "\<forall>k \<in> set fk. fake s k" "length (map fst batch @ rs) = nat (cfg_B cfg - cfg_F cfg)"
    "length fk = nat (cfg_F cfg)"
    by (rule choose_batch_recorded [OF bp, of e, simplified proxy.simps, unfolded lf]) (use D(2,10,12) in auto)
  have x: "exchange_batch cfg e (n, map (\<lambda>k. loc e (encryption_engine s) k (fs_freq (realBst s) k)) (map fst batch @ rs) @
       map (\<lambda>k. loc e (encryption_engine s) k (fs_freq (fakeBst s) k)) fk, rm, s1) = Inr (sk, w, s')"
    using assms(7) t c(1) by (simp add: consumer_round_def execute_batch_def)
  then have sk: "sk = map (\<lambda>k. loc e (encryption_engine s) k (fs_freq (realBst s) k)) (map fst batch @ rs) @
       map (\<lambda>k. loc e (encryption_engine s) k (fs_freq (fakeBst s) k)) fk"
    by (rule exchange_batch_keys)
  have "consumer_round_rec True fuel cfg e batch s =
       Inr (map (\<lambda>k. entry ''REAL: '' (timeStamp s + 1) (fs_freq (realBst s) k)) (map fst batch) @
            map (\<lambda>k. entry ''FAKEREAL: '' (timeStamp s + 1) (fs_freq (realBst s) k)) rs @
            map (\<lambda>k. entry ''FAKE: '' (timeStamp s + 1) (fs_freq (fakeBst s) k)) fk, sk, w, s')"
    unfolding consumer_round_rec_def t bindR_Inr prod.case execute_batch_rec_def c(2) x by simp
  then show ?thesis using that [OF sk _ c(3-6)] by blast
qed

end
