(* ===== verification/Uniform_Claims.thy ===== *)
theory Uniform_Claims
  imports Proxy_Resident Proxy_Log Sample_Run
begin

text \<open>
  The two bounds the storage server can rely on: how long a location stays unread, and how long a key stays in
  the cache before its next location is written.  A second deployment, with a cache that is large for its
  batches, shows both at work on runs of any length.
\<close>

subsection \<open>Runs of any length\<close>

text \<open>
  A query that the current buckets answer can be taken and executed in any idle state, and leaves an idle state
  with the same buckets.
\<close>

definition asks :: "('srv, 'ctx) env \<Rightarrow> (string \<Rightarrow> string) \<Rightarrow> config \<Rightarrow> nat \<Rightarrow> string set \<Rightarrow> string \<Rightarrow> int \<Rightarrow> int \<Rightarrow> int list \<Rightarrow> bool" where
  "asks e V cfg m L item start stop ts \<longleftrightarrow> wf_item item \<and> fits64 start \<and> fits64 stop \<and>
     set ts = Collect (in_range {t. ts_key item t \<in> L} start stop) \<and> sorted ts \<and> distinct ts \<and> length ts \<le> m \<and>
     0 < cfg_R cfg \<and> cfg_R cfg \<le> int (length ts) \<and> (\<exists>a. rk_answer (e_float e) (map (ts_key item) ts) V = Inr a)"

lemma fresh_promise_exists:
  assumes "request_map (runningKeys s) = []"
  shows "\<exists>q. fresh_promise s q"
proof -
  have "finite (set (um_keys (promises s)))" by simp
  then obtain q where "q \<notin> set (um_keys (promises s))" using ex_new_if_finite [OF infinite_UNIV_nat] by blast
  then show ?thesis using assms by (auto simp: fresh_promise_def um_has_keys)
qed

lemma one_batch:
  assumes "env_ok e g db K T" and "cfg_ok fuel cfg m U nf T" and "sys_inv K V e db T m cfg U g nf (0, rid, [], 0, s)"
    and "request_map (runningKeys s) = []" and "keys_to_be_deleted s = []" and "asks e V cfg m (Collect (live s)) item start stop ts"
    and "timeStamp s < T" and "fits32 (rid + 1)"
  obtains i' batch' misses' s1 sk and w :: writes and s2 where
    "proxy_step fuel cfg e K V m T (0, rid, [], 0, s) (i', rid + 1, batch', misses', s1)" "timeStamp s1 = timeStamp s"
    "sys_inv K V e db T m cfg U g nf (i', rid + 1, batch', misses', s1)" "\<not> i' < cfg_R cfg"
    "answerable (e_float e) V (request_map (runningKeys s1))" "consumer_round fuel cfg e batch' s1 = Inr (sk, w, s2)"
    "sys_inv K V e db T m cfg U g nf (0, rid + 1, [], 0, s2)" "request_map (runningKeys s2) = []" "keys_to_be_deleted s2 = []"
    "live s1 = live s" "live s2 = live s" "timeStamp s2 = timeStamp s + 1" "pcache s1 = pcache s"
    "\<exists>rs fk. picks cfg e (map fst batch') s1 rs fk sk s2"
proof -
  note A = assms(6) [unfolded asks_def]
  obtain q where q: "fresh_promise s q" using fresh_promise_exists [OF assms(4)] by blast
  have "card (set ts) \<le> m" using A distinct_card [of ts] by simp
  then have go: "get_ok s m item start stop q" using A q by (simp add: get_ok_def)
  have R: "0 < cfg_R cfg" using A by simp
  have z: "fits32 0" by (simp add: fits32_def int_min_def int_max_def)
  obtain tsl i' batch' misses' s1 where sg:
    "fill_batch (cfg_R cfg) [((query item start stop, ''''), q)] 0 rid ([], 0, s) = Inr ([], i', rid + 1, batch', misses', s1)"
    "sys_inv K V e db T m cfg U g nf (i', rid + 1, batch', misses', s1)"
    "set tsl = Collect (in_range {t. live s (ts_key item t)} start stop)" "sorted tsl" "distinct tsl"
    "\<forall>j. um_find (request_map (runningKeys s1)) j = (if j = rid \<and> tsl \<noteq> [] then Some (map (ts_key item) tsl, Some q)
       else um_find (request_map (runningKeys s)) j)"
    "live s1 = live s" "keys_to_be_deleted s1 = keys_to_be_deleted s" "i' = 0 + int (length tsl)" "timeStamp s1 = timeStamp s" "pcache s1 = pcache s"
    by (rule serve_get_count [OF assms(3) R go assms(8) z cfg_fits(1) [OF assms(2)]])
  have tsl: "tsl = ts" using sorted_distinct_set_unique [OF sg(4,5)] A sg(3) by simp
  have full: "\<not> i' < cfg_R cfg" using sg(9) tsl A by simp
  have an: "answerable (e_float e) V (request_map (runningKeys s1))"
  proof -
    have "um_ok (request_map (runningKeys s1))" using sg(2) by (auto simp: sys_inv_def cinv_def rk_wf_def)
    then have "\<forall>(i, ks, p) \<in> set (request_map (runningKeys s1)). um_find (request_map (runningKeys s1)) i = Some (ks, p)"
      by (auto simp: um_find_in)
    then show ?thesis using sg(6) assms(4) tsl A by (fastforce simp: answerable_def list_all_iff split: if_splits)
  qed
  have ts: "timeStamp s1 < T" using sg(10) assms(7) by simp
  obtain sk w s2 where r: "consumer_round fuel cfg e batch' s1 = Inr (sk, w, s2)" "batch_post K V cfg e db s1 sk w s2"
    "sys_inv K V e db T m cfg U g nf (0, rid + 1, [], 0, s2)" "\<exists>rs fk. picks cfg e (map fst batch') s1 rs fk sk s2"
    using sys_round [OF assms(1,2) sg(2) ts an] by blast
  have st: "proxy_step fuel cfg e K V m T (0, rid, [], 0, s) (i', rid + 1, batch', misses', s1)"
    by (rule take_get [OF R go assms(8) z sg(1)])
  show ?thesis
    by (rule that [OF st sg(10,2) full an r(1,3) _ _ sg(7) _ _ sg(11) r(4)])
      (use r(2) sg(7,8,10) assms(5) in \<open>simp_all add: batch_post_def running_empty_def fun_eq_iff\<close>)
qed

lemma one_more_batch:
  assumes "env_ok e g db K T" and "cfg_ok fuel cfg m U nf T" and "sys_inv K V e db T m cfg U g nf (0, rid, [], 0, s)"
    and "request_map (runningKeys s) = []" and "keys_to_be_deleted s = []" and "asks e V cfg m (Collect (live s)) item start stop ts"
    and "timeStamp s < T" and "fits32 (rid + 1)"
  obtains sk and w :: writes and s' where "proxy_run fuel cfg e K V m T (0, rid, [], 0, s) [(sk, writeBatchKeys w)] (0, rid + 1, [], 0, s')"
    "sys_inv K V e db T m cfg U g nf (0, rid + 1, [], 0, s')" "request_map (runningKeys s') = []" "keys_to_be_deleted s' = []"
    "live s' = live s" "timeStamp s' = timeStamp s + 1"
proof (rule one_batch [OF assms])
  fix i' batch' misses' s1 sk and w :: writes and s2
  assume b: "proxy_step fuel cfg e K V m T (0, rid, [], 0, s) (i', rid + 1, batch', misses', s1)" "timeStamp s1 = timeStamp s"
    "\<not> i' < cfg_R cfg" "answerable (e_float e) V (request_map (runningKeys s1))" "consumer_round fuel cfg e batch' s1 = Inr (sk, w, s2)"
    and r: "sys_inv K V e db T m cfg U g nf (0, rid + 1, [], 0, s2)" "request_map (runningKeys s2) = []" "keys_to_be_deleted s2 = []"
    "live s2 = live s" "timeStamp s2 = timeStamp s + 1"
  have "proxy_run fuel cfg e K V m T (0, rid, [], 0, s) ([] @ []) (i', rid + 1, batch', misses', s1)"
    using b(1,2) by (intro run_step [OF run_start] quiet)
  then have "proxy_run fuel cfg e K V m T (0, rid, [], 0, s) (([] @ []) @ [(sk, writeBatchKeys w)]) (0, rid + 1, [], 0, s2)"
    by (rule run_step) (rule exchange [OF b(3) _ b(4,5)], use b(2) assms(7) in simp)
  then show ?thesis using that [OF _ r] by simp
qed

lemma many_batches:
  assumes "env_ok e g db K T" and "cfg_ok fuel cfg m U nf T" and "sys_inv K V e db T m cfg U g nf (0, rid, [], 0, s)"
    and "request_map (runningKeys s) = []" and "keys_to_be_deleted s = []" and "asks e V cfg m (Collect (live s)) item start stop ts"
    and "timeStamp s + int n \<le> T" and "fits32 rid" and "fits32 (rid + int n)"
  shows "\<exists>tr s'. proxy_run fuel cfg e K V m T (0, rid, [], 0, s) tr (0, rid + int n, [], 0, s') \<and> length tr = n \<and>
    sys_inv K V e db T m cfg U g nf (0, rid + int n, [], 0, s') \<and> request_map (runningKeys s') = [] \<and>
    keys_to_be_deleted s' = [] \<and> live s' = live s \<and> timeStamp s' = timeStamp s + int n"
  using assms(7,9)
proof (induction n)
  case 0
  have "proxy_run fuel cfg e K V m T (0, rid, [], 0, s) [] (0, rid, [], 0, s)" by (rule run_start)
  then show ?case using assms(3-5) by auto
next
  case (Suc n)
  have "fits32 (rid + int n)" using assms(8) Suc.prems(2) by (simp add: fits32_def)
  with Suc obtain tr s1 where r: "proxy_run fuel cfg e K V m T (0, rid, [], 0, s) tr (0, rid + int n, [], 0, s1)" "length tr = n"
    "sys_inv K V e db T m cfg U g nf (0, rid + int n, [], 0, s1)" "request_map (runningKeys s1) = []" "keys_to_be_deleted s1 = []"
    "live s1 = live s" "timeStamp s1 = timeStamp s + int n" by auto
  have t: "timeStamp s1 < T" "fits32 ((rid + int n) + 1)" using r(7) Suc.prems by (simp_all add: algebra_simps)
  obtain sk and w :: writes and s2 where x: "proxy_run fuel cfg e K V m T (0, rid + int n, [], 0, s1) [(sk, writeBatchKeys w)] (0, (rid + int n) + 1, [], 0, s2)"
    "sys_inv K V e db T m cfg U g nf (0, (rid + int n) + 1, [], 0, s2)" "request_map (runningKeys s2) = []" "keys_to_be_deleted s2 = []"
    "live s2 = live s1" "timeStamp s2 = timeStamp s1 + 1"
    by (rule one_more_batch [OF assms(1,2) r(3-5) assms(6) [folded r(6)] t])
  have "proxy_run fuel cfg e K V m T (0, rid, [], 0, s) (tr @ [(sk, writeBatchKeys w)]) (0, rid + int (Suc n), [], 0, s2)"
    using proxy_run_append [OF r(1) x(1)] by (simp add: algebra_simps)
  then show ?case using r x by (intro exI [of _ "tr @ [(sk, writeBatchKeys w)]"] exI [of _ s2]) (simp add: algebra_simps)
qed

subsection \<open>A deployment with a large cache\<close>

definition wide_cfg :: config where
  "wide_cfg = \<lparr>cfg_R = 1, cfg_B = 3, cfg_F = 1, cfg_D = 2, object_size = 2, cacheBatches = 75, redisBulkLength = 3\<rparr>"

definition wide_stamps :: "int list" where
  "wide_stamps = [1, 2, 3, 4, 5, 6, 7, 8]"

definition wide_keys :: "string list" where
  "wide_keys = map (ts_key ''a'') wide_stamps"

definition wide_value :: "string \<Rightarrow> string" where
  "wide_value k = ''1''"

lemma wide_init:
  obtains s where "init 20 wide_cfg sample_env wide_keys (map wide_value wide_keys) (proxy_new [[]] sample_engine 0) = Inr s"
proof -
  have "is_ok (init 20 wide_cfg sample_env wide_keys (map wide_value wide_keys) (proxy_new [[]] sample_engine 0)) = True"
    by code_simp
  then obtain s where "init 20 wide_cfg sample_env wide_keys (map wide_value wide_keys) (proxy_new [[]] sample_engine 0) = Inr s"
    by (auto elim: is_ok.elims)
  then show ?thesis by (rule that)
qed

lemma wide_cfg_ok: "cfg_ok 20 wide_cfg 1 2 2 100"
  by (simp add: cfg_ok_def wide_cfg_def int_max_def)

lemma wide_rates: "fill_rate wide_cfg (Suc 0) = 1" "push_rate wide_cfg = 3" "cfg_R wide_cfg = 1" "cfg_F wide_cfg = 1"
  by (simp_all add: fill_rate_def push_rate_def wide_cfg_def)

lemma wide_asks: "asks sample_env wide_value wide_cfg 1 (set wide_keys) ''a'' 1 1 [1]"
proof -
  have "{t. ts_key ''a'' t \<in> set wide_keys} = set wide_stamps" by (auto simp: wide_keys_def)
  moreover have "Collect (in_range (set wide_stamps) 1 1) = {1}" by (auto simp: in_range_def wide_stamps_def)
  moreover have "rk_answer (e_float sample_env) [''a@1''] wide_value = Inr ''1''"
  proof -
    have "(rk_answer (e_float sample_env) [''a@1''] wide_value = Inr ''1'') = True" by code_simp
    then show ?thesis by simp
  qed
  ultimately show ?thesis
    by (simp add: asks_def wf_item_def fits64_def wide_rates ts_key_def sample_stamps)
qed

lemma wide_start:
  obtains s where "sys_inv UNIV wide_value sample_env um_find 100 1 wide_cfg 2 sample_engine 2 (0, 0, [], 0, s)"
    "Collect (live s) = set wide_keys" "length (lru (pcache s)) = 6" "timeStamp s = 0" "request_map (runningKeys s) = []"
    "keys_to_be_deleted s = []" "card (Collect (live s)) = 8"
proof -
  obtain s where s: "init 20 wide_cfg sample_env wide_keys (map wide_value wide_keys) (proxy_new [[]] sample_engine 0) = Inr s"
    by (rule wide_init)
  have d: "distinct wide_keys" by (simp add: wide_keys_def distinct_map inj_on_def) (simp add: wide_stamps_def)
  have l: "length wide_keys = 8" by (simp add: wide_keys_def wide_stamps_def)
  have k: "\<forall>k \<in> set wide_keys. canon k \<and> storable (wide_value k)"
    by (auto simp: wide_keys_def wide_stamps_def wf_item_def fits64_def storable_def wide_value_def)
  have ne: "wide_keys \<noteq> []" using l by auto
  have z: "object_size wide_cfg \<le> 4070" "cacheBatches wide_cfg = 75" "nat (cfg_D wide_cfg) = 2" "0 \<le> cfg_R wide_cfg"
    by (simp_all add: wide_cfg_def)
  note I = init_ok [OF sample_env_ok _ d ne k _ z(1) s, of 100]
  have "sys_inv UNIV wide_value sample_env um_find 100 1 wide_cfg (length wide_keys - cacheBatches wide_cfg * length wide_keys div 100)
      sample_engine (nat (cfg_D wide_cfg)) (0, 0, [], 0, s)"
    by (rule init_sys_inv [OF sample_env_ok _ d ne k _ z(1) s]) (simp_all add: z l)
  then show ?thesis using that [of s] I z l distinct_card [OF d] by (simp add: running_empty_def)
qed

subsection \<open>The bounds\<close>

text \<open>
  C3.  No location stays unread for long: of the buckets outside the cache, every one is read within
  \<open>(N + R + m) / (B - F - (R + m - 1))\<close> batches (\<open>N\<close> buckets, queries of at most \<open>m\<close> of them), and every fake
  key within \<open>D / F\<close> batches, whatever the clients request in between.
\<close>

theorem unread_locations_bounded:
  assumes "env_ok e g db K T" and "cfg_ok fuel cfg m U nf T" and "sys_inv K V e db T m cfg U g nf (i, rid, batch, misses, s)"
    and "proxy_run fuel cfg e K V m T (i, rid, batch, misses, s) tr st'"
  shows "(\<forall>k. live s k \<and> cache_find (pcache s) k = None \<and>
       int (card (Collect (live s))) + cfg_R cfg + int m - i \<le> fill_rate cfg m * int (length tr) \<longrightarrow>
       (\<exists>x \<in> set tr. loc e g k (fs_freq (realBst s) k) \<in> set (fst x))) \<and>
    (\<forall>k. fake s k \<and> int nf \<le> cfg_F cfg * int (length tr) \<longrightarrow>
       (\<exists>x \<in> set tr. loc e g k (fs_freq (fakeBst s) k) \<in> set (fst x)))"
proof (intro conjI allI impI)
  have run: "lawful_run K V e db T m cfg U g nf fuel (i, rid, batch, misses, s) tr st'"
    using assms by (simp add: lawful_run_def)
  have i: "i < cfg_R cfg + int m" "fs_size (fakeBst s) = nf" "fs_inv (fakeBst s)"
    using assms(3) pinvD(6) by (auto simp: sys_inv_def)
  show "\<exists>x \<in> set tr. loc e g k (fs_freq (realBst s) k) \<in> set (fst x)"
    if h: "live s k \<and> cache_find (pcache s) k = None \<and>
       int (card (Collect (live s))) + cfg_R cfg + int m - i \<le> fill_rate cfg m * int (length tr)" for k
  proof (rule real_drain.hit_within [OF run])
    show "real_waits k (fs_freq (realBst s) k) (i, rid, batch, misses, s)" using h by (simp add: real_waits_def)
    have "finite (Collect (live s))" using finite_live [of s "\<lambda>_. True"] by simp
    then have "card (real_older s (fs_freq (realBst s) k)) \<le> card (Collect (live s))"
      by (rule card_mono) (auto simp: real_older_def)
    then show "real_rank cfg m (fs_freq (realBst s) k) (i, rid, batch, misses, s) \<le> fill_rate cfg m * int (length tr)"
      using h i(1) by (simp add: real_rank_def)
  qed
  show "\<exists>x \<in> set tr. loc e g k (fs_freq (fakeBst s) k) \<in> set (fst x)"
    if h: "fake s k \<and> int nf \<le> cfg_F cfg * int (length tr)" for k
  proof (rule fake_drain.hit_within [OF run])
    show "fake_waits k (fs_freq (fakeBst s) k) (i, rid, batch, misses, s)" using h by (simp add: fake_waits_def)
    have "card (fake_older s (fs_freq (fakeBst s) k)) \<le> nf" using card_fake_older [of s] i(2) by simp
    then show "fake_rank (fs_freq (fakeBst s) k) (i, rid, batch, misses, s) \<le> cfg_F cfg * int (length tr)"
      using h by (simp add: fake_rank_def)
  qed
qed

theorem unread_locations_bounded_witness:
  "\<exists>s tr st'. proxy_run 20 wide_cfg sample_env UNIV wide_value 1 100 (0, 0, [], 0, s) tr st' \<and> length tr = 10 \<and>
     (\<forall>k. fake s k \<longrightarrow> (\<exists>x \<in> set tr. loc sample_env sample_engine k (fs_freq (fakeBst s) k) \<in> set (fst x))) \<and>
     card {k. live s k \<and> cache_find (pcache s) k = None} = 2 \<and>
     (\<forall>k. live s k \<and> cache_find (pcache s) k = None \<longrightarrow>
        (\<exists>x \<in> set tr. loc sample_env sample_engine k (fs_freq (realBst s) k) \<in> set (fst x)))"
proof -
  obtain s where s: "sys_inv UNIV wide_value sample_env um_find 100 1 wide_cfg 2 sample_engine 2 (0, 0, [], 0, s)"
    "Collect (live s) = set wide_keys" "length (lru (pcache s)) = 6" "timeStamp s = 0" "request_map (runningKeys s) = []"
    "keys_to_be_deleted s = []" "card (Collect (live s)) = 8" by (rule wide_start)
  have "\<exists>tr s'. proxy_run 20 wide_cfg sample_env UNIV wide_value 1 100 (0, 0, [], 0, s) tr (0, 0 + int 10, [], 0, s') \<and> length tr = 10 \<and>
    sys_inv UNIV wide_value sample_env um_find 100 1 wide_cfg 2 sample_engine 2 (0, 0 + int 10, [], 0, s') \<and>
    request_map (runningKeys s') = [] \<and> keys_to_be_deleted s' = [] \<and> live s' = live s \<and> timeStamp s' = timeStamp s + int 10"
    by (rule many_batches [OF sample_env_ok wide_cfg_ok s(1,5,6) wide_asks [folded s(2)]])
      (simp_all add: s(4) fits32_def int_min_def int_max_def)
  then obtain tr s' where r: "proxy_run 20 wide_cfg sample_env UNIV wide_value 1 100 (0, 0, [], 0, s) tr (0, 0 + int 10, [], 0, s')"
    "length tr = 10" by blast
  have "pinv UNIV wide_value sample_env um_find s" using s(1) by (simp add: sys_inv_def)
  then have "card {k. live s k \<and> cache_find (pcache s) k = None} = 2" using uncached_card s(3,7) by fastforce
  moreover note unread_locations_bounded [OF sample_env_ok wide_cfg_ok s(1) r(1)]
  ultimately show ?thesis using r by (intro exI [of _ s] exI [of _ tr] exI [of _ "(0, 0 + int 10, [], 0, s')"]) (simp add: wide_rates s(7))
qed

text \<open>
  C4.  What a batch reads into the cache is not written back soon: a bucket that was read, and not deleted, is not
  written by the same batch, nor by the next \<open>q\<close> batches when the cache has at least \<open>(q + 1) (B - F + R)\<close>
  entries, whatever the clients request in between.
\<close>

theorem read_keys_stay_cached:
  assumes "env_ok e g db K T" and "cfg_ok fuel cfg m U nf T" and "sys_inv K V e db T m cfg U g nf (i, rid, batch, misses, s)"
    and "timeStamp s < T" and "answerable (e_float e) V (request_map (runningKeys s))"
    and "consumer_round fuel cfg e batch s = Inr (sk, w, s')" and "live s k" and "loc e g k (fs_freq (realBst s) k) \<in> set sk" and "live s' k"
    and "proxy_run fuel cfg e K V m T (0, rid, [], 0, s') tr st"
    and "push_rate cfg * (int (length tr) + 1) \<le> int (length (lru (pcache s)))"
  shows "cache_find (pcache s') k \<noteq> None \<and> loc e g k (timeStamp s + 1) \<notin> set (writeBatchKeys w) \<and>
    (\<forall>x \<in> set tr. loc e g k (timeStamp s + 1) \<notin> set (snd x))"
proof -
  obtain rs fk where p: "batch_post K V cfg e db s sk w s'" "picks cfg e (map fst batch) s rs fk sk s'"
    and inv: "sys_inv K V e db T m cfg U g nf (0, rid, [], 0, s')"
    using sys_round [OF assms(1-5)] assms(6) by auto
  have I: "pinv K V e db s" "encryption_engine s = g" "timeStamp s \<le> T" using assms(3) by (simp_all add: sys_inv_def)
  have k: "k \<in> set (map fst batch @ rs)" by (rule read_key_picked [OF assms(1) I p(2) assms(7,8)])
  let ?n = "push_rate cfg * int (length tr)"
  have "0 \<le> push_rate cfg" using assms(2) by (auto simp: cfg_ok_def push_rate_def)
  then have n: "0 \<le> ?n" "?n + push_rate cfg \<le> int (length (lru (pcache s)))" using assms(11) by (simp_all add: algebra_simps)
  have R: "resident K cfg k (timeStamp s + 1) ?n (0, rid, [], 0, s')"
    by (rule resident_read [OF assms(1,3) p assms(2) k assms(9) n])
  have run: "lawful_run K V e db T m cfg U g nf fuel (0, rid, [], 0, s') tr st" using assms(1,2,10) inv by (simp add: lawful_run_def)
  have c: "cache_find (pcache s') k \<noteq> None" by (rule resident_cached [OF R assms(9)]) (use p in \<open>simp add: batch_post_def\<close>)
  moreover have "loc e g k (timeStamp s + 1) \<notin> set (writeBatchKeys w)"
    by (rule cached_not_written [OF assms(1,3,4) p(1) assms(9) c]) (use picksD(10) [OF p(2) assms(9)] k in simp)
  ultimately show ?thesis using resident_run [OF run R] by simp
qed

theorem read_keys_stay_cached_witness:
  "\<exists>batch s sk w s' k tr st. consumer_round 20 wide_cfg sample_env batch s = Inr (sk, w, s') \<and>
     proxy_run 20 wide_cfg sample_env UNIV wide_value 1 100 (0, 1, [], 0, s') tr st \<and> length tr = 1 \<and>
     loc sample_env sample_engine k (fs_freq (realBst s) k) \<in> set sk \<and>
     (\<forall>x \<in> set tr. loc sample_env sample_engine k (timeStamp s + 1) \<notin> set (snd x))"
proof -
  obtain s where s: "sys_inv UNIV wide_value sample_env um_find 100 1 wide_cfg 2 sample_engine 2 (0, 0, [], 0, s)"
    "Collect (live s) = set wide_keys" "length (lru (pcache s)) = 6" "timeStamp s = 0" "request_map (runningKeys s) = []"
    "keys_to_be_deleted s = []" by (rule wide_start)
  have f: "fits32 1" "fits32 2" "0 + 1 = (1::int)" by (simp_all add: fits32_def int_min_def int_max_def)
  have a: "asks sample_env wide_value wide_cfg 1 (Collect (live s)) ''a'' 1 1 [1]" using wide_asks by (simp add: s(2))
  have t: "timeStamp s < 100" "fits32 (0 + 1)" by (simp_all add: s(4) f)
  obtain i' batch' misses' s1 sk and w :: writes and s2 where
    b: "timeStamp s1 = timeStamp s" "sys_inv UNIV wide_value sample_env um_find 100 1 wide_cfg 2 sample_engine 2 (i', 0 + 1, batch', misses', s1)"
    "answerable (e_float sample_env) wide_value (request_map (runningKeys s1))" "consumer_round 20 wide_cfg sample_env batch' s1 = Inr (sk, w, s2)"
    "sys_inv UNIV wide_value sample_env um_find 100 1 wide_cfg 2 sample_engine 2 (0, 0 + 1, [], 0, s2)" "request_map (runningKeys s2) = []"
    "keys_to_be_deleted s2 = []" "live s1 = live s" "live s2 = live s" "timeStamp s2 = timeStamp s + 1" "pcache s1 = pcache s"
    "\<exists>rs fk. picks wide_cfg sample_env (map fst batch') s1 rs fk sk s2"
    by (rule one_batch [OF sample_env_ok wide_cfg_ok s(1,5,6) a t]) blast
  obtain rs fk where p: "picks wide_cfg sample_env (map fst batch') s1 rs fk sk s2" using b(12) by blast
  note D = picksD [OF p]
  have "length (map fst batch' @ rs) = 2" using D(2) by (simp add: wide_cfg_def)
  then obtain k where k: "k \<in> set (map fst batch' @ rs)" by (metis length_0_conv list.set_intros(1) neq_Nil_conv zero_neq_numeral)
  have g: "encryption_engine s1 = sample_engine" using b(2) by (simp add: sys_inv_def)
  have sk: "loc sample_env sample_engine k (fs_freq (realBst s1) k) \<in> set sk" using k unfolding D(1) g by auto
  have lk: "live s1 k" "live s2 k" using D(6) [OF k] b(8,9) by simp_all
  have "\<exists>tr s'. proxy_run 20 wide_cfg sample_env UNIV wide_value 1 100 (0, 0 + 1, [], 0, s2) tr (0, (0 + 1) + int 1, [], 0, s') \<and> length tr = 1 \<and>
    sys_inv UNIV wide_value sample_env um_find 100 1 wide_cfg 2 sample_engine 2 (0, (0 + 1) + int 1, [], 0, s') \<and>
    request_map (runningKeys s') = [] \<and> keys_to_be_deleted s' = [] \<and> live s' = live s2 \<and> timeStamp s' = timeStamp s2 + int 1"
    by (rule many_batches [OF sample_env_ok wide_cfg_ok b(5-7) a [folded b(9)]]) (simp_all add: b(10) s(4) f)
  then obtain tr s' where r: "proxy_run 20 wide_cfg sample_env UNIV wide_value 1 100 (0, 0 + 1, [], 0, s2) tr (0, (0 + 1) + int 1, [], 0, s')"
    "length tr = 1" by blast
  have "push_rate wide_cfg * (int (length tr) + 1) \<le> int (length (lru (pcache s1)))" using r(2) b(11) s(3) by (simp add: wide_rates)
  from read_keys_stay_cached [OF sample_env_ok wide_cfg_ok b(2) _ b(3,4) lk(1) sk lk(2) r(1) this]
  have "\<forall>x \<in> set tr. loc sample_env sample_engine k (timeStamp s1 + 1) \<notin> set (snd x)" using b(1) s(4) by simp
  then show ?thesis using b(4) r sk unfolding f(3) by blast
qed

subsection \<open>The recorded alphas\<close>

text \<open>
  C13.  Recording alpha changes nothing but the log: with or without it a batch reads and writes the same and
  leaves the same state.  The log has a line for every key of the batch, in the order of the reads, with the
  number of batches since the key was last used, which is at least one; for a fake key it is at most \<open>D / F\<close>
  rounded up, in every run from the initialised state.
\<close>

theorem recorded_alphas:
  assumes "env_ok e g db K T" and "cfg_ok fuel cfg m U nf T" and "sys_inv K V e db T m cfg U g nf (0, 0, [], 0, s0)" and "timeStamp s0 = 0"
    and "proxy_run fuel cfg e K V m T (0, 0, [], 0, s0) tr (i, rid, batch, misses, s)"
    and "timeStamp s < T" and "answerable (e_float e) V (request_map (runningKeys s))"
    and "consumer_round fuel cfg e batch s = Inr (sk, w, s')"
  shows "consumer_round_rec False fuel cfg e batch s = Inr ([], sk, w, s') \<and>
    (\<exists>rs fk. sk = map (\<lambda>k. loc e g k (fs_freq (realBst s) k)) (map fst batch @ rs) @ map (\<lambda>k. loc e g k (fs_freq (fakeBst s) k)) fk \<and>
       consumer_round_rec True fuel cfg e batch s =
         Inr (map (\<lambda>k. entry ''REAL: '' (timeStamp s + 1) (fs_freq (realBst s) k)) (map fst batch) @
              map (\<lambda>k. entry ''FAKEREAL: '' (timeStamp s + 1) (fs_freq (realBst s) k)) rs @
              map (\<lambda>k. entry ''FAKE: '' (timeStamp s + 1) (fs_freq (fakeBst s) k)) fk, sk, w, s') \<and>
       (\<forall>k \<in> set (map fst batch @ rs). 1 \<le> timeStamp s + 1 - fs_freq (realBst s) k) \<and>
       (\<forall>k \<in> set fk. 1 \<le> timeStamp s + 1 - fs_freq (fakeBst s) k \<and>
          (timeStamp s + 1 - fs_freq (fakeBst s) k - 1) * cfg_F cfg < int nf))"
proof -
  have run: "lawful_run K V e db T m cfg U g nf fuel (0, 0, [], 0, s0) tr (i, rid, batch, misses, s)"
    using assms(1-3,5) by (simp add: lawful_run_def)
  have inv: "sys_inv K V e db T m cfg U g nf (i, rid, batch, misses, s)"
    using run_seen_once [OF assms(1,2,5,3)] by blast
  then have I: "pinv K V e db s" "cinv 1 V batch s" "encryption_engine s = g" by (simp_all add: sys_inv_def)
  have sp: "fake_spread cfg nf (i, rid, batch, misses, s)"
    by (rule fake_spread_run [OF run fake_spread_start [OF assms(3,4)]])
  have env: "env_ok e (encryption_engine s) db K T" using assms(1) I(3) by simp
  obtain rs fk where r: "sk = map (\<lambda>k. loc e (encryption_engine s) k (fs_freq (realBst s) k)) (map fst batch @ rs) @
       map (\<lambda>k. loc e (encryption_engine s) k (fs_freq (fakeBst s) k)) fk"
    "consumer_round_rec True fuel cfg e batch s =
       Inr (map (\<lambda>k. entry ''REAL: '' (timeStamp s + 1) (fs_freq (realBst s) k)) (map fst batch) @
            map (\<lambda>k. entry ''FAKEREAL: '' (timeStamp s + 1) (fs_freq (realBst s) k)) rs @
            map (\<lambda>k. entry ''FAKE: '' (timeStamp s + 1) (fs_freq (fakeBst s) k)) fk, sk, w, s')"
    "\<forall>k \<in> set (map fst batch @ rs). live s k" "\<forall>k \<in> set fk. fake s k"
    by (rule consumer_round_recorded [OF env I(1,2) sys_sized [OF assms(2) inv assms(6)] assms(6-8)])
  have "\<forall>k \<in> set (map fst batch @ rs). 1 \<le> timeStamp s + 1 - fs_freq (realBst s) k"
    using r(3) pinvD(10) [OF I(1)] by fastforce
  moreover have "\<forall>k \<in> set fk. fs_freq (fakeBst s) k \<le> timeStamp s" using r(4) pinvD(12) [OF I(1)] by blast
  moreover from this have "\<forall>k \<in> set fk. (timeStamp s + 1 - fs_freq (fakeBst s) k - 1) * cfg_F cfg < int nf"
    using r(4) fake_spread_bound [OF sp] by simp
  ultimately show ?thesis using r(1,2) assms(8) consumer_round_silent [of fuel cfg e batch s] unfolding I(3)
    by (intro conjI exI [of _ rs] exI [of _ fk]) auto
qed

theorem recorded_alphas_witness:
  "\<exists>s0 i rid batch misses s sk w s' lines. proxy_run 20 wide_cfg sample_env UNIV wide_value 1 100 (0, 0, [], 0, s0) [] (i, rid, batch, misses, s) \<and>
     consumer_round_rec True 20 wide_cfg sample_env batch s = Inr (lines, sk, w, s') \<and> length lines = 3"
proof -
  obtain s where s: "sys_inv UNIV wide_value sample_env um_find 100 1 wide_cfg 2 sample_engine 2 (0, 0, [], 0, s)"
    "Collect (live s) = set wide_keys" "timeStamp s = 0" "request_map (runningKeys s) = []" "keys_to_be_deleted s = []" by (rule wide_start)
  have a: "asks sample_env wide_value wide_cfg 1 (Collect (live s)) ''a'' 1 1 [1]" using wide_asks by (simp add: s(2))
  have t: "timeStamp s < 100" "fits32 (0 + 1)" by (simp_all add: s(3) fits32_def int_min_def int_max_def)
  obtain i' batch' misses' s1 sk and w :: writes and s2 where
    b: "proxy_step 20 wide_cfg sample_env UNIV wide_value 1 100 (0, 0, [], 0, s) (i', 0 + 1, batch', misses', s1)" "timeStamp s1 = timeStamp s"
    "answerable (e_float sample_env) wide_value (request_map (runningKeys s1))" "consumer_round 20 wide_cfg sample_env batch' s1 = Inr (sk, w, s2)"
    "\<exists>rs fk. picks wide_cfg sample_env (map fst batch') s1 rs fk sk s2"
    by (rule one_batch [OF sample_env_ok wide_cfg_ok s(1,4,5) a t]) blast
  have run: "proxy_run 20 wide_cfg sample_env UNIV wide_value 1 100 (0, 0, [], 0, s) ([] @ []) (i', 0 + 1, batch', misses', s1)"
    using b(1,2) by (intro run_step [OF run_start] quiet)
  have ts: "timeStamp s1 < 100" using b(2) s(3) by simp
  obtain rs fk where r: "sk = map (\<lambda>k. loc sample_env sample_engine k (fs_freq (realBst s1) k)) (map fst batch' @ rs) @
      map (\<lambda>k. loc sample_env sample_engine k (fs_freq (fakeBst s1) k)) fk"
    "consumer_round_rec True 20 wide_cfg sample_env batch' s1 =
       Inr (map (\<lambda>k. entry ''REAL: '' (timeStamp s1 + 1) (fs_freq (realBst s1) k)) (map fst batch') @
            map (\<lambda>k. entry ''FAKEREAL: '' (timeStamp s1 + 1) (fs_freq (realBst s1) k)) rs @
            map (\<lambda>k. entry ''FAKE: '' (timeStamp s1 + 1) (fs_freq (fakeBst s1) k)) fk, sk, w, s2)"
    using recorded_alphas [OF sample_env_ok wide_cfg_ok s(1,3) run ts b(3,4)] by blast
  have "length sk = 3" using b(5) picksD(1-3) by (fastforce simp: wide_cfg_def)
  then have "length (map fst batch') + length rs + length fk = 3" using r(1) by simp
  then show ?thesis using r(2) run by (intro exI [of _ s] exI [of _ i'] exI [of _ "0 + 1"] exI [of _ batch'] exI [of _ misses'] exI [of _ s1]
      exI [of _ sk] exI [of _ w] exI [of _ s2] exI conjI) (simp, assumption, simp)
qed

end
