(* ===== verification/Proxy_Consumers.thy ===== *)
theory Proxy_Consumers
  imports Proxy_Oblivious Sample_Run
begin

text \<open>
  Several consumer threads (\<open>waffle_proxy::consumer_thread\<close>, started by \<open>init\<close>, one per core): each has its own
  queue and its own local counters, and all work on one proxy state.  A turn of a thread composes one operation,
  or executes its full batch; a schedule is a list of thread numbers.  With one thread the turns are the steps
  of the state machine.  With two, the request numbers, which each thread counts for itself from zero, collide
  in the table of running keys.
\<close>

subsection \<open>Threads and turns\<close>

record consumer =
  c_queue :: "(operation \<times> nat) list"
  c_i :: int
  c_request_id :: int
  c_storage_batch :: "operation list"
  c_cacheMisses :: int

definition new_consumer :: consumer where
  "new_consumer = \<lparr>c_queue = [], c_i = 0, c_request_id = 0, c_storage_batch = [], c_cacheMisses = 0\<rparr>"

definition start_consumers :: "nat \<Rightarrow> consumer list" where
  "start_consumers num_cores = replicate num_cores new_consumer"

text \<open>An empty queue makes the thread poll; the turn does not end.\<close>

definition consumer_turn ::
  "nat \<Rightarrow> config \<Rightarrow> ('srv, 'ctx) env \<Rightarrow> nat \<Rightarrow> consumer list \<times> 'srv proxy \<Rightarrow> (consumer list \<times> 'srv proxy) res" where
  "consumer_turn fuel cfg e tid st =
     (let (cs, s) = st; c = cs ! tid in
      if c_i c < cfg_R cfg then
        (case c_queue c of [] \<Rightarrow> Inl Blocked
         | op_prom # queue \<Rightarrow>
             bindR (fill_batch (cfg_R cfg) [op_prom] (c_i c) (c_request_id c) (c_storage_batch c, c_cacheMisses c, s))
               (\<lambda>(left, i, request_id, batch, misses, s1).
             Inr (cs[tid := c\<lparr>c_queue := left @ queue, c_i := i, c_request_id := request_id, c_storage_batch := batch,
                    c_cacheMisses := misses\<rparr>], s1)))
      else
        bindR (consumer_round fuel cfg e (c_storage_batch c) s) (\<lambda>(sk, w, s1).
        Inr (cs[tid := c\<lparr>c_i := 0, c_storage_batch := [], c_cacheMisses := 0\<rparr>], s1)))"

definition run_schedule ::
  "nat \<Rightarrow> config \<Rightarrow> ('srv, 'ctx) env \<Rightarrow> nat list \<Rightarrow> consumer list \<times> 'srv proxy \<Rightarrow> (consumer list \<times> 'srv proxy) res" where
  "run_schedule fuel cfg e schedule = foldR (consumer_turn fuel cfg e) schedule"

subsection \<open>One thread\<close>

text \<open>The loop state of a thread, as the state machine has it.\<close>

definition loop_of :: "consumer \<Rightarrow> 'srv proxy \<Rightarrow> 'srv loop" where
  "loop_of c s = (c_i c, c_request_id c, c_storage_batch c, c_cacheMisses c, s)"

lemma single_consumer_get:
  assumes "consumer_turn fuel cfg e 0 ([c], s) = Inr (cs', s')" and "c_i c < cfg_R cfg"
    and "c_queue c = ((query item start stop, ''''), q) # rest" and "get_ok s m item start stop q"
    and "fits32 (c_request_id c + 1)" and "fits32 (c_i c)"
  obtains c' where "cs' = [c']" "proxy_step fuel cfg e K V m T (loop_of c s) (loop_of c' s')"
proof -
  obtain left i' rid' batch' misses' where f: "fill_batch (cfg_R cfg) [((query item start stop, ''''), q)] (c_i c) (c_request_id c)
      (c_storage_batch c, c_cacheMisses c, s) = Inr (left, i', rid', batch', misses', s')"
    "cs' = [c\<lparr>c_queue := left @ rest, c_i := i', c_request_id := rid', c_storage_batch := batch', c_cacheMisses := misses'\<rparr>]"
    using assms(1-3) by (auto simp: consumer_turn_def res_simps simp del: fill_batch.simps)
  have "left = []" using f(1) by (auto simp: res_simps assms(2) split: prod.splits)
  then have "proxy_step fuel cfg e K V m T (loop_of c s) (i', rid', batch', misses', s')"
    unfolding loop_of_def using f(1) by (intro take_get [OF assms(2,4-6)]) (simp only:)
  then show ?thesis using that [OF f(2)] by (simp add: loop_of_def)
qed

lemma single_consumer_round:
  assumes "consumer_turn fuel cfg e 0 ([c], s) = Inr (cs', s')" and "\<not> c_i c < cfg_R cfg" and "timeStamp s < T"
    and "answerable (e_float e) V (request_map (runningKeys s))"
  obtains c' where "cs' = [c']" "proxy_step fuel cfg e K V m T (loop_of c s) (loop_of c' s')"
proof -
  obtain sk w where r: "consumer_round fuel cfg e (c_storage_batch c) s = Inr (sk, w, s')"
    "cs' = [c\<lparr>c_i := 0, c_storage_batch := [], c_cacheMisses := 0\<rparr>]"
    using assms(1,2) by (auto simp: consumer_turn_def res_simps)
  then show ?thesis using that [OF r(2)] round [OF assms(2-4) r(1)] by (simp add: loop_of_def)
qed

subsection \<open>Two threads\<close>

text \<open>The second query, taken by another thread under the same request number, joins the first one's entry.\<close>

lemma second_query:
  assumes "pinv K V e db s" and "wf_item item" and "fits64 start" and "fits64 stop" and "0 < cfg_R cfg" and "fits32 (rid + 1)"
    and "Collect (in_range {t. live s (ts_key item t)} start stop) = {t}" and "cache_find (pcache s) (ts_key item t) = None"
  obtains misses' batch' s' where
    "fill_batch (cfg_R cfg) [((query item start stop, ''''), q)] 0 rid ([], 0, s) = Inr ([], 1, rid + 1, batch', misses', s')"
    "\<forall>j. um_find (request_map (runningKeys s')) j = (if j = rid then Some (req_keys (runningKeys s) rid @ [ts_key item t], Some q)
       else um_find (request_map (runningKeys s)) j)" "promises s' = promises s"
proof -
  note D = pinvD [OF assms(1)]
  obtain tsl b1 where t: "get_split_keys (query item start stop) (realBst s) = Inr (map (ts_key item) tsl, b1)"
    "set tsl = {t}" "distinct tsl" "b1 = (realBst s)\<lparr>uniqueItemWithTimeStamp := um_touch [] item (uniqueItemWithTimeStamp (realBst s))\<rparr>" "sorted tsl"
    using get_split_keys_query [OF D(4) assms(2-4)] assms(7) unfolding live_def by metis
  have tsl: "tsl = [t]" by (rule sorted_distinct_set_unique) (use t(2,3,5) in simp_all)
  let ?k = "ts_key item t" and ?s1 = "s\<lparr>realBst := b1\<rparr>"
  note P = pinv_touch [OF assms(1) t(4)]
  have "live s ?k" using assms(7) by (auto simp: in_range_def)
  then have lk: "um_has (accessFreqs b1) ?k" unfolding P(2) [symmetric] by (simp add: live_def)
  have ev: "ev_getValue (EvictedItems s) ?k = ''''" using D(14) by (simp add: ev_getValue_def)
  obtain p r' where r': "insertIfNotPresent_get ?k (Some q) rid (runningKeys s) = (p, r')" by fastforce
  have csb: "create_security_batch ((?k, ''''), q) rid ([], 0, ?s1) =
      Inr (if p then [] else [(?k, '''')], 1, ?s1\<lparr>runningKeys := r'\<rparr>)"
    using lk getValueWithoutPositionChangeNew_eq [OF D(8), of ?k] assms(8) ev r'
    by (simp add: create_security_batch_def fs_checkIfUniqueItemWithTimeStampExists_def)
  have add: "add32 0 1 = Inr 1" "add32 rid 1 = Inr (rid + 1)" using assms(6) by (simp_all add: add32_def fits32_def int_min_def int_max_def)
  have "fill_batch (cfg_R cfg) [((query item start stop, ''''), q)] 0 rid ([], 0, s) =
      Inr ([], 1, rid + 1, if p then [] else [(?k, '''')], 1, ?s1\<lparr>runningKeys := r'\<rparr>)"
    using assms(5) t(1) tsl csb add by simp
  then show ?thesis using that insertIfNotPresent_get_facts(5) [OF r'] by simp
qed

text \<open>
  C38.  With two consumer threads the queries of two clients are mixed up: when both threads have reached the same
  request number and each takes a query, the table holds a single request, for the buckets of both queries and
  with the promise of the second; nothing is left that could answer the first.
\<close>

theorem two_consumers_mix_queries:
  assumes "env_ok e g db K T" and "cfg_ok fuel cfg m U nf T" and "sys_inv K V e db T m cfg U g nf (0, rid, [], 0, s)"
    and "0 < cfg_R cfg" and "fits32 (rid + 1)" and "get_ok s m item start stop q1" and "q1 \<noteq> q2"
    and "ts = sorted_list_of_set (Collect (in_range {t. live s (ts_key item t)} start stop))"
    and "request_map (runningKeys s) = []" and "wf_item item2" and "fits64 start2" and "fits64 stop2"
    and "Collect (in_range {t. live s (ts_key item2 t)} start2 stop2) = {t2}" and "cache_find (pcache s) (ts_key item2 t2) = None"
    and "c1 = \<lparr>c_queue = [((query item start stop, ''''), q1)], c_i = 0, c_request_id = rid, c_storage_batch = [], c_cacheMisses = 0\<rparr>"
    and "c2 = \<lparr>c_queue = [((query item2 start2 stop2, ''''), q2)], c_i = 0, c_request_id = rid, c_storage_batch = [], c_cacheMisses = 0\<rparr>"
  shows "\<exists>cs s'. run_schedule fuel cfg e [0, 1] ([c1, c2], s) = Inr (cs, s') \<and>
    um_find (request_map (runningKeys s')) rid = Some (map (ts_key item) ts @ [ts_key item2 t2], Some q2) \<and>
    (\<forall>j ks. um_find (request_map (runningKeys s')) j \<noteq> Some (ks, Some q1)) \<and> \<not> um_has (promises s') q1"
proof -
  have fits: "fits32 0" by (simp add: fits32_def int_min_def int_max_def)
  have fp: "fresh_promise s q1" using assms(6) by (simp add: get_ok_def)
  obtain tsl i' batch' misses' s1 where sg:
    "fill_batch (cfg_R cfg) [((query item start stop, ''''), q1)] 0 rid ([], 0, s) = Inr ([], i', rid + 1, batch', misses', s1)"
    "sys_inv K V e db T m cfg U g nf (i', rid + 1, batch', misses', s1)"
    "set tsl = Collect (in_range {t. live s (ts_key item t)} start stop)" "sorted tsl" "distinct tsl"
    "\<forall>j. um_find (request_map (runningKeys s1)) j = (if j = rid \<and> tsl \<noteq> [] then Some (map (ts_key item) tsl, Some q1)
       else um_find (request_map (runningKeys s)) j)"
    "live s1 = live s" "promises s1 = promises s" "pcache s1 = pcache s"
    by (rule serve_get_count [OF assms(3,4,6,5) fits cfg_fits(1) [OF assms(2)]])
  have ts: "tsl = ts" using sorted_list_of_set.idem_if_sorted_distinct [OF sg(4,5)] sg(3) assms(8) by simp
  have p1: "pinv K V e db s1" using sg(2) by (simp add: sys_inv_def)
  obtain misses2 batch2 s2 where sc:
    "fill_batch (cfg_R cfg) [((query item2 start2 stop2, ''''), q2)] 0 rid ([], 0, s1) = Inr ([], 1, rid + 1, batch2, misses2, s2)"
    "\<forall>j. um_find (request_map (runningKeys s2)) j = (if j = rid then Some (req_keys (runningKeys s1) rid @ [ts_key item2 t2], Some q2)
       else um_find (request_map (runningKeys s1)) j)" "promises s2 = promises s1"
    by (rule second_query [OF p1 assms(10-12,4,5)]) (use assms(13,14) sg(7,9) in simp_all)
  have rk: "req_keys (runningKeys s1) rid = map (ts_key item) ts" using sg(6) ts assms(9) by (simp add: req_keys_def um_at_def)
  have "run_schedule fuel cfg e [0, 1] ([c1, c2], s) =
    Inr ([c1\<lparr>c_queue := [], c_i := i', c_request_id := rid + 1, c_storage_batch := batch', c_cacheMisses := misses'\<rparr>,
          c2\<lparr>c_queue := [], c_i := 1, c_request_id := rid + 1, c_storage_batch := batch2, c_cacheMisses := misses2\<rparr>], s2)"
    using sg(1) sc(1) assms(4,15,16) by (simp add: run_schedule_def consumer_turn_def del: fill_batch.simps)
  moreover have "um_find (request_map (runningKeys s2)) j \<noteq> Some (ks, Some q1)" for j ks
    using sc(2) sg(6) assms(7,9) by simp
  moreover have "\<not> um_has (promises s2) q1" using sc(3) sg(8) fp by (simp add: fresh_promise_def)
  ultimately show ?thesis using sc(2) rk by simp
qed

theorem two_consumers_mix_queries_witness:
  "\<exists>c1 c2 cs s'. run_schedule 20 sample_cfg sample_env [0, 1] ([c1, c2], sample_state) = Inr (cs, s') \<and>
     um_find (request_map (runningKeys s')) 0 = Some ([''a@1'', ''a@2'', ''b@1''], Some 8) \<and> \<not> um_has (promises s') 7"
proof -
  have b: "{t. live sample_state (ts_key ''b'' t)} = {1, 2}" "{t. live sample_state (ts_key ''a'' t)} = {1, 2}" by (auto simp: sample_live)
  have r: "Collect (in_range {1, 2} 1 1) = {1 :: int}" "Collect (in_range {1, 2} 1 2) = {1, 2 :: int}" by (auto simp: in_range_def)
  have ts: "[1, 2] = sorted_list_of_set (Collect (in_range {t. live sample_state (ts_key ''a'' t)} 1 2))"
    unfolding b(2) r(2) by simp
  have w: "wf_item ''b''" "fits64 1" "fits32 (0 + 1)" "0 < cfg_R sample_cfg" "(7::nat) \<noteq> 8"
    by (simp_all add: wf_item_def fits64_def fits32_def int_min_def int_max_def sample_cfg_def)
  have u: "cache_find (pcache sample_state) (ts_key ''b'' 1) = None" "request_map (runningKeys sample_state) = []"
    by (simp_all add: cache_find_def lru_def sample_state_def ts_key_def sample_stamps)
  have s: "Collect (in_range {t. live sample_state (ts_key ''b'' t)} 1 1) = {1}" unfolding b(1) r(1) ..
  from two_consumers_mix_queries [OF sample_env_ok sample_cfg_ok sample_sys_inv w(4,3) sample_get_ok w(5) ts u(2) w(1,2,2) s u(1) refl refl]
  show ?thesis by (fastforce simp: ts_key_def sample_stamps)
qed

end
