(* ===== verification/Workload_Files.thy ===== *)
theory Workload_Files
  imports Trace_Files
begin

text \<open>
  The programs that prepare the input files of the server and of the benchmarks: the converters of workload logs
  (\<open>tracefiles/*/*/genProxyBenchmark.cpp\<close> and \<open>genproxyServer.cpp\<close>, four copies each that differ in their paths),
  the generator of item identifiers (\<open>utils/generate_TS_ItemID.cpp\<close>) and the generator of traces
  (\<open>utils/generate_TS_tracefile.cpp\<close>).

  A disk holds text files, as lists of lines, and the Boost archives the traces are stored in, under the names the
  programs use; \<open>d_writable\<close> tells which files can be opened for writing.  Opening a file for writing empties it.
\<close>

subsection \<open>Files\<close>

record disk =
  d_text :: "string \<rightharpoonup> string list"
  d_archive :: "string \<rightharpoonup> string list \<times> string list"
  d_writable :: "string \<Rightarrow> bool"

definition open_out :: "string \<Rightarrow> disk \<Rightarrow> bool \<times> disk" where
  "open_out path d = (if d_writable d path then (True, d\<lparr>d_text := (d_text d)(path \<mapsto> [])\<rparr>) else (False, d))"

definition write_out :: "string \<Rightarrow> string list \<Rightarrow> disk \<Rightarrow> disk" where
  "write_out path lines d = d\<lparr>d_text := (d_text d)(path \<mapsto> lines)\<rparr>"

subsection \<open>The converter of the client workload\<close>

text \<open>
  \<open>iss >> word\<close> skips white space and reads up to the next white space.  At the end of the line it fails and
  leaves the variable as it is.
\<close>

definition next_word :: "string \<Rightarrow> (string \<times> string) option" where
  "next_word iss =
     (let s = dropWhile is_space iss in
      if s = [] then None else Some (takeWhile (\<lambda>c. \<not> is_space c) s, dropWhile (\<lambda>c. \<not> is_space c) s))"

text \<open>\<open>strcmp\<close> sees a string up to its first zero byte.\<close>

definition c_string :: "string \<Rightarrow> string" where
  "c_string s = takeWhile (\<lambda>c. c \<noteq> CHR 0x00) s"

definition quoted :: "string \<Rightarrow> string" where
  "quoted w = CHR 0x22 # w @ [CHR 0x22]"

text \<open>\<open>key.pop_back()\<close> is undefined when no key follows; \<open>key.erase(0, 1)\<close> does nothing on an empty string.\<close>

definition take_key :: "string \<Rightarrow> string res" where
  "take_key iss =
     (let key = (case next_word iss of None \<Rightarrow> '''' | Some (w, _) \<Rightarrow> w) in
      if key = '''' then Inl Undefined_behaviour else Inr (drop 1 (butlast key)))"

text \<open>The loop \<open>while(1)\<close> over the words of a line; \<open>type\<close> keeps its value when no word is left.\<close>

fun bench_line :: "nat \<Rightarrow> string \<Rightarrow> string \<Rightarrow> string res" where
  "bench_line 0 iss type = Inl Out_of_fuel"
| "bench_line (Suc fuel) iss type =
     (let (type1, iss1) = (case next_word iss of None \<Rightarrow> (type, '''') | Some r \<Rightarrow> r) in
      if c_string type1 = quoted ''HMSET'' then
        bindR (take_key iss1) (\<lambda>key. Inr (''SET '' @ key @ '' '' @ ''test_value''))
      else if c_string type1 = quoted ''HGETALL'' then
        bindR (take_key iss1) (\<lambda>key. Inr (''GET '' @ key))
      else bench_line fuel iss1 type1)"

definition bench_lines :: "nat \<Rightarrow> string list \<Rightarrow> string list res" where
  "bench_lines fuel lines =
     foldR (\<lambda>line out. bindR (bench_line fuel line '''') (\<lambda>l. Inr (out @ [l]))) lines []"

text \<open>The shared body of the four programs; when a file cannot be opened only a message is printed.\<close>

definition gen_benchmark :: "string \<Rightarrow> string \<Rightarrow> nat \<Rightarrow> disk \<Rightarrow> disk res" where
  "gen_benchmark input_file_name output_file_name fuel d =
     (let (good, d1) = open_out output_file_name d in
      case d_text d input_file_name of
        Some lines \<Rightarrow>
          if good then bindR (bench_lines fuel lines) (\<lambda>out. Inr (write_out output_file_name out d1)) else Inr d1
      | None \<Rightarrow> Inr d1)"

definition genProxyBenchmark_085_a :: "nat \<Rightarrow> disk \<Rightarrow> disk res" where
  "genProxyBenchmark_085_a = gen_benchmark ''/home/svemula/traceFiles/0.85/workloada/runKeys.txt''
     ''/home/svemula/traceFiles/0.85/workloada/proxy_benchmark_command_line_input.txt''"

definition genProxyBenchmark_085_c :: "nat \<Rightarrow> disk \<Rightarrow> disk res" where
  "genProxyBenchmark_085_c = gen_benchmark ''/home/svemula/traceFiles/0.85/workloadc/runKeys.txt''
     ''/home/svemula/traceFiles/0.85/workloadc/proxy_benchmark_command_line_input.txt''"

definition genProxyBenchmark_099_a :: "nat \<Rightarrow> disk \<Rightarrow> disk res" where
  "genProxyBenchmark_099_a = gen_benchmark ''/home/svemula/traceFiles/0.99/workloada/runKeys.txt''
     ''/home/svemula/traceFiles/0.99/workloada/proxy_benchmark_command_line_input.txt''"

definition genProxyBenchmark_099_c :: "nat \<Rightarrow> disk \<Rightarrow> disk res" where
  "genProxyBenchmark_099_c = gen_benchmark ''/home/svemula/traceFiles/0.99/workloadc/runKeys.txt''
     ''/home/svemula/traceFiles/0.99/workloadc/proxy_benchmark_command_line_input.txt''"

subsection \<open>The converter of the server data\<close>

definition server_lines :: "string list \<Rightarrow> string list" where
  "server_lines lines = map (\<lambda>line. ''SET '' @ line @ '' test'') lines"

definition gen_server :: "string \<Rightarrow> string \<Rightarrow> disk \<Rightarrow> disk" where
  "gen_server input_file_name output_file_name d =
     (let (good, d1) = open_out output_file_name d in
      case d_text d input_file_name of
        Some lines \<Rightarrow> if good then write_out output_file_name (server_lines lines) d1 else d1
      | None \<Rightarrow> d1)"

definition genproxyServer_085_a :: "disk \<Rightarrow> disk" where
  "genproxyServer_085_a = gen_server ''/home/svemula/traceFiles/0.85/workloada/proxyServerTraceFile.txt''
     ''/home/svemula/traceFiles/0.85/workloada/proxy_server_command_line_input.txt''"

definition genproxyServer_085_c :: "disk \<Rightarrow> disk" where
  "genproxyServer_085_c = gen_server ''/home/svemula/traceFiles/0.85/workloadc/proxyServerTraceFile.txt''
     ''/home/svemula/traceFiles/0.85/workloadc/proxy_server_command_line_input.txt''"

definition genproxyServer_099_a :: "disk \<Rightarrow> disk" where
  "genproxyServer_099_a = gen_server ''/home/svemula/traceFiles/0.99/workloada/proxyServerTraceFile.txt''
     ''/home/svemula/traceFiles/0.99/workloada/proxy_server_command_line_input.txt''"

definition genproxyServer_099_c :: "disk \<Rightarrow> disk" where
  "genproxyServer_099_c = gen_server ''/home/svemula/traceFiles/0.99/workloadc/proxyServerTraceFile.txt''
     ''/home/svemula/traceFiles/0.99/workloadc/proxy_server_command_line_input.txt''"

subsection \<open>The generators\<close>

text \<open>When the file cannot be opened the program goes on and its output is lost.\<close>

definition generate_TS_ItemID :: "nat \<Rightarrow> rand_stream \<Rightarrow> disk \<Rightarrow> disk res" where
  "generate_TS_ItemID fuel rnd d =
     (let num_items = 1000000;
          tracefile_path = ''tracefiles/TS_ItemID_'' @ to_string num_items @ ''.txt''
      in bindR (generate_item_ids fuel rnd 0 num_items) (\<lambda>items.
         let (is_open, d1) = open_out tracefile_path d in
         Inr (if is_open then write_out tracefile_path items d1 else d1)))"

text \<open>\<open>benchmarkConfig\<close>.\<close>

definition benchmark_object_size :: nat where "benchmark_object_size = 1024"

definition benchmark_client_batch_size :: int where "benchmark_client_batch_size = 50"

definition benchmark_num_clients :: int where "benchmark_num_clients = 1"

definition benchmark_trace_location :: string where
  "benchmark_trace_location = ''tracefiles/TS_data_binary.bin''"

text \<open>A file that cannot be opened for reading has no lines.\<close>

definition read_ids_from :: "disk \<Rightarrow> string \<Rightarrow> int \<Rightarrow> string list" where
  "read_ids_from d file_name no_item_ids =
     read_item_ids (case d_text d file_name of None \<Rightarrow> [] | Some lines \<Rightarrow> lines) no_item_ids []"

definition generate_TS_tracefile :: "nat \<Rightarrow> trace_draws \<Rightarrow> disk \<Rightarrow> disk res" where
  "generate_TS_tracefile fuel dr d =
     (let keys = read_ids_from d ''../tracefiles/TS_ItemID_10000.txt'' benchmark_no_items in
      bindR (generate_TS_tracefile_binary fuel dr benchmark_object_size benchmark_client_batch_size keys 100000) (\<lambda>data_pair.
      let path = ''../tracefiles/TS_data_binary.bin'' in
      if d_writable d path then Inr (d\<lparr>d_archive := (d_archive d)(path \<mapsto> data_pair)\<rparr>) else Inl (Exit 1)))"

definition get_TS_datapair_from_file :: "disk \<Rightarrow> string \<Rightarrow> (string list \<times> string list) res" where
  "get_TS_datapair_from_file d filepath = (case d_archive d filepath of None \<Rightarrow> Inl (Exit 1) | Some data_pair \<Rightarrow> Inr data_pair)"

text \<open>\<open>load_trace\<close> of \<open>TS_proxy_benchmark.cpp\<close>, from the file on.\<close>

definition load_trace_file :: "disk \<Rightarrow> string \<Rightarrow> int \<Rightarrow> batch list res" where
  "load_trace_file d trace_location client_batch_size =
     bindR (get_TS_datapair_from_file d trace_location) (load_trace client_batch_size)"

subsection \<open>What a line of the log says\<close>

text \<open>The words of a line, and its first command with the word after it.\<close>

function line_words :: "string \<Rightarrow> string list" where
  "line_words s = (case next_word s of None \<Rightarrow> [] | Some (w, r) \<Rightarrow> w # line_words r)"
  by pat_completeness auto
termination
proof (relation "measure length", simp)
  fix s x w r assume "next_word s = Some x" and "(w, r) = x"
  then have "dropWhile is_space s \<noteq> []" and r: "r = dropWhile (\<lambda>c. \<not> is_space c) (dropWhile is_space s)"
    by (auto simp: next_word_def Let_def split: if_splits)
  then obtain c t where c: "dropWhile is_space s = c # t" by (cases "dropWhile is_space s") auto
  then have "\<not> is_space c" using hd_dropWhile [of is_space s] by simp
  then have "length r \<le> length t" using r c length_dropWhile_le [of "\<lambda>c. \<not> is_space c" t] by simp
  also have "Suc (length t) \<le> length s" using length_dropWhile_le [of is_space s] c by simp
  finally show "(r, s) \<in> measure length" by simp
qed

declare line_words.simps [simp del]

definition is_command :: "string \<Rightarrow> bool" where
  "is_command w \<longleftrightarrow> c_string w = quoted ''HMSET'' \<or> c_string w = quoted ''HGETALL''"

text \<open>The operation a command and its key stand for, as a row of a trace.\<close>

definition logged_op :: "string \<Rightarrow> string \<Rightarrow> string \<times> string" where
  "logged_op c k = (drop 1 (butlast k), if c_string c = quoted ''HMSET'' then ''test_value'' else '''')"

definition op_line :: "string \<times> string \<Rightarrow> string" where
  "op_line r = (if snd r = '''' then ''GET '' @ fst r else ''SET '' @ fst r @ '' '' @ snd r)"

definition command_words :: "string \<Rightarrow> string list" where
  "command_words line = dropWhile (\<lambda>w. \<not> is_command w) (line_words line)"

definition log_row :: "string \<Rightarrow> (string \<times> string) option" where
  "log_row line = (case command_words line of c # k # _ \<Rightarrow> Some (logged_op c k) | _ \<Rightarrow> None)"

lemma next_word_words: "next_word s = Some (w, r) \<Longrightarrow> w \<noteq> '''' \<and> (\<forall>c \<in> set w. \<not> is_space c)"
  by (auto simp: next_word_def Let_def dest: set_takeWhileD split: if_splits) (metis dropWhile_eq_Nil_conv hd_dropWhile list.collapse takeWhile.simps(2) list.distinct(1))

lemma line_words_words: "w \<in> set (line_words s) \<Longrightarrow> w \<noteq> '''' \<and> (\<forall>c \<in> set w. \<not> is_space c)"
proof (induction s rule: line_words.induct)
  case (1 s)
  show ?case
  proof (cases "next_word s")
    case None
    then have "line_words s = []" by (subst line_words.simps) simp
    then show ?thesis using 1(2) by simp
  next
    case (Some p)
    obtain v r where p: "p = (v, r)" by fastforce
    then have "line_words s = v # line_words r" using Some by (subst line_words.simps) simp
    then show ?thesis using 1 Some p next_word_words [of s v r] by auto
  qed
qed

lemma take_key_words:
  "take_key s = (case line_words s of [] \<Rightarrow> Inl Undefined_behaviour | k # _ \<Rightarrow> Inr (drop 1 (butlast k)))"
proof (cases "next_word s")
  case (Some p)
  moreover obtain w r where "p = (w, r)" by fastforce
  moreover have "w \<noteq> ''''" using next_word_words Some \<open>p = (w, r)\<close> by blast
  ultimately show ?thesis by (subst line_words.simps) (simp add: take_key_def Let_def)
qed (subst line_words.simps, simp add: take_key_def Let_def)

lemma command_line:
  assumes "is_command w" and "ks = line_words r"
  shows "(if c_string w = quoted ''HMSET'' then bindR (take_key r) (\<lambda>key. Inr (''SET '' @ key @ '' '' @ ''test_value''))
    else bindR (take_key r) (\<lambda>key. Inr (''GET '' @ key))) =
    (case ks of [] \<Rightarrow> Inl Undefined_behaviour | k # _ \<Rightarrow> Inr (op_line (logged_op w k)))"
  unfolding take_key_words assms(2) [symmetric] by (cases ks) (simp_all add: op_line_def logged_op_def)

text \<open>The loop, for every line: it finds the first command, and does not end when there is none.\<close>

lemma bench_line_none:
  assumes "\<not> is_command type" and "command_words s = []"
  shows "bench_line fuel s type = Inl Out_of_fuel"
  using assms
proof (induction fuel arbitrary: s type)
  case (Suc fuel)
  show ?case
  proof (cases "next_word s")
    case None
    have "command_words '''' = []" by (subst command_words_def) (subst line_words.simps, simp add: next_word_def)
    then show ?thesis using Suc.IH [of type "''''"] Suc.prems(1) None by (auto simp: is_command_def)
  next
    case (Some p)
    moreover obtain w r where p: "p = (w, r)" by fastforce
    ultimately have "line_words s = w # line_words r" by (subst line_words.simps) simp
    then have "\<not> is_command w" "command_words r = []" using Suc.prems(2) by (auto simp: command_words_def split: if_splits)
    then show ?thesis using Suc.IH [of w r] Some p by (auto simp: is_command_def)
  qed
qed simp

lemma bench_line_command:
  assumes "command_words s = c # ks" and "length (line_words s) < fuel"
  shows "bench_line fuel s type = (case ks of [] \<Rightarrow> Inl Undefined_behaviour | k # _ \<Rightarrow> Inr (op_line (logged_op c k)))"
  using assms
proof (induction fuel arbitrary: s type)
  case (Suc fuel)
  obtain w r where s: "next_word s = Some (w, r)"
    using Suc.prems(1) by (cases "next_word s") (auto simp: command_words_def line_words.simps [of s])
  then have l: "line_words s = w # line_words r" by (subst line_words.simps) simp
  show ?case
  proof (cases "is_command w")
    case True
    then have "c = w" "ks = line_words r" using Suc.prems(1) l by (auto simp: command_words_def)
    then show ?thesis using command_line [OF True, of ks r] s True by (auto simp: is_command_def)
  next
    case False
    then have "command_words r = c # ks" using Suc.prems(1) l by (simp add: command_words_def)
    from Suc.IH [OF this, of w] show ?thesis using Suc.prems(2) False s l by (auto simp: is_command_def)
  qed
qed simp

lemma bench_line_row: "log_row s = Some r \<Longrightarrow> length (line_words s) < fuel \<Longrightarrow> bench_line fuel s type = Inr (op_line r)"
  by (auto simp: log_row_def bench_line_command split: list.splits)

lemma bench_line_some:
  assumes "log_row s = Some r"
  shows "bench_line fuel s type = Inl Out_of_fuel \<or> bench_line fuel s type = Inr (op_line r)"
proof -
  obtain c k ks where "command_words s = c # k # ks" "r = logged_op c k" using assms by (auto simp: log_row_def split: list.splits)
  then show ?thesis
  proof (induction fuel arbitrary: s type)
    case (Suc fuel)
    obtain w t where s: "next_word s = Some (w, t)"
      using Suc.prems(1) by (cases "next_word s") (auto simp: command_words_def line_words.simps [of s])
    then have l: "line_words s = w # line_words t" by (subst line_words.simps) simp
    show ?case
    proof (cases "is_command w")
      case True
      then have "c = w" "line_words t = k # ks" using Suc.prems(1) l by (auto simp: command_words_def)
      then show ?thesis using command_line [OF True refl, of t] s True Suc.prems(2) by (auto simp: is_command_def)
    next
      case False
      then have "command_words t = c # k # ks" using Suc.prems(1) l by (simp add: command_words_def)
      from Suc.IH [OF this Suc.prems(2), of w] show ?thesis using False s by (auto simp: is_command_def)
    qed
  qed simp
qed

lemma bench_lines_rows:
  assumes "\<forall>l \<in> set log. \<exists>r. log_row l = Some r \<and> length (line_words l) < fuel"
  shows "bench_lines fuel log = Inr (map (\<lambda>l. op_line (the (log_row l))) log)"
proof -
  have "foldR (\<lambda>line out. bindR (bench_line fuel line '''') (\<lambda>l. Inr (out @ [l]))) log out = Inr (out @ map (\<lambda>l. op_line (the (log_row l))) log)" for out
    using assms by (induction log arbitrary: out) (auto simp: bench_line_row)
  then show ?thesis by (simp add: bench_lines_def)
qed

lemma bench_lines_stuck:
  assumes "\<forall>l \<in> set pre. log_row l \<noteq> None" and "command_words line = []"
  shows "bench_lines fuel (pre @ line # post) = Inl Out_of_fuel"
proof -
  have "\<not> is_command ''''" by (simp add: is_command_def c_string_def quoted_def)
  then have n: "bench_line fuel line '''' = Inl Out_of_fuel" using bench_line_none assms(2) by blast
  have "foldR (\<lambda>line out. bindR (bench_line fuel line '''') (\<lambda>l. Inr (out @ [l]))) (pre @ line # post) out = Inl Out_of_fuel" for out
    using assms(1)
  proof (induction pre arbitrary: out)
    case (Cons l pre)
    obtain r where "log_row l = Some r" using Cons.prems by auto
    from bench_line_some [OF this, of fuel "''''"] show ?case using Cons by auto
  qed (simp add: n)
  then show ?thesis by (simp add: bench_lines_def)
qed

subsection \<open>The converted files are read back\<close>

lemma blank_split_first: "CHR '' '' \<notin> set p \<Longrightarrow> blank_split (p @ CHR '' '' # r) = (p, r)"
  by (simp add: blank_split_def str_find_first)

lemma parse_op_fields:
  assumes "blank_split line = (opn, key)" and "k \<noteq> ''PUT''" and "k \<noteq> ''GET''"
    and "if str_find key CHR '' '' 0 = None then (k, v) = (key, '''') else blank_split key = (k, v)"
  shows "parse_op line = Inr (k, v)"
  using assms by (cases "str_find key CHR '' '' 0") (simp_all add: parse_op_def)

lemma parse_op_line:
  assumes "CHR '' '' \<notin> set (fst r)" and "fst r \<noteq> ''GET''" and "fst r \<noteq> ''PUT''"
  shows "parse_op (op_line r) = Inr r"
proof -
  obtain k v where r: "r = (k, v)" by fastforce
  have "blank_split (''GET '' @ k) = (''GET'', k)" using blank_split_first [of "''GET''" k] by simp
  moreover have "blank_split (''SET '' @ k @ '' '' @ v) = (''SET'', k @ CHR '' '' # v)" using blank_split_first [of "''SET''"] by simp
  moreover have "str_find k CHR '' '' 0 = None" using assms(1) r by (simp add: str_find_none)
  moreover have "blank_split (k @ CHR '' '' # v) = (k, v)" "str_find (k @ CHR '' '' # v) CHR '' '' 0 = Some (length k)"
    using assms(1) r blank_split_first str_find_first by simp_all
  ultimately show ?thesis using assms(2,3) r
    parse_op_fields [of "''GET '' @ k" "''GET''" k k v] parse_op_fields [of "''SET '' @ k @ '' '' @ v" "''SET''" "k @ CHR '' '' # v" k v]
    by (simp add: op_line_def)
qed

lemma log_row_plain:
  assumes "log_row l = Some r" shows "CHR '' '' \<notin> set (fst r)"
proof -
  obtain c k ks where "command_words l = c # k # ks" and r: "r = logged_op c k" using assms by (auto simp: log_row_def split: list.splits)
  then have "k \<in> set (line_words l)" unfolding command_words_def by (metis list.set_intros set_dropWhileD)
  then have "CHR '' '' \<notin> set k" using line_words_words by (fastforce simp: is_space_def)
  then show ?thesis using r by (auto simp: logged_op_def dest: in_set_dropD in_set_butlastD)
qed

lemma load_trace_lines_total:
  assumes "map parse_op lines = map Inr rows" obtains tr where "load_trace_lines n lines = Inr tr"
proof -
  have "\<exists>s'. foldR (\<lambda>line s. bindR (parse_op line) (\<lambda>row. Inr (load_op n row s))) lines s = Inr s'" for s
    using assms by (induction lines arbitrary: s rows) auto
  then obtain s' where "foldR (\<lambda>line s. bindR (parse_op line) (\<lambda>row. Inr (load_op n row s))) lines load_start = Inr s'" by blast
  then show ?thesis using that by (simp add: load_trace_lines_def)
qed

lemma server_lines_load:
  assumes "\<forall>l \<in> set lines. CHR '' '' \<notin> set l \<and> l \<noteq> ''SET''"
  shows "getKeysValues (server_lines lines) (ks, vs) = Inr (ks @ lines, vs @ map (\<lambda>_. ''test'') lines)"
  using assms
proof (induction lines arbitrary: ks vs)
  case (Cons l lines)
  have "parse_line (''SET '' @ l @ '' test'') = Inr (l, ''test'')"
  proof -
    have "blank_split (''SET '' @ l @ '' test'') = (''SET'', l @ CHR '' '' # ''test'')" using blank_split_first [of "''SET''"] by simp
    then show ?thesis using Cons.prems blank_split_first [of l] str_find_first [of "CHR '' ''" l] by (simp add: parse_line_def Let_def)
  qed
  then show ?case using Cons by (simp add: getKeysValues_def server_lines_def)
qed (simp add: getKeysValues_def server_lines_def)

end
