(* ===== verification/Workload_Claims.thy ===== *)
theory Workload_Claims
  imports Trace_Claims Workload_Files Start_Claims
begin

text \<open>Properties of the programs that prepare the input files.\<close>

section \<open>Converted workloads\<close>


definition sample_log :: "string list" where
  "sample_log = [''1.5 [0] '' @ quoted ''HMSET'' @ '' '' @ quoted ''user1'' @ '' x'', ''1.6 [0] '' @ quoted ''HGETALL'' @ '' '' @ quoted ''user2'']"

definition sample_disk :: "string \<Rightarrow> string list \<Rightarrow> disk" where
  "sample_disk path lines = \<lparr>d_text = [path \<mapsto> lines], d_archive = Map.empty, d_writable = \<lambda>_. True\<rparr>"

lemma sample_log_rows: "map log_row sample_log = [Some (''user1'', ''test_value''), Some (''user2'', '''')]"
proof -
  have "(map log_row sample_log = [Some (''user1'', ''test_value''), Some (''user2'', '''')]) = True" by code_simp
  then show ?thesis by simp
qed


text \<open>The converted data of the server: every line becomes a key, with one fixed value.\<close>

lemma converted_data_loads:
  assumes "d_text d input = Some lines" and "d_writable d output" and "\<forall>l \<in> set lines. CHR '' '' \<notin> set l \<and> l \<noteq> ''SET''"
  shows "\<exists>out. d_text (gen_server input output d) output = Some out \<and>
    getKeysValues out ([], []) = Inr (lines, map (\<lambda>_. ''test'') lines)"
  using assms server_lines_load [OF assms(3), of "[]" "[]"] by (simp add: gen_server_def open_out_def write_out_def)

section \<open>Programs that do not end\<close>

lemma trace_loop_without_keys: "0 < row_count \<Longrightarrow> trace_loop fuel dr osize b [] row_count pos 0 ts rows = Inl Out_of_fuel"
proof (induction fuel arbitrary: pos ts rows)
  case (Suc fuel)
  have "batched_keys b [] = []" by (simp add: batched_keys_def)
  moreover have "wrap32 0 = 0" by (simp add: wrap32_id fits32_def int_min_def int_max_def)
  ultimately show ?case using Suc by simp
qed simp

text \<open>
  C40.  Two of the programs never end on inputs they do not check: the converter of the client workload on a log
  with a line without a command, and the generator of traces when the file of identifiers cannot be opened.
\<close>

theorem workload_programs_hang:
  assumes "d_text d input = Some (pre @ line # post)" and "d_writable d output" and "\<forall>l \<in> set pre. log_row l \<noteq> None"
    and "command_words line = []" and "d_text d' ''../tracefiles/TS_ItemID_10000.txt'' = None"
  shows "gen_benchmark input output fuel d = Inl Out_of_fuel \<and> generate_TS_tracefile fuel dr d' = Inl Out_of_fuel"
proof
  show "gen_benchmark input output fuel d = Inl Out_of_fuel"
    using assms(1,2) bench_lines_stuck [OF assms(3,4)] by (simp add: gen_benchmark_def open_out_def)
  show "generate_TS_tracefile fuel dr d' = Inl Out_of_fuel"
    using assms(5) trace_loop_without_keys [of 100000]
    by (simp add: generate_TS_tracefile_def read_ids_from_def generate_TS_tracefile_binary_def benchmark_client_batch_size_def)
qed

theorem workload_programs_hang_witness:
  "genProxyBenchmark_099_c 1000 (sample_disk ''/home/svemula/traceFiles/0.99/workloadc/runKeys.txt'' (sample_log @ [''OK''])) = Inl Out_of_fuel"
proof -
  let ?in = "''/home/svemula/traceFiles/0.99/workloadc/runKeys.txt''"
  let ?d = "sample_disk ?in (sample_log @ [''OK''])"
  have 1: "d_text ?d ?in = Some (sample_log @ ''OK'' # [])" "d_writable ?d p" "d_text ?d ''../tracefiles/TS_ItemID_10000.txt'' = None" for p
    by (simp_all add: sample_disk_def)
  have 2: "\<forall>l \<in> set sample_log. log_row l \<noteq> None"
  proof
    fix l assume "l \<in> set sample_log"
    then have "log_row l \<in> set (map log_row sample_log)" by simp
    then show "log_row l \<noteq> None" unfolding sample_log_rows by auto
  qed
  have "(command_words ''OK'' = []) = True" by code_simp
  then have 3: "command_words ''OK'' = []" by simp
  show ?thesis using workload_programs_hang [OF 1(1,2) 2 3 1(3)] unfolding genProxyBenchmark_099_c_def by blast
qed

section \<open>From identifiers to batches\<close>

lemma configured_trace:
  assumes "100000 < fuel" and "1000 \<le> length ids" and "distinct ids" and "\<forall>x \<in> set ids. typed_key x"
  obtains keys vals tr where
    "\<And>d. d_text d ''../tracefiles/TS_ItemID_10000.txt'' = Some ids \<Longrightarrow> d_writable d ''../tracefiles/TS_data_binary.bin'' \<Longrightarrow>
       generate_TS_tracefile fuel dr d = Inr (d\<lparr>d_archive := (d_archive d)(''../tracefiles/TS_data_binary.bin'' \<mapsto> (keys, vals))\<rparr>)"
    "distinct (puts (zip keys vals))" "\<forall>k \<in> set (puts (zip keys vals)). \<exists>x t. x \<in> set ids \<and> k = ts_key x t \<and> 1700000000 \<le> t"
    "\<And>d. d_archive d benchmark_trace_location = Some (keys, vals) \<Longrightarrow>
       load_trace_file d benchmark_trace_location benchmark_client_batch_size = Inr tr"
    "concat (map batch_rows tr) = zip keys vals" "\<forall>b \<in> set tr. batch_ok 50 b"
proof -
  let ?items = "take 1000 ids"
  have it: "\<forall>k \<in> set ?items. typed_key k" "distinct ?items" "?items \<noteq> []" "length ?items = 1000"
    using assms by (auto dest: in_set_takeD)
  have c: "4 dvd (1024 :: nat)" "(0 :: nat) < 1024" "(0 :: int) < 50" "50 \<le> int_max" "100000 + int (length ?items) < 2 ^ 31"
    "1700000000 + 100000 * int 1024 < 2 ^ 31" "0 < fuel" "100000 < int fuel" "(0 :: int) \<le> 100000"
    using assms(1) it(4) by (simp_all add: int_max_def)
  obtain keys vals where g: "generate_TS_tracefile_binary fuel dr 1024 50 ?items 100000 = Inr (keys, vals)"
    "length vals = length keys" "distinct (puts (zip keys vals))"
    "\<forall>k \<in> set (puts (zip keys vals)). \<exists>x t. x \<in> set ?items \<and> k = ts_key x t \<and> 1700000000 \<le> t"
    using generated_trace_ok [OF it(1-3) c] by blast
  have b: "(0 :: nat) < 50" "int 50 \<le> int_max" by (simp_all add: int_max_def)
  obtain tr where tr: "load_trace 50 (keys, vals) = Inr tr" "concat (map batch_rows tr) = zip keys vals" "\<forall>b \<in> set tr. batch_ok 50 b"
    using load_trace_batches [OF b g(2)] by auto
  have "\<forall>k \<in> set (puts (zip keys vals)). \<exists>x t. x \<in> set ids \<and> k = ts_key x t \<and> 1700000000 \<le> t"
    using g(4) by (meson in_set_takeD)
  then show ?thesis
    by (rule that [OF _ g(3) _ _ tr(2,3), rotated])
      (use g(1) tr(1) in \<open>simp_all add: generate_TS_tracefile_def read_ids_from_def read_item_ids_take benchmark_no_items_def
         benchmark_object_size_def benchmark_client_batch_size_def load_trace_file_def get_TS_datapair_from_file_def\<close>)
qed

text \<open>
  C19.  The workload of the benchmark, as configured, from end to end: the generator of identifiers ends and writes
  a million of them; given a copy of that file under the name it reads, the generator of traces ends after at most
  100000 rounds; and the benchmark, started where it finds the trace, cuts it into batches of at most 50 rows that
  are all GETs or all PUTs and keep its order.  The trace suits the proxy: no bucket is put twice, and all
  of them are later than the initial data of the server.
\<close>

theorem configured_workload:
  assumes "1000000 \<le> fuel1" and "100000 < fuel2" and "d_writable d0 ''tracefiles/TS_ItemID_1000000.txt''"
  shows "\<exists>d1 ids. generate_TS_ItemID fuel1 rnd d0 = Inr d1 \<and> d_text d1 ''tracefiles/TS_ItemID_1000000.txt'' = Some ids \<and>
    length ids = 1000000 \<and>
    (\<forall>d2. d_text d2 ''../tracefiles/TS_ItemID_10000.txt'' = Some ids \<and> d_writable d2 ''../tracefiles/TS_data_binary.bin'' \<longrightarrow>
      (\<exists>d3 keys values. generate_TS_tracefile fuel2 dr d2 = Inr d3 \<and> d_archive d3 ''../tracefiles/TS_data_binary.bin'' = Some (keys, values) \<and>
        distinct (puts (zip keys values)) \<and>
        (\<forall>k \<in> set (puts (zip keys values)). \<exists>x t. x \<in> set ids \<and> k = ts_key x t \<and> 1700000000 \<le> t) \<and>
        (\<forall>d4. d_archive d4 benchmark_trace_location = Some (keys, values) \<longrightarrow>
          (\<exists>tr. load_trace_file d4 benchmark_trace_location benchmark_client_batch_size = Inr tr \<and>
             concat (map batch_rows tr) = zip keys values \<and> (\<forall>b \<in> set tr. batch_ok 50 b)))))"
proof -
  have n: "to_string 1000000 = ''1000000''" by (simp add: to_string_def nat_str.simps digit_def char_of_def bit_0)
  have "0 \<le> (1000000 :: int)" "1000000 \<le> int_max" "nat 1000000 \<le> fuel1" using assms(1) by (simp_all add: int_max_def)
  from generated_ids_facts [OF this, of rnd 0] obtain ids where ids: "generate_item_ids fuel1 rnd 0 1000000 = Inr ids"
    "int (length ids) = 1000000" "distinct ids" "\<forall>x \<in> set ids. wf_item x \<and> get_data_type x \<in> {''int'', ''float'', ''bool''}" by blast
  let ?d1 = "d0\<lparr>d_text := (d_text d0)(''tracefiles/TS_ItemID_1000000.txt'' \<mapsto> ids)\<rparr>"
  have 1: "generate_TS_ItemID fuel1 rnd d0 = Inr ?d1"
    using ids(1) assms(3) n by (simp add: generate_TS_ItemID_def open_out_def write_out_def)
  have l: "length ids = 1000000" using ids(2) by linarith
  have "1000 \<le> length ids" "\<forall>x \<in> set ids. typed_key x" using l ids(4) by (auto simp: typed_key_def)
  note T = configured_trace [OF assms(2) this(1) ids(3) this(2), where dr = dr]
  obtain keys vals tr where t:
    "\<And>d. d_text d ''../tracefiles/TS_ItemID_10000.txt'' = Some ids \<Longrightarrow> d_writable d ''../tracefiles/TS_data_binary.bin'' \<Longrightarrow>
       generate_TS_tracefile fuel2 dr d = Inr (d\<lparr>d_archive := (d_archive d)(''../tracefiles/TS_data_binary.bin'' \<mapsto> (keys, vals))\<rparr>)"
    "distinct (puts (zip keys vals))" "\<forall>k \<in> set (puts (zip keys vals)). \<exists>x t. x \<in> set ids \<and> k = ts_key x t \<and> 1700000000 \<le> t"
    "\<And>d. d_archive d benchmark_trace_location = Some (keys, vals) \<Longrightarrow>
       load_trace_file d benchmark_trace_location benchmark_client_batch_size = Inr tr"
    "concat (map batch_rows tr) = zip keys vals" "\<forall>b \<in> set tr. batch_ok 50 b" by (rule T) blast
  show ?thesis
  proof (rule exI [of _ ?d1], rule exI [of _ ids], intro conjI allI impI)
    fix d2 :: disk assume d2: "d_text d2 ''../tracefiles/TS_ItemID_10000.txt'' = Some ids \<and> d_writable d2 ''../tracefiles/TS_data_binary.bin''"
    show "\<exists>d3 keys values. generate_TS_tracefile fuel2 dr d2 = Inr d3 \<and> d_archive d3 ''../tracefiles/TS_data_binary.bin'' = Some (keys, values) \<and>
        distinct (puts (zip keys values)) \<and>
        (\<forall>k \<in> set (puts (zip keys values)). \<exists>x t. x \<in> set ids \<and> k = ts_key x t \<and> 1700000000 \<le> t) \<and>
        (\<forall>d4. d_archive d4 benchmark_trace_location = Some (keys, values) \<longrightarrow>
          (\<exists>tr. load_trace_file d4 benchmark_trace_location benchmark_client_batch_size = Inr tr \<and>
             concat (map batch_rows tr) = zip keys values \<and> (\<forall>b \<in> set tr. batch_ok 50 b)))"
      by (rule exI, rule exI [of _ keys], rule exI [of _ vals], rule conjI [OF t(1) [OF conjunct1 [OF d2] conjunct2 [OF d2]]]) (use t(2-) in simp)
  qed (use 1 l in simp_all)
qed

definition sample_draws :: trace_draws where
  "sample_draws = \<lparr>dr_cells = \<lambda>_ _. 0, dr_bools = \<lambda>_ _. False, dr_samples = \<lambda>_. (0, 0), dr_rand = \<lambda>i. i\<rparr>"

theorem configured_workload_witness:
  "\<exists>ids d3 keys values. generate_TS_tracefile 100001 sample_draws
      (sample_disk ''../tracefiles/TS_ItemID_10000.txt'' ids) = Inr d3 \<and> length ids = 1000000 \<and>
      d_archive d3 ''../tracefiles/TS_data_binary.bin'' = Some (keys, values) \<and> distinct (puts (zip keys values))"
proof -
  have "(1000000 :: nat) \<le> 1000000" "(100000 :: nat) < 100001" by simp_all
  moreover have "d_writable (sample_disk [] []) ''tracefiles/TS_ItemID_1000000.txt''" by (simp add: sample_disk_def)
  ultimately have "\<exists>d1 ids. generate_TS_ItemID 1000000 (\<lambda>p. p) (sample_disk [] []) = Inr d1 \<and>
    d_text d1 ''tracefiles/TS_ItemID_1000000.txt'' = Some ids \<and> length ids = 1000000 \<and>
    (\<forall>d2. d_text d2 ''../tracefiles/TS_ItemID_10000.txt'' = Some ids \<and> d_writable d2 ''../tracefiles/TS_data_binary.bin'' \<longrightarrow>
      (\<exists>d3 keys values. generate_TS_tracefile 100001 sample_draws d2 = Inr d3 \<and>
        d_archive d3 ''../tracefiles/TS_data_binary.bin'' = Some (keys, values) \<and> distinct (puts (zip keys values)) \<and>
        (\<forall>k \<in> set (puts (zip keys values)). \<exists>x t. x \<in> set ids \<and> k = ts_key x t \<and> 1700000000 \<le> t) \<and>
        (\<forall>d4. d_archive d4 benchmark_trace_location = Some (keys, values) \<longrightarrow>
          (\<exists>tr. load_trace_file d4 benchmark_trace_location benchmark_client_batch_size = Inr tr \<and>
             concat (map batch_rows tr) = zip keys values \<and> (\<forall>b \<in> set tr. batch_ok 50 b)))))"
    by (rule configured_workload)
  then obtain ids where ids: "length ids = 1000000"
    "d_text d2 ''../tracefiles/TS_ItemID_10000.txt'' = Some ids \<and> d_writable d2 ''../tracefiles/TS_data_binary.bin'' \<Longrightarrow>
      \<exists>d3 keys values. generate_TS_tracefile 100001 sample_draws d2 = Inr d3 \<and>
        d_archive d3 ''../tracefiles/TS_data_binary.bin'' = Some (keys, values) \<and> distinct (puts (zip keys values))" for d2
    by (elim exE conjE) meson
  have "d_text (sample_disk ''../tracefiles/TS_ItemID_10000.txt'' ids) ''../tracefiles/TS_ItemID_10000.txt'' = Some ids \<and>
    d_writable (sample_disk ''../tracefiles/TS_ItemID_10000.txt'' ids) ''../tracefiles/TS_data_binary.bin''" by (simp add: sample_disk_def)
  from ids(2) [OF this] ids(1) show ?thesis by blast
qed

end
