(* ===== verification/Benchmark_Programs.thy ===== *)
theory Benchmark_Programs
  imports Workload_Files Server_Ready Thrift_Binary
begin

text \<open>
  The two benchmark programs (\<open>benchmark/src/TS_proxy_benchmark.cpp\<close>, \<open>proxy_benchmark.cpp\<close>): the options, the
  phases of a client, its report, and the start of \<open>main\<close>.  The clock is an argument: what the program computes from it, the
  elapsed time, the latency of a batch and the throughput, is given by \<open>measures\<close>.

  \<open>run_benchmark\<close>, \<open>warmup\<close> and \<open>cooldown\<close> take the client by value.  The copy shares the connection, the queue of
  requests and the counter of answers with the original, but it has its own sequence number.
\<close>

subsection \<open>The phases\<close>

record measures =
  ms_elapsed :: "nat \<Rightarrow> int"
  ms_latency :: "nat \<Rightarrow> int"
  ms_xput :: "int \<Rightarrow> int"

definition by_value :: "(('p, 'h) async_client, 'a) io \<Rightarrow> (('p, 'h) async_client, 'a) io" where
  "by_value act = (\<lambda>c. case act c of (r, c') \<Rightarrow>
     (r, c'\<lparr>sequence_num := sequence_num c, ac_client_id := ac_client_id c, seq_id := seq_id c, in_flight_limit := in_flight_limit c\<rparr>))"

text \<open>\<open>run_benchmark\<close> around its loop: with \<open>stats\<close> every batch adds a latency, and the throughput goes to \<open>xput\<close>.\<close>

definition measured_run ::
  "'p tproto \<Rightarrow> (('p, 'h) async_client, unit) io \<Rightarrow> measures \<Rightarrow> int \<Rightarrow> bool \<Rightarrow> batch list \<Rightarrow> int list \<times> int
   \<Rightarrow> (('p, 'h) async_client, int list \<times> int) io" where
  "measured_run P others ms run_time stats trace lx = (\<lambda>c0.
     bindIO (run_benchmark P others (ms_elapsed ms) run_time 0 trace) (\<lambda>n c.
       if stats then
         (case add32 (num_requests_satisfied c) (- num_requests_satisfied c0) of
            Inl e \<Rightarrow> (Inl e, c)
          | Inr ops \<Rightarrow> (Inr (fst lx @ map (ms_latency ms) [0..<n], wrap32 (snd lx + ms_xput ms ops)), c))
       else (Inr lx, c)) c0)"

definition warmup ::
  "'p tproto \<Rightarrow> (('p, 'h) async_client, unit) io \<Rightarrow> measures \<Rightarrow> batch list \<Rightarrow> int list \<times> int
   \<Rightarrow> (('p, 'h) async_client, int list \<times> int) io" where
  "warmup P others ms trace lx = by_value (measured_run P others ms 15 False trace lx)"

definition cooldown ::
  "'p tproto \<Rightarrow> (('p, 'h) async_client, unit) io \<Rightarrow> measures \<Rightarrow> batch list \<Rightarrow> int list \<times> int
   \<Rightarrow> (('p, 'h) async_client, int list \<times> int) io" where
  "cooldown P others ms trace lx = by_value (measured_run P others ms 15 False trace lx)"

subsection \<open>A client\<close>

definition report_lines :: "int list \<Rightarrow> int \<Rightarrow> string list" where
  "report_lines latencies indiv_xput = map to_string latencies @ [''Xput: '' @ to_string indiv_xput]"

definition write_report :: "string \<Rightarrow> int list \<Rightarrow> int \<Rightarrow> disk \<Rightarrow> disk" where
  "write_report location latencies indiv_xput d =
     (let (is_open, d1) = open_out location d in
      if is_open then write_out location (report_lines latencies indiv_xput) d1 else d1)"

text \<open>\<open>client\<close> of \<open>proxy_benchmark.cpp\<close>: first what follows \<open>client.init\<close>, with the measures of the three phases.\<close>

definition bench_phases ::
  "'p tproto \<Rightarrow> (('p, 'h) async_client, unit) io \<Rightarrow> measures \<Rightarrow> measures \<Rightarrow> measures \<Rightarrow> int \<Rightarrow> batch list \<Rightarrow> string \<Rightarrow> int \<times> disk
   \<Rightarrow> (('p, 'h) async_client, int \<times> disk) io" where
  "bench_phases P others ms1 ms2 ms3 idx trace output_directory xd =
     bindIO (warmup P others ms1 trace ([], 0)) (\<lambda>lx1.
     bindIO (by_value (measured_run P others ms2 30 True trace lx1)) (\<lambda>(latencies, indiv_xput).
     let d1 = write_report (output_directory @ ''/'' @ to_string idx) latencies indiv_xput (snd xd);
         xput = wrap32 (fst xd + indiv_xput) in
     bindIO (cooldown P others ms3 trace (latencies, indiv_xput)) (\<lambda>_.
     bindIO async_client_finish (\<lambda>_. returnIO (xput, d1)))))"

definition bench_client ::
  "'p tproto \<Rightarrow> nat \<Rightarrow> (('p, 'h) link, unit) io \<Rightarrow> int \<Rightarrow> (('p, 'h) async_client, unit) io \<Rightarrow> measures \<Rightarrow> measures \<Rightarrow> measures
   \<Rightarrow> int \<Rightarrow> batch list \<Rightarrow> string \<Rightarrow> int \<times> disk \<Rightarrow> (('p, 'h) async_client, int \<times> disk) io" where
  "bench_client P n peer r0 others ms1 ms2 ms3 idx trace output_directory xd =
     bindIO (async_client_init P n peer r0) (\<lambda>_. bench_phases P others ms1 ms2 ms3 idx trace output_directory xd)"

text \<open>\<open>client\<close> of \<open>TS_proxy_benchmark.cpp\<close> has no warm-up and no cool-down, and overwrites its index.\<close>

definition ts_bench_run ::
  "'p tproto \<Rightarrow> (('p, 'h) async_client, unit) io \<Rightarrow> measures \<Rightarrow> int \<Rightarrow> batch list \<Rightarrow> string \<Rightarrow> int \<times> disk
   \<Rightarrow> (('p, 'h) async_client, int \<times> disk) io" where
  "ts_bench_run P others ms idx0 trace output_directory xd =
     (let idx = 1 in
      bindIO (by_value (measured_run P others ms 30 True trace ([], 0))) (\<lambda>(latencies, indiv_xput).
      let d1 = write_report (output_directory @ ''/'' @ to_string idx) latencies indiv_xput (snd xd);
          xput = wrap32 (fst xd + indiv_xput) in
      bindIO async_client_finish (\<lambda>_. returnIO (xput, d1))))"

definition ts_bench_client ::
  "'p tproto \<Rightarrow> nat \<Rightarrow> (('p, 'h) link, unit) io \<Rightarrow> int \<Rightarrow> (('p, 'h) async_client, unit) io \<Rightarrow> measures
   \<Rightarrow> int \<Rightarrow> batch list \<Rightarrow> string \<Rightarrow> int \<times> disk \<Rightarrow> (('p, 'h) async_client, int \<times> disk) io" where
  "ts_bench_client P n peer r0 others ms idx trace output_directory xd =
     bindIO (async_client_init P n peer r0) (\<lambda>_. ts_bench_run P others ms idx trace output_directory xd)"

subsection \<open>Options and the start of \<open>main\<close>\<close>

record bench_opts =
  proxy_host :: string
  proxy_port :: int
  trace_location :: string
  bench_object_size :: int
  num_clients :: int
  output_directory :: string

text \<open>\<open>date_string\<close> is the time with blanks removed.\<close>

definition bench_opts_default :: "string \<Rightarrow> bench_opts" where
  "bench_opts_default date_string =
     \<lparr>proxy_host = ''192.168.252.109'', proxy_port = 9090, trace_location = '''', bench_object_size = 1024, num_clients = 1,
      output_directory = ''data/'' @ date_string\<rparr>"

text \<open>\<open>b\<close> is among the letters \<open>getopt\<close> accepts, but has no case.\<close>

definition bench_option :: "char \<times> string \<Rightarrow> bench_opts \<Rightarrow> bench_opts res" where
  "bench_option letter_arg bo = (case letter_arg of (c, optarg) \<Rightarrow>
     if c = CHR ''h'' then Inr (bo\<lparr>proxy_host := optarg\<rparr>)
     else if c = CHR ''p'' then bindR (atoi optarg) (\<lambda>n. Inr (bo\<lparr>proxy_port := n\<rparr>))
     else if c = CHR ''t'' then Inr (bo\<lparr>trace_location := optarg\<rparr>)
     else if c = CHR ''s'' then bindR (atoi optarg) (\<lambda>n. Inr (bo\<lparr>bench_object_size := n\<rparr>))
     else if c = CHR ''n'' then bindR (atoi optarg) (\<lambda>n. Inr (bo\<lparr>num_clients := n\<rparr>))
     else if c = CHR ''o'' then Inr (bo\<lparr>output_directory := optarg\<rparr>)
     else Inl (Exit (- 1)))"

text \<open>\<open>main\<close> up to the start of the threads; a trace file that cannot be opened has no lines.\<close>

definition bench_start :: "string \<Rightarrow> (char \<times> string) list \<Rightarrow> disk \<Rightarrow> (bench_opts \<times> batch list) res" where
  "bench_start date_string opts d =
     bindR (foldR bench_option opts (bench_opts_default date_string)) (\<lambda>bo.
     bindR (load_trace_lines 50 (case d_text d (trace_location bo) of None \<Rightarrow> [] | Some lines \<Rightarrow> lines)) (\<lambda>trace.
     Inr (bo, trace)))"

definition ts_bench_opts_default :: "string \<Rightarrow> bench_opts" where
  "ts_bench_opts_default date_string =
     \<lparr>proxy_host = ''192.168.252.109'', proxy_port = 9090, trace_location = benchmark_trace_location,
      bench_object_size = int benchmark_object_size, num_clients = benchmark_num_clients, output_directory = ''data/'' @ date_string\<rparr>"

definition ts_bench_option :: "char \<times> string \<Rightarrow> bench_opts \<Rightarrow> bench_opts res" where
  "ts_bench_option letter_arg bo = (case letter_arg of (c, optarg) \<Rightarrow>
     if c = CHR ''h'' then Inr (bo\<lparr>proxy_host := optarg\<rparr>)
     else if c = CHR ''p'' then bindR (atoi optarg) (\<lambda>n. Inr (bo\<lparr>proxy_port := n\<rparr>))
     else Inl (Exit (- 1)))"

text \<open>The arguments are written to a file of the output directory first.\<close>

definition ts_bench_start ::
  "string \<Rightarrow> string list \<Rightarrow> (char \<times> string) list \<Rightarrow> disk \<Rightarrow> (bench_opts \<times> batch list \<times> disk) res" where
  "ts_bench_start date_string argv opts d =
     bindR (foldR ts_bench_option opts (ts_bench_opts_default date_string)) (\<lambda>bo.
     let filePath = output_directory bo @ ''/'' @ ''client_args.txt'';
         (is_open, d1) = open_out filePath d;
         d2 = (if is_open then write_out filePath argv d1 else d1) in
     bindR (load_trace_file d2 (trace_location bo) benchmark_client_batch_size) (\<lambda>trace.
     Inr (bo, trace, d2)))"

text \<open>
  \<open>main\<close>: \<open>start_client\<close> opens a connection and runs \<open>bench_client\<close> (\<open>ts_bench_client\<close>) on it.  The threads of the
  clients share only the sum of the throughputs and the output directory; they are run one after the other here.
\<close>

definition bench_main ::
  "(bench_opts \<Rightarrow> batch list \<Rightarrow> int \<Rightarrow> int \<times> disk \<Rightarrow> (int \<times> disk) res) \<Rightarrow> string \<Rightarrow> (char \<times> string) list \<Rightarrow> disk \<Rightarrow> (int \<times> disk) res" where
  "bench_main start_client date_string opts d =
     bindR (bench_start date_string opts d) (\<lambda>(bo, trace).
     foldR (\<lambda>i. start_client bo trace (int i)) [0..<nat (num_clients bo)] (0, d))"

definition ts_bench_main ::
  "(bench_opts \<Rightarrow> batch list \<Rightarrow> int \<Rightarrow> int \<times> disk \<Rightarrow> (int \<times> disk) res) \<Rightarrow> string \<Rightarrow> string list \<Rightarrow> (char \<times> string) list \<Rightarrow> disk
   \<Rightarrow> (int \<times> disk) res" where
  "ts_bench_main start_client date_string argv opts d =
     bindR (ts_bench_start date_string argv opts d) (\<lambda>(bo, trace, d1).
     foldR (\<lambda>i. start_client bo trace (int i)) [0..<nat (num_clients bo)] (0, d1))"

subsection \<open>What goes over the wire\<close>

text \<open>The message of a batch, and the messages of the first \<open>n\<close> batches of a trace, numbered from \<open>k\<close>.\<close>

definition batch_toks :: "sequence_id \<Rightarrow> batch \<Rightarrow> tok list" where
  "batch_toks sq b = (if snd b = [] then K_msg ''async_get_batch'' T_ONEWAY 0 # async_get_batch_args_toks sq (fst b)
     else K_msg ''async_put_batch'' T_ONEWAY 0 # async_put_batch_args_toks sq (fst b) (snd b))"

fun numbered :: "sequence_id \<Rightarrow> int \<Rightarrow> batch list \<Rightarrow> tok list" where
  "numbered sq k [] = []"
| "numbered sq k (b # bs) = batch_toks (sequence_id_set_client_seq_no k sq) b @ numbered sq (k + 1) bs"

definition sendable :: "batch \<Rightarrow> bool" where
  "sendable b \<longleftrightarrow> strs_ok (fst b) \<and> strs_ok (snd b)"

text \<open>How many batches are sent before the time is over.\<close>

fun sent :: "(nat \<Rightarrow> int) \<Rightarrow> int \<Rightarrow> nat \<Rightarrow> batch list \<Rightarrow> nat" where
  "sent elapsed run_time i [] = 0"
| "sent elapsed run_time i (b # trace) = (if elapsed i < wrap32 (run_time * 1000000) then Suc (sent elapsed run_time (i + 1) trace) else 0)"

lemma sent_le: "sent elapsed run_time i trace \<le> length trace"
  by (induction trace arbitrary: i) auto

definition free_slots :: "('p, 'h) async_client \<Rightarrow> int" where
  "free_slots c = in_flight_limit c - int (length (m_queue (requests c)))"

text \<open>A client that can send \<open>n\<close> more requests.\<close>

definition can_send :: "nat \<Rightarrow> ('p, 'h) async_client \<Rightarrow> bool" where
  "can_send n c \<longleftrightarrow> in_flight_ok c \<and> int n \<le> free_slots c \<and> fits64 (sequence_num c) \<and> fits64 (sequence_num c + int n) \<and>
     sequence_id_ok (seq_id c)"

lemma batch_sender_sends:
  assumes "thrift_protocol P C" and "sequence_id_ok sq" and "sendable b" and "C (lk_up l) ts"
  obtains p where "batch_sender P b sq l = (Inr (), l\<lparr>lk_up := p\<rparr>)" "C p (ts @ batch_toks sq b)"
proof (cases "snd b = []")
  case True
  from emitsD [OF thrift_protocol.send_async_get_batch_writes [OF assms(1,2)] assms(4), of "fst b"] assms(3)
  obtain p where "waffle_thriftClient_send_async_get_batch P sq (fst b) (lk_up l) = (Inr (), p)" "C p (ts @ batch_toks sq b)"
    by (auto simp: True sendable_def batch_toks_def)
  then show ?thesis using that True by (simp add: batch_sender_def waffle_thriftClient_async_get_batch_def on_up_def)
next
  case False
  from emitsD [OF thrift_protocol.send_async_put_batch_writes [OF assms(1,2)] assms(4), of "fst b" "snd b"] assms(3)
  obtain p where "waffle_thriftClient_send_async_put_batch P sq (fst b) (snd b) (lk_up l) = (Inr (), p)" "C p (ts @ batch_toks sq b)"
    by (auto simp: False sendable_def batch_toks_def)
  then show ?thesis using that False by (simp add: batch_sender_def waffle_thriftClient_async_put_batch_def on_up_def)
qed

lemma issue_batch:
  assumes "thrift_protocol P C" and "can_send (Suc n) c" and "sendable b" and "C (lk_up (ac_link c)) ts"
    and "sq = sequence_id_set_client_seq_no (sequence_num c) (seq_id c)"
  obtains c' where "issue_request (batch_sender P b) (batch_code b) c = (Inr (), c')" "can_send n c'"
    "C (lk_up (ac_link c')) (ts @ batch_toks sq b)" "sequence_num c' = sequence_num c + 1" "seq_id c' = sq"
    "total c' = total c" "in_flight_limit c' = in_flight_limit c" "m_queue (requests c') = m_queue (requests c) @ [batch_code b]"
proof -
  note A = assms(2) [unfolded can_send_def]
  have sq: "sequence_id_ok sq" using A by (simp add: assms(5) sequence_id_ok_def sequence_id_set_client_seq_no_def)
  obtain p where p: "batch_sender P b sq (ac_link c) = (Inr (), (ac_link c)\<lparr>lk_up := p\<rparr>)" "C p (ts @ batch_toks sq b)"
    by (rule batch_sender_sends [OF assms(1) sq assms(3,4)])
  let ?c' = "c\<lparr>seq_id := sq, sequence_num := sequence_num c + 1, ac_link := (ac_link c)\<lparr>lk_up := p\<rparr>,
    requests := queue_push (batch_code b) (requests c)\<rparr>"
  have q: "queue_ok (requests c)" "int (length (m_queue (requests c))) < in_flight_limit c" "in_flight_limit c \<le> int_max"
    using A by (auto simp: in_flight_ok_def free_slots_def)
  have "length (m_queue (requests c)) < 2 ^ 31" using q by (simp add: int_max_def)
  then have size: "\<not> in_flight_limit c \<le> queue_size (requests c)" using queue_size_exact [OF q(1)] q(2) by simp
  have f: "fits64 (sequence_num c + 1)" "fits64 (sequence_num c + 1 + int n)" using A by (auto simp: fits64_def algebra_simps)
  have i: "issue_request (batch_sender P b) (batch_code b) c = (Inr (), ?c')"
    using size f(1) p(1) by (simp add: issue_request_def Let_def bindIO_def on_link_def assms(5) [symmetric])
  have e: "in_flight_ok ?c'" "m_queue (requests ?c') = m_queue (requests c) @ [batch_code b]"
    using issue_request_effect(1,5) [OF conjunct1 [OF A] i] by simp_all
  have "can_send n ?c'" using A e f sq unfolding can_send_def free_slots_def by simp
  then show ?thesis using that [OF i] p(2) e(2) by simp
qed

lemma run_benchmark_wire:
  assumes "thrift_protocol P C"
  shows "can_send (length trace) c \<Longrightarrow> list_all sendable trace \<Longrightarrow> C (lk_up (ac_link c)) ts \<Longrightarrow>
    \<exists>c'. run_benchmark P (returnIO ()) elapsed run_time i trace c = (Inr (i + sent elapsed run_time i trace), c') \<and>
      C (lk_up (ac_link c')) (ts @ numbered (seq_id c) (sequence_num c) (take (sent elapsed run_time i trace) trace)) \<and>
      in_flight_ok c' \<and> in_flight_limit c' = in_flight_limit c \<and> total c' = total c \<and>
      length (m_queue (requests c')) = length (m_queue (requests c)) + sent elapsed run_time i trace"
proof (induction trace arbitrary: c ts i)
  case Nil
  then show ?case by (auto simp: returnIO_def can_send_def)
next
  case (Cons b trace)
  show ?case
  proof (cases "elapsed i < wrap32 (run_time * 1000000)")
    case False
    then show ?thesis using Cons.prems by (auto simp: returnIO_def can_send_def)
  next
    case True
    have cs: "can_send (Suc (length trace)) c" "sendable b" using Cons.prems by simp_all
    obtain c1 where s: "issue_request (batch_sender P b) (batch_code b) c = (Inr (), c1)" "can_send (length trace) c1"
      "C (lk_up (ac_link c1)) (ts @ batch_toks (sequence_id_set_client_seq_no (sequence_num c) (seq_id c)) b)"
      "sequence_num c1 = sequence_num c + 1" "seq_id c1 = sequence_id_set_client_seq_no (sequence_num c) (seq_id c)"
      "total c1 = total c" "in_flight_limit c1 = in_flight_limit c" "m_queue (requests c1) = m_queue (requests c) @ [batch_code b]"
      by (rule issue_batch [OF assms cs Cons.prems(3) refl])
    have sq: "numbered (seq_id c1) k bs = numbered (seq_id c) k bs" for k bs
      by (induction bs arbitrary: k) (simp_all add: s(5) sequence_id_set_client_seq_no_def)
    have rest: "list_all sendable trace" using Cons.prems(2) by simp
    have "run_benchmark P (returnIO ()) elapsed run_time i (b # trace) c = run_benchmark P (returnIO ()) elapsed run_time (i + 1) trace c1"
      using True s(1) unfolding run_benchmark.simps send_batch by (simp add: bindIO_def returnIO_def)
    then show ?thesis using Cons.IH [OF s(2) rest s(3), of "i + 1"] True s(4,6-8) by (auto simp: sq)
  qed
qed

text \<open>One phase on a copy of the client: afterwards the client has its old sequence number.\<close>

lemma phase_wire:
  assumes "thrift_protocol P C" and "can_send (length trace + room) c" and "list_all sendable trace" and "C (lk_up (ac_link c)) ts"
    and "n = sent (ms_elapsed ms) run_time 0 trace" and "fits32 (total c)"
    and "lx' = (if stats then (fst lx @ map (ms_latency ms) [0..<n], wrap32 (snd lx + ms_xput ms 0)) else lx)"
  obtains c' where "by_value (measured_run P (returnIO ()) ms run_time stats trace lx) c = (Inr lx', c')" "can_send room c'"
    "C (lk_up (ac_link c')) (ts @ numbered (seq_id c) (sequence_num c) (take n trace))"
    "sequence_num c' = sequence_num c" "seq_id c' = seq_id c" "total c' = total c"
proof -
  have cs: "can_send (length trace) c" using assms(2) by (auto simp: can_send_def fits64_def)
  obtain c1 where r: "run_benchmark P (returnIO ()) (ms_elapsed ms) run_time 0 trace c = (Inr n, c1)"
    "C (lk_up (ac_link c1)) (ts @ numbered (seq_id c) (sequence_num c) (take n trace))" "in_flight_ok c1"
    "in_flight_limit c1 = in_flight_limit c" "total c1 = total c" "length (m_queue (requests c1)) = length (m_queue (requests c)) + n"
    using run_benchmark_wire [OF assms(1) cs assms(3,4), of "ms_elapsed ms" run_time 0] by (auto simp: assms(5))
  let ?c' = "c1\<lparr>sequence_num := sequence_num c, ac_client_id := ac_client_id c, seq_id := seq_id c, in_flight_limit := in_flight_limit c\<rparr>"
  have "add32 (total c) (- total c) = Inr 0" by (simp add: add32_def fits32_def int_min_def int_max_def)
  then have "measured_run P (returnIO ()) ms run_time stats trace lx c = (Inr lx', c1)"
    using r(1,5) by (simp add: measured_run_def bindIO_def num_requests_satisfied_def assms(7))
  then have "by_value (measured_run P (returnIO ()) ms run_time stats trace lx) c = (Inr lx', ?c')" by (simp add: by_value_def)
  moreover have "n \<le> length trace" unfolding assms(5) by (rule sent_le)
  then have "can_send room ?c'" using assms(2) r(3,4,6) by (auto simp: can_send_def free_slots_def in_flight_ok_def fits64_def)
  ultimately show ?thesis using that r(2,5) by simp
qed


definition sample_files :: disk where
  "sample_files = \<lparr>d_text = Map.empty, d_archive = Map.empty, d_writable = \<lambda>_. True\<rparr>"

definition idle_client :: "(string, unit) async_client" where
  "idle_client = \<lparr>ac_link = \<lparr>lk_up = '''', lk_down = '''', lk_iface = ()\<rparr>, ac_stream = '''', requests = queue_new, total = 0, done_flag = False,
     sequence_num = 0, ac_client_id = 1, seq_id = sequence_id_set_client_id 1 sequence_id_init, in_flight_limit = 2000\<rparr>"

definition idle_measures :: measures where
  "idle_measures = \<lparr>ms_elapsed = \<lambda>i. int i, ms_latency = \<lambda>i. 7, ms_xput = \<lambda>n. n\<rparr>"


end
