(* ===== verification/Spec2Isabelle.thy ===== *)
theory Spec2Isabelle
  imports Proxy_Oblivious Response_Claims Component_Claims Server_Ready
    Crypto_Claims Concurrent_Claims Thrift_Multi Trace_Claims
    Uniform_Claims Proxy_Consumers Workload_Claims Benchmark_Programs
begin

text \<open>
  Verification of the TS-Waffle proxy (\<open>src/waffle\<close>), an oblivious time-series store.  Clients store buckets
  \<open>item@timestamp\<close> and ask for the sum over a time range; the proxy keeps a cache, keeps everything else
  encrypted on a Redis server under locations that change with every access, and talks to that server in
  batches of fixed size that mix requested, least-recently-used and fake keys.

  \<^bold>\<open>Shared vocabulary.\<close>  \<open>Waffle_Prelude\<close> holds the outcomes of C++ code (\<open>cpp_error\<close>: exceptions, undefined
  behaviour, \<open>exit\<close>, aborts, waiting, running out of fuel), the result type \<open>'a res\<close>, the unordered maps of the
  standard library and 32-bit arithmetic; \<open>Cpp_Strings\<close> the string functions the code calls.

  \<^bold>\<open>Components\<close>, one theory each, with the source they translate:
  \<^item> \<open>Lru_Cache\<close> (\<open>proxy/src/Cache.cpp\<close>), \<open>Evicted_Items\<close> (\<open>evictedItems.cpp\<close>), both meeting the contract
    \<open>kv_table\<close> of \<open>Kv_Interface\<close>;
  \<^item> \<open>Frequency_Smoother\<close> (\<open>FrequencySmoother.cpp\<close>, \<open>TS_get_oldest_key.h\<close>, \<open>TS_search_master.h\<close>), meeting the
    contract \<open>access_index\<close> of \<open>Index_Interface\<close>;
  \<^item> \<open>Ts_Values\<close> (\<open>TS_value_master.h\<close>, \<open>TS_key_master.h\<close>, \<open>utils.h\<close>), \<open>Running_Keys\<close>
    (\<open>ThreadSafeUnorderedMap.h\<close>), \<open>Crypto_Engine\<close> (\<open>encryption_engine.cpp\<close>), \<open>Redis_Storage\<close> (\<open>libstorage/src/redis.cpp\<close>);
  \<^item> \<open>Waffle_Proxy\<close> (\<open>waffle_proxy.cpp\<close>: composing and executing a batch, the consumer and cleaner threads),
    \<open>Proxy_Init\<close> (its \<open>init\<close>), \<open>Proxy_Log\<close> (a batch with the recording of alpha) and \<open>Proxy_Consumers\<close> (several
    consumer threads on one proxy);
  \<^item> \<open>Work_Queue\<close> (\<open>queue.h\<close>, contract \<open>fifo\<close>) and \<open>Proxy_Frontend\<close> (the calls, futures and the responder thread of
    \<open>waffle_proxy.cpp\<close>);
  \<^item> \<open>Thrift_Protocol\<close>, \<open>Thrift_Structs\<close>, \<open>Thrift_Link\<close>, \<open>Thrift_Client\<close>, \<open>Thrift_Processor\<close> (the generated
    \<open>proxy_types.cpp\<close> and \<open>waffle_thrift.cpp\<close>), for every protocol that meets the contract \<open>thrift_protocol\<close>;
    \<open>Thrift_Binary\<close> is an instance of it;
  \<^item> \<open>Response_Channel\<close> (\<open>waffle_thrift_response.cpp\<close>, \<open>thrift_response_client*.cpp\<close>,
    \<open>command_response_reader.cpp\<close>), \<open>Thrift_Handler\<close> (\<open>thrift_handler*.cpp\<close>), \<open>Proxy_Clients\<close>
    (\<open>libclient/src\<close>), \<open>Proxy_Service\<close> (the parts put together);
  \<^item> \<open>Item_Words\<close> and \<open>Server_Main\<close> (\<open>utils/TS_key_master.h\<close>, \<open>config/tsconfig.cpp\<close>, \<open>server/src/proxy_server.cpp\<close>:
    identifiers, configuration and initial data), \<open>Server_Ready\<close> (\<open>main\<close>), with \<open>Random_Stream\<close> as an example generator;
  \<^item> \<open>Crypto_Signing\<close> (\<open>encryption_engine.cpp\<close>: constructors, keys, signing, verification), \<open>Thrift_Sync\<close> and
    \<open>Thrift_Concurrent\<close> (the concurrent client of \<open>waffle_thrift.cpp\<close>, over the contract \<open>concurrent_sync\<close>),
    \<open>Thrift_Multi\<close> (multifaces and factories), \<open>Trace_Files\<close> (\<open>TS_value_master.h\<close>, \<open>benchmark/src\<close>: traces and batches);
  \<^item> \<open>Workload_Files\<close> (\<open>tracefiles/*/*/gen*.cpp\<close>, \<open>utils/generate_TS_*.cpp\<close>: the programs that write the input files) and
    \<open>Benchmark_Programs\<close> (\<open>benchmark/src\<close>: options, phases and report of a benchmark client, and the start of \<open>main\<close>).
  The state of a class is a record, a method a function from the old to the new state; a thread is the
  function for one pass of its loop, and interleaving is the choice of the next pass.

  \<^bold>\<open>Code outside the repository\<close> is an argument with its documented behaviour as a hypothesis: OpenSSL
  (\<open>evp_lawful\<close>, \<open>mac_lawful\<close>), Redis (\<open>redis_lawful\<close>), the Thrift protocol and transport (\<open>thrift_protocol\<close>), Thrift's
  bookkeeping of shared connections (\<open>concurrent_sync\<close>), the concurrent hash table (\<open>client_table_laws\<close>), random numbers (a stream), the iteration order of unordered containers (a
  permutation), floating-point addition and printing.  \<open>env_ok\<close> collects the first ones for the proxy and asks that
  the PRF has no collision on the locations in use.  The sample environment of \<open>Sample_Run\<close> meets all of it.

  \<^bold>\<open>What is proved.\<close>  \<open>Proxy_Query\<close>, \<open>Proxy_Choose\<close>, \<open>Proxy_Batch\<close>, \<open>Proxy_Execute\<close>, \<open>Proxy_Compose\<close> and \<open>Proxy_System\<close>
  carry the invariant of the proxy through each operation; \<open>Store_Refinement\<close> shows that it implements a
  plain map from buckets to values, \<open>Proxy_Oblivious\<close> what the storage server can observe.  \<open>Proxy_Uniform\<close> bounds how
  long a location stays unread, for buckets and fake keys by one argument (locale \<open>draining\<close>), \<open>Proxy_Resident\<close> how
  long a key that was read stays in the cache.  The properties are in
  this theory (the proxy as a whole), in \<open>Uniform_Claims\<close> (these bounds and the recorded alphas), in \<open>Component_Claims\<close> (the components), in \<open>Service_Claims\<close> (the
  wire format and the remote calls) and in \<open>Response_Claims\<close> (responses, queues, handlers, clients), and in
  \<open>Start_Claims\<close> and \<open>Server_Ready\<close> (the start of the server), \<open>Crypto_Claims\<close> (copies of the engine, signatures), \<open>Concurrent_Claims\<close> (threads
  that share a connection), \<open>Trace_Claims\<close> and \<open>Workload_Claims\<close> (the workload); those about several
  consumer threads and about a benchmark client are in \<open>Proxy_Consumers\<close> and \<open>Benchmark_Programs\<close>.  Several of them state flaws: lost replies, lost values with zero bytes, a misaddressed response, truncated signatures, a loop
  that never ends, queries mixed up by two consumer threads, workload programs that hang,
  sequence numbers used again.

  \<^bold>\<open>Bounds and fuel.\<close>  \<open>cfg_ok\<close> relates the parameters: \<open>R + m - 1 + F \<le> B\<close> for queries of at most \<open>m\<close> buckets, at
  least \<open>B - F\<close> uncached and \<open>F\<close> fake keys, and timestamps below \<open>2 ^ 31\<close>.  The fuel of the loop over the fake keys is
  enough when it is at least \<open>F\<close>; the retry loops of \<open>init\<close> end for some fuel when the generator is fair
  (C11).  The fuel of the generated readers only has to exceed the number of fields,
  that of the workload converters the number of words of a line.

  \<^bold>\<open>Not modelled.\<close>  Console output, timing measurements and byte counts; event handlers, recursion
  limits and skeletons of the generated code; sockets and the Thrift server; interleavings
  of threads inside a method (the turns of \<open>Proxy_Consumers\<close> are whole operations and whole batches); a PUT to a bucket
  that exists, which the index does not support; the clock of the benchmarks, whose
  readings are arguments.
\<close>

section \<open>The proxy as a store\<close>

lemma refinement_run:
  assumes "env_ok e g db K T" and "cfg_ok fuel cfg m U nf T" and "sys_inv K V e db T m cfg U g nf st"
    and "(proxy_step fuel cfg e K V m T)\<^sup>*\<^sup>* st st'"
  shows "(store_step (e_float e))\<^sup>*\<^sup>* (abs_store V e db st) (abs_store V e db st')"
  using assms(4)
proof induction
  case (step y z)
  have "sys_inv K V e db T m cfg U g nf y" using sys_inv_reachable [OF assms(1,2) step.hyps(1) assms(3)] .
  then have "store_step (e_float e) (abs_store V e db y) (abs_store V e db z) \<or> abs_store V e db z = abs_store V e db y"
    using store_refinement [OF assms(1,2)] step.hyps(2) by blast
  then show ?case using step.IH by (metis rtranclp.rtrancl_into_rtrancl)
qed simp

text \<open>
  C1.  Every run of the proxy, from a successful initialisation through any interleaving of client GETs and
  PUTs, batch rounds and rounds of the cleaner, is a run of a plain time-series store: a map from bucket keys
  to values that starts with the initial data, where a PUT adds its bucket and drops the oldest bucket of the
  item (at once or at the next round), and every query is answered at the next round with the sum of the
  values its buckets had when it was asked.  Caching, encryption, relocation and fake traffic are invisible.
\<close>

theorem proxy_refines_store:
  assumes "env_ok e g db K T" and "0 \<le> T" and "distinct keys" and "keys \<noteq> []" and "\<forall>k \<in> set keys. canon k \<and> storable (V k)"
    and "set keys \<union> fake_names \<subseteq> K" and "init ifuel cfg e keys (map V keys) (proxy_new [srv] g pos) = Inr s"
    and "100 \<le> cacheBatches cfg * length keys" and "cacheBatches cfg \<le> 100"
    and "cfg_ok fuel cfg m (length keys - cacheBatches cfg * length keys div 100) (nat (cfg_D cfg)) T"
    and "(proxy_step fuel cfg e K V m T)\<^sup>*\<^sup>* (0, 0, [], 0, s) st"
  shows "abs_store V e db (0, 0, [], 0, s) =
      \<lparr>content = (\<lambda>k. if k \<in> set keys then Some (V k) else None), condemned = {}, waiting = Map.empty, replies = Map.empty\<rparr> \<and>
    (store_step (e_float e))\<^sup>*\<^sup>* (abs_store V e db (0, 0, [], 0, s)) (abs_store V e db st)"
proof -
  have c: "0 < m" "0 \<le> cfg_R cfg" "object_size cfg \<le> 4070" using assms(10) by (auto simp: cfg_ok_def)
  note I = init_ok [OF assms(1-6) c(3) assms(7)]
  have "pval e db s = (\<lambda>k. if k \<in> set keys then Some (V k) else None)"
    using pval_pinv [OF I(1)] I(2) by (auto simp: fun_eq_iff)
  then have "abs_store V e db (0, 0, [], 0, s) =
      \<lparr>content = (\<lambda>k. if k \<in> set keys then Some (V k) else None), condemned = {}, waiting = Map.empty, replies = Map.empty\<rparr>"
    using I(7-9) by (simp add: abs_store_def abs_waiting_def running_empty_def fun_eq_iff)
  moreover have "(store_step (e_float e))\<^sup>*\<^sup>* (abs_store V e db (0, 0, [], 0, s)) (abs_store V e db st)"
    by (rule refinement_run [OF assms(1,10) init_sys_inv [OF assms(1-6) c(3) assms(7-9) c(1,2)] assms(11)])
  ultimately show ?thesis by blast
qed

theorem proxy_refines_store_witness:
  "content (abs_store sample_values sample_env um_find (0, 0, [], 0, sample_state)) ''a@2'' = Some ''10'' \<and>
   (store_step (e_float sample_env))\<^sup>*\<^sup>* (abs_store sample_values sample_env um_find (0, 0, [], 0, sample_state))
     (abs_store sample_values sample_env um_find sample_asked)"
proof -
  have c: "cfg_ok 20 sample_cfg 2 (length sample_keys - cacheBatches sample_cfg * length sample_keys div 100) (nat (cfg_D sample_cfg)) 100"
    using sample_cfg_ok by (simp only: sample_sizes)
  have k: "''a@2'' \<in> set sample_keys" "sample_values ''a@2'' = ''10''" by (simp_all add: sample_keys_def sample_values_def)
  have "(proxy_step 20 sample_cfg sample_env UNIV sample_values 2 100)\<^sup>*\<^sup>* (0, 0, [], 0, sample_state) sample_asked"
    using sample_get_step by (rule r_into_rtranclp)
  from proxy_refines_store [OF sample_env_ok _ sample_keys_ok(2) sample_sizes(1) sample_keys_ok(1) _ sample_init_eq
    sample_sizes(3,4) c this] k show ?thesis by auto
qed

section \<open>What the storage server learns\<close>

text \<open>
  C2.  In every run no storage location is read by two batches (or twice by one), no location is written
  twice, and every batch consists of exactly \<open>B\<close> reads and \<open>B\<close> writes, whatever the clients request.
\<close>

theorem locations_used_once:
  assumes "env_ok e g db K T" and "cfg_ok fuel cfg m U nf T" and "sys_inv K V e db T m cfg U g nf st"
    and "proxy_run fuel cfg e K V m T st tr st'"
  shows "distinct (concat (map fst tr)) \<and> distinct (concat (map snd tr)) \<and>
    (\<forall>(rs, ws) \<in> set tr. length rs = nat (cfg_B cfg) \<and> length ws = nat (cfg_B cfg))"
proof -
  obtain i rid batch misses s where "st' = (i, rid, batch, misses, s)" by (metis prod_cases5)
  then show ?thesis using run_seen_once [OF assms(1,2,4,3)] unfolding seen_once_def by blast
qed

theorem locations_used_once_witness:
  "\<exists>rs ws st'. proxy_run 20 sample_cfg sample_env UNIV sample_values 2 100 sample_asked [(rs, ws)] st' \<and>
     distinct rs \<and> distinct ws \<and> length rs = 3 \<and> length ws = 3"
proof -
  obtain sk w s' where r: "consumer_round 20 sample_cfg sample_env [(''a@2'', '''')] (snd (snd (snd (snd sample_asked)))) = Inr (sk, w, s')"
    by (rule sample_round)
  have "observed 20 sample_cfg sample_env UNIV sample_values 2 100
    (2, 1, [(''a@2'', '''')], 1, snd (snd (snd (snd sample_asked)))) [(sk, writeBatchKeys w)] (0, 1, [], 0, s')"
    by (rule exchange [OF _ _ _ r]) (use sample_answerable in \<open>simp_all add: sample_cfg_def sample_asked_def sample_state_def\<close>)
  moreover have "sample_asked = (2, 1, [(''a@2'', '''')], 1, snd (snd (snd (snd sample_asked))))" by (simp add: sample_asked_def)
  ultimately have run: "proxy_run 20 sample_cfg sample_env UNIV sample_values 2 100 sample_asked [(sk, writeBatchKeys w)] (0, 1, [], 0, s')"
    using run_step [OF run_start] by (metis append_Nil)
  show ?thesis
    using locations_used_once [OF sample_env_ok sample_cfg_ok sample_asked_inv run, unfolded sample_batch_size] run
    by (intro exI [of _ sk] exI [of _ "writeBatchKeys w"] exI [of _ "(0, 1, [], 0, s')"]) simp
qed

text \<open>
  C8.  A batch reads \<open>B\<close> different locations, all of which exist on the server, and writes \<open>B\<close> different
  locations; what it has read becomes stale and is handed to the cleaner; every evicted and every fake entry
  is written where its key will next be looked up.
\<close>

theorem batch_traffic:
  assumes "env_ok e g db K T" and "cfg_ok fuel cfg m U nf T" and "sys_inv K V e db T m cfg U g nf (i, rid, batch, misses, s)"
    and "timeStamp s < T" and "answerable (e_float e) V (request_map (runningKeys s))"
    and "consumer_round fuel cfg e batch s = Inr (sk, w, s')"
  shows "length sk = nat (cfg_B cfg) \<and> distinct sk \<and> (\<forall>l \<in> set sk. db (server s) l \<noteq> None \<and> stale K e s' l) \<and>
    length (writeBatchKeys w) = nat (cfg_B cfg) \<and> length (writeBatchValues w) = nat (cfg_B cfg) \<and> distinct (writeBatchKeys w) \<and>
    (\<forall>l \<in> set (writeBatchKeys w). \<exists>k f. l = loc e g k f \<and>
       (live s' k \<and> f = fs_freq (realBst s') k \<or> fake s' k \<and> f = fs_freq (fakeBst s') k))"
proof -
  have "batch_post K V cfg e db s sk w s'" using observed_batch(1) [OF assms] .
  moreover have "encryption_engine s = g" using assms(3) by (simp add: sys_inv_def)
  ultimately show ?thesis unfolding batch_post_def by blast
qed

theorem batch_traffic_witness:
  "\<exists>s sk w s'. consumer_round 20 sample_cfg sample_env [(''a@2'', '''')] s = Inr (sk, w, s') \<and>
     length sk = 3 \<and> distinct sk \<and> length (writeBatchKeys w) = 3 \<and> (\<forall>l \<in> set sk. um_find (server s) l \<noteq> None)"
proof -
  obtain s where s: "s = snd (snd (snd (snd sample_asked)))" by blast
  obtain sk w s' where r: "consumer_round 20 sample_cfg sample_env [(''a@2'', '''')] s = Inr (sk, w, s')"
    using sample_round s by metis
  note F = sample_asked_facts [OF s]
  from batch_traffic [OF sample_env_ok sample_cfg_ok sample_asked_inv [unfolded F(1)] F(2,3) r, unfolded sample_batch_size]
  show ?thesis using r by blast
qed

section \<open>Every round answers\<close>



section \<open>The state invariant\<close>

text \<open>
  C7.  Every state reachable from a state that satisfies the system invariant satisfies it too; in
  particular the value a client would get for any live bucket, from the cache or by decrypting its current
  storage location, is the value that was put.
\<close>

theorem reachable_values:
  assumes "env_ok e g db K T" and "cfg_ok fuel cfg m U nf T" and "sys_inv K V e db T m cfg U g nf st"
    and "(proxy_step fuel cfg e K V m T)\<^sup>*\<^sup>* st (i, rid, batch, misses, s)"
  shows "sys_inv K V e db T m cfg U g nf (i, rid, batch, misses, s) \<and>
    (\<forall>k. pval e db s k = (if live s k then Some (V k) else None))"
proof -
  have "sys_inv K V e db T m cfg U g nf (i, rid, batch, misses, s)" using sys_inv_reachable [OF assms(1,2,4,3)] .
  moreover have "pinv K V e db s" using calculation by (simp add: sys_inv_def)
  ultimately show ?thesis using pval_pinv by blast
qed

theorem reachable_values_witness: "pval sample_env um_find sample_state ''a@2'' = Some ''10''"
proof -
  have "pval sample_env um_find sample_state ''a@2'' = (if live sample_state ''a@2'' then Some (sample_values ''a@2'') else None)"
    using reachable_values [OF sample_env_ok sample_cfg_ok sample_sys_inv rtranclp.rtrancl_refl] by blast
  then show ?thesis by (simp add: sample_live ts_key_def sample_stamps sample_values_def)
qed

text \<open>
  C10.  A round of the cleaner, at any moment, deletes exactly the locations of the oldest vector in its queue;
  none of them is the current location of a live or fake key, so no client sees a difference.
\<close>

theorem cleaner_is_harmless:
  assumes "env_ok e g db K T" and "sys_inv K V e db T m cfg U g nf (i, rid, batch, misses, s)" and "keysNotUsed s = ids # rest"
  shows "\<exists>s'. clear_round e s = Inr s' \<and> keysNotUsed s' = rest \<and> db (server s') = db (server s) |` (- set ids) \<and>
    (\<forall>k. live s k \<longrightarrow> loc e g k (fs_freq (realBst s) k) \<notin> set ids) \<and>
    (\<forall>k. fake s k \<longrightarrow> loc e g k (fs_freq (fakeBst s) k) \<notin> set ids) \<and>
    pval e db s' = pval e db s \<and> sys_inv K V e db T m cfg U g nf (i, rid, batch, misses, s')"
proof -
  have I: "pinv K V e db s" "encryption_engine s = g" "timeStamp s \<le> T" using assms(2) by (auto simp: sys_inv_def)
  obtain srv where c: "clear_round e s = Inr (s\<lparr>storage := [srv], keysNotUsed := rest\<rparr>)" "db srv = db (server s) |` (- set ids)"
    using clear_round_ok [OF _ I(1,3) assms(3)] assms(1) I(2) by blast
  note C = sys_clean [OF assms(1,2) c(1)]
  have "pval e db (s\<lparr>storage := [srv], keysNotUsed := rest\<rparr>) = pval e db s"
    using refine_clean [OF assms(1,2) c(1)] by (simp add: abs_store_def)
  moreover have "stale K e s l" if "l \<in> set ids" for l using pinvD(15) [OF I(1), of ids l] assms(3) that by simp
  then have "\<forall>k. live s k \<longrightarrow> loc e g k (fs_freq (realBst s) k) \<notin> set ids" "\<forall>k. fake s k \<longrightarrow> loc e g k (fs_freq (fakeBst s) k) \<notin> set ids"
    using stale_not_current [OF _ I(1,3)] assms(1) I(2) by blast+
  ultimately show ?thesis using c C(1) by (intro exI [of _ "s\<lparr>storage := [srv], keysNotUsed := rest\<rparr>"]) (simp add: server_def)
qed

theorem cleaner_is_harmless_witness:
  "\<exists>s s'. clear_round sample_env s = Inr s' \<and> keysNotUsed s \<noteq> [] \<and> keysNotUsed s' = [] \<and> pval sample_env um_find s' = pval sample_env um_find s"
proof -
  obtain s0 where s0: "s0 = snd (snd (snd (snd sample_asked)))" by blast
  obtain sk w s ids where r: "consumer_round 20 sample_cfg sample_env [(''a@2'', '''')] s0 = Inr (sk, w, s)"
    and k: "keysNotUsed s = [ids]" using sample_round s0 by metis
  note F = sample_asked_facts [OF s0]
  have "sys_inv UNIV sample_values sample_env um_find 100 2 sample_cfg 2 sample_engine 2 (0, 1, [], 0, s)"
    using observed_batch(2) [OF sample_env_ok sample_cfg_ok sample_asked_inv [unfolded F(1)] F(2,3) r] .
  from cleaner_is_harmless [OF sample_env_ok this k] show ?thesis using k by (metis list.distinct(1))
qed

section \<open>From the client to the storage server and back\<close>



end
